(* ===== verification/L4_Prelude.thy ===== *)
theory L4_Prelude
  imports Main "HOL-Library.Word"
begin

text \<open>
  Shared vocabulary of the development: the machine types of
  \<^verbatim>\<open>include/arch/mips64/types.h\<close>, the address arithmetic of
  \<^verbatim>\<open>include/types.h\<close>, bit fields of a machine word (the unions of raw
  words and C bit fields that the kernel uses for thread ids, flexpages, message tags and
  the kernel interface page), and the generic lemmas about them that the component
  theories use.  The collections \<^verbatim>\<open>l4_defs\<close> and
  \<^verbatim>\<open>l4_frame\<close> gather the unfolding rules and the frame rules of the
  components.
\<close>

unbundle bit_operations_syntax

named_theorems l4_defs "definitions that are unfolded together"
named_theorems l4_frame "frame rules: what an operation leaves alone"

section \<open>Machine types\<close>

type_synonym word_t = "64 word"
type_synonym u64_t = "64 word"
type_synonym u32_t = "32 word"
type_synonym u16_t = "16 word"
type_synonym u8_t = "8 word"
type_synonym addr_t = "64 word"
type_synonym prio_t = int
type_synonym cpuid_t = "16 word"

section \<open>Bit fields\<close>

text \<open>
  \<^verbatim>\<open>bf_get off n w\<close> reads the field of \<^verbatim>\<open>n\<close> bits that
  starts at bit \<^verbatim>\<open>off\<close> (counted from the least significant bit);
  \<^verbatim>\<open>bf_set off n v w\<close> stores the low \<^verbatim>\<open>n\<close> bits of
  \<^verbatim>\<open>v\<close> there, as an assignment to a C bit field does.  The macros
  \<^verbatim>\<open>BITFIELDn\<close> of \<^verbatim>\<open>include/macros.h\<close> reverse the
  declaration order on a big-endian machine, so that the first field they list always
  starts at bit 0.
\<close>

definition bf_get :: "nat \<Rightarrow> nat \<Rightarrow> 'a::len word \<Rightarrow> 'a word" where
  "bf_get off n w = take_bit n (drop_bit off w)"

definition bf_set :: "nat \<Rightarrow> nat \<Rightarrow> 'a::len word \<Rightarrow> 'a word \<Rightarrow> 'a word" where
  "bf_set off n v w = (w AND NOT (push_bit off (mask n))) OR push_bit off (take_bit n v)"

lemma bit_bf_get [bit_simps]:
  "bit (bf_get off n w) i \<longleftrightarrow> i < n \<and> bit w (off + i)"
  for w :: "'a::len word"
  by (auto simp: bf_get_def bit_simps)

lemma bit_bf_set [bit_simps]:
  "bit (bf_set off n v w) i \<longleftrightarrow>
     (if off \<le> i \<and> i < off + n then i < LENGTH('a) \<and> bit v (i - off) else bit w i)"
  for w :: "'a::len word"
  by (auto simp: bf_set_def bit_simps dest: bit_imp_le_length)

lemma bf_get_set_same:
  "off + n \<le> LENGTH('a) \<Longrightarrow> bf_get off n (bf_set off n v w) = take_bit n v"
  for w :: "'a::len word"
  by (rule bit_eqI) (auto simp: bit_simps)

lemma bf_get_set_other:
  "off + n \<le> off' \<or> off' + n' \<le> off \<Longrightarrow> bf_get off n (bf_set off' n' v w) = bf_get off n w"
  for w :: "'a::len word"
  by (rule bit_eqI) (auto simp: bit_simps)

lemma bf_set_set_same [simp]:
  "bf_set off n v (bf_set off n u w) = bf_set off n v w"
  for w :: "'a::len word"
  by (rule bit_eqI) (auto simp: bit_simps)

lemma bf_set_bf_get [simp]:
  "bf_set off n (bf_get off n w) w = w"
  for w :: "'a::len word"
  by (rule bit_eqI) (auto simp: bit_simps dest: bit_imp_le_length)

lemma bf_get_bound: "unat (bf_get off n w) < 2 ^ n"
  for w :: "'a::len word"
  by (simp add: bf_get_def unsigned_take_bit_eq)

lemma take_bit_bf_get [simp]: "take_bit n (bf_get off n w) = bf_get off n w"
  by (simp add: bf_get_def)

lemma bf_get_zero [simp]: "bf_get off n 0 = 0"
  by (simp add: bf_get_def)

text \<open>Two words that agree on two fields that cover the word are equal.\<close>

lemma bf_split_eqI:
  fixes v w :: "'a::len word"
  assumes "bf_get 0 n v = bf_get 0 n w" and "bf_get n m v = bf_get n m w"
    and "LENGTH('a) \<le> n + m"
  shows "v = w"
proof (rule bit_eqI)
  fix i assume "possible_bit TYPE('a word) i"
  then have i: "i < LENGTH('a)" by (simp add: possible_bit_word)
  show "bit v i \<longleftrightarrow> bit w i"
  proof (cases "i < n")
    case True
    have "bit (bf_get 0 n v) i = bit (bf_get 0 n w) i" by (simp add: assms(1))
    with True show ?thesis by (simp add: bit_simps)
  next
    case False
    then have "bit (bf_get n m v) (i - n) = bit (bf_get n m w) (i - n)" by (simp add: assms(2))
    with False i assms(3) show ?thesis by (auto simp: bit_simps)
  qed
qed

section \<open>Words below a power of two\<close>

lemma take_bit_id_of_bound:
  "unat w < 2 ^ n \<Longrightarrow> take_bit n w = w"
  for w :: "'a::len word"
  by (metis take_bit_nat_eq_self_iff unsigned_take_bit_eq word_unat_eq_iff)

lemma unat_ucast_up:
  "LENGTH('a) \<le> LENGTH('b) \<Longrightarrow> unat (ucast (w :: 'a::len word) :: 'b::len word) = unat w"
proof -
  assume "LENGTH('a) \<le> LENGTH('b)"
  moreover have "unat w < 2 ^ LENGTH('a)" by (rule unsigned_less)
  ultimately have "unat w < 2 ^ LENGTH('b)"
    using power_increasing [of "LENGTH('a)" "LENGTH('b)" "2 :: nat"] by linarith
  then show ?thesis by (simp add: unsigned_ucast_eq take_bit_nat_eq_self)
qed

lemma unat_lt64: "unat w < 2 ^ 64" for w :: word_t
  by (rule order_less_le_trans [OF unsigned_less]) simp

lemma unat_add_small:
  "unat x + unat y < 2 ^ 64 \<Longrightarrow> unat (x + y) = unat x + unat y" for x y :: word_t
  by (simp add: unat_word_ariths)

lemma unat_plus_1: "x < y \<Longrightarrow> unat (x + 1) = Suc (unat x)" for x y :: word_t
  using unat_lt64 [of y] by (subst unat_add_small) (simp_all add: word_less_nat_alt)

lemma unat_exp: "n < LENGTH('a) \<Longrightarrow> unat (2 ^ n :: 'a::len word) = 2 ^ n"
proof -
  assume "n < LENGTH('a)"
  then have "(2 :: nat) ^ n < 2 ^ LENGTH('a)" by simp
  moreover have "unat (of_nat (2 ^ n) :: 'a word) = take_bit LENGTH('a) (2 ^ n)"
    by (simp only: unsigned_of_nat of_nat_id)
  ultimately show ?thesis by (simp add: take_bit_nat_eq_self)
qed

section \<open>Addresses (include/types.h)\<close>

definition addr_offset :: "addr_t \<Rightarrow> word_t \<Rightarrow> addr_t" where
  "addr_offset addr off = addr + off"

definition addr_mask :: "addr_t \<Rightarrow> word_t \<Rightarrow> addr_t" where
  "addr_mask addr m = addr AND m"

definition addr_align :: "addr_t \<Rightarrow> word_t \<Rightarrow> addr_t" where
  "addr_align addr align = addr_mask addr (NOT (align - 1))"

definition addr_align_up :: "addr_t \<Rightarrow> word_t \<Rightarrow> addr_t" where
  "addr_align_up addr align = addr_mask (addr_offset addr (align - 1)) (NOT (align - 1))"

lemma align_mask_mod:
  "a AND NOT (2 ^ n - 1) = a - take_bit n a"
  for a :: "'a::len word"
proof -
  have "a AND NOT (mask n) = push_bit n (drop_bit n a)"
    by (rule bit_eqI) (auto simp: bit_simps)
  also have "\<dots> = a - take_bit n a"
    using bits_ident [of n a] by (simp add: algebra_simps)
  finally show ?thesis by (simp add: mask_eq_exp_minus_1)
qed

lemma unat_align_down:
  "unat (a AND NOT (2 ^ n - 1)) = unat a - unat a mod 2 ^ n"
  for a :: "'a::len word"
proof -
  have le: "take_bit n a \<le> a"
    by (metis take_bit_eq_mask word_and_le2)
  have "unat (take_bit n a) = unat a mod 2 ^ n"
    unfolding unsigned_take_bit_eq by (rule take_bit_eq_mod)
  then show ?thesis
    unfolding align_mask_mod using le by (simp add: unat_sub)
qed

lemma and_not_eq_self: "x AND msk = 0 \<Longrightarrow> x AND NOT msk = x" for x msk :: word_t
proof (rule bit_word_eqI)
  fix n
  assume "x AND msk = 0"
  then have "bit (x AND msk) n = bit (0 :: word_t) n" by simp
  then show "bit (x AND NOT msk) n = bit x n" if "n < LENGTH(64)" using that by (auto simp: bit_simps)
qed

end
