(* ===== verification/Ring_Queue.thy ===== *)
theory Ring_Queue
  imports L4_Prelude
begin

text \<open>
  The intrusive ring lists of \<^verbatim>\<open>include/api/v4/queueing.h\<close>: the macros
  \<^verbatim>\<open>ENQUEUE_LIST_TAIL\<close>, \<^verbatim>\<open>ENQUEUE_LIST_HEAD\<close> and
  \<^verbatim>\<open>DEQUEUE_LIST\<close> over an explicit store of
  \<^verbatim>\<open>ringlist_t\<close> cells (\<^verbatim>\<open>include/api/v4/tcb.h\<close>),
  assignment by assignment.  The predicate \<^verbatim>\<open>queue\<close> says that a head
  pointer and a store represent a list; the locale \<^verbatim>\<open>ring_queue\<close> is the
  contract the scheduler and the thread control blocks rely on, and its interpretation
  shows that the macros keep it.
\<close>

section \<open>Cells and macros\<close>

record 'p ringlist_t =
  rl_next :: 'p
  rl_prev :: 'p

type_synonym 'p links = "'p \<Rightarrow> 'p ringlist_t"

definition set_next :: "'p \<Rightarrow> 'p \<Rightarrow> 'p links \<Rightarrow> 'p links" where
  "set_next p v l = l(p := (l p)\<lparr>rl_next := v\<rparr>)"

definition set_prev :: "'p \<Rightarrow> 'p \<Rightarrow> 'p links \<Rightarrow> 'p links" where
  "set_prev p v l = l(p := (l p)\<lparr>rl_prev := v\<rparr>)"

definition enqueue_list_tail :: "'p \<Rightarrow> 'p \<Rightarrow> 'p \<Rightarrow> 'p links \<Rightarrow> 'p \<times> 'p links" where
  "enqueue_list_tail null head tcb l =
     (if head = null
      then (tcb, set_next tcb tcb (set_prev tcb tcb l))
      else
        let l1 = set_next tcb head l;
            l2 = set_prev tcb (rl_prev (l1 head)) l1;
            l3 = set_next (rl_prev (l2 head)) tcb l2;
            l4 = set_prev head tcb l3
        in (head, l4))"

definition enqueue_list_head :: "'p \<Rightarrow> 'p \<Rightarrow> 'p \<Rightarrow> 'p links \<Rightarrow> 'p \<times> 'p links" where
  "enqueue_list_head null head tcb l =
     (if head = null
      then (tcb, set_next tcb tcb (set_prev tcb tcb l))
      else
        let l1 = set_next tcb head l;
            l2 = set_prev tcb (rl_prev (l1 head)) l1;
            l3 = set_next (rl_prev (l2 head)) tcb l2;
            l4 = set_prev head tcb l3
        in (tcb, l4))"

definition dequeue_list :: "'p \<Rightarrow> 'p \<Rightarrow> 'p \<Rightarrow> 'p links \<Rightarrow> 'p \<times> 'p links" where
  "dequeue_list null head tcb l =
     (if rl_next (l tcb) = tcb
      then (null, set_next tcb null (set_prev tcb null l))
      else
        let head' = (if head = tcb then rl_next (l tcb) else head);
            l1 = set_prev (rl_next (l tcb)) (rl_prev (l tcb)) l;
            l2 = set_next (rl_prev (l1 tcb)) (rl_next (l1 tcb)) l1
        in (head', l2))"

lemma set_next_apply [simp]:
  "rl_next (set_next p v l q) = (if q = p then v else rl_next (l q))"
  "rl_prev (set_next p v l q) = rl_prev (l q)"
  by (auto simp: set_next_def)

lemma set_prev_apply [simp]:
  "rl_prev (set_prev p v l q) = (if q = p then v else rl_prev (l q))"
  "rl_next (set_prev p v l q) = rl_next (l q)"
  by (auto simp: set_prev_def)

lemma set_next_other: "q \<noteq> p \<Longrightarrow> set_next p v l q = l q"
  by (simp add: set_next_def)

lemma set_prev_other: "q \<noteq> p \<Longrightarrow> set_prev p v l q = l q"
  by (simp add: set_prev_def)

section \<open>Chains and rings\<close>

text \<open>
  \<^verbatim>\<open>chain l a xs b\<close>: following \<^verbatim>\<open>next\<close> from
  \<^verbatim>\<open>a\<close> visits exactly \<^verbatim>\<open>xs\<close> and then
  \<^verbatim>\<open>b\<close>, and every \<^verbatim>\<open>prev\<close> pointer is the inverse.  A
  ring is a chain from its first element back to it.
\<close>

primrec chain :: "'p links \<Rightarrow> 'p \<Rightarrow> 'p list \<Rightarrow> 'p \<Rightarrow> bool" where
  "chain l a [] b \<longleftrightarrow> rl_next (l a) = b \<and> rl_prev (l b) = a"
| "chain l a (x # xs) b \<longleftrightarrow> rl_next (l a) = x \<and> rl_prev (l x) = a \<and> chain l x xs b"

lemma chain_append_Cons [simp]:
  "chain l a (xs @ y # ys) b \<longleftrightarrow> chain l a xs y \<and> chain l y ys b"
  by (induction xs arbitrary: a) auto

lemma chain_set_next [simp]:
  "p \<noteq> a \<Longrightarrow> p \<notin> set xs \<Longrightarrow> chain (set_next p v l) a xs b \<longleftrightarrow> chain l a xs b"
  by (induction xs arbitrary: a) auto

lemma chain_set_prev [simp]:
  "p \<noteq> b \<Longrightarrow> p \<notin> set xs \<Longrightarrow> chain (set_prev p v l) a xs b \<longleftrightarrow> chain l a xs b"
  by (induction xs arbitrary: a) auto

lemma chain_cong:
  "(\<And>p. p = a \<or> p = b \<or> p \<in> set xs \<Longrightarrow> l p = l' p) \<Longrightarrow> chain l a xs b \<longleftrightarrow> chain l' a xs b"
proof (induction xs arbitrary: a)
  case Nil
  then show ?case by simp
next
  case (Cons x xs)
  have "chain l x xs b \<longleftrightarrow> chain l' x xs b"
    by (rule Cons.IH) (auto intro: Cons.prems)
  moreover have "l a = l' a" and "l x = l' x" by (auto intro: Cons.prems)
  ultimately show ?case by simp
qed

definition ring :: "'p links \<Rightarrow> 'p list \<Rightarrow> bool" where
  "ring l xs \<longleftrightarrow> (case xs of [] \<Rightarrow> True | x # xs' \<Rightarrow> chain l x xs' x)"

definition queue :: "'p \<Rightarrow> 'p \<Rightarrow> 'p links \<Rightarrow> 'p list \<Rightarrow> bool" where
  "queue null head l xs \<longleftrightarrow>
     null \<notin> set xs \<and> distinct xs \<and> ring l xs \<and> head = (case xs of [] \<Rightarrow> null | x # _ \<Rightarrow> x)"

lemma queue_Nil [simp]: "queue null h l [] \<longleftrightarrow> h = null"
  by (simp add: queue_def ring_def)

lemma queue_Cons:
  "queue null h l (x # xs) \<longleftrightarrow>
     h = x \<and> x \<noteq> null \<and> null \<notin> set xs \<and> x \<notin> set xs \<and> distinct xs \<and> chain l x xs x"
  by (auto simp: queue_def ring_def)

lemma queue_null_iff: "queue null h l xs \<Longrightarrow> h = null \<longleftrightarrow> xs = []"
  by (cases xs) (auto simp: queue_Cons)

lemma queue_distinct: "queue null h l xs \<Longrightarrow> distinct xs"
  by (simp add: queue_def)

lemma queue_null_notin: "queue null h l xs \<Longrightarrow> null \<notin> set xs"
  by (simp add: queue_def)

lemma queue_cong:
  assumes "\<And>p. p \<in> set xs \<Longrightarrow> l p = l' p"
  shows "queue null h l xs \<longleftrightarrow> queue null h l' xs"
proof (cases xs)
  case Nil
  then show ?thesis by simp
next
  case (Cons x xs')
  have "chain l x xs' x \<longleftrightarrow> chain l' x xs' x"
    by (rule chain_cong) (use assms Cons in auto)
  with Cons show ?thesis by (simp add: queue_Cons)
qed

text \<open>A ring may be read from any of its elements: the ready queue rotates this way.\<close>

lemma queue_rotate:
  "queue null h l (xs @ y # ys) \<Longrightarrow> queue null y l (y # ys @ xs)"
  by (cases xs) (auto simp: queue_Cons)

text \<open>The representation is unique: a head pointer stands for one list only.\<close>

lemma chain_unique:
  "chain l a xs b \<Longrightarrow> chain l a ys b \<Longrightarrow> b \<notin> set xs \<Longrightarrow> b \<notin> set ys \<Longrightarrow> xs = ys"
proof (induction xs arbitrary: a ys)
  case Nil
  then show ?case by (cases ys) auto
next
  case (Cons x xs)
  then show ?case by (cases ys) auto
qed

lemma queue_unique:
  "queue null h l xs \<Longrightarrow> queue null h l ys \<Longrightarrow> xs = ys"
  by (cases xs; cases ys) (auto simp: queue_Cons dest: chain_unique)

section \<open>The macros keep the representation\<close>

lemma enqueue_tail_snoc:
  assumes q: "queue null h l xs" and x: "x \<notin> set xs" "x \<noteq> null"
    and e: "enqueue_list_tail null h x l = (h', l')"
  shows "queue null h' l' (xs @ [x])"
proof (cases xs rule: rev_cases)
  case Nil
  with q e x show ?thesis
    by (auto simp: enqueue_list_tail_def queue_Cons)
next
  case (snoc ys y)
  show ?thesis
  proof (cases ys)
    case Nil
    with q e x snoc show ?thesis
      by (auto simp: enqueue_list_tail_def queue_Cons Let_def)
  next
    case (Cons z zs)
    with q e x snoc show ?thesis
      by (auto simp: enqueue_list_tail_def queue_Cons Let_def)
  qed
qed

lemma enqueue_head_as_tail:
  assumes "enqueue_list_tail null h x l = (h', l')"
  shows "enqueue_list_head null h x l = (x, l')"
  using assms by (auto simp: enqueue_list_head_def enqueue_list_tail_def Let_def split: if_splits)

lemma enqueue_head_Cons:
  assumes q: "queue null h l xs" and x: "x \<notin> set xs" "x \<noteq> null"
    and e: "enqueue_list_head null h x l = (h', l')"
  shows "queue null h' l' (x # xs)"
proof -
  obtain h1 l1 where t: "enqueue_list_tail null h x l = (h1, l1)" by (cases "enqueue_list_tail null h x l")
  from enqueue_head_as_tail [OF t] e have "h' = x" and "l' = l1" by auto
  moreover have "queue null h1 l1 (xs @ [x])" by (rule enqueue_tail_snoc [OF q x t])
  ultimately show ?thesis using queue_rotate [of null h1 l1 xs x "[]"] by simp
qed

lemma dequeue_first:
  assumes q: "queue null x l (x # xs)" and e: "dequeue_list null x x l = (h', l')"
  shows "queue null h' l' xs"
proof (cases xs)
  case Nil
  with q e show ?thesis by (auto simp: dequeue_list_def queue_Cons)
next
  case (Cons y ys)
  show ?thesis
  proof (cases ys rule: rev_cases)
    case Nil
    with q e Cons show ?thesis by (auto simp: dequeue_list_def queue_Cons Let_def)
  next
    case (snoc zs z)
    with q e Cons show ?thesis by (auto simp: dequeue_list_def queue_Cons Let_def)
  qed
qed

text \<open>
  Dequeueing any other element is dequeueing the first element of the rotated ring; only
  the head pointer differs.
\<close>

lemma dequeue_list_links:
  "snd (dequeue_list null h x l) = snd (dequeue_list null x x l)"
  by (simp add: dequeue_list_def Let_def)

lemma dequeue_list_head_other:
  "h \<noteq> x \<Longrightarrow> rl_next (l x) \<noteq> x \<Longrightarrow> fst (dequeue_list null h x l) = h"
  by (simp add: dequeue_list_def Let_def)

lemma dequeue_later:
  assumes q: "queue null h l (z # ys @ x # zs)" and e: "dequeue_list null h x l = (h', l')"
  shows "queue null h' l' (z # ys @ zs)"
proof -
  let ?hx = "fst (dequeue_list null x x l)"
  have rot: "queue null x l (x # zs @ z # ys)"
    using queue_rotate [of null h l "z # ys" x zs] q by simp
  have hz: "h = z" and zx: "z \<noteq> x" using q by (auto simp: queue_Cons)
  have l': "l' = snd (dequeue_list null x x l)"
    using e dequeue_list_links [of null h x l] by simp
  have nx: "rl_next (l x) \<noteq> x"
    using rot by (cases zs) (auto simp: queue_Cons)
  have h': "h' = z"
    using e dequeue_list_head_other [of h x l null] zx hz nx by simp
  have "queue null ?hx l' (zs @ z # ys)"
    using dequeue_first [OF rot] l' by (metis prod.collapse)
  then show ?thesis using h' queue_rotate [of null ?hx l' zs z ys] by simp
qed

lemma dequeue_remove1:
  assumes q: "queue null h l xs" and x: "x \<in> set xs"
    and e: "dequeue_list null h x l = (h', l')"
  shows "queue null h' l' (remove1 x xs)"
proof (cases xs)
  case Nil
  with x show ?thesis by simp
next
  case (Cons z zs)
  show ?thesis
  proof (cases "x = z")
    case True
    then show ?thesis using dequeue_first [of null x l zs h' l'] q e Cons by (auto simp: queue_Cons)
  next
    case False
    with x Cons obtain as bs where s: "zs = as @ x # bs" by (auto dest: split_list)
    with q Cons have "x \<notin> set as" by (auto simp: queue_Cons)
    with s False Cons show ?thesis using dequeue_later [of null h l z as x bs h' l'] q e
      by (simp add: remove1_append)
  qed
qed

text \<open>Cells outside the queue and the element that moves are not written.\<close>

lemma queue_prev_in:
  "queue null h l xs \<Longrightarrow> xs \<noteq> [] \<Longrightarrow> rl_prev (l h) \<in> set xs"
  by (cases xs rule: rev_cases; cases "butlast xs") (auto simp: queue_Cons neq_Nil_conv append_eq_Cons_conv)

lemma enqueue_tail_frame:
  assumes q: "queue null h l xs" and e: "enqueue_list_tail null h x l = (h', l')"
    and p: "p \<noteq> x" "p \<notin> set xs"
  shows "l' p = l p"
proof (cases "xs = []")
  case True
  with q e p show ?thesis by (auto simp: enqueue_list_tail_def set_next_other set_prev_other)
next
  case False
  with q have "p \<noteq> rl_prev (l h)" and "p \<noteq> h" and "h \<noteq> null"
    using queue_prev_in [OF q] p(2) by (auto simp: queue_Cons neq_Nil_conv)
  with e p(1) show ?thesis
    by (cases "h = x") (auto simp: enqueue_list_tail_def Let_def set_next_other set_prev_other)
qed

lemma enqueue_head_frame:
  assumes "queue null h l xs" and "enqueue_list_head null h x l = (h', l')"
    and "p \<noteq> x" "p \<notin> set xs"
  shows "l' p = l p"
  using assms enqueue_tail_frame [of null h l xs x _ _ p] enqueue_head_as_tail [of null h x l]
  by (metis prod.inject surj_pair)

lemma queue_nbrs_in:
  assumes q: "queue null h l xs" and x: "x \<in> set xs"
  shows "rl_next (l x) \<in> set xs" and "rl_prev (l x) \<in> set xs"
proof -
  from x obtain as bs where s: "xs = as @ x # bs" by (auto dest: split_list)
  with q have r: "queue null x l (x # bs @ as)" by (auto intro: queue_rotate)
  have set_eq: "set (x # bs @ as) = set xs" using s by auto
  show "rl_prev (l x) \<in> set xs" using queue_prev_in [OF r] set_eq by auto
  show "rl_next (l x) \<in> set xs"
    using r set_eq by (cases "bs @ as") (auto simp: queue_Cons)
qed

lemma dequeue_frame:
  assumes q: "queue null h l xs" and x: "x \<in> set xs"
    and e: "dequeue_list null h x l = (h', l')" and p: "p \<notin> set xs"
  shows "l' p = l p"
  using queue_nbrs_in [OF q x] e p x
  by (auto simp: dequeue_list_def Let_def set_next_def set_prev_def split: if_splits)

section \<open>The contract\<close>

locale ring_queue =
  fixes null :: 'p
    and enq_tail :: "'p \<Rightarrow> 'p \<Rightarrow> 'p links \<Rightarrow> 'p \<times> 'p links"
    and enq_head :: "'p \<Rightarrow> 'p \<Rightarrow> 'p links \<Rightarrow> 'p \<times> 'p links"
    and deq :: "'p \<Rightarrow> 'p \<Rightarrow> 'p links \<Rightarrow> 'p \<times> 'p links"
    and repr :: "'p \<Rightarrow> 'p links \<Rightarrow> 'p list \<Rightarrow> bool"
  assumes repr_null: "repr h l xs \<Longrightarrow> h = null \<longleftrightarrow> xs = []"
    and repr_hd: "repr h l xs \<Longrightarrow> xs \<noteq> [] \<Longrightarrow> h = hd xs"
    and repr_distinct: "repr h l xs \<Longrightarrow> distinct xs"
    and repr_cong: "(\<And>p. p \<in> set xs \<Longrightarrow> l p = l' p) \<Longrightarrow> repr h l xs \<longleftrightarrow> repr h l' xs"
    and enq_tail: "repr h l xs \<Longrightarrow> x \<notin> set xs \<Longrightarrow> x \<noteq> null \<Longrightarrow>
          enq_tail h x l = (h', l') \<Longrightarrow> repr h' l' (xs @ [x])"
    and enq_head: "repr h l xs \<Longrightarrow> x \<notin> set xs \<Longrightarrow> x \<noteq> null \<Longrightarrow>
          enq_head h x l = (h', l') \<Longrightarrow> repr h' l' (x # xs)"
    and deq: "repr h l xs \<Longrightarrow> x \<in> set xs \<Longrightarrow> deq h x l = (h', l') \<Longrightarrow> repr h' l' (remove1 x xs)"
    and enq_tail_frame: "repr h l xs \<Longrightarrow> enq_tail h x l = (h', l') \<Longrightarrow>
          p \<noteq> x \<Longrightarrow> p \<notin> set xs \<Longrightarrow> l' p = l p"
    and enq_head_frame: "repr h l xs \<Longrightarrow> enq_head h x l = (h', l') \<Longrightarrow>
          p \<noteq> x \<Longrightarrow> p \<notin> set xs \<Longrightarrow> l' p = l p"
    and deq_frame: "repr h l xs \<Longrightarrow> x \<in> set xs \<Longrightarrow> deq h x l = (h', l') \<Longrightarrow>
          p \<notin> set xs \<Longrightarrow> l' p = l p"
begin

lemma enq_tail_deq:
  assumes "repr h l xs" "x \<notin> set xs" "x \<noteq> null"
    and "enq_tail h x l = (h1, l1)" and "deq h1 x l1 = (h2, l2)"
  shows "repr h2 l2 xs"
  using deq [OF enq_tail [OF assms(1-4)] _ assms(5)] assms(2)
  by (simp add: remove1_append)

lemma enq_head_deq:
  assumes "repr h l xs" "x \<notin> set xs" "x \<noteq> null"
    and "enq_head h x l = (h1, l1)" and "deq h1 x l1 = (h2, l2)"
  shows "repr h2 l2 xs"
  using deq [OF enq_head [OF assms(1-4)] _ assms(5)] by simp

text \<open>A second queue on the same links is untouched when the two are disjoint.\<close>

lemma enq_tail_other:
  assumes "repr h l xs" "repr k l ys" "x \<notin> set ys" "set xs \<inter> set ys = {}"
    and "enq_tail h x l = (h1, l1)"
  shows "repr k l1 ys"
proof -
  have "\<And>p. p \<in> set ys \<Longrightarrow> l p = l1 p"
    using assms enq_tail_frame by (metis disjoint_iff)
  then show ?thesis using repr_cong assms(2) by blast
qed

lemma enq_head_other:
  assumes "repr h l xs" "repr k l ys" "x \<notin> set ys" "set xs \<inter> set ys = {}"
    and "enq_head h x l = (h1, l1)"
  shows "repr k l1 ys"
proof -
  have "\<And>p. p \<in> set ys \<Longrightarrow> l p = l1 p"
    using assms enq_head_frame by (metis disjoint_iff)
  then show ?thesis using repr_cong assms(2) by blast
qed

lemma deq_other:
  assumes "repr h l xs" "repr k l ys" "x \<in> set xs" "set xs \<inter> set ys = {}"
    and "deq h x l = (h1, l1)"
  shows "repr k l1 ys"
proof -
  have "\<And>p. p \<in> set ys \<Longrightarrow> l p = l1 p"
    using assms deq_frame by (metis disjoint_iff)
  then show ?thesis using repr_cong assms(2) by blast
qed

end

interpretation rq: ring_queue null "enqueue_list_tail null" "enqueue_list_head null"
  "dequeue_list null" "queue null" for null :: 'p
proof (unfold_locales, goal_cases)
  case (1 h l xs) then show ?case by (rule queue_null_iff)
next
  case (2 h l xs) then show ?case by (cases xs) (auto simp: queue_Cons)
next
  case (3 h l xs) then show ?case by (rule queue_distinct)
next
  case (4 xs l l' h) then show ?case by (rule queue_cong)
next
  case (5 h l xs x h' l') then show ?case by (rule enqueue_tail_snoc)
next
  case (6 h l xs x h' l') then show ?case by (rule enqueue_head_Cons)
next
  case (7 h l xs x h' l') then show ?case by (rule dequeue_remove1)
next
  case (8 h l xs x h' l' p) then show ?case by (rule enqueue_tail_frame)
next
  case (9 h l xs x h' l' p) then show ?case by (rule enqueue_head_frame)
next
  case (10 h l xs x h' l' p) then show ?case by (rule dequeue_frame)
qed

end
