(* ===== verification/Api_Types.thy ===== *)
theory Api_Types
  imports L4_Prelude
begin

text \<open>
  The value types of the V4 API: thread ids (\<^verbatim>\<open>thread.h\<close>), thread and
  queue states (\<^verbatim>\<open>threadstate.h\<close>, \<^verbatim>\<open>queuestate.h\<close>), times
  and timeouts (\<^verbatim>\<open>types.h\<close>), flexpages (\<^verbatim>\<open>fpage.h\<close>),
  message tags, typed items, acceptors and IPC error codes (\<^verbatim>\<open>ipc.h\<close>),
  preemption flags (\<^verbatim>\<open>preempt.h\<close>) and bit masks
  (\<^verbatim>\<open>bitmask.h\<close>).  Each class is a union of a raw word and bit fields; a
  value is its raw word and every accessor is a bit-field read or write, in the layout of the
  64-bit configuration.
\<close>

section \<open>Thread ids (api/v4/thread.h)\<close>

type_synonym threadid_t = word_t

definition set_global_id :: "word_t \<Rightarrow> word_t \<Rightarrow> threadid_t \<Rightarrow> threadid_t" where
  "set_global_id threadno version tid = bf_set 0 32 version (bf_set 32 32 threadno tid)"

definition threadid :: "word_t \<Rightarrow> word_t \<Rightarrow> threadid_t" where
  "threadid threadno version = bf_set 32 32 threadno (bf_set 0 32 version 0)"

definition anythread :: threadid_t where
  "anythread = - 1"

definition anylocalthread :: threadid_t where
  "anylocalthread = bf_set 6 58 (- 1) (bf_set 0 6 0 0)"

definition nilthread :: threadid_t where
  "nilthread = 0"

definition irqthread :: "word_t \<Rightarrow> threadid_t" where
  "irqthread irq = bf_set 32 32 irq (bf_set 0 32 1 0)"

definition get_threadno :: "threadid_t \<Rightarrow> word_t" where
  "get_threadno tid = bf_get 32 32 tid"

definition get_version :: "threadid_t \<Rightarrow> word_t" where
  "get_version tid = bf_get 0 32 tid"

definition get_irqno :: "threadid_t \<Rightarrow> word_t" where
  "get_irqno tid = get_threadno tid"

definition is_global :: "threadid_t \<Rightarrow> bool" where
  "is_global tid \<longleftrightarrow> bf_get 0 6 tid \<noteq> 0"

definition is_local :: "threadid_t \<Rightarrow> bool" where
  "is_local tid \<longleftrightarrow> bf_get 0 6 tid = 0"

definition is_interrupt :: "word_t \<Rightarrow> threadid_t \<Rightarrow> bool" where
  "is_interrupt system_base tid \<longleftrightarrow> get_version tid = 1 \<and> get_threadno tid < system_base"

definition is_nilthread :: "threadid_t \<Rightarrow> bool" where
  "is_nilthread tid \<longleftrightarrow> tid = 0"

definition is_anythread :: "threadid_t \<Rightarrow> bool" where
  "is_anythread tid \<longleftrightarrow> tid = - 1"

definition is_anylocalthread :: "threadid_t \<Rightarrow> bool" where
  "is_anylocalthread tid \<longleftrightarrow> tid = anylocalthread"

section \<open>Thread states (api/v4/threadstate.h)\<close>

type_synonym thread_state_t = word_t

definition RUNNABLE_STATE :: "word_t \<Rightarrow> thread_state_t" where
  "RUNNABLE_STATE i = push_bit 1 i OR 0"

definition BLOCKED_STATE :: "word_t \<Rightarrow> thread_state_t" where
  "BLOCKED_STATE i = push_bit 1 i OR 1"

definition running :: thread_state_t where "running = RUNNABLE_STATE 1"

definition waiting_forever :: thread_state_t where "waiting_forever = BLOCKED_STATE (NOT 0)"

definition waiting_timeout :: thread_state_t where "waiting_timeout = BLOCKED_STATE 2"

definition waiting_tunneled_pf :: thread_state_t where "waiting_tunneled_pf = BLOCKED_STATE 10"

definition locked_waiting :: thread_state_t where "locked_waiting = BLOCKED_STATE 3"

definition locked_running :: thread_state_t where "locked_running = RUNNABLE_STATE 4"

definition locked_running_ipc_done :: thread_state_t where
  "locked_running_ipc_done = RUNNABLE_STATE 9"

definition locked_running_nested :: thread_state_t where
  "locked_running_nested = RUNNABLE_STATE 11"

definition polling :: thread_state_t where "polling = BLOCKED_STATE 5"

definition halted :: thread_state_t where "halted = BLOCKED_STATE 6"

definition aborted :: thread_state_t where "aborted = BLOCKED_STATE 7"

definition xcpu_waiting_deltcb :: thread_state_t where "xcpu_waiting_deltcb = BLOCKED_STATE 8"

definition xcpu_waiting_exregs :: thread_state_t where "xcpu_waiting_exregs = BLOCKED_STATE 12"

definition is_runnable :: "thread_state_t \<Rightarrow> bool" where
  "is_runnable st \<longleftrightarrow> \<not> (st AND 1 \<noteq> 0)"

definition is_sending :: "thread_state_t \<Rightarrow> bool" where
  "is_sending st \<longleftrightarrow> st = polling \<or> st = locked_running"

definition is_receiving :: "thread_state_t \<Rightarrow> bool" where
  "is_receiving st \<longleftrightarrow> st = waiting_forever \<or> st = waiting_timeout \<or> st = locked_waiting"

definition is_halted :: "thread_state_t \<Rightarrow> bool" where
  "is_halted st \<longleftrightarrow> st = halted"

definition is_aborted :: "thread_state_t \<Rightarrow> bool" where
  "is_aborted st \<longleftrightarrow> st = aborted"

definition is_running :: "thread_state_t \<Rightarrow> bool" where
  "is_running st \<longleftrightarrow> st = running"

definition is_waiting :: "thread_state_t \<Rightarrow> bool" where
  "is_waiting st \<longleftrightarrow> st = waiting_forever \<or> st = waiting_timeout"

definition is_waiting_forever :: "thread_state_t \<Rightarrow> bool" where
  "is_waiting_forever st \<longleftrightarrow> st = waiting_forever"

definition is_waiting_with_timeout :: "thread_state_t \<Rightarrow> bool" where
  "is_waiting_with_timeout st \<longleftrightarrow> st = waiting_timeout"

definition is_polling :: "thread_state_t \<Rightarrow> bool" where
  "is_polling st \<longleftrightarrow> st = polling"

definition is_locked_running :: "thread_state_t \<Rightarrow> bool" where
  "is_locked_running st \<longleftrightarrow> st = locked_running"

definition is_locked_waiting :: "thread_state_t \<Rightarrow> bool" where
  "is_locked_waiting st \<longleftrightarrow> st = locked_waiting"

definition is_xcpu_waiting :: "thread_state_t \<Rightarrow> bool" where
  "is_xcpu_waiting st \<longleftrightarrow> st = xcpu_waiting_deltcb \<or> st = xcpu_waiting_exregs"

lemma thread_state_vals:
  "running = 2" "waiting_forever = - 1" "waiting_timeout = 5" "waiting_tunneled_pf = 21"
  "locked_waiting = 7" "locked_running = 8" "locked_running_ipc_done = 18"
  "locked_running_nested = 22" "polling = 11" "halted = 13" "aborted = 15"
  "xcpu_waiting_deltcb = 17" "xcpu_waiting_exregs = 25"
  by (simp_all add: RUNNABLE_STATE_def BLOCKED_STATE_def running_def waiting_forever_def
      waiting_timeout_def waiting_tunneled_pf_def locked_waiting_def locked_running_def
      locked_running_ipc_done_def locked_running_nested_def polling_def halted_def aborted_def
      xcpu_waiting_deltcb_def xcpu_waiting_exregs_def)

lemmas thread_state_preds =
  is_sending_def is_receiving_def is_halted_def is_aborted_def is_running_def
  is_waiting_def is_waiting_forever_def is_waiting_with_timeout_def is_polling_def
  is_locked_running_def is_locked_waiting_def is_xcpu_waiting_def

section \<open>Queue membership bits (api/v4/queuestate.h)\<close>

datatype queue_state_e = qs_ready | qs_wakeup | qs_late_wakeup | qs_wait | qs_send | qs_xcpu

fun queue_state_val :: "queue_state_e \<Rightarrow> word_t" where
  "queue_state_val qs_ready = 1"
| "queue_state_val qs_wakeup = 2"
| "queue_state_val qs_late_wakeup = 4"
| "queue_state_val qs_wait = 8"
| "queue_state_val qs_send = 16"
| "queue_state_val qs_xcpu = 32"

definition qstate_init :: word_t where
  "qstate_init = 0"

definition qstate_clear :: "queue_state_e \<Rightarrow> word_t \<Rightarrow> word_t" where
  "qstate_clear e st = st AND NOT (queue_state_val e)"

definition qstate_set :: "queue_state_e \<Rightarrow> word_t \<Rightarrow> word_t" where
  "qstate_set e st = st OR queue_state_val e"

definition qstate_is_set :: "queue_state_e \<Rightarrow> word_t \<Rightarrow> bool" where
  "qstate_is_set e st \<longleftrightarrow> (st AND queue_state_val e) = queue_state_val e"

text \<open>Every membership bit is a power of two, so the three operations act on one bit.\<close>

fun queue_state_bit :: "queue_state_e \<Rightarrow> nat" where
  "queue_state_bit qs_ready = 0"
| "queue_state_bit qs_wakeup = 1"
| "queue_state_bit qs_late_wakeup = 2"
| "queue_state_bit qs_wait = 3"
| "queue_state_bit qs_send = 4"
| "queue_state_bit qs_xcpu = 5"

lemma queue_state_val_bit: "queue_state_val e = push_bit (queue_state_bit e) 1"
  by (cases e) simp_all

lemma queue_state_bit_less: "queue_state_bit e < 64"
  by (cases e) simp_all

lemma queue_state_bit_inj: "queue_state_bit e = queue_state_bit e' \<longleftrightarrow> e = e'"
  by (cases e; cases e') simp_all

lemma and_single_bit:
  "(w AND push_bit n 1 = push_bit n 1) \<longleftrightarrow> bit w n" if "n < LENGTH('a)" for w :: "'a::len word"
proof
  assume "w AND push_bit n 1 = push_bit n 1"
  then have "bit (w AND push_bit n 1) n = bit (push_bit n 1 :: 'a word) n" by simp
  then show "bit w n" using that by (simp add: bit_simps)
next
  assume "bit w n"
  then show "w AND push_bit n 1 = push_bit n 1"
    by (intro bit_eqI) (auto simp: bit_simps)
qed

lemma qstate_is_set_bit: "qstate_is_set e st \<longleftrightarrow> bit st (queue_state_bit e)"
  unfolding qstate_is_set_def queue_state_val_bit
  by (rule and_single_bit) (use queue_state_bit_less in simp)

lemma qstate_is_set_set [simp]:
  "qstate_is_set e (qstate_set e' st) \<longleftrightarrow> e = e' \<or> qstate_is_set e st"
  using queue_state_bit_less [of e] queue_state_bit_inj [of e e']
  by (auto simp: qstate_is_set_bit qstate_set_def queue_state_val_bit bit_simps)

lemma qstate_is_set_clear [simp]:
  "qstate_is_set e (qstate_clear e' st) \<longleftrightarrow> e \<noteq> e' \<and> qstate_is_set e st"
  using queue_state_bit_less [of e] queue_state_bit_inj [of e e']
  by (auto simp: qstate_is_set_bit qstate_clear_def queue_state_val_bit bit_simps)

lemma qstate_is_set_init [simp]: "\<not> qstate_is_set e qstate_init"
  by (simp add: qstate_is_set_bit qstate_init_def)

section \<open>Preemption flags (api/v4/preempt.h)\<close>

type_synonym preempt_flags_t = u8_t

definition is_signaled :: "preempt_flags_t \<Rightarrow> bool" where
  "is_signaled f \<longleftrightarrow> bf_get 5 1 f \<noteq> 0"

definition is_delayed :: "preempt_flags_t \<Rightarrow> bool" where
  "is_delayed f \<longleftrightarrow> bf_get 6 1 f \<noteq> 0"

definition is_pending :: "preempt_flags_t \<Rightarrow> bool" where
  "is_pending f \<longleftrightarrow> bf_get 7 1 f \<noteq> 0"

definition set_pending :: "preempt_flags_t \<Rightarrow> preempt_flags_t" where
  "set_pending f = bf_set 7 1 1 f"

definition clear_pending :: "preempt_flags_t \<Rightarrow> preempt_flags_t" where
  "clear_pending f = bf_set 7 1 0 f"

lemma pending_set_clear [simp]:
  "is_pending (set_pending f)" "\<not> is_pending (clear_pending f)"
  by (simp_all add: is_pending_def set_pending_def clear_pending_def bf_get_set_same)

lemma pending_keeps_delayed [simp]:
  "is_delayed (set_pending f) \<longleftrightarrow> is_delayed f" "is_delayed (clear_pending f) \<longleftrightarrow> is_delayed f"
  "is_signaled (set_pending f) \<longleftrightarrow> is_signaled f" "is_signaled (clear_pending f) \<longleftrightarrow> is_signaled f"
  by (simp_all add: is_delayed_def is_signaled_def set_pending_def clear_pending_def
      bf_get_set_other)

section \<open>Bit masks (include/bitmask.h)\<close>

type_synonym bitmask_t = word_t

definition bitmask_add :: "bitmask_t \<Rightarrow> nat \<Rightarrow> bitmask_t" where
  "bitmask_add m n = m OR push_bit n 1"

definition bitmask_sub :: "bitmask_t \<Rightarrow> nat \<Rightarrow> bitmask_t" where
  "bitmask_sub m n = m AND NOT (push_bit n 1)"

definition bitmask_is_set :: "bitmask_t \<Rightarrow> nat \<Rightarrow> bool" where
  "bitmask_is_set m n \<longleftrightarrow> (m AND push_bit n 1) \<noteq> 0"

lemma and_single_bit_neq_0:
  "(w AND push_bit n 1 \<noteq> 0) \<longleftrightarrow> bit w n" if "n < LENGTH('a)" for w :: "'a::len word"
proof
  assume "bit w n"
  then have "bit (w AND push_bit n 1) n" using that by (simp add: bit_simps)
  then show "w AND push_bit n 1 \<noteq> 0" by auto
next
  assume ne: "w AND push_bit n 1 \<noteq> 0"
  have "w AND push_bit n 1 = 0" if "\<not> bit w n"
    using that by (intro bit_eqI) (auto simp: bit_simps)
  with ne show "bit w n" by blast
qed

lemma bitmask_is_set_bit: "n < 64 \<Longrightarrow> bitmask_is_set m n \<longleftrightarrow> bit m n"
  unfolding bitmask_is_set_def by (rule and_single_bit_neq_0) simp

lemma bitmask_is_set_add:
  "n < 64 \<Longrightarrow> k < 64 \<Longrightarrow> bitmask_is_set (bitmask_add m k) n \<longleftrightarrow> n = k \<or> bitmask_is_set m n"
  unfolding bitmask_is_set_bit bitmask_add_def by (auto simp: bit_simps)

lemma bitmask_is_set_sub:
  "n < 64 \<Longrightarrow> k < 64 \<Longrightarrow> bitmask_is_set (bitmask_sub m k) n \<longleftrightarrow> n \<noteq> k \<and> bitmask_is_set m n"
  unfolding bitmask_is_set_bit bitmask_sub_def by (auto simp: bit_simps)

section \<open>Round trips of thread ids\<close>

lemma get_threadno_threadid: "get_threadno (threadid n v) = take_bit 32 n"
  by (simp add: get_threadno_def threadid_def bf_get_set_same)

lemma get_version_threadid: "get_version (threadid n v) = take_bit 32 v"
  by (simp add: get_version_def threadid_def bf_get_set_same bf_get_set_other)

lemma threadid_eta: "threadid (get_threadno tid) (get_version tid) = tid"
proof (rule bf_split_eqI [where n = 32 and m = 32])
  show "bf_get 0 32 (threadid (get_threadno tid) (get_version tid)) = bf_get 0 32 tid"
    by (simp add: threadid_def get_version_def bf_get_set_same bf_get_set_other)
  show "bf_get 32 32 (threadid (get_threadno tid) (get_version tid)) = bf_get 32 32 tid"
    by (simp add: threadid_def get_threadno_def bf_get_set_same bf_get_set_other)
qed simp

lemma irqthread_threadid: "irqthread irq = threadid irq 1"
  by (simp add: irqthread_def threadid_def)

lemma is_local_not_global: "is_local tid \<longleftrightarrow> \<not> is_global tid"
  by (simp add: is_local_def is_global_def)

end
