(* ===== verification/Api_Messages.thy ===== *)
theory Api_Messages
  imports Api_Types
begin

text \<open>
  Times and timeouts (\<^verbatim>\<open>api/v4/types.h\<close>), message tags, typed message items,
  acceptors and the encoding of IPC error codes (\<^verbatim>\<open>api/v4/ipc.h\<close>), with
  the round trips of the encodings and the range in which a time period is exact.
\<close>

section \<open>Times (api/v4/types.h)\<close>

type_synonym time_t = u16_t

definition time_mantissa :: "time_t \<Rightarrow> u16_t" where "time_mantissa t = bf_get 0 10 t"

definition time_exponent :: "time_t \<Rightarrow> u16_t" where "time_exponent t = bf_get 10 5 t"

definition time_type :: "time_t \<Rightarrow> u16_t" where "time_type t = bf_get 15 1 t"

definition time_never :: time_t where "time_never = 0"

definition time_zero :: time_t where
  "time_zero = bf_set 15 1 0 (bf_set 10 5 1 (bf_set 0 10 0 0))"

definition time_period :: "u16_t \<Rightarrow> u16_t \<Rightarrow> time_t" where
  "time_period mantissa exponent = bf_set 15 1 0 (bf_set 10 5 exponent (bf_set 0 10 mantissa 0))"

definition time_point :: "u16_t \<Rightarrow> u16_t \<Rightarrow> time_t" where
  "time_point mantissa exponent = bf_set 15 1 1 (bf_set 10 5 exponent (bf_set 0 10 mantissa 0))"

definition time_is_never :: "time_t \<Rightarrow> bool" where "time_is_never t \<longleftrightarrow> t = 0"

definition time_is_zero :: "time_t \<Rightarrow> bool" where "time_is_zero t \<longleftrightarrow> time_zero = t"

definition time_is_period :: "time_t \<Rightarrow> bool" where "time_is_period t \<longleftrightarrow> time_type t = 0"

definition time_is_point :: "time_t \<Rightarrow> bool" where "time_is_point t \<longleftrightarrow> time_type t = 1"

text \<open>
  \<^verbatim>\<open>(1 << exponent) * mantissa\<close> is computed in \<^verbatim>\<open>int\<close> (the bit fields
  promote to \<^verbatim>\<open>int\<close>) and then converted to \<^verbatim>\<open>u64_t\<close>: the
  product is a 32-bit value that is sign-extended.
\<close>

definition get_microseconds :: "time_t \<Rightarrow> u64_t" where
  "get_microseconds t =
     scast (push_bit (unat (time_exponent t)) (1 :: 32 word) * ucast (time_mantissa t))"

text \<open>
  \<^verbatim>\<open>time_t::operator<\<close> (\<^verbatim>\<open>schedule.cc\<close>) with the scheduler's current
  time as a parameter.  Time points reach \<^verbatim>\<open>UNIMPLEMENTED()\<close>, which loops
  forever in the release configuration: the result is \<^const>\<open>None\<close> there.
\<close>

definition time_less :: "u64_t \<Rightarrow> time_t \<Rightarrow> time_t \<Rightarrow> bool option" where
  "time_less curtime l r =
     (if time_is_point l then None
      else
        let l_to = (if time_is_never l then NOT 0 else curtime + get_microseconds l)
        in if time_is_point r then None
           else
             let r_to = (if time_is_never r then NOT 0 else curtime + get_microseconds r)
             in Some (l_to < r_to))"

type_synonym timeout_t = word_t

definition timeout_never :: timeout_t where "timeout_never = 0"

definition get_rcv :: "timeout_t \<Rightarrow> time_t" where "get_rcv t = ucast (bf_get 0 16 t)"

definition get_snd :: "timeout_t \<Rightarrow> time_t" where "get_snd t = ucast (bf_get 16 16 t)"

definition timeout_is_never :: "timeout_t \<Rightarrow> bool" where "timeout_is_never t \<longleftrightarrow> t = timeout_never"

section \<open>Message tags (api/v4/ipc.h)\<close>

type_synonym msg_tag_t = word_t

definition get_label :: "msg_tag_t \<Rightarrow> word_t" where "get_label t = bf_get 16 48 t"

definition get_typed :: "msg_tag_t \<Rightarrow> word_t" where "get_typed t = bf_get 6 6 t"

definition get_untyped :: "msg_tag_t \<Rightarrow> word_t" where "get_untyped t = bf_get 0 6 t"

definition clear_flags :: "msg_tag_t \<Rightarrow> msg_tag_t" where
  "clear_flags t = t AND NOT (push_bit 12 0xf)"

definition clear_receive_flags :: "msg_tag_t \<Rightarrow> msg_tag_t" where
  "clear_receive_flags t = t AND NOT (push_bit 12 0xe)"

definition msg_tag_set :: "word_t \<Rightarrow> word_t \<Rightarrow> word_t \<Rightarrow> msg_tag_t" where
  "msg_tag_set typed untyped label =
     bf_set 16 48 label (bf_set 0 6 untyped (bf_set 6 6 typed 0))"

definition is_error :: "msg_tag_t \<Rightarrow> bool" where "is_error t \<longleftrightarrow> bf_get 15 1 t \<noteq> 0"

definition set_error :: "msg_tag_t \<Rightarrow> msg_tag_t" where "set_error t = bf_set 15 1 1 t"

definition is_redirected :: "msg_tag_t \<Rightarrow> bool" where "is_redirected t \<longleftrightarrow> bf_get 13 1 t \<noteq> 0"

definition set_redirected :: "msg_tag_t \<Rightarrow> msg_tag_t" where "set_redirected t = bf_set 13 1 1 t"

definition is_propagated :: "msg_tag_t \<Rightarrow> bool" where "is_propagated t \<longleftrightarrow> bf_get 12 1 t \<noteq> 0"

definition set_propagated :: "bool \<Rightarrow> msg_tag_t \<Rightarrow> msg_tag_t" where
  "set_propagated v t = bf_set 12 1 (of_bool v) t"

definition is_xcpu :: "msg_tag_t \<Rightarrow> bool" where "is_xcpu t \<longleftrightarrow> bf_get 14 1 t \<noteq> 0"

definition set_xcpu :: "msg_tag_t \<Rightarrow> msg_tag_t" where "set_xcpu t = bf_set 14 1 1 t"

definition error_tag :: msg_tag_t where "error_tag = set_error 0"

definition irq_tag :: msg_tag_t where "irq_tag = msg_tag_set 0 0 (push_bit 4 (- 1))"

definition preemption_tag :: msg_tag_t where "preemption_tag = msg_tag_set 0 0 (push_bit 4 (- 3))"

definition pagefault_tag :: "bool \<Rightarrow> bool \<Rightarrow> bool \<Rightarrow> msg_tag_t" where
  "pagefault_tag read write exec =
     msg_tag_set 0 2 (push_bit 4 (- 2) OR (if read then push_bit 2 1 else 0) OR
       (if write then push_bit 1 1 else 0) OR (if exec then push_bit 0 1 else 0))"

section \<open>Typed items and acceptors (api/v4/ipc.h)\<close>

type_synonym msg_item_t = word_t

definition item_type :: "msg_item_t \<Rightarrow> word_t" where "item_type i = bf_get 1 3 i"

definition is_map_item :: "msg_item_t \<Rightarrow> bool" where "is_map_item i \<longleftrightarrow> item_type i = 4"

definition is_grant_item :: "msg_item_t \<Rightarrow> bool" where "is_grant_item i \<longleftrightarrow> item_type i = 5"

definition is_string_item :: "msg_item_t \<Rightarrow> bool" where
  "is_string_item i \<longleftrightarrow> item_type i AND 4 = 0"

definition more_strings :: "msg_item_t \<Rightarrow> bool" where "more_strings i \<longleftrightarrow> bf_get 0 1 i \<noteq> 0"

definition get_string_length :: "msg_item_t \<Rightarrow> word_t" where "get_string_length i = bf_get 10 54 i"

definition get_string_ptr_count :: "msg_item_t \<Rightarrow> word_t" where
  "get_string_ptr_count i = bf_get 4 5 i + 1"

definition is_string_compound :: "msg_item_t \<Rightarrow> bool" where
  "is_string_compound i \<longleftrightarrow> bf_get 9 1 i \<noteq> 0"

definition get_snd_base :: "msg_item_t \<Rightarrow> word_t" where "get_snd_base i = i AND NOT 0x3ff"

type_synonym acceptor_t = word_t

definition acceptor_clear :: acceptor_t where "acceptor_clear = 0"

definition accept_strings :: "acceptor_t \<Rightarrow> bool" where "accept_strings a \<longleftrightarrow> bf_get 0 1 a \<noteq> 0"

definition get_rcv_window :: "acceptor_t \<Rightarrow> word_t" where
  "get_rcv_window a = push_bit 4 (bf_get 4 60 a)"

definition set_rcv_window :: "word_t \<Rightarrow> acceptor_t \<Rightarrow> acceptor_t" where
  "set_rcv_window fpage a = bf_set 4 60 (drop_bit 4 fpage) a"

section \<open>Error codes (api/v4/ipc.h)\<close>

definition ERR_IPC_TIMEOUT :: word_t where "ERR_IPC_TIMEOUT = 1"

definition ERR_IPC_NON_EXISTING :: word_t where "ERR_IPC_NON_EXISTING = 2"

definition ERR_IPC_CANCELED :: word_t where "ERR_IPC_CANCELED = 3"

definition ERR_IPC_MSG_OVERFLOW :: "word_t \<Rightarrow> word_t" where
  "ERR_IPC_MSG_OVERFLOW off = 4 + push_bit 3 off"

definition ERR_IPC_XFER_TIMEOUT_CURRENT :: "word_t \<Rightarrow> word_t" where
  "ERR_IPC_XFER_TIMEOUT_CURRENT off = 5 + push_bit 3 off"

definition ERR_IPC_XFER_TIMEOUT_PARTNER :: "word_t \<Rightarrow> word_t" where
  "ERR_IPC_XFER_TIMEOUT_PARTNER off = 6 + push_bit 3 off"

definition ERR_IPC_ABORTED :: "word_t \<Rightarrow> word_t" where
  "ERR_IPC_ABORTED off = 7 + push_bit 3 off"

definition IPC_SND_ERROR :: "word_t \<Rightarrow> word_t" where
  "IPC_SND_ERROR err = push_bit 1 err OR 0"

definition IPC_RCV_ERROR :: "word_t \<Rightarrow> word_t" where
  "IPC_RCV_ERROR err = push_bit 1 err OR 1"

definition IPC_MR0_PAGEFAULT :: word_t where
  "IPC_MR0_PAGEFAULT = push_bit 4 (- 2)"

section \<open>Times: where a period is exact\<close>

lemma time_period_fields:
  "time_mantissa (time_period m e) = take_bit 10 m"
  "time_exponent (time_period m e) = take_bit 5 e"
  "time_type (time_period m e) = 0"
  by (simp_all add: time_period_def time_mantissa_def time_exponent_def time_type_def
      bf_get_set_same bf_get_set_other)

lemma time_point_fields:
  "time_mantissa (time_point m e) = take_bit 10 m"
  "time_exponent (time_point m e) = take_bit 5 e"
  "time_type (time_point m e) = 1"
  by (simp_all add: time_point_def time_mantissa_def time_exponent_def time_type_def
      bf_get_set_same bf_get_set_other)

lemma scast_small:
  "unat w < 2 ^ 31 \<Longrightarrow> scast (w :: 32 word) = (ucast w :: 64 word)"
proof -
  assume "unat w < 2 ^ 31"
  then have "int (unat w) < int (2 ^ 31)" by (simp only: of_nat_less_iff)
  then have "uint w < 2 ^ 31" by simp
  moreover have "- (2 ^ 31) \<le> uint w" by (rule order_trans [of _ 0]) simp_all
  ultimately have "signed_take_bit 31 (uint w) = uint w" by (intro signed_take_bit_int_eq_self)
  then have "sint w = uint w" by (subst sint_uint) simp
  then show ?thesis unfolding scast_eq ucast_eq by (rule arg_cong)
qed

lemma get_microseconds_exact:
  assumes "unat (time_mantissa t) * 2 ^ unat (time_exponent t) < 2 ^ 31"
  shows "unat (get_microseconds t) = unat (time_mantissa t) * 2 ^ unat (time_exponent t)"
proof -
  let ?m = "ucast (time_mantissa t) :: 32 word" and ?e = "unat (time_exponent t)"
  have m: "unat ?m = unat (time_mantissa t)"
    by (simp add: unat_ucast_up)
  have e: "?e < 32" using bf_get_bound [of 10 5 t] by (simp add: time_exponent_def)
  have p: "unat (2 ^ ?e :: 32 word) = 2 ^ ?e"
    using e by (simp add: unat_exp)
  have "unat (2 ^ ?e * ?m) = unat (time_mantissa t) * 2 ^ ?e"
    using assms by (subst unat_mult_lem [THEN iffD1]) (simp_all add: p m mult.commute)
  moreover from this assms have "get_microseconds t = ucast (2 ^ ?e * ?m)"
    unfolding get_microseconds_def push_bit_eq_mult mult_1_left by (intro scast_small) simp
  ultimately show ?thesis by (simp add: unat_ucast_up)
qed

section \<open>Tags and error codes: round trips\<close>

lemma msg_tag_set_fields:
  "get_typed (msg_tag_set t u l) = take_bit 6 t"
  "get_untyped (msg_tag_set t u l) = take_bit 6 u"
  "get_label (msg_tag_set t u l) = take_bit 48 l"
  "\<not> is_error (msg_tag_set t u l)" "\<not> is_propagated (msg_tag_set t u l)"
  by (simp_all add: msg_tag_set_def get_typed_def get_untyped_def get_label_def is_error_def
      is_propagated_def bf_get_set_same bf_get_set_other)

lemma set_error_fields [simp]:
  "is_error (set_error t)" "get_typed (set_error t) = get_typed t"
  "get_untyped (set_error t) = get_untyped t" "get_label (set_error t) = get_label t"
  "is_propagated (set_error t) \<longleftrightarrow> is_propagated t"
  by (simp_all add: set_error_def get_typed_def get_untyped_def get_label_def is_error_def
      is_propagated_def bf_get_set_same bf_get_set_other)

lemma is_error_error_tag [simp]: "is_error error_tag"
  by (simp add: error_tag_def)

lemma one_bit_neq_0: "bf_get n 1 w \<noteq> 0 \<longleftrightarrow> bit w n" for w :: "'a::len word"
proof
  assume "bit w n"
  then have "bit (bf_get n 1 w) 0" by (simp add: bit_simps)
  then show "bf_get n 1 w \<noteq> 0" by auto
next
  assume "bf_get n 1 w \<noteq> 0"
  moreover have "bf_get n 1 w = 0" if "\<not> bit w n"
    using that by (intro bit_eqI) (auto simp: bit_simps)
  ultimately show "bit w n" by blast
qed

lemma and_not_bit:
  "bit (t AND NOT m) i \<longleftrightarrow> bit t i \<and> \<not> bit m i" for t m :: word_t
  by (auto simp: bit_simps dest: bit_imp_le_length)

lemma clear_receive_flags_fields:
  "is_propagated (clear_receive_flags t) \<longleftrightarrow> is_propagated t"
  "\<not> is_error (clear_receive_flags t)" "\<not> is_redirected (clear_receive_flags t)"
  "\<not> is_xcpu (clear_receive_flags t)"
  unfolding is_propagated_def is_error_def is_redirected_def is_xcpu_def one_bit_neq_0
    clear_receive_flags_def and_not_bit
  by (simp_all add: bit_simps)

end
