(* ===== verification/Flexpage.thy ===== *)
theory Flexpage
  imports Api_Messages
begin

text \<open>
  Flexpages (\<^verbatim>\<open>api/v4/fpage.h\<close>): size-aligned regions with access rights in
  one machine word (rights in bits 0 to 2, the binary logarithm of the size in bits 4 to 9, the
  base in 1 KB units from bit 10).  The lemmas read the address arithmetic of the class on
  natural numbers: a flexpage is the interval from its address to its address plus its size,
  \<^verbatim>\<open>is_overlapping\<close> decides whether two intervals meet, and intervals of
  flexpages are nested or disjoint.
\<close>

section \<open>The class\<close>

type_synonym fpage_t = word_t

definition fpage_execute :: "fpage_t \<Rightarrow> word_t" where "fpage_execute f = bf_get 0 1 f"

definition fpage_write :: "fpage_t \<Rightarrow> word_t" where "fpage_write f = bf_get 1 1 f"

definition fpage_read :: "fpage_t \<Rightarrow> word_t" where "fpage_read f = bf_get 2 1 f"

definition fpage_x_size :: "fpage_t \<Rightarrow> word_t" where "fpage_x_size f = bf_get 4 6 f"

definition fpage_x_base :: "fpage_t \<Rightarrow> word_t" where "fpage_x_base f = bf_get 10 54 f"

text \<open>
  In \<^verbatim>\<open>base & (~0 >> (L4_FPAGE_BASE_BITS - size))\<close> the constant
  \<^verbatim>\<open>~0\<close> is the \<^verbatim>\<open>int\<close> minus one and its right shift is
  arithmetic; the result is then converted to \<^verbatim>\<open>word_t\<close>.
\<close>

definition fpage_set_mask :: "word_t \<Rightarrow> word_t" where
  "fpage_set_mask sz = word_of_int (drop_bit (unat (54 - sz)) (- 1 :: int))"

definition fpage_set :: "word_t \<Rightarrow> word_t \<Rightarrow> bool \<Rightarrow> bool \<Rightarrow> bool \<Rightarrow> fpage_t" where
  "fpage_set base sz read write exec =
     bf_set 0 1 (of_bool exec) (bf_set 1 1 (of_bool write) (bf_set 2 1 (of_bool read)
       (bf_set 4 6 sz (bf_set 10 54 (drop_bit 10 (base AND fpage_set_mask sz)) 0))))"

definition is_nil_fpage :: "fpage_t \<Rightarrow> bool" where "is_nil_fpage f \<longleftrightarrow> f = 0"

definition is_complete_fpage :: "fpage_t \<Rightarrow> bool" where
  "is_complete_fpage f \<longleftrightarrow> fpage_x_size f = 1 \<and> fpage_x_base f = 0"

definition fpage_get_base :: "fpage_t \<Rightarrow> addr_t" where
  "fpage_get_base f = push_bit 10 (fpage_x_base f)"

text \<open>
  The shift amount of \<^verbatim>\<open>get_address\<close> is 64 minus the size field.  For the size
  field 0 (a nil flexpage) this is a shift by the width of the word, which C++ leaves undefined; the
  shift instructions of the processor take the amount modulo 64, so that the mask is all ones and the
  address is 0.
\<close>

definition fpage_get_address :: "fpage_t \<Rightarrow> addr_t" where
  "fpage_get_address f =
     push_bit 10 (fpage_x_base f) AND NOT (drop_bit ((64 - unat (fpage_x_size f)) mod 64) (NOT 0))"

definition fpage_get_size :: "fpage_t \<Rightarrow> word_t" where
  "fpage_get_size f = push_bit (unat (fpage_x_size f)) 1"

definition fpage_get_size_log2 :: "fpage_t \<Rightarrow> word_t" where
  "fpage_get_size_log2 f = (if is_complete_fpage f then 64 else fpage_x_size f)"

definition is_range_in_fpage :: "fpage_t \<Rightarrow> addr_t \<Rightarrow> addr_t \<Rightarrow> bool" where
  "is_range_in_fpage f start end \<longleftrightarrow>
     is_complete_fpage f \<or>
     (fpage_get_address f \<le> start \<and> addr_offset (fpage_get_address f) (fpage_get_size f) \<ge> end)"

definition is_addr_in_fpage :: "fpage_t \<Rightarrow> addr_t \<Rightarrow> bool" where
  "is_addr_in_fpage f addr \<longleftrightarrow> is_range_in_fpage f addr (addr + 8)"

definition is_overlapping :: "fpage_t \<Rightarrow> fpage_t \<Rightarrow> bool" where
  "is_overlapping this fpage \<longleftrightarrow>
     (if fpage_get_address fpage < fpage_get_address this
      then addr_offset (fpage_get_address fpage) (fpage_get_size fpage) > fpage_get_address this
      else addr_offset (fpage_get_address this) (fpage_get_size this) > fpage_get_address fpage)"

definition fpage_is_read :: "fpage_t \<Rightarrow> bool" where "fpage_is_read f \<longleftrightarrow> fpage_read f \<noteq> 0"

definition fpage_is_write :: "fpage_t \<Rightarrow> bool" where "fpage_is_write f \<longleftrightarrow> fpage_write f \<noteq> 0"

definition fpage_is_execute :: "fpage_t \<Rightarrow> bool" where
  "fpage_is_execute f \<longleftrightarrow> fpage_execute f \<noteq> 0"

definition fpage_is_rwx :: "fpage_t \<Rightarrow> bool" where
  "fpage_is_rwx f \<longleftrightarrow> fpage_read f \<noteq> 0 \<and> fpage_write f \<noteq> 0 \<and> fpage_execute f \<noteq> 0"

definition fpage_set_rwx_all :: "fpage_t \<Rightarrow> fpage_t" where
  "fpage_set_rwx_all f = bf_set 0 1 1 (bf_set 1 1 1 (bf_set 2 1 1 f))"

definition fpage_set_rwx :: "word_t \<Rightarrow> fpage_t \<Rightarrow> fpage_t" where
  "fpage_set_rwx rwx f = f OR (rwx AND 7)"

definition fpage_get_rwx :: "fpage_t \<Rightarrow> word_t" where "fpage_get_rwx f = f AND 7"

definition fpage_complete :: fpage_t where "fpage_complete = bf_set 4 6 1 0"

definition fpage_nilpage :: fpage_t where "fpage_nilpage = 0"

section \<open>Reading the address arithmetic on natural numbers\<close>

definition fp_lo :: "fpage_t \<Rightarrow> nat" where "fp_lo f = unat (fpage_get_address f)"

definition fp_log2 :: "fpage_t \<Rightarrow> nat" where "fp_log2 f = unat (fpage_x_size f)"

definition fp_range :: "fpage_t \<Rightarrow> nat set" where
  "fp_range f = {fp_lo f ..< fp_lo f + 2 ^ fp_log2 f}"

lemma fp_log2_less: "fp_log2 f < 64"
  using bf_get_bound [of 4 6 f] by (simp add: fp_log2_def fpage_x_size_def)

lemma high_ones: "s \<le> 64 \<Longrightarrow> drop_bit (64 - s) (NOT 0 :: 64 word) = mask s"
  by (rule bit_eqI) (auto simp: bit_simps)

lemma fpage_get_address_align:
  "0 < fp_log2 f \<Longrightarrow> fpage_get_address f = fpage_get_base f AND NOT (2 ^ fp_log2 f - 1)"
  using fp_log2_less [of f] high_ones [of "fp_log2 f"]
  unfolding fpage_get_address_def fpage_get_base_def fp_log2_def [symmetric]
  by (simp add: mask_eq_exp_minus_1)

lemma fp_lo_zero: "fp_log2 f = 0 \<Longrightarrow> fp_lo f = 0"
  unfolding fp_lo_def fpage_get_address_def fp_log2_def [symmetric] by simp

lemma fp_lo_eq:
  "0 < fp_log2 f \<Longrightarrow> fp_lo f = unat (fpage_get_base f) - unat (fpage_get_base f) mod 2 ^ fp_log2 f"
  unfolding fp_lo_def by (subst fpage_get_address_align) (simp_all add: unat_align_down)

lemma fp_lo_dvd: "2 ^ fp_log2 f dvd fp_lo f"
  by (cases "fp_log2 f = 0") (simp_all add: fp_lo_eq)

lemma fp_lo_le_base: "fp_lo f \<le> unat (fpage_get_base f)"
  by (cases "fp_log2 f = 0") (simp_all add: fp_lo_zero fp_lo_eq)

lemma minus_mod_range: "0 < m \<Longrightarrow> (b :: nat) \<in> {b - b mod m ..< b - b mod m + m}"
proof -
  assume "0 < m"
  then have "b mod m < m" and "b mod m \<le> b" by simp_all
  then have "b < b - b mod m + m" by arith
  then show ?thesis by simp
qed

lemma fp_base_in_range: "0 < fp_log2 f \<Longrightarrow> unat (fpage_get_base f) \<in> fp_range f"
  using minus_mod_range [of "2 ^ fp_log2 f" "unat (fpage_get_base f)"] by (simp add: fp_range_def fp_lo_eq)

lemma unat_fpage_get_size: "unat (fpage_get_size f) = 2 ^ fp_log2 f"
  using fp_log2_less [of f]
  by (simp add: fpage_get_size_def fp_log2_def push_bit_eq_mult unat_exp)

lemma unat_add_no_wrap:
  "unat a + unat b < 2 ^ LENGTH('a) \<Longrightarrow> unat (a + b) = unat a + unat b" for a b :: "'a::len word"
  by (simp add: unat_add_lem [THEN iffD1])

lemma unat_fpage_end:
  "fp_lo f + 2 ^ fp_log2 f < 2 ^ 64 \<Longrightarrow>
   unat (addr_offset (fpage_get_address f) (fpage_get_size f)) = fp_lo f + 2 ^ fp_log2 f"
  by (simp add: addr_offset_def unat_add_no_wrap unat_fpage_get_size fp_lo_def)

lemma intervals_meet:
  fixes a b s t :: nat
  assumes "0 < s" and "0 < t"
  shows "{a ..< a + s} \<inter> {b ..< b + t} \<noteq> {} \<longleftrightarrow> a < b + t \<and> b < a + s"
proof
  assume "{a ..< a + s} \<inter> {b ..< b + t} \<noteq> {}"
  then show "a < b + t \<and> b < a + s" by auto
next
  assume "a < b + t \<and> b < a + s"
  with assms have "max a b \<in> {a ..< a + s} \<inter> {b ..< b + t}" by auto
  then show "{a ..< a + s} \<inter> {b ..< b + t} \<noteq> {}" by blast
qed

lemma mult_less_mono_cancel: "(2 :: nat) ^ s * i < 2 ^ s * j \<Longrightarrow> i < j"
  by simp

lemma aligned_nested:
  fixes a b :: nat
  assumes "2 ^ s dvd a" and "2 ^ t dvd b" and "s \<le> t" and "a < b + 2 ^ t" and "b < a + 2 ^ s"
  shows "{a ..< a + 2 ^ s} \<subseteq> {b ..< b + 2 ^ t}"
proof -
  from assms(3) have d: "(2 :: nat) ^ s dvd 2 ^ t" by (simp add: le_imp_power_dvd)
  with assms(2) have "2 ^ s dvd b" by (rule dvd_trans [rotated])
  with assms(1) obtain i j where a: "a = 2 ^ s * i" and b: "b = 2 ^ s * j" by (auto elim!: dvdE)
  from d obtain k where t: "(2 :: nat) ^ t = 2 ^ s * k" by (auto elim!: dvdE)
  from assms(5) have "2 ^ s * j < 2 ^ s * (i + 1)" unfolding a b by (simp add: algebra_simps)
  then have "j < i + 1" by (rule mult_less_mono_cancel)
  from assms(4) have "2 ^ s * i < 2 ^ s * (j + k)" unfolding a b t by (simp add: algebra_simps)
  then have "i < j + k" by (rule mult_less_mono_cancel)
  then have "i + 1 \<le> j + k" by simp
  then have "2 ^ s * (i + 1) \<le> 2 ^ s * (j + k)" by (rule mult_le_mono2)
  with \<open>j < i + 1\<close> show ?thesis unfolding a b t by (auto simp: algebra_simps)
qed

lemma overlap_test_symmetric:
  "0 < s \<Longrightarrow> 0 < t \<Longrightarrow> (if b < a then a < b + t else b < a + s) \<longleftrightarrow> a < b + t \<and> b < a + s"
  for a b s t :: nat
  by auto

lemma is_overlapping_bounds:
  assumes "fp_lo f + 2 ^ fp_log2 f < 2 ^ 64" and "fp_lo g + 2 ^ fp_log2 g < 2 ^ 64"
  shows "is_overlapping f g \<longleftrightarrow>
    fp_lo f < fp_lo g + 2 ^ fp_log2 g \<and> fp_lo g < fp_lo f + 2 ^ fp_log2 f"
proof -
  have "is_overlapping f g \<longleftrightarrow>
      (if fp_lo g < fp_lo f then fp_lo f < fp_lo g + 2 ^ fp_log2 g
       else fp_lo g < fp_lo f + 2 ^ fp_log2 f)"
    using unat_fpage_end [OF assms(1)] unat_fpage_end [OF assms(2)]
    by (simp add: is_overlapping_def word_less_nat_alt fp_lo_def [symmetric])
  also have "\<dots> \<longleftrightarrow> fp_lo f < fp_lo g + 2 ^ fp_log2 g \<and> fp_lo g < fp_lo f + 2 ^ fp_log2 f"
    by (rule overlap_test_symmetric) simp_all
  finally show ?thesis .
qed

lemmas fpage_eval =
  fp_lo_def fp_log2_def fpage_get_address_def fpage_x_base_def fpage_x_size_def
  fpage_set_def fpage_set_mask_def bf_set_def bf_get_def mask_eq_exp_minus_1

text \<open>
  The addresses that a flexpage stands for: none for the nil flexpage, all for the complete one
  (\<^verbatim>\<open>fpage.h\<close>, the comment at \<^verbatim>\<open>is_complete_fpage\<close>), the
  interval of its size at its address for every other.
\<close>

definition fpage_extent :: "fpage_t \<Rightarrow> nat set" where
  "fpage_extent f =
     (if is_nil_fpage f then {} else if is_complete_fpage f then {0 ..< 2 ^ 64} else fp_range f)"

lemma fpage_extent_range: "0 < fp_log2 f \<Longrightarrow> \<not> is_complete_fpage f \<Longrightarrow> fpage_extent f = fp_range f"
  by (auto simp: fpage_extent_def is_nil_fpage_def fp_log2_def fpage_x_size_def bf_get_def)

lemma complete_fpage_bounds: "is_complete_fpage f \<Longrightarrow> fp_log2 f = 1 \<and> fp_lo f = 0"
  by (simp add: is_complete_fpage_def fp_log2_def fp_lo_def fpage_get_address_def)

lemma ranges_meet:
  "fp_range f \<inter> fp_range g \<noteq> {} \<longleftrightarrow> fp_lo f < fp_lo g + 2 ^ fp_log2 g \<and> fp_lo g < fp_lo f + 2 ^ fp_log2 f"
  unfolding fp_range_def by (subst intervals_meet) simp_all

text \<open>C40: \<^verbatim>\<open>fpage_t::is_overlapping\<close> decides whether two flexpages share an address
  of those they stand for, in either order of the two, when neither is nil or has the size field 0,
  neither is the complete flexpage, and both end below the top of the address space.  The complete
  flexpage is not treated as the whole address space: a flexpage overlaps it, in either order,
  only if it starts below address 2.\<close>

theorem is_overlapping_iff:
  assumes "0 < fp_log2 f" and "0 < fp_log2 g" and "\<not> is_complete_fpage f"
    and "fp_lo f + 2 ^ fp_log2 f < 2 ^ 64" and "fp_lo g + 2 ^ fp_log2 g < 2 ^ 64"
  shows "(is_overlapping f g \<longleftrightarrow>
      (if is_complete_fpage g then fp_lo f < 2 else fpage_extent f \<inter> fpage_extent g \<noteq> {})) \<and>
    (is_overlapping g f \<longleftrightarrow>
      (if is_complete_fpage g then fp_lo f < 2 else fpage_extent f \<inter> fpage_extent g \<noteq> {}))"
proof (cases "is_complete_fpage g")
  case True
  show ?thesis
    unfolding is_overlapping_bounds [OF assms(4,5)] is_overlapping_bounds [OF assms(5,4)]
    using complete_fpage_bounds [OF True] True by auto
next
  case False
  have "fpage_extent f \<inter> fpage_extent g \<noteq> {} \<longleftrightarrow>
      fp_lo f < fp_lo g + 2 ^ fp_log2 g \<and> fp_lo g < fp_lo f + 2 ^ fp_log2 f"
    using fpage_extent_range [OF assms(1,3)] fpage_extent_range [OF assms(2) False] ranges_meet [of f g] by simp
  then show ?thesis
    unfolding is_overlapping_bounds [OF assms(4,5)] is_overlapping_bounds [OF assms(5,4)] using False by auto
qed

theorem is_overlapping_iff_witness:
  "is_overlapping (fpage_set 0x2000 12 True True False) (fpage_set 0 14 True False False) \<and>
   fpage_extent (fpage_set 0x2000 12 True True False) \<inter> fpage_extent (fpage_set 0 14 True False False) \<noteq> {} \<and>
   \<not> is_overlapping (fpage_set 0x2000 12 True True False) fpage_complete"
proof -
  let ?f = "fpage_set 0x2000 12 True True False" and ?g = "fpage_set 0 14 True False False"
  have f: "0 < fp_log2 ?f" "\<not> is_complete_fpage ?f" "fp_lo ?f + 2 ^ fp_log2 ?f < 2 ^ 64" "\<not> fp_lo ?f < 2"
    by (simp_all add: fpage_eval is_complete_fpage_def)
  have g: "0 < fp_log2 ?g" "\<not> is_complete_fpage ?g" "fp_lo ?g + 2 ^ fp_log2 ?g < 2 ^ 64"
    by (simp_all add: fpage_eval is_complete_fpage_def)
  have c: "is_complete_fpage fpage_complete" by (simp add: fpage_complete_def is_complete_fpage_def fpage_eval)
  have o: "is_overlapping ?f ?g" by (simp add: is_overlapping_def addr_offset_def fpage_get_size_def fpage_eval)
  show ?thesis
    using is_overlapping_iff [OF f(1) g(1) f(2,3) g(3)] o g(2)
      is_overlapping_iff [OF f(1) _ f(2,3), of fpage_complete] complete_fpage_bounds [OF c] c f(4) by simp
qed

text \<open>Flexpages are nested or disjoint: when two of them overlap, the smaller one lies
  inside the larger one.\<close>

theorem overlapping_nested:
  assumes "fp_lo f + 2 ^ fp_log2 f < 2 ^ 64" and "fp_lo g + 2 ^ fp_log2 g < 2 ^ 64"
    and "is_overlapping f g" and "fp_log2 f \<le> fp_log2 g"
  shows "fp_range f \<subseteq> fp_range g"
  using assms(3) aligned_nested [OF fp_lo_dvd fp_lo_dvd assms(4)]
  unfolding is_overlapping_bounds [OF assms(1,2)] fp_range_def by blast

theorem overlapping_nested_witness:
  "fp_range (fpage_set 0x2000 12 True True False) \<subseteq> fp_range (fpage_set 0 14 True False False)"
  by (rule overlapping_nested)
    (simp_all add: is_overlapping_def addr_offset_def fpage_get_size_def fpage_eval)

text \<open>
  The mask of \<^verbatim>\<open>fpage_t::set\<close> never clears a bit, so \<^verbatim>\<open>set\<close> stores
  the base as given (in 1 KB units); only \<^verbatim>\<open>get_address\<close> aligns it.
\<close>

lemma fpage_set_mask_all: "fpage_set_mask sz = - 1"
  by (simp add: fpage_set_mask_def)

text \<open>\<^verbatim>\<open>fpage_t::set\<close> followed by the accessors returns the arguments: the size
  (6 bits), the rights, and the base rounded down to 1 KB.\<close>

theorem fpage_set_fields:
  "fpage_x_size (fpage_set base sz r w x) = take_bit 6 sz \<and>
   fpage_get_base (fpage_set base sz r w x) = base AND NOT 0x3ff \<and>
   (fpage_is_read (fpage_set base sz r w x) \<longleftrightarrow> r) \<and>
   (fpage_is_write (fpage_set base sz r w x) \<longleftrightarrow> w) \<and>
   (fpage_is_execute (fpage_set base sz r w x) \<longleftrightarrow> x)"
proof (intro conjI)
  have "fpage_x_base (fpage_set base sz r w x) = take_bit 54 (drop_bit 10 base)"
    unfolding fpage_x_base_def fpage_set_def fpage_set_mask_all
    by (simp add: bf_get_set_same bf_get_set_other)
  moreover have "push_bit 10 (take_bit 54 (drop_bit 10 base)) = base AND NOT (mask 10)"
    by (rule bit_eqI) (auto simp: bit_simps)
  ultimately show "fpage_get_base (fpage_set base sz r w x) = base AND NOT 0x3ff"
    by (simp add: fpage_get_base_def mask_eq_exp_minus_1)
qed (simp_all add: fpage_x_size_def fpage_set_def fpage_is_read_def fpage_read_def
    fpage_is_write_def fpage_write_def fpage_is_execute_def fpage_execute_def
    bf_get_set_same bf_get_set_other)

end
