(* ===== verification/Kernel_Interface.thy ===== *)
theory Kernel_Interface
  imports Flexpage
begin

text \<open>
  The kernel interface page: memory regions (\<^verbatim>\<open>generic/memregion.h\<close>), memory and
  processor descriptors (\<^verbatim>\<open>api/v4/memdesc.h\<close>,
  \<^verbatim>\<open>api/v4/procdesc.h\<close>), the packed information words of
  \<^verbatim>\<open>api/v4/kernelinterface.h\<close>, the error codes of
  \<^verbatim>\<open>api/v4/syscalls.h\<close>, and \<^verbatim>\<open>init_processor\<close> of
  \<^verbatim>\<open>processor.cc\<close>.
\<close>

section \<open>Memory regions (generic/memregion.h)\<close>

record mem_region_t =
  mr_low :: addr_t
  mr_high :: addr_t

definition region_add :: "mem_region_t \<Rightarrow> mem_region_t \<Rightarrow> mem_region_t" where
  "region_add this reg =
     (let this1 = (if mr_low this > mr_low reg then this\<lparr>mr_low := mr_low reg\<rparr> else this)
      in if mr_high this1 < mr_high reg then this1\<lparr>mr_high := mr_high reg\<rparr> else this1)"

definition is_adjacent :: "mem_region_t \<Rightarrow> mem_region_t \<Rightarrow> bool" where
  "is_adjacent this reg \<longleftrightarrow> mr_high this = mr_low reg \<or> mr_low this = mr_high reg"

definition is_intersection :: "mem_region_t \<Rightarrow> mem_region_t \<Rightarrow> bool" where
  "is_intersection this reg \<longleftrightarrow>
     (mr_low reg \<ge> mr_low this \<and> mr_low reg < mr_high this) \<or>
     (mr_high reg > mr_low this \<and> mr_high reg \<le> mr_high this) \<or>
     (mr_low reg \<le> mr_low this \<and> mr_high reg \<ge> mr_high this)"

definition region_is_empty :: "mem_region_t \<Rightarrow> bool" where
  "region_is_empty r \<longleftrightarrow> mr_high r = 0"

definition region_set_empty :: "mem_region_t \<Rightarrow> mem_region_t" where
  "region_set_empty r = r\<lparr>mr_high := 0\<rparr>"

definition region_set :: "addr_t \<Rightarrow> addr_t \<Rightarrow> mem_region_t" where
  "region_set low high = \<lparr>mr_low = low, mr_high = high\<rparr>"

definition region_get_size :: "mem_region_t \<Rightarrow> word_t" where
  "region_get_size r = (if region_is_empty r then 0 else mr_high r - mr_low r)"

definition region_addrs :: "mem_region_t \<Rightarrow> addr_t set" where
  "region_addrs r = {mr_low r ..< mr_high r}"

text \<open>For two non-degenerate regions, \<^verbatim>\<open>is_intersection\<close> holds exactly when
  the half-open address ranges share an address.\<close>

theorem is_intersection_iff:
  assumes "mr_low a < mr_high a" and "mr_low b < mr_high b"
  shows "is_intersection a b \<longleftrightarrow> region_addrs a \<inter> region_addrs b \<noteq> {}"
proof
  assume "is_intersection a b"
  then have "max (mr_low a) (mr_low b) \<in> region_addrs a \<inter> region_addrs b"
    using assms by (auto simp: is_intersection_def region_addrs_def max_def)
  then show "region_addrs a \<inter> region_addrs b \<noteq> {}" by blast
next
  assume "region_addrs a \<inter> region_addrs b \<noteq> {}"
  then obtain p where "p \<in> region_addrs a" and "p \<in> region_addrs b" by blast
  then have "mr_low a < mr_high b" and "mr_low b < mr_high a" by (auto simp: region_addrs_def)
  then show "is_intersection a b"
    unfolding is_intersection_def using assms by (meson linear not_le)
qed

theorem is_intersection_iff_witness:
  "is_intersection (region_set 0x1000 0x3000) (region_set 0x2000 0x5000) \<longleftrightarrow>
   region_addrs (region_set 0x1000 0x3000) \<inter> region_addrs (region_set 0x2000 0x5000) \<noteq> {}"
  by (rule is_intersection_iff) (simp_all add: region_set_def)

section \<open>Memory descriptors (api/v4/memdesc.h)\<close>

record memdesc_t =
  md_word0 :: word_t
  md_word1 :: word_t

definition memdesc_type :: "memdesc_t \<Rightarrow> word_t" where "memdesc_type d = bf_get 0 4 (md_word0 d)"

definition memdesc_subtype :: "memdesc_t \<Rightarrow> word_t" where
  "memdesc_subtype d = bf_get 4 4 (md_word0 d)"

definition memdesc_is_virtual :: "memdesc_t \<Rightarrow> bool" where
  "memdesc_is_virtual d \<longleftrightarrow> bf_get 9 1 (md_word0 d) \<noteq> 0"

definition memdesc_low :: "memdesc_t \<Rightarrow> addr_t" where
  "memdesc_low d = push_bit 10 (bf_get 10 54 (md_word0 d))"

definition memdesc_high :: "memdesc_t \<Rightarrow> addr_t" where
  "memdesc_high d = push_bit 10 (bf_get 10 54 (md_word1 d)) + 0x3ff"

definition memdesc_size :: "memdesc_t \<Rightarrow> word_t" where
  "memdesc_size d = push_bit 10 (bf_get 10 54 (md_word1 d) - bf_get 10 54 (md_word0 d) + 1)"

definition memdesc_set :: "word_t \<Rightarrow> word_t \<Rightarrow> bool \<Rightarrow> addr_t \<Rightarrow> addr_t \<Rightarrow> memdesc_t \<Rightarrow> memdesc_t" where
  "memdesc_set type t virt low high d =
     d\<lparr>md_word0 := bf_set 10 54 (drop_bit 10 low) (bf_set 9 1 (of_bool virt)
         (bf_set 4 4 t (bf_set 0 4 type (md_word0 d)))),
       md_word1 := bf_set 10 54 (drop_bit 10 high) (md_word1 d)\<rparr>"

lemma round_1k_down: "push_bit 10 (take_bit 54 (drop_bit 10 a)) = a AND NOT 0x3ff" for a :: word_t
proof -
  have "push_bit 10 (take_bit 54 (drop_bit 10 a)) = a AND NOT (mask 10)"
    by (rule bit_eqI) (auto simp: bit_simps)
  then show ?thesis by (simp add: mask_eq_exp_minus_1)
qed

lemma round_1k_up: "(a AND NOT 0x3ff) + 0x3ff = a OR 0x3ff" for a :: word_t
proof -
  have m: "(0x3ff :: word_t) = mask 10" by (simp add: mask_eq_exp_minus_1)
  have "(a AND NOT (mask 10)) + mask 10 = (a AND NOT (mask 10)) OR mask 10"
    by (rule disjunctive_add) (auto simp: bit_simps)
  also have "\<dots> = a OR mask 10" by (rule bit_eqI) (auto simp: bit_simps)
  finally show ?thesis unfolding m .
qed

text \<open>A descriptor written by \<^verbatim>\<open>memdesc_t::set\<close> covers the whole 1 KB blocks that
  hold the given limits: the low address is rounded down and the high address rounded up.\<close>

theorem memdesc_set_limits:
  "memdesc_low (memdesc_set ty t v lo hi d) = lo AND NOT 0x3ff \<and>
   memdesc_high (memdesc_set ty t v lo hi d) = hi OR 0x3ff \<and>
   (memdesc_is_virtual (memdesc_set ty t v lo hi d) \<longleftrightarrow> v) \<and>
   memdesc_type (memdesc_set ty t v lo hi d) = take_bit 4 ty \<and>
   memdesc_subtype (memdesc_set ty t v lo hi d) = take_bit 4 t"
  by (simp add: memdesc_low_def memdesc_high_def memdesc_is_virtual_def memdesc_type_def
      memdesc_subtype_def memdesc_set_def bf_get_set_same bf_get_set_other
      round_1k_down [simplified] round_1k_up [simplified])

section \<open>Information words (api/v4/kernelinterface.h)\<close>

text \<open>
  Every information class is a bit field over one machine word; a value of the class is the raw
  word.  The expression \<^verbatim>\<open>1 << n\<close> of the source has type \<^verbatim>\<open>int\<close>: it is
  computed in 32 bits and sign-extended when it meets a \<^verbatim>\<open>word_t\<close>.
\<close>

definition int_shl1 :: "word_t \<Rightarrow> word_t" where
  "int_shl1 n = scast (push_bit (unat n) (1 :: 32 word))"

record root_server_t =
  rs_sp :: word_t
  rs_ip :: word_t
  rs_mem_region :: mem_region_t

definition get_num_descriptors :: "word_t \<Rightarrow> word_t" where
  "get_num_descriptors w = bf_get 0 32 w"

definition utcb_info_multiplier :: "word_t \<Rightarrow> word_t" where
  "utcb_info_multiplier w = bf_get 0 10 w"

definition utcb_info_alignment :: "word_t \<Rightarrow> word_t" where
  "utcb_info_alignment w = bf_get 10 6 w"

definition get_minimal_size :: "word_t \<Rightarrow> word_t" where
  "get_minimal_size w = int_shl1 (bf_get 16 6 w)"

definition get_utcb_alignment :: "word_t \<Rightarrow> word_t" where
  "get_utcb_alignment w = int_shl1 (utcb_info_alignment w)"

definition get_utcb_size :: "word_t \<Rightarrow> word_t" where
  "get_utcb_size w = get_utcb_alignment w * utcb_info_multiplier w"

definition is_valid_utcb_location :: "word_t \<Rightarrow> word_t \<Rightarrow> bool" where
  "is_valid_utcb_location w utcb_location \<longleftrightarrow>
     scast (push_bit (unat (utcb_info_alignment w)) (1 :: 32 word) - 1) AND utcb_location = 0"

definition kip_get_size :: "word_t \<Rightarrow> word_t" where
  "kip_get_size w = int_shl1 (bf_get 0 6 w)"

definition kip_get_size_log2 :: "word_t \<Rightarrow> word_t" where
  "kip_get_size_log2 w = bf_get 0 6 w"

definition get_read_precision :: "word_t \<Rightarrow> word_t" where
  "get_read_precision w = bf_get 0 16 w"

definition get_schedule_precision :: "word_t \<Rightarrow> word_t" where
  "get_schedule_precision w = bf_get 16 16 w"

definition get_significant_threadbits :: "word_t \<Rightarrow> word_t" where
  "get_significant_threadbits w = bf_get 0 8 w"

definition get_system_base :: "word_t \<Rightarrow> word_t" where
  "get_system_base w = bf_get 8 12 w"

definition get_user_base :: "word_t \<Rightarrow> word_t" where
  "get_user_base w = bf_get 20 12 w"

definition set_user_base :: "word_t \<Rightarrow> word_t \<Rightarrow> word_t" where
  "set_user_base base w = bf_set 20 12 base w"

definition set_system_base :: "word_t \<Rightarrow> word_t \<Rightarrow> word_t" where
  "set_system_base base w = bf_set 8 12 base w"

definition page_info_rights :: "word_t \<Rightarrow> word_t" where
  "page_info_rights w = bf_get 0 3 w"

definition get_page_size_mask :: "word_t \<Rightarrow> word_t" where
  "get_page_size_mask w = push_bit 10 (bf_get 10 54 w)"

definition get_num_processors :: "word_t \<Rightarrow> word_t" where
  "get_num_processors w = bf_get 0 16 w + 1"

definition get_procdesc_size :: "word_t \<Rightarrow> word_t" where
  "get_procdesc_size w = int_shl1 (bf_get 60 4 w)"

definition get_endian :: "word_t \<Rightarrow> word_t" where "get_endian w = bf_get 0 2 w"

definition get_word_size :: "word_t \<Rightarrow> word_t" where "get_word_size w = bf_get 2 2 w"

definition api_flags_word :: "word_t \<Rightarrow> word_t" where
  "api_flags_word w = push_bit 2 (get_word_size w) OR get_endian w"

definition get_api_version :: "word_t \<Rightarrow> word_t" where "get_api_version w = bf_get 24 8 w"

definition get_api_subversion :: "word_t \<Rightarrow> word_t" where "get_api_subversion w = bf_get 16 8 w"

definition api_version_word :: "word_t \<Rightarrow> word_t" where
  "api_version_word w = push_bit 24 (get_api_version w) OR push_bit 16 (get_api_subversion w)"

definition kernel_id_subid :: "word_t \<Rightarrow> word_t" where "kernel_id_subid w = bf_get 16 8 w"

definition kernel_id_id :: "word_t \<Rightarrow> word_t" where "kernel_id_id w = bf_get 24 8 w"

definition kernel_id_raw :: "word_t \<Rightarrow> word_t" where
  "kernel_id_raw w = push_bit 24 (kernel_id_id w) OR push_bit 16 (kernel_id_subid w)"

definition gen_date_day :: "word_t \<Rightarrow> word_t" where "gen_date_day w = bf_get 0 5 w"

definition gen_date_month :: "word_t \<Rightarrow> word_t" where "gen_date_month w = bf_get 5 4 w"

definition gen_date_year :: "word_t \<Rightarrow> word_t" where "gen_date_year w = bf_get 9 7 w + 2000"

definition version_subsubver :: "word_t \<Rightarrow> word_t" where "version_subsubver w = bf_get 0 16 w"

definition version_subver :: "word_t \<Rightarrow> word_t" where "version_subver w = bf_get 16 8 w"

definition version_ver :: "word_t \<Rightarrow> word_t" where "version_ver w = bf_get 24 8 w"

record kernel_interface_page_t =
  kip_api_version :: word_t
  kip_api_flags :: word_t
  kip_kernel_desc_ptr :: word_t
  kip_kdebug_mem :: mem_region_t
  kip_sigma0 :: root_server_t
  kip_sigma1 :: root_server_t
  kip_root_server :: root_server_t
  kip_memory_info :: word_t
  kip_main_mem :: mem_region_t
  kip_utcb_info :: word_t
  kip_kip_area_info :: word_t
  kip_boot_info :: word_t
  kip_proc_desc_ptr :: word_t
  kip_clock_info :: word_t
  kip_thread_info :: word_t
  kip_page_info :: word_t
  kip_processor_info :: word_t

lemma int_shl1_small:
  assumes "unat n < 31"
  shows "int_shl1 n = push_bit (unat n) 1"
  unfolding int_shl1_def using assms
  by (intro bit_word_eqI) (auto simp: bit_simps)

section \<open>Processor descriptors (api/v4/procdesc.h, processor.cc)\<close>

record procdesc_t =
  external_freq :: word_t
  internal_freq :: word_t
  freq_change :: word_t
  proc_arch1 :: word_t

definition set_external_frequency :: "word_t \<Rightarrow> procdesc_t \<Rightarrow> procdesc_t" where
  "set_external_frequency freq d = d\<lparr>external_freq := freq\<rparr>"

definition set_internal_frequency :: "word_t \<Rightarrow> procdesc_t \<Rightarrow> procdesc_t" where
  "set_internal_frequency freq d = d\<lparr>internal_freq := freq\<rparr>"

text \<open>
  \<^verbatim>\<open>processor_info_t::get_procdesc\<close> is declared but not defined in the sources: it is the
  argument \<^verbatim>\<open>get_procdesc\<close>, from a processor number to the cell of its descriptor.
\<close>

definition init_processor ::
  "(word_t \<Rightarrow> 'p) \<Rightarrow> cpuid_t \<Rightarrow> word_t \<Rightarrow> word_t \<Rightarrow> kernel_interface_page_t \<times> ('p \<Rightarrow> procdesc_t)
   \<Rightarrow> kernel_interface_page_t \<times> ('p \<Rightarrow> procdesc_t)" where
  "init_processor get_procdesc processor external_fr internal_fr s =
     (let (kip, descs) = s;
          pdesc = get_procdesc (ucast processor);
          descs1 = descs(pdesc := set_external_frequency external_fr (descs pdesc));
          descs2 = descs1(pdesc := set_internal_frequency internal_fr (descs1 pdesc))
      in (if bf_get 0 16 (kip_processor_info kip) < ucast processor
          then kip\<lparr>kip_processor_info := bf_set 0 16 (ucast processor) (kip_processor_info kip)\<rparr>
          else kip, descs2))"

definition blank_server :: root_server_t where
  "blank_server = \<lparr>rs_sp = 0, rs_ip = 0, rs_mem_region = region_set 0 0\<rparr>"

definition blank_kip :: kernel_interface_page_t where
  "blank_kip =
     \<lparr>kip_api_version = 0, kip_api_flags = 0, kip_kernel_desc_ptr = 0,
      kip_kdebug_mem = region_set 0 0, kip_sigma0 = blank_server, kip_sigma1 = blank_server,
      kip_root_server = blank_server, kip_memory_info = 0, kip_main_mem = region_set 0 0,
      kip_utcb_info = 0, kip_kip_area_info = 0, kip_boot_info = 0, kip_proc_desc_ptr = 0,
      kip_clock_info = 0, kip_thread_info = 0, kip_page_info = 0, kip_processor_info = 0\<rparr>"

definition blank_procdesc :: procdesc_t where
  "blank_procdesc = \<lparr>external_freq = 0, internal_freq = 0, freq_change = 0, proc_arch1 = 0\<rparr>"

lemma unat_ucast_cpuid: "unat (ucast c :: word_t) = unat c" for c :: cpuid_t
  by (simp add: unat_ucast_up)

lemma take_bit_ucast_cpuid: "take_bit 16 (ucast c :: word_t) = ucast c" for c :: cpuid_t
  by (rule bit_word_eqI) (auto simp: bit_simps dest: bit_imp_le_length)

text \<open>Registering a processor makes it visible in the kernel interface page, never hides one
  that was registered before, records its two frequencies, and leaves the descriptor size field
  and the descriptors of the other processors alone.\<close>

theorem init_processor_registers:
  assumes "init_processor gp c ef ifr (kip, ds) = (kip', ds')"
  shows "unat c < unat (get_num_processors (kip_processor_info kip')) \<and>
    get_num_processors (kip_processor_info kip) \<le> get_num_processors (kip_processor_info kip') \<and>
    get_procdesc_size (kip_processor_info kip') = get_procdesc_size (kip_processor_info kip) \<and>
    external_freq (ds' (gp (ucast c))) = ef \<and> internal_freq (ds' (gp (ucast c))) = ifr \<and>
    (\<forall>p. p = gp (ucast c) \<or> ds' p = ds p)"
proof -
  let ?n = "bf_get 0 16 (kip_processor_info kip)" and ?n' = "bf_get 0 16 (kip_processor_info kip')"
  have n': "?n' = (if ?n < ucast c then ucast c else ?n)"
    using assms by (auto simp: init_processor_def Let_def bf_get_set_same take_bit_ucast_cpuid
        split: if_splits)
  have le: "ucast c \<le> ?n'" "?n \<le> ?n'" unfolding n' by auto
  have bd: "unat ?n' < 2 ^ 16" "unat ?n < 2 ^ 16" by (rule bf_get_bound)+
  have "unat c < unat (?n' + 1)" and "?n + 1 \<le> ?n' + 1"
    using le bd by (auto simp: word_le_nat_alt unat_word_ariths unat_ucast_cpuid)
  moreover have "get_procdesc_size (kip_processor_info kip') =
      get_procdesc_size (kip_processor_info kip)"
    using assms by (auto simp: init_processor_def Let_def get_procdesc_size_def bf_get_set_other
        split: if_splits)
  ultimately show ?thesis using assms
    by (auto simp: init_processor_def Let_def get_num_processors_def
        set_external_frequency_def set_internal_frequency_def split: if_split_asm)
qed

theorem init_processor_registers_witness:
  "\<exists>kip' ds'. init_processor unat 3 100 200 (blank_kip, \<lambda>_. blank_procdesc) = (kip', ds') \<and>
     3 < unat (get_num_processors (kip_processor_info kip'))"
proof -
  obtain kip' ds' where
    e: "init_processor unat 3 100 200 (blank_kip, \<lambda>_. blank_procdesc) = (kip', ds')" by fastforce
  with init_processor_registers [OF e] show ?thesis by simp
qed

section \<open>Control bits and error codes (api/v4/syscalls.h)\<close>

definition EXREGS_CONTROL_HALT :: word_t where "EXREGS_CONTROL_HALT = push_bit 0 1"
definition EXREGS_CONTROL_RECV :: word_t where "EXREGS_CONTROL_RECV = push_bit 1 1"
definition EXREGS_CONTROL_SEND :: word_t where "EXREGS_CONTROL_SEND = push_bit 2 1"
definition EXREGS_CONTROL_SP :: word_t where "EXREGS_CONTROL_SP = push_bit 3 1"
definition EXREGS_CONTROL_IP :: word_t where "EXREGS_CONTROL_IP = push_bit 4 1"
definition EXREGS_CONTROL_FLAGS :: word_t where "EXREGS_CONTROL_FLAGS = push_bit 5 1"
definition EXREGS_CONTROL_UHANDLE :: word_t where "EXREGS_CONTROL_UHANDLE = push_bit 6 1"
definition EXREGS_CONTROL_PAGER :: word_t where "EXREGS_CONTROL_PAGER = push_bit 7 1"
definition EXREGS_CONTROL_HALTFLAG :: word_t where "EXREGS_CONTROL_HALTFLAG = push_bit 8 1"

definition EOK :: word_t where "EOK = 0"
definition ENO_PRIVILEGE :: word_t where "ENO_PRIVILEGE = 1"
definition EINVALID_THREAD :: word_t where "EINVALID_THREAD = 2"
definition EINVALID_SPACE :: word_t where "EINVALID_SPACE = 3"
definition EINVALID_SCHEDULER :: word_t where "EINVALID_SCHEDULER = 4"
definition EINVALID_PARAM :: word_t where "EINVALID_PARAM = 5"
definition EUTCB_AREA :: word_t where "EUTCB_AREA = 6"
definition EKIP_AREA :: word_t where "EKIP_AREA = 7"
definition ENO_MEM :: word_t where "ENO_MEM = 8"

lemmas error_codes =
  EOK_def ENO_PRIVILEGE_def EINVALID_THREAD_def EINVALID_SPACE_def EINVALID_SCHEDULER_def
  EINVALID_PARAM_def EUTCB_AREA_def EKIP_AREA_def ENO_MEM_def

end
