(* ===== verification/Kmem.thy ===== *)
theory Kmem
  imports L4_Prelude
begin

text \<open>
  The kernel memory allocator (\<^verbatim>\<open>generic/kmemory.cc\<close>, \<^verbatim>\<open>kmemory.h\<close>).

  Kernel memory is a function from addresses to machine words.  The allocator keeps the free
  chunks of 1 KB in a list that is threaded through their first words; the list is modelled on
  that memory, pointer by pointer.  A pointer to a pointer (\<^verbatim>\<open>prev\<close>) is an optional
  address: \<^term>\<open>None\<close> is the address of the variable \<^verbatim>\<open>kmem_free_list\<close> itself.
  \<^verbatim>\<open>enter_kdebug\<close> is an endless loop in the configured kernel, so running out of memory is
  the result \<^term>\<open>None\<close>, as is a walk of a cyclic list.
\<close>

section \<open>The allocator\<close>

definition KMEM_CHUNKSIZE :: word_t where "KMEM_CHUNKSIZE = 1024"

record memory =
  mem :: "word_t \<Rightarrow> word_t"
  kmem_free_list :: word_t
  free_chunks :: word_t

definition write_ptr :: "word_t option \<Rightarrow> word_t \<Rightarrow> memory \<Rightarrow> memory" where
  "write_ptr p v m =
     (case p of None \<Rightarrow> m\<lparr>kmem_free_list := v\<rparr> | Some a \<Rightarrow> m\<lparr>mem := (mem m)(a := v)\<rparr>)"

partial_function (option) free_link ::
  "word_t \<Rightarrow> word_t \<Rightarrow> (word_t \<Rightarrow> word_t) \<Rightarrow> (word_t \<times> (word_t \<Rightarrow> word_t)) option" where
  "free_link limit p h =
     (if p < limit
      then let h1 = h(p := p + KMEM_CHUNKSIZE) in free_link limit (h1 p) h1
      else Some (p, h))"

partial_function (option) free_find ::
  "word_t \<Rightarrow> word_t option \<Rightarrow> word_t \<Rightarrow> (word_t \<Rightarrow> word_t) \<Rightarrow> (word_t option \<times> word_t) option" where
  "free_find address prev cur h =
     (if cur \<noteq> 0 \<and> address > cur then free_find address (Some cur) (h cur) h
      else Some (prev, cur))"

definition kmem_free :: "word_t \<Rightarrow> word_t \<Rightarrow> memory \<Rightarrow> memory option" where
  "kmem_free address sz0 m =
     (let sz = max sz0 KMEM_CHUNKSIZE in
      case free_link (address + sz - KMEM_CHUNKSIZE) address (mem m) of
        None \<Rightarrow> None
      | Some (p, h) \<Rightarrow>
          (case free_find address None (kmem_free_list m) h of
             None \<Rightarrow> None
           | Some (prev, cur) \<Rightarrow>
               let m1 = write_ptr prev address (m\<lparr>mem := h\<rparr>);
                   m2 = m1\<lparr>mem := (mem m1)(p := cur)\<rparr>
               in Some (m2\<lparr>free_chunks := free_chunks m2 + sz div KMEM_CHUNKSIZE\<rparr>)))"

definition kmem_init :: "word_t \<Rightarrow> word_t \<Rightarrow> memory \<Rightarrow> memory option" where
  "kmem_init start end m = kmem_free start (end - start) (m\<lparr>kmem_free_list := 0, free_chunks := 0\<rparr>)"

function alloc_run :: "word_t \<Rightarrow> word_t \<Rightarrow> word_t \<Rightarrow> word_t \<Rightarrow> (word_t \<Rightarrow> word_t) \<Rightarrow> word_t" where
  "alloc_run n i cur tmp h =
     (if tmp \<noteq> 0 \<and> i < n
      then if tmp \<noteq> cur + KMEM_CHUNKSIZE * i then 0
           else alloc_run n (i + 1) cur (h tmp) h
      else tmp)"
  by pat_completeness auto
termination
proof (relation "measure (\<lambda>(n, i, cur, tmp, h). unat n - unat i)", simp_all, goal_cases)
  case (1 n i)
  then show ?case using unat_plus_1 [of i n] by (auto simp: word_less_nat_alt add.commute)
qed

declare alloc_run.simps [simp del]

definition zero_block :: "word_t \<Rightarrow> word_t \<Rightarrow> (word_t \<Rightarrow> word_t) \<Rightarrow> word_t \<Rightarrow> word_t" where
  "zero_block base sz h a = (if a - base < sz \<and> (a - base) AND 7 = 0 then 0 else h a)"

partial_function (option) alloc_scan ::
  "(word_t \<Rightarrow> bool) \<Rightarrow> word_t \<Rightarrow> word_t option \<Rightarrow> word_t \<Rightarrow> memory \<Rightarrow> (word_t \<times> memory) option" where
  "alloc_scan fits sz prev cur m =
     (if cur = 0 then None
      else let tmp = (if fits cur
                      then alloc_run (sz div KMEM_CHUNKSIZE) 1 cur (mem m cur) (mem m) else 0)
           in if tmp \<noteq> 0
              then let m1 = write_ptr prev tmp m;
                       m2 = m1\<lparr>mem := zero_block cur sz (mem m1)\<rparr>
                   in Some (cur, m2\<lparr>free_chunks := free_chunks m2 - sz div KMEM_CHUNKSIZE\<rparr>)
              else alloc_scan fits sz (Some cur) (mem m cur) m)"

definition kmem_alloc :: "word_t \<Rightarrow> memory \<Rightarrow> (word_t \<times> memory) option" where
  "kmem_alloc sz0 m =
     (let sz = max sz0 KMEM_CHUNKSIZE
      in alloc_scan (\<lambda>cur. cur AND (sz - 1) = 0) sz None (kmem_free_list m) m)"

definition kmem_alloc_aligned :: "word_t \<Rightarrow> word_t \<Rightarrow> word_t \<Rightarrow> memory \<Rightarrow> (word_t \<times> memory) option" where
  "kmem_alloc_aligned sz0 alignment msk m =
     (let align = alignment AND msk; sz = max sz0 KMEM_CHUNKSIZE
      in alloc_scan (\<lambda>cur. cur AND msk = align \<and> cur AND (sz - 1) = 0) sz None
           (kmem_free_list m) m)"

section \<open>The free list as a list of addresses\<close>

fun fseg :: "(word_t \<Rightarrow> word_t) \<Rightarrow> word_t \<Rightarrow> word_t list \<Rightarrow> word_t \<Rightarrow> bool" where
  "fseg h p [] q \<longleftrightarrow> p = q"
| "fseg h p (x # xs) q \<longleftrightarrow> p = x \<and> x \<noteq> 0 \<and> fseg h (h x) xs q"

text \<open>The representation predicate: the chunks on the free list in ascending order.\<close>

definition free_list :: "memory \<Rightarrow> word_t list \<Rightarrow> bool" where
  "free_list m xs \<longleftrightarrow> fseg (mem m) (kmem_free_list m) xs 0 \<and> sorted_wrt (<) xs \<and>
     (\<forall>x \<in> set xs. x AND 0x3ff = 0) \<and> free_chunks m = of_nat (length xs)"

fun run :: "word_t \<Rightarrow> nat \<Rightarrow> word_t list" where
  "run a 0 = []"
| "run a (Suc n) = a # run (a + KMEM_CHUNKSIZE) n"

lemma fseg_cong:
  assumes "\<And>x. x \<in> set xs \<Longrightarrow> h x = h' x"
  shows "fseg h p xs q = fseg h' p xs q"
  using assms by (induction xs arbitrary: p) auto

lemma fseg_append: "fseg h p (xs @ ys) q \<longleftrightarrow> (\<exists>r. fseg h p xs r \<and> fseg h r ys q)"
  by (induction xs arbitrary: p) auto

lemma fseg_nonzero: "fseg h p xs q \<Longrightarrow> 0 \<notin> set xs"
  by (induction xs arbitrary: p) auto

lemma fseg_relink:
  assumes "fseg h p xs q" and "xs \<noteq> []" and "distinct xs"
  shows "fseg (h(last xs := q')) p xs q'"
  using assms
proof (induction xs arbitrary: p)
  case (Cons x xs)
  then show ?case by (cases "xs = []") auto
qed simp

lemma fseg_upd [simp]: "x \<notin> set xs \<Longrightarrow> fseg (h(x := v)) p xs q = fseg h p xs q"
  by (rule fseg_cong) auto

lemma fseg_insert:
  assumes "fseg h p ls r" and "fseg h r rs 0" and "fseg h a ks l"
    and "distinct (ls @ ks @ l # rs)" and "l \<noteq> 0"
  shows "fseg ((if ls = [] then h else h(last ls := a))(l := r)) (if ls = [] then a else p)
    (ls @ ks @ l # rs) 0"
proof (cases "ls = []")
  case True
  then show ?thesis using assms by (auto simp: fseg_append)
next
  case False
  have "last ls \<in> set ls" using False by simp
  then have "last ls \<notin> set ks" "last ls \<noteq> l" "last ls \<notin> set rs" using assms(4) by auto
  moreover have "fseg (h(last ls := a)) p ls a" using fseg_relink [OF assms(1) False] assms(4) by simp
  ultimately show ?thesis using False assms by (auto simp: fseg_append)
qed

lemma fseg_remove:
  assumes "fseg h p (ls @ ks @ w # ws) 0" and "distinct (ls @ ks @ w # ws)"
  shows "fseg (if ls = [] then h else h(last ls := w)) (if ls = [] then w else p) (ls @ w # ws) 0"
proof -
  obtain r where r: "fseg h p ls r" "fseg h w (w # ws) 0"
    using assms(1) by (auto simp: fseg_append)
  show ?thesis
  proof (cases "ls = []")
    case False
    have "last ls \<in> set ls" using False by simp
    then have "last ls \<noteq> w" "last ls \<notin> set ws" using assms(2) by auto
    moreover have "fseg (h(last ls := w)) p ls w" using fseg_relink [OF r(1) False] assms(2) by simp
    ultimately show ?thesis using False r by (auto simp: fseg_append)
  qed (use r in simp)
qed

lemma length_run [simp]: "length (run a n) = n"
  by (induction n arbitrary: a) auto

lemma of_nat_unat_id: "of_nat (unat w) = w" for w :: word_t
  by simp

lemma run_map: "run a n = map (\<lambda>k. a + of_nat k * KMEM_CHUNKSIZE) [0..<n]"
proof (induction n arbitrary: a)
  case (Suc n)
  show ?case unfolding run.simps Suc map_upt_Suc by (simp add: algebra_simps)
qed simp

lemma in_run: "x \<in> set (run a n) \<longleftrightarrow> (\<exists>k<n. x = a + of_nat k * KMEM_CHUNKSIZE)"
  by (auto simp: run_map)

lemma unat_chunk:
  assumes "unat a + k * 1024 < 2 ^ 64"
  shows "unat (a + of_nat k * KMEM_CHUNKSIZE) = unat a + k * 1024"
proof -
  have "k * 1024 < 2 ^ 64" using assms by auto
  then show ?thesis using assms
    by (simp add: KMEM_CHUNKSIZE_def unat_word_ariths unat_of_nat take_bit_nat_eq_self_iff)
qed

lemma aligned_mod: "x AND 0x3ff = 0 \<longleftrightarrow> unat x mod 1024 = 0" for x :: word_t
proof -
  have m: "(0x3ff :: word_t) = mask 10" by (simp add: mask_eq_exp_minus_1)
  show ?thesis
    unfolding m take_bit_eq_mask [symmetric] unat_eq_0 [symmetric] unsigned_take_bit_eq
    by (simp add: take_bit_eq_mod)
qed

lemma in_run_offset:
  assumes "x AND 0x3ff = 0" and "c AND 0x3ff = 0" and "unat (x - c) < n * 1024"
  shows "x \<in> set (run c n)"
proof -
  have "unat x = (unat (x - c) + unat c) mod 2 ^ 64"
    using unat_word_ariths(1) [of "x - c" c] by simp
  then have "unat x mod 1024 = (unat (x - c) + unat c) mod 1024"
    by (simp add: mod_mod_cancel)
  then have "unat (x - c) mod 1024 = 0"
    using assms(1,2) by (metis aligned_mod mod_add_right_eq add.right_neutral)
  then obtain k where k: "unat (x - c) = k * 1024" by (metis mod_0_imp_dvd dvd_def mult.commute)
  then have "x - c = of_nat (k * 1024)" by (metis of_nat_unat_id)
  then have "x = c + of_nat k * KMEM_CHUNKSIZE" by (simp add: KMEM_CHUNKSIZE_def algebra_simps)
  moreover have "k < n" using k assms(3) by simp
  ultimately show ?thesis by (auto simp: in_run)
qed

lemma sorted_run:
  assumes "unat a + n * 1024 \<le> 2 ^ 64"
  shows "sorted_wrt (<) (run a n)"
  using assms
proof (induction n arbitrary: a)
  case (Suc n)
  have a1: "n > 0 \<Longrightarrow> unat (a + KMEM_CHUNKSIZE) = unat a + 1024"
    using unat_chunk [of a 1] Suc.prems by simp
  have "a < x" if x: "x \<in> set (run (a + KMEM_CHUNKSIZE) n)" for x
  proof -
    obtain k where "k < n" and "x = a + KMEM_CHUNKSIZE + of_nat k * KMEM_CHUNKSIZE"
      using x unfolding in_run by auto
    then have "unat x = unat a + Suc k * 1024"
      using unat_chunk [of a "Suc k"] Suc.prems by (simp add: algebra_simps)
    then show ?thesis by (simp add: word_less_nat_alt)
  qed
  moreover have "sorted_wrt (<) (run (a + KMEM_CHUNKSIZE) n)"
    using Suc a1 by (cases "n = 0") auto
  ultimately show ?case by simp
qed simp

section \<open>Freeing\<close>

lemma free_link_run:
  assumes "unat a + n * 1024 < 2 ^ 64" and "a \<noteq> 0"
  shows "\<exists>h'. free_link (a + of_nat n * KMEM_CHUNKSIZE) a h = Some (a + of_nat n * KMEM_CHUNKSIZE, h') \<and>
    fseg h' a (run a n) (a + of_nat n * KMEM_CHUNKSIZE) \<and> (\<forall>x. x \<notin> set (run a n) \<longrightarrow> h' x = h x)"
  using assms
proof (induction n arbitrary: a h)
  case 0
  then show ?case by (simp add: free_link.simps)
next
  case (Suc n)
  let ?b = "a + KMEM_CHUNKSIZE" and ?h = "h(a := a + KMEM_CHUNKSIZE)"
  have lim: "?b + of_nat n * KMEM_CHUNKSIZE = a + of_nat (Suc n) * KMEM_CHUNKSIZE"
    by (simp add: algebra_simps)
  have "unat ?b = unat a + 1024"
    using unat_chunk [of a 1] Suc.prems by simp
  then have "unat ?b + n * 1024 < 2 ^ 64" and "?b \<noteq> 0" using Suc.prems by auto
  from Suc.IH [OF this, of ?h] obtain h' where h':
    "free_link (?b + of_nat n * KMEM_CHUNKSIZE) ?b ?h = Some (?b + of_nat n * KMEM_CHUNKSIZE, h')"
    "fseg h' ?b (run ?b n) (?b + of_nat n * KMEM_CHUNKSIZE)"
    "\<forall>x. x \<notin> set (run ?b n) \<longrightarrow> h' x = ?h x" by blast
  have "unat (a + of_nat (Suc n) * KMEM_CHUNKSIZE) = unat a + Suc n * 1024"
    using unat_chunk [of a "Suc n"] Suc.prems by simp
  then have "a < a + of_nat (Suc n) * KMEM_CHUNKSIZE" by (simp add: word_less_nat_alt)
  then have step: "free_link (a + of_nat (Suc n) * KMEM_CHUNKSIZE) a h =
      free_link (a + of_nat (Suc n) * KMEM_CHUNKSIZE) ?b ?h"
    by (subst free_link.simps) simp
  have "a \<notin> set (run ?b n)"
    using sorted_run [of a "Suc n"] Suc.prems by auto
  then have "h' a = ?b" using h'(3) by simp
  then show ?case using h' Suc.prems unfolding step lim by auto
qed

lemma free_find_split:
  assumes "fseg h p xs 0" and "sorted_wrt (<) xs"
  shows "\<exists>r. free_find a prev p h =
      Some (if takeWhile (\<lambda>x. x < a) xs = [] then prev else Some (last (takeWhile (\<lambda>x. x < a) xs)), r) \<and>
    fseg h p (takeWhile (\<lambda>x. x < a) xs) r \<and> fseg h r (dropWhile (\<lambda>x. x < a) xs) 0"
  using assms
proof (induction xs arbitrary: p prev)
  case Nil
  then show ?case by (simp add: free_find.simps)
next
  case (Cons x xs)
  then obtain r where r: "free_find a (Some x) (h x) h =
      Some (if takeWhile (\<lambda>x. x < a) xs = [] then Some x else Some (last (takeWhile (\<lambda>x. x < a) xs)), r)"
    "fseg h (h x) (takeWhile (\<lambda>x. x < a) xs) r" "fseg h r (dropWhile (\<lambda>x. x < a) xs) 0"
    by fastforce
  show ?case
  proof (cases "x < a")
    case True
    then show ?thesis using Cons.prems r by (subst free_find.simps) auto
  next
    case False
    then show ?thesis using Cons.prems by (subst free_find.simps) auto
  qed
qed

definition insert_run :: "word_t \<Rightarrow> nat \<Rightarrow> word_t list \<Rightarrow> word_t list" where
  "insert_run a n xs = takeWhile (\<lambda>x. x < a) xs @ run a n @ dropWhile (\<lambda>x. x < a) xs"

lemma sorted_insert_run:
  assumes s: "sorted_wrt (<) xs" and al: "\<forall>x \<in> set xs. x AND 0x3ff = 0" and "a AND 0x3ff = 0"
    and bd: "unat a + n * 1024 \<le> 2 ^ 64" and dis: "set xs \<inter> set (run a n) = {}"
  shows "sorted_wrt (<) (insert_run a n xs)"
proof -
  have lo: "y < a" if "y \<in> set (takeWhile (\<lambda>x. x < a) xs)" for y
    using that by (rule set_takeWhileD [THEN conjunct2])
  have ge: "a \<le> y" if "y \<in> set (dropWhile (\<lambda>x. x < a) xs)" for y
  proof (cases "dropWhile (\<lambda>x. x < a) xs")
    case (Cons z zs)
    then have "a \<le> z" using hd_dropWhile [of "\<lambda>x. x < a" xs] by auto
    moreover have "sorted_wrt (<) (z # zs)"
      using s unfolding Cons [symmetric] by (metis sorted_wrt_append takeWhile_dropWhile_id)
    ultimately show ?thesis using that Cons by auto
  next
    case Nil
    then show ?thesis using that by (simp only: list.set empty_iff)
  qed
  have hi: "z < y" if y: "y \<in> set (dropWhile (\<lambda>x. x < a) xs)" and z: "z \<in> set (run a n)" for y z
  proof -
    have yx: "y \<in> set xs" using y by (rule set_dropWhileD)
    obtain k where k: "k < n" "z = a + of_nat k * KMEM_CHUNKSIZE" using z unfolding in_run by auto
    have "unat (y - a) \<ge> n * 1024"
      using in_run_offset [of y a n] yx al assms(3) dis by (meson disjoint_iff not_le)
    moreover have "unat (y - a) = unat y - unat a" using ge [OF y] by (rule unat_sub)
    ultimately have "unat z < unat y"
      using k unat_chunk [of a k] bd by auto
    then show ?thesis by (simp add: word_less_nat_alt)
  qed
  have alo: "a \<le> z" if "z \<in> set (run a n)" for z
    using that bd unat_chunk unfolding in_run by (fastforce simp: word_le_nat_alt)
  have parts: "sorted_wrt (<) (takeWhile (\<lambda>x. x < a) xs)" "sorted_wrt (<) (dropWhile (\<lambda>x. x < a) xs)"
    using s by (metis sorted_wrt_append takeWhile_dropWhile_id)+
  have "\<forall>x \<in> set (takeWhile (\<lambda>x. x < a) xs). \<forall>y \<in> set (run a n @ dropWhile (\<lambda>x. x < a) xs). x < y"
    using lo ge alo by (metis Un_iff less_le_trans set_append)
  moreover have "sorted_wrt (<) (run a n @ dropWhile (\<lambda>x. x < a) xs)"
    unfolding sorted_wrt_append using sorted_run [OF bd] parts(2) hi by blast
  ultimately show ?thesis
    unfolding insert_run_def sorted_wrt_append [of _ "takeWhile (\<lambda>x. x < a) xs"] using parts(1) by blast
qed

lemma length_insert_run: "length (insert_run a n xs) = length xs + n"
proof -
  have "length xs = length (takeWhile (\<lambda>x. x < a) xs) + length (dropWhile (\<lambda>x. x < a) xs)"
    by (metis length_append takeWhile_dropWhile_id)
  then show ?thesis by (simp add: insert_run_def)
qed

lemma set_insert_run: "set (insert_run a n xs) = set xs \<union> set (run a n)"
proof -
  have "set xs = set (takeWhile (\<lambda>x. x < a) xs) \<union> set (dropWhile (\<lambda>x. x < a) xs)"
    by (metis set_append takeWhile_dropWhile_id)
  then show ?thesis unfolding insert_run_def set_append by blast
qed

lemma run_snoc: "run a (Suc n) = run a n @ [a + of_nat n * KMEM_CHUNKSIZE]"
  by (simp add: run_map del: run.simps)

lemma run_aligned:
  assumes "a AND 0x3ff = 0" and "x \<in> set (run a n)"
  shows "x AND 0x3ff = 0"
proof -
  obtain k where "x = a + of_nat k * KMEM_CHUNKSIZE" using assms(2) unfolding in_run by auto
  then have "unat x = (unat a + unat (of_nat k * KMEM_CHUNKSIZE :: word_t)) mod 2 ^ 64"
    by (simp add: unat_word_ariths)
  then have "unat x mod 1024 = (unat a + unat (of_nat k * KMEM_CHUNKSIZE :: word_t)) mod 1024"
    by (simp add: mod_mod_cancel)
  moreover have "unat (of_nat k * KMEM_CHUNKSIZE :: word_t) mod 1024 = 0"
    by (simp add: unat_word_ariths KMEM_CHUNKSIZE_def mod_mod_cancel)
  ultimately have "unat x mod 1024 = 0"
    using assms(1) unfolding aligned_mod by (metis mod_add_right_eq add.right_neutral)
  then show ?thesis by (simp only: aligned_mod)
qed

lemma block_size:
  assumes "n > 0" and "n * 1024 < 2 ^ 64"
  shows "unat (of_nat n * KMEM_CHUNKSIZE :: word_t) = n * 1024"
    and "max (of_nat n * KMEM_CHUNKSIZE) KMEM_CHUNKSIZE = of_nat n * KMEM_CHUNKSIZE"
    and "of_nat n * KMEM_CHUNKSIZE div KMEM_CHUNKSIZE = of_nat n"
proof -
  show u: "unat (of_nat n * KMEM_CHUNKSIZE :: word_t) = n * 1024"
    using unat_chunk [of 0 n] assms by simp
  then show "max (of_nat n * KMEM_CHUNKSIZE) KMEM_CHUNKSIZE = of_nat n * KMEM_CHUNKSIZE"
    using assms by (intro max_absorb1) (simp add: word_le_nat_alt KMEM_CHUNKSIZE_def)
  have "unat (of_nat n * KMEM_CHUNKSIZE div KMEM_CHUNKSIZE :: word_t) = n"
    unfolding unat_div u by (simp add: KMEM_CHUNKSIZE_def)
  then show "of_nat n * KMEM_CHUNKSIZE div KMEM_CHUNKSIZE = of_nat n"
    by (metis of_nat_unat_id)
qed

text \<open>\<^verbatim>\<open>kmem_t::free\<close> inserts a block of chunks that are not already free at its place
  in the ascending free list.\<close>

lemma kmem_free_inserts:
  assumes "free_list m xs" and "a AND 0x3ff = 0" and "a \<noteq> 0" and "n > 0"
    and "unat a + n * 1024 \<le> 2 ^ 64" and "set xs \<inter> set (run a n) = {}"
  shows "\<exists>m'. kmem_free a (of_nat n * KMEM_CHUNKSIZE) m = Some m' \<and>
    free_list m' (insert_run a n xs) \<and>
    (\<forall>x. x \<in> set xs \<or> x \<in> set (run a n) \<or> mem m' x = mem m x)"
proof -
  obtain k where n: "n = Suc k" using assms(4) by (cases n) auto
  let ?lim = "a + of_nat k * KMEM_CHUNKSIZE"
  let ?ls = "takeWhile (\<lambda>x. x < a) xs" and ?rs = "dropWhile (\<lambda>x. x < a) xs"
  have a1: "unat a \<ge> 1" using assms(3) by (simp add: unat_gt_0 Suc_leI)
  have bd: "unat a + k * 1024 < 2 ^ 64" "n * 1024 < 2 ^ 64" using assms(5) a1 n by auto
  note sz = block_size [OF assms(4) bd(2)]
  have lim: "a + of_nat n * KMEM_CHUNKSIZE - KMEM_CHUNKSIZE = ?lim" by (simp add: n algebra_simps)
  from free_link_run [OF bd(1) assms(3), of "mem m"] obtain h where h:
    "free_link ?lim a (mem m) = Some (?lim, h)" "fseg h a (run a k) ?lim"
    "\<And>x. x \<notin> set (run a k) \<Longrightarrow> h x = mem m x" by blast
  have runs: "set (run a n) = insert ?lim (set (run a k))" "?lim \<notin> set (run a k)"
    using sorted_run [OF assms(5)] unfolding n run_snoc sorted_wrt_append by auto
  have xs: "fseg (mem m) (kmem_free_list m) xs 0" "sorted_wrt (<) xs" "\<forall>x \<in> set xs. x AND 0x3ff = 0"
    "free_chunks m = of_nat (length xs)" using assms(1) by (auto simp: free_list_def)
  have "fseg h (kmem_free_list m) xs 0"
    using xs(1) fseg_cong [of xs h "mem m"] h(3) assms(6) runs(1) by blast
  from free_find_split [OF this xs(2), of a None] obtain r where r:
    "free_find a None (kmem_free_list m) h = Some (if ?ls = [] then None else Some (last ?ls), r)"
    "fseg h (kmem_free_list m) ?ls r" "fseg h r ?rs 0" by blast
  define h2 where "h2 = (if ?ls = [] then h else h(last ?ls := a))(?lim := r)"
  define fl where "fl = (if ?ls = [] then a else kmem_free_list m)"
  define m' where "m' = m\<lparr>mem := h2, kmem_free_list := fl, free_chunks := free_chunks m + of_nat n\<rparr>"
  have res: "kmem_free a (of_nat n * KMEM_CHUNKSIZE) m = Some m'"
    unfolding kmem_free_def sz(2) Let_def lim h(1) option.case prod.case r(1) sz(3)
    by (simp add: m'_def h2_def fl_def write_ptr_def)
  note srt = sorted_insert_run [OF xs(2,3) assms(2,5,6)]
  have ir: "insert_run a n xs = ?ls @ run a k @ ?lim # ?rs" unfolding insert_run_def n run_snoc by simp
  have "?lim \<noteq> 0" using unat_chunk [OF bd(1)] a1 by auto
  then have "fseg h2 fl (insert_run a n xs) 0"
    unfolding h2_def fl_def ir using fseg_insert [OF r(2,3) h(2)] srt
    unfolding ir strict_sorted_iff by blast
  moreover have "\<forall>x \<in> set (insert_run a n xs). x AND 0x3ff = 0"
    using xs(3) run_aligned [OF assms(2)] unfolding set_insert_run by blast
  moreover have "\<forall>x. x \<in> set xs \<or> x \<in> set (run a n) \<or> h2 x = mem m x"
    using h(3) runs(1) set_takeWhileD [OF last_in_set [of ?ls]] by (auto simp: h2_def)
  ultimately show ?thesis
    using res srt xs(4)
    by (simp add: m'_def free_list_def length_insert_run)
qed

section \<open>Allocating\<close>

lemma alloc_run_spec:
  assumes "fseg h tmp ys 0" and "i \<le> n"
  shows "alloc_run n i c tmp h =
    (if unat n - unat i < length ys \<and>
        take (unat n - unat i) ys = run (c + KMEM_CHUNKSIZE * i) (unat n - unat i)
     then ys ! (unat n - unat i) else 0)"
  using assms
proof (induction ys arbitrary: tmp i)
  case Nil
  then show ?case by (simp add: alloc_run.simps)
next
  case (Cons y ys)
  show ?case
  proof (cases "i < n")
    case True
    have u: "unat (i + 1) = Suc (unat i)" using unat_plus_1 [OF True] .
    then have i1: "i + 1 \<le> n" and k: "unat n - unat i = Suc (unat n - unat (i + 1))"
      using True by (simp_all add: word_le_nat_alt word_less_nat_alt add.commute)
    have c1: "c + KMEM_CHUNKSIZE * (i + 1) = c + KMEM_CHUNKSIZE * i + KMEM_CHUNKSIZE"
      by (simp add: algebra_simps)
    show ?thesis
      using Cons.prems Cons.IH [of "h y", OF _ i1] True
      by (subst alloc_run.simps) (auto simp: k c1)
  next
    case False
    then show ?thesis using Cons.prems by (subst alloc_run.simps) auto
  qed
qed

text \<open>The first run of \<^term>\<open>n\<close> adjacent chunks that has a successor on the list.\<close>

fun first_run :: "(word_t \<Rightarrow> bool) \<Rightarrow> nat \<Rightarrow> word_t list \<Rightarrow> (word_t list \<times> word_t list) option" where
  "first_run fits n [] = None"
| "first_run fits n (c # zs) =
     (if fits c \<and> n < length (c # zs) \<and> take n (c # zs) = run c n then Some ([], c # zs)
      else map_option (\<lambda>(us, r). (c # us, r)) (first_run fits n zs))"

definition alloc_done :: "word_t \<Rightarrow> word_t option \<Rightarrow> word_t \<Rightarrow> word_t \<Rightarrow> memory \<Rightarrow> word_t \<times> memory" where
  "alloc_done sz prev tmp cur m =
     (let m1 = write_ptr prev tmp m; m2 = m1\<lparr>mem := zero_block cur sz (mem m1)\<rparr>
      in (cur, m2\<lparr>free_chunks := free_chunks m2 - sz div KMEM_CHUNKSIZE\<rparr>))"

lemma alloc_scan_first_run:
  assumes "fseg (mem m) cur zs 0" and "1 \<le> sz div KMEM_CHUNKSIZE"
  shows "alloc_scan fits sz prev cur m =
    map_option (\<lambda>(us, r). alloc_done sz (if us = [] then prev else Some (last us))
        (r ! unat (sz div KMEM_CHUNKSIZE)) (hd r) m)
      (first_run fits (unat (sz div KMEM_CHUNKSIZE)) zs)"
  using assms(1)
proof (induction zs arbitrary: cur prev)
  case Nil
  then show ?case by (simp add: alloc_scan.simps)
next
  case (Cons c zs)
  let ?n = "unat (sz div KMEM_CHUNKSIZE)"
  obtain k where k: "?n = Suc k" using assms(2) by (cases ?n) (auto simp: word_le_nat_alt)
  have c: "cur = c" "c \<noteq> 0" "fseg (mem m) (mem m c) zs 0" using Cons.prems by auto
  have nz: "zs ! k \<noteq> 0" if "k < length zs"
    using fseg_nonzero [OF c(3)] that by (metis nth_mem)
  have run: "alloc_run (sz div KMEM_CHUNKSIZE) 1 c (mem m c) (mem m) =
      (if k < length zs \<and> take k zs = run (c + KMEM_CHUNKSIZE) k then zs ! k else 0)"
    using alloc_run_spec [OF c(3) assms(2), of c] k by simp
  show ?case
    using Cons.IH [OF c(3), of "Some c"] c nz
    by (subst alloc_scan.simps)
      (auto simp: run k Let_def alloc_done_def option.map_comp comp_def split_def
        intro!: option.map_cong)
qed

lemma first_run_sound:
  assumes "first_run fits n zs = Some (us, r)" and "n > 0"
  shows "\<exists>c w ws. zs = us @ run c n @ w # ws \<and> fits c \<and> r = run c n @ w # ws \<and> hd r = c \<and> r ! n = w"
  using assms
proof (induction zs arbitrary: us)
  case (Cons c zs)
  show ?case
  proof (cases "fits c \<and> n < length (c # zs) \<and> take n (c # zs) = run c n")
    case True
    then obtain w ws where d: "drop n (c # zs) = w # ws"
      by (metis Cons_nth_drop_Suc)
    then have e: "c # zs = run c n @ w # ws" using True by (metis append_take_drop_id)
    have "first_run fits n (c # zs) = Some ([], c # zs)" using True by simp
    then have "us = []" "r = run c n @ w # ws" using Cons.prems(1) e by auto
    moreover have "(run c n @ w # ws) ! n = w" by (metis length_run nth_append_length)
    ultimately show ?thesis using True e by (metis append_Nil list.sel(1))
  next
    case False
    then obtain us' where "us = c # us'" "first_run fits n zs = Some (us', r)"
      using Cons.prems by (auto split: if_splits)
    then show ?thesis using Cons.IH Cons.prems(2) by fastforce
  qed
qed simp

lemma first_run_complete:
  assumes "zs = us @ run c n @ w # ws" and "fits c" and "n > 0"
  shows "first_run fits n zs \<noteq> None"
  using assms
proof (induction us arbitrary: zs)
  case Nil
  then have "zs = c # tl zs" "take n zs = run c n" "n < length zs" by (cases n; simp)+
  then show ?case using Nil.prems(2) by (metis first_run.simps(2) option.distinct(1))
qed (auto split: if_splits)

lemma alloc_done_removes:
  assumes "free_list m (us @ run c n @ w # ws)" and "n > 0" and "n * 1024 < 2 ^ 64"
    and "alloc_done (of_nat n * KMEM_CHUNKSIZE) (if us = [] then None else Some (last us)) w c m = (c', m')"
  shows "free_list m' (us @ w # ws)" and "c' = c"
    and "\<forall>x. x - c < of_nat n * KMEM_CHUNKSIZE \<and> (x - c) AND 7 = 0 \<longrightarrow> mem m' x = 0"
    and "\<forall>x. x \<in> set us \<or> x - c < of_nat n * KMEM_CHUNKSIZE \<or> mem m' x = mem m x"
proof -
  let ?sz = "of_nat n * KMEM_CHUNKSIZE :: word_t" and ?xs = "us @ run c n @ w # ws"
  note sz = block_size [OF assms(2,3)]
  have xs: "fseg (mem m) (kmem_free_list m) ?xs 0" "sorted_wrt (<) ?xs" "\<forall>x \<in> set ?xs. x AND 0x3ff = 0"
    "free_chunks m = of_nat (length ?xs)" using assms(1) by (auto simp: free_list_def)
  have d: "distinct ?xs" using xs(2) by (simp add: strict_sorted_iff)
  define h where "h = (if us = [] then mem m else (mem m)(last us := w))"
  have m': "c' = c" "m' = m\<lparr>mem := zero_block c ?sz h,
      kmem_free_list := (if us = [] then w else kmem_free_list m),
      free_chunks := free_chunks m - of_nat n\<rparr>"
    using assms(4) by (auto simp: alloc_done_def Let_def write_ptr_def h_def sz)
  have c: "c \<in> set (run c n)" using assms(2) by (cases n) auto
  have out: "\<not> x - c < ?sz" if "x \<in> set (us @ w # ws)" for x
    using that in_run_offset [of x c n] xs(3) d c sz(1) by (auto simp: word_less_nat_alt)
  have "fseg (zero_block c ?sz h) p (us @ w # ws) 0 = fseg h p (us @ w # ws) 0" for p
    by (rule fseg_cong) (metis out zero_block_def)
  then have "fseg (mem m') (kmem_free_list m') (us @ w # ws) 0"
    using fseg_remove [OF xs(1) d] by (simp add: m' h_def)
  moreover have "free_chunks m' = of_nat (length (us @ w # ws))" by (simp add: m' xs(4))
  ultimately show "free_list m' (us @ w # ws)"
    using xs(2,3) by (auto simp: free_list_def sorted_wrt_append)
  show "c' = c" by (rule m')
  show "\<forall>x. x - c < ?sz \<and> (x - c) AND 7 = 0 \<longrightarrow> mem m' x = 0" by (simp add: m' zero_block_def)
  show "\<forall>x. x \<in> set us \<or> x - c < ?sz \<or> mem m' x = mem m x"
    using last_in_set [of us] by (auto simp: m' zero_block_def h_def)
qed

lemma kmem_alloc_scan:
  assumes "free_list m xs" and "n > 0" and "n * 1024 < 2 ^ 64"
    and "sz = of_nat n * KMEM_CHUNKSIZE"
  shows "kmem_alloc sz m = map_option (\<lambda>(us, r).
      alloc_done sz (if us = [] then None else Some (last us)) (r ! n) (hd r) m)
    (first_run (\<lambda>c. c AND (sz - 1) = 0) n xs)"
proof -
  note bs = block_size [OF assms(2,3), folded assms(4)]
  have un: "unat (sz div KMEM_CHUNKSIZE) = n"
    using bs(1) unfolding unat_div by (simp add: KMEM_CHUNKSIZE_def)
  then have "1 \<le> sz div KMEM_CHUNKSIZE" using assms(2) by (simp add: word_le_nat_alt)
  from alloc_scan_first_run [OF _ this, of m "kmem_free_list m" xs "\<lambda>c. c AND (sz - 1) = 0" None]
  show ?thesis using assms(1) by (simp add: kmem_alloc_def bs(2) un free_list_def)
qed

lemma kmem_alloc_result:
  assumes "free_list m xs" and "n > 0" and "n * 1024 < 2 ^ 64"
    and "sz = of_nat n * KMEM_CHUNKSIZE" and al: "kmem_alloc sz m = Some (c, m')"
  shows "\<exists>us w ws. xs = us @ run c n @ w # ws \<and> c AND (sz - 1) = 0 \<and> free_list m' (us @ w # ws) \<and>
    (\<forall>x. x - c < sz \<and> (x - c) AND 7 = 0 \<longrightarrow> mem m' x = 0) \<and>
    (\<forall>x. x \<in> set us \<or> x - c < sz \<or> mem m' x = mem m x)"
proof -
  obtain us r where fr: "first_run (\<lambda>c. c AND (sz - 1) = 0) n xs = Some (us, r)"
    and ad: "alloc_done sz (if us = [] then None else Some (last us)) (r ! n) (hd r) m = (c, m')"
    using al by (auto simp: kmem_alloc_scan [OF assms(1-4)])
  obtain d w ws where x: "xs = us @ run d n @ w # ws" "d AND (sz - 1) = 0" "hd r = d" "r ! n = w"
    using first_run_sound [OF fr assms(2)] by blast
  note rem = alloc_done_removes [OF assms(1) [unfolded x(1)] assms(2,3), folded assms(4),
      OF ad [unfolded x(3,4)]]
  show ?thesis using x rem by blast
qed

lemma run_nowrap:
  assumes "sorted_wrt (<) (run c n)" and "c AND 0x3ff = 0"
  shows "unat c + n * 1024 \<le> 2 ^ 64"
  using assms
proof (induction n arbitrary: c)
  case 0
  show ?case using unat_lt64 [of c] by simp
next
  case (Suc n)
  have m: "unat c mod 1024 = 0" using Suc.prems(2) by (simp only: aligned_mod)
  then obtain k where "unat c = 1024 * k" by (auto elim: mod_eqE)
  then have top: "unat c + 1024 \<le> 2 ^ 64" using unat_lt64 [of c] by simp
  show ?case
  proof (cases n)
    case (Suc k)
    have "c < c + KMEM_CHUNKSIZE" using Suc.prems(1) \<open>n = Suc k\<close> by simp
    then have "c + KMEM_CHUNKSIZE \<noteq> 0" by auto
    then have "unat c + 1024 \<noteq> 2 ^ 64"
      using unat_word_ariths(1) [of c KMEM_CHUNKSIZE] unat_eq_0 [of "c + KMEM_CHUNKSIZE"]
      by (auto simp: KMEM_CHUNKSIZE_def)
    then have u: "unat (c + KMEM_CHUNKSIZE) = unat c + 1024"
      using top unat_add_small [of c KMEM_CHUNKSIZE] by (simp add: KMEM_CHUNKSIZE_def)
    moreover have "(c + KMEM_CHUNKSIZE) AND 0x3ff = 0" using m by (simp only: aligned_mod u) simp
    ultimately show ?thesis using Suc.IH [of "c + KMEM_CHUNKSIZE"] Suc.prems(1) by simp
  qed (use top in simp)
qed

lemma insert_run_back:
  assumes "sorted_wrt (<) (us @ run c n @ ws)" and "n > 0"
  shows "insert_run c n (us @ ws) = us @ run c n @ ws"
proof -
  have c: "c \<in> set (run c n)" using assms(2) by (cases n) auto
  have "takeWhile (\<lambda>x. x < c) (us @ ws) = us \<and> dropWhile (\<lambda>x. x < c) (us @ ws) = ws"
    using assms(1) c by (cases ws) (auto simp: sorted_wrt_append takeWhile_append2 dropWhile_append2 dest!: bspec)
  then show ?thesis by (simp add: insert_run_def)
qed

text \<open>After \<^verbatim>\<open>kmem_t::init\<close> on a region of whole chunks the free list holds exactly the
  chunks of the region, in ascending order.\<close>

theorem kmem_init_all_free:
  assumes "start AND 0x3ff = 0" and "start \<noteq> 0" and "n > 0" and "unat start + n * 1024 < 2 ^ 64"
  shows "\<exists>m'. kmem_init start (start + of_nat n * KMEM_CHUNKSIZE) m = Some m' \<and>
    free_list m' (run start n) \<and> (\<forall>x. x \<in> set (run start n) \<or> mem m' x = mem m x)"
proof -
  have "free_list (m\<lparr>kmem_free_list := 0, free_chunks := 0\<rparr>) []" by (simp add: free_list_def)
  from kmem_free_inserts [OF this assms(1-3)] assms(4) show ?thesis
    by (simp add: kmem_init_def insert_run_def)
qed

theorem kmem_init_all_free_witness:
  "\<exists>m'. kmem_init 0x10000 (0x10000 + of_nat 8 * KMEM_CHUNKSIZE)
      \<lparr>mem = (\<lambda>_. 7), kmem_free_list = 99, free_chunks = 5\<rparr> = Some m' \<and>
    free_list m' (run 0x10000 8) \<and> (\<forall>x. x \<in> set (run 0x10000 8) \<or> mem m' x = 7)"
  using kmem_init_all_free [of "0x10000" 8 "\<lparr>mem = (\<lambda>_. 7), kmem_free_list = 99, free_chunks = 5\<rparr>"]
  by simp

text \<open>C5: on a well-formed free list, \<^verbatim>\<open>kmem_t::alloc\<close> returns exactly when some run of the
  requested length starts at an address aligned to the size and is followed by a further free
  chunk; the block it returns is such a run, it is taken off the free list and cleared, and no
  other word changes but the link that pointed to it.  (The last run of the list is never handed
  out, and without a candidate the kernel debugger loop is entered.)\<close>

theorem kmem_alloc_spec:
  assumes "free_list m xs" and "n > 0" and "n * 1024 < 2 ^ 64"
    and "sz = of_nat n * KMEM_CHUNKSIZE"
  shows "(kmem_alloc sz m \<noteq> None \<longleftrightarrow>
      (\<exists>us c w ws. xs = us @ run c n @ w # ws \<and> c AND (sz - 1) = 0)) \<and>
    (\<forall>c m'. kmem_alloc sz m = Some (c, m') \<longrightarrow>
      (\<exists>us w ws. xs = us @ run c n @ w # ws \<and> c AND (sz - 1) = 0 \<and> free_list m' (us @ w # ws) \<and>
        (\<forall>x. x - c < sz \<and> (x - c) AND 7 = 0 \<longrightarrow> mem m' x = 0) \<and>
        (\<forall>x. x \<in> set us \<or> x - c < sz \<or> mem m' x = mem m x)))"
proof -
  let ?fits = "\<lambda>c. c AND (sz - 1) = 0"
  have "(\<exists>us c w ws. xs = us @ run c n @ w # ws \<and> ?fits c) \<longleftrightarrow> first_run ?fits n xs \<noteq> None"
    using first_run_complete [of xs _ _ n _ _ ?fits] first_run_sound [of ?fits n xs] assms(2) by fast
  then show ?thesis
    using kmem_alloc_result [OF assms] by (simp add: kmem_alloc_scan [OF assms])
qed

definition three_chunks :: memory where
  "three_chunks = \<lparr>mem = (\<lambda>x. if x = 0x10000 then 0x10400 else if x = 0x10400 then 0x10800 else 0),
     kmem_free_list = 0x10000, free_chunks = 3\<rparr>"

lemma three_chunks_list: "free_list three_chunks [0x10000, 0x10400, 0x10800]"
  by (simp add: free_list_def three_chunks_def)

theorem kmem_alloc_spec_witness:
  "\<exists>c m'. kmem_alloc (of_nat 2 * KMEM_CHUNKSIZE) three_chunks = Some (c, m') \<and>
     free_list m' [0x10800]"
proof -
  have p: "(0 :: nat) < 2" "(2 :: nat) * 1024 < 2 ^ 64" by simp_all
  note spec = kmem_alloc_spec [OF three_chunks_list p refl]
  have "[0x10000, 0x10400, 0x10800] = [] @ run 0x10000 2 @ 0x10800 # []"
    by (simp add: KMEM_CHUNKSIZE_def numeral_2_eq_2)
  moreover have "(0x10000 :: word_t) AND (of_nat 2 * KMEM_CHUNKSIZE - 1) = 0"
    by (simp add: KMEM_CHUNKSIZE_def)
  ultimately have "kmem_alloc (of_nat 2 * KMEM_CHUNKSIZE) three_chunks \<noteq> None"
    using spec [THEN conjunct1] by blast
  then obtain c m' where r: "kmem_alloc (of_nat 2 * KMEM_CHUNKSIZE) three_chunks = Some (c, m')"
    by auto
  then obtain us w ws where e: "[0x10000, 0x10400, 0x10800] = us @ run c 2 @ w # ws"
    and fl: "free_list m' (us @ w # ws)" using spec [THEN conjunct2] by blast
  have "us = [] \<and> w = 0x10800 \<and> ws = []"
    using e by (cases us; cases ws; cases "tl us") (auto simp: numeral_2_eq_2)
  then show ?thesis using r fl by auto
qed

text \<open>Freeing a block right after it was allocated succeeds and restores the free list.\<close>

theorem kmem_alloc_free_roundtrip:
  assumes "free_list m xs" and "n > 0" and "n * 1024 < 2 ^ 64"
    and "kmem_alloc (of_nat n * KMEM_CHUNKSIZE) m = Some (c, m')"
  shows "\<exists>m''. kmem_free c (of_nat n * KMEM_CHUNKSIZE) m' = Some m'' \<and> free_list m'' xs"
proof -
  obtain us w ws where x: "xs = us @ run c n @ w # ws" and fl: "free_list m' (us @ w # ws)"
    using kmem_alloc_result [OF assms(1-3) refl assms(4)] by blast
  have s: "sorted_wrt (<) xs" and al: "\<forall>x \<in> set xs. x AND 0x3ff = 0" and nz: "0 \<notin> set xs"
    using assms(1) fseg_nonzero by (auto simp: free_list_def)
  have "c \<in> set (run c n)" using assms(2) by (cases n) auto
  then have c: "c AND 0x3ff = 0" "c \<noteq> 0" using al nz unfolding x by auto
  have "sorted_wrt (<) (run c n)" using s unfolding x sorted_wrt_append by blast
  then have bd: "unat c + n * 1024 \<le> 2 ^ 64" using run_nowrap c(1) by blast
  have "set (us @ w # ws) \<inter> set (run c n) = {}" using s unfolding x strict_sorted_iff by auto
  from kmem_free_inserts [OF fl c assms(2) bd this] show ?thesis
    using insert_run_back [of us c n "w # ws"] s assms(2) unfolding x by auto
qed

theorem kmem_alloc_free_roundtrip_witness:
  "\<exists>c m' m''. kmem_alloc (of_nat 1 * KMEM_CHUNKSIZE) three_chunks = Some (c, m') \<and>
     kmem_free c (of_nat 1 * KMEM_CHUNKSIZE) m' = Some m'' \<and>
     free_list m'' [0x10000, 0x10400, 0x10800]"
proof -
  have "kmem_alloc (of_nat 1 * KMEM_CHUNKSIZE) three_chunks \<noteq> None"
    using kmem_alloc_scan [OF three_chunks_list, of 1, OF _ _ refl]
    by (simp add: KMEM_CHUNKSIZE_def)
  then obtain c m' where r: "kmem_alloc (of_nat 1 * KMEM_CHUNKSIZE) three_chunks = Some (c, m')"
    by auto
  show ?thesis using kmem_alloc_free_roundtrip [OF three_chunks_list _ _ r] r by auto
qed

end
