(* ===== verification/Asid.thy ===== *)
theory Asid
  imports Kmem
begin

text \<open>
  Address space identifiers (\<^verbatim>\<open>include/asid.h\<close>, without
  \<^verbatim>\<open>CONFIG_PREEMPT_ASIDS\<close>).

  An \<^verbatim>\<open>asid_t\<close> is one cell of kernel memory, addressed by its pointer; its signed 32-bit
  value is the upper half of the big-endian memory word.  The cache is a table of 256 links.
  Running out of identifiers enters the kernel debugger, an endless loop, and is the result
  \<^term>\<open>None\<close>.
\<close>

section \<open>Operations\<close>

type_synonym hw_asid_t = int

record asid_link_t =
  al_asid :: word_t
  al_prev :: hw_asid_t
  al_next :: hw_asid_t

record asid_cache_t =
  ac_asids :: "hw_asid_t \<Rightarrow> asid_link_t"
  ac_first_free :: hw_asid_t
  ac_lru_head :: hw_asid_t

definition CONFIG_MAX_NUM_ASIDS :: hw_asid_t where "CONFIG_MAX_NUM_ASIDS = 256"

definition asid_value :: "word_t \<Rightarrow> memory \<Rightarrow> hw_asid_t" where
  "asid_value a m = sint (ucast (drop_bit 32 (mem m a)) :: 32 word)"

definition asid_write :: "word_t \<Rightarrow> hw_asid_t \<Rightarrow> memory \<Rightarrow> memory" where
  "asid_write a v m = m\<lparr>mem := (mem m)(a := bf_set 32 32 (ucast (of_int v :: 32 word)) (mem m a))\<rparr>"

definition asid_init :: "word_t \<Rightarrow> memory \<Rightarrow> memory" where
  "asid_init a m = asid_write a (-1) m"

definition asid_is_valid :: "word_t \<Rightarrow> memory \<Rightarrow> bool" where
  "asid_is_valid a m \<longleftrightarrow> asid_value a m \<noteq> -1"

definition asid_preempt :: "word_t \<Rightarrow> memory \<Rightarrow> memory" where
  "asid_preempt a m = asid_write a (-1) m"

definition cache_init :: "asid_cache_t \<Rightarrow> asid_cache_t" where
  "cache_init c =
     c\<lparr>ac_first_free := -1, ac_lru_head := -1,
       ac_asids := (\<lambda>i. if 0 \<le> i \<and> i < CONFIG_MAX_NUM_ASIDS
                        then \<lparr>al_asid = -1, al_prev = -1, al_next = -1\<rparr> else ac_asids c i)\<rparr>"

text \<open>\<^verbatim>\<open>move_asid\<close> maintains the LRU list for preemption only; its body is compiled out.\<close>

definition move_asid :: "hw_asid_t \<Rightarrow> bool \<Rightarrow> bool \<Rightarrow> asid_cache_t \<Rightarrow> asid_cache_t" where
  "move_asid idx remove ins c = c"

definition set_al_asid :: "hw_asid_t \<Rightarrow> word_t \<Rightarrow> asid_cache_t \<Rightarrow> asid_cache_t" where
  "set_al_asid i v c = c\<lparr>ac_asids := (ac_asids c)(i := (ac_asids c i)\<lparr>al_asid := v\<rparr>)\<rparr>"

text \<open>The pointer \<^verbatim>\<open>prev\<close> of \<^verbatim>\<open>set_valid\<close> is \<^term>\<open>None\<close> for the address of
  \<^verbatim>\<open>first_free\<close> and \<^term>\<open>Some i\<close> for the address of \<^verbatim>\<open>asids[i].next\<close>.\<close>

definition set_link :: "hw_asid_t option \<Rightarrow> hw_asid_t \<Rightarrow> asid_cache_t \<Rightarrow> asid_cache_t" where
  "set_link prev v c =
     (case prev of None \<Rightarrow> c\<lparr>ac_first_free := v\<rparr>
      | Some i \<Rightarrow> c\<lparr>ac_asids := (ac_asids c)(i := (ac_asids c i)\<lparr>al_next := v\<rparr>)\<rparr>)"

function set_valid_loop ::
  "hw_asid_t \<Rightarrow> hw_asid_t \<Rightarrow> hw_asid_t option \<Rightarrow> asid_cache_t \<Rightarrow> hw_asid_t option \<times> asid_cache_t" where
  "set_valid_loop idx end prev c =
     (if idx \<le> end
      then if al_asid (ac_asids c idx) \<noteq> -1 then set_valid_loop (idx + 1) end prev c
           else set_valid_loop (idx + 1) end (Some idx) (set_al_asid idx 0 (set_link prev idx c))
      else (prev, c))"
  by pat_completeness auto
termination by (relation "measure (\<lambda>(idx, end, prev, c). nat (end + 1 - idx))") auto

declare set_valid_loop.simps [simp del]

definition set_valid :: "hw_asid_t \<Rightarrow> hw_asid_t \<Rightarrow> asid_cache_t \<Rightarrow> asid_cache_t" where
  "set_valid start end c =
     (let old_head = ac_first_free c; (prev, c1) = set_valid_loop start end None c
      in set_link prev old_head c1)"

definition asid_allocate :: "word_t \<Rightarrow> asid_cache_t \<Rightarrow> (hw_asid_t \<times> asid_cache_t) option" where
  "asid_allocate a c =
     (if ac_first_free c = -1 then None
      else let idx = ac_first_free c;
               c1 = c\<lparr>ac_first_free := al_next (ac_asids c (ac_first_free c))\<rparr>;
               c2 = move_asid idx False True c1
           in Some (idx, set_al_asid idx a c2))"

definition cache_release :: "word_t \<Rightarrow> memory \<Rightarrow> asid_cache_t \<Rightarrow> asid_cache_t" where
  "cache_release a m c =
     (if \<not> asid_is_valid a m then c
      else let idx = asid_value a m;
               c1 = set_al_asid idx 0 (move_asid idx True False c);
               c2 = set_link (Some idx) (ac_first_free c1) c1
           in c2\<lparr>ac_first_free := idx\<rparr>)"

definition asid_reference :: "word_t \<Rightarrow> memory \<Rightarrow> asid_cache_t \<Rightarrow> asid_cache_t" where
  "asid_reference a m c = move_asid (asid_value a m) True True c"

definition asid_get :: "word_t \<Rightarrow> memory \<Rightarrow> asid_cache_t \<Rightarrow> (hw_asid_t \<times> memory \<times> asid_cache_t) option" where
  "asid_get a m c =
     (if \<not> asid_is_valid a m
      then (case asid_allocate a c of
              None \<Rightarrow> None
            | Some (idx, c1) \<Rightarrow> let m1 = asid_write a idx m in Some (asid_value a m1, m1, c1))
      else let c1 = asid_reference a m c in Some (asid_value a m, m, c1))"

definition asid_release :: "word_t \<Rightarrow> memory \<Rightarrow> asid_cache_t \<Rightarrow> memory \<times> asid_cache_t" where
  "asid_release a m c = (asid_write a (-1) m, cache_release a m c)"

section \<open>The free list of identifiers\<close>

fun aseg :: "(hw_asid_t \<Rightarrow> asid_link_t) \<Rightarrow> hw_asid_t \<Rightarrow> hw_asid_t list \<Rightarrow> bool" where
  "aseg l p [] \<longleftrightarrow> p = -1"
| "aseg l p (x # xs) \<longleftrightarrow> p = x \<and> 0 \<le> x \<and> x < CONFIG_MAX_NUM_ASIDS \<and> al_asid (l x) = 0 \<and> aseg l (al_next (l x)) xs"

text \<open>The invariant of the cache: the free identifiers form a list without repetition, and an
  identifier that is neither free nor unusable is owned by the cell that holds it.\<close>

definition asid_inv :: "memory \<Rightarrow> asid_cache_t \<Rightarrow> hw_asid_t list \<Rightarrow> bool" where
  "asid_inv m c xs \<longleftrightarrow> aseg (ac_asids c) (ac_first_free c) xs \<and> distinct xs \<and>
     (\<forall>i. 0 \<le> i \<and> i < CONFIG_MAX_NUM_ASIDS \<and> al_asid (ac_asids c i) \<noteq> 0 \<and> al_asid (ac_asids c i) \<noteq> -1
        \<longrightarrow> asid_value (al_asid (ac_asids c i)) m = i)"

lemma sint_scast_write:
  assumes "-1 \<le> v" and "v < CONFIG_MAX_NUM_ASIDS"
  shows "asid_value a (asid_write a v m) = v"
proof -
  have "(ucast (drop_bit 32 (bf_set 32 32 (ucast (of_int v :: 32 word)) w)) :: 32 word) = of_int v"
    for w :: word_t
    by (rule bit_word_eqI) (auto simp: bit_simps)
  moreover have "sint (of_int v :: 32 word) = v"
    using assms unfolding sint_sbintrunc' by (simp add: CONFIG_MAX_NUM_ASIDS_def signed_take_bit_int_eq_self)
  ultimately show ?thesis by (simp add: asid_value_def asid_write_def)
qed

lemma asid_value_other: "b \<noteq> a \<Longrightarrow> asid_value b (asid_write a v m) = asid_value b m"
  by (simp add: asid_value_def asid_write_def)

lemma aseg_cong:
  assumes "\<And>x. x \<in> set xs \<Longrightarrow> l x = l' x"
  shows "aseg l p xs = aseg l' p xs"
  using assms by (induction xs arbitrary: p) auto

lemma aseg_upd [simp]: "i \<notin> set xs \<Longrightarrow> aseg (l(i := v)) p xs = aseg l p xs"
  by (rule aseg_cong) auto

text \<open>Taking an identifier for an address space that has none returns a free identifier, makes
  the space its owner, and keeps the invariant: no two address spaces get the same identifier.\<close>

theorem asid_get_fresh:
  assumes "asid_inv m c (x # xs)" and "\<not> asid_is_valid a m" and "a \<noteq> 0" and "a \<noteq> -1"
  shows "\<exists>m' c'. asid_get a m c = Some (x, m', c') \<and> asid_value a m' = x \<and>
    asid_inv m' c' xs \<and> al_asid (ac_asids c' x) = a \<and>
    (\<forall>b. b \<noteq> a \<longrightarrow> asid_value b m' = asid_value b m)"
proof -
  have x: "ac_first_free c = x" "0 \<le> x" "x < CONFIG_MAX_NUM_ASIDS" "x \<notin> set xs" "distinct xs"
    "aseg (ac_asids c) (al_next (ac_asids c x)) xs" "al_asid (ac_asids c x) = 0"
    using assms(1) by (auto simp: asid_inv_def)
  let ?m = "asid_write a x m"
  let ?c = "set_al_asid x a (c\<lparr>ac_first_free := al_next (ac_asids c x)\<rparr>)"
  have v: "asid_value a ?m = x" using x by (simp add: sint_scast_write)
  have g: "asid_get a m c = Some (x, ?m, ?c)"
    using assms(2) x v by (simp add: asid_get_def asid_allocate_def move_asid_def Let_def)
  have old: "al_asid (ac_asids c i) \<noteq> a" if "0 \<le> i" "i < CONFIG_MAX_NUM_ASIDS" for i
    using assms that by (auto simp: asid_inv_def asid_is_valid_def)
  have "asid_inv ?m ?c xs"
    using assms(1) x v old by (auto simp: asid_inv_def set_al_asid_def asid_value_other)
  then show ?thesis using g v by (auto simp: set_al_asid_def asid_value_other)
qed

text \<open>One free identifier and one owned by the cell at \<^verbatim>\<open>0x1000\<close>.\<close>

definition two_asids :: asid_cache_t where
  "two_asids = \<lparr>ac_asids = (\<lambda>i. if i = 0 then \<lparr>al_asid = 0x1000, al_prev = -1, al_next = -1\<rparr>
     else if i = 1 then \<lparr>al_asid = 0, al_prev = -1, al_next = -1\<rparr>
     else \<lparr>al_asid = -1, al_prev = -1, al_next = -1\<rparr>), ac_first_free = 1, ac_lru_head = -1\<rparr>"

definition asid_mem :: memory where
  "asid_mem = \<lparr>mem = (\<lambda>a. if a = 0x2000 then -1 else 0), kmem_free_list = 0, free_chunks = 0\<rparr>"

lemma two_asids_inv: "asid_inv asid_mem two_asids [1]"
  by (auto simp: asid_inv_def two_asids_def asid_mem_def asid_value_def CONFIG_MAX_NUM_ASIDS_def
      split: if_splits)

theorem asid_get_fresh_witness:
  "\<exists>m' c'. asid_get 0x2000 asid_mem two_asids = Some (1, m', c') \<and> asid_inv m' c' []"
proof -
  have "\<not> asid_is_valid 0x2000 asid_mem"
    unfolding asid_is_valid_def asid_value_def asid_mem_def by (simp add: mask_eq_exp_minus_1)
  from asid_get_fresh [OF two_asids_inv this] show ?thesis by auto
qed

text \<open>Releasing an identifier puts it back at the head of the free list, invalidates the
  cell, and keeps the invariant.\<close>

theorem asid_release_frees:
  assumes "asid_inv m c xs" and "asid_value a m = i" and "al_asid (ac_asids c i) = a"
    and "0 \<le> i" and "i < CONFIG_MAX_NUM_ASIDS" and "a \<noteq> 0" and "a \<noteq> -1"
    and "asid_release a m c = (m', c')"
  shows "asid_inv m' c' (i # xs) \<and> \<not> asid_is_valid a m'"
proof -
  have inx: "al_asid (ac_asids c y) = 0" if "y \<in> set xs" for y
  proof -
    have "aseg l p ys \<Longrightarrow> y \<in> set ys \<Longrightarrow> al_asid (l y) = 0" for l p ys
      by (induction ys arbitrary: p) auto
    then show ?thesis using assms(1) that by (auto simp: asid_inv_def)
  qed
  then have i: "i \<notin> set xs" using assms(3,6) by auto
  have vb: "asid_value (al_asid (ac_asids c j)) (asid_write a (-1) m) = j"
    if "0 \<le> j" "j < CONFIG_MAX_NUM_ASIDS" "al_asid (ac_asids c j) \<noteq> 0"
      "al_asid (ac_asids c j) \<noteq> -1" "j \<noteq> i" for j
    using assms(1,2) that by (subst asid_value_other) (auto simp: asid_inv_def)
  have inval: "asid_value a (asid_write a (-1) m) = -1"
    by (rule sint_scast_write) (simp_all add: CONFIG_MAX_NUM_ASIDS_def)
  show ?thesis
    using assms i vb inval
    by (auto simp: asid_release_def cache_release_def asid_is_valid_def asid_inv_def set_al_asid_def
        set_link_def move_asid_def Let_def)
qed

theorem asid_release_frees_witness:
  "\<exists>m' c'. asid_release 0x1000 asid_mem two_asids = (m', c') \<and> asid_inv m' c' [0, 1]"
proof -
  obtain m' c' where r: "asid_release 0x1000 asid_mem two_asids = (m', c')" by fastforce
  have "asid_value 0x1000 asid_mem = 0" by (simp add: asid_value_def asid_mem_def)
  moreover have "al_asid (ac_asids two_asids 0) = 0x1000" by (simp add: two_asids_def)
  ultimately show ?thesis
    using asid_release_frees [OF two_asids_inv, of "0x1000" 0 m' c'] r
    by (simp add: CONFIG_MAX_NUM_ASIDS_def)
qed

end
