(* ===== verification/Page_Table.thy ===== *)
theory Page_Table
  imports Asid
begin

text \<open>
  Page tables of the mips64 port: translations (\<^verbatim>\<open>arch/mips64/tlb.h\<close>), page table entries
  (\<^verbatim>\<open>arch/mips64/pgent.h\<close>), page size arithmetic (\<^verbatim>\<open>linear_ptab.h\<close>), the lookup
  of a mapping (\<^verbatim>\<open>generic/linear_ptab_walker.cc\<close>) and \<^verbatim>\<open>add_mapping\<close>
  (\<^verbatim>\<open>glue/v4-mips64/space.cc\<close>).

  A page table entry is a word of kernel memory, named by its address.  A page size number
  (\<^verbatim>\<open>pgsize_e\<close>) is a natural number: 0 is 4 KB, 7 (\<^verbatim>\<open>size_max\<close>) is 4 GB.  The
  translation buffer is in Tlb; what an update of it does here is to obtain an ASID.
\<close>

section \<open>Page sizes (linear_ptab.h, arch/mips64/page.h)\<close>

definition hw_pgshifts :: "nat \<Rightarrow> nat" where
  "hw_pgshifts n = [12, 14, 16, 18, 20, 22, 24, 32, 41] ! n"

definition size_max :: nat where "size_max = 7"

definition page_size :: "nat \<Rightarrow> word_t" where "page_size pgsize = push_bit (hw_pgshifts pgsize) 1"

definition page_shift :: "nat \<Rightarrow> word_t" where "page_shift pgsize = of_nat (hw_pgshifts pgsize)"

definition page_mask :: "nat \<Rightarrow> word_t" where
  "page_mask pgsize = push_bit (hw_pgshifts pgsize) 1 - 1"

definition page_table_size :: "nat \<Rightarrow> word_t" where
  "page_table_size pgsize = push_bit (hw_pgshifts (pgsize + 1) - hw_pgshifts pgsize) 1"

definition page_table_index :: "nat \<Rightarrow> addr_t \<Rightarrow> word_t" where
  "page_table_index pgsize vaddr =
     drop_bit (hw_pgshifts pgsize) vaddr AND (page_table_size pgsize - 1)"

definition HW_VALID_PGSIZES :: word_t where
  "HW_VALID_PGSIZES = push_bit 12 1 OR push_bit 14 1 OR push_bit 16 1 OR push_bit 18 1 OR
     push_bit 20 1 OR push_bit 22 1 OR push_bit 24 1"

definition is_page_size_valid :: "nat \<Rightarrow> bool" where
  "is_page_size_valid pgsize \<longleftrightarrow> push_bit (hw_pgshifts pgsize) 1 AND HW_VALID_PGSIZES \<noteq> 0"

section \<open>Address translation of the kernel segment (glue/v4-mips64/hwspace.h)\<close>

definition AS_KSEG_START :: word_t where "AS_KSEG_START = 0xFFFFFFFF80000000"

definition virt_to_phys :: "addr_t \<Rightarrow> addr_t" where "virt_to_phys a = a - AS_KSEG_START"

definition phys_to_virt :: "addr_t \<Rightarrow> addr_t" where "phys_to_virt a = a + AS_KSEG_START"

definition tree_to_addr :: "addr_t \<Rightarrow> addr_t" where
  "tree_to_addr a = (a AND 0x00FFFFFFFFFFFFFF) OR (AS_KSEG_START AND 0xFF00000000000000)"

section \<open>Translations (arch/mips64/tlb.h)\<close>

type_synonym translation_t = word_t

definition CONFIG_MIPS64_VPN_SHIFT :: nat where "CONFIG_MIPS64_VPN_SHIFT = 12"

definition memattrib_l4default :: word_t where "memattrib_l4default = 3"

definition tr_memattrib :: "translation_t \<Rightarrow> word_t" where "tr_memattrib t = bf_get 3 3 t"

definition tr_phys_addr :: "translation_t \<Rightarrow> addr_t" where
  "tr_phys_addr t = push_bit CONFIG_MIPS64_VPN_SHIFT (bf_get 6 24 t)"

definition tr_get_valid :: "translation_t \<Rightarrow> word_t" where "tr_get_valid t = bf_get 1 1 t"

definition tr_get_dirty :: "translation_t \<Rightarrow> word_t" where "tr_get_dirty t = bf_get 2 1 t"

definition tr_get_global :: "translation_t \<Rightarrow> word_t" where "tr_get_global t = bf_get 0 1 t"

definition tr_is_kernel :: "translation_t \<Rightarrow> bool" where "tr_is_kernel t \<longleftrightarrow> bf_get 62 2 t \<noteq> 0"

definition tr_set_dirty :: "word_t \<Rightarrow> translation_t \<Rightarrow> translation_t" where
  "tr_set_dirty d t = bf_set 2 1 d t"

definition tr_set_valid :: "word_t \<Rightarrow> translation_t \<Rightarrow> translation_t" where
  "tr_set_valid v t = bf_set 1 1 v t"

definition tr_set_global :: "word_t \<Rightarrow> translation_t \<Rightarrow> translation_t" where
  "tr_set_global g t = bf_set 0 1 g t"

definition tr_set_attrib :: "word_t \<Rightarrow> translation_t \<Rightarrow> translation_t" where
  "tr_set_attrib a t = bf_set 3 3 a t"

definition tr_set_phys_addr :: "addr_t \<Rightarrow> translation_t \<Rightarrow> translation_t" where
  "tr_set_phys_addr p t = bf_set 6 24 (drop_bit CONFIG_MIPS64_VPN_SHIFT p) t"

definition tr_set :: "word_t \<Rightarrow> bool \<Rightarrow> bool \<Rightarrow> bool \<Rightarrow> addr_t \<Rightarrow> translation_t \<Rightarrow> translation_t" where
  "tr_set memattrib allow_access allow_modify kern phys_addr t =
     bf_set 62 2 (if kern then 1 else 0)
      (bf_set 6 24 (drop_bit CONFIG_MIPS64_VPN_SHIFT phys_addr)
       (bf_set 3 3 memattrib (bf_set 2 1 (of_bool allow_modify)
        (bf_set 1 1 (of_bool allow_access) (bf_set 0 1 (of_bool kern) t)))))"

definition new_translation :: "word_t \<Rightarrow> bool \<Rightarrow> bool \<Rightarrow> bool \<Rightarrow> addr_t \<Rightarrow> translation_t" where
  "new_translation memattrib allow_access allow_modify kern phys_addr =
     tr_set memattrib allow_access allow_modify kern phys_addr 0"

section \<open>Page table entries (arch/mips64/pgent.h)\<close>

type_synonym pgent_p = word_t

definition MIPS64_PTAB_SIZE :: word_t where "MIPS64_PTAB_SIZE = push_bit 10 1 * 8"

definition pg_raw :: "memory \<Rightarrow> pgent_p \<Rightarrow> word_t" where "pg_raw m pg = mem m pg"

definition set_raw :: "pgent_p \<Rightarrow> word_t \<Rightarrow> memory \<Rightarrow> memory" where
  "set_raw pg w m = m\<lparr>mem := (mem m)(pg := w)\<rparr>"

text \<open>The fields \<^verbatim>\<open>subtree\<close>, \<^verbatim>\<open>pgsize\<close>, \<^verbatim>\<open>is_subtree\<close> and
  \<^verbatim>\<open>is_valid\<close> of the two overlapping bit-field structures.\<close>

definition ent_pgsize :: "word_t \<Rightarrow> word_t" where "ent_pgsize w = bf_get 56 4 w"

definition ent_is_subtree :: "word_t \<Rightarrow> bool" where "ent_is_subtree w \<longleftrightarrow> bf_get 60 1 w \<noteq> 0"

definition ent_is_valid :: "word_t \<Rightarrow> bool" where "ent_is_valid w \<longleftrightarrow> bf_get 61 1 w \<noteq> 0"

definition ent_set :: "bool \<Rightarrow> bool \<Rightarrow> nat \<Rightarrow> word_t \<Rightarrow> word_t" where
  "ent_set valid subtree pgsize w =
     bf_set 56 4 (of_nat pgsize) (bf_set 60 1 (of_bool subtree) (bf_set 61 1 (of_bool valid) w))"

definition get_linknode :: "pgent_p \<Rightarrow> memory \<Rightarrow> word_t" where
  "get_linknode pg m = mem m (pg + MIPS64_PTAB_SIZE)"

definition set_linknode :: "pgent_p \<Rightarrow> word_t \<Rightarrow> memory \<Rightarrow> memory" where
  "set_linknode pg v m = m\<lparr>mem := (mem m)(pg + MIPS64_PTAB_SIZE := v)\<rparr>"

definition pg_is_valid :: "pgent_p \<Rightarrow> nat \<Rightarrow> memory \<Rightarrow> bool" where
  "pg_is_valid pg pgsize m \<longleftrightarrow>
     ent_is_valid (pg_raw m pg) \<or>
     (ent_is_subtree (pg_raw m pg) \<and> ent_pgsize (pg_raw m pg) < of_nat pgsize)"

text \<open>Sizes at which a new table starts: 4 MB (5), 4 GB (7) and 4 TB (8).\<close>

definition is_table_size :: "nat \<Rightarrow> bool" where
  "is_table_size pgsize \<longleftrightarrow> pgsize = 8 \<or> pgsize = 7 \<or> pgsize = 5"

definition pg_is_subtree :: "pgent_p \<Rightarrow> nat \<Rightarrow> memory \<Rightarrow> bool" where
  "pg_is_subtree pg pgsize m \<longleftrightarrow>
     (if is_table_size pgsize then ent_is_subtree (pg_raw m pg)
      else ent_pgsize (pg_raw m pg) < of_nat pgsize)"

definition pg_is_readable :: "pgent_p \<Rightarrow> memory \<Rightarrow> bool" where
  "pg_is_readable pg m \<longleftrightarrow> tr_get_valid (pg_raw m pg) \<noteq> 0"

definition pg_is_writable :: "pgent_p \<Rightarrow> memory \<Rightarrow> bool" where
  "pg_is_writable pg m \<longleftrightarrow> tr_get_dirty (pg_raw m pg) \<noteq> 0 \<and> tr_get_valid (pg_raw m pg) \<noteq> 0"

definition pg_is_executable :: "pgent_p \<Rightarrow> memory \<Rightarrow> bool" where
  "pg_is_executable pg m \<longleftrightarrow> tr_get_valid (pg_raw m pg) \<noteq> 0"

definition pg_is_kernel :: "pgent_p \<Rightarrow> memory \<Rightarrow> bool" where
  "pg_is_kernel pg m \<longleftrightarrow> tr_is_kernel (pg_raw m pg)"

definition pg_get_attributes :: "pgent_p \<Rightarrow> memory \<Rightarrow> word_t" where
  "pg_get_attributes pg m = tr_memattrib (pg_raw m pg)"

definition pg_address :: "pgent_p \<Rightarrow> nat \<Rightarrow> memory \<Rightarrow> addr_t" where
  "pg_address pg pgsize m =
     addr_mask (tr_phys_addr (pg_raw m pg)) (NOT (push_bit (hw_pgshifts pgsize) 1 - 1))"

definition pg_subtree :: "pgent_p \<Rightarrow> nat \<Rightarrow> memory \<Rightarrow> pgent_p" where
  "pg_subtree pg pgsize m = (if is_table_size pgsize then tree_to_addr (pg_raw m pg) else pg)"

definition pg_mapnode :: "pgent_p \<Rightarrow> addr_t \<Rightarrow> memory \<Rightarrow> word_t" where
  "pg_mapnode pg vaddr m = get_linknode pg m XOR vaddr"

definition pg_vaddr :: "pgent_p \<Rightarrow> word_t \<Rightarrow> memory \<Rightarrow> addr_t" where
  "pg_vaddr pg node m = get_linknode pg m XOR node"

definition pg_reference_bits :: "pgent_p \<Rightarrow> memory \<Rightarrow> word_t" where
  "pg_reference_bits pg m =
     (if tr_get_dirty (pg_raw m pg) \<noteq> 0 then 6 else if tr_get_valid (pg_raw m pg) \<noteq> 0 then 4 else 0)"

definition pg_clear :: "pgent_p \<Rightarrow> nat \<Rightarrow> bool \<Rightarrow> memory \<Rightarrow> memory" where
  "pg_clear pg pgsize kern m =
     (let w = pg_raw m pg;
          m1 = set_raw pg (if is_table_size pgsize \<or> pgsize = 11 then 0
                           else bf_set 60 1 1 (bf_set 61 1 0 w)) m
      in if \<not> kern then set_linknode pg 0 m1 else m1)"

definition pg_make_subtree :: "pgent_p \<Rightarrow> nat \<Rightarrow> bool \<Rightarrow> memory \<Rightarrow> memory option" where
  "pg_make_subtree pg pgsize kern m =
     (if is_table_size pgsize
      then (case kmem_alloc (if kern then MIPS64_PTAB_SIZE else MIPS64_PTAB_SIZE * 2) m of
              None \<Rightarrow> None
            | Some (p, m1) \<Rightarrow>
                Some (set_raw pg (ent_set False True (pgsize - 1) (bf_set 0 56 p (pg_raw m1 pg))) m1))
      else Some (set_raw pg (ent_set False True (pgsize - 1) (pg_raw m pg)) m))"

definition pg_remove_subtree :: "pgent_p \<Rightarrow> nat \<Rightarrow> bool \<Rightarrow> memory \<Rightarrow> memory option" where
  "pg_remove_subtree pg pgsize kern m =
     (if is_table_size pgsize \<or> pgsize = 11
      then let ptab = pg_raw m pg; m1 = set_raw pg 0 m
           in kmem_free (tree_to_addr ptab) (if kern then MIPS64_PTAB_SIZE else MIPS64_PTAB_SIZE * 2) m1
      else Some (set_raw pg (ent_set False True (pgsize + 1) (pg_raw m pg)) m))"

definition pg_set_entry_attr ::
  "pgent_p \<Rightarrow> nat \<Rightarrow> addr_t \<Rightarrow> bool \<Rightarrow> bool \<Rightarrow> bool \<Rightarrow> word_t \<Rightarrow> memory \<Rightarrow> memory" where
  "pg_set_entry_attr pg pgsize paddr readable writable kern attrib m =
     set_raw pg (ent_set True False pgsize (new_translation attrib readable writable kern paddr)) m"

definition pg_set_entry :: "pgent_p \<Rightarrow> nat \<Rightarrow> addr_t \<Rightarrow> bool \<Rightarrow> bool \<Rightarrow> bool \<Rightarrow> memory \<Rightarrow> memory" where
  "pg_set_entry pg pgsize paddr readable writable kern m =
     set_raw pg (ent_set True False pgsize
       (new_translation memattrib_l4default readable writable kern paddr)) m"

definition pg_copy_entry :: "pgent_p \<Rightarrow> word_t \<Rightarrow> memory \<Rightarrow> memory" where
  "pg_copy_entry pg raw m = set_raw pg raw m"

definition pg_revoke_rights :: "pgent_p \<Rightarrow> word_t \<Rightarrow> memory \<Rightarrow> memory" where
  "pg_revoke_rights pg rwx m =
     (if rwx AND 2 \<noteq> 0 then set_raw pg (tr_set_dirty 0 (pg_raw m pg)) m else m)"

definition pg_update_rights :: "pgent_p \<Rightarrow> word_t \<Rightarrow> memory \<Rightarrow> memory" where
  "pg_update_rights pg rwx m =
     (if rwx AND 2 \<noteq> 0 then set_raw pg (tr_set_dirty 1 (pg_raw m pg)) m else m)"

definition pg_set_linknode :: "pgent_p \<Rightarrow> word_t \<Rightarrow> addr_t \<Rightarrow> memory \<Rightarrow> memory" where
  "pg_set_linknode pg node vaddr m = set_linknode pg (node XOR vaddr) m"

text \<open>The step to a neighbouring entry: entries are words, so an index is scaled by 8.\<close>

definition pg_next :: "pgent_p \<Rightarrow> nat \<Rightarrow> word_t \<Rightarrow> pgent_p" where
  "pg_next pg pgsize num =
     (if pgsize = 1 \<or> pgsize = 6 then pg + 8 * (4 * num)
      else if pgsize = 2 \<or> pgsize = 9 then pg + 8 * (16 * num)
      else if pgsize = 3 \<or> pgsize = 10 then pg + 8 * (64 * num)
      else if pgsize = 4 then pg + 8 * (256 * num)
      else pg + 8 * num)"

section \<open>Walking the page table\<close>

text \<open>An address space is named by the address of its \<^verbatim>\<open>space_t\<close>, which starts with the top
  level table.\<close>

definition space_pgent :: "word_t \<Rightarrow> word_t \<Rightarrow> pgent_p" where
  "space_pgent space num = pg_next space size_max num"

fun lookup_walk :: "nat \<Rightarrow> pgent_p \<Rightarrow> addr_t \<Rightarrow> memory \<Rightarrow> (pgent_p \<times> nat) option" where
  "lookup_walk pgsize pg vaddr m =
     (if pg_is_valid pg pgsize m
      then if pg_is_subtree pg pgsize m
           then (case pgsize of
                   0 \<Rightarrow> None
                 | Suc p \<Rightarrow> lookup_walk p (pg_next (pg_subtree pg pgsize m) p (page_table_index p vaddr))
                              vaddr m)
           else Some (pg, pgsize)
      else None)"

declare lookup_walk.simps [simp del]

definition lookup_mapping :: "word_t \<Rightarrow> addr_t \<Rightarrow> memory \<Rightarrow> (pgent_p \<times> nat) option" where
  "lookup_mapping space vaddr m =
     lookup_walk size_max (space_pgent space (page_table_index size_max vaddr)) vaddr m"

text \<open>The loop of \<^verbatim>\<open>add_mapping\<close> that descends to the wanted page size and creates the
  missing tables; \<^term>\<open>None\<close> is the kernel debugger loop (mapping exists, out of memory).\<close>

fun add_walk :: "nat \<Rightarrow> nat \<Rightarrow> pgent_p \<Rightarrow> addr_t \<Rightarrow> bool \<Rightarrow> memory \<Rightarrow> (pgent_p \<times> memory) option" where
  "add_walk pgsize sz pg vaddr kern m =
     (case pgsize of
        0 \<Rightarrow> Some (pg, m)
      | Suc p \<Rightarrow>
          if pgsize > sz
          then (case (if pg_is_valid pg pgsize m
                      then if \<not> pg_is_subtree pg pgsize m then None else Some m
                      else pg_make_subtree pg pgsize kern m) of
                  None \<Rightarrow> None
                | Some m1 \<Rightarrow>
                    add_walk p sz (pg_next (pg_subtree pg pgsize m1) p (page_table_index p vaddr))
                      vaddr kern m1)
          else Some (pg, m))"

declare add_walk.simps [simp del]

definition asid_offset :: word_t where "asid_offset = 8 * 1023"

definition add_mapping ::
  "word_t \<Rightarrow> addr_t \<Rightarrow> addr_t \<Rightarrow> nat \<Rightarrow> bool \<Rightarrow> bool \<Rightarrow> memory \<times> asid_cache_t \<Rightarrow> (memory \<times> asid_cache_t) option" where
  "add_mapping space vaddr paddr sz writable kern s =
     (let (m, c) = s; pg = space_pgent space (page_table_index size_max vaddr) in
      if \<not> is_page_size_valid sz then None
      else case add_walk size_max sz pg vaddr kern m of
             None \<Rightarrow> None
           | Some (pg1, m1) \<Rightarrow>
               let m2 = pg_set_entry pg1 (min sz size_max) paddr True writable kern m1;
                   m3 = set_raw pg1 (tr_set memattrib_l4default True writable kern paddr (pg_raw m2 pg1)) m2
               in (case asid_get (space + asid_offset) m3 c of
                     None \<Rightarrow> None | Some (_, m4, c1) \<Rightarrow> Some (m4, c1)))"

definition readmem_phys :: "addr_t \<Rightarrow> memory \<Rightarrow> word_t" where
  "readmem_phys paddr m = mem m (phys_to_virt paddr)"

definition space_readmem :: "word_t \<Rightarrow> addr_t \<Rightarrow> memory \<Rightarrow> word_t option" where
  "space_readmem space vaddr m =
     (case lookup_mapping space vaddr m of
        None \<Rightarrow> None
      | Some (pg, pgsize) \<Rightarrow>
          let paddr = addr_offset (pg_address pg pgsize m) (vaddr AND page_mask pgsize);
              paddr1 = addr_mask paddr (NOT 7)
          in if paddr1 = paddr then Some (readmem_phys paddr m)
             else let paddr2 = addr_offset paddr1 8; msk = NOT (page_mask pgsize);
                      combine = (\<lambda>v p2. let idx = unat (v AND 7) in
                        push_bit (idx * 8) (readmem_phys paddr1 m) OR
                        drop_bit ((8 - idx) * 8) (readmem_phys p2 m))
                  in if addr_mask paddr1 msk \<noteq> addr_mask paddr2 msk
                     then (case lookup_mapping space (addr_offset vaddr 8) m of
                             None \<Rightarrow> None
                           | Some (pg', pgsize') \<Rightarrow>
                               let v = addr_offset vaddr 8;
                                   p2 = addr_offset (pg_address pg' pgsize' m) (v AND page_mask pgsize')
                               in Some (combine v (addr_mask p2 (NOT 7))))
                     else Some (combine vaddr paddr2))"

section \<open>Properties\<close>

lemma ent_set_fields:
  assumes "pgsize < 16"
  shows "ent_is_valid (ent_set v t pgsize w) = v" and "ent_is_subtree (ent_set v t pgsize w) = t"
    and "ent_pgsize (ent_set v t pgsize w) = of_nat pgsize"
proof -
  have "take_bit 4 (of_nat pgsize :: word_t) = of_nat pgsize"
    using assms by (simp add: take_bit_id_of_bound unat_of_nat take_bit_nat_eq_self)
  then show "ent_is_valid (ent_set v t pgsize w) = v" "ent_is_subtree (ent_set v t pgsize w) = t"
    "ent_pgsize (ent_set v t pgsize w) = of_nat pgsize"
    by (simp_all add: ent_is_valid_def ent_is_subtree_def ent_pgsize_def ent_set_def
        bf_get_set_same bf_get_set_other)
qed

lemma tr_set_fields:
  "tr_get_valid (tr_set a r w k p t) = of_bool r" "tr_get_dirty (tr_set a r w k p t) = of_bool w"
  "tr_is_kernel (tr_set a r w k p t) = k" "tr_memattrib (tr_set a r w k p t) = take_bit 3 a"
  "tr_phys_addr (tr_set a r w k p t) = push_bit 12 (take_bit 24 (drop_bit 12 p))"
  by (simp_all add: tr_get_valid_def tr_get_dirty_def tr_is_kernel_def tr_memattrib_def
      tr_phys_addr_def tr_set_def CONFIG_MIPS64_VPN_SHIFT_def bf_get_set_same bf_get_set_other)

lemma hw_pgshifts_mono: "i \<le> j \<Longrightarrow> j \<le> 8 \<Longrightarrow> hw_pgshifts i \<le> hw_pgshifts j"
  unfolding hw_pgshifts_def
  by (auto simp: le_Suc_eq eval_nat_numeral nth_Cons split: nat.splits)

text \<open>An entry written by \<^verbatim>\<open>pgent_t::set_entry\<close> reads back as a valid leaf of its page
  size, with the rights and the kernel flag it was given and, for a page-aligned physical address
  below 64 GB, that address.\<close>

theorem set_entry_roundtrip:
  assumes "pgsize < 8" and "unat paddr < 2 ^ 36" and "paddr AND page_mask pgsize = 0"
    and "m' = pg_set_entry pg pgsize paddr rd wr k m"
  shows "pg_is_valid pg pgsize m' \<and> \<not> pg_is_subtree pg pgsize m' \<and>
    pg_address pg pgsize m' = paddr \<and> (pg_is_readable pg m' \<longleftrightarrow> rd) \<and>
    (pg_is_writable pg m' \<longleftrightarrow> wr \<and> rd) \<and> (pg_is_kernel pg m' \<longleftrightarrow> k) \<and>
    (\<forall>q. q = pg \<or> pg_raw m' q = pg_raw m q)"
proof -
  let ?w = "ent_set True False pgsize (new_translation memattrib_l4default rd wr k paddr)"
  have raw: "pg_raw m' pg = ?w" "\<forall>q. q = pg \<or> pg_raw m' q = pg_raw m q"
    by (simp_all add: assms(4) pg_set_entry_def pg_raw_def set_raw_def)
  have sh: "12 \<le> hw_pgshifts pgsize" using hw_pgshifts_mono [of 0 pgsize] assms(1)
    by (simp add: hw_pgshifts_def)
  have al: "\<not> bit paddr i" if "i < 12" for i
  proof -
    have "take_bit (hw_pgshifts pgsize) paddr = 0"
      using assms(3) by (simp add: page_mask_def take_bit_eq_mask mask_eq_exp_minus_1)
    then show ?thesis using that sh by (metis bit_0_eq bit_take_bit_iff bot_apply le_trans less_le_trans bot_bool_def)
  qed
  have rng: "12 \<le> i \<and> i < 36" if i: "bit paddr i" for i
  proof (rule ccontr)
    assume "\<not> (12 \<le> i \<and> i < 36)"
    then have "36 \<le> i" using al i by (meson not_le)
    then show False using assms(2) i by (metis bit_take_bit_iff not_le take_bit_id_of_bound)
  qed
  have up12: "bit paddr (12 + (i - 12))" if i: "bit paddr i" for i using rng [OF i] i by simp
  have pa: "tr_phys_addr ?w = paddr"
    by (rule bit_word_eqI)
      (auto simp: tr_phys_addr_def ent_set_def new_translation_def tr_set_def
          CONFIG_MIPS64_VPN_SHIFT_def bf_get_set_other bf_get_set_same bit_simps dest: rng intro: up12)
  have "addr_mask paddr (NOT (page_mask pgsize)) = paddr"
    using assms(3) by (simp add: addr_mask_def and_not_eq_self)
  then have addr: "pg_address pg pgsize m' = paddr"
    by (simp add: pg_address_def raw(1) pa page_mask_def)
  have bits: "tr_get_valid ?w = of_bool rd" "tr_get_dirty ?w = of_bool wr" "tr_is_kernel ?w = k"
    by (simp_all add: tr_get_valid_def tr_get_dirty_def tr_is_kernel_def ent_set_def
        new_translation_def tr_set_def bf_get_set_other bf_get_set_same)
  have "pgsize < 16" using assms(1) by simp
  then show ?thesis
    using raw(2) addr ent_set_fields [of pgsize True False]
    by (simp add: pg_is_valid_def pg_is_subtree_def pg_is_readable_def pg_is_writable_def
        pg_is_kernel_def raw(1) bits)
qed

lemma index_uniform:
  assumes "drop_bit (hw_pgshifts sz) v = drop_bit (hw_pgshifts sz) v'" and "sz \<le> p" and "p \<le> 8"
  shows "page_table_index p v = page_table_index p v'"
proof -
  have "drop_bit (hw_pgshifts p) x =
      drop_bit (hw_pgshifts p - hw_pgshifts sz) (drop_bit (hw_pgshifts sz) x)" for x :: word_t
    using hw_pgshifts_mono [OF assms(2,3)] by simp
  then show ?thesis using assms(1) by (simp only: page_table_index_def)
qed

lemma lookup_walk_uniform:
  assumes "lookup_walk n pg v m = Some (pg', sz)" and "n \<le> 7"
    and "drop_bit (hw_pgshifts sz) v = drop_bit (hw_pgshifts sz) v'"
  shows "lookup_walk n pg v' m = Some (pg', sz) \<and> sz \<le> n \<and>
    pg_is_valid pg' sz m \<and> \<not> pg_is_subtree pg' sz m"
  using assms
proof (induction n arbitrary: pg)
  case 0
  then show ?case by (auto simp: lookup_walk.simps split: if_splits)
next
  case (Suc n)
  show ?case
  proof (cases "pg_is_valid pg (Suc n) m \<and> pg_is_subtree pg (Suc n) m")
    case True
    let ?q = "\<lambda>x. pg_next (pg_subtree pg (Suc n) m) n (page_table_index n x)"
    have step: "lookup_walk (Suc n) pg x m = lookup_walk n (?q x) x m" for x
      using True by (simp add: lookup_walk.simps [of "Suc n"])
    have r: "lookup_walk n (?q v) v' m = Some (pg', sz) \<and> sz \<le> n \<and>
        pg_is_valid pg' sz m \<and> \<not> pg_is_subtree pg' sz m"
      using Suc.IH [of "?q v"] Suc.prems step by simp
    then have "?q v' = ?q v" using index_uniform [OF Suc.prems(3), of n] Suc.prems(2) by simp
    then show ?thesis using r step by simp
  next
    case False
    then show ?thesis using Suc.prems
      by (auto simp: lookup_walk.simps [of "Suc n"] split: if_splits)
  qed
qed

text \<open>A mapping found for an address is a valid leaf entry, and every other address of the same
  page (of the size of that entry) finds the same entry.\<close>

theorem lookup_mapping_page:
  assumes "lookup_mapping space v m = Some (pg, sz)"
    and "drop_bit (hw_pgshifts sz) v = drop_bit (hw_pgshifts sz) v'"
  shows "lookup_mapping space v' m = Some (pg, sz) \<and> pg_is_valid pg sz m \<and> \<not> pg_is_subtree pg sz m"
proof -
  have "7 \<le> (7 :: nat)" by simp
  note r = lookup_walk_uniform [OF assms(1) [unfolded lookup_mapping_def size_max_def] this assms(2)]
  then have "sz \<le> 7" by simp
  then show ?thesis
    using r index_uniform [OF assms(2), of 7]
    by (simp add: lookup_mapping_def size_max_def)
qed

theorem set_entry_roundtrip_witness:
  "pg_address 0x8000 0 (pg_set_entry 0x8000 0 0x5000 True False False three_chunks) = 0x5000"
  using set_entry_roundtrip [of 0 "0x5000" "pg_set_entry 0x8000 0 0x5000 True False False three_chunks"
      "0x8000" True False False three_chunks]
  by (simp add: page_mask_def hw_pgshifts_def)

text \<open>A space whose first top-level entry is itself a leaf.\<close>

definition one_leaf :: memory where
  "one_leaf = pg_set_entry 0x4000 7 0 True True False three_chunks"

theorem lookup_mapping_page_witness:
  "lookup_mapping 0x4000 0x1234 one_leaf = Some (0x4000, 7) \<and>
   lookup_mapping 0x4000 0x5678 one_leaf = Some (0x4000, 7)"
proof -
  have "pg_is_valid 0x4000 7 one_leaf \<and> \<not> pg_is_subtree 0x4000 7 one_leaf"
    using ent_set_fields [of 7 True False]
    by (simp add: one_leaf_def pg_set_entry_def pg_is_valid_def pg_is_subtree_def pg_raw_def set_raw_def)
  moreover have "space_pgent 0x4000 (page_table_index 7 0x1234) = 0x4000"
    by (simp add: space_pgent_def pg_next_def size_max_def page_table_index_def page_table_size_def
        hw_pgshifts_def)
  ultimately have l: "lookup_mapping 0x4000 0x1234 one_leaf = Some (0x4000, 7)"
    by (simp add: lookup_mapping_def size_max_def lookup_walk.simps)
  have "drop_bit (hw_pgshifts 7) (0x1234 :: word_t) = drop_bit (hw_pgshifts 7) 0x5678"
    by (simp add: hw_pgshifts_def)
  from lookup_mapping_page [OF l this] l show ?thesis by simp
qed

end
