(* ===== verification/Kernel_State.thy ===== *)
theory Kernel_State
  imports Ring_Queue Api_Types Api_Messages Flexpage Kernel_Interface Page_Table
begin

text \<open>
  The state of the kernel: thread control blocks (\<^verbatim>\<open>api/v4/tcb.h\<close>), user thread control
  blocks (\<^verbatim>\<open>glue/v4-mips64/utcb.h\<close>), the scheduler object, the memory of the
  kernel allocator (which holds the address spaces and page tables) and the global variables of
  the API layer.

  Kernel objects live in typed stores, total functions from pointers to records.  A pointer type
  has a constructor for the null pointer and one per statically allocated object; reading or
  writing through a null pointer touches the store's null cell, where the machine would fault.
  The word array \<^verbatim>\<open>misc\<close> of a thread control block is the union \<^verbatim>\<open>misc_tcb_t\<close>,
  whose two structures overlap word by word.  The kernel stack of a thread is the list of notify
  frames above its exception context, which is kept as separate fields.
\<close>

section \<open>Pointers\<close>

datatype tcbp = NULL_tcb | Idle_tcb | Tcb word_t

text \<open>An address space is named by its address in kernel memory, the null pointer is 0.\<close>

type_synonym spacep = word_t

datatype utcbp = NULL_utcb | Idle_utcb | Kernel_utcb | Irq_utcb | Utcb word_t

text \<open>The procedures that the kernel installs as notification targets.\<close>

datatype kfunc =
    Restore_user | Thread_return | Thread_startup | Handle_ipc_error | Handle_ipc_timeout
  | Idle_thread | Init_all_threads | Irq_thread | Tunnel_pagefault | Finalize_cpu_init

datatype frame = Notify0 kfunc | Notify1 kfunc word_t

section \<open>Thread control blocks\<close>

record tcb_t =
  t_myself_global :: threadid_t
  t_myself_local :: threadid_t
  t_cpu :: cpuid_t
  t_utcb :: utcbp
  t_thread_state :: thread_state_t
  t_partner :: threadid_t
  t_resource_bits :: bitmask_t
  t_stack :: "frame list"
  t_queue_state :: word_t
  t_ready_list :: "tcbp ringlist_t"
  t_wait_list :: "tcbp ringlist_t"
  t_send_list :: "tcbp ringlist_t"
  t_send_head :: tcbp
  t_total_quantum :: u64_t
  t_timeslice_length :: u64_t
  t_current_timeslice :: u64_t
  t_absolute_timeout :: u64_t
  t_priority :: prio_t
  t_sensitive_prio :: prio_t
  t_current_max_delay :: u16_t
  t_max_delay :: u16_t
  t_scheduler :: threadid_t
  t_space :: spacep
  t_flags :: bitmask_t
  t_int_mask :: word_t
  t_misc :: "nat \<Rightarrow> word_t"
  t_saved_partner :: threadid_t
  t_saved_state :: thread_state_t
  t_fpu_fpcsr :: u64_t
  t_user_epc :: word_t
  t_user_sp :: word_t
  t_user_status :: word_t

record utcb_t =
  u_my_global_id :: threadid_t
  u_processor_no :: word_t
  u_user_defined_handle :: word_t
  u_pager :: threadid_t
  u_exception_handler :: threadid_t
  u_preempt_flags :: u8_t
  u_cop_flags :: u8_t
  u_xfer_timeout :: timeout_t
  u_error_code :: word_t
  u_intended_receiver :: threadid_t
  u_virtual_sender :: threadid_t
  u_mr :: "word_t \<Rightarrow> word_t"
  u_br :: "word_t \<Rightarrow> word_t"

section \<open>The scheduler object and the kernel state\<close>

record prio_queue_t =
  pq_max_prio :: prio_t
  pq_prio_queue :: "prio_t \<Rightarrow> tcbp"
  pq_timeslice_tcb :: tcbp
  pq_current_timeslice :: u64_t

record scheduler_t =
  sc_wakeup_list :: tcbp
  sc_root_prio_queue :: prio_queue_t
  sc_current_time :: u64_t

record kstate =
  tcbs :: "tcbp \<Rightarrow> tcb_t"
  utcbs :: "utcbp \<Rightarrow> utcb_t"
  current_tcb :: tcbp
  scheduler :: scheduler_t
  kip :: kernel_interface_page_t
  sigma0_space :: spacep
  sigma1_space :: spacep
  roottask_space :: spacep
  kernel_space :: spacep
  idle_space :: spacep
  fp_lazy_tcb :: tcbp
  kmem :: memory
  asid_cache :: asid_cache_t

section \<open>Updates through a pointer\<close>

definition upd_tcb :: "tcbp \<Rightarrow> (tcb_t \<Rightarrow> tcb_t) \<Rightarrow> kstate \<Rightarrow> kstate" where
  "upd_tcb t f s = s\<lparr>tcbs := (tcbs s)(t := f (tcbs s t))\<rparr>"

definition upd_utcb :: "utcbp \<Rightarrow> (utcb_t \<Rightarrow> utcb_t) \<Rightarrow> kstate \<Rightarrow> kstate" where
  "upd_utcb u f s = s\<lparr>utcbs := (utcbs s)(u := f (utcbs s u))\<rparr>"

definition upd_kmem :: "memory \<Rightarrow> kstate \<Rightarrow> kstate" where
  "upd_kmem m s = s\<lparr>kmem := m\<rparr>"

definition upd_sched :: "(scheduler_t \<Rightarrow> scheduler_t) \<Rightarrow> kstate \<Rightarrow> kstate" where
  "upd_sched f s = s\<lparr>scheduler := f (scheduler s)\<rparr>"

definition upd_prioq :: "(prio_queue_t \<Rightarrow> prio_queue_t) \<Rightarrow> kstate \<Rightarrow> kstate" where
  "upd_prioq f s = upd_sched (\<lambda>c. c\<lparr>sc_root_prio_queue := f (sc_root_prio_queue c)\<rparr>) s"

abbreviation prioq :: "kstate \<Rightarrow> prio_queue_t" where
  "prioq s \<equiv> sc_root_prio_queue (scheduler s)"

abbreviation wakeup_list :: "kstate \<Rightarrow> tcbp" where
  "wakeup_list s \<equiv> sc_wakeup_list (scheduler s)"

lemma upd_tcb_sel [simp]:
  "tcbs (upd_tcb t f s) = (tcbs s)(t := f (tcbs s t))"
  "utcbs (upd_tcb t f s) = utcbs s"
  "current_tcb (upd_tcb t f s) = current_tcb s"
  "scheduler (upd_tcb t f s) = scheduler s"
  "kip (upd_tcb t f s) = kip s"
  "sigma0_space (upd_tcb t f s) = sigma0_space s"
  "sigma1_space (upd_tcb t f s) = sigma1_space s"
  "roottask_space (upd_tcb t f s) = roottask_space s"
  "kernel_space (upd_tcb t f s) = kernel_space s"
  "idle_space (upd_tcb t f s) = idle_space s"
  "fp_lazy_tcb (upd_tcb t f s) = fp_lazy_tcb s"
  "kmem (upd_tcb t f s) = kmem s"
  "asid_cache (upd_tcb t f s) = asid_cache s"
  by (simp_all add: upd_tcb_def)

lemma upd_utcb_sel [simp]:
  "tcbs (upd_utcb u f s) = tcbs s"
  "utcbs (upd_utcb u f s) = (utcbs s)(u := f (utcbs s u))"
  "current_tcb (upd_utcb u f s) = current_tcb s"
  "scheduler (upd_utcb u f s) = scheduler s"
  "kip (upd_utcb u f s) = kip s"
  "sigma0_space (upd_utcb u f s) = sigma0_space s"
  "sigma1_space (upd_utcb u f s) = sigma1_space s"
  "roottask_space (upd_utcb u f s) = roottask_space s"
  "kernel_space (upd_utcb u f s) = kernel_space s"
  "idle_space (upd_utcb u f s) = idle_space s"
  "fp_lazy_tcb (upd_utcb u f s) = fp_lazy_tcb s"
  "kmem (upd_utcb u f s) = kmem s"
  "asid_cache (upd_utcb u f s) = asid_cache s"
  by (simp_all add: upd_utcb_def)

lemma upd_kmem_sel [simp]:
  "tcbs (upd_kmem m s) = tcbs s"
  "utcbs (upd_kmem m s) = utcbs s"
  "current_tcb (upd_kmem m s) = current_tcb s"
  "scheduler (upd_kmem m s) = scheduler s"
  "kip (upd_kmem m s) = kip s"
  "sigma0_space (upd_kmem m s) = sigma0_space s"
  "sigma1_space (upd_kmem m s) = sigma1_space s"
  "roottask_space (upd_kmem m s) = roottask_space s"
  "kernel_space (upd_kmem m s) = kernel_space s"
  "idle_space (upd_kmem m s) = idle_space s"
  "fp_lazy_tcb (upd_kmem m s) = fp_lazy_tcb s"
  "kmem (upd_kmem m s) = m"
  "asid_cache (upd_kmem m s) = asid_cache s"
  by (simp_all add: upd_kmem_def)

lemma upd_sched_sel [simp]:
  "tcbs (upd_sched f s) = tcbs s"
  "utcbs (upd_sched f s) = utcbs s"
  "current_tcb (upd_sched f s) = current_tcb s"
  "scheduler (upd_sched f s) = f (scheduler s)"
  "kip (upd_sched f s) = kip s"
  "sigma0_space (upd_sched f s) = sigma0_space s"
  "sigma1_space (upd_sched f s) = sigma1_space s"
  "roottask_space (upd_sched f s) = roottask_space s"
  "kernel_space (upd_sched f s) = kernel_space s"
  "idle_space (upd_sched f s) = idle_space s"
  "fp_lazy_tcb (upd_sched f s) = fp_lazy_tcb s"
  "kmem (upd_sched f s) = kmem s"
  "asid_cache (upd_sched f s) = asid_cache s"
  by (simp_all add: upd_sched_def)

lemma upd_prioq_sel [simp]:
  "tcbs (upd_prioq f s) = tcbs s"
  "utcbs (upd_prioq f s) = utcbs s"
  "current_tcb (upd_prioq f s) = current_tcb s"
  "kip (upd_prioq f s) = kip s"
  "sigma0_space (upd_prioq f s) = sigma0_space s"
  "sigma1_space (upd_prioq f s) = sigma1_space s"
  "roottask_space (upd_prioq f s) = roottask_space s"
  "kernel_space (upd_prioq f s) = kernel_space s"
  "idle_space (upd_prioq f s) = idle_space s"
  "fp_lazy_tcb (upd_prioq f s) = fp_lazy_tcb s"
  "kmem (upd_prioq f s) = kmem s"
  "asid_cache (upd_prioq f s) = asid_cache s"
  "prioq (upd_prioq f s) = f (prioq s)"
  "wakeup_list (upd_prioq f s) = wakeup_list s"
  "sc_current_time (scheduler (upd_prioq f s)) = sc_current_time (scheduler s)"
  by (simp_all add: upd_prioq_def)

text \<open>A blank state, used to evaluate the operations on concrete inputs.\<close>

definition blank_tcb :: tcb_t where
  "blank_tcb =
     \<lparr>t_myself_global = 0, t_myself_local = 0, t_cpu = 0, t_utcb = NULL_utcb,
      t_thread_state = aborted, t_partner = 0, t_resource_bits = 0, t_stack = [],
      t_queue_state = 0, t_ready_list = \<lparr>rl_next = NULL_tcb, rl_prev = NULL_tcb\<rparr>,
      t_wait_list = \<lparr>rl_next = NULL_tcb, rl_prev = NULL_tcb\<rparr>,
      t_send_list = \<lparr>rl_next = NULL_tcb, rl_prev = NULL_tcb\<rparr>, t_send_head = NULL_tcb,
      t_total_quantum = 0, t_timeslice_length = 0, t_current_timeslice = 0,
      t_absolute_timeout = 0, t_priority = 0, t_sensitive_prio = 0, t_current_max_delay = 0,
      t_max_delay = 0, t_scheduler = 0, t_space = 0, t_flags = 0, t_int_mask = 0,
      t_misc = (\<lambda>_. 0), t_saved_partner = 0, t_saved_state = aborted, t_fpu_fpcsr = 0,
      t_user_epc = 0, t_user_sp = 0, t_user_status = 0\<rparr>"

definition blank_utcb :: utcb_t where
  "blank_utcb =
     \<lparr>u_my_global_id = 0, u_processor_no = 0, u_user_defined_handle = 0, u_pager = 0,
      u_exception_handler = 0, u_preempt_flags = 0, u_cop_flags = 0, u_xfer_timeout = 0,
      u_error_code = 0, u_intended_receiver = 0, u_virtual_sender = 0,
      u_mr = (\<lambda>_. 0), u_br = (\<lambda>_. 0)\<rparr>"

definition blank_state :: kstate where
  "blank_state =
     \<lparr>tcbs = (\<lambda>_. blank_tcb), utcbs = (\<lambda>_. blank_utcb),
      current_tcb = Idle_tcb,
      scheduler = \<lparr>sc_wakeup_list = NULL_tcb,
        sc_root_prio_queue = \<lparr>pq_max_prio = -1, pq_prio_queue = (\<lambda>_. NULL_tcb),
          pq_timeslice_tcb = NULL_tcb, pq_current_timeslice = 0\<rparr>,
        sc_current_time = 0\<rparr>,
      kip = blank_kip, sigma0_space = 0, sigma1_space = 0, roottask_space = 0,
      kernel_space = 0, idle_space = 0, fp_lazy_tcb = NULL_tcb,
      kmem = \<lparr>mem = (\<lambda>_. 0), kmem_free_list = 0, free_chunks = 0\<rparr>,
      asid_cache = \<lparr>ac_asids = (\<lambda>_. \<lparr>al_asid = -1, al_prev = -1, al_next = -1\<rparr>),
        ac_first_free = -1, ac_lru_head = -1\<rparr>\<rparr>"

end
