(* ===== verification/Tcb.thy ===== *)
theory Tcb
  imports Kernel_State
begin

text \<open>
  Operations on thread control blocks: the access functions of \<^verbatim>\<open>api/v4/tcb.h\<close>, the
  mips64 glue of \<^verbatim>\<open>glue/v4-mips64/tcb.h\<close> (message registers, notification frames, thread
  switching, exception context), \<^verbatim>\<open>create_startup_stack\<close>, the resource bits and the
  send queues.  Every operation takes the thread pointer first and the kernel state last.
\<close>

section \<open>Thread identity, state and partner (api/v4/tcb.h)\<close>

definition exists_tcb :: "tcbp \<Rightarrow> kstate \<Rightarrow> bool" where
  "exists_tcb t s \<longleftrightarrow> t_space (tcbs s t) \<noteq> 0"

definition is_activated :: "tcbp \<Rightarrow> kstate \<Rightarrow> bool" where
  "is_activated t s \<longleftrightarrow> t_utcb (tcbs s t) \<noteq> NULL_utcb"

definition get_global_id :: "tcbp \<Rightarrow> kstate \<Rightarrow> threadid_t" where
  "get_global_id t s = t_myself_global (tcbs s t)"

definition get_local_id :: "tcbp \<Rightarrow> kstate \<Rightarrow> threadid_t" where
  "get_local_id t s = t_myself_local (tcbs s t)"

definition set_scheduler :: "tcbp \<Rightarrow> threadid_t \<Rightarrow> kstate \<Rightarrow> kstate" where
  "set_scheduler t tid s = upd_tcb t (\<lambda>x. x\<lparr>t_scheduler := tid\<rparr>) s"

definition get_scheduler :: "tcbp \<Rightarrow> kstate \<Rightarrow> threadid_t" where
  "get_scheduler t s = t_scheduler (tcbs s t)"

definition set_irq_handler :: "tcbp \<Rightarrow> threadid_t \<Rightarrow> kstate \<Rightarrow> kstate" where
  "set_irq_handler t tid s = set_scheduler t tid s"

definition get_irq_handler :: "tcbp \<Rightarrow> kstate \<Rightarrow> threadid_t" where
  "get_irq_handler t s = get_scheduler t s"

definition set_state :: "tcbp \<Rightarrow> thread_state_t \<Rightarrow> kstate \<Rightarrow> kstate" where
  "set_state t st s = upd_tcb t (\<lambda>x. x\<lparr>t_thread_state := st\<rparr>) s"

definition get_state :: "tcbp \<Rightarrow> kstate \<Rightarrow> thread_state_t" where
  "get_state t s = t_thread_state (tcbs s t)"

definition set_partner :: "tcbp \<Rightarrow> threadid_t \<Rightarrow> kstate \<Rightarrow> kstate" where
  "set_partner t tid s = upd_tcb t (\<lambda>x. x\<lparr>t_partner := tid\<rparr>) s"

definition get_partner :: "tcbp \<Rightarrow> kstate \<Rightarrow> threadid_t" where
  "get_partner t s = t_partner (tcbs s t)"

definition VALID_THREADNO_BITS :: nat where "VALID_THREADNO_BITS = 39 - 12"

definition get_tcb :: "threadid_t \<Rightarrow> tcbp" where
  "get_tcb tid = Tcb (get_threadno tid AND (push_bit VALID_THREADNO_BITS 1 - 1))"

definition get_partner_tcb :: "tcbp \<Rightarrow> kstate \<Rightarrow> tcbp" where
  "get_partner_tcb t s = get_tcb (t_partner (tcbs s t))"

definition get_saved_partner :: "tcbp \<Rightarrow> kstate \<Rightarrow> threadid_t" where
  "get_saved_partner t s = t_saved_partner (tcbs s t)"

definition set_saved_partner :: "tcbp \<Rightarrow> threadid_t \<Rightarrow> kstate \<Rightarrow> kstate" where
  "set_saved_partner t tid s = upd_tcb t (\<lambda>x. x\<lparr>t_saved_partner := tid\<rparr>) s"

definition get_saved_state :: "tcbp \<Rightarrow> kstate \<Rightarrow> thread_state_t" where
  "get_saved_state t s = t_saved_state (tcbs s t)"

definition set_saved_state :: "tcbp \<Rightarrow> thread_state_t \<Rightarrow> kstate \<Rightarrow> kstate" where
  "set_saved_state t st s = upd_tcb t (\<lambda>x. x\<lparr>t_saved_state := st\<rparr>) s"

definition get_cpu :: "tcbp \<Rightarrow> kstate \<Rightarrow> cpuid_t" where "get_cpu t s = 0"

definition get_current_cpu :: cpuid_t where "get_current_cpu = 0"

definition is_local_cpu :: "tcbp \<Rightarrow> kstate \<Rightarrow> bool" where
  "is_local_cpu t s \<longleftrightarrow> get_current_cpu = get_cpu t s"

definition migrate_to_processor :: "tcbp \<Rightarrow> cpuid_t \<Rightarrow> bool" where
  "migrate_to_processor t processor \<longleftrightarrow> processor = 0"

definition get_current_tcb :: "kstate \<Rightarrow> tcbp" where "get_current_tcb s = current_tcb s"

definition get_space :: "tcbp \<Rightarrow> kstate \<Rightarrow> spacep" where "get_space t s = t_space (tcbs s t)"

definition set_space :: "tcbp \<Rightarrow> spacep \<Rightarrow> kstate \<Rightarrow> kstate" where
  "set_space t sp s = upd_tcb t (\<lambda>x. x\<lparr>t_space := sp\<rparr>) s"

definition get_current_space :: "kstate \<Rightarrow> spacep" where
  "get_current_space s = get_space (get_current_tcb s) s"

section \<open>The user thread control block\<close>

definition get_utcb :: "tcbp \<Rightarrow> kstate \<Rightarrow> utcbp" where "get_utcb t s = t_utcb (tcbs s t)"

definition get_pager :: "tcbp \<Rightarrow> kstate \<Rightarrow> threadid_t" where
  "get_pager t s = u_pager (utcbs s (get_utcb t s))"

definition set_pager :: "tcbp \<Rightarrow> threadid_t \<Rightarrow> kstate \<Rightarrow> kstate" where
  "set_pager t tid s = upd_utcb (get_utcb t s) (\<lambda>u. u\<lparr>u_pager := tid\<rparr>) s"

definition get_exception_handler :: "tcbp \<Rightarrow> kstate \<Rightarrow> threadid_t" where
  "get_exception_handler t s = u_exception_handler (utcbs s (get_utcb t s))"

definition set_exception_handler :: "tcbp \<Rightarrow> threadid_t \<Rightarrow> kstate \<Rightarrow> kstate" where
  "set_exception_handler t tid s = upd_utcb (get_utcb t s) (\<lambda>u. u\<lparr>u_exception_handler := tid\<rparr>) s"

definition get_user_handle :: "tcbp \<Rightarrow> kstate \<Rightarrow> word_t" where
  "get_user_handle t s = u_user_defined_handle (utcbs s (get_utcb t s))"

definition set_user_handle :: "tcbp \<Rightarrow> word_t \<Rightarrow> kstate \<Rightarrow> kstate" where
  "set_user_handle t h s = upd_utcb (get_utcb t s) (\<lambda>u. u\<lparr>u_user_defined_handle := h\<rparr>) s"

definition set_actual_sender :: "tcbp \<Rightarrow> threadid_t \<Rightarrow> kstate \<Rightarrow> kstate" where
  "set_actual_sender t tid s = upd_utcb (get_utcb t s) (\<lambda>u. u\<lparr>u_virtual_sender := tid\<rparr>) s"

definition get_virtual_sender :: "tcbp \<Rightarrow> kstate \<Rightarrow> threadid_t" where
  "get_virtual_sender t s = u_virtual_sender (utcbs s (get_utcb t s))"

definition get_intended_receiver :: "tcbp \<Rightarrow> kstate \<Rightarrow> threadid_t" where
  "get_intended_receiver t s = u_intended_receiver (utcbs s (get_utcb t s))"

definition set_error_code :: "tcbp \<Rightarrow> word_t \<Rightarrow> kstate \<Rightarrow> kstate" where
  "set_error_code t err s = upd_utcb (get_utcb t s) (\<lambda>u. u\<lparr>u_error_code := err\<rparr>) s"

definition get_error_code :: "tcbp \<Rightarrow> kstate \<Rightarrow> word_t" where
  "get_error_code t s = u_error_code (utcbs s (get_utcb t s))"

definition get_preempt_flags :: "tcbp \<Rightarrow> kstate \<Rightarrow> preempt_flags_t" where
  "get_preempt_flags t s = u_preempt_flags (utcbs s (get_utcb t s))"

definition set_preempt_flags :: "tcbp \<Rightarrow> preempt_flags_t \<Rightarrow> kstate \<Rightarrow> kstate" where
  "set_preempt_flags t f s = upd_utcb (get_utcb t s) (\<lambda>u. u\<lparr>u_preempt_flags := f\<rparr>) s"

definition get_cop_flags :: "tcbp \<Rightarrow> kstate \<Rightarrow> u8_t" where
  "get_cop_flags t s = u_cop_flags (utcbs s (get_utcb t s))"

definition get_mr :: "tcbp \<Rightarrow> word_t \<Rightarrow> kstate \<Rightarrow> word_t" where
  "get_mr t i s = u_mr (utcbs s (get_utcb t s)) i"

definition set_mr :: "tcbp \<Rightarrow> word_t \<Rightarrow> word_t \<Rightarrow> kstate \<Rightarrow> kstate" where
  "set_mr t i v s = upd_utcb (get_utcb t s) (\<lambda>u. u\<lparr>u_mr := (u_mr u)(i := v)\<rparr>) s"

definition get_br :: "tcbp \<Rightarrow> word_t \<Rightarrow> kstate \<Rightarrow> word_t" where
  "get_br t i s = u_br (utcbs s (get_utcb t s)) i"

definition set_br :: "tcbp \<Rightarrow> word_t \<Rightarrow> word_t \<Rightarrow> kstate \<Rightarrow> kstate" where
  "set_br t i v s = upd_utcb (get_utcb t s) (\<lambda>u. u\<lparr>u_br := (u_br u)(i := v)\<rparr>) s"

definition get_tag :: "tcbp \<Rightarrow> kstate \<Rightarrow> msg_tag_t" where "get_tag t s = get_mr t 0 s"

definition set_tag :: "tcbp \<Rightarrow> msg_tag_t \<Rightarrow> kstate \<Rightarrow> kstate" where "set_tag t tg s = set_mr t 0 tg s"

definition get_xfer_timeout_snd :: "tcbp \<Rightarrow> kstate \<Rightarrow> time_t" where
  "get_xfer_timeout_snd t s = get_snd (u_xfer_timeout (utcbs s (get_utcb t s)))"

definition get_xfer_timeout_rcv :: "tcbp \<Rightarrow> kstate \<Rightarrow> time_t" where
  "get_xfer_timeout_rcv t s = get_rcv (u_xfer_timeout (utcbs s (get_utcb t s)))"

text \<open>\<^verbatim>\<open>copy_mrs\<close>: the assembler block that copied the registers is commented out, the
  function has no effect.\<close>

definition copy_mrs :: "tcbp \<Rightarrow> tcbp \<Rightarrow> word_t \<Rightarrow> word_t \<Rightarrow> kstate \<Rightarrow> kstate" where
  "copy_mrs src dest start cnt s = s"

section \<open>Glue (glue/v4-mips64/tcb.h, thread.cc)\<close>

definition set_global_id_tcb :: "tcbp \<Rightarrow> threadid_t \<Rightarrow> kstate \<Rightarrow> kstate" where
  "set_global_id_tcb t tid s =
     (let s1 = upd_tcb t (\<lambda>x. x\<lparr>t_myself_global := tid\<rparr>) s
      in upd_utcb (get_utcb t s1) (\<lambda>u. u\<lparr>u_my_global_id := tid\<rparr>) s1)"

definition set_cpu :: "tcbp \<Rightarrow> cpuid_t \<Rightarrow> kstate \<Rightarrow> kstate" where
  "set_cpu t c s =
     (let s1 = upd_tcb t (\<lambda>x. x\<lparr>t_cpu := c\<rparr>) s
      in upd_utcb (get_utcb t s1) (\<lambda>u. u\<lparr>u_processor_no := ucast c\<rparr>) s1)"

definition get_utcb_location :: "tcbp \<Rightarrow> kstate \<Rightarrow> word_t" where
  "get_utcb_location t s = t_myself_local (tcbs s t)"

definition set_utcb_location :: "tcbp \<Rightarrow> word_t \<Rightarrow> kstate \<Rightarrow> kstate" where
  "set_utcb_location t loc s = upd_tcb t (\<lambda>x. x\<lparr>t_myself_local := loc\<rparr>) s"

definition switch_to :: "tcbp \<Rightarrow> tcbp \<Rightarrow> kstate \<Rightarrow> kstate" where
  "switch_to this dest s = s\<lparr>current_tcb := dest\<rparr>"

definition switch_to_idle :: "tcbp \<Rightarrow> kstate \<Rightarrow> kstate" where
  "switch_to_idle t s = switch_to t Idle_tcb s"

definition initial_switch_to :: "tcbp \<Rightarrow> kstate \<Rightarrow> kstate" where
  "initial_switch_to t s = (let s1 = set_space t (idle_space s) s in s1\<lparr>current_tcb := t\<rparr>)"

definition init_stack :: "tcbp \<Rightarrow> kstate \<Rightarrow> kstate" where
  "init_stack t s =
     upd_tcb t (\<lambda>x. x\<lparr>t_stack := [], t_user_epc := 0, t_user_sp := 0, t_user_status := 0\<rparr>) s"

definition notify0 :: "tcbp \<Rightarrow> kfunc \<Rightarrow> kstate \<Rightarrow> kstate" where
  "notify0 t f s = upd_tcb t (\<lambda>x. x\<lparr>t_stack := Notify0 f # t_stack x\<rparr>) s"

definition notify1 :: "tcbp \<Rightarrow> kfunc \<Rightarrow> word_t \<Rightarrow> kstate \<Rightarrow> kstate" where
  "notify1 t f a s = upd_tcb t (\<lambda>x. x\<lparr>t_stack := Notify1 f a # t_stack x\<rparr>) s"

definition get_user_ip :: "tcbp \<Rightarrow> kstate \<Rightarrow> addr_t" where "get_user_ip t s = t_user_epc (tcbs s t)"

definition get_user_sp :: "tcbp \<Rightarrow> kstate \<Rightarrow> addr_t" where "get_user_sp t s = t_user_sp (tcbs s t)"

definition set_user_ip :: "tcbp \<Rightarrow> addr_t \<Rightarrow> kstate \<Rightarrow> kstate" where
  "set_user_ip t ip s = upd_tcb t (\<lambda>x. x\<lparr>t_user_epc := ip\<rparr>) s"

definition set_user_sp :: "tcbp \<Rightarrow> addr_t \<Rightarrow> kstate \<Rightarrow> kstate" where
  "set_user_sp t sp s = upd_tcb t (\<lambda>x. x\<lparr>t_user_sp := sp\<rparr>) s"

definition get_user_flags :: "tcbp \<Rightarrow> kstate \<Rightarrow> word_t" where
  "get_user_flags t s = t_user_status (tcbs s t)"

definition set_user_flags :: "tcbp \<Rightarrow> word_t \<Rightarrow> kstate \<Rightarrow> kstate" where
  "set_user_flags t f s = s"

definition release_copy_area :: "tcbp \<Rightarrow> kstate \<Rightarrow> kstate" where "release_copy_area t s = s"

text \<open>\<^verbatim>\<open>UNIMPLEMENTED\<close> is an endless loop.\<close>

definition copy_area_real_address :: "tcbp \<Rightarrow> addr_t \<Rightarrow> kstate \<Rightarrow> addr_t option" where
  "copy_area_real_address t a s = None"

text \<open>\<^verbatim>\<open>ST_FR | ST_KX | ST_SX | ST_UX | ST_U | ST_EXL | ST_IE\<close>\<close>

definition user_status :: word_t where
  "user_status = push_bit 26 1 OR push_bit 7 1 OR push_bit 6 1 OR push_bit 5 1 OR push_bit 3 2 OR
     push_bit 1 1 OR push_bit 0 1"

definition create_startup_stack :: "tcbp \<Rightarrow> kfunc \<Rightarrow> kstate \<Rightarrow> kstate" where
  "create_startup_stack t f s =
     (let s1 = init_stack t s;
          s2 = notify0 t Restore_user s1;
          s3 = notify0 t f s2
      in upd_tcb t (\<lambda>x. x\<lparr>t_user_status := user_status\<rparr>) s3)"

section \<open>Flags, resources and the miscellaneous union\<close>

definition has_xfer_timeout :: nat where "has_xfer_timeout = 0"

definition add_flag :: "tcbp \<Rightarrow> nat \<Rightarrow> kstate \<Rightarrow> kstate" where
  "add_flag t n s = upd_tcb t (\<lambda>x. x\<lparr>t_flags := bitmask_add (t_flags x) n\<rparr>) s"

definition sub_flag :: "tcbp \<Rightarrow> nat \<Rightarrow> kstate \<Rightarrow> kstate" where
  "sub_flag t n s = upd_tcb t (\<lambda>x. x\<lparr>t_flags := bitmask_sub (t_flags x) n\<rparr>) s"

definition flag_is_set :: "tcbp \<Rightarrow> nat \<Rightarrow> kstate \<Rightarrow> bool" where
  "flag_is_set t n s \<longleftrightarrow> bitmask_is_set (t_flags (tcbs s t)) n"

definition resources_init :: "tcbp \<Rightarrow> kstate \<Rightarrow> kstate" where
  "resources_init t s =
     (let s1 = upd_tcb t (\<lambda>x. x\<lparr>t_resource_bits := 0\<rparr>) s;
          s2 = s1\<lparr>fp_lazy_tcb := NULL_tcb\<rparr>
      in upd_tcb t (\<lambda>x. x\<lparr>t_fpu_fpcsr := 0\<rparr>) s2)"

definition resources_free :: "tcbp \<Rightarrow> kstate \<Rightarrow> kstate" where "resources_free t s = s"

definition set_exception_ipc :: "tcbp \<Rightarrow> kstate \<Rightarrow> kstate" where
  "set_exception_ipc t s = upd_tcb t (\<lambda>x. x\<lparr>t_resource_bits := bitmask_add (t_resource_bits x) 1\<rparr>) s"

definition clear_exception_ipc :: "tcbp \<Rightarrow> kstate \<Rightarrow> kstate" where
  "clear_exception_ipc t s = upd_tcb t (\<lambda>x. x\<lparr>t_resource_bits := bitmask_sub (t_resource_bits x) 1\<rparr>) s"

text \<open>
  \<^verbatim>\<open>misc_tcb_t\<close>: word 0 to 8 of the union.  As \<^verbatim>\<open>ipc_copy\<close>: \<^verbatim>\<open>saved_mr[0..2]\<close>,
  \<^verbatim>\<open>saved_br0\<close>, \<^verbatim>\<open>saved_error\<close>, \<^verbatim>\<open>copy_length\<close>,
  \<^verbatim>\<open>copy_start_src\<close>, \<^verbatim>\<open>copy_start_dst\<close>, \<^verbatim>\<open>copy_fault\<close>; as
  \<^verbatim>\<open>exregs\<close>: \<^verbatim>\<open>control\<close>, \<^verbatim>\<open>sp\<close>, \<^verbatim>\<open>ip\<close>,
  \<^verbatim>\<open>flags\<close>, \<^verbatim>\<open>pager\<close>, \<^verbatim>\<open>user_handle\<close>.
\<close>

definition get_misc :: "tcbp \<Rightarrow> nat \<Rightarrow> kstate \<Rightarrow> word_t" where
  "get_misc t i s = t_misc (tcbs s t) i"

definition set_misc :: "tcbp \<Rightarrow> nat \<Rightarrow> word_t \<Rightarrow> kstate \<Rightarrow> kstate" where
  "set_misc t i v s = upd_tcb t (\<lambda>x. x\<lparr>t_misc := (t_misc x)(i := v)\<rparr>) s"

abbreviation (input) misc_saved_br0 :: nat where "misc_saved_br0 \<equiv> 3"
abbreviation (input) misc_saved_error :: nat where "misc_saved_error \<equiv> 4"
abbreviation (input) misc_copy_length :: nat where "misc_copy_length \<equiv> 5"
abbreviation (input) misc_copy_start_src :: nat where "misc_copy_start_src \<equiv> 6"
abbreviation (input) misc_copy_start_dst :: nat where "misc_copy_start_dst \<equiv> 7"
abbreviation (input) misc_copy_fault :: nat where "misc_copy_fault \<equiv> 8"

section \<open>Send queues\<close>

definition send_links :: "kstate \<Rightarrow> tcbp links" where "send_links s = (\<lambda>p. t_send_list (tcbs s p))"

definition upd_send_links :: "tcbp links \<Rightarrow> kstate \<Rightarrow> kstate" where
  "upd_send_links l s = s\<lparr>tcbs := (\<lambda>p. (tcbs s p)\<lparr>t_send_list := l p\<rparr>)\<rparr>"

definition set_queue_state :: "tcbp \<Rightarrow> queue_state_e \<Rightarrow> kstate \<Rightarrow> kstate" where
  "set_queue_state t q s = upd_tcb t (\<lambda>x. x\<lparr>t_queue_state := qstate_set q (t_queue_state x)\<rparr>) s"

definition clear_queue_state :: "tcbp \<Rightarrow> queue_state_e \<Rightarrow> kstate \<Rightarrow> kstate" where
  "clear_queue_state t q s = upd_tcb t (\<lambda>x. x\<lparr>t_queue_state := qstate_clear q (t_queue_state x)\<rparr>) s"

definition queue_state_is_set :: "tcbp \<Rightarrow> queue_state_e \<Rightarrow> kstate \<Rightarrow> bool" where
  "queue_state_is_set t q s \<longleftrightarrow> qstate_is_set q (t_queue_state (tcbs s t))"

definition enqueue_send :: "tcbp \<Rightarrow> tcbp \<Rightarrow> kstate \<Rightarrow> kstate" where
  "enqueue_send this t s =
     (let (h, l) = enqueue_list_tail NULL_tcb (t_send_head (tcbs s t)) this (send_links s);
          s1 = upd_tcb t (\<lambda>x. x\<lparr>t_send_head := h\<rparr>) (upd_send_links l s)
      in set_queue_state this qs_send s1)"

definition dequeue_send :: "tcbp \<Rightarrow> tcbp \<Rightarrow> kstate \<Rightarrow> kstate" where
  "dequeue_send this t s =
     (let (h, l) = dequeue_list NULL_tcb (t_send_head (tcbs s t)) this (send_links s);
          s1 = upd_tcb t (\<lambda>x. x\<lparr>t_send_head := h\<rparr>) (upd_send_links l s)
      in clear_queue_state this qs_send s1)"

end
