(* ===== verification/Scheduler.thy ===== *)
theory Scheduler
  imports Tcb
begin

text \<open>
  The scheduler: the ready queues and the wakeup list of \<^verbatim>\<open>api/v4/schedule.h\<close>, the
  dispatch and timeout code of \<^verbatim>\<open>schedule.cc\<close>, and the system calls
  \<^verbatim>\<open>thread_switch\<close> and \<^verbatim>\<open>schedule\<close>.

  There is one ready queue per priority, a ring through the \<^verbatim>\<open>ready_list\<close> fields; threads
  with a timeout are on a ring through the \<^verbatim>\<open>wait_list\<close> fields.  Both the search for the
  next thread and the walk of the wakeup list are loops over these rings that end only if the
  rings are well formed: their results are optional, \<^term>\<open>None\<close> being the endless loop, and
  that they return is part of what is proved.
\<close>

section \<open>Rings through the ready and wait fields\<close>

definition ready_links :: "kstate \<Rightarrow> tcbp links" where "ready_links s = (\<lambda>p. t_ready_list (tcbs s p))"

definition upd_ready_links :: "tcbp links \<Rightarrow> kstate \<Rightarrow> kstate" where
  "upd_ready_links l s = s\<lparr>tcbs := (\<lambda>p. (tcbs s p)\<lparr>t_ready_list := l p\<rparr>)\<rparr>"

definition wait_links :: "kstate \<Rightarrow> tcbp links" where "wait_links s = (\<lambda>p. t_wait_list (tcbs s p))"

definition upd_wait_links :: "tcbp links \<Rightarrow> kstate \<Rightarrow> kstate" where
  "upd_wait_links l s = s\<lparr>tcbs := (\<lambda>p. (tcbs s p)\<lparr>t_wait_list := l p\<rparr>)\<rparr>"

section \<open>Priority queues (api/v4/schedule.h)\<close>

definition MAX_PRIO :: prio_t where "MAX_PRIO = 255"

definition prio_set :: "prio_t \<Rightarrow> tcbp \<Rightarrow> kstate \<Rightarrow> kstate" where
  "prio_set p t s = upd_prioq (\<lambda>q. q\<lparr>pq_prio_queue := (pq_prio_queue q)(p := t)\<rparr>) s"

definition prio_get :: "prio_t \<Rightarrow> kstate \<Rightarrow> tcbp" where
  "prio_get p s = pq_prio_queue (prioq s) p"

definition prio_enqueue :: "tcbp \<Rightarrow> bool \<Rightarrow> kstate \<Rightarrow> kstate" where
  "prio_enqueue t head s =
     (if queue_state_is_set t qs_ready s then s
      else let p = t_priority (tcbs s t);
               (h, l) = (if head then enqueue_list_head NULL_tcb (prio_get p s) t (ready_links s)
                         else enqueue_list_tail NULL_tcb (prio_get p s) t (ready_links s));
               s1 = prio_set p h (upd_ready_links l s);
               s2 = set_queue_state t qs_ready s1
           in upd_prioq (\<lambda>q. q\<lparr>pq_max_prio := max (t_priority (tcbs s2 t)) (pq_max_prio q)\<rparr>) s2)"

definition prio_dequeue :: "tcbp \<Rightarrow> kstate \<Rightarrow> kstate" where
  "prio_dequeue t s =
     (if \<not> queue_state_is_set t qs_ready s then s
      else let p = t_priority (tcbs s t);
               (h, l) = dequeue_list NULL_tcb (prio_get p s) t (ready_links s);
               s1 = prio_set p h (upd_ready_links l s)
           in clear_queue_state t qs_ready s1)"

definition prio_init :: "kstate \<Rightarrow> kstate" where
  "prio_init s =
     upd_prioq (\<lambda>q. q\<lparr>pq_prio_queue := (\<lambda>p. if 0 \<le> p \<and> p < MAX_PRIO then NULL_tcb else pq_prio_queue q p),
       pq_max_prio := -1\<rparr>) s"

definition enqueue_ready :: "tcbp \<Rightarrow> bool \<Rightarrow> kstate \<Rightarrow> kstate" where
  "enqueue_ready t head s = prio_enqueue t head s"

definition dequeue_ready :: "tcbp \<Rightarrow> kstate \<Rightarrow> kstate" where
  "dequeue_ready t s = prio_dequeue t s"

section \<open>Scheduling parameters\<close>

definition get_priority :: "tcbp \<Rightarrow> kstate \<Rightarrow> prio_t" where "get_priority t s = t_priority (tcbs s t)"

definition set_sensitive_prio :: "tcbp \<Rightarrow> prio_t \<Rightarrow> kstate \<Rightarrow> kstate" where
  "set_sensitive_prio t p s = upd_tcb t (\<lambda>x. x\<lparr>t_sensitive_prio := p\<rparr>) s"

definition get_sensitive_prio :: "tcbp \<Rightarrow> kstate \<Rightarrow> prio_t" where
  "get_sensitive_prio t s = t_sensitive_prio (tcbs s t)"

definition set_priority :: "tcbp \<Rightarrow> prio_t \<Rightarrow> kstate \<Rightarrow> kstate" where
  "set_priority t p s =
     (let s1 = upd_tcb t (\<lambda>x. x\<lparr>t_priority := p\<rparr>) s
      in if t_sensitive_prio (tcbs s1 t) < p then set_sensitive_prio t p s1 else s1)"

definition set_maximum_delay :: "tcbp \<Rightarrow> u16_t \<Rightarrow> kstate \<Rightarrow> kstate" where
  "set_maximum_delay t usec s = upd_tcb t (\<lambda>x. x\<lparr>t_max_delay := usec, t_current_max_delay := usec\<rparr>) s"

definition set_total_quantum :: "tcbp \<Rightarrow> time_t \<Rightarrow> kstate \<Rightarrow> kstate" where
  "set_total_quantum t quantum s =
     (let s1 = upd_tcb t (\<lambda>x. x\<lparr>t_total_quantum :=
                  (if time_is_never quantum then 0 else get_microseconds quantum)\<rparr>) s
      in upd_tcb t (\<lambda>x. x\<lparr>t_current_timeslice := t_timeslice_length x\<rparr>) s1)"

definition set_timeslice_length :: "tcbp \<Rightarrow> time_t \<Rightarrow> kstate \<Rightarrow> kstate" where
  "set_timeslice_length t timeslice s =
     upd_tcb t (\<lambda>x. x\<lparr>t_timeslice_length := get_microseconds timeslice,
       t_current_timeslice := get_microseconds timeslice\<rparr>) s"

definition DEFAULT_TIMESLICE_LENGTH :: time_t where "DEFAULT_TIMESLICE_LENGTH = time_period 625 4"

definition DEFAULT_TOTAL_QUANTUM :: time_t where "DEFAULT_TOTAL_QUANTUM = time_never"

definition DEFAULT_PRIORITY :: prio_t where "DEFAULT_PRIORITY = 100"

definition init_tcb :: "tcbp \<Rightarrow> prio_t \<Rightarrow> time_t \<Rightarrow> time_t \<Rightarrow> kstate \<Rightarrow> kstate" where
  "init_tcb t p quantum timeslice s =
     (let s1 = set_timeslice_length t timeslice s;
          s2 = set_total_quantum t quantum s1;
          s3 = set_priority t p s2;
          s4 = set_sensitive_prio t p s3
      in set_maximum_delay t 0 s4)"

section \<open>Timeouts\<close>

definition get_current_time :: "kstate \<Rightarrow> u64_t" where
  "get_current_time s = sc_current_time (scheduler s)"

definition set_timeout_abs :: "tcbp \<Rightarrow> u64_t \<Rightarrow> kstate \<Rightarrow> kstate" where
  "set_timeout_abs t absolute_time s =
     (let s1 = upd_tcb t (\<lambda>x. x\<lparr>t_absolute_timeout := absolute_time\<rparr>) s;
          (h, l) = enqueue_list_tail NULL_tcb (wakeup_list s1) t (wait_links s1);
          s2 = upd_sched (\<lambda>c. c\<lparr>sc_wakeup_list := h\<rparr>) (upd_wait_links l s1)
      in set_queue_state t qs_wakeup s2)"

definition set_timeout :: "tcbp \<Rightarrow> time_t \<Rightarrow> kstate \<Rightarrow> kstate option" where
  "set_timeout t time s =
     (if time_is_point time then None
      else Some (set_timeout_abs t (get_current_time s + get_microseconds time) s))"

definition cancel_timeout :: "tcbp \<Rightarrow> kstate \<Rightarrow> kstate" where
  "cancel_timeout t s =
     (if \<not> queue_state_is_set t qs_wakeup s then s
      else let (h, l) = dequeue_list NULL_tcb (wakeup_list s) t (wait_links s);
               s1 = upd_sched (\<lambda>c. c\<lparr>sc_wakeup_list := h\<rparr>) (upd_wait_links l s)
           in clear_queue_state t qs_wakeup s1)"

definition has_timeout_expired :: "tcbp \<Rightarrow> u64_t \<Rightarrow> kstate \<Rightarrow> bool" where
  "has_timeout_expired t time s \<longleftrightarrow> t_absolute_timeout (tcbs s t) \<le> time"

section \<open>Dispatching\<close>

definition delay_preemption :: "tcbp \<Rightarrow> tcbp \<Rightarrow> kstate \<Rightarrow> bool" where
  "delay_preemption current t s =
     (if current = t then True
      else if get_sensitive_prio current s < get_priority t s then False
      else t_current_max_delay (tcbs s current) > 0)"

definition check_dispatch_thread :: "tcbp \<Rightarrow> tcbp \<Rightarrow> kstate \<Rightarrow> bool" where
  "check_dispatch_thread current t s =
     (if is_delayed (get_preempt_flags current s) \<and> t_current_max_delay (tcbs s current) \<noteq> 0
      then \<not> delay_preemption current t s
      else get_priority current s < get_priority t s)"

definition preempt_thread :: "tcbp \<Rightarrow> tcbp \<Rightarrow> kstate \<Rightarrow> kstate" where
  "preempt_thread current dest s =
     (let s1 = upd_tcb current (\<lambda>x. x\<lparr>t_current_timeslice := pq_current_timeslice (prioq s)\<rparr>) s;
          s2 = enqueue_ready current True s1
      in upd_prioq (\<lambda>q. q\<lparr>pq_current_timeslice := t_current_timeslice (tcbs s2 dest)\<rparr>) s2)"

partial_function (option) find_in_prio :: "prio_t \<Rightarrow> tcbp \<Rightarrow> kstate \<Rightarrow> (tcbp option \<times> kstate) option" where
  "find_in_prio p t s =
     (if t = NULL_tcb then Some (None, s)
      else if is_runnable (get_state t s)
      then Some (Some t, upd_prioq (\<lambda>q. q\<lparr>pq_max_prio := p\<rparr>) (prio_set p t s))
      else let s1 = prio_dequeue t s in find_in_prio p (prio_get p s1) s1)"

function find_from :: "prio_t \<Rightarrow> kstate \<Rightarrow> (tcbp \<times> kstate) option" where
  "find_from p s =
     (if p \<ge> 0
      then (case find_in_prio p (prio_get p s) s of
              None \<Rightarrow> None
            | Some (Some t, s1) \<Rightarrow> Some (t, s1)
            | Some (None, s1) \<Rightarrow> find_from (p - 1) s1)
      else Some (Idle_tcb, upd_prioq (\<lambda>q. q\<lparr>pq_max_prio := -1\<rparr>) s))"
  by pat_completeness auto
termination by (relation "measure (\<lambda>(p, s). nat (p + 1))") auto

declare find_from.simps [simp del]

definition find_next_thread :: "kstate \<Rightarrow> (tcbp \<times> kstate) option" where
  "find_next_thread s = find_from (pq_max_prio (prioq s)) s"

definition schedule :: "tcbp \<Rightarrow> kstate \<Rightarrow> (bool \<times> kstate) option" where
  "schedule current s =
     (case find_next_thread s of
        None \<Rightarrow> None
      | Some (t, s1) \<Rightarrow>
          if t = current then Some (False, s1)
          else let s2 = (if current \<noteq> Idle_tcb then enqueue_ready current False s1 else s1)
               in Some (True, switch_to current t s2))"

definition end_of_timeslice :: "tcbp \<Rightarrow> kstate \<Rightarrow> kstate" where
  "end_of_timeslice t s =
     (let s1 = enqueue_ready t True s;
          s2 = prio_set (get_priority t s1) (rl_next (ready_links s1 t)) s1;
          s3 = upd_tcb t (\<lambda>x. x\<lparr>t_current_timeslice :=
                 pq_current_timeslice (prioq s2) + t_timeslice_length x\<rparr>) s2
      in upd_prioq (\<lambda>q. q\<lparr>pq_current_timeslice :=
           t_current_timeslice (tcbs s3 (prio_get (get_priority t s3) s3))\<rparr>) s3)"

text \<open>One iteration of the wakeup loop for an expired thread that is really woken up.\<close>

definition wakeup_thread :: "tcbp \<Rightarrow> kstate \<Rightarrow> kstate" where
  "wakeup_thread t s =
     (let s1 = cancel_timeout t s;
          s2 = sub_flag t has_xfer_timeout s1;
          s3 = (if is_sending (get_state t s2) \<or> is_receiving (get_state t s2)
                then notify1 t Handle_ipc_timeout (get_state t s2) s2 else s2);
          s4 = set_state t running s3
      in enqueue_ready t False s4)"

partial_function (option) wakeup_loop :: "tcbp \<Rightarrow> tcbp \<Rightarrow> kstate \<Rightarrow> (tcbp \<times> kstate) option" where
  "wakeup_loop highest t s =
     (let (highest1, t1, s1, list_head_changed) =
        (if has_timeout_expired t (get_current_time s) s
         then if is_waiting_forever (get_state t s) \<and> \<not> flag_is_set t has_xfer_timeout s
              then (highest, rl_next (wait_links s t), cancel_timeout t s, True)
              else (if check_dispatch_thread highest t s then t else highest,
                    rl_next (wait_links s t), wakeup_thread t s, True)
         else (highest, rl_next (wait_links s t), s, False))
      in if wakeup_list s1 \<noteq> NULL_tcb \<and> (t1 \<noteq> wakeup_list s1 \<or> list_head_changed)
         then wakeup_loop highest1 t1 s1 else Some (highest1, s1))"

definition parse_wakeup_queues :: "tcbp \<Rightarrow> kstate \<Rightarrow> (tcbp \<times> kstate) option" where
  "parse_wakeup_queues current s =
     (if wakeup_list s = NULL_tcb then Some (current, s) else wakeup_loop current (wakeup_list s) s)"

section \<open>Frame lemmas\<close>

lemma upd_ready_links_sel [simp]:
  "tcbs (upd_ready_links l s) p = (tcbs s p)\<lparr>t_ready_list := l p\<rparr>"
  "utcbs (upd_ready_links l s) = utcbs s"
  "current_tcb (upd_ready_links l s) = current_tcb s"
  "scheduler (upd_ready_links l s) = scheduler s"
  "kip (upd_ready_links l s) = kip s"
  "sigma0_space (upd_ready_links l s) = sigma0_space s"
  "sigma1_space (upd_ready_links l s) = sigma1_space s"
  "roottask_space (upd_ready_links l s) = roottask_space s"
  "kernel_space (upd_ready_links l s) = kernel_space s"
  "idle_space (upd_ready_links l s) = idle_space s"
  "fp_lazy_tcb (upd_ready_links l s) = fp_lazy_tcb s"
  "kmem (upd_ready_links l s) = kmem s"
  "asid_cache (upd_ready_links l s) = asid_cache s"
  by (simp_all add: upd_ready_links_def)

lemma upd_wait_links_sel [simp]:
  "tcbs (upd_wait_links l s) p = (tcbs s p)\<lparr>t_wait_list := l p\<rparr>"
  "utcbs (upd_wait_links l s) = utcbs s"
  "current_tcb (upd_wait_links l s) = current_tcb s"
  "scheduler (upd_wait_links l s) = scheduler s"
  "kip (upd_wait_links l s) = kip s"
  "sigma0_space (upd_wait_links l s) = sigma0_space s"
  "sigma1_space (upd_wait_links l s) = sigma1_space s"
  "roottask_space (upd_wait_links l s) = roottask_space s"
  "kernel_space (upd_wait_links l s) = kernel_space s"
  "idle_space (upd_wait_links l s) = idle_space s"
  "fp_lazy_tcb (upd_wait_links l s) = fp_lazy_tcb s"
  "kmem (upd_wait_links l s) = kmem s"
  "asid_cache (upd_wait_links l s) = asid_cache s"
  by (simp_all add: upd_wait_links_def)

lemma set_queue_state_sel [simp]:
  "t_myself_global (tcbs (set_queue_state t q s) x) = t_myself_global (tcbs s x)"
  "t_myself_local (tcbs (set_queue_state t q s) x) = t_myself_local (tcbs s x)"
  "t_cpu (tcbs (set_queue_state t q s) x) = t_cpu (tcbs s x)"
  "t_utcb (tcbs (set_queue_state t q s) x) = t_utcb (tcbs s x)"
  "t_thread_state (tcbs (set_queue_state t q s) x) = t_thread_state (tcbs s x)"
  "t_partner (tcbs (set_queue_state t q s) x) = t_partner (tcbs s x)"
  "t_resource_bits (tcbs (set_queue_state t q s) x) = t_resource_bits (tcbs s x)"
  "t_stack (tcbs (set_queue_state t q s) x) = t_stack (tcbs s x)"
  "t_ready_list (tcbs (set_queue_state t q s) x) = t_ready_list (tcbs s x)"
  "t_wait_list (tcbs (set_queue_state t q s) x) = t_wait_list (tcbs s x)"
  "t_send_list (tcbs (set_queue_state t q s) x) = t_send_list (tcbs s x)"
  "t_send_head (tcbs (set_queue_state t q s) x) = t_send_head (tcbs s x)"
  "t_total_quantum (tcbs (set_queue_state t q s) x) = t_total_quantum (tcbs s x)"
  "t_timeslice_length (tcbs (set_queue_state t q s) x) = t_timeslice_length (tcbs s x)"
  "t_current_timeslice (tcbs (set_queue_state t q s) x) = t_current_timeslice (tcbs s x)"
  "t_absolute_timeout (tcbs (set_queue_state t q s) x) = t_absolute_timeout (tcbs s x)"
  "t_priority (tcbs (set_queue_state t q s) x) = t_priority (tcbs s x)"
  "t_sensitive_prio (tcbs (set_queue_state t q s) x) = t_sensitive_prio (tcbs s x)"
  "t_current_max_delay (tcbs (set_queue_state t q s) x) = t_current_max_delay (tcbs s x)"
  "t_max_delay (tcbs (set_queue_state t q s) x) = t_max_delay (tcbs s x)"
  "t_scheduler (tcbs (set_queue_state t q s) x) = t_scheduler (tcbs s x)"
  "t_space (tcbs (set_queue_state t q s) x) = t_space (tcbs s x)"
  "t_flags (tcbs (set_queue_state t q s) x) = t_flags (tcbs s x)"
  "t_int_mask (tcbs (set_queue_state t q s) x) = t_int_mask (tcbs s x)"
  "t_misc (tcbs (set_queue_state t q s) x) = t_misc (tcbs s x)"
  "t_saved_partner (tcbs (set_queue_state t q s) x) = t_saved_partner (tcbs s x)"
  "t_saved_state (tcbs (set_queue_state t q s) x) = t_saved_state (tcbs s x)"
  "t_fpu_fpcsr (tcbs (set_queue_state t q s) x) = t_fpu_fpcsr (tcbs s x)"
  "t_user_epc (tcbs (set_queue_state t q s) x) = t_user_epc (tcbs s x)"
  "t_user_sp (tcbs (set_queue_state t q s) x) = t_user_sp (tcbs s x)"
  "t_user_status (tcbs (set_queue_state t q s) x) = t_user_status (tcbs s x)"
  "utcbs (set_queue_state t q s) = utcbs s" "current_tcb (set_queue_state t q s) = current_tcb s"
  "kip (set_queue_state t q s) = kip s" "sigma0_space (set_queue_state t q s) = sigma0_space s"
  "sigma1_space (set_queue_state t q s) = sigma1_space s"
  "roottask_space (set_queue_state t q s) = roottask_space s"
  "kernel_space (set_queue_state t q s) = kernel_space s"
  "idle_space (set_queue_state t q s) = idle_space s"
  "fp_lazy_tcb (set_queue_state t q s) = fp_lazy_tcb s" "kmem (set_queue_state t q s) = kmem s"
  "asid_cache (set_queue_state t q s) = asid_cache s"
  "scheduler (set_queue_state t q s) = scheduler s"
  by (simp_all add: set_queue_state_def)

lemma clear_queue_state_sel [simp]:
  "t_myself_global (tcbs (clear_queue_state t q s) x) = t_myself_global (tcbs s x)"
  "t_myself_local (tcbs (clear_queue_state t q s) x) = t_myself_local (tcbs s x)"
  "t_cpu (tcbs (clear_queue_state t q s) x) = t_cpu (tcbs s x)"
  "t_utcb (tcbs (clear_queue_state t q s) x) = t_utcb (tcbs s x)"
  "t_thread_state (tcbs (clear_queue_state t q s) x) = t_thread_state (tcbs s x)"
  "t_partner (tcbs (clear_queue_state t q s) x) = t_partner (tcbs s x)"
  "t_resource_bits (tcbs (clear_queue_state t q s) x) = t_resource_bits (tcbs s x)"
  "t_stack (tcbs (clear_queue_state t q s) x) = t_stack (tcbs s x)"
  "t_ready_list (tcbs (clear_queue_state t q s) x) = t_ready_list (tcbs s x)"
  "t_wait_list (tcbs (clear_queue_state t q s) x) = t_wait_list (tcbs s x)"
  "t_send_list (tcbs (clear_queue_state t q s) x) = t_send_list (tcbs s x)"
  "t_send_head (tcbs (clear_queue_state t q s) x) = t_send_head (tcbs s x)"
  "t_total_quantum (tcbs (clear_queue_state t q s) x) = t_total_quantum (tcbs s x)"
  "t_timeslice_length (tcbs (clear_queue_state t q s) x) = t_timeslice_length (tcbs s x)"
  "t_current_timeslice (tcbs (clear_queue_state t q s) x) = t_current_timeslice (tcbs s x)"
  "t_absolute_timeout (tcbs (clear_queue_state t q s) x) = t_absolute_timeout (tcbs s x)"
  "t_priority (tcbs (clear_queue_state t q s) x) = t_priority (tcbs s x)"
  "t_sensitive_prio (tcbs (clear_queue_state t q s) x) = t_sensitive_prio (tcbs s x)"
  "t_current_max_delay (tcbs (clear_queue_state t q s) x) = t_current_max_delay (tcbs s x)"
  "t_max_delay (tcbs (clear_queue_state t q s) x) = t_max_delay (tcbs s x)"
  "t_scheduler (tcbs (clear_queue_state t q s) x) = t_scheduler (tcbs s x)"
  "t_space (tcbs (clear_queue_state t q s) x) = t_space (tcbs s x)"
  "t_flags (tcbs (clear_queue_state t q s) x) = t_flags (tcbs s x)"
  "t_int_mask (tcbs (clear_queue_state t q s) x) = t_int_mask (tcbs s x)"
  "t_misc (tcbs (clear_queue_state t q s) x) = t_misc (tcbs s x)"
  "t_saved_partner (tcbs (clear_queue_state t q s) x) = t_saved_partner (tcbs s x)"
  "t_saved_state (tcbs (clear_queue_state t q s) x) = t_saved_state (tcbs s x)"
  "t_fpu_fpcsr (tcbs (clear_queue_state t q s) x) = t_fpu_fpcsr (tcbs s x)"
  "t_user_epc (tcbs (clear_queue_state t q s) x) = t_user_epc (tcbs s x)"
  "t_user_sp (tcbs (clear_queue_state t q s) x) = t_user_sp (tcbs s x)"
  "t_user_status (tcbs (clear_queue_state t q s) x) = t_user_status (tcbs s x)"
  "utcbs (clear_queue_state t q s) = utcbs s"
  "current_tcb (clear_queue_state t q s) = current_tcb s" "kip (clear_queue_state t q s) = kip s"
  "sigma0_space (clear_queue_state t q s) = sigma0_space s"
  "sigma1_space (clear_queue_state t q s) = sigma1_space s"
  "roottask_space (clear_queue_state t q s) = roottask_space s"
  "kernel_space (clear_queue_state t q s) = kernel_space s"
  "idle_space (clear_queue_state t q s) = idle_space s"
  "fp_lazy_tcb (clear_queue_state t q s) = fp_lazy_tcb s"
  "kmem (clear_queue_state t q s) = kmem s" "asid_cache (clear_queue_state t q s) = asid_cache s"
  "scheduler (clear_queue_state t q s) = scheduler s"
  by (simp_all add: clear_queue_state_def)

lemma prio_set_sel [simp]:
  "t_myself_global (tcbs (prio_set p t s) x) = t_myself_global (tcbs s x)"
  "t_myself_local (tcbs (prio_set p t s) x) = t_myself_local (tcbs s x)"
  "t_cpu (tcbs (prio_set p t s) x) = t_cpu (tcbs s x)"
  "t_utcb (tcbs (prio_set p t s) x) = t_utcb (tcbs s x)"
  "t_thread_state (tcbs (prio_set p t s) x) = t_thread_state (tcbs s x)"
  "t_partner (tcbs (prio_set p t s) x) = t_partner (tcbs s x)"
  "t_resource_bits (tcbs (prio_set p t s) x) = t_resource_bits (tcbs s x)"
  "t_stack (tcbs (prio_set p t s) x) = t_stack (tcbs s x)"
  "t_queue_state (tcbs (prio_set p t s) x) = t_queue_state (tcbs s x)"
  "t_ready_list (tcbs (prio_set p t s) x) = t_ready_list (tcbs s x)"
  "t_wait_list (tcbs (prio_set p t s) x) = t_wait_list (tcbs s x)"
  "t_send_list (tcbs (prio_set p t s) x) = t_send_list (tcbs s x)"
  "t_send_head (tcbs (prio_set p t s) x) = t_send_head (tcbs s x)"
  "t_total_quantum (tcbs (prio_set p t s) x) = t_total_quantum (tcbs s x)"
  "t_timeslice_length (tcbs (prio_set p t s) x) = t_timeslice_length (tcbs s x)"
  "t_current_timeslice (tcbs (prio_set p t s) x) = t_current_timeslice (tcbs s x)"
  "t_absolute_timeout (tcbs (prio_set p t s) x) = t_absolute_timeout (tcbs s x)"
  "t_priority (tcbs (prio_set p t s) x) = t_priority (tcbs s x)"
  "t_sensitive_prio (tcbs (prio_set p t s) x) = t_sensitive_prio (tcbs s x)"
  "t_current_max_delay (tcbs (prio_set p t s) x) = t_current_max_delay (tcbs s x)"
  "t_max_delay (tcbs (prio_set p t s) x) = t_max_delay (tcbs s x)"
  "t_scheduler (tcbs (prio_set p t s) x) = t_scheduler (tcbs s x)"
  "t_space (tcbs (prio_set p t s) x) = t_space (tcbs s x)"
  "t_flags (tcbs (prio_set p t s) x) = t_flags (tcbs s x)"
  "t_int_mask (tcbs (prio_set p t s) x) = t_int_mask (tcbs s x)"
  "t_misc (tcbs (prio_set p t s) x) = t_misc (tcbs s x)"
  "t_saved_partner (tcbs (prio_set p t s) x) = t_saved_partner (tcbs s x)"
  "t_saved_state (tcbs (prio_set p t s) x) = t_saved_state (tcbs s x)"
  "t_fpu_fpcsr (tcbs (prio_set p t s) x) = t_fpu_fpcsr (tcbs s x)"
  "t_user_epc (tcbs (prio_set p t s) x) = t_user_epc (tcbs s x)"
  "t_user_sp (tcbs (prio_set p t s) x) = t_user_sp (tcbs s x)"
  "t_user_status (tcbs (prio_set p t s) x) = t_user_status (tcbs s x)"
  "utcbs (prio_set p t s) = utcbs s" "current_tcb (prio_set p t s) = current_tcb s"
  "kip (prio_set p t s) = kip s" "sigma0_space (prio_set p t s) = sigma0_space s"
  "sigma1_space (prio_set p t s) = sigma1_space s"
  "roottask_space (prio_set p t s) = roottask_space s"
  "kernel_space (prio_set p t s) = kernel_space s" "idle_space (prio_set p t s) = idle_space s"
  "fp_lazy_tcb (prio_set p t s) = fp_lazy_tcb s" "kmem (prio_set p t s) = kmem s"
  "asid_cache (prio_set p t s) = asid_cache s" "wakeup_list (prio_set p t s) = wakeup_list s"
  "sc_current_time (scheduler (prio_set p t s)) = sc_current_time (scheduler s)"
  "prio_get q (prio_set p t s) = (if q = p then t else prio_get q s)"
  "pq_max_prio (prioq (prio_set p t s)) = pq_max_prio (prioq s)"
  "pq_current_timeslice (prioq (prio_set p t s)) = pq_current_timeslice (prioq s)"
  by (simp_all add: prio_set_def prio_get_def)

lemma prio_enqueue_sel [simp]:
  "t_myself_global (tcbs (prio_enqueue t b s) x) = t_myself_global (tcbs s x)"
  "t_myself_local (tcbs (prio_enqueue t b s) x) = t_myself_local (tcbs s x)"
  "t_cpu (tcbs (prio_enqueue t b s) x) = t_cpu (tcbs s x)"
  "t_utcb (tcbs (prio_enqueue t b s) x) = t_utcb (tcbs s x)"
  "t_thread_state (tcbs (prio_enqueue t b s) x) = t_thread_state (tcbs s x)"
  "t_partner (tcbs (prio_enqueue t b s) x) = t_partner (tcbs s x)"
  "t_resource_bits (tcbs (prio_enqueue t b s) x) = t_resource_bits (tcbs s x)"
  "t_stack (tcbs (prio_enqueue t b s) x) = t_stack (tcbs s x)"
  "t_wait_list (tcbs (prio_enqueue t b s) x) = t_wait_list (tcbs s x)"
  "t_send_list (tcbs (prio_enqueue t b s) x) = t_send_list (tcbs s x)"
  "t_send_head (tcbs (prio_enqueue t b s) x) = t_send_head (tcbs s x)"
  "t_total_quantum (tcbs (prio_enqueue t b s) x) = t_total_quantum (tcbs s x)"
  "t_timeslice_length (tcbs (prio_enqueue t b s) x) = t_timeslice_length (tcbs s x)"
  "t_current_timeslice (tcbs (prio_enqueue t b s) x) = t_current_timeslice (tcbs s x)"
  "t_absolute_timeout (tcbs (prio_enqueue t b s) x) = t_absolute_timeout (tcbs s x)"
  "t_priority (tcbs (prio_enqueue t b s) x) = t_priority (tcbs s x)"
  "t_sensitive_prio (tcbs (prio_enqueue t b s) x) = t_sensitive_prio (tcbs s x)"
  "t_current_max_delay (tcbs (prio_enqueue t b s) x) = t_current_max_delay (tcbs s x)"
  "t_max_delay (tcbs (prio_enqueue t b s) x) = t_max_delay (tcbs s x)"
  "t_scheduler (tcbs (prio_enqueue t b s) x) = t_scheduler (tcbs s x)"
  "t_space (tcbs (prio_enqueue t b s) x) = t_space (tcbs s x)"
  "t_flags (tcbs (prio_enqueue t b s) x) = t_flags (tcbs s x)"
  "t_int_mask (tcbs (prio_enqueue t b s) x) = t_int_mask (tcbs s x)"
  "t_misc (tcbs (prio_enqueue t b s) x) = t_misc (tcbs s x)"
  "t_saved_partner (tcbs (prio_enqueue t b s) x) = t_saved_partner (tcbs s x)"
  "t_saved_state (tcbs (prio_enqueue t b s) x) = t_saved_state (tcbs s x)"
  "t_fpu_fpcsr (tcbs (prio_enqueue t b s) x) = t_fpu_fpcsr (tcbs s x)"
  "t_user_epc (tcbs (prio_enqueue t b s) x) = t_user_epc (tcbs s x)"
  "t_user_sp (tcbs (prio_enqueue t b s) x) = t_user_sp (tcbs s x)"
  "t_user_status (tcbs (prio_enqueue t b s) x) = t_user_status (tcbs s x)"
  "utcbs (prio_enqueue t b s) = utcbs s" "current_tcb (prio_enqueue t b s) = current_tcb s"
  "kip (prio_enqueue t b s) = kip s" "sigma0_space (prio_enqueue t b s) = sigma0_space s"
  "sigma1_space (prio_enqueue t b s) = sigma1_space s"
  "roottask_space (prio_enqueue t b s) = roottask_space s"
  "kernel_space (prio_enqueue t b s) = kernel_space s"
  "idle_space (prio_enqueue t b s) = idle_space s"
  "fp_lazy_tcb (prio_enqueue t b s) = fp_lazy_tcb s" "kmem (prio_enqueue t b s) = kmem s"
  "asid_cache (prio_enqueue t b s) = asid_cache s"
  "wakeup_list (prio_enqueue t b s) = wakeup_list s"
  "sc_current_time (scheduler (prio_enqueue t b s)) = sc_current_time (scheduler s)"
  by (auto simp: prio_enqueue_def Let_def split_def)

lemma prio_dequeue_sel [simp]:
  "t_myself_global (tcbs (prio_dequeue t s) x) = t_myself_global (tcbs s x)"
  "t_myself_local (tcbs (prio_dequeue t s) x) = t_myself_local (tcbs s x)"
  "t_cpu (tcbs (prio_dequeue t s) x) = t_cpu (tcbs s x)"
  "t_utcb (tcbs (prio_dequeue t s) x) = t_utcb (tcbs s x)"
  "t_thread_state (tcbs (prio_dequeue t s) x) = t_thread_state (tcbs s x)"
  "t_partner (tcbs (prio_dequeue t s) x) = t_partner (tcbs s x)"
  "t_resource_bits (tcbs (prio_dequeue t s) x) = t_resource_bits (tcbs s x)"
  "t_stack (tcbs (prio_dequeue t s) x) = t_stack (tcbs s x)"
  "t_wait_list (tcbs (prio_dequeue t s) x) = t_wait_list (tcbs s x)"
  "t_send_list (tcbs (prio_dequeue t s) x) = t_send_list (tcbs s x)"
  "t_send_head (tcbs (prio_dequeue t s) x) = t_send_head (tcbs s x)"
  "t_total_quantum (tcbs (prio_dequeue t s) x) = t_total_quantum (tcbs s x)"
  "t_timeslice_length (tcbs (prio_dequeue t s) x) = t_timeslice_length (tcbs s x)"
  "t_current_timeslice (tcbs (prio_dequeue t s) x) = t_current_timeslice (tcbs s x)"
  "t_absolute_timeout (tcbs (prio_dequeue t s) x) = t_absolute_timeout (tcbs s x)"
  "t_priority (tcbs (prio_dequeue t s) x) = t_priority (tcbs s x)"
  "t_sensitive_prio (tcbs (prio_dequeue t s) x) = t_sensitive_prio (tcbs s x)"
  "t_current_max_delay (tcbs (prio_dequeue t s) x) = t_current_max_delay (tcbs s x)"
  "t_max_delay (tcbs (prio_dequeue t s) x) = t_max_delay (tcbs s x)"
  "t_scheduler (tcbs (prio_dequeue t s) x) = t_scheduler (tcbs s x)"
  "t_space (tcbs (prio_dequeue t s) x) = t_space (tcbs s x)"
  "t_flags (tcbs (prio_dequeue t s) x) = t_flags (tcbs s x)"
  "t_int_mask (tcbs (prio_dequeue t s) x) = t_int_mask (tcbs s x)"
  "t_misc (tcbs (prio_dequeue t s) x) = t_misc (tcbs s x)"
  "t_saved_partner (tcbs (prio_dequeue t s) x) = t_saved_partner (tcbs s x)"
  "t_saved_state (tcbs (prio_dequeue t s) x) = t_saved_state (tcbs s x)"
  "t_fpu_fpcsr (tcbs (prio_dequeue t s) x) = t_fpu_fpcsr (tcbs s x)"
  "t_user_epc (tcbs (prio_dequeue t s) x) = t_user_epc (tcbs s x)"
  "t_user_sp (tcbs (prio_dequeue t s) x) = t_user_sp (tcbs s x)"
  "t_user_status (tcbs (prio_dequeue t s) x) = t_user_status (tcbs s x)"
  "utcbs (prio_dequeue t s) = utcbs s" "current_tcb (prio_dequeue t s) = current_tcb s"
  "kip (prio_dequeue t s) = kip s" "sigma0_space (prio_dequeue t s) = sigma0_space s"
  "sigma1_space (prio_dequeue t s) = sigma1_space s"
  "roottask_space (prio_dequeue t s) = roottask_space s"
  "kernel_space (prio_dequeue t s) = kernel_space s"
  "idle_space (prio_dequeue t s) = idle_space s" "fp_lazy_tcb (prio_dequeue t s) = fp_lazy_tcb s"
  "kmem (prio_dequeue t s) = kmem s" "asid_cache (prio_dequeue t s) = asid_cache s"
  "wakeup_list (prio_dequeue t s) = wakeup_list s"
  "sc_current_time (scheduler (prio_dequeue t s)) = sc_current_time (scheduler s)"
  "pq_max_prio (prioq (prio_dequeue t s)) = pq_max_prio (prioq s)"
  by (auto simp: prio_dequeue_def Let_def split_def)

lemma cancel_timeout_sel [simp]:
  "t_myself_global (tcbs (cancel_timeout t s) x) = t_myself_global (tcbs s x)"
  "t_myself_local (tcbs (cancel_timeout t s) x) = t_myself_local (tcbs s x)"
  "t_cpu (tcbs (cancel_timeout t s) x) = t_cpu (tcbs s x)"
  "t_utcb (tcbs (cancel_timeout t s) x) = t_utcb (tcbs s x)"
  "t_thread_state (tcbs (cancel_timeout t s) x) = t_thread_state (tcbs s x)"
  "t_partner (tcbs (cancel_timeout t s) x) = t_partner (tcbs s x)"
  "t_resource_bits (tcbs (cancel_timeout t s) x) = t_resource_bits (tcbs s x)"
  "t_stack (tcbs (cancel_timeout t s) x) = t_stack (tcbs s x)"
  "t_ready_list (tcbs (cancel_timeout t s) x) = t_ready_list (tcbs s x)"
  "t_send_list (tcbs (cancel_timeout t s) x) = t_send_list (tcbs s x)"
  "t_send_head (tcbs (cancel_timeout t s) x) = t_send_head (tcbs s x)"
  "t_total_quantum (tcbs (cancel_timeout t s) x) = t_total_quantum (tcbs s x)"
  "t_timeslice_length (tcbs (cancel_timeout t s) x) = t_timeslice_length (tcbs s x)"
  "t_current_timeslice (tcbs (cancel_timeout t s) x) = t_current_timeslice (tcbs s x)"
  "t_absolute_timeout (tcbs (cancel_timeout t s) x) = t_absolute_timeout (tcbs s x)"
  "t_priority (tcbs (cancel_timeout t s) x) = t_priority (tcbs s x)"
  "t_sensitive_prio (tcbs (cancel_timeout t s) x) = t_sensitive_prio (tcbs s x)"
  "t_current_max_delay (tcbs (cancel_timeout t s) x) = t_current_max_delay (tcbs s x)"
  "t_max_delay (tcbs (cancel_timeout t s) x) = t_max_delay (tcbs s x)"
  "t_scheduler (tcbs (cancel_timeout t s) x) = t_scheduler (tcbs s x)"
  "t_space (tcbs (cancel_timeout t s) x) = t_space (tcbs s x)"
  "t_flags (tcbs (cancel_timeout t s) x) = t_flags (tcbs s x)"
  "t_int_mask (tcbs (cancel_timeout t s) x) = t_int_mask (tcbs s x)"
  "t_misc (tcbs (cancel_timeout t s) x) = t_misc (tcbs s x)"
  "t_saved_partner (tcbs (cancel_timeout t s) x) = t_saved_partner (tcbs s x)"
  "t_saved_state (tcbs (cancel_timeout t s) x) = t_saved_state (tcbs s x)"
  "t_fpu_fpcsr (tcbs (cancel_timeout t s) x) = t_fpu_fpcsr (tcbs s x)"
  "t_user_epc (tcbs (cancel_timeout t s) x) = t_user_epc (tcbs s x)"
  "t_user_sp (tcbs (cancel_timeout t s) x) = t_user_sp (tcbs s x)"
  "t_user_status (tcbs (cancel_timeout t s) x) = t_user_status (tcbs s x)"
  "utcbs (cancel_timeout t s) = utcbs s" "current_tcb (cancel_timeout t s) = current_tcb s"
  "kip (cancel_timeout t s) = kip s" "sigma0_space (cancel_timeout t s) = sigma0_space s"
  "sigma1_space (cancel_timeout t s) = sigma1_space s"
  "roottask_space (cancel_timeout t s) = roottask_space s"
  "kernel_space (cancel_timeout t s) = kernel_space s"
  "idle_space (cancel_timeout t s) = idle_space s"
  "fp_lazy_tcb (cancel_timeout t s) = fp_lazy_tcb s" "kmem (cancel_timeout t s) = kmem s"
  "asid_cache (cancel_timeout t s) = asid_cache s" "prioq (cancel_timeout t s) = prioq s"
  "sc_current_time (scheduler (cancel_timeout t s)) = sc_current_time (scheduler s)"
  by (auto simp: cancel_timeout_def Let_def split_def)

lemma queue_state_upd [simp]:
  "queue_state_is_set x q (set_queue_state t q' s) \<longleftrightarrow> (x = t \<and> q = q') \<or> queue_state_is_set x q s"
  "queue_state_is_set x q (clear_queue_state t q' s) \<longleftrightarrow> \<not> (x = t \<and> q = q') \<and> queue_state_is_set x q s"
  "queue_state_is_set x q (prio_set p y s) \<longleftrightarrow> queue_state_is_set x q s"
  "queue_state_is_set x q (upd_prioq f s) \<longleftrightarrow> queue_state_is_set x q s"
  "queue_state_is_set x q (upd_sched g s) \<longleftrightarrow> queue_state_is_set x q s"
  "queue_state_is_set x q (upd_ready_links l s) \<longleftrightarrow> queue_state_is_set x q s"
  "queue_state_is_set x q (upd_wait_links l s) \<longleftrightarrow> queue_state_is_set x q s"
  by (auto simp: queue_state_is_set_def set_queue_state_def clear_queue_state_def)

text \<open>Updates of one thread that keep its links and queue bits.\<close>

lemma ready_links_upd_tcb [simp]:
  "(\<And>y. t_ready_list (f y) = t_ready_list y) \<Longrightarrow> ready_links (upd_tcb t f s) = ready_links s"
  by (auto simp: ready_links_def)

lemma wait_links_upd_tcb [simp]:
  "(\<And>y. t_wait_list (f y) = t_wait_list y) \<Longrightarrow> wait_links (upd_tcb t f s) = wait_links s"
  by (auto simp: wait_links_def)

lemma queue_state_upd_tcb [simp]:
  "(\<And>y. t_queue_state (f y) = t_queue_state y) \<Longrightarrow>
    queue_state_is_set x q (upd_tcb t f s) \<longleftrightarrow> queue_state_is_set x q s"
  by (auto simp: queue_state_is_set_def)

lemma wait_links_simps [simp]:
  "wait_links (upd_wait_links l s) = l" "wait_links (upd_ready_links l s) = wait_links s"
  "wait_links (prio_set p t s) = wait_links s" "wait_links (set_queue_state t q s) = wait_links s"
  "wait_links (clear_queue_state t q s) = wait_links s"
  "wait_links (upd_prioq f s) = wait_links s" "wait_links (upd_sched g s) = wait_links s"
  by (auto simp: wait_links_def)

section \<open>The invariant of the ready queues\<close>

text \<open>The ready queues represent a list of threads per priority: each list is a ring whose threads
  have that priority and are marked ready, every thread marked ready is on the list of its
  priority, and no list above \<^verbatim>\<open>max_prio\<close> holds a thread.\<close>

definition ready_inv :: "kstate \<Rightarrow> (prio_t \<Rightarrow> tcbp list) \<Rightarrow> bool" where
  "ready_inv s rs \<longleftrightarrow>
     (\<forall>p. 0 \<le> p \<and> p \<le> MAX_PRIO \<longrightarrow> queue NULL_tcb (prio_get p s) (ready_links s) (rs p)) \<and>
     (\<forall>p. p < 0 \<or> MAX_PRIO < p \<longrightarrow> rs p = []) \<and>
     (\<forall>p t. t \<in> set (rs p) \<longrightarrow>
        t_priority (tcbs s t) = p \<and> queue_state_is_set t qs_ready s \<and> t \<noteq> Idle_tcb) \<and>
     (\<forall>t. queue_state_is_set t qs_ready s \<longrightarrow> t \<in> set (rs (t_priority (tcbs s t)))) \<and>
     (\<forall>p. pq_max_prio (prioq s) < p \<longrightarrow> rs p = []) \<and> pq_max_prio (prioq s) \<le> MAX_PRIO"

lemma ready_invD:
  assumes "ready_inv s rs"
  shows "0 \<le> p \<Longrightarrow> p \<le> MAX_PRIO \<Longrightarrow> queue NULL_tcb (prio_get p s) (ready_links s) (rs p)"
    and "p < 0 \<or> MAX_PRIO < p \<Longrightarrow> rs p = []"
    and "t \<in> set (rs p) \<Longrightarrow> t_priority (tcbs s t) = p \<and> queue_state_is_set t qs_ready s \<and> t \<noteq> Idle_tcb"
    and "queue_state_is_set t qs_ready s \<Longrightarrow> t \<in> set (rs (t_priority (tcbs s t)))"
    and "pq_max_prio (prioq s) < p \<Longrightarrow> rs p = []"
    and "pq_max_prio (prioq s) \<le> MAX_PRIO"
  using assms by (auto simp: ready_inv_def)

lemma ready_invI:
  assumes "\<And>p. 0 \<le> p \<Longrightarrow> p \<le> MAX_PRIO \<Longrightarrow> queue NULL_tcb (prio_get p s) (ready_links s) (rs p)"
    and "\<And>p. p < 0 \<or> MAX_PRIO < p \<Longrightarrow> rs p = []"
    and "\<And>p t. t \<in> set (rs p) \<Longrightarrow>
      t_priority (tcbs s t) = p \<and> queue_state_is_set t qs_ready s \<and> t \<noteq> Idle_tcb"
    and "\<And>t. queue_state_is_set t qs_ready s \<Longrightarrow> t \<in> set (rs (t_priority (tcbs s t)))"
    and "\<And>p. pq_max_prio (prioq s) < p \<Longrightarrow> rs p = []"
    and "pq_max_prio (prioq s) \<le> MAX_PRIO"
  shows "ready_inv s rs"
  using assms by (simp add: ready_inv_def)

lemma ready_inv_range: "ready_inv s rs \<Longrightarrow> t \<in> set (rs p) \<Longrightarrow> 0 \<le> p \<and> p \<le> MAX_PRIO"
  using ready_invD(2) [of s rs p] by (metis empty_iff empty_set not_le)

lemma ready_inv_disjoint: "ready_inv s rs \<Longrightarrow> p \<noteq> q \<Longrightarrow> set (rs p) \<inter> set (rs q) = {}"
  using ready_invD(3) by (metis disjoint_iff)

lemma ready_inv_distinct: "ready_inv s rs \<Longrightarrow> distinct (rs p)"
  using ready_invD(1,2) [of s rs p] queue_distinct by (metis distinct.simps(1) not_le)

lemma ready_links_simps [simp]:
  "ready_links (prio_set p t s) = ready_links s" "ready_links (upd_ready_links l s) = l"
  "ready_links (set_queue_state t q s) = ready_links s"
  "ready_links (clear_queue_state t q s) = ready_links s"
  "ready_links (upd_prioq f s) = ready_links s" "ready_links (cancel_timeout t s) = ready_links s"
  by (auto simp: ready_links_def)

lemma prio_get_simps [simp]:
  "prio_get p (upd_ready_links l s) = prio_get p s" "prio_get p (set_queue_state t q s) = prio_get p s"
  "prio_get p (clear_queue_state t q s) = prio_get p s"
  "prio_get p (upd_tcb t f s) = prio_get p s"
  "prio_get p (upd_prioq (\<lambda>q. q\<lparr>pq_max_prio := v q\<rparr>) s) = prio_get p s"
  by (auto simp: prio_get_def)

lemma prio_dequeue_inv:
  assumes inv: "ready_inv s rs"
  shows "ready_inv (prio_dequeue t s) (\<lambda>p. remove1 t (rs p))"
proof (cases "queue_state_is_set t qs_ready s")
  case False
  then have "remove1 t (rs p) = rs p" for p
    using ready_invD(3) [OF inv] by (metis remove1_idem)
  then show ?thesis using inv False by (simp add: prio_dequeue_def)
next
  case True
  let ?p = "t_priority (tcbs s t)"
  have tp: "t \<in> set (rs ?p)" using ready_invD(4) [OF inv True] .
  have rng: "0 \<le> ?p" "?p \<le> MAX_PRIO" using ready_inv_range [OF inv tp] by auto
  obtain h l where d: "dequeue_list NULL_tcb (prio_get ?p s) t (ready_links s) = (h, l)" by fastforce
  have e: "prio_dequeue t s = clear_queue_state t qs_ready (prio_set ?p h (upd_ready_links l s))"
    using True d by (simp add: prio_dequeue_def)
  have q: "queue NULL_tcb (if p = ?p then h else prio_get p s) l (remove1 t (rs p))"
    if "0 \<le> p" "p \<le> MAX_PRIO" for p
  proof (cases "p = ?p")
    case False
    then have "t \<notin> set (rs p)" using ready_invD(3) [OF inv] by metis
    then show ?thesis
      using False rq.deq_other [OF ready_invD(1) [OF inv rng] ready_invD(1) [OF inv that] tp _ d]
        ready_inv_disjoint [OF inv, of ?p p] by (simp add: remove1_idem)
  qed (use dequeue_remove1 [OF ready_invD(1) [OF inv rng] tp d] in simp)
  have nt: "x \<in> set (remove1 t (rs p)) \<longleftrightarrow> x \<in> set (rs p) \<and> x \<noteq> t" for x p
    using ready_inv_distinct [OF inv, of p] by (simp add: set_remove1_eq)
  show ?thesis
  proof (rule ready_invI)
    show "queue NULL_tcb (prio_get p (prio_dequeue t s)) (ready_links (prio_dequeue t s))
        (remove1 t (rs p))" if "0 \<le> p" "p \<le> MAX_PRIO" for p
      using q [OF that] by (auto simp: e split: if_split_asm)
    show "x \<in> set (remove1 t (rs p)) \<Longrightarrow> t_priority (tcbs (prio_dequeue t s) x) = p \<and>
        queue_state_is_set x qs_ready (prio_dequeue t s) \<and> x \<noteq> Idle_tcb" for p x
      using ready_invD(3) [OF inv, of x p] nt by (simp add: e)
    show "queue_state_is_set x qs_ready (prio_dequeue t s) \<Longrightarrow>
        x \<in> set (remove1 t (rs (t_priority (tcbs (prio_dequeue t s) x))))" for x
      using ready_invD(4) [OF inv, of x] nt by (simp add: e)
  qed (simp_all add: ready_invD(2,5,6) [OF inv])
qed

lemma prio_enqueue_inv:
  assumes inv: "ready_inv s rs" and "t \<noteq> NULL_tcb" and "t \<noteq> Idle_tcb"
    and rng: "0 \<le> t_priority (tcbs s t)" "t_priority (tcbs s t) \<le> MAX_PRIO"
  shows "ready_inv (prio_enqueue t b s)
    (if queue_state_is_set t qs_ready s then rs
     else rs(t_priority (tcbs s t) :=
       if b then t # rs (t_priority (tcbs s t)) else rs (t_priority (tcbs s t)) @ [t]))"
proof (cases "queue_state_is_set t qs_ready s")
  case True
  then show ?thesis using inv by (simp add: prio_enqueue_def)
next
  case False
  let ?p = "t_priority (tcbs s t)"
  let ?xs = "if b then t # rs ?p else rs ?p @ [t]"
  obtain h l where d: "(if b then enqueue_list_head NULL_tcb (prio_get ?p s) t (ready_links s)
      else enqueue_list_tail NULL_tcb (prio_get ?p s) t (ready_links s)) = (h, l)" by fastforce
  have e: "prio_enqueue t b s = upd_prioq (\<lambda>q. q\<lparr>pq_max_prio := max ?p (pq_max_prio q)\<rparr>)
      (set_queue_state t qs_ready (prio_set ?p h (upd_ready_links l s)))"
    using False d by (simp add: prio_enqueue_def Let_def)
  have nt: "t \<notin> set (rs p)" for p using False ready_invD(3) [OF inv] by blast
  note qp = ready_invD(1) [OF inv rng]
  have q: "queue NULL_tcb (if p = ?p then h else prio_get p s) l ((rs(?p := ?xs)) p)"
    if "0 \<le> p" "p \<le> MAX_PRIO" for p
  proof (cases "p = ?p")
    case True
    then show ?thesis
      using enqueue_head_Cons [OF qp nt assms(2)] enqueue_tail_snoc [OF qp nt assms(2)] d
      by (auto split: if_splits)
  next
    case False
    then have "set (rs ?p) \<inter> set (rs p) = {}" using ready_inv_disjoint [OF inv, of ?p p] by simp
    then show ?thesis
      using False d rq.enq_head_other [OF qp ready_invD(1) [OF inv that] nt]
        rq.enq_tail_other [OF qp ready_invD(1) [OF inv that] nt]
      by (auto split: if_splits)
  qed
  have "ready_inv (prio_enqueue t b s) (rs(?p := ?xs))"
  proof (rule ready_invI)
    show "queue NULL_tcb (prio_get p (prio_enqueue t b s)) (ready_links (prio_enqueue t b s))
        ((rs(?p := ?xs)) p)" if "0 \<le> p" "p \<le> MAX_PRIO" for p
      using q [OF that] by (auto simp: e split: if_split_asm)
    show "p < 0 \<or> MAX_PRIO < p \<Longrightarrow> (rs(?p := ?xs)) p = []" for p
      using ready_invD(2) [OF inv, of p] rng by auto
    show "x \<in> set ((rs(?p := ?xs)) p) \<Longrightarrow> t_priority (tcbs (prio_enqueue t b s) x) = p \<and>
        queue_state_is_set x qs_ready (prio_enqueue t b s) \<and> x \<noteq> Idle_tcb" for p x
      using ready_invD(3) [OF inv, of x p] assms(3) by (auto simp: e split: if_splits)
    show "queue_state_is_set x qs_ready (prio_enqueue t b s) \<Longrightarrow>
        x \<in> set ((rs(?p := ?xs)) (t_priority (tcbs (prio_enqueue t b s) x)))" for x
      using ready_invD(4) [OF inv, of x] by (auto simp: e)
    show "pq_max_prio (prioq (prio_enqueue t b s)) < p \<Longrightarrow> (rs(?p := ?xs)) p = []" for p
      using ready_invD(5) [OF inv, of p] by (simp add: e)
    show "pq_max_prio (prioq (prio_enqueue t b s)) \<le> MAX_PRIO"
      using ready_invD(6) [OF inv] rng by (simp add: e)
  qed
  then show ?thesis using False by simp
qed

section \<open>Finding the next thread\<close>

text \<open>What a search of the ready queues may change: links and queue bits, and the scheduler object
  apart from the wakeup list and the clock.\<close>

definition erase_ready :: "tcb_t \<Rightarrow> tcb_t" where
  "erase_ready x = x\<lparr>t_ready_list := \<lparr>rl_next = NULL_tcb, rl_prev = NULL_tcb\<rparr>, t_queue_state := 0\<rparr>"

definition ready_frame :: "kstate \<Rightarrow> kstate \<Rightarrow> bool" where
  "ready_frame s s' \<longleftrightarrow>
     (\<forall>x. erase_ready (tcbs s' x) = erase_ready (tcbs s x)) \<and>
     s'\<lparr>tcbs := tcbs s, scheduler := scheduler s\<rparr> = s \<and> wakeup_list s' = wakeup_list s \<and>
     sc_current_time (scheduler s') = sc_current_time (scheduler s)"

lemma ready_frame_refl [simp]: "ready_frame s s"
  by (simp add: ready_frame_def)

lemma ready_frame_trans [trans]: "ready_frame s s' \<Longrightarrow> ready_frame s' s'' \<Longrightarrow> ready_frame s s''"
  unfolding ready_frame_def by (cases s; cases s'; cases s'') auto

lemma ready_frame_tcb:
  assumes "ready_frame s s'"
  shows "t_thread_state (tcbs s' x) = t_thread_state (tcbs s x)"
    and "t_priority (tcbs s' x) = t_priority (tcbs s x)"
    and "t_wait_list (tcbs s' x) = t_wait_list (tcbs s x)"
    and "t_absolute_timeout (tcbs s' x) = t_absolute_timeout (tcbs s x)"
    and "t_flags (tcbs s' x) = t_flags (tcbs s x)"
proof -
  have e: "erase_ready (tcbs s' x) = erase_ready (tcbs s x)" using assms by (simp add: ready_frame_def)
  show "t_thread_state (tcbs s' x) = t_thread_state (tcbs s x)"
    using arg_cong [OF e, of t_thread_state] by (simp add: erase_ready_def)
  show "t_priority (tcbs s' x) = t_priority (tcbs s x)"
    using arg_cong [OF e, of t_priority] by (simp add: erase_ready_def)
  show "t_wait_list (tcbs s' x) = t_wait_list (tcbs s x)"
    using arg_cong [OF e, of t_wait_list] by (simp add: erase_ready_def)
  show "t_absolute_timeout (tcbs s' x) = t_absolute_timeout (tcbs s x)"
    using arg_cong [OF e, of t_absolute_timeout] by (simp add: erase_ready_def)
  show "t_flags (tcbs s' x) = t_flags (tcbs s x)"
    using arg_cong [OF e, of t_flags] by (simp add: erase_ready_def)
qed

lemma ready_frame_state: "ready_frame s s' \<Longrightarrow> get_state x s' = get_state x s"
  by (simp add: get_state_def ready_frame_tcb)

lemma ready_frame_ops:
  "ready_frame s (prio_dequeue t s)" "ready_frame s (prio_enqueue t b s)" "ready_frame s (prio_set p t s)"
  "ready_frame s (upd_prioq f s)"
  by (auto simp: ready_frame_def erase_ready_def prio_dequeue_def prio_enqueue_def prio_set_def
      set_queue_state_def clear_queue_state_def upd_prioq_def upd_sched_def upd_tcb_def
      upd_ready_links_def Let_def split_def)

abbreviation stuck :: "kstate \<Rightarrow> tcbp \<Rightarrow> bool" where "stuck s x \<equiv> \<not> is_runnable (get_state x s)"

lemma find_in_prio_spec:
  assumes "ready_inv s rs" and "0 \<le> p" and "p \<le> MAX_PRIO" and "\<forall>q>p. rs q = []"
  shows "\<exists>s'. find_in_prio p (prio_get p s) s =
      Some (case dropWhile (stuck s) (rs p) of [] \<Rightarrow> None | t # _ \<Rightarrow> Some t, s') \<and>
    ready_inv s' (rs(p := dropWhile (stuck s) (rs p))) \<and> ready_frame s s'"
  using assms
proof (induction "rs p" arbitrary: s rs)
  case Nil
  then have "prio_get p s = NULL_tcb" using ready_invD(1) [OF Nil.prems(1-3)] by simp
  then show ?case using Nil by (auto simp: find_in_prio.simps fun_upd_idem)
next
  case (Cons t ts)
  have q: "queue NULL_tcb (prio_get p s) (ready_links s) (t # ts)"
    using ready_invD(1) [OF Cons.prems(1-3)] Cons.hyps(2) by simp
  then have h: "prio_get p s = t" "t \<noteq> NULL_tcb" by (auto simp: queue_Cons)
  show ?case
  proof (cases "stuck s t")
    case False
    let ?s = "upd_prioq (\<lambda>q. q\<lparr>pq_max_prio := p\<rparr>) (prio_set p t s)"
    have "ready_inv ?s rs"
      using Cons.prems h ready_invD [OF Cons.prems(1)] by (intro ready_invI) auto
    moreover have "ready_frame s ?s" by (rule ready_frame_trans [OF ready_frame_ops(3,4)])
    ultimately show ?thesis
      using False h Cons.hyps(2) by (subst find_in_prio.simps) (auto simp: fun_upd_idem Cons.hyps(2) [symmetric])
  next
    case True
    let ?s = "prio_dequeue t s" and ?rs = "\<lambda>q. remove1 t (rs q)"
    have inv: "ready_inv ?s ?rs" by (rule prio_dequeue_inv [OF Cons.prems(1)])
    have ts: "ts = ?rs p" using Cons.hyps(2) [symmetric] by simp
    have "\<forall>q>p. ?rs q = []" using Cons.prems(4) by simp
    from Cons.hyps(1) [OF ts inv Cons.prems(2,3) this] obtain s' where s':
      "find_in_prio p (prio_get p ?s) ?s =
        Some (case dropWhile (stuck ?s) ts of [] \<Rightarrow> None | t # _ \<Rightarrow> Some t, s')"
      "ready_inv s' (?rs(p := dropWhile (stuck ?s) ts))" "ready_frame ?s s'" unfolding ts by blast
    have "?rs q = rs q" if "q \<noteq> p" for q
      using ready_inv_disjoint [OF Cons.prems(1) that] Cons.hyps(2) [symmetric] by (auto simp: remove1_idem)
    then have rs: "?rs(p := xs) = rs(p := xs)" for xs by auto
    have st: "get_state x ?s = get_state x s" for x by (simp add: get_state_def)
    have "find_in_prio p (prio_get p s) s = find_in_prio p (prio_get p ?s) ?s"
      using True h by (subst find_in_prio.simps) (simp add: Let_def)
    then show ?thesis
      using s' True Cons.hyps(2) [symmetric] ready_frame_trans [OF ready_frame_ops(1) s'(3)] by (auto simp: rs st)
  qed
qed

text \<open>The abstract search: \<^term>\<open>t\<close> is the first runnable thread of the highest priority
  that has one (the idle thread if there is none), and the queues \<^term>\<open>rs'\<close> that remain.\<close>

definition next_ready :: "kstate \<Rightarrow> (prio_t \<Rightarrow> tcbp list) \<Rightarrow> tcbp \<Rightarrow> (prio_t \<Rightarrow> tcbp list) \<Rightarrow> bool" where
  "next_ready s rs t rs' \<longleftrightarrow>
     (if t = Idle_tcb then (\<forall>q. \<forall>x \<in> set (rs q). stuck s x) \<and> (\<forall>q. rs' q = [])
      else is_runnable (get_state t s) \<and> t \<in> set (rs (get_priority t s)) \<and>
        (\<forall>q > get_priority t s. (\<forall>x \<in> set (rs q). stuck s x) \<and> rs' q = []) \<and>
        rs' (get_priority t s) = dropWhile (stuck s) (rs (get_priority t s)) \<and>
        hd (rs' (get_priority t s)) = t \<and>
        (\<forall>q < get_priority t s. rs' q = rs q))"

lemma find_from_spec:
  assumes "ready_inv s rs" and "p \<le> MAX_PRIO" and "\<forall>q>p. rs q = []"
  shows "\<exists>t s' rs'. find_from p s = Some (t, s') \<and> ready_inv s' rs' \<and> ready_frame s s' \<and>
    next_ready s rs t rs'"
  using assms
proof (induction p s arbitrary: rs rule: find_from.induct)
  case (1 p s)
  show ?case
  proof (cases "p \<ge> 0")
    case False
    then have e: "rs q = []" for q using "1.prems"(3) ready_invD(2) [OF "1.prems"(1), of q] by (cases "q < 0") auto
    let ?s = "upd_prioq (\<lambda>q. q\<lparr>pq_max_prio := -1\<rparr>) s"
    have "ready_inv ?s rs"
      using ready_invD [OF "1.prems"(1)] e by (intro ready_invI) (auto simp: MAX_PRIO_def)
    then have "find_from p s = Some (Idle_tcb, ?s) \<and> ready_inv ?s rs \<and> ready_frame s ?s \<and>
        next_ready s rs Idle_tcb rs"
      using False e by (simp add: find_from.simps next_ready_def ready_frame_ops)
    then show ?thesis by blast
  next
    case True
    let ?xs = "dropWhile (stuck s) (rs p)"
    obtain s1 where s1: "find_in_prio p (prio_get p s) s =
        Some (case ?xs of [] \<Rightarrow> None | t # _ \<Rightarrow> Some t, s1)"
      "ready_inv s1 (rs(p := ?xs))" "ready_frame s s1"
      using find_in_prio_spec [OF "1.prems"(1) True "1.prems"(2,3)] by blast
    show ?thesis
    proof (cases ?xs)
      case (Cons t ts)
      then have t: "t \<in> set (rs p)" "\<not> stuck s t"
        using hd_dropWhile [of "stuck s" "rs p"] set_dropWhileD [of t "stuck s" "rs p"] by auto
      then have "get_priority t s = p" "t \<noteq> Idle_tcb"
        using ready_invD(3) [OF "1.prems"(1), of t p] by (auto simp: get_priority_def)
      then have "next_ready s rs t (rs(p := ?xs))"
        using t Cons "1.prems"(3) by (simp add: next_ready_def)
      moreover have "find_from p s = Some (t, s1)"
        using True s1(1) Cons by (subst find_from.simps) simp
      ultimately show ?thesis using s1 by blast
    next
      case Nil
      let ?rs = "rs(p := [])"
      have step: "find_from p s = find_from (p - 1) s1"
        using True s1(1) Nil by (subst find_from.simps) simp
      have inv1: "ready_inv s1 ?rs" using s1(2) unfolding Nil .
      have "\<forall>q>p - 1. ?rs q = []" using "1.prems"(3) by auto
      then obtain t s' rs' where r: "find_from (p - 1) s1 = Some (t, s')" "ready_inv s' rs'"
        "ready_frame s1 s'" "next_ready s1 ?rs t rs'"
        using "1.IH" [OF True s1(1), of None s1 ?rs] Nil inv1 "1.prems"(2)
        by (auto simp del: fun_upd_apply)
      have "next_ready s rs t rs'"
        using r(4) Nil "1.prems"(3) unfolding next_ready_def get_priority_def
        by (auto simp: ready_frame_state [OF s1(3)] ready_frame_tcb [OF s1(3)] dropWhile_eq_Nil_conv
            split: if_splits)
      then show ?thesis using r step ready_frame_trans [OF s1(3) r(3)] by auto
    qed
  qed
qed

definition can_be_ready :: "kstate \<Rightarrow> tcbp \<Rightarrow> bool" where
  "can_be_ready s t \<longleftrightarrow> t \<noteq> NULL_tcb \<and> t \<noteq> Idle_tcb \<and> 0 \<le> t_priority (tcbs s t) \<and> t_priority (tcbs s t) \<le> MAX_PRIO"

lemma ready_inv_cong:
  assumes "ready_inv s rs" and "\<And>p. prio_get p s' = prio_get p s" and "ready_links s' = ready_links s"
    and "\<And>x. t_priority (tcbs s' x) = t_priority (tcbs s x)"
    and "\<And>x. queue_state_is_set x qs_ready s' \<longleftrightarrow> queue_state_is_set x qs_ready s"
    and "pq_max_prio (prioq s') = pq_max_prio (prioq s)"
  shows "ready_inv s' rs"
  using assms by (simp add: ready_inv_def)

text \<open>An update of scheduling parameters other than the priority keeps the ready queues.\<close>

lemma ready_inv_upd_tcb:
  assumes "ready_inv s rs" and "\<And>y. t_ready_list (f y) = t_ready_list y"
    and "\<And>y. t_queue_state (f y) = t_queue_state y" and "\<And>y. t_priority (f y) = t_priority y"
  shows "ready_inv (upd_tcb t f s) rs"
  by (rule ready_inv_cong [OF assms(1)]) (simp_all add: assms)

text \<open>A concrete state: two threads of priority 0 are ready, the first of them blocked.\<close>

definition two_threads :: kstate where
  "two_threads = prio_enqueue (Tcb 2) False (prio_enqueue (Tcb 1) False (set_state (Tcb 2) running blank_state))"

lemma two_threads_inv: "ready_inv two_threads (\<lambda>p. if p = 0 then [Tcb 1, Tcb 2] else [])"
proof -
  let ?s = "set_state (Tcb 2) running blank_state"
  have s0: "ready_inv blank_state (\<lambda>_. [])"
    by (rule ready_invI) (simp_all add: blank_state_def blank_tcb_def prio_get_def queue_state_is_set_def
        qstate_is_set_def MAX_PRIO_def)
  have "ready_inv ?s (\<lambda>_. [])"
    unfolding set_state_def by (rule ready_inv_upd_tcb [OF s0]) simp_all
  moreover have nr: "\<not> queue_state_is_set x qs_ready ?s" for x
    by (simp add: set_state_def queue_state_is_set_def blank_state_def blank_tcb_def qstate_is_set_def)
  moreover have pr: "t_priority (tcbs ?s x) = 0" for x
    by (simp add: set_state_def blank_state_def blank_tcb_def)
  ultimately have s1: "ready_inv (prio_enqueue (Tcb 1) False ?s) ((\<lambda>_. [])(0 := [Tcb 1]))"
    using prio_enqueue_inv [of ?s "\<lambda>_. []" "Tcb 1" False] by (simp add: MAX_PRIO_def)
  have "\<not> queue_state_is_set (Tcb 2) qs_ready (prio_enqueue (Tcb 1) False ?s)"
    using nr by (simp add: prio_enqueue_def Let_def split_def)
  then have "ready_inv two_threads ((\<lambda>_. [])(0 := [Tcb 1, Tcb 2]))"
    using prio_enqueue_inv [OF s1, of "Tcb 2" False] pr by (simp add: two_threads_def MAX_PRIO_def)
  then show ?thesis unfolding fun_upd_def .
qed

lemma two_threads_tcb:
  "t_priority (tcbs two_threads x) = 0" "t_sensitive_prio (tcbs two_threads x) = 0"
  "get_state x two_threads = (if x = Tcb 2 then running else aborted)"
  "t_absolute_timeout (tcbs two_threads x) = 0" "t_flags (tcbs two_threads x) = 0"
  "current_tcb two_threads = Idle_tcb" "wakeup_list two_threads = NULL_tcb"
  "get_current_time two_threads = 0"
  by (simp_all add: two_threads_def get_state_def set_state_def blank_state_def blank_tcb_def get_current_time_def)



section \<open>Waking up threads whose timeout has expired\<close>

text \<open>The wakeup list represents \<^term>\<open>ws\<close>: a ring of exactly the threads marked for wakeup.\<close>

definition wakeup_inv :: "kstate \<Rightarrow> tcbp list \<Rightarrow> bool" where
  "wakeup_inv s ws \<longleftrightarrow> queue NULL_tcb (wakeup_list s) (wait_links s) ws \<and>
     (\<forall>t. queue_state_is_set t qs_wakeup s \<longleftrightarrow> t \<in> set ws)"

abbreviation expired :: "kstate \<Rightarrow> tcbp \<Rightarrow> bool" where
  "expired s t \<equiv> has_timeout_expired t (get_current_time s) s"

text \<open>A thread that left its timed wait by the fast path and waits forever now.\<close>

definition lazy_wait :: "kstate \<Rightarrow> tcbp \<Rightarrow> bool" where
  "lazy_wait s t \<longleftrightarrow> is_waiting_forever (get_state t s) \<and> \<not> flag_is_set t has_xfer_timeout s"

definition woken :: "tcb_t \<Rightarrow> tcb_t" where
  "woken x =
     (if is_sending (t_thread_state x) \<or> is_receiving (t_thread_state x)
      then x\<lparr>t_flags := bitmask_sub (t_flags x) has_xfer_timeout,
             t_stack := Notify1 Handle_ipc_timeout (t_thread_state x) # t_stack x,
             t_thread_state := running\<rparr>
      else x\<lparr>t_flags := bitmask_sub (t_flags x) has_xfer_timeout, t_thread_state := running\<rparr>)"

definition erase_lists :: "tcb_t \<Rightarrow> tcb_t" where
  "erase_lists x = (erase_ready x)\<lparr>t_wait_list := \<lparr>rl_next = NULL_tcb, rl_prev = NULL_tcb\<rparr>\<rparr>"

lemma wakeup_thread_sel [simp]:
  "t_myself_global (tcbs (wakeup_thread t s) x) = t_myself_global (tcbs s x)"
  "t_myself_local (tcbs (wakeup_thread t s) x) = t_myself_local (tcbs s x)"
  "t_cpu (tcbs (wakeup_thread t s) x) = t_cpu (tcbs s x)"
  "t_utcb (tcbs (wakeup_thread t s) x) = t_utcb (tcbs s x)"
  "t_partner (tcbs (wakeup_thread t s) x) = t_partner (tcbs s x)"
  "t_resource_bits (tcbs (wakeup_thread t s) x) = t_resource_bits (tcbs s x)"
  "t_send_list (tcbs (wakeup_thread t s) x) = t_send_list (tcbs s x)"
  "t_send_head (tcbs (wakeup_thread t s) x) = t_send_head (tcbs s x)"
  "t_total_quantum (tcbs (wakeup_thread t s) x) = t_total_quantum (tcbs s x)"
  "t_timeslice_length (tcbs (wakeup_thread t s) x) = t_timeslice_length (tcbs s x)"
  "t_current_timeslice (tcbs (wakeup_thread t s) x) = t_current_timeslice (tcbs s x)"
  "t_absolute_timeout (tcbs (wakeup_thread t s) x) = t_absolute_timeout (tcbs s x)"
  "t_priority (tcbs (wakeup_thread t s) x) = t_priority (tcbs s x)"
  "t_sensitive_prio (tcbs (wakeup_thread t s) x) = t_sensitive_prio (tcbs s x)"
  "t_current_max_delay (tcbs (wakeup_thread t s) x) = t_current_max_delay (tcbs s x)"
  "t_max_delay (tcbs (wakeup_thread t s) x) = t_max_delay (tcbs s x)"
  "t_scheduler (tcbs (wakeup_thread t s) x) = t_scheduler (tcbs s x)"
  "t_space (tcbs (wakeup_thread t s) x) = t_space (tcbs s x)"
  "t_int_mask (tcbs (wakeup_thread t s) x) = t_int_mask (tcbs s x)"
  "t_misc (tcbs (wakeup_thread t s) x) = t_misc (tcbs s x)"
  "t_saved_partner (tcbs (wakeup_thread t s) x) = t_saved_partner (tcbs s x)"
  "t_saved_state (tcbs (wakeup_thread t s) x) = t_saved_state (tcbs s x)"
  "t_fpu_fpcsr (tcbs (wakeup_thread t s) x) = t_fpu_fpcsr (tcbs s x)"
  "t_user_epc (tcbs (wakeup_thread t s) x) = t_user_epc (tcbs s x)"
  "t_user_sp (tcbs (wakeup_thread t s) x) = t_user_sp (tcbs s x)"
  "t_user_status (tcbs (wakeup_thread t s) x) = t_user_status (tcbs s x)"
  "utcbs (wakeup_thread t s) = utcbs s" "current_tcb (wakeup_thread t s) = current_tcb s"
  "kip (wakeup_thread t s) = kip s" "sigma0_space (wakeup_thread t s) = sigma0_space s"
  "sigma1_space (wakeup_thread t s) = sigma1_space s"
  "roottask_space (wakeup_thread t s) = roottask_space s"
  "kernel_space (wakeup_thread t s) = kernel_space s"
  "idle_space (wakeup_thread t s) = idle_space s"
  "fp_lazy_tcb (wakeup_thread t s) = fp_lazy_tcb s" "kmem (wakeup_thread t s) = kmem s"
  "asid_cache (wakeup_thread t s) = asid_cache s"
  "sc_current_time (scheduler (wakeup_thread t s)) = sc_current_time (scheduler s)"
  by (auto simp: wakeup_thread_def Let_def sub_flag_def notify1_def set_state_def enqueue_ready_def)

lemma prio_ops_wait [simp]:
  "wait_links (prio_enqueue t b s) = wait_links s" "wait_links (prio_dequeue t s) = wait_links s"
  "queue_state_is_set x qs_wakeup (prio_enqueue t b s) \<longleftrightarrow> queue_state_is_set x qs_wakeup s"
  by (auto simp: prio_enqueue_def prio_dequeue_def Let_def split_def)

lemma cancel_timeout_inv:
  assumes "wakeup_inv s ws" and "t \<in> set ws"
  shows "wakeup_inv (cancel_timeout t s) (remove1 t ws)"
proof -
  have q: "queue NULL_tcb (wakeup_list s) (wait_links s) ws" and b: "queue_state_is_set t qs_wakeup s"
    using assms by (auto simp: wakeup_inv_def)
  obtain h l where d: "dequeue_list NULL_tcb (wakeup_list s) t (wait_links s) = (h, l)" by fastforce
  have "set (remove1 t ws) = set ws - {t}" using queue_distinct [OF q] by (rule set_remove1_eq)
  then show ?thesis
    using assms(1) b d dequeue_remove1 [OF q assms(2) d]
    by (auto simp: wakeup_inv_def cancel_timeout_def)
qed

lemma wakeup_thread_cancel:
  "wakeup_list (wakeup_thread t s) = wakeup_list (cancel_timeout t s)"
  "wait_links (wakeup_thread t s) = wait_links (cancel_timeout t s)"
  "queue_state_is_set x qs_wakeup (wakeup_thread t s) \<longleftrightarrow> queue_state_is_set x qs_wakeup (cancel_timeout t s)"
  by (simp_all add: wakeup_thread_def Let_def enqueue_ready_def sub_flag_def notify1_def set_state_def)

lemma wakeup_thread_inv:
  "wakeup_inv s ws \<Longrightarrow> t \<in> set ws \<Longrightarrow> wakeup_inv (wakeup_thread t s) (remove1 t ws)"
  using cancel_timeout_inv by (simp add: wakeup_inv_def wakeup_thread_cancel)

lemma erase_cancel_timeout: "erase_lists (tcbs (cancel_timeout t s) x) = erase_lists (tcbs s x)"
  by (simp add: erase_lists_def erase_ready_def cancel_timeout_def clear_queue_state_def Let_def split_def)

lemma erase_prio_enqueue: "erase_lists (tcbs (prio_enqueue t b s) x) = erase_lists (tcbs s x)"
  using ready_frame_ops(2) [of s t b] by (simp add: erase_lists_def ready_frame_def)

lemma erase_woken_cong:
  assumes "erase_lists x = erase_lists y"
  shows "erase_lists (woken x) = erase_lists (woken y)"
proof -
  have "t_thread_state x = t_thread_state y" "t_flags x = t_flags y" "t_stack x = t_stack y"
    using arg_cong [OF assms, of t_thread_state] arg_cong [OF assms, of t_flags]
      arg_cong [OF assms, of t_stack] by (simp_all add: erase_lists_def erase_ready_def)
  then show ?thesis using assms by (cases x; cases y) (simp add: woken_def erase_lists_def erase_ready_def)
qed

lemma erase_wakeup_thread:
  "erase_lists (tcbs (wakeup_thread t s) x) =
     (if x = t then erase_lists (woken (tcbs s t)) else erase_lists (tcbs s x))"
  using erase_cancel_timeout [of t s x] erase_woken_cong [OF erase_cancel_timeout [of t s t]]
  by (auto simp: wakeup_thread_def Let_def enqueue_ready_def erase_prio_enqueue sub_flag_def
      notify1_def set_state_def get_state_def woken_def)

end
