(* ===== verification/Wakeup.thy ===== *)
theory Wakeup
  imports Scheduler
begin

text \<open>
  The correctness of \<^verbatim>\<open>scheduler_t::parse_wakeup_queues\<close>: the walk over the wakeup ring that
  the timer interrupt makes.  The walk removes threads from the ring it walks on; that it ends, and
  that it wakes up exactly the expired threads, is shown by induction on the length of the ring and the
  number of threads ahead of the cursor.
\<close>

definition wakes :: "kstate \<Rightarrow> tcbp \<Rightarrow> bool" where
  "wakes s t \<longleftrightarrow> expired s t \<and> \<not> lazy_wait s t"

definition best_wakeup :: "kstate \<Rightarrow> tcbp \<Rightarrow> tcbp list \<Rightarrow> tcbp" where
  "best_wakeup s h ts = foldl (\<lambda>h t. if check_dispatch_thread h t s then t else h) h ts"

text \<open>What waking up leaves alone, and what every decision of the loop depends on.\<close>

definition wakeup_frame :: "kstate \<Rightarrow> kstate \<Rightarrow> bool" where
  "wakeup_frame s s' \<longleftrightarrow> utcbs s' = utcbs s \<and> current_tcb s' = current_tcb s \<and>
     get_current_time s' = get_current_time s \<and> kmem s' = kmem s \<and>
     pq_current_timeslice (prioq s') = pq_current_timeslice (prioq s) \<and>
     (\<forall>x. t_priority (tcbs s' x) = t_priority (tcbs s x) \<and>
       t_sensitive_prio (tcbs s' x) = t_sensitive_prio (tcbs s x) \<and>
       t_current_max_delay (tcbs s' x) = t_current_max_delay (tcbs s x) \<and>
       t_utcb (tcbs s' x) = t_utcb (tcbs s x) \<and>
       t_absolute_timeout (tcbs s' x) = t_absolute_timeout (tcbs s x))"

lemma wakeup_frame_trans: "wakeup_frame s s' \<Longrightarrow> wakeup_frame s' s'' \<Longrightarrow> wakeup_frame s s''"
  by (simp add: wakeup_frame_def)

lemma wakeup_frame_cong:
  assumes "wakeup_frame s s'"
  shows "check_dispatch_thread h t s' = check_dispatch_thread h t s"
    and "best_wakeup s' h ts = best_wakeup s h ts"
    and "expired s' t = expired s t"
proof -
  show c: "check_dispatch_thread h t s' = check_dispatch_thread h t s" for h t
    using assms by (simp add: wakeup_frame_def check_dispatch_thread_def delay_preemption_def
        get_preempt_flags_def get_utcb_def get_priority_def get_sensitive_prio_def)
  show "best_wakeup s' h ts = best_wakeup s h ts" by (simp add: best_wakeup_def c)
  show "expired s' t = expired s t"
    using assms by (simp add: wakeup_frame_def has_timeout_expired_def)
qed

text \<open>One iteration: the thread under the cursor leaves the list iff its timeout has expired.\<close>

definition wakeup_step :: "kstate \<Rightarrow> tcbp \<Rightarrow> kstate" where
  "wakeup_step s t = (if \<not> expired s t then s else if lazy_wait s t then cancel_timeout t s else wakeup_thread t s)"

lemma wakeup_thread_slice: "pq_current_timeslice (prioq (wakeup_thread t s)) = pq_current_timeslice (prioq s)"
  by (simp add: wakeup_thread_def Let_def enqueue_ready_def prio_enqueue_def split_def prio_set_def cancel_timeout_def
      notify1_def sub_flag_def set_state_def)

lemma wakeup_step_frame: "wakeup_frame s (wakeup_step s t)"
  by (simp add: wakeup_frame_def wakeup_step_def get_current_time_def wakeup_thread_slice)

lemma wakeup_step_inv:
  "wakeup_inv s ws \<Longrightarrow> t \<in> set ws \<Longrightarrow>
    wakeup_inv (wakeup_step s t) (if expired s t then remove1 t ws else ws)"
  by (simp add: wakeup_step_def cancel_timeout_inv wakeup_thread_inv)

lemma wakeup_step_erase:
  "erase_lists (tcbs (wakeup_step s t) x) =
     (if x = t \<and> wakes s t then erase_lists (woken (tcbs s t)) else erase_lists (tcbs s x))"
  by (auto simp: wakeup_step_def wakes_def erase_cancel_timeout erase_wakeup_thread)

lemma wakes_erase:
  assumes "wakeup_frame s s'" and "erase_lists (tcbs s' x) = erase_lists (tcbs s x)"
  shows "wakes s' x = wakes s x"
proof -
  have "t_thread_state (tcbs s' x) = t_thread_state (tcbs s x)" "t_flags (tcbs s' x) = t_flags (tcbs s x)"
    using arg_cong [OF assms(2), of t_thread_state] arg_cong [OF assms(2), of t_flags]
    by (simp_all add: erase_lists_def erase_ready_def)
  then show ?thesis
    using wakeup_frame_cong(3) [OF assms(1)] by (simp add: wakes_def lazy_wait_def get_state_def flag_is_set_def)
qed

lemma wakeup_loop_step:
  "wakeup_loop highest t s =
     (let highest1 = (if wakes s t \<and> check_dispatch_thread highest t s then t else highest);
          t1 = rl_next (wait_links s t); s1 = wakeup_step s t
      in if wakeup_list s1 \<noteq> NULL_tcb \<and> (t1 \<noteq> wakeup_list s1 \<or> expired s t)
         then wakeup_loop highest1 t1 s1 else Some (highest1, s1))"
  by (subst wakeup_loop.simps) (auto simp: Let_def wakeup_step_def wakes_def lazy_wait_def)

lemma queue_next:
  assumes "queue null h l (as @ t # bs)"
  shows "rl_next (l t) = (case bs @ as of [] \<Rightarrow> t | y # _ \<Rightarrow> y)"
  using queue_rotate [OF assms] by (cases "bs @ as") (auto simp: queue_Cons)

text \<open>Waking up a thread appends it to the ready queue of its priority unless it is on it.\<close>

lemma cancel_timeout_ready: "ready_inv s rs \<Longrightarrow> ready_inv (cancel_timeout t s) rs"
  by (erule ready_inv_cong) (simp_all add: ready_links_def prio_get_def cancel_timeout_def Let_def split_def)

lemma prio_enqueue_sets:
  assumes "ready_inv s rs" and "can_be_ready s t"
  shows "\<exists>rs'. ready_inv (prio_enqueue t b s) rs' \<and>
    (\<forall>p. set (rs' p) = set (rs p) \<union> (if t_priority (tcbs s t) = p then {t} else {}))"
proof (intro exI conjI allI)
  show "ready_inv (prio_enqueue t b s) (if queue_state_is_set t qs_ready s then rs
     else rs(t_priority (tcbs s t) :=
       if b then t # rs (t_priority (tcbs s t)) else rs (t_priority (tcbs s t)) @ [t]))"
    using prio_enqueue_inv [OF assms(1)] assms(2) unfolding can_be_ready_def by blast
qed (use ready_invD(4) [OF assms(1), of t] in auto)

lemma wakeup_step_ready:
  assumes "ready_inv s rs" and "wakes s t \<Longrightarrow> can_be_ready s t"
  shows "\<exists>rs'. ready_inv (wakeup_step s t) rs' \<and>
    (\<forall>p. set (rs' p) = set (rs p) \<union> (if wakes s t \<and> t_priority (tcbs s t) = p then {t} else {}))"
proof (cases "wakes s t")
  case False
  then show ?thesis using assms(1) cancel_timeout_ready by (auto simp: wakeup_step_def wakes_def)
next
  case True
  let ?s1 = "sub_flag t has_xfer_timeout (cancel_timeout t s)"
  let ?s2 = "if is_sending (get_state t ?s1) \<or> is_receiving (get_state t ?s1)
    then notify1 t Handle_ipc_timeout (get_state t ?s1) ?s1 else ?s1"
  let ?s3 = "set_state t running ?s2"
  have e: "wakeup_step s t = prio_enqueue t False ?s3"
    using True by (simp add: wakeup_step_def wakes_def wakeup_thread_def Let_def enqueue_ready_def)
  have pr: "t_priority (tcbs ?s3 x) = t_priority (tcbs s x)" for x
    by (simp add: set_state_def notify1_def sub_flag_def)
  have "ready_inv ?s3 rs"
    by (rule ready_inv_cong [OF cancel_timeout_ready [OF assms(1), of t]])
      (simp_all add: set_state_def notify1_def sub_flag_def)
  moreover have "can_be_ready ?s3 t" using assms(2) [OF True] pr by (simp add: can_be_ready_def)
  ultimately show ?thesis using prio_enqueue_sets [of ?s3 rs t False] True pr by (simp add: e)
qed

text \<open>The effect of waking up the expired threads of a list: their control blocks change as by
  \<^const>\<open>woken\<close>, they join the ready queues, and nothing else changes but queue links.\<close>

definition woken_all :: "kstate \<Rightarrow> tcbp list \<Rightarrow> kstate \<Rightarrow> bool" where
  "woken_all s ts s' \<longleftrightarrow> wakeup_frame s s' \<and>
     (\<forall>x. erase_lists (tcbs s' x) =
        (if x \<in> set ts \<and> wakes s x then erase_lists (woken (tcbs s x)) else erase_lists (tcbs s x))) \<and>
     (\<forall>rs. ready_inv s rs \<and> (\<forall>x \<in> set ts. wakes s x \<longrightarrow> can_be_ready s x) \<longrightarrow>
        (\<exists>rs'. ready_inv s' rs' \<and>
          (\<forall>p. set (rs' p) = set (rs p) \<union> {x \<in> set ts. wakes s x \<and> t_priority (tcbs s x) = p})))"

lemma woken_all_refl: "woken_all s [] s"
  by (auto simp: woken_all_def wakeup_frame_def)

lemma woken_all_none:
  assumes "woken_all s ts s'" and "filter (wakes s) ts = []"
  shows "woken_all s [] s'"
proof -
  have n: "\<not> wakes s x" if "x \<in> set ts" for x using assms(2) that by (simp add: filter_empty_conv)
  then have e: "{x \<in> set ts. wakes s x \<and> t_priority (tcbs s x) = p} = {}" for p by auto
  show ?thesis using assms(1) n unfolding woken_all_def e by auto
qed

lemma woken_all_step:
  assumes "woken_all (wakeup_step s t) ts s'" and "t \<notin> set ts"
  shows "woken_all s (t # ts) s'"
proof -
  let ?s = "wakeup_step s t"
  have e: "erase_lists (tcbs ?s x) = erase_lists (tcbs s x)" if "x \<noteq> t" for x
    using that by (simp add: wakeup_step_erase)
  have w: "wakes ?s x = wakes s x" if "x \<noteq> t" for x using wakes_erase [OF wakeup_step_frame e [OF that]] .
  have pr: "t_priority (tcbs ?s x) = t_priority (tcbs s x)" for x
    using wakeup_step_frame by (simp add: wakeup_frame_def)
  have "wakeup_frame s s'"
    using assms(1) wakeup_frame_trans [OF wakeup_step_frame [of s t], of s'] by (simp add: woken_all_def)
  moreover have "erase_lists (tcbs s' x) = (if x \<in> set (t # ts) \<and> wakes s x then erase_lists (woken (tcbs s x))
      else erase_lists (tcbs s x))" for x
  proof (cases "x = t")
    case True
    then show ?thesis using assms wakeup_step_erase [of s t t] by (simp add: woken_all_def)
  next
    case False
    then show ?thesis using assms(1) w e erase_woken_cong [OF e] by (simp add: woken_all_def)
  qed
  moreover have "\<exists>rs'. ready_inv s' rs' \<and>
      (\<forall>p. set (rs' p) = set (rs p) \<union> {x \<in> set (t # ts). wakes s x \<and> t_priority (tcbs s x) = p})"
    if r: "ready_inv s rs" "\<forall>x \<in> set (t # ts). wakes s x \<longrightarrow> can_be_ready s x" for rs
  proof -
    obtain rs1 where rs1: "ready_inv ?s rs1"
      "\<And>p. set (rs1 p) = set (rs p) \<union> (if wakes s t \<and> t_priority (tcbs s t) = p then {t} else {})"
      using wakeup_step_ready [OF r(1), of t] r(2) by auto
    moreover have "\<forall>x \<in> set ts. wakes ?s x \<longrightarrow> can_be_ready ?s x"
      using r(2) pr w assms(2) by (metis can_be_ready_def list.set_intros(2))
    ultimately obtain rs' where "ready_inv s' rs'"
      "\<And>p. set (rs' p) = set (rs1 p) \<union> {x \<in> set ts. wakes ?s x \<and> t_priority (tcbs ?s x) = p}"
      using assms(1) unfolding woken_all_def by blast
    moreover have "{x \<in> set ts. wakes ?s x \<and> t_priority (tcbs ?s x) = p} =
        {x \<in> set ts. wakes s x \<and> t_priority (tcbs s x) = p}" for p
      using w assms(2) pr by (intro Collect_cong) metis
    ultimately show ?thesis using rs1(2) by (intro exI [of _ rs']) auto
  qed
  ultimately show ?thesis by (simp add: woken_all_def)
qed

lemma wakeup_loop_correct:
  assumes "wakeup_inv s (as @ t # bs)" and "\<forall>x \<in> set as. \<not> expired s x"
  shows "\<exists>s'. wakeup_loop h t s = Some (best_wakeup s h (filter (wakes s) (t # bs)), s') \<and>
    wakeup_inv s' (filter (\<lambda>x. \<not> expired s x) (as @ t # bs)) \<and> woken_all s (t # bs) s'"
  using assms
proof (induction "(length (as @ t # bs), length bs)" arbitrary: s as t bs h
    rule: wf_induct_rule [OF wf_lex_prod [OF wf_less_than wf_less_than]])
  case 1
  let ?s = "wakeup_step s t" and ?h = "if wakes s t \<and> check_dispatch_thread h t s then t else h"
  have q: "queue NULL_tcb (wakeup_list s) (wait_links s) (as @ t # bs)"
    using 1(2) by (simp add: wakeup_inv_def)
  note d = queue_distinct [OF q]
  note nx = queue_next [OF q]
  have ex: "expired ?s x = expired s x" for x using wakeup_frame_cong(3) [OF wakeup_step_frame] .
  have fw: "filter (wakes ?s) xs = filter (wakes s) xs" if "t \<notin> set xs" for xs
  proof (rule filter_cong [OF refl])
    fix x assume "x \<in> set xs"
    with that have "erase_lists (tcbs ?s x) = erase_lists (tcbs s x)" by (auto simp: wakeup_step_erase)
    then show "wakes ?s x = wakes s x" by (rule wakes_erase [OF wakeup_step_frame])
  qed
  have best: "best_wakeup s ?h xs = best_wakeup s h (if wakes s t then t # xs else xs)" for xs
    by (simp add: best_wakeup_def)
  have inv1: "wakeup_inv ?s (if expired s t then as @ bs else as @ t # bs)"
    using wakeup_step_inv [OF 1(2), of t] d by (auto simp: remove1_append)
  show ?case
  proof (cases bs)
    case (Cons u us)
    let ?as = "if expired s t then as else as @ [t]"
    have inv: "wakeup_inv ?s (?as @ u # us)" using inv1 Cons by (auto split: if_splits)
    then have l0: "wakeup_list ?s \<noteq> NULL_tcb" and l1: "wakeup_list ?s = hd (?as @ u # us)"
      using rq.repr_hd [of NULL_tcb "wakeup_list ?s"] queue_null_iff by (fastforce simp: wakeup_inv_def)+
    have step: "wakeup_loop h t s = wakeup_loop ?h u ?s"
      using l0 l1 nx Cons d by (subst wakeup_loop_step) (auto simp: Let_def hd_append split: list.splits)
    have ua: "\<forall>x \<in> set ?as. \<not> expired ?s x" using 1(3) ex by auto
    have lt: "((length (?as @ u # us), length us), length (as @ t # bs), length bs) \<in> less_than <*lex*> less_than"
      using Cons by auto
    obtain s' where s': "wakeup_loop ?h u ?s = Some (best_wakeup ?s ?h (filter (wakes ?s) (u # us)), s')"
      "wakeup_inv s' (filter (\<lambda>x. \<not> expired ?s x) (?as @ u # us))" "woken_all ?s (u # us) s'"
      using 1(1) [OF lt inv ua] by blast
    have "filter (\<lambda>x. \<not> expired ?s x) (?as @ u # us) = filter (\<lambda>x. \<not> expired s x) (as @ t # bs)"
      using Cons ex by simp
    moreover have "best_wakeup ?s ?h (filter (wakes ?s) (u # us)) = best_wakeup s h (filter (wakes s) (t # bs))"
      using fw [of "u # us"] Cons d best wakeup_frame_cong(2) [OF wakeup_step_frame] by (auto split: if_splits)
    moreover have "woken_all s (t # bs) s'" using woken_all_step [OF s'(3)] Cons d by auto
    ultimately show ?thesis using step s' by metis
  next
    case Nil
    have res: "woken_all s [t] s'" if "woken_all ?s [] s'" for s' using woken_all_step [OF that] by simp
    have fa: "filter (\<lambda>x. \<not> expired s x) as = as" using 1(3) by simp
    show ?thesis
    proof (cases "expired s t \<and> as \<noteq> []")
      case False
      have "wakeup_loop h t s = Some (?h, ?s)"
      proof (cases "expired s t")
        case True
        then have "wakeup_list ?s = NULL_tcb" using False Nil inv1 by (auto simp: wakeup_inv_def)
        then show ?thesis by (subst wakeup_loop_step) (simp add: Let_def)
      next
        case ne: False
        then have "?s = s" by (simp add: wakeup_step_def)
        moreover have "wakeup_list s = rl_next (wait_links s t)"
          using nx Nil rq.repr_hd [OF q] by (cases as) auto
        ultimately show ?thesis using ne by (subst wakeup_loop_step) (simp add: Let_def)
      qed
      moreover have "?h = best_wakeup s h (filter (wakes s) (t # bs))" using Nil by (simp add: best_wakeup_def)
      moreover have "wakeup_inv ?s (filter (\<lambda>x. \<not> expired s x) (as @ t # bs))"
        using inv1 Nil fa False by (auto split: if_splits)
      ultimately show ?thesis using res [OF woken_all_refl] Nil by auto
    next
      case True
      then obtain a as' where a: "as = a # as'" by (cases as) auto
      have inv: "wakeup_inv ?s ([] @ a # as')" using inv1 True Nil a by simp
      then have l0: "wakeup_list ?s \<noteq> NULL_tcb" using queue_null_iff by (fastforce simp: wakeup_inv_def)
      have step: "wakeup_loop h t s = wakeup_loop ?h a ?s"
        using l0 nx Nil a True by (subst wakeup_loop_step) (auto simp: Let_def)
      have lt: "((length ([] @ a # as'), length as'), length (as @ t # bs), length bs) \<in> less_than <*lex*> less_than"
        using Nil a by auto
      obtain s' where s': "wakeup_loop ?h a ?s = Some (best_wakeup ?s ?h (filter (wakes ?s) (a # as')), s')"
        "wakeup_inv s' (filter (\<lambda>x. \<not> expired ?s x) ([] @ a # as'))" "woken_all ?s (a # as') s'"
        using 1(1) [OF lt inv] by auto
      have nw: "filter (wakes ?s) (a # as') = []"
        using ex 1(3) a by (simp add: wakes_def)
      have "woken_all ?s [] s'" by (rule woken_all_none [OF s'(3) nw])
      moreover have "best_wakeup ?s ?h [] = best_wakeup s h (filter (wakes s) (t # bs))"
        using Nil by (simp add: best_wakeup_def)
      moreover have "filter (\<lambda>x. \<not> expired ?s x) ([] @ a # as') = filter (\<lambda>x. \<not> expired s x) (as @ t # bs)"
        using ex Nil a True by simp
      ultimately show ?thesis using s' step nw res Nil by metis
    qed
  qed
qed

lemma parse_wakeup_queues_spec:
  assumes "wakeup_inv s ws" and "ready_inv s rs" and "\<forall>x \<in> set ws. wakes s x \<longrightarrow> can_be_ready s x"
  shows "\<exists>s' rs'. parse_wakeup_queues t s = Some (best_wakeup s t (filter (wakes s) ws), s') \<and>
    wakeup_frame s s' \<and> wakeup_inv s' (filter (\<lambda>x. \<not> expired s x) ws) \<and>
    (\<forall>x. erase_lists (tcbs s' x) =
      (if x \<in> set ws \<and> wakes s x then erase_lists (woken (tcbs s x)) else erase_lists (tcbs s x))) \<and>
    ready_inv s' rs' \<and>
    (\<forall>p. set (rs' p) = set (rs p) \<union> {x \<in> set ws. wakes s x \<and> t_priority (tcbs s x) = p})"
proof (cases ws)
  case Nil
  then have "parse_wakeup_queues t s = Some (t, s)" using assms(1) by (simp add: wakeup_inv_def parse_wakeup_queues_def)
  then show ?thesis using assms Nil by (auto simp: best_wakeup_def wakeup_frame_def)
next
  case (Cons w us)
  then have h: "wakeup_list s = w" "w \<noteq> NULL_tcb" using assms(1) by (auto simp: wakeup_inv_def queue_Cons)
  obtain s' where s': "wakeup_loop t w s = Some (best_wakeup s t (filter (wakes s) ws), s')"
    "wakeup_inv s' (filter (\<lambda>x. \<not> expired s x) ws)" "woken_all s ws s'"
    using wakeup_loop_correct [of s "[]" w us t] assms(1) Cons by auto
  then obtain rs' where "ready_inv s' rs'"
    "\<forall>p. set (rs' p) = set (rs p) \<union> {x \<in> set ws. wakes s x \<and> t_priority (tcbs s x) = p}"
    using assms(2,3) unfolding woken_all_def by blast
  moreover have "parse_wakeup_queues t s = wakeup_loop t w s" using h by (simp add: parse_wakeup_queues_def)
  ultimately show ?thesis using s' by (intro exI [of _ s'] exI [of _ rs']) (auto simp: woken_all_def)
qed

text \<open>C2: on a well-formed wakeup list the timer's walk always ends.  It wakes up exactly the threads
  whose timeout has expired (a thread that waits forever without a transfer timeout only leaves the
  list): each becomes running, loses its transfer-timeout flag, gets the timeout handler
  pushed if it was sending or receiving, and joins the ready queue of its priority; the threads with a
  timeout in the future stay on the list in their order; the returned thread is the best one to
  dispatch among the current one and those woken up.\<close>

theorem parse_wakeup_queues_correct:
  assumes "wakeup_inv s ws" and "ready_inv s rs" and "\<forall>x \<in> set ws. wakes s x \<longrightarrow> can_be_ready s x"
  shows "\<exists>s' rs'. parse_wakeup_queues t s = Some (best_wakeup s t (filter (wakes s) ws), s') \<and>
    wakeup_inv s' (filter (\<lambda>x. \<not> expired s x) ws) \<and>
    (\<forall>x. erase_lists (tcbs s' x) =
      (if x \<in> set ws \<and> wakes s x then erase_lists (woken (tcbs s x)) else erase_lists (tcbs s x))) \<and>
    ready_inv s' rs' \<and>
    (\<forall>p. set (rs' p) = set (rs p) \<union> {x \<in> set ws. wakes s x \<and> t_priority (tcbs s x) = p})"
  using parse_wakeup_queues_spec [OF assms] by blast

lemma set_timeout_abs_inv:
  assumes "wakeup_inv s ws" and "t \<notin> set ws" and "t \<noteq> NULL_tcb"
  shows "wakeup_inv (set_timeout_abs t a s) (ws @ [t])"
proof -
  let ?s = "upd_tcb t (\<lambda>x. x\<lparr>t_absolute_timeout := a\<rparr>) s"
  obtain h l where e: "enqueue_list_tail NULL_tcb (wakeup_list ?s) t (wait_links ?s) = (h, l)" by fastforce
  have "queue NULL_tcb (wakeup_list ?s) (wait_links ?s) ws" using assms(1) by (simp add: wakeup_inv_def)
  from enqueue_tail_snoc [OF this assms(2,3) e] show ?thesis
    using assms(1) e by (auto simp: set_timeout_abs_def wakeup_inv_def Let_def split_def)
qed

text \<open>Two threads, the first with a timeout that has expired.\<close>

definition timed_threads :: kstate where "timed_threads = set_timeout_abs (Tcb 1) 0 two_threads"

lemma timed_threads_inv:
  "wakeup_inv timed_threads [Tcb 1]" "ready_inv timed_threads (\<lambda>p. if p = 0 then [Tcb 1, Tcb 2] else [])"
  "\<forall>x \<in> set [Tcb 1]. wakes timed_threads x \<longrightarrow> can_be_ready timed_threads x" "wakes timed_threads (Tcb 1)"
proof -
  have "wakeup_inv two_threads []"
    by (simp add: wakeup_inv_def two_threads_tcb queue_state_is_set_def two_threads_def)
      (simp add: prio_enqueue_def Let_def split_def set_queue_state_def set_state_def blank_state_def blank_tcb_def
        qstate_is_set_def qstate_set_def)
  then show "wakeup_inv timed_threads [Tcb 1]"
    using set_timeout_abs_inv [of two_threads "[]" "Tcb 1" 0] by (simp add: timed_threads_def)
  show "ready_inv timed_threads (\<lambda>p. if p = 0 then [Tcb 1, Tcb 2] else [])"
    by (rule ready_inv_cong [OF two_threads_inv])
      (auto simp: timed_threads_def set_timeout_abs_def Let_def split_def prio_get_def ready_links_def)
  show "\<forall>x \<in> set [Tcb 1]. wakes timed_threads x \<longrightarrow> can_be_ready timed_threads x"
    by (simp add: timed_threads_def set_timeout_abs_def Let_def split_def can_be_ready_def two_threads_tcb MAX_PRIO_def)
  show "wakes timed_threads (Tcb 1)"
    using two_threads_tcb(3) [of "Tcb 1"] by (simp add: timed_threads_def set_timeout_abs_def Let_def split_def wakes_def lazy_wait_def
        has_timeout_expired_def get_state_def is_waiting_forever_def aborted_def waiting_forever_def BLOCKED_STATE_def)
qed

theorem parse_wakeup_queues_correct_witness:
  "wakes timed_threads (Tcb 1) \<and>
   (\<exists>s'. parse_wakeup_queues Idle_tcb timed_threads =
      Some (best_wakeup timed_threads Idle_tcb (filter (wakes timed_threads) [Tcb 1]), s'))"
  using timed_threads_inv(4) parse_wakeup_queues_correct [OF timed_threads_inv(1-3), of Idle_tcb] by blast

end
