(* ===== verification/Dispatch.thy ===== *)
theory Dispatch
  imports Wakeup
begin

text \<open>
  Dispatching: the round-robin rotation at the end of a time slice, the switch to the next ready
  thread, and the system calls \<^verbatim>\<open>ThreadSwitch\<close> and \<^verbatim>\<open>Schedule\<close> of
  \<^verbatim>\<open>schedule.cc\<close>.
\<close>

section \<open>Round robin\<close>

text \<open>The abstract rotation: \<^term>\<open>t\<close> becomes the last thread of its queue, the one after it
  the first.\<close>

definition rotate_past :: "'a \<Rightarrow> 'a list \<Rightarrow> 'a list" where
  "rotate_past t xs =
     (if t \<in> set xs then tl (dropWhile (\<lambda>x. x \<noteq> t) xs) @ takeWhile (\<lambda>x. x \<noteq> t) xs @ [t] else xs @ [t])"

lemma rotate_past_split: "t \<notin> set as \<Longrightarrow> rotate_past t (as @ t # bs) = bs @ as @ [t]"
proof -
  assume "t \<notin> set as"
  then have "takeWhile (\<lambda>x. x \<noteq> t) (as @ t # bs) = as" "dropWhile (\<lambda>x. x \<noteq> t) (as @ t # bs) = t # bs"
    by (induction as) auto
  then show ?thesis unfolding rotate_past_def by simp
qed

lemma rotate_past_mem [simp]: "set (rotate_past t xs) = insert t (set xs)"
proof (cases "t \<in> set xs")
  case True
  then obtain as bs where "xs = as @ t # bs" "t \<notin> set as" using split_list_first by fastforce
  then show ?thesis by (auto simp: rotate_past_split)
qed (simp add: rotate_past_def)

lemma queue_rotate_past:
  assumes "queue null h l xs" and "t \<in> set xs"
  shows "queue null (rl_next (l t)) l (rotate_past t xs)"
proof -
  obtain as bs where xs: "xs = as @ t # bs" "t \<notin> set as" using assms(2) split_list_first by fastforce
  then have q: "queue null t l ([t] @ bs @ as)" using queue_rotate assms(1) by fastforce
  show ?thesis
  proof (cases "bs @ as")
    case Nil
    then show ?thesis using q queue_next [of null h l as t bs] assms(1) xs by (simp add: rotate_past_def)
  next
    case (Cons y ys)
    have "queue null y l (y # ys @ [t])" using q queue_rotate [of null t l "[t]" y ys] unfolding Cons by simp
    moreover have "rl_next (l t) = y" using queue_next [of null h l as t bs] assms(1) xs Cons by simp
    moreover have "rotate_past t xs = y # ys @ [t]" using xs Cons by (simp add: rotate_past_split flip: append_assoc)
    ultimately show ?thesis by simp
  qed
qed

lemma ready_inv_rotate:
  assumes inv: "ready_inv s rs" and t: "t \<in> set (rs p)"
  shows "ready_inv (prio_set p (rl_next (ready_links s t)) s) (rs(p := rotate_past t (rs p)))"
proof (rule ready_invI)
  let ?s = "prio_set p (rl_next (ready_links s t)) s" and ?rs = "rs(p := rotate_past t (rs p))"
  have st: "set (?rs q) = set (rs q)" for q using t by auto
  have e: "?rs q = [] \<longleftrightarrow> rs q = []" for q using st [of q] by (metis set_empty)
  show "queue NULL_tcb (prio_get q ?s) (ready_links ?s) (?rs q)" if "0 \<le> q" "q \<le> MAX_PRIO" for q
    using ready_invD(1) [OF inv that] queue_rotate_past [of NULL_tcb _ "ready_links s" "rs p" t] t by auto
  show "q < 0 \<or> MAX_PRIO < q \<Longrightarrow> ?rs q = []" for q using ready_invD(2) [OF inv, of q] e by blast
  show "x \<in> set (?rs q) \<Longrightarrow> t_priority (tcbs ?s x) = q \<and> queue_state_is_set x qs_ready ?s \<and> x \<noteq> Idle_tcb"
    for q x using ready_invD(3) [OF inv, of x q] st [of q] by simp
  show "queue_state_is_set x qs_ready ?s \<Longrightarrow> x \<in> set (?rs (t_priority (tcbs ?s x)))" for x
    using ready_invD(4) [OF inv, of x] st by simp
  show "pq_max_prio (prioq ?s) < q \<Longrightarrow> ?rs q = []" for q using ready_invD(5) [OF inv, of q] e by simp
  show "pq_max_prio (prioq ?s) \<le> MAX_PRIO" using ready_invD(6) [OF inv] by simp
qed

lemma end_of_timeslice_accounting:
  "t_current_timeslice (tcbs (end_of_timeslice t s) t) =
     pq_current_timeslice (prioq s) + t_timeslice_length (tcbs s t)"
  "prio_get p (end_of_timeslice t s) = prio_get p (prio_set (get_priority t s)
     (rl_next (ready_links (enqueue_ready t True s) t)) (enqueue_ready t True s))"
  "pq_current_timeslice (prioq (end_of_timeslice t s)) =
     t_current_timeslice (tcbs (end_of_timeslice t s) (prio_get (get_priority t s) (end_of_timeslice t s)))"
  by (simp_all add: end_of_timeslice_def Let_def enqueue_ready_def get_priority_def prio_get_def prio_set_def
      prio_enqueue_def split_def)

lemma end_of_timeslice_spec:
  assumes "ready_inv s rs" and "can_be_ready s t"
  shows "ready_inv (end_of_timeslice t s) (rs(get_priority t s := rotate_past t (rs (get_priority t s)))) \<and>
    t_current_timeslice (tcbs (end_of_timeslice t s) t) =
      pq_current_timeslice (prioq s) + t_timeslice_length (tcbs s t) \<and>
    pq_current_timeslice (prioq (end_of_timeslice t s)) =
      t_current_timeslice (tcbs (end_of_timeslice t s) (hd (rotate_past t (rs (get_priority t s)))))"
proof -
  let ?p = "get_priority t s" and ?s = "prio_enqueue t True s"
  let ?rs = "if queue_state_is_set t qs_ready s then rs else rs(?p := t # rs ?p)"
  have inv: "ready_inv ?s ?rs"
    using prio_enqueue_inv [OF assms(1), of t True] assms(2) by (auto simp: can_be_ready_def get_priority_def)
  have t: "t \<in> set (?rs ?p)" using ready_invD(4) [OF assms(1), of t] by (simp add: get_priority_def)
  have nt: "t \<notin> set (rs ?p)" if "\<not> queue_state_is_set t qs_ready s"
    using that ready_invD(3) [OF assms(1)] by blast
  have rot: "?rs(?p := rotate_past t (?rs ?p)) = rs(?p := rotate_past t (rs ?p))"
    using nt rotate_past_split [of t "[]" "rs ?p"] by (auto simp: rotate_past_def)
  let ?e = "end_of_timeslice t s"
  have "ready_inv ?e (rs(?p := rotate_past t (rs ?p)))"
  proof (rule ready_inv_cong [OF ready_inv_rotate [OF inv t, unfolded rot]])
  qed (simp_all add: end_of_timeslice_def Let_def enqueue_ready_def get_priority_def prio_get_def prio_set_def)
  moreover from this have "prio_get ?p ?e = hd (rotate_past t (rs ?p))"
    using assms(2) rq.repr_hd [of NULL_tcb "prio_get ?p ?e"] ready_invD(1) [of ?e _ ?p]
    by (fastforce simp: can_be_ready_def get_priority_def rotate_past_def)
  ultimately show ?thesis using end_of_timeslice_accounting(1,3) [of t s] by simp
qed

text \<open>C30: the end of a time slice rotates the ready queue of the thread's priority: the thread that
  follows it comes first and the thread itself last (a thread that was not ready is enqueued
  last); every other queue is unchanged; the thread's next time slice is what is left of this one plus
  its slice length, and the queue continues with the slice of the thread that is now first.\<close>

theorem end_of_timeslice_round_robin:
  assumes "ready_inv s rs" and "can_be_ready s t"
  shows "ready_inv (end_of_timeslice t s) (rs(get_priority t s := rotate_past t (rs (get_priority t s)))) \<and>
    t_current_timeslice (tcbs (end_of_timeslice t s) t) =
      pq_current_timeslice (prioq s) + t_timeslice_length (tcbs s t) \<and>
    pq_current_timeslice (prioq (end_of_timeslice t s)) =
      t_current_timeslice (tcbs (end_of_timeslice t s) (hd (rotate_past t (rs (get_priority t s)))))"
  by (rule end_of_timeslice_spec [OF assms])

lemma two_threads_can: "x \<noteq> NULL_tcb \<Longrightarrow> x \<noteq> Idle_tcb \<Longrightarrow> can_be_ready two_threads x"
  by (simp add: can_be_ready_def two_threads_tcb MAX_PRIO_def)

theorem end_of_timeslice_round_robin_witness:
  "ready_inv (end_of_timeslice (Tcb 1) two_threads) ((\<lambda>p. if p = 0 then [Tcb 1, Tcb 2] else [])(0 := [Tcb 2, Tcb 1]))"
  using end_of_timeslice_round_robin [OF two_threads_inv two_threads_can [of "Tcb 1"]]
  by (simp add: get_priority_def two_threads_tcb rotate_past_def)

section \<open>Switching to the next thread\<close>

text \<open>What scheduling leaves alone.\<close>

definition schedule_keeps :: "kstate \<Rightarrow> kstate \<Rightarrow> bool" where
  "schedule_keeps s s' \<longleftrightarrow> (\<forall>x. t_thread_state (tcbs s' x) = t_thread_state (tcbs s x) \<and>
     t_priority (tcbs s' x) = t_priority (tcbs s x)) \<and> get_current_time s' = get_current_time s"

lemma schedule_spec:
  assumes "ready_inv s rs" and "c \<noteq> Idle_tcb \<longrightarrow> can_be_ready s c"
  shows "\<exists>t s' rs' rs''. schedule c s = Some (t \<noteq> c, s') \<and> next_ready s rs t rs' \<and>
    current_tcb s' = (if t = c then current_tcb s else t) \<and> ready_inv s' rs'' \<and>
    (\<forall>p. set (rs'' p) = set (rs' p) \<union>
      (if t \<noteq> c \<and> c \<noteq> Idle_tcb \<and> get_priority c s = p then {c} else {})) \<and> schedule_keeps s s'"
proof -
  obtain t s1 rs' where f: "find_next_thread s = Some (t, s1)" "ready_inv s1 rs'" "ready_frame s s1"
    "next_ready s rs t rs'"
    using find_from_spec [OF assms(1) ready_invD(6) [OF assms(1)]] ready_invD(5) [OF assms(1)]
    by (auto simp: find_next_thread_def)
  have cur: "current_tcb s1 = current_tcb s"
    using f(3) unfolding ready_frame_def by (metis kstate.ext_inject kstate.surjective kstate.update_convs(1,4))
  have keep: "schedule_keeps s s1"
    using f(3) ready_frame_tcb(1,2) [OF f(3)] by (simp add: schedule_keeps_def get_current_time_def ready_frame_def)
  show ?thesis
  proof (cases "t = c")
    case True
    then have "schedule c s = Some (t \<noteq> c, s1)" using f(1) by (simp add: schedule_def)
    then show ?thesis using f True cur keep by (intro exI [of _ t] exI [of _ s1] exI [of _ rs']) auto
  next
    case False
    let ?s2 = "if c \<noteq> Idle_tcb then prio_enqueue c False s1 else s1"
    obtain rs'' where r: "ready_inv ?s2 rs''"
      "\<And>p. set (rs'' p) = set (rs' p) \<union> (if c \<noteq> Idle_tcb \<and> get_priority c s = p then {c} else {})"
    proof (cases "c = Idle_tcb")
      case True
      then show ?thesis using f(2) that [of rs'] by simp
    next
      case ci: False
      then have "can_be_ready s1 c" using assms(2) ready_frame_tcb(2) [OF f(3)] by (simp add: can_be_ready_def)
      from prio_enqueue_sets [OF f(2) this, of False] ci show ?thesis
        using that ready_frame_tcb(2) [OF f(3), of c] by (auto simp: get_priority_def)
    qed
    have "ready_inv (switch_to c t ?s2) rs''"
      by (rule ready_inv_cong [OF r(1)])
        (simp_all add: switch_to_def prio_get_def ready_links_def queue_state_is_set_def)
    moreover have "schedule c s = Some (t \<noteq> c, switch_to c t ?s2)"
      using f(1) False by (simp add: schedule_def Let_def enqueue_ready_def)
    moreover have "schedule_keeps s (switch_to c t ?s2)"
      using keep by (simp add: schedule_keeps_def switch_to_def get_current_time_def)
    ultimately show ?thesis using f(4) r(2) False
      by (intro exI [of _ t] exI [of _ "switch_to c t ?s2"] exI [of _ rs'] exI [of _ rs'']) (auto simp: switch_to_def)
  qed
qed

text \<open>C4: on well-formed ready queues \<^verbatim>\<open>schedule\<close> always returns.  It selects the first runnable
  thread of the highest priority (the idle thread if there is none); if that is the caller it reports
  false and the caller stays current, otherwise the caller (unless it is the idle thread) is put on
  the ready queue and the selected thread becomes the current one.\<close>

theorem schedule_correct:
  assumes "ready_inv s rs" and "c \<noteq> Idle_tcb \<longrightarrow> can_be_ready s c"
  shows "\<exists>t s' rs' rs''. schedule c s = Some (t \<noteq> c, s') \<and> next_ready s rs t rs' \<and>
    current_tcb s' = (if t = c then current_tcb s else t) \<and> ready_inv s' rs'' \<and>
    (\<forall>p. set (rs'' p) = set (rs' p) \<union>
      (if t \<noteq> c \<and> c \<noteq> Idle_tcb \<and> get_priority c s = p then {c} else {}))"
  using schedule_spec [OF assms] by blast

theorem schedule_correct_witness:
  "\<exists>t s'. schedule Idle_tcb two_threads = Some (t \<noteq> Idle_tcb, s')"
  using schedule_correct [OF two_threads_inv, of Idle_tcb] by blast

section \<open>The system calls\<close>

definition sys_thread_switch :: "threadid_t \<Rightarrow> kstate \<Rightarrow> kstate option" where
  "sys_thread_switch dest s =
     (let current = get_current_tcb s; dest_tcb = get_tcb dest
      in if \<not> is_nilthread dest \<and> dest_tcb = current then Some s
         else if \<not> is_nilthread dest \<and> is_runnable (get_state dest_tcb s) \<and>
                 get_global_id dest_tcb s = dest \<and> is_local_cpu dest_tcb s
         then Some (switch_to current dest_tcb (enqueue_ready current False s))
         else
           let s1 = enqueue_ready current False s;
               s2 = (if t_current_max_delay (tcbs s1 current) < t_max_delay (tcbs s1 current)
                     then upd_tcb current (\<lambda>x. x\<lparr>t_current_max_delay := t_max_delay x\<rparr>)
                            (set_preempt_flags current (clear_pending (get_preempt_flags current s1)) s1)
                     else s1);
               s3 = upd_prioq (\<lambda>q. q\<lparr>pq_current_timeslice := 0\<rparr>) s2;
               s4 = end_of_timeslice current s3
           in map_option snd (schedule current s4))"

text \<open>The three parameters of \<^verbatim>\<open>do_schedule\<close>, one after the other.\<close>

definition schedule_prio :: "tcbp \<Rightarrow> word_t \<Rightarrow> kstate \<Rightarrow> kstate" where
  "schedule_prio t prio s =
     (if prio \<noteq> NOT 0 \<and> sint (ucast prio :: u32_t) \<noteq> get_priority t s
      then enqueue_ready t False (set_priority t (uint (prio AND 0xff)) (dequeue_ready t s))
      else s)"

definition schedule_time :: "tcbp \<Rightarrow> word_t \<Rightarrow> kstate \<Rightarrow> kstate" where
  "schedule_time t time_control s =
     (if time_control \<noteq> NOT 0
      then let quantum = (ucast time_control :: time_t);
               s1 = (if time_is_period quantum
                     then enqueue_ready t False (set_total_quantum t quantum s) else s);
               timeslice = (ucast (drop_bit 16 time_control) :: time_t)
           in if time_is_period timeslice then set_timeslice_length t timeslice s1 else s1
      else s)"

definition schedule_preemption :: "tcbp \<Rightarrow> word_t \<Rightarrow> kstate \<Rightarrow> kstate" where
  "schedule_preemption t preemption_control s =
     (if preemption_control \<noteq> NOT 0
      then let s1 = set_maximum_delay t (ucast (preemption_control AND 0xffff)) s;
               sens_prio = uint (drop_bit 16 preemption_control AND 0xff)
           in if sens_prio \<ge> get_priority t s1 then set_sensitive_prio t sens_prio s1 else s1
      else s)"

definition do_schedule :: "tcbp \<Rightarrow> word_t \<Rightarrow> word_t \<Rightarrow> word_t \<Rightarrow> kstate \<Rightarrow> kstate" where
  "do_schedule t time_control prio preemption_control s =
     schedule_preemption t preemption_control (schedule_time t time_control (schedule_prio t prio s))"

definition schedule_result :: "thread_state_t \<Rightarrow> word_t" where
  "schedule_result st =
     (if st = aborted then 1 else if is_halted st then 2 else if is_running st then 3
      else if is_polling st then 4 else if is_sending st then 5 else if is_waiting st then 6
      else if is_receiving st then 7 else 0)"

definition sys_schedule ::
  "threadid_t \<Rightarrow> word_t \<Rightarrow> word_t \<Rightarrow> word_t \<Rightarrow> word_t \<Rightarrow> kstate \<Rightarrow> word_t \<times> kstate" where
  "sys_schedule dest_tid time_control processor_control prio preemption_control s =
     (let dest_tcb = get_tcb dest_tid
      in if get_global_id dest_tcb s \<noteq> dest_tid
         then (0, set_error_code (get_current_tcb s) EINVALID_THREAD s)
         else let sched_tcb = get_tcb (get_scheduler dest_tcb s)
           in if get_global_id sched_tcb s \<noteq> get_scheduler dest_tcb s \<or>
                 get_space sched_tcb s \<noteq> get_current_space s
              then (0, set_error_code (get_current_tcb s) ENO_PRIVILEGE s)
              else let s1 = (if is_local_cpu dest_tcb s
                             then do_schedule dest_tcb time_control prio preemption_control s else s)
                   in (schedule_result (get_state dest_tcb s1), s1))"

section \<open>What the schedule system call keeps\<close>

lemma ready_inv_set_priority:
  assumes "ready_inv s rs" and "\<not> queue_state_is_set t qs_ready s"
  shows "ready_inv (set_priority t p s) rs"
proof -
  have nt: "t \<notin> set (rs q)" for q using assms ready_invD(3) by blast
  have "ready_inv (upd_tcb t (\<lambda>x. x\<lparr>t_priority := p\<rparr>) s) rs"
    using ready_invD [OF assms(1)] assms(2) nt
    by (intro ready_invI) (auto split: if_splits)
  then show ?thesis by (simp add: set_priority_def Let_def set_sensitive_prio_def ready_inv_upd_tcb)
qed

text \<open>The priorities of a state agree with the sensitivity of each thread.\<close>

definition prio_ok :: "tcbp \<Rightarrow> kstate \<Rightarrow> bool" where
  "prio_ok t s \<longleftrightarrow> can_be_ready s t \<and> get_priority t s \<le> get_sensitive_prio t s"

definition requeued :: "tcbp \<Rightarrow> (prio_t \<Rightarrow> tcbp list) \<Rightarrow> kstate \<Rightarrow> bool" where
  "requeued t rs s' \<longleftrightarrow> prio_ok t s' \<and>
     (\<exists>rs'. ready_inv s' rs' \<and> (\<forall>p. set (rs' p) - {t} = set (rs p) - {t}))"

lemma requeued_step:
  assumes "requeued t rs s" and "\<And>rs1. ready_inv s rs1 \<Longrightarrow>
    \<exists>rs'. ready_inv s' rs' \<and> (\<forall>p. set (rs' p) - {t} = set (rs1 p) - {t})" and "prio_ok t s'"
  shows "requeued t rs s'"
  using assms unfolding requeued_def by metis

lemma requeued_enqueue:
  assumes "requeued t rs s" shows "requeued t rs (enqueue_ready t b s)"
proof (rule requeued_step [OF assms])
  show "prio_ok t (enqueue_ready t b s)"
    using assms by (simp add: requeued_def prio_ok_def can_be_ready_def get_priority_def
        get_sensitive_prio_def enqueue_ready_def)
  show "\<exists>rs'. ready_inv (enqueue_ready t b s) rs' \<and> (\<forall>p. set (rs' p) - {t} = set (rs1 p) - {t})"
    if inv1: "ready_inv s rs1" for rs1
  proof -
    have "can_be_ready s t" using assms by (simp add: requeued_def prio_ok_def)
    then obtain rs' where "ready_inv (prio_enqueue t b s) rs'"
      "\<And>p. set (rs' p) = set (rs1 p) \<union> (if t_priority (tcbs s t) = p then {t} else {})"
      using prio_enqueue_sets [OF inv1, of t b] by blast
    then show ?thesis unfolding enqueue_ready_def by (intro exI [of _ rs']) auto
  qed
qed

lemma requeued_upd_tcb:
  assumes "requeued t rs s" and "\<And>y. t_ready_list (f y) = t_ready_list y"
    and "\<And>y. t_queue_state (f y) = t_queue_state y" and "\<And>y. t_priority (f y) = t_priority y"
    and "t_priority (tcbs s t) \<le> t_sensitive_prio (f (tcbs s t))"
  shows "requeued t rs (upd_tcb t f s)"
proof (rule requeued_step [OF assms(1)])
  show "prio_ok t (upd_tcb t f s)"
    using assms by (simp add: requeued_def prio_ok_def can_be_ready_def get_priority_def get_sensitive_prio_def)
qed (use ready_inv_upd_tcb [of s _ f t] assms(2-4) in blast)

lemma schedule_prio_requeued:
  assumes "ready_inv s rs" and "prio_ok t s"
  shows "requeued t rs (schedule_prio t prio s)"
proof (cases "prio \<noteq> NOT 0 \<and> sint (ucast prio :: u32_t) \<noteq> get_priority t s")
  case False
  then show ?thesis using assms by (auto simp: schedule_prio_def requeued_def)
next
  case True
  let ?p = "uint (prio AND 0xff)" and ?s = "dequeue_ready t s"
  have "prio AND 0xff \<le> 0xff" by (rule word_and_le1)
  then have p: "0 \<le> ?p" "?p \<le> MAX_PRIO" by (simp_all add: MAX_PRIO_def word_le_def)
  have d: "ready_inv ?s (\<lambda>p. remove1 t (rs p))" unfolding dequeue_ready_def by (rule prio_dequeue_inv [OF assms(1)])
  have nq: "\<not> queue_state_is_set t qs_ready ?s"
    by (auto simp: dequeue_ready_def prio_dequeue_def Let_def split_def)
  have rm: "set (remove1 t (rs p)) - {t} = set (rs p) - {t}" for p
    using set_remove1_eq [OF ready_inv_distinct [OF assms(1), of p], of t] by auto
  have "prio_ok t (set_priority t ?p ?s)"
    using p assms(2) by (simp add: prio_ok_def can_be_ready_def get_priority_def get_sensitive_prio_def
        set_priority_def Let_def set_sensitive_prio_def)
  then have "requeued t rs (set_priority t ?p ?s)"
    using ready_inv_set_priority [OF d nq] rm by (auto simp: requeued_def)
  then show ?thesis using requeued_enqueue [of t rs _ False] True by (simp add: schedule_prio_def)
qed

lemma set_total_quantum_tcb:
  "\<exists>f. set_total_quantum t q s = upd_tcb t f s \<and> (\<forall>y. t_ready_list (f y) = t_ready_list y \<and>
     t_queue_state (f y) = t_queue_state y \<and> t_priority (f y) = t_priority y \<and>
     t_sensitive_prio (f y) = t_sensitive_prio y)"
  by (rule exI [of _ "\<lambda>x. x\<lparr>t_total_quantum := (if time_is_never q then 0 else get_microseconds q),
        t_current_timeslice := t_timeslice_length x\<rparr>"])
    (simp add: set_total_quantum_def upd_tcb_def)

lemma requeued_sens: "requeued t rs s \<Longrightarrow> t_priority (tcbs s t) \<le> t_sensitive_prio (tcbs s t)"
  by (simp add: requeued_def prio_ok_def get_priority_def get_sensitive_prio_def)

lemma schedule_time_requeued:
  assumes "requeued t rs s" shows "requeued t rs (schedule_time t tc s)"
proof -
  let ?q = "(ucast tc :: time_t)" and ?ts = "(ucast (drop_bit 16 tc) :: time_t)"
  obtain f where f: "set_total_quantum t ?q s = upd_tcb t f s"
    "\<And>y. t_ready_list (f y) = t_ready_list y" "\<And>y. t_queue_state (f y) = t_queue_state y"
    "\<And>y. t_priority (f y) = t_priority y" "\<And>y. t_sensitive_prio (f y) = t_sensitive_prio y"
    using set_total_quantum_tcb by blast
  have "requeued t rs (set_total_quantum t ?q s)"
    unfolding f(1) by (rule requeued_upd_tcb [OF assms]) (simp_all add: f requeued_sens [OF assms])
  then have r1: "requeued t rs (if time_is_period ?q then enqueue_ready t False (set_total_quantum t ?q s) else s)"
    using assms requeued_enqueue by simp
  moreover have "requeued t rs (set_timeslice_length t ?ts s')" if "requeued t rs s'" for s'
    unfolding set_timeslice_length_def
    by (rule requeued_upd_tcb [OF that]) (simp_all add: requeued_sens [OF that])
  ultimately show ?thesis using assms by (simp add: schedule_time_def Let_def)
qed

lemma schedule_preemption_requeued:
  assumes "requeued t rs s" shows "requeued t rs (schedule_preemption t pc s)"
proof -
  have r1: "requeued t rs (set_maximum_delay t d s)" for d
    unfolding set_maximum_delay_def
    by (rule requeued_upd_tcb [OF assms]) (simp_all add: requeued_sens [OF assms])
  have "requeued t rs (set_sensitive_prio t p s')" if "requeued t rs s'" "get_priority t s' \<le> p" for p s'
    unfolding set_sensitive_prio_def
    by (rule requeued_upd_tcb [OF that(1)]) (use that(2) in \<open>simp_all add: get_priority_def\<close>)
  then show ?thesis using r1 assms by (simp add: schedule_preemption_def Let_def)
qed

lemma schedule_prio_priority:
  "get_priority t (schedule_prio t prio s) =
     (if prio \<noteq> NOT 0 \<and> sint (ucast prio :: u32_t) \<noteq> get_priority t s then uint (prio AND 0xff) else get_priority t s)"
  by (simp add: schedule_prio_def get_priority_def enqueue_ready_def set_priority_def Let_def set_sensitive_prio_def)

lemma schedule_keeps_priority:
  "get_priority t (schedule_time t tc s) = get_priority t s"
  "get_priority t (schedule_preemption t pc s) = get_priority t s"
  by (simp_all add: schedule_time_def schedule_preemption_def Let_def get_priority_def enqueue_ready_def
      set_total_quantum_def set_timeslice_length_def set_maximum_delay_def set_sensitive_prio_def)

text \<open>C37: the schedule operation on a thread, whatever control words it is given, keeps the ready queues
  well formed and every other thread where it was; the thread's priority is the low byte of the
  requested one when it differs from the current one, stays within the range of the queues and
  never exceeds its sensitive priority.\<close>

theorem do_schedule_keeps_queues:
  assumes "ready_inv s rs" and "prio_ok t s"
  shows "(\<exists>rs'. ready_inv (do_schedule t tc prio pc s) rs' \<and> (\<forall>p. set (rs' p) - {t} = set (rs p) - {t})) \<and>
    prio_ok t (do_schedule t tc prio pc s) \<and>
    get_priority t (do_schedule t tc prio pc s) =
      (if prio \<noteq> NOT 0 \<and> sint (ucast prio :: u32_t) \<noteq> get_priority t s
       then uint (prio AND 0xff) else get_priority t s)"
  using schedule_preemption_requeued [OF schedule_time_requeued [OF schedule_prio_requeued [OF assms]]]
  by (auto simp: do_schedule_def requeued_def schedule_keeps_priority schedule_prio_priority)

theorem do_schedule_keeps_queues_witness:
  "prio_ok (Tcb 1) two_threads \<and> get_priority (Tcb 1) (do_schedule (Tcb 1) (NOT 0) 7 (NOT 0) two_threads) = 7 \<and>
   prio_ok (Tcb 1) (do_schedule (Tcb 1) (NOT 0) 7 (NOT 0) two_threads)"
proof -
  have p: "prio_ok (Tcb 1) two_threads"
    using two_threads_can [of "Tcb 1"]
    by (simp add: prio_ok_def get_priority_def get_sensitive_prio_def two_threads_tcb)
  show ?thesis
    using p do_schedule_keeps_queues [OF two_threads_inv p, of "NOT 0" 7 "NOT 0"]
    by (simp add: get_priority_def two_threads_tcb)
qed

end
