(* ===== verification/Space.thy ===== *)
theory Space
  imports Dispatch
begin

text \<open>
  Address spaces: the \<^verbatim>\<open>space_t\<close> of \<^verbatim>\<open>glue/v4-mips64/space.h\<close> and
  \<^verbatim>\<open>space.cc\<close>, the predicates of \<^verbatim>\<open>api/v4/space.h\<close>, and the system calls
  \<^verbatim>\<open>SpaceControl\<close> and \<^verbatim>\<open>Unmap\<close>.

  A \<^verbatim>\<open>space_t\<close> is 8 KB of kernel memory: 1020 words of the top level page table, then the
  words \<^verbatim>\<open>kip_area\<close>, \<^verbatim>\<open>utcb_area\<close>, \<^verbatim>\<open>thread_count\<close> and
  \<^verbatim>\<open>asid\<close>, which alias the last four entries of the table.  The operations that
  unmap flexpages take the walker \<^verbatim>\<open>unmap_fpage\<close> as their argument \<^verbatim>\<open>unmap\<close>,
  and the address of the kernel interface page, which the linker fixes, as \<^verbatim>\<open>kip_addr\<close>.
\<close>

section \<open>Privileged spaces (api/v4/space.h)\<close>

definition is_sigma0_space :: "spacep \<Rightarrow> kstate \<Rightarrow> bool" where
  "is_sigma0_space space s \<longleftrightarrow> space = sigma0_space s"

text \<open>The source compares with \<^verbatim>\<open>sigma0_space\<close> here as well.\<close>

definition is_sigma1_space :: "spacep \<Rightarrow> kstate \<Rightarrow> bool" where
  "is_sigma1_space space s \<longleftrightarrow> space = sigma0_space s"

definition is_roottask_space :: "spacep \<Rightarrow> kstate \<Rightarrow> bool" where
  "is_roottask_space space s \<longleftrightarrow> space = roottask_space s"

definition is_privileged_space :: "spacep \<Rightarrow> kstate \<Rightarrow> bool" where
  "is_privileged_space space s \<longleftrightarrow>
     is_roottask_space space s \<or> is_sigma0_space space s \<or> is_sigma1_space space s"

section \<open>Fields and areas\<close>

definition kip_area_offset :: word_t where "kip_area_offset = 8 * 1020"

definition utcb_area_offset :: word_t where "utcb_area_offset = 8 * 1021"

definition thread_count_offset :: word_t where "thread_count_offset = 8 * 1022"

definition space_size :: word_t where "space_size = 8192"

definition space_word :: "spacep \<Rightarrow> word_t \<Rightarrow> kstate \<Rightarrow> word_t" where
  "space_word space off s = mem (kmem s) (space + off)"

definition set_space_word :: "spacep \<Rightarrow> word_t \<Rightarrow> word_t \<Rightarrow> kstate \<Rightarrow> kstate" where
  "set_space_word space off v s =
     upd_kmem ((kmem s)\<lparr>mem := (mem (kmem s))(space + off := v)\<rparr>) s"

definition get_kip_page_area :: "spacep \<Rightarrow> kstate \<Rightarrow> fpage_t" where
  "get_kip_page_area space s = space_word space kip_area_offset s"

definition get_utcb_page_area :: "spacep \<Rightarrow> kstate \<Rightarrow> fpage_t" where
  "get_utcb_page_area space s = space_word space utcb_area_offset s"

definition space_is_initialized :: "spacep \<Rightarrow> kstate \<Rightarrow> bool" where
  "space_is_initialized space s \<longleftrightarrow> \<not> is_nil_fpage (get_kip_page_area space s)"

definition add_tcb :: "spacep \<Rightarrow> kstate \<Rightarrow> kstate" where
  "add_tcb space s = set_space_word space thread_count_offset (space_word space thread_count_offset s + 1) s"

definition remove_tcb :: "spacep \<Rightarrow> kstate \<Rightarrow> bool \<times> kstate" where
  "remove_tcb space s =
     (let s1 = set_space_word space thread_count_offset (space_word space thread_count_offset s - 1) s
      in (space_word space thread_count_offset s1 = 0, s1))"

definition USER_AREA_START :: word_t where "USER_AREA_START = 0"

definition USER_AREA_END :: word_t where "USER_AREA_END = push_bit 40 1 - 1"

definition COPY_AREA_START :: word_t where "COPY_AREA_START = 0xFFFFFFFFE0000000"

definition COPY_AREA_SIZE :: word_t where "COPY_AREA_SIZE = push_bit 29 1"

definition COPY_AREA_END :: word_t where "COPY_AREA_END = COPY_AREA_START + COPY_AREA_SIZE - 1"

definition KTCB_AREA_START :: word_t where "KTCB_AREA_START = 0x4000000000000000"

definition KTCB_AREA_END :: word_t where "KTCB_AREA_END = KTCB_AREA_START + push_bit 39 1 - 1"

definition is_user_area :: "addr_t \<Rightarrow> bool" where
  "is_user_area a \<longleftrightarrow> USER_AREA_START \<le> a \<and> a \<le> USER_AREA_END"

definition is_user_area_fpage :: "fpage_t \<Rightarrow> bool" where
  "is_user_area_fpage f \<longleftrightarrow> is_user_area (fpage_get_address f) \<and>
     is_user_area (addr_offset (fpage_get_address f) (fpage_get_size f - 1))"

definition is_tcb_area :: "addr_t \<Rightarrow> bool" where
  "is_tcb_area a \<longleftrightarrow>
     (let a1 = a AND NOT (push_bit (hw_pgshifts (size_max + 1) - 1) 1)
      in KTCB_AREA_START \<le> a1 \<and> a1 \<le> KTCB_AREA_END)"

definition is_copy_area :: "addr_t \<Rightarrow> bool" where
  "is_copy_area a \<longleftrightarrow> COPY_AREA_START \<le> a \<and> a < COPY_AREA_END"

definition get_copy_limit :: "addr_t \<Rightarrow> word_t \<Rightarrow> word_t" where
  "get_copy_limit a limit =
     (let end = a + limit in
      if is_user_area a
      then if end \<ge> USER_AREA_END then USER_AREA_END - a else limit
      else if addr_align a COPY_AREA_SIZE \<noteq> addr_align end COPY_AREA_SIZE
           then addr_align_up a COPY_AREA_SIZE - a else limit)"

definition is_mappable_addr :: "spacep \<Rightarrow> addr_t \<Rightarrow> kstate \<Rightarrow> bool" where
  "is_mappable_addr space a s \<longleftrightarrow> is_user_area a \<and>
     \<not> is_addr_in_fpage (get_kip_page_area space s) a \<and>
     \<not> is_addr_in_fpage (get_utcb_page_area space s) a"

definition is_mappable :: "spacep \<Rightarrow> fpage_t \<Rightarrow> kstate \<Rightarrow> bool" where
  "is_mappable space f s \<longleftrightarrow> is_user_area_fpage f \<and>
     \<not> is_overlapping (get_kip_page_area space s) f \<and>
     \<not> is_overlapping (get_utcb_page_area space s) f"

section \<open>Creating, initialising and releasing spaces\<close>

definition allocate_space :: "kstate \<Rightarrow> (spacep \<times> kstate) option" where
  "allocate_space s = map_option (\<lambda>(a, m). (a, upd_kmem m s)) (kmem_alloc space_size (kmem s))"

definition free_space :: "spacep \<Rightarrow> kstate \<Rightarrow> kstate option" where
  "free_space space s = map_option (\<lambda>m. upd_kmem m s) (kmem_free space space_size (kmem s))"

type_synonym unmapper = "spacep \<Rightarrow> fpage_t \<Rightarrow> bool \<Rightarrow> bool \<Rightarrow> kstate \<Rightarrow> (fpage_t \<times> kstate) option"

definition space_free :: "unmapper \<Rightarrow> spacep \<Rightarrow> kstate \<Rightarrow> kstate option" where
  "space_free unmap space s =
     map_option snd (unmap space (fpage_set_rwx_all fpage_complete) True True s)"

definition space_add_mapping ::
  "spacep \<Rightarrow> addr_t \<Rightarrow> addr_t \<Rightarrow> nat \<Rightarrow> bool \<Rightarrow> bool \<Rightarrow> kstate \<Rightarrow> kstate option" where
  "space_add_mapping space vaddr paddr sz writable kern s =
     map_option (\<lambda>(m, c). (upd_kmem m s)\<lparr>asid_cache := c\<rparr>)
       (add_mapping space vaddr paddr sz writable kern (kmem s, asid_cache s))"

definition ktcb_idx :: word_t where
  "ktcb_idx = page_table_index size_max (KTCB_AREA_START OR push_bit (hw_pgshifts (size_max + 1) - 1) 1)"

definition init_kernel_mappings :: "spacep \<Rightarrow> kstate \<Rightarrow> kstate option" where
  "init_kernel_mappings space s =
     map_option (\<lambda>m. upd_kmem m s) (pg_make_subtree (space_pgent space ktcb_idx) size_max True (kmem s))"

text \<open>The result is the state and the page of the dummy thread control block.\<close>

definition init_kernel_space :: "kstate \<Rightarrow> (word_t \<times> kstate) option" where
  "init_kernel_space s =
     (case allocate_space s of
        None \<Rightarrow> None
      | Some (space, s1) \<Rightarrow>
          let s2 = s1\<lparr>kernel_space := space\<rparr>;
              s3 = upd_kmem (asid_init (space + asid_offset) (kmem s2)) s2
          in (case init_kernel_mappings space s3 of
                None \<Rightarrow> None
              | Some s4 \<Rightarrow> map_option (\<lambda>(p, m). (p, upd_kmem m s4)) (kmem_alloc (page_size 0) (kmem s4))))"

definition space_init :: "addr_t \<Rightarrow> spacep \<Rightarrow> fpage_t \<Rightarrow> fpage_t \<Rightarrow> kstate \<Rightarrow> kstate option" where
  "space_init kip_addr space utcb_area kip_area s =
     (let s1 = set_space_word space utcb_area_offset utcb_area s;
          s2 = set_space_word space kip_area_offset kip_area s1;
          s3 = upd_kmem (asid_init (space + asid_offset) (kmem s2)) s2;
          s4 = upd_kmem (pg_copy_entry (space_pgent space ktcb_idx)
                 (pg_raw (kmem s3) (space_pgent (kernel_space s3) ktcb_idx)) (kmem s3)) s3
      in space_add_mapping space (fpage_get_base kip_area) (virt_to_phys kip_addr) 0 False False s4)"

definition release_kernel_mapping :: "spacep \<Rightarrow> addr_t \<Rightarrow> addr_t \<Rightarrow> word_t \<Rightarrow> kstate \<Rightarrow> kstate option" where
  "release_kernel_mapping space vaddr paddr log2size s =
     (if is_addr_in_fpage (get_utcb_page_area space s) vaddr
      then map_option (\<lambda>m. upd_kmem m s)
             (kmem_free (phys_to_virt paddr) (push_bit (unat log2size) 1) (kmem s))
      else Some s)"

definition map_sigma0 :: "spacep \<Rightarrow> addr_t \<Rightarrow> kstate \<Rightarrow> kstate option" where
  "map_sigma0 space a s = space_add_mapping space a a 0 True False s"

definition sync_kernel_space :: "addr_t \<Rightarrow> bool" where "sync_kernel_space a \<longleftrightarrow> False"

definition map_dummy_tcb :: "addr_t \<Rightarrow> spacep \<Rightarrow> addr_t \<Rightarrow> kstate \<Rightarrow> kstate option" where
  "map_dummy_tcb dummy_tcb space a s = space_add_mapping space a (virt_to_phys dummy_tcb) 0 False True s"

definition allocate_tcb :: "addr_t \<Rightarrow> kstate \<Rightarrow> kstate option" where
  "allocate_tcb a s =
     (case kmem_alloc (page_size 0) (kmem s) of
        None \<Rightarrow> None
      | Some (page, m) \<Rightarrow>
          space_add_mapping (kernel_space s) a (virt_to_phys page) 0 True True (upd_kmem m s))"

text \<open>A page fresh from the allocator is zero, so the user thread control blocks in it are blank.\<close>

definition clear_utcbs :: "word_t \<Rightarrow> kstate \<Rightarrow> kstate" where
  "clear_utcbs page s =
     s\<lparr>utcbs := (\<lambda>u. case u of Utcb a \<Rightarrow> if a - page < page_size 0 then blank_utcb else utcbs s u
                      | _ \<Rightarrow> utcbs s u)\<rparr>"

definition MIPS64_ALIGN :: word_t where "MIPS64_ALIGN = push_bit 12 (16 * 1024 div 4096 div 2 - 1)"

definition allocate_utcb :: "spacep \<Rightarrow> tcbp \<Rightarrow> kstate \<Rightarrow> (utcbp \<times> kstate) option" where
  "allocate_utcb space t s =
     (let utcb = get_utcb_location t s in
      case lookup_mapping space utcb (kmem s) of
        Some (pg, pgsize) \<Rightarrow>
          let kaddr = addr_mask (pg_address pg pgsize (kmem s)) (NOT (page_mask pgsize))
          in Some (Utcb (phys_to_virt (addr_offset kaddr (utcb AND page_mask pgsize))), s)
      | None \<Rightarrow>
          (case kmem_alloc_aligned (page_size 0) utcb MIPS64_ALIGN (kmem s) of
             None \<Rightarrow> None
           | Some (page, m) \<Rightarrow>
               map_option (Pair (Utcb (addr_offset page (addr_mask utcb (page_size 0 - 1)))))
                 (space_add_mapping space utcb (virt_to_phys page) 0 True False
                    (clear_utcbs page (upd_kmem m s)))))"

definition utcb_to_kernel_space :: "spacep \<Rightarrow> addr_t \<Rightarrow> kstate \<Rightarrow> utcbp" where
  "utcb_to_kernel_space space utcb s =
     (case lookup_mapping space utcb (kmem s) of
        Some (pg, pgsize) \<Rightarrow> Utcb (phys_to_virt (tr_phys_addr (pg_raw (kmem s) pg)))
      | None \<Rightarrow> NULL_utcb)"

section \<open>System calls (space.cc)\<close>

definition sys_space_control ::
  "addr_t \<Rightarrow> threadid_t \<Rightarrow> word_t \<Rightarrow> fpage_t \<Rightarrow> fpage_t \<Rightarrow> threadid_t \<Rightarrow> kstate \<Rightarrow>
     ((word_t \<times> word_t) \<times> kstate) option" where
  "sys_space_control kip_addr space_tid control kip_area utcb_area redirector_tid s =
     (let fail = (\<lambda>e. Some ((0, 0), set_error_code (get_current_tcb s) e s));
          space_tcb = get_tcb space_tid;
          space = get_space space_tcb s
      in if \<not> is_privileged_space (get_current_space s) s then fail ENO_PRIVILEGE
         else if \<not> is_global space_tid then fail EINVALID_SPACE
         else if get_global_id space_tcb s \<noteq> space_tid then fail EINVALID_SPACE
         else if space_is_initialized space s then Some ((1, 0), s)
         else if get_minimal_size (kip_utcb_info (kip s)) > fpage_get_size utcb_area \<or>
                 \<not> is_user_area_fpage utcb_area then fail EUTCB_AREA
         else if kip_get_size (kip_kip_area_info (kip s)) > fpage_get_size kip_area \<or>
                 \<not> is_user_area_fpage kip_area \<or> is_overlapping kip_area utcb_area then fail EKIP_AREA
         else map_option (Pair (1, 0)) (space_init kip_addr space utcb_area kip_area s))"

fun unmap_loop :: "unmapper \<Rightarrow> nat \<Rightarrow> word_t \<Rightarrow> bool \<Rightarrow> kstate \<Rightarrow> kstate option" where
  "unmap_loop unmap 0 i flush s = Some s"
| "unmap_loop unmap (Suc n) i flush s =
     (case unmap (get_current_space s) (get_mr (get_current_tcb s) i s) flush False s of
        None \<Rightarrow> None
      | Some (f, s1) \<Rightarrow> unmap_loop unmap n (i + 1) flush (set_mr (get_current_tcb s1) i f s1))"

definition sys_unmap :: "unmapper \<Rightarrow> word_t \<Rightarrow> kstate \<Rightarrow> kstate option" where
  "sys_unmap unmap control s =
     unmap_loop unmap (unat (control AND 0x3f) + 1) 0 (control AND push_bit 6 1 \<noteq> 0) s"

section \<open>Areas\<close>

lemma is_user_area_unat: "is_user_area a \<longleftrightarrow> unat a < 2 ^ 40"
  by (simp add: is_user_area_def USER_AREA_START_def USER_AREA_END_def word_le_nat_alt) arith

lemma unat_fpage_last: "unat (fpage_get_size f - 1) = 2 ^ fp_log2 f - 1"
proof -
  have "1 \<le> fpage_get_size f" using unat_fpage_get_size [of f] by (simp add: word_le_nat_alt)
  then show ?thesis using unat_sub [of 1 "fpage_get_size f"] unat_fpage_get_size [of f] by simp
qed

lemma fp_end_le: "fp_lo f + 2 ^ fp_log2 f \<le> 2 ^ 64"
proof -
  have d: "(2 :: nat) ^ fp_log2 f dvd 2 ^ 64" using fp_log2_less [of f] by (intro le_imp_power_dvd) simp
  have lt: "fp_lo f < 2 ^ 64" unfolding fp_lo_def by (rule unat_lt64)
  obtain i j where "fp_lo f = 2 ^ fp_log2 f * i" "(2 :: nat) ^ 64 = 2 ^ fp_log2 f * j"
    using fp_lo_dvd [of f] d by (auto elim!: dvdE)
  with lt have "2 ^ fp_log2 f * i < 2 ^ fp_log2 f * j" by metis
  then have "i < j" by simp
  then have "2 ^ fp_log2 f * (i + 1) \<le> 2 ^ fp_log2 f * j" by (intro mult_le_mono2) simp
  then show ?thesis using \<open>fp_lo f = _\<close> \<open>2 ^ 64 = _\<close> by (simp add: algebra_simps)
qed

lemma is_user_area_fpage_range: "is_user_area_fpage f \<longleftrightarrow> fp_lo f + 2 ^ fp_log2 f \<le> 2 ^ 40"
proof -
  have "fp_lo f + (2 ^ fp_log2 f - 1) < 2 ^ 64" using fp_end_le [of f] by (simp add: less_eq_Suc_le [symmetric] Suc_le_eq)
  then have "unat (addr_offset (fpage_get_address f) (fpage_get_size f - 1)) = fp_lo f + (2 ^ fp_log2 f - 1)"
    unfolding addr_offset_def fp_lo_def using unat_add_no_wrap [of "fpage_get_address f" "fpage_get_size f - 1"]
    by (simp add: unat_fpage_last fp_lo_def)
  then have "is_user_area_fpage f \<longleftrightarrow> fp_lo f < 2 ^ 40 \<and> fp_lo f + (2 ^ fp_log2 f - 1) < 2 ^ 40"
    by (simp only: is_user_area_fpage_def is_user_area_unat fp_lo_def)
  moreover have "(0 :: nat) < 2 ^ fp_log2 f" by simp
  ultimately show ?thesis by linarith
qed

lemma disjoint_fpages:
  assumes "\<not> is_overlapping f g" and "fp_lo f + 2 ^ fp_log2 f < 2 ^ 64" and "fp_lo g + 2 ^ fp_log2 g < 2 ^ 64"
  shows "fp_range f \<inter> fp_range g = {}"
  using assms(1) intervals_meet [of "2 ^ fp_log2 f" "2 ^ fp_log2 g" "fp_lo f" "fp_lo g"]
  unfolding is_overlapping_bounds [OF assms(2,3)] fp_range_def by fastforce

text \<open>A flexpage that \<^verbatim>\<open>is_mappable\<close> admits lies in the user area and contains no address of
  the kernel interface page or of the user thread control blocks of the space.\<close>

theorem is_mappable_protects:
  assumes "is_mappable space f s" and "a \<in> fp_range f"
    and "is_user_area_fpage (get_kip_page_area space s)" and "is_user_area_fpage (get_utcb_page_area space s)"
  shows "a < 2 ^ 40 \<and> a \<notin> fp_range (get_kip_page_area space s) \<and> a \<notin> fp_range (get_utcb_page_area space s)"
proof -
  have f: "fp_lo f + 2 ^ fp_log2 f \<le> 2 ^ 40"
    using assms(1) by (simp only: is_mappable_def is_user_area_fpage_range)
  have lt: "fp_lo g + 2 ^ fp_log2 g < 2 ^ 64" if "fp_lo g + 2 ^ fp_log2 g \<le> 2 ^ 40" for g
    using that by (rule le_less_trans) simp
  note e = assms(3,4) [unfolded is_user_area_fpage_range, THEN lt]
  have "a < 2 ^ 40" using assms(2) f unfolding fp_range_def by auto
  moreover have "fp_range (get_kip_page_area space s) \<inter> fp_range f = {}"
    "fp_range (get_utcb_page_area space s) \<inter> fp_range f = {}"
    using assms(1) e lt [OF f] unfolding is_mappable_def by (metis disjoint_fpages)+
  ultimately show ?thesis using assms(2) by blast
qed

definition two_areas :: kstate where
  "two_areas = set_space_word 0x10000 kip_area_offset (fpage_set 0x200000 12 False False False)
     (set_space_word 0x10000 utcb_area_offset (fpage_set 0x400000 14 False False False) blank_state)"

lemma two_areas_eval:
  "get_kip_page_area 0x10000 two_areas = fpage_set 0x200000 12 False False False"
  "get_utcb_page_area 0x10000 two_areas = fpage_set 0x400000 14 False False False"
  by (simp_all add: two_areas_def get_kip_page_area_def get_utcb_page_area_def space_word_def set_space_word_def
      kip_area_offset_def utcb_area_offset_def)

theorem is_mappable_protects_witness:
  "is_mappable 0x10000 (fpage_set 0x1000 12 True True False) two_areas \<and>
   (0x1234 :: nat) \<notin> fp_range (get_kip_page_area 0x10000 two_areas)"
proof -
  let ?f = "fpage_set 0x1000 12 True True False"
  have m: "is_mappable 0x10000 ?f two_areas"
    unfolding is_mappable_def two_areas_eval is_user_area_fpage_range
    by (simp add: is_overlapping_def addr_offset_def fpage_get_size_def fpage_eval)
  have a: "(0x1234 :: nat) \<in> fp_range ?f" by (simp add: fp_range_def fpage_eval)
  have k: "is_user_area_fpage (get_kip_page_area 0x10000 two_areas)"
    "is_user_area_fpage (get_utcb_page_area 0x10000 two_areas)"
    unfolding two_areas_eval is_user_area_fpage_range by (simp_all add: fpage_eval)
  show ?thesis using m is_mappable_protects [OF m a k] by simp
qed

text \<open>The copy limit never reaches beyond the user area and never exceeds the request, for requests
  whose end does not wrap around.\<close>

theorem get_copy_limit_user:
  assumes "is_user_area a" and "unat a + unat limit < 2 ^ 64"
  shows "get_copy_limit a limit \<le> limit \<and> unat a + unat (get_copy_limit a limit) \<le> 2 ^ 40 - 1"
proof -
  have e: "unat (a + limit) = unat a + unat limit" using assms(2) by (intro unat_add_no_wrap) simp
  have u: "unat USER_AREA_END = 2 ^ 40 - 1" by (simp add: USER_AREA_END_def)
  have au: "a \<le> USER_AREA_END" using assms(1) by (simp add: is_user_area_def)
  then have d: "unat (USER_AREA_END - a) = 2 ^ 40 - 1 - unat a" using unat_sub u by metis
  have "unat a \<le> 2 ^ 40 - 1" using au u by (simp add: word_le_nat_alt)
  then show ?thesis
    using assms(1) e d u unfolding get_copy_limit_def word_le_nat_alt Let_def by auto
qed

theorem get_copy_limit_user_witness:
  "get_copy_limit 0xFFFFFFF000 0x2000 = 0xFFF \<and> get_copy_limit 0xFFFFFFF000 0x2000 \<le> 0x2000"
proof -
  have p: "is_user_area 0xFFFFFFF000" "unat (0xFFFFFFF000 :: word_t) + unat (0x2000 :: word_t) < 2 ^ 64"
    by (simp_all add: is_user_area_unat)
  show ?thesis using get_copy_limit_user [OF p] p(1) by (simp add: get_copy_limit_def USER_AREA_END_def)
qed

text \<open>C36: \<^verbatim>\<open>SpaceControl\<close> succeeds or fails completely: when it reports failure, nothing has
  changed but the error code of the caller; when it reports success, the caller was privileged
  and named an existing thread, and either the space was initialised before (and nothing changes) or the
  two areas are disjoint, lie in the user area and are large enough.\<close>

theorem sys_space_control_all_or_nothing:
  assumes "sys_space_control kip_addr tid control kip_area utcb_area redir s = Some ((r, c), s')"
  shows "(r = 0 \<longrightarrow> (\<exists>e. e \<noteq> EOK \<and> s' = set_error_code (get_current_tcb s) e s)) \<and>
    (r \<noteq> 0 \<longrightarrow> is_privileged_space (get_current_space s) s \<and> get_global_id (get_tcb tid) s = tid \<and>
      (if space_is_initialized (get_space (get_tcb tid) s) s then s' = s
       else is_user_area_fpage utcb_area \<and> is_user_area_fpage kip_area \<and>
         fp_range kip_area \<inter> fp_range utcb_area = {} \<and>
         get_minimal_size (kip_utcb_info (kip s)) \<le> fpage_get_size utcb_area \<and>
         kip_get_size (kip_kip_area_info (kip s)) \<le> fpage_get_size kip_area))"
proof -
  have lt: "fp_lo g + 2 ^ fp_log2 g < 2 ^ 64" if "is_user_area_fpage g" for g
    using that unfolding is_user_area_fpage_range by (rule le_less_trans) simp
  have ex: "\<exists>e. e \<noteq> EOK \<and> set_error_code t k s = set_error_code t e s" if "k \<noteq> EOK" for k t
    using that by blast
  have ne: "ENO_PRIVILEGE \<noteq> EOK" "EINVALID_SPACE \<noteq> EOK" "EUTCB_AREA \<noteq> EOK" "EKIP_AREA \<noteq> EOK"
    by (simp_all add: EOK_def ENO_PRIVILEGE_def EINVALID_SPACE_def EUTCB_AREA_def EKIP_AREA_def)
  show ?thesis
    using assms disjoint_fpages [OF _ lt lt, of kip_area utcb_area] ne [THEN ex, of "get_current_tcb s"]
    unfolding sys_space_control_def Let_def by (auto split: if_split_asm)
qed

theorem sys_space_control_all_or_nothing_witness:
  "\<exists>e. e \<noteq> EOK \<and> sys_space_control 0 0 0 0 0 0 (blank_state\<lparr>sigma0_space := 1, roottask_space := 1\<rparr>) =
     Some ((0, 0), set_error_code Idle_tcb e (blank_state\<lparr>sigma0_space := 1, roottask_space := 1\<rparr>))"
proof -
  let ?s = "blank_state\<lparr>sigma0_space := 1, roottask_space := 1\<rparr>"
  have r: "sys_space_control 0 0 0 0 0 0 ?s = Some ((0, 0), set_error_code Idle_tcb ENO_PRIVILEGE ?s)"
    by (simp add: sys_space_control_def is_privileged_space_def is_roottask_space_def is_sigma0_space_def
        is_sigma1_space_def get_current_space_def get_space_def get_current_tcb_def blank_state_def blank_tcb_def)
  have c: "get_current_tcb ?s = Idle_tcb" by (simp add: get_current_tcb_def blank_state_def)
  show ?thesis using sys_space_control_all_or_nothing [OF r] r c by auto
qed

end
