(* ===== verification/Unwind.thy ===== *)
theory Unwind
  imports Space
begin

text \<open>
  Aborting IPC operations (\<^verbatim>\<open>api/v4/thread.cc\<close>): saving and restoring the state of a
  thread around a kernel-generated IPC, the error codes of an aborted transfer,
  \<^verbatim>\<open>tcb_t::unwind\<close>, and the handlers that run in the aborted thread.

  \<^verbatim>\<open>unwind\<close> restarts itself (\<^verbatim>\<open>goto redo_unwind\<close>) after it has unwound a nested
  IPC.  It is modelled as a recursion that may be endless, and shown to return.
\<close>

section \<open>Save and restore\<close>

definition save_mrs :: "tcbp \<Rightarrow> kstate \<Rightarrow> kstate" where
  "save_mrs t s =
     set_misc t 2 (get_mr t 2 s) (set_misc t 1 (get_mr t 1 s) (set_misc t 0 (get_mr t 0 s) s))"

definition restore_mrs :: "tcbp \<Rightarrow> kstate \<Rightarrow> kstate" where
  "restore_mrs t s =
     set_mr t 2 (get_misc t 2 s) (set_mr t 1 (get_misc t 1 s) (set_mr t 0 (get_misc t 0 s) s))"

definition save_state :: "tcbp \<Rightarrow> kstate \<Rightarrow> kstate" where
  "save_state t s =
     (let s1 = save_mrs t s;
          s2 = set_misc t misc_saved_br0 (get_br t 0 s1) s1;
          s3 = set_misc t misc_saved_error (get_error_code t s2) s2;
          s4 = set_saved_partner t (get_partner t s3) s3
      in set_saved_state t (get_state t s4) s4)"

definition restore_state :: "tcbp \<Rightarrow> kstate \<Rightarrow> kstate" where
  "restore_state t s =
     (let s1 = restore_mrs t s;
          s2 = set_br t 0 (get_misc t misc_saved_br0 s1) s1;
          s3 = set_partner t (get_saved_partner t s2) s2;
          s4 = set_state t (get_saved_state t s3) s3;
          s5 = set_error_code t (get_misc t misc_saved_error s4) s4;
          s6 = set_saved_partner t nilthread s5
      in set_saved_state t aborted s6)"

section \<open>Unwinding\<close>

datatype unwind_reason_e = unwind_abort | unwind_timeout

definition calculate_errorcodes ::
  "unwind_reason_e \<Rightarrow> tcbp \<Rightarrow> tcbp \<Rightarrow> kstate \<Rightarrow> (word_t \<times> word_t) option" where
  "calculate_errorcodes reason sender receiver s =
     (let fault = get_misc sender misc_copy_fault s;
          offset = get_misc sender misc_copy_length s +
            (if is_copy_area fault then fault - get_misc sender misc_copy_start_dst s
             else fault - get_misc sender misc_copy_start_src s)
      in case reason of
           unwind_timeout \<Rightarrow>
             (case time_less (get_current_time s) (get_xfer_timeout_rcv receiver s) (get_xfer_timeout_snd sender s) of
                None \<Rightarrow> None
              | Some True \<Rightarrow> Some (IPC_SND_ERROR (ERR_IPC_XFER_TIMEOUT_PARTNER offset),
                                IPC_RCV_ERROR (ERR_IPC_XFER_TIMEOUT_CURRENT offset))
              | Some False \<Rightarrow> Some (IPC_SND_ERROR (ERR_IPC_XFER_TIMEOUT_CURRENT offset),
                                 IPC_RCV_ERROR (ERR_IPC_XFER_TIMEOUT_PARTNER offset)))
         | unwind_abort \<Rightarrow> Some (IPC_SND_ERROR (ERR_IPC_ABORTED offset),
                               IPC_RCV_ERROR (ERR_IPC_ABORTED offset)))"

definition abort_partner :: "tcbp \<Rightarrow> word_t \<Rightarrow> msg_tag_t \<Rightarrow> kstate \<Rightarrow> kstate" where
  "abort_partner partner err tag s =
     (let s1 = set_error_code partner err s;
          s2 = set_tag partner tag s1;
          s3 = set_state partner running s2;
          s4 = notify0 partner Handle_ipc_error s3
      in enqueue_ready partner False s4)"

partial_function (option) unwind_loop :: "unwind_reason_e \<Rightarrow> tcbp \<Rightarrow> msg_tag_t \<Rightarrow> kstate \<Rightarrow> kstate option" where
  "unwind_loop reason t tag s =
     (let cstate = get_state t s;
          s1 = set_state t running s;
          partner = get_partner_tcb t s1
      in if is_polling cstate \<or> is_waiting cstate
         then let s2 = cancel_timeout t s1;
                  s3 = (if is_polling cstate then dequeue_send t partner s2 else s2);
                  tag1 = (if is_polling cstate then tag else error_tag)
              in if \<not> is_nilthread (get_saved_partner t s3)
                 then unwind_loop reason t tag1 (restore_state t s3)
                 else let s4 = set_tag t (set_error tag1) s3;
                          err = (if reason = unwind_timeout then ERR_IPC_TIMEOUT else ERR_IPC_CANCELED)
                      in Some (set_error_code t (if is_polling cstate then IPC_SND_ERROR err
                                                 else IPC_RCV_ERROR err) s4)
         else if cstate = waiting_tunneled_pf
         then (case calculate_errorcodes reason t partner s1 of
                 None \<Rightarrow> None
               | Some (err_s, err_r) \<Rightarrow>
                   let s2 = abort_partner partner err_r (set_error tag) s1
                   in Some (set_error_code t err_s (set_tag t (set_error tag) s2)))
         else if cstate = locked_running_ipc_done
         then unwind_loop reason t tag (restore_state t s1)
         else if cstate = locked_running
         then (case calculate_errorcodes reason t partner s1 of
                 None \<Rightarrow> None
               | Some (err_s, err_r) \<Rightarrow>
                   let s2 = (if get_state partner s1 = locked_waiting \<and> get_partner partner s1 = get_global_id t s1
                             then abort_partner partner err_r (set_error tag) s1 else s1)
                   in if \<not> is_nilthread (get_saved_partner t s2)
                      then unwind_loop reason t (set_error tag) (restore_state t s2)
                      else Some (set_error_code t err_s (set_tag t (set_error tag) s2)))
         else if cstate = locked_running_nested
         then (case calculate_errorcodes reason partner t s1 of
                 None \<Rightarrow> None
               | Some (err_s, err_r) \<Rightarrow>
                   let s2 = (if get_state partner s1 = waiting_tunneled_pf
                             then abort_partner partner err_s (set_error tag) s1 else s1)
                   in Some (set_error_code t err_r (set_tag t (set_error tag) s2)))
         else if cstate = locked_waiting
         then (case calculate_errorcodes reason partner t s1 of
                 None \<Rightarrow> None
               | Some (err_s, err_r) \<Rightarrow>
                   let s2 = (if get_state partner s1 = locked_running
                             then abort_partner partner err_s (set_error tag) s1 else s1)
                   in if \<not> is_nilthread (get_saved_partner t s2)
                      then unwind_loop reason t (set_error tag) (restore_state t s2)
                      else Some (set_error_code t err_r (set_tag t (set_error tag) s2)))
         else Some s1)"

definition unwind :: "unwind_reason_e \<Rightarrow> tcbp \<Rightarrow> kstate \<Rightarrow> kstate option" where
  "unwind reason t s = unwind_loop reason t (get_tag t s) s"

section \<open>Handlers that run in the aborted thread\<close>

text \<open>The returns to user level that end both branches have empty bodies on mips64.\<close>

definition handle_ipc_error :: "kstate \<Rightarrow> kstate" where
  "handle_ipc_error s =
     (let current = get_current_tcb s;
          s1 = sub_flag current has_xfer_timeout (release_copy_area current s)
      in if is_running (get_saved_state current s1)
         then let s2 = restore_mrs current s1;
                  s3 = set_br current 0 (get_misc current misc_saved_br0 s2) s2;
                  s4 = set_partner current (get_saved_partner current s3) s3;
                  s5 = set_state current (get_saved_state current s4) s4;
                  s6 = set_saved_partner current nilthread s5
              in set_saved_state current aborted s6
         else set_saved_state current aborted s1)"

definition handle_ipc_timeout :: "thread_state_t \<Rightarrow> kstate \<Rightarrow> kstate option" where
  "handle_ipc_timeout state s =
     (let current = get_current_tcb s
      in case unwind unwind_timeout current (set_state current state s) of
           None \<Rightarrow> None
         | Some s1 \<Rightarrow> Some (handle_ipc_error (set_state current running s1)))"

section \<open>Frame facts\<close>

lemmas tcb_ops =
  set_state_def get_state_def set_partner_def get_partner_def get_partner_tcb_def set_saved_partner_def
  get_saved_partner_def set_saved_state_def get_saved_state_def set_tag_def get_tag_def set_mr_def get_mr_def
  set_br_def get_br_def set_misc_def get_misc_def set_error_code_def get_error_code_def get_utcb_def
  get_global_id_def notify0_def notify1_def

lemma dequeue_send_sel [simp]:
  "t_thread_state (tcbs (dequeue_send t p s) x) = t_thread_state (tcbs s x)"
  "t_partner (tcbs (dequeue_send t p s) x) = t_partner (tcbs s x)"
  "t_saved_partner (tcbs (dequeue_send t p s) x) = t_saved_partner (tcbs s x)"
  "t_saved_state (tcbs (dequeue_send t p s) x) = t_saved_state (tcbs s x)"
  "t_utcb (tcbs (dequeue_send t p s) x) = t_utcb (tcbs s x)"
  "t_misc (tcbs (dequeue_send t p s) x) = t_misc (tcbs s x)"
  "t_myself_global (tcbs (dequeue_send t p s) x) = t_myself_global (tcbs s x)"
  "t_myself_local (tcbs (dequeue_send t p s) x) = t_myself_local (tcbs s x)"
  "t_user_epc (tcbs (dequeue_send t p s) x) = t_user_epc (tcbs s x)"
  "t_user_sp (tcbs (dequeue_send t p s) x) = t_user_sp (tcbs s x)"
  "t_space (tcbs (dequeue_send t p s) x) = t_space (tcbs s x)"
  "utcbs (dequeue_send t p s) = utcbs s" "scheduler (dequeue_send t p s) = scheduler s"
  "current_tcb (dequeue_send t p s) = current_tcb s" "kmem (dequeue_send t p s) = kmem s"
  by (simp_all add: dequeue_send_def upd_send_links_def clear_queue_state_def Let_def split_def)

lemma dequeue_send_bits [simp]:
  "queue_state_is_set x q (dequeue_send t p s) \<longleftrightarrow> \<not> (x = t \<and> q = qs_send) \<and> queue_state_is_set x q s"
  by (auto simp: dequeue_send_def Let_def split_def queue_state_is_set_def upd_send_links_def clear_queue_state_def)

lemma cancel_timeout_bits [simp]:
  "queue_state_is_set x q (cancel_timeout t s) \<longleftrightarrow> \<not> (x = t \<and> q = qs_wakeup) \<and> queue_state_is_set x q s"
  by (auto simp: cancel_timeout_def Let_def split_def)

text \<open>What unwinding leaves alone: kernel memory, the identity, address space, user thread control block and
  user registers of each thread, its pager and handle, the current thread, and the transfer timeouts, on which the error codes of later rounds depend.\<close>

definition xfer_frame :: "kstate \<Rightarrow> kstate \<Rightarrow> bool" where
  "xfer_frame s s' \<longleftrightarrow> (\<forall>u. u_xfer_timeout (utcbs s' u) = u_xfer_timeout (utcbs s u) \<and>
       u_pager (utcbs s' u) = u_pager (utcbs s u) \<and>
       u_user_defined_handle (utcbs s' u) = u_user_defined_handle (utcbs s u)) \<and>
     (\<forall>x. t_utcb (tcbs s' x) = t_utcb (tcbs s x) \<and> t_user_epc (tcbs s' x) = t_user_epc (tcbs s x) \<and>
       t_user_sp (tcbs s' x) = t_user_sp (tcbs s x) \<and> t_space (tcbs s' x) = t_space (tcbs s x) \<and>
       t_myself_global (tcbs s' x) = t_myself_global (tcbs s x) \<and>
       t_myself_local (tcbs s' x) = t_myself_local (tcbs s x)) \<and>
     current_tcb s' = current_tcb s \<and> kmem s' = kmem s"

lemma xfer_frame_trans: "xfer_frame s s' \<Longrightarrow> xfer_frame s' s'' \<Longrightarrow> xfer_frame s s''"
  by (simp add: xfer_frame_def)

lemma xfer_frame_ops:
  "xfer_frame s s" "xfer_frame s (set_state t v s)" "xfer_frame s (cancel_timeout t s)"
  "xfer_frame s (dequeue_send t p s)" "xfer_frame s (set_tag t tg s)" "xfer_frame s (set_error_code t e s)"
  "xfer_frame s (abort_partner p e tg s)" "xfer_frame s (restore_state t s)"
  by (auto simp: xfer_frame_def tcb_ops abort_partner_def restore_state_def restore_mrs_def Let_def enqueue_ready_def)

definition no_time_points :: "kstate \<Rightarrow> bool" where
  "no_time_points s \<longleftrightarrow> (\<forall>u. \<not> time_is_point (get_snd (u_xfer_timeout (utcbs s u))) \<and>
     \<not> time_is_point (get_rcv (u_xfer_timeout (utcbs s u))))"

lemma no_time_points_frame: "xfer_frame s s' \<Longrightarrow> no_time_points s' = no_time_points s"
  by (simp add: xfer_frame_def no_time_points_def)

text \<open>The error codes can be computed unless a transfer timeout is a point in time.\<close>

abbreviation codes_ok :: "unwind_reason_e \<Rightarrow> kstate \<Rightarrow> bool" where
  "codes_ok reason s \<equiv> reason = unwind_abort \<or> no_time_points s"

lemma calculate_errorcodes_ok:
  "codes_ok reason s \<Longrightarrow> \<exists>es er. calculate_errorcodes reason x y s = Some (es, er)"
  by (cases reason)
    (auto simp: calculate_errorcodes_def Let_def no_time_points_def get_xfer_timeout_rcv_def
      get_xfer_timeout_snd_def time_less_def split: bool.splits)

lemma restore_state_sel:
  "get_state t (restore_state t s) = t_saved_state (tcbs s t)"
  "t_saved_partner (tcbs (restore_state t s) t) = nilthread"
  "t_saved_state (tcbs (restore_state t s) t) = aborted"
  by (simp_all add: restore_state_def restore_mrs_def Let_def tcb_ops)

text \<open>The round that does not restart: everything is decided within it and leaves the thread
  running.\<close>

definition unwound :: "tcbp \<Rightarrow> kstate \<Rightarrow> kstate option \<Rightarrow> bool" where
  "unwound t s r \<longleftrightarrow> (\<exists>s'. r = Some s' \<and> get_state t s' = running \<and> xfer_frame s s')"

lemma abort_partner_sel [simp]:
  "t_thread_state (tcbs (abort_partner p e tg s) x) = (if x = p then running else t_thread_state (tcbs s x))"
  "t_saved_partner (tcbs (abort_partner p e tg s) x) = t_saved_partner (tcbs s x)"
  "t_saved_state (tcbs (abort_partner p e tg s) x) = t_saved_state (tcbs s x)"
  by (simp_all add: abort_partner_def Let_def tcb_ops enqueue_ready_def)

lemma unwound_finish:
  assumes "xfer_frame s s2" and "get_state t s2 = running"
  shows "unwound t s (Some (set_error_code t e (set_tag t tg s2)))"
proof -
  have "get_state t (set_error_code t e (set_tag t tg s2)) = running" using assms(2) by (simp add: tcb_ops)
  moreover have "xfer_frame s (set_error_code t e (set_tag t tg s2))"
    using assms(1) xfer_frame_trans xfer_frame_ops(5,6) by blast
  ultimately show ?thesis by (simp add: unwound_def)
qed

definition redoes :: "unwind_reason_e \<Rightarrow> tcbp \<Rightarrow> kstate \<Rightarrow> kstate option \<Rightarrow> bool" where
  "redoes reason t s r \<longleftrightarrow> (\<exists>tag' s2. r = unwind_loop reason t tag' (restore_state t s2) \<and> xfer_frame s s2 \<and>
     t_saved_state (tcbs s2 t) = t_saved_state (tcbs s t) \<and>
     (t_saved_partner (tcbs s t) \<noteq> nilthread \<or> get_state t s = locked_running_ipc_done))"

lemma redoesI:
  "xfer_frame s s2 \<Longrightarrow> t_saved_state (tcbs s2 t) = t_saved_state (tcbs s t) \<Longrightarrow>
   t_saved_partner (tcbs s t) \<noteq> nilthread \<or> get_state t s = locked_running_ipc_done \<Longrightarrow>
   redoes reason t s (unwind_loop reason t tag' (restore_state t s2))"
  unfolding redoes_def by blast

lemma running_sel: "t_thread_state (tcbs (set_state t v s) x) = (if x = t then v else t_thread_state (tcbs s x))"
  "t_saved_partner (tcbs (set_state t v s) x) = t_saved_partner (tcbs s x)"
  "t_saved_state (tcbs (set_state t v s) x) = t_saved_state (tcbs s x)"
  by (simp_all add: set_state_def)

lemma unwind_round:
  assumes "codes_ok reason s"
  shows "unwound t s (unwind_loop reason t tag s) \<or> redoes reason t s (unwind_loop reason t tag s)"
proof -
  let ?s1 = "set_state t running s"
  let ?p = "get_partner_tcb t ?s1"
  have ok: "codes_ok reason ?s1" using assms no_time_points_frame [OF xfer_frame_ops(2)] by simp
  obtain es er where c1: "calculate_errorcodes reason t ?p ?s1 = Some (es, er)"
    using calculate_errorcodes_ok [OF ok] by blast
  obtain es' er' where c2: "calculate_errorcodes reason ?p t ?s1 = Some (es', er')"
    using calculate_errorcodes_ok [OF ok] by blast
  have ab: "xfer_frame s (if b then abort_partner ?p e tg ?s1 else ?s1)"
    "get_state t (if b then abort_partner ?p e tg ?s1 else ?s1) = running"
    "t_saved_state (tcbs (if b then abort_partner ?p e tg ?s1 else ?s1) t) = t_saved_state (tcbs s t)"
    "t_saved_partner (tcbs (if b then abort_partner ?p e tg ?s1 else ?s1) t) = t_saved_partner (tcbs s t)" for b e tg
    using xfer_frame_trans [OF xfer_frame_ops(2) xfer_frame_ops(7)] xfer_frame_ops(2)
    by (auto simp: get_state_def running_sel)
  let ?s3 = "if is_polling (get_state t s) then dequeue_send t ?p (cancel_timeout t ?s1) else cancel_timeout t ?s1"
  have w: "xfer_frame s ?s3" "get_state t ?s3 = running" "t_saved_state (tcbs ?s3 t) = t_saved_state (tcbs s t)"
    "t_saved_partner (tcbs ?s3 t) = t_saved_partner (tcbs s t)"
    using xfer_frame_trans [OF xfer_frame_ops(2) xfer_frame_trans [OF xfer_frame_ops(3) xfer_frame_ops(4)]]
      xfer_frame_trans [OF xfer_frame_ops(2) xfer_frame_ops(3)]
    by (auto simp: get_state_def running_sel)
  have r0: "unwound t s (Some ?s1)" unfolding unwound_def using xfer_frame_ops(2) by (simp add: get_state_def running_sel)
  let ?c = "get_state t s" and ?sp = "is_nilthread (t_saved_partner (tcbs s t))"
  let ?r = "unwind_loop reason t tag s"
  note e = unwind_loop.simps [of reason t tag s, unfolded Let_def]
  have sp: "t_saved_partner (tcbs s t) \<noteq> nilthread" if "\<not> ?sp"
    using that by (auto simp: is_nilthread_def nilthread_def)
  have fin: ?thesis if "?r = (if \<not> ?sp then unwind_loop reason t tg (restore_state t s2)
      else Some (set_error_code t er (set_tag t tg' s2)))"
    "xfer_frame s s2" "get_state t s2 = running" "t_saved_state (tcbs s2 t) = t_saved_state (tcbs s t)"
    for tg tg' er s2
    using that unwound_finish [OF that(2,3)] redoesI [OF that(2,4) disjI1 [OF sp]] by (cases ?sp) simp_all
  consider "is_polling ?c \<or> is_waiting ?c" | "\<not> (is_polling ?c \<or> is_waiting ?c)" by blast
  then show ?thesis
  proof cases
    case 1
    have "is_nilthread (get_saved_partner t ?s3) = ?sp" using w(4) by (simp add: get_saved_partner_def)
    then show ?thesis using e 1 by (intro fin [OF _ w(1-3)]) (simp only: simp_thms if_True)
  next
    case 2
    have g: "is_nilthread (get_saved_partner t (if b then abort_partner ?p e tg ?s1 else ?s1)) = ?sp" for b e tg
      using ab(4) by (simp add: get_saved_partner_def)
    consider "?c = waiting_tunneled_pf" | "?c = locked_running_ipc_done" "?c \<noteq> waiting_tunneled_pf"
      | "?c = locked_running" "?c \<noteq> locked_running_ipc_done" "?c \<noteq> waiting_tunneled_pf"
      | "?c = locked_running_nested" "?c \<noteq> locked_running" "?c \<noteq> locked_running_ipc_done" "?c \<noteq> waiting_tunneled_pf"
      | "?c = locked_waiting" "?c \<noteq> locked_running_nested" "?c \<noteq> locked_running" "?c \<noteq> locked_running_ipc_done"
        "?c \<noteq> waiting_tunneled_pf"
      | "?c \<noteq> locked_waiting" "?c \<noteq> locked_running_nested" "?c \<noteq> locked_running" "?c \<noteq> locked_running_ipc_done"
        "?c \<noteq> waiting_tunneled_pf" by blast
    then show ?thesis
    proof cases
      case 1
      then have "?r = Some (set_error_code t es (set_tag t (set_error tag) (abort_partner ?p er (set_error tag) ?s1)))"
        using e 2 c1 by (simp only: simp_thms if_True if_False option.case prod.case)
      then show ?thesis using unwound_finish [OF ab(1) [of True] ab(2) [of True]] by (simp only: if_True simp_thms)
    next
      case c: 2
      have "?r = unwind_loop reason t tag (restore_state t ?s1)" using e 2 c by (simp only: simp_thms if_True if_False)
      then show ?thesis using redoesI [OF xfer_frame_ops(2), of t running s t] c running_sel(3) by metis
    next
      case c: 3
      then show ?thesis using e 2 c1 g
        by (intro fin [OF _ ab(1-3)]) (simp only: simp_thms if_True if_False option.case prod.case)
    next
      case c: 4
      then have "\<exists>b. ?r = Some (set_error_code t er' (set_tag t (set_error tag)
          (if b then abort_partner ?p es' (set_error tag) ?s1 else ?s1)))"
        using e 2 c2 by (simp only: simp_thms if_True if_False option.case prod.case) blast
      then show ?thesis using unwound_finish [OF ab(1,2)] by metis
    next
      case c: 5
      then show ?thesis using e 2 c2 g
        by (intro fin [OF _ ab(1-3)]) (simp only: simp_thms if_True if_False option.case prod.case)
    next
      case c: 6
      then have "?r = Some ?s1" using e 2 by (simp only: simp_thms if_False)
      then show ?thesis using r0 by simp
    qed
  qed
qed

lemma unwound_trans: "xfer_frame s s2 \<Longrightarrow> unwound t s2 r \<Longrightarrow> unwound t s r"
  unfolding unwound_def using xfer_frame_trans by blast

lemma aborted_not_done: "aborted \<noteq> locked_running_ipc_done"
  by (simp add: aborted_def locked_running_ipc_done_def BLOCKED_STATE_def RUNNABLE_STATE_def)

lemma unwind_redo:
  assumes "redoes reason t s r" and "codes_ok reason s"
    and "\<And>s2 tag'. xfer_frame s s2 \<Longrightarrow> codes_ok reason (restore_state t s2) \<Longrightarrow>
      t_saved_state (tcbs s2 t) = t_saved_state (tcbs s t) \<Longrightarrow>
      unwound t (restore_state t s2) (unwind_loop reason t tag' (restore_state t s2))"
  shows "unwound t s r"
proof -
  obtain tag' s2 where r: "r = unwind_loop reason t tag' (restore_state t s2)" and f: "xfer_frame s s2"
    and ss: "t_saved_state (tcbs s2 t) = t_saved_state (tcbs s t)" using assms(1) by (auto simp: redoes_def)
  have f2: "xfer_frame s (restore_state t s2)" using f xfer_frame_ops(8) xfer_frame_trans by blast
  then have "codes_ok reason (restore_state t s2)" using assms(2) no_time_points_frame by blast
  then show ?thesis using unwound_trans [OF f2 assms(3) [OF f _ ss]] by (simp add: r)
qed

text \<open>At most three rounds: each restart clears the saved partner and leaves an aborted saved state.\<close>

lemma unwind_third:
  assumes "codes_ok reason s" and "t_saved_partner (tcbs s t) = nilthread" and "get_state t s = aborted"
  shows "unwound t s (unwind_loop reason t tag s)"
  using unwind_round [OF assms(1), of t tag] assms(2,3) aborted_not_done unfolding redoes_def by metis

lemma unwind_second:
  assumes "codes_ok reason s" and "t_saved_partner (tcbs s t) = nilthread" and "t_saved_state (tcbs s t) = aborted"
  shows "unwound t s (unwind_loop reason t tag s)"
  using unwind_round [OF assms(1), of t tag]
proof
  assume "redoes reason t s (unwind_loop reason t tag s)"
  then show ?thesis
    by (rule unwind_redo [OF _ assms(1)]) (rule unwind_third, simp_all add: restore_state_sel assms(3))
qed

lemma unwind_first:
  assumes "codes_ok reason s" shows "unwound t s (unwind_loop reason t tag s)"
  using unwind_round [OF assms, of t tag]
proof
  assume "redoes reason t s (unwind_loop reason t tag s)"
  then show ?thesis
    by (rule unwind_redo [OF _ assms]) (rule unwind_second, simp_all add: restore_state_sel)
qed

text \<open>C11: unwinding a thread from its IPC always returns, whatever state the thread is in and however IPCs
  are nested, if the reason is an abort or no transfer timeout is a point in time; the
  thread is running afterwards, and the identity, address space, UTCB, user registers, pager and transfer timeouts
  of every thread, kernel memory and the current thread are unchanged.\<close>

theorem unwind_returns:
  assumes "reason = unwind_abort \<or> no_time_points s"
  shows "\<exists>s'. unwind reason t s = Some s' \<and> get_state t s' = running \<and> xfer_frame s s'"
  using unwind_first [OF assms] by (simp add: unwind_def unwound_def)

theorem unwind_returns_witness:
  "no_time_points blank_state \<and> (\<exists>s'. unwind unwind_timeout (Tcb 1) blank_state = Some s' \<and>
     get_state (Tcb 1) s' = running)"
proof -
  have p: "unwind_timeout = unwind_abort \<or> no_time_points blank_state"
    by (simp add: no_time_points_def blank_state_def blank_utcb_def time_is_point_def time_type_def get_snd_def
        get_rcv_def bf_get_def)
  show ?thesis using p unwind_returns [OF p] by auto
qed

text \<open>The wakeup list depends only on its head, its links and the wakeup marks; a thread whose timeout
  is cancelled leaves it.\<close>

lemma wakeup_inv_cong:
  assumes "wakeup_inv s ws" and "scheduler s' = scheduler s" and "wait_links s' = wait_links s"
    and "\<And>x. queue_state_is_set x qs_wakeup s' \<longleftrightarrow> queue_state_is_set x qs_wakeup s"
  shows "wakeup_inv s' ws"
  using assms by (simp add: wakeup_inv_def)

lemma wakeup_inv_cancel: "wakeup_inv s ws \<Longrightarrow> wakeup_inv (cancel_timeout t s) (remove1 t ws)"
  using cancel_timeout_inv [of s ws t]
  by (cases "t \<in> set ws") (auto simp: remove1_idem wakeup_inv_def cancel_timeout_def)

lemma wakeup_inv_ops:
  "wakeup_inv s ws \<Longrightarrow> wakeup_inv (set_state t st s) ws"
  "wakeup_inv s ws \<Longrightarrow> wakeup_inv (set_partner t p s) ws"
  "wakeup_inv s ws \<Longrightarrow> wakeup_inv (set_tag t tg s) ws"
  "wakeup_inv s ws \<Longrightarrow> wakeup_inv (set_error_code t e s) ws"
  "wakeup_inv s ws \<Longrightarrow> wakeup_inv (dequeue_send t q s) ws"
  by (erule wakeup_inv_cong; auto simp: fun_eq_iff wait_links_def set_state_def set_partner_def set_tag_def
      set_mr_def set_error_code_def queue_state_is_set_def dequeue_send_def upd_send_links_def
      clear_queue_state_def Let_def split_def)+

text \<open>The result of unwinding a thread that polls or waits, outside a nested IPC.\<close>

definition unwound_before :: "unwind_reason_e \<Rightarrow> tcbp \<Rightarrow> kstate \<Rightarrow> kstate" where
  "unwound_before reason t s =
     (let s1 = cancel_timeout t (set_state t running s);
          e = (if reason = unwind_timeout then ERR_IPC_TIMEOUT else ERR_IPC_CANCELED)
      in if is_polling (get_state t s)
         then set_error_code t (IPC_SND_ERROR e)
           (set_tag t (set_error (get_tag t s)) (dequeue_send t (get_partner_tcb t s) s1))
         else set_error_code t (IPC_RCV_ERROR e) (set_tag t (set_error error_tag) s1))"

lemma unwind_before_eq:
  assumes "is_polling (get_state t s) \<or> is_waiting (get_state t s)" and "get_saved_partner t s = nilthread"
  shows "unwind reason t s = Some (unwound_before reason t s)"
proof -
  let ?s1 = "set_state t running s"
  have p: "get_partner_tcb t ?s1 = get_partner_tcb t s" by (simp add: tcb_ops)
  have nil: "is_nilthread (get_saved_partner t (cancel_timeout t ?s1))"
    "is_nilthread (get_saved_partner t (dequeue_send t (get_partner_tcb t s) (cancel_timeout t ?s1)))"
    using assms(2) by (simp_all add: get_saved_partner_def running_sel is_nilthread_def nilthread_def)
  note e = unwind_loop.simps [of reason t "get_tag t s" s, unfolded Let_def p]
  show ?thesis
  proof (cases "is_polling (get_state t s)")
    case True
    then show ?thesis
      unfolding unwind_def unwound_before_def Let_def e using nil by (simp only: simp_thms if_True if_False)
  next
    case False
    with assms(1) have "is_waiting (get_state t s)" by blast
    with False show ?thesis
      unfolding unwind_def unwound_before_def Let_def e using nil by (simp only: simp_thms if_True if_False)
  qed
qed

text \<open>C34: an IPC that the kernel makes on behalf of a thread is transparent to it: whatever happens between
  \<^verbatim>\<open>save_state\<close> and \<^verbatim>\<open>restore_state\<close>, provided the saved words survive, the message registers
  0 to 2, buffer register 0, error code, partner and state are those before, and a further nested
  IPC can be made.\<close>

theorem save_restore_roundtrip:
  assumes "t_misc (tcbs s1 t) = t_misc (tcbs (save_state t s) t)"
    and "get_saved_partner t s1 = get_saved_partner t (save_state t s)"
    and "get_saved_state t s1 = get_saved_state t (save_state t s)"
  shows "(\<forall>i \<in> {0, 1, 2}. get_mr t i (restore_state t s1) = get_mr t i s) \<and>
    get_br t 0 (restore_state t s1) = get_br t 0 s \<and>
    get_error_code t (restore_state t s1) = get_error_code t s \<and>
    get_partner t (restore_state t s1) = get_partner t s \<and> get_state t (restore_state t s1) = get_state t s \<and>
    get_saved_partner t (restore_state t s1) = nilthread \<and> get_saved_state t (restore_state t s1) = aborted"
  using assms
  by (simp add: restore_state_def restore_mrs_def save_state_def save_mrs_def Let_def tcb_ops)

theorem save_restore_roundtrip_witness:
  "get_mr (Tcb 1) 1 (restore_state (Tcb 1) (set_mr (Tcb 1) 1 7 (save_state (Tcb 1) (set_mr (Tcb 1) 1 5 blank_state)))) = 5"
proof -
  let ?s = "set_mr (Tcb 1) 1 5 blank_state"
  let ?s1 = "set_mr (Tcb 1) 1 7 (save_state (Tcb 1) ?s)"
  have p: "t_misc (tcbs ?s1 (Tcb 1)) = t_misc (tcbs (save_state (Tcb 1) ?s) (Tcb 1))"
    "get_saved_partner (Tcb 1) ?s1 = get_saved_partner (Tcb 1) (save_state (Tcb 1) ?s)"
    "get_saved_state (Tcb 1) ?s1 = get_saved_state (Tcb 1) (save_state (Tcb 1) ?s)"
    by (simp_all add: tcb_ops)
  have "get_mr (Tcb 1) 1 ?s = 5" by (simp add: tcb_ops)
  then show ?thesis using save_restore_roundtrip [OF p] by simp
qed

end
