(* ===== verification/Ipc.thy ===== *)
theory Ipc
  imports Unwind "HOL-Library.Monad_Syntax"
begin

text \<open>
  The IPC system call (\<^verbatim>\<open>ipc.cc\<close>) and the IPCs that the kernel itself makes
  (\<^verbatim>\<open>do_ipc\<close>, page fault and preemption messages).

  A call of \<^verbatim>\<open>switch_to\<close> in the middle of the system call gives the processor to another thread;
  the statements after it run when the caller is dispatched again.  What happens in between is the
  argument \<^verbatim>\<open>sw\<close> of the model: \<^term>\<open>sw current dest s\<close> is the state in which the call of
  \<^verbatim>\<open>switch_to\<close> returns, \<^term>\<open>None\<close> if it never does.  The body that
  \<^verbatim>\<open>glue/v4-mips64/tcb.h\<close> has (it sets the current thread and returns at once) is the
  instance \<^verbatim>\<open>switch_now\<close>.  The copying of typed items, \<^verbatim>\<open>extended_transfer\<close> of
  \<^verbatim>\<open>ipcx.cc\<close>, is the argument \<^verbatim>\<open>xfer\<close>.
\<close>

type_synonym switcher = "tcbp \<Rightarrow> tcbp \<Rightarrow> kstate \<Rightarrow> kstate option"

type_synonym typed_transfer = "tcbp \<Rightarrow> tcbp \<Rightarrow> msg_tag_t \<Rightarrow> kstate \<Rightarrow> (msg_tag_t \<times> kstate) option"

definition switch_now :: switcher where "switch_now this dest s = Some (switch_to this dest s)"

section \<open>Message transfer\<close>

definition transfer_message :: "typed_transfer \<Rightarrow> tcbp \<Rightarrow> tcbp \<Rightarrow> kstate \<Rightarrow> (bool \<times> kstate) option" where
  "transfer_message xfer src dst s =
     (let tag = clear_receive_flags (get_tag src s);
          s1 = (if is_propagated tag then set_actual_sender dst (get_global_id src s) s else s);
          s2 = (if get_untyped tag \<noteq> 0 then copy_mrs src dst 1 (get_untyped tag) s1 else s1)
      in if get_typed tag = 0 then Some (True, set_tag dst tag s2)
         else do {
           (tag1, s3) \<leftarrow> xfer src dst tag s2;
           Some (\<not> is_error tag1, set_tag dst tag1 s3)
         })"

section \<open>The send phase\<close>

text \<open>The thread id the receiver sees: the virtual sender if propagation is permitted; otherwise
  the propagation flag is cleared.\<close>

definition ipc_sender_id :: "tcbp \<Rightarrow> tcbp \<Rightarrow> kstate \<Rightarrow> threadid_t \<times> kstate" where
  "ipc_sender_id current to_tcb s =
     (if is_propagated (get_tag current s)
      then let virt_sender = get_tcb (get_virtual_sender current s)
           in if get_virtual_sender current s = get_global_id virt_sender s \<and>
                 (get_space current s = get_space virt_sender s \<or> get_space current s = get_space to_tcb s)
              then (get_virtual_sender current s, s)
              else (get_global_id current s, set_tag current (set_propagated False (get_tag current s)) s)
      else (get_global_id current s, s))"

definition is_receiver_ready :: "tcbp \<Rightarrow> tcbp \<Rightarrow> threadid_t \<Rightarrow> kstate \<Rightarrow> bool" where
  "is_receiver_ready current to_tcb sender_id s \<longleftrightarrow>
     \<not> (\<not> is_waiting (get_state to_tcb s) \<or>
        (get_partner to_tcb s \<noteq> sender_id \<and> \<not> is_anythread (get_partner to_tcb s) \<and>
         \<not> (is_anylocalthread (get_partner to_tcb s) \<and> get_space to_tcb s = get_space current s)))"

text \<open>The sender blocks: it joins the send queue of the receiver and polls.\<close>

definition ipc_send_block :: "tcbp \<Rightarrow> tcbp \<Rightarrow> threadid_t \<Rightarrow> kstate \<Rightarrow> kstate" where
  "ipc_send_block current to_tcb to_tid s =
     set_state current polling (set_partner current to_tid (enqueue_send current to_tcb s))"

definition ipc_send_unblock :: "tcbp \<Rightarrow> tcbp \<Rightarrow> kstate \<Rightarrow> kstate" where
  "ipc_send_unblock current to_tcb s = dequeue_send current to_tcb (cancel_timeout current s)"

text \<open>The result of the send phase: an early return of the system call (\<^term>\<open>Inl\<close>) or the state
  with which it goes on.\<close>

definition ipc_transfer ::
  "typed_transfer \<Rightarrow> tcbp \<Rightarrow> threadid_t \<Rightarrow> threadid_t \<Rightarrow> kstate \<Rightarrow> (threadid_t \<times> kstate + kstate) option" where
  "ipc_transfer xfer current to_tid sender_id s =
     (let to_tcb = get_tcb to_tid
      in do {
        (ok, s1) \<leftarrow> transfer_message xfer current to_tcb (set_partner to_tcb sender_id s);
        if ok then Some (Inr s1)
        else let s2 = set_tag current (get_tag to_tcb s1) s1;
                 s3 = (if is_local_cpu to_tcb s2
                       then enqueue_ready to_tcb False (set_state to_tcb running s2) else s2)
             in Some (Inl (to_tid, s3))
      })"

definition ipc_send ::
  "typed_transfer \<Rightarrow> switcher \<Rightarrow> tcbp \<Rightarrow> threadid_t \<Rightarrow> timeout_t \<Rightarrow> kstate \<Rightarrow>
     (threadid_t \<times> kstate + kstate) option" where
  "ipc_send xfer sw current to_tid timeout s =
     (let to_tcb = get_tcb to_tid
      in if get_global_id to_tcb s \<noteq> to_tid
         then Some (Inl (nilthread, set_tag current error_tag
                (set_error_code current (IPC_SND_ERROR ERR_IPC_NON_EXISTING) s)))
         else let (sender_id, s1) = ipc_sender_id current to_tcb s
              in if is_receiver_ready current to_tcb sender_id s1
                 then ipc_transfer xfer current to_tid sender_id s1
                 else if \<not> time_is_never (get_snd timeout) \<and> time_is_zero (get_snd timeout)
                 then Some (Inl (nilthread, set_error_code current (IPC_SND_ERROR ERR_IPC_TIMEOUT)
                        (set_tag current error_tag (set_state current running s1))))
                 else do {
                   s2 \<leftarrow> (if \<not> time_is_never (get_snd timeout)
                         then set_timeout current (get_snd timeout) s1 else Some s1);
                   s3 \<leftarrow> sw current Idle_tcb (ipc_send_block current to_tcb to_tid s2);
                   ipc_transfer xfer current to_tid sender_id (ipc_send_unblock current to_tcb s3)
                 })"

section \<open>The end of a send-only call\<close>

definition ipc_reply :: "switcher \<Rightarrow> tcbp \<Rightarrow> tcbp option \<Rightarrow> kstate \<Rightarrow> kstate option" where
  "ipc_reply sw current to s =
     (case to of
        None \<Rightarrow> Some s
      | Some to_tcb \<Rightarrow>
          let s1 = (if is_nilthread (get_saved_partner to_tcb s) then set_state to_tcb running s
                    else set_state to_tcb locked_running_ipc_done s);
              s2 = set_state current running s1
          in if check_dispatch_thread current to_tcb s2
             then sw current to_tcb (enqueue_ready current False s2)
             else Some (enqueue_ready to_tcb False (cancel_timeout to_tcb s2)))"

section \<open>The receive phase\<close>

definition is_sender_ready :: "tcbp \<Rightarrow> tcbp \<Rightarrow> kstate \<Rightarrow> bool" where
  "is_sender_ready current from_tcb s \<longleftrightarrow>
     \<not> (from_tcb = NULL_tcb \<or> \<not> is_polling (get_state from_tcb s) \<or>
        (get_partner from_tcb s \<noteq> get_global_id current s \<and>
         get_partner from_tcb s \<noteq> t_myself_local (tcbs s current)))"

definition ipc_receive_block ::
  "switcher \<Rightarrow> tcbp \<Rightarrow> tcbp option \<Rightarrow> threadid_t \<Rightarrow> timeout_t \<Rightarrow> kstate \<Rightarrow> (threadid_t \<times> kstate) option" where
  "ipc_receive_block sw current to from_tid timeout s =
     (let rcv = get_rcv timeout;
          s1 = (if \<not> time_is_never rcv
                then set_error_code current (IPC_RCV_ERROR ERR_IPC_TIMEOUT) s else s)
      in if \<not> time_is_never rcv \<and> time_is_zero rcv
         then let s2 = set_state current running (set_tag current error_tag s1)
              in do {
                s3 \<leftarrow> (case to of None \<Rightarrow> Some s2
                        | Some to_tcb \<Rightarrow> sw current to_tcb (enqueue_ready current False s2));
                Some (nilthread, s3)
              }
         else do {
           s2 \<leftarrow> (if \<not> time_is_never rcv
                 then do { s' \<leftarrow> set_timeout current rcv s1; Some (set_state current waiting_timeout s') }
                 else Some (set_state current waiting_forever s1));
           s3 \<leftarrow> sw current (case to of None \<Rightarrow> Idle_tcb | Some to_tcb \<Rightarrow> to_tcb) (set_partner current from_tid s2);
           let s4 = set_state current running (cancel_timeout current s3) in
           Some (get_partner current s4, s4)
         })"

definition ipc_receive_now ::
  "switcher \<Rightarrow> tcbp \<Rightarrow> tcbp option \<Rightarrow> tcbp \<Rightarrow> kstate \<Rightarrow> (threadid_t \<times> kstate) option" where
  "ipc_receive_now sw current to from_tcb s =
     (let s1 = set_state current locked_waiting (set_state from_tcb locked_running s)
      in do {
        s2 \<leftarrow> (case to of
                 None \<Rightarrow> sw current from_tcb s1
               | Some to_tcb \<Rightarrow>
                   if check_dispatch_thread from_tcb to_tcb s1
                   then sw current to_tcb (enqueue_ready from_tcb False (cancel_timeout from_tcb s1))
                   else sw current from_tcb (enqueue_ready to_tcb False (set_state to_tcb running s1)));
        let s3 = set_state current running s2 in Some (get_partner current s3, s3)
      })"

definition ipc_receive ::
  "switcher \<Rightarrow> tcbp \<Rightarrow> tcbp option \<Rightarrow> threadid_t \<Rightarrow> threadid_t \<Rightarrow> timeout_t \<Rightarrow> kstate \<Rightarrow>
     (threadid_t \<times> kstate) option" where
  "ipc_receive sw current to to_tid from_tid timeout s =
     (if from_tid = to_tid \<and> timeout_is_never timeout
      then do {
        s1 \<leftarrow> sw current (case to of None \<Rightarrow> NULL_tcb | Some to_tcb \<Rightarrow> to_tcb)
               (set_state current waiting_forever (set_partner current from_tid s));
        let s2 = set_state current running s1 in Some (get_partner current s2, s2)
      }
      else
        let open_wait = is_anythread from_tid \<or> is_anylocalthread from_tid;
            from_tcb = (if open_wait then t_send_head (tcbs s current) else get_tcb from_tid)
        in if \<not> open_wait \<and> get_global_id from_tcb s \<noteq> from_tid \<and>
              (get_space from_tcb s \<noteq> get_space current s \<or> get_local_id from_tcb s \<noteq> from_tid)
           then Some (nilthread, set_error_code current (IPC_RCV_ERROR ERR_IPC_NON_EXISTING)
                  (set_tag current error_tag s))
           else if \<not> is_sender_ready current from_tcb s
           then ipc_receive_block sw current to from_tid timeout s
           else ipc_receive_now sw current to from_tcb s)"

section \<open>The system call\<close>

text \<open>What follows the send phase: its early return, or the end of a send-only call, or the
  receive phase.\<close>

definition ipc_finish ::
  "switcher \<Rightarrow> tcbp \<Rightarrow> threadid_t \<Rightarrow> threadid_t \<Rightarrow> timeout_t \<Rightarrow> (threadid_t \<times> kstate + kstate) \<Rightarrow>
     (threadid_t \<times> kstate) option" where
  "ipc_finish sw current to_tid from_tid timeout r =
     (case r of
        Inl result \<Rightarrow> Some result
      | Inr s1 \<Rightarrow>
          let to = (if is_nilthread to_tid then None else Some (get_tcb to_tid))
          in if is_nilthread from_tid
             then do { s2 \<leftarrow> ipc_reply sw current to s1; Some (from_tid, s2) }
             else ipc_receive sw current to to_tid from_tid timeout s1)"

definition sys_ipc ::
  "typed_transfer \<Rightarrow> switcher \<Rightarrow> threadid_t \<Rightarrow> threadid_t \<Rightarrow> timeout_t \<Rightarrow> kstate \<Rightarrow> (threadid_t \<times> kstate) option" where
  "sys_ipc xfer sw to_tid from_tid timeout s =
     (let current = get_current_tcb s
      in do {
        r \<leftarrow> (if is_nilthread to_tid then Some (Inr s) else ipc_send xfer sw current to_tid timeout s);
        ipc_finish sw current to_tid from_tid timeout r
      })"

section \<open>IPCs made by the kernel\<close>

definition do_ipc ::
  "typed_transfer \<Rightarrow> switcher \<Rightarrow> tcbp \<Rightarrow> threadid_t \<Rightarrow> threadid_t \<Rightarrow> timeout_t \<Rightarrow> kstate \<Rightarrow> (msg_tag_t \<times> kstate) option" where
  "do_ipc xfer sw t to_tid from_tid timeout s =
     do { (_, s1) \<leftarrow> sys_ipc xfer sw to_tid from_tid timeout s; Some (get_mr t 0 s1, s1) }"

datatype access_e = acc_read | acc_write | acc_readwrite | acc_execute

definition pagefault_label :: "access_e \<Rightarrow> word_t" where
  "pagefault_label access =
     IPC_MR0_PAGEFAULT OR (if access = acc_read then push_bit 2 1 else 0) OR
       (if access = acc_write then push_bit 1 1 else 0) OR (if access = acc_execute then push_bit 0 1 else 0) OR
       (if access = acc_readwrite then push_bit 2 1 + push_bit 1 1 else 0)"

text \<open>An error tag in the reply leads into the kernel debugger, an endless loop.\<close>

definition send_pagefault_ipc ::
  "typed_transfer \<Rightarrow> switcher \<Rightarrow> tcbp \<Rightarrow> addr_t \<Rightarrow> addr_t \<Rightarrow> access_e \<Rightarrow> kstate \<Rightarrow> kstate option" where
  "send_pagefault_ipc xfer sw t a ip access s =
     (let s1 = save_state t s;
          s2 = set_tag t (msg_tag_set 0 2 (pagefault_label access)) s1;
          s3 = set_mr t 1 a s2;
          s4 = set_mr t 2 ip s3;
          s5 = set_br t 0 (set_rcv_window fpage_complete acceptor_clear) s4
      in do {
        (tag, s6) \<leftarrow> do_ipc xfer sw t (get_pager t s5) (get_pager t s5) timeout_never s5;
        if is_error tag then None else Some (restore_state t s6)
      })"

definition send_preemption_ipc ::
  "typed_transfer \<Rightarrow> switcher \<Rightarrow> tcbp \<Rightarrow> u64_t \<Rightarrow> kstate \<Rightarrow> (bool \<times> kstate) option" where
  "send_preemption_ipc xfer sw t time s =
     (let s1 = save_state t s;
          s2 = set_tag t preemption_tag s1;
          s3 = set_mr t 1 time s2;
          s4 = set_mr t 2 (drop_bit 1 (drop_bit 63 time)) s3;
          s5 = set_br t 0 0 s4
      in do {
        (tag, s6) \<leftarrow> do_ipc xfer sw t (get_scheduler t s5) nilthread timeout_never s5;
        if is_error tag then None else Some (is_error tag, restore_state t s6)
      })"

section \<open>Send queues\<close>

definition send_queue :: "tcbp \<Rightarrow> tcbp list \<Rightarrow> kstate \<Rightarrow> bool" where
  "send_queue t qs s \<longleftrightarrow> queue NULL_tcb (t_send_head (tcbs s t)) (send_links s) qs"

lemma send_links_upd_tcb [simp]:
  "(\<And>y. t_send_list (f y) = t_send_list y) \<Longrightarrow> send_links (upd_tcb t f s) = send_links s"
  by (auto simp: send_links_def)

lemma send_links_simps [simp]:
  "send_links (upd_send_links l s) = l" "send_links (upd_utcb u g s) = send_links s"
  "send_links (set_queue_state t q s) = send_links s" "send_links (clear_queue_state t q s) = send_links s"
  "send_links (prio_enqueue t b s) = send_links s" "send_links (cancel_timeout t s) = send_links s"
  "send_links (s\<lparr>current_tcb := c\<rparr>) = send_links s"
  by (auto simp: send_links_def upd_send_links_def)

lemma upd_send_links_sel [simp]:
  "t_send_head (tcbs (upd_send_links l s) p) = t_send_head (tcbs s p)"
  "t_thread_state (tcbs (upd_send_links l s) p) = t_thread_state (tcbs s p)"
  "t_partner (tcbs (upd_send_links l s) p) = t_partner (tcbs s p)"
  "t_utcb (tcbs (upd_send_links l s) p) = t_utcb (tcbs s p)"
  "t_queue_state (tcbs (upd_send_links l s) p) = t_queue_state (tcbs s p)"
  "t_myself_global (tcbs (upd_send_links l s) p) = t_myself_global (tcbs s p)"
  "t_saved_partner (tcbs (upd_send_links l s) p) = t_saved_partner (tcbs s p)"
  "current_tcb (upd_send_links l s) = current_tcb s" "utcbs (upd_send_links l s) = utcbs s"
  by (simp_all add: upd_send_links_def)

lemma enqueue_send_queue:
  assumes "send_queue t qs s" and "x \<notin> set qs" and "x \<noteq> NULL_tcb"
  shows "send_queue t (qs @ [x]) (enqueue_send x t s)"
proof -
  obtain h l where e: "enqueue_list_tail NULL_tcb (t_send_head (tcbs s t)) x (send_links s) = (h, l)" by fastforce
  show ?thesis
    using enqueue_tail_snoc [OF assms(1) [unfolded send_queue_def] assms(2,3) e] e
    by (simp add: send_queue_def enqueue_send_def)
qed

lemma dequeue_send_queue:
  assumes "send_queue t qs s" and "x \<in> set qs"
  shows "send_queue t (remove1 x qs) (dequeue_send x t s)"
proof -
  obtain h l where e: "dequeue_list NULL_tcb (t_send_head (tcbs s t)) x (send_links s) = (h, l)" by fastforce
  show ?thesis
    using dequeue_remove1 [OF assms(1) [unfolded send_queue_def] assms(2) e] e
    by (simp add: send_queue_def dequeue_send_def)
qed

lemma enqueue_send_sel [simp]:
  "t_thread_state (tcbs (enqueue_send t p s) x) = t_thread_state (tcbs s x)"
  "t_partner (tcbs (enqueue_send t p s) x) = t_partner (tcbs s x)"
  "t_utcb (tcbs (enqueue_send t p s) x) = t_utcb (tcbs s x)"
  "t_myself_global (tcbs (enqueue_send t p s) x) = t_myself_global (tcbs s x)"
  "utcbs (enqueue_send t p s) = utcbs s" "current_tcb (enqueue_send t p s) = current_tcb s"
  "queue_state_is_set t qs_send (enqueue_send t p s)"
  by (simp_all add: enqueue_send_def Let_def split_def)

lemma queue_state_utcb: "queue_state_is_set x q (upd_utcb u f s) = queue_state_is_set x q s"
  by (simp add: queue_state_is_set_def)

lemma send_queue_cong:
  "t_send_head (tcbs s' t) = t_send_head (tcbs s t) \<Longrightarrow> send_links s' = send_links s \<Longrightarrow>
   send_queue t qs s' = send_queue t qs s"
  by (simp add: send_queue_def)

section \<open>Blocking, delivery and rendezvous\<close>

text \<open>Two threads with thread numbers 1 and 2; the first is current, the second is in state
  \<^term>\<open>st\<close> with partner \<^term>\<open>p\<close>.\<close>

definition ipc_pair :: "thread_state_t \<Rightarrow> threadid_t \<Rightarrow> kstate" where
  "ipc_pair st p = blank_state\<lparr>current_tcb := Tcb 1,
     tcbs := (\<lambda>x.
       if x = Tcb 1 then blank_tcb\<lparr>t_myself_global := 0x100000001, t_utcb := Utcb 0x1000, t_thread_state := running\<rparr>
       else if x = Tcb 2 then blank_tcb\<lparr>t_myself_global := 0x200000001, t_utcb := Utcb 0x2000, t_thread_state := st, t_partner := p\<rparr>
       else blank_tcb)\<rparr>"

lemma get_tcb_eval: "get_tcb 0x100000001 = Tcb 1" "get_tcb 0x200000001 = Tcb 2"
  by (simp_all add: get_tcb_def get_threadno_def bf_get_def VALID_THREADNO_BITS_def mask_eq_exp_minus_1)

lemma ipc_pair_eval:
  "get_current_tcb (ipc_pair st p) = Tcb 1" "get_global_id (Tcb 1) (ipc_pair st p) = 0x100000001"
  "get_global_id (Tcb 2) (ipc_pair st p) = 0x200000001" "get_tag x (ipc_pair st p) = 0"
  "get_state (Tcb 2) (ipc_pair st p) = st" "get_partner (Tcb 2) (ipc_pair st p) = p"
  "send_queue x [] (ipc_pair st p)" "get_saved_partner x (ipc_pair st p) = nilthread"
  by (simp_all add: ipc_pair_def get_current_tcb_def tcb_ops blank_state_def blank_tcb_def blank_utcb_def send_queue_def nilthread_def)

lemma zero_tag: "\<not> is_propagated 0" "get_typed 0 = 0"
  by (simp_all add: is_propagated_def get_typed_def bf_get_def)

lemma ids_real: "\<not> is_nilthread 0x100000001" "\<not> is_nilthread 0x200000001"
  by (simp_all add: is_nilthread_def)

text \<open>An instance of the typed transfer: items are refused with an error tag.\<close>

definition refuse_typed :: typed_transfer where "refuse_typed src dst tag s = Some (set_error tag, s)"

lemma get_typed_cleared: "get_typed (clear_receive_flags tag) = get_typed tag"
proof -
  have "n < 6 \<Longrightarrow> bit (63 :: word_t) n" for n
    using bit_mask_iff [of 6 n, where 'a = word_t] by (simp add: mask_eq_exp_minus_1)
  then show ?thesis
    unfolding get_typed_def clear_receive_flags_def bf_get_def
    by (intro bit_word_eqI) (auto simp: bit_simps)
qed

lemma is_propagated_cleared: "is_propagated (clear_receive_flags tag) = is_propagated tag"
proof -
  have "bf_get 12 1 (clear_receive_flags tag) = bf_get 12 1 tag"
    unfolding clear_receive_flags_def bf_get_def by (rule bit_word_eqI) (auto simp: bit_simps)
  then show ?thesis by (simp add: is_propagated_def)
qed

text \<open>A message of untyped words only: the receiver gets the tag without the receive flags.\<close>

lemma transfer_untyped:
  assumes "get_typed (get_tag src s) = 0" and "\<not> is_propagated (get_tag src s)"
  shows "transfer_message xfer src dst s = Some (True, set_tag dst (clear_receive_flags (get_tag src s)) s)"
  using assms by (simp add: transfer_message_def Let_def get_typed_cleared is_propagated_cleared copy_mrs_def)

lemma ipc_transfer_untyped:
  assumes "get_typed (get_tag current s) = 0" and "\<not> is_propagated (get_tag current s)"
  shows "ipc_transfer xfer current to_tid sender_id s =
    Some (Inr (set_tag (get_tcb to_tid) (clear_receive_flags (get_tag current s))
      (set_partner (get_tcb to_tid) sender_id s)))"
proof -
  have "get_tag current (set_partner (get_tcb to_tid) sender_id s) = get_tag current s"
    by (simp add: tcb_ops)
  then show ?thesis using assms transfer_untyped [of current "set_partner (get_tcb to_tid) sender_id s"]
    by (simp add: ipc_transfer_def Let_def)
qed

text \<open>A sender that resumes its blocked send with its message intact.\<close>

lemma ipc_send_resumed:
  assumes "send_queue t qs s" and "current \<in> set qs" and "wakeup_inv s ws"
    and "get_typed (get_tag current s) = 0" and "\<not> is_propagated (get_tag current s)" and "t = get_tcb to_tid"
  shows "\<exists>s3. ipc_transfer xfer current to_tid sender_id (ipc_send_unblock current t s) = Some (Inr s3) \<and>
    send_queue t (remove1 current qs) s3 \<and> wakeup_inv s3 (remove1 current ws) \<and>
    \<not> queue_state_is_set current qs_send s3 \<and>
    get_tag t s3 = clear_receive_flags (get_tag current s) \<and> get_partner t s3 = sender_id"
proof -
  let ?u = "ipc_send_unblock current t s"
  let ?s3 = "set_tag t (clear_receive_flags (get_tag current s)) (set_partner t sender_id ?u)"
  have tg: "get_tag current ?u = get_tag current s" by (simp add: ipc_send_unblock_def tcb_ops)
  then have "ipc_transfer xfer current to_tid sender_id ?u = Some (Inr ?s3)"
    using ipc_transfer_untyped [of current ?u xfer to_tid] assms(4-6) by simp
  moreover have "send_queue t qs (cancel_timeout current s)" using assms(1) by (auto simp: send_queue_def)
  from dequeue_send_queue [OF this assms(2)] have "send_queue t (remove1 current qs) ?s3"
    by (simp add: ipc_send_unblock_def send_queue_def set_tag_def set_mr_def set_partner_def)
  moreover have "wakeup_inv ?s3 (remove1 current ws)"
    unfolding ipc_send_unblock_def by (intro wakeup_inv_ops(2,3,5) wakeup_inv_cancel assms(3))
  moreover have "\<not> queue_state_is_set current qs_send ?s3"
    by (simp add: queue_state_utcb ipc_send_unblock_def set_tag_def set_mr_def set_partner_def)
  moreover have "get_tag t ?s3 = clear_receive_flags (get_tag current s)" "get_partner t ?s3 = sender_id"
    by (simp_all add: tcb_ops)
  ultimately show ?thesis by blast
qed

text \<open>C13: a send to a thread that is not waiting for the caller, with no send timeout and a message that is
  not propagated, blocks: the caller is appended to the send queue of the receiver, polls for it and gives the
  processor to the idle thread; no other thread changes state.  When it is dispatched again in a state in which
  it is on that send queue and its message holds untyped words only, it leaves the send queue (the ring of the
  queue without it) and the wakeup list, the receiver has the tag without receive flags and the sender's id as
  its partner, and the call goes on with its receive phase.\<close>

theorem sys_ipc_blocking_send:
  assumes "\<not> is_nilthread to_tid" and "get_global_id (get_tcb to_tid) s = to_tid"
    and "\<not> is_propagated (get_tag (get_current_tcb s) s)"
    and "\<not> is_receiver_ready (get_current_tcb s) (get_tcb to_tid) (get_global_id (get_current_tcb s) s) s"
    and "time_is_never (get_snd timeout)"
    and "send_queue (get_tcb to_tid) qs s" and "get_current_tcb s \<notin> set qs" and "get_current_tcb s \<noteq> NULL_tcb"
  shows "\<exists>s1. (\<forall>sw. sys_ipc xfer sw to_tid from_tid timeout s =
      do { s2 \<leftarrow> sw (get_current_tcb s) Idle_tcb s1;
           r \<leftarrow> ipc_transfer xfer (get_current_tcb s) to_tid (get_global_id (get_current_tcb s) s)
                 (ipc_send_unblock (get_current_tcb s) (get_tcb to_tid) s2);
           ipc_finish sw (get_current_tcb s) to_tid from_tid timeout r }) \<and>
    send_queue (get_tcb to_tid) (qs @ [get_current_tcb s]) s1 \<and>
    queue_state_is_set (get_current_tcb s) qs_send s1 \<and>
    get_state (get_current_tcb s) s1 = polling \<and> get_partner (get_current_tcb s) s1 = to_tid \<and>
    (\<forall>x. x \<noteq> get_current_tcb s \<longrightarrow> get_state x s1 = get_state x s) \<and>
    (\<forall>sw s2 qs2 ws. sw (get_current_tcb s) Idle_tcb s1 = Some s2 \<and>
       send_queue (get_tcb to_tid) qs2 s2 \<and> get_current_tcb s \<in> set qs2 \<and> wakeup_inv s2 ws \<and>
       get_typed (get_tag (get_current_tcb s) s2) = 0 \<and> \<not> is_propagated (get_tag (get_current_tcb s) s2) \<longrightarrow>
       (\<exists>s3. sys_ipc xfer sw to_tid from_tid timeout s =
           ipc_finish sw (get_current_tcb s) to_tid from_tid timeout (Inr s3) \<and>
         send_queue (get_tcb to_tid) (remove1 (get_current_tcb s) qs2) s3 \<and>
         wakeup_inv s3 (remove1 (get_current_tcb s) ws) \<and>
         \<not> queue_state_is_set (get_current_tcb s) qs_send s3 \<and>
         get_tag (get_tcb to_tid) s3 = clear_receive_flags (get_tag (get_current_tcb s) s2) \<and>
         get_partner (get_tcb to_tid) s3 = get_global_id (get_current_tcb s) s))"
proof -
  let ?c = "get_current_tcb s" and ?t = "get_tcb to_tid"
  let ?s1 = "ipc_send_block ?c ?t to_tid s"
  have sid: "ipc_sender_id ?c ?t s = (get_global_id ?c s, s)" using assms(3) by (simp add: ipc_sender_id_def)
  have call: "sys_ipc xfer sw to_tid from_tid timeout s = do { s2 \<leftarrow> sw ?c Idle_tcb ?s1;
      r \<leftarrow> ipc_transfer xfer ?c to_tid (get_global_id ?c s) (ipc_send_unblock ?c ?t s2);
      ipc_finish sw ?c to_tid from_tid timeout r }" for sw
    unfolding sys_ipc_def ipc_send_def Let_def using assms(1,2,4,5) sid by (simp add: bind_assoc)
  have resume: "\<exists>s3. sys_ipc xfer sw to_tid from_tid timeout s = ipc_finish sw ?c to_tid from_tid timeout (Inr s3) \<and>
      send_queue ?t (remove1 ?c qs2) s3 \<and> wakeup_inv s3 (remove1 ?c ws) \<and> \<not> queue_state_is_set ?c qs_send s3 \<and>
      get_tag ?t s3 = clear_receive_flags (get_tag ?c s2) \<and> get_partner ?t s3 = get_global_id ?c s"
    if "sw ?c Idle_tcb ?s1 = Some s2 \<and> send_queue ?t qs2 s2 \<and> ?c \<in> set qs2 \<and> wakeup_inv s2 ws \<and>
      get_typed (get_tag ?c s2) = 0 \<and> \<not> is_propagated (get_tag ?c s2)" for sw s2 qs2 ws
    using ipc_send_resumed [of ?t qs2 s2 ?c ws to_tid xfer "get_global_id ?c s"] that call [of sw] by auto
  have "send_queue ?t (qs @ [?c]) ?s1"
    using enqueue_send_queue [OF assms(6-8)]
    by (auto simp: ipc_send_block_def send_queue_def set_state_def set_partner_def)
  moreover have "queue_state_is_set ?c qs_send ?s1" "get_state ?c ?s1 = polling" "get_partner ?c ?s1 = to_tid"
    "\<forall>x. x \<noteq> ?c \<longrightarrow> get_state x ?s1 = get_state x s"
    by (simp_all add: ipc_send_block_def set_state_def set_partner_def get_state_def get_partner_def)
  ultimately show ?thesis using call resume by blast
qed

text \<open>The first thread is dispatched again in the state in which it blocked, the only sender on the queue of
  the second one.\<close>

definition blocked_pair :: kstate where
  "blocked_pair = ipc_send_block (Tcb 1) (Tcb 2) 0x200000001 (ipc_pair aborted 0)"

lemma blocked_pair_facts:
  "send_queue (Tcb 2) [Tcb 1] blocked_pair" "wakeup_inv blocked_pair []" "get_tag (Tcb 1) blocked_pair = 0"
proof -
  have "send_queue (Tcb 2) ([] @ [Tcb 1]) (enqueue_send (Tcb 1) (Tcb 2) (ipc_pair aborted 0))"
    by (rule enqueue_send_queue) (simp_all add: ipc_pair_eval)
  then show "send_queue (Tcb 2) [Tcb 1] blocked_pair"
    by (simp add: send_queue_def blocked_pair_def ipc_send_block_def set_state_def set_partner_def)
  have "wakeup_inv (ipc_pair aborted 0) []"
    by (auto simp: wakeup_inv_def ipc_pair_def blank_state_def blank_tcb_def queue_state_is_set_def qstate_is_set_def)
  then have "wakeup_inv (enqueue_send (Tcb 1) (Tcb 2) (ipc_pair aborted 0)) []"
    by (rule wakeup_inv_cong)
      (auto simp: fun_eq_iff enqueue_send_def Let_def split_def wait_links_def set_queue_state_def upd_send_links_def
        queue_state_is_set_def)
  then show "wakeup_inv blocked_pair []" unfolding blocked_pair_def ipc_send_block_def by (intro wakeup_inv_ops(1,2))
  show "get_tag (Tcb 1) blocked_pair = 0"
    by (simp add: blocked_pair_def ipc_send_block_def tcb_ops ipc_pair_def blank_state_def blank_utcb_def)
qed

theorem sys_ipc_blocking_send_witness:
  "\<exists>s3. sys_ipc refuse_typed (\<lambda>_ _ _. Some blocked_pair) 0x200000001 nilthread timeout_never (ipc_pair aborted 0) =
       ipc_finish (\<lambda>_ _ _. Some blocked_pair) (Tcb 1) 0x200000001 nilthread timeout_never (Inr s3) \<and>
     send_queue (Tcb 2) [] s3 \<and> get_partner (Tcb 2) s3 = 0x100000001"
proof -
  let ?s = "ipc_pair aborted 0"
  have nr: "\<not> is_receiver_ready (get_current_tcb ?s) (get_tcb 0x200000001) (get_global_id (get_current_tcb ?s) ?s) ?s"
    by (simp add: is_receiver_ready_def get_tcb_eval ipc_pair_eval is_waiting_def aborted_def waiting_forever_def
        waiting_timeout_def BLOCKED_STATE_def)
  have nv: "time_is_never (get_snd timeout_never)"
    by (simp add: time_is_never_def get_snd_def timeout_never_def bf_get_def)
  obtain s1 where r: "\<forall>sw s2 qs2 ws. sw (Tcb 1) Idle_tcb s1 = Some s2 \<and> send_queue (Tcb 2) qs2 s2 \<and>
      Tcb 1 \<in> set qs2 \<and> wakeup_inv s2 ws \<and> get_typed (get_tag (Tcb 1) s2) = 0 \<and> \<not> is_propagated (get_tag (Tcb 1) s2) \<longrightarrow>
      (\<exists>s3. sys_ipc refuse_typed sw 0x200000001 nilthread timeout_never ?s =
           ipc_finish sw (Tcb 1) 0x200000001 nilthread timeout_never (Inr s3) \<and>
         send_queue (Tcb 2) (remove1 (Tcb 1) qs2) s3 \<and> wakeup_inv s3 (remove1 (Tcb 1) ws) \<and>
         \<not> queue_state_is_set (Tcb 1) qs_send s3 \<and>
         get_tag (Tcb 2) s3 = clear_receive_flags (get_tag (Tcb 1) s2) \<and> get_partner (Tcb 2) s3 = 0x100000001)"
    using sys_ipc_blocking_send [where s = ?s and to_tid = "0x200000001" and qs = "[]" and timeout = timeout_never
        and xfer = refuse_typed and from_tid = nilthread, OF ids_real(2) _ _ nr nv]
    by (simp only: get_tcb_eval ipc_pair_eval zero_tag) auto
  show ?thesis
    using r [THEN spec, THEN spec, THEN spec, THEN spec, of "\<lambda>_ _ _. Some blocked_pair" blocked_pair "[Tcb 1]" "[]"]
    by (auto simp: blocked_pair_facts zero_tag)
qed

text \<open>C14: a send-only IPC of untyped words, not propagated, to a thread that waits for the caller is delivered: the receiver gets
  the tag (without receive flags) and the caller's id as its partner and becomes running (or,
  if it was interrupted in a nested IPC, may finish that one); the caller stays running; the processor
  goes to the receiver exactly when the dispatch check prefers it, otherwise the receiver is queued
  and its timeout cancelled; no third thread changes state.\<close>

theorem sys_ipc_send_delivers:
  assumes "\<not> is_nilthread to_tid" and "get_global_id (get_tcb to_tid) s = to_tid"
    and "\<not> is_propagated (get_tag (get_current_tcb s) s)" and "get_typed (get_tag (get_current_tcb s) s) = 0"
    and "is_receiver_ready (get_current_tcb s) (get_tcb to_tid) (get_global_id (get_current_tcb s) s) s"
    and "get_current_tcb s \<noteq> get_tcb to_tid"
  shows "\<exists>s1. (\<forall>sw. sys_ipc xfer sw to_tid nilthread timeout s =
      (if check_dispatch_thread (get_current_tcb s) (get_tcb to_tid) s
       then do { s2 \<leftarrow> sw (get_current_tcb s) (get_tcb to_tid) (enqueue_ready (get_current_tcb s) False s1);
                 Some (nilthread, s2) }
       else Some (nilthread, enqueue_ready (get_tcb to_tid) False (cancel_timeout (get_tcb to_tid) s1)))) \<and>
    get_tag (get_tcb to_tid) s1 = clear_receive_flags (get_tag (get_current_tcb s) s) \<and>
    get_partner (get_tcb to_tid) s1 = get_global_id (get_current_tcb s) s \<and>
    get_state (get_tcb to_tid) s1 =
      (if get_saved_partner (get_tcb to_tid) s = nilthread then running else locked_running_ipc_done) \<and>
    get_state (get_current_tcb s) s1 = running \<and>
    (\<forall>x. x \<notin> {get_current_tcb s, get_tcb to_tid} \<longrightarrow> get_state x s1 = get_state x s)"
proof -
  let ?c = "get_current_tcb s" and ?t = "get_tcb to_tid"
  let ?tag = "clear_receive_flags (get_tag ?c s)"
  let ?s0 = "set_tag ?t ?tag (set_partner ?t (get_global_id ?c s) s)"
  let ?st = "if get_saved_partner ?t s = nilthread then running else locked_running_ipc_done"
  let ?s1 = "set_state ?c running (set_state ?t ?st ?s0)"
  have nil: "is_nilthread x \<longleftrightarrow> x = nilthread" for x by (simp add: is_nilthread_def nilthread_def)
  have sid: "ipc_sender_id ?c ?t s = (get_global_id ?c s, s)" using assms(3) by (simp add: ipc_sender_id_def)
  have sp: "get_saved_partner ?t ?s0 = get_saved_partner ?t s" by (simp add: tcb_ops)
  have cd: "check_dispatch_thread ?c ?t ?s1 = check_dispatch_thread ?c ?t s"
    by (auto simp: check_dispatch_thread_def delay_preemption_def get_preempt_flags_def get_priority_def
        get_sensitive_prio_def tcb_ops)
  have snd: "ipc_send xfer sw ?c to_tid timeout s = Some (Inr ?s0)" for sw
    using assms(2,5) sid ipc_transfer_untyped [OF assms(4,3)] by (simp add: ipc_send_def Let_def)
  have "sys_ipc xfer sw to_tid nilthread timeout s = do { s2 \<leftarrow> ipc_reply sw ?c (Some ?t) ?s0; Some (nilthread, s2) }" for sw
    using assms(1) snd by (simp add: sys_ipc_def ipc_finish_def nil Let_def)
  moreover have "ipc_reply sw ?c (Some ?t) ?s0 = (if check_dispatch_thread ?c ?t s
      then sw ?c ?t (enqueue_ready ?c False ?s1)
      else Some (enqueue_ready ?t False (cancel_timeout ?t ?s1)))" for sw
    using cd sp by (cases "get_saved_partner ?t s = nilthread") (simp_all add: ipc_reply_def Let_def nil)
  ultimately have "\<forall>sw. sys_ipc xfer sw to_tid nilthread timeout s = (if check_dispatch_thread ?c ?t s
       then do { s2 \<leftarrow> sw ?c ?t (enqueue_ready ?c False ?s1); Some (nilthread, s2) }
       else Some (nilthread, enqueue_ready ?t False (cancel_timeout ?t ?s1)))" by simp
  moreover have "get_tag ?t ?s1 = ?tag" "get_partner ?t ?s1 = get_global_id ?c s" "get_state ?t ?s1 = ?st"
    "get_state ?c ?s1 = running" "\<forall>x. x \<notin> {?c, ?t} \<longrightarrow> get_state x ?s1 = get_state x s"
    using assms(6) by (simp_all add: tcb_ops)
  ultimately show ?thesis by blast
qed

theorem sys_ipc_send_delivers_witness:
  "\<exists>s1. get_partner (Tcb 2) s1 = 0x100000001 \<and> get_state (Tcb 2) s1 = running \<and>
     sys_ipc refuse_typed switch_now 0x200000001 nilthread timeout_never (ipc_pair waiting_forever anythread) =
       Some (nilthread, enqueue_ready (Tcb 2) False (cancel_timeout (Tcb 2) s1))"
proof -
  let ?s = "ipc_pair waiting_forever anythread"
  have r: "is_receiver_ready (get_current_tcb ?s) (get_tcb 0x200000001) (get_global_id (get_current_tcb ?s) ?s) ?s"
    by (simp add: is_receiver_ready_def get_tcb_eval ipc_pair_eval is_waiting_def is_anythread_def anythread_def)
  have nd: "\<not> check_dispatch_thread (Tcb 1) (Tcb 2) ?s"
    by (simp add: check_dispatch_thread_def delay_preemption_def get_priority_def get_sensitive_prio_def
        ipc_pair_def blank_tcb_def)
  show ?thesis
    using sys_ipc_send_delivers [where s = ?s and to_tid = "0x200000001" and timeout = timeout_never
        and xfer = refuse_typed, OF ids_real(2) _ _ _ r] nd
    by (simp add: get_tcb_eval ipc_pair_eval zero_tag) blast
qed


text \<open>The first thread polls for the second one, which is current and receives.\<close>

definition polling_pair :: kstate where
  "polling_pair = (ipc_send_block (Tcb 1) (Tcb 2) 0x200000001 (ipc_pair running 0))\<lparr>current_tcb := Tcb 2\<rparr>"

lemma polling_pair_eval:
  "get_current_tcb polling_pair = Tcb 2" "get_state (Tcb 1) polling_pair = polling"
  "get_partner (Tcb 1) polling_pair = 0x200000001" "get_global_id (Tcb 2) polling_pair = 0x200000001"
  "get_global_id (Tcb 1) polling_pair = 0x100000001" "get_tag (Tcb 1) polling_pair = 0"
  by (simp_all add: polling_pair_def get_current_tcb_def ipc_send_block_def tcb_ops ipc_pair_def blank_state_def blank_utcb_def)

lemma polling_pair_queue: "send_queue (Tcb 2) [Tcb 1] polling_pair"
proof -
  have "send_queue (Tcb 2) ([] @ [Tcb 1]) (enqueue_send (Tcb 1) (Tcb 2) (ipc_pair running 0))"
    by (rule enqueue_send_queue) (simp_all add: ipc_pair_eval)
  then show ?thesis
    by (simp add: send_queue_def polling_pair_def ipc_send_block_def set_state_def set_partner_def)
qed


end
