(* ===== verification/Send_Queue.thy ===== *)
theory Send_Queue
  imports Ipc
begin

text \<open>
  The send queues of all threads together.  Each thread that polls for a receiver is on the ring that
  starts at the receiver's \<^verbatim>\<open>send_head\<close>; all rings run through the same field
  \<^verbatim>\<open>send_list\<close>.  The locale \<^verbatim>\<open>send_queues\<close> is the contract of
  \<^verbatim>\<open>enqueue_send\<close> and \<^verbatim>\<open>dequeue_send\<close> that IPC, interrupt delivery and
  thread deletion rely on; its interpretation shows it for the ring lists.
\<close>

section \<open>The representation\<close>

definition send_inv :: "kstate \<Rightarrow> (tcbp \<Rightarrow> tcbp list) \<Rightarrow> bool" where
  "send_inv s qs \<longleftrightarrow>
     (\<forall>t. queue NULL_tcb (t_send_head (tcbs s t)) (send_links s) (qs t)) \<and>
     (\<forall>t u. t \<noteq> u \<longrightarrow> set (qs t) \<inter> set (qs u) = {}) \<and>
     (\<forall>x. queue_state_is_set x qs_send s \<longleftrightarrow> (\<exists>t. x \<in> set (qs t)))"

lemma send_invD:
  assumes "send_inv s qs"
  shows "queue NULL_tcb (t_send_head (tcbs s t)) (send_links s) (qs t)"
    and "t \<noteq> u \<Longrightarrow> set (qs t) \<inter> set (qs u) = {}"
    and "queue_state_is_set x qs_send s \<longleftrightarrow> (\<exists>t. x \<in> set (qs t))"
  using assms by (auto simp: send_inv_def)

definition same_send :: "kstate \<Rightarrow> kstate \<Rightarrow> bool" where
  "same_send s s' \<longleftrightarrow> (\<forall>x. t_send_list (tcbs s' x) = t_send_list (tcbs s x) \<and>
     t_send_head (tcbs s' x) = t_send_head (tcbs s x) \<and>
     (queue_state_is_set x qs_send s' \<longleftrightarrow> queue_state_is_set x qs_send s))"

lemma same_send_refl [simp]: "same_send s s" by (simp add: same_send_def)

lemma same_send_trans: "same_send s s' \<Longrightarrow> same_send s' s'' \<Longrightarrow> same_send s s''"
  by (simp add: same_send_def)

lemma send_inv_same: "same_send s s' \<Longrightarrow> send_inv s qs \<Longrightarrow> send_inv s' qs"
  by (simp add: send_inv_def same_send_def send_links_def)

lemma same_send_upd_tcb:
  assumes "\<And>x. t_send_list (f x) = t_send_list x" "\<And>x. t_send_head (f x) = t_send_head x"
    "\<And>x. t_queue_state (f x) = t_queue_state x"
  shows "same_send s (upd_tcb t f s)"
  using assms by (simp add: same_send_def queue_state_is_set_def)

lemma same_send_upd_utcb: "same_send s (upd_utcb u f s)"
  by (simp add: same_send_def queue_state_is_set_def)

lemma same_send_ops:
  "same_send s (set_state t v s)" "same_send s (set_partner t p s)" "same_send s (set_saved_partner t p s)"
  "same_send s (set_saved_state t v s)" "same_send s (set_misc t i w s)" "same_send s (notify0 t f s)"
  "same_send s (notify1 t f a s)" "same_send s (set_space t sp s)" "same_send s (set_scheduler t tid s)"
  "same_send s (set_tag t tg s)" "same_send s (set_mr t j w s)" "same_send s (set_br t j w s)"
  "same_send s (set_error_code t e s)" "same_send s (switch_to t u s)"
  unfolding set_state_def set_partner_def set_saved_partner_def set_saved_state_def set_misc_def notify0_def
    notify1_def set_space_def set_scheduler_def set_tag_def set_mr_def set_br_def set_error_code_def switch_to_def
  by (simp_all add: same_send_upd_tcb same_send_upd_utcb) (simp add: same_send_def queue_state_is_set_def)

lemma same_send_queues:
  "same_send s (enqueue_ready t b s)" "same_send s (dequeue_ready t s)" "same_send s (cancel_timeout t s)"
  by (auto simp: same_send_def enqueue_ready_def dequeue_ready_def prio_enqueue_def prio_dequeue_def Let_def split_def)

lemma same_send_seq: "same_send s (f s) \<Longrightarrow> same_send (f s) (g (f s)) \<Longrightarrow> same_send s (g (f s))"
  by (rule same_send_trans)

lemma same_send_restore: "same_send s (restore_state t s)"
  unfolding restore_state_def restore_mrs_def Let_def by (intro same_send_trans [OF _ same_send_ops(1)]
      same_send_trans [OF _ same_send_ops(2)] same_send_trans [OF _ same_send_ops(3)]
      same_send_trans [OF _ same_send_ops(4)] same_send_trans [OF _ same_send_ops(11)]
      same_send_trans [OF _ same_send_ops(12)] same_send_trans [OF _ same_send_ops(13)] same_send_refl)

lemma same_send_abort_partner: "same_send s (abort_partner p e tg s)"
  unfolding abort_partner_def Let_def by (intro same_send_trans [OF _ same_send_ops(1)]
      same_send_trans [OF _ same_send_ops(6)] same_send_trans [OF _ same_send_ops(10)]
      same_send_trans [OF _ same_send_ops(13)] same_send_trans [OF _ same_send_queues(1)] same_send_refl)

section \<open>The contract of the send queues\<close>

locale send_queues =
  fixes enq :: "'p \<Rightarrow> 'p \<Rightarrow> 's \<Rightarrow> 's"
    and deq :: "'p \<Rightarrow> 'p \<Rightarrow> 's \<Rightarrow> 's"
    and head :: "'p \<Rightarrow> 's \<Rightarrow> 'p"
    and queued :: "'p \<Rightarrow> 's \<Rightarrow> bool"
    and null :: 'p
    and repr :: "'s \<Rightarrow> ('p \<Rightarrow> 'p list) \<Rightarrow> bool"
  assumes repr_head: "repr s qs \<Longrightarrow> head t s = (case qs t of [] \<Rightarrow> null | x # _ \<Rightarrow> x)"
    and repr_null: "repr s qs \<Longrightarrow> null \<notin> set (qs t)"
    and repr_distinct: "repr s qs \<Longrightarrow> distinct (qs t)"
    and repr_queued: "repr s qs \<Longrightarrow> queued x s \<longleftrightarrow> (\<exists>t. x \<in> set (qs t))"
    and enq: "repr s qs \<Longrightarrow> x \<noteq> null \<Longrightarrow> \<not> queued x s \<Longrightarrow> repr (enq x t s) (qs(t := qs t @ [x]))"
    and deq: "repr s qs \<Longrightarrow> x \<in> set (qs t) \<Longrightarrow> repr (deq x t s) (qs(t := remove1 x (qs t)))"
begin

lemma head_null: "repr s qs \<Longrightarrow> head t s = null \<longleftrightarrow> qs t = []"
  using repr_head [of s qs t] repr_null [of s qs t] by (cases "qs t") auto

text \<open>A queue is first in, first out: the head is the longest waiting sender.\<close>

lemma deq_head:
  assumes "repr s qs" and "qs t = x # xs"
  shows "head t s = x" and "repr (deq (head t s) t s) (qs(t := xs))"
proof -
  show h: "head t s = x" using repr_head [OF assms(1), of t] assms(2) by simp
  show "repr (deq (head t s) t s) (qs(t := xs))" using deq [OF assms(1), of x t] assms(2) h by simp
qed

lemma enq_deq:
  assumes "repr s qs" and "x \<noteq> null" and "\<not> queued x s"
  shows "repr (deq x t (enq x t s)) qs"
proof -
  have n: "x \<notin> set (qs t)" using repr_queued [OF assms(1), of x] assms(3) by blast
  have "repr (deq x t (enq x t s)) ((qs(t := qs t @ [x]))(t := remove1 x (qs t @ [x])))"
    using deq [OF enq [OF assms, of t], of x t] by simp
  then show ?thesis using n by (simp add: remove1_append)
qed

end

lemma enqueue_send_eqs:
  assumes "enqueue_list_tail NULL_tcb (t_send_head (tcbs s t)) x (send_links s) = (h, l)"
  shows "send_links (enqueue_send x t s) = l"
    and "t_send_head (tcbs (enqueue_send x t s) u) = (if u = t then h else t_send_head (tcbs s u))"
    and "queue_state_is_set y q (enqueue_send x t s) \<longleftrightarrow> (y = x \<and> q = qs_send) \<or> queue_state_is_set y q s"
  using assms by (auto simp: enqueue_send_def Let_def send_links_def set_queue_state_def upd_send_links_def
      queue_state_is_set_def)

lemma dequeue_send_eqs:
  assumes "dequeue_list NULL_tcb (t_send_head (tcbs s t)) x (send_links s) = (h, l)"
  shows "send_links (dequeue_send x t s) = l"
    and "t_send_head (tcbs (dequeue_send x t s) u) = (if u = t then h else t_send_head (tcbs s u))"
  using assms by (auto simp: dequeue_send_def Let_def send_links_def clear_queue_state_def upd_send_links_def)

lemma send_inv_enqueue:
  assumes i: "send_inv s qs" and x: "x \<noteq> NULL_tcb" "\<not> queue_state_is_set x qs_send s"
  shows "send_inv (enqueue_send x t s) (qs(t := qs t @ [x]))"
proof -
  obtain h l where e: "enqueue_list_tail NULL_tcb (t_send_head (tcbs s t)) x (send_links s) = (h, l)"
    by (cases "enqueue_list_tail NULL_tcb (t_send_head (tcbs s t)) x (send_links s)")
  have n: "x \<notin> set (qs u)" for u using send_invD(3) [OF i, of x] x(2) by blast
  have "queue NULL_tcb (t_send_head (tcbs (enqueue_send x t s) u)) (send_links (enqueue_send x t s))
      ((qs(t := qs t @ [x])) u)" for u
  proof (cases "u = t")
    case True
    then show ?thesis using enqueue_tail_snoc [OF send_invD(1) [OF i, of t] n x(1) e]
      by (simp add: enqueue_send_eqs [OF e])
  next
    case False
    then show ?thesis
      using rq.enq_tail_other [OF send_invD(1) [OF i] send_invD(1) [OF i, of u] n send_invD(2) [OF i, of t u] e]
      by (simp add: enqueue_send_eqs [OF e])
  qed
  moreover have "queue_state_is_set y qs_send (enqueue_send x t s) \<longleftrightarrow>
      (\<exists>u. y \<in> set ((qs(t := qs t @ [x])) u))" for y
    using send_invD(3) [OF i, of y] by (auto simp: enqueue_send_eqs [OF e])
  ultimately show ?thesis
    using send_invD(2) [OF i] n unfolding send_inv_def by (auto simp: disjoint_iff)
qed

lemma send_inv_dequeue:
  assumes i: "send_inv s qs" and x: "x \<in> set (qs t)"
  shows "send_inv (dequeue_send x t s) (qs(t := remove1 x (qs t)))"
proof -
  obtain h l where e: "dequeue_list NULL_tcb (t_send_head (tcbs s t)) x (send_links s) = (h, l)"
    by (cases "dequeue_list NULL_tcb (t_send_head (tcbs s t)) x (send_links s)")
  have d: "distinct (qs t)" by (rule queue_distinct [OF send_invD(1) [OF i]])
  then have r: "set (remove1 x (qs t)) = set (qs t) - {x}" by simp
  have n: "x \<notin> set (qs u)" if "u \<noteq> t" for u using send_invD(2) [OF i that] x by blast
  have "queue NULL_tcb (t_send_head (tcbs (dequeue_send x t s) u)) (send_links (dequeue_send x t s))
      ((qs(t := remove1 x (qs t))) u)" for u
  proof (cases "u = t")
    case True
    then show ?thesis using dequeue_remove1 [OF send_invD(1) [OF i] x e] by (simp add: dequeue_send_eqs [OF e])
  next
    case False
    then have "l p = send_links s p" if "p \<in> set (qs u)" for p
      using dequeue_frame [OF send_invD(1) [OF i] x e] send_invD(2) [OF i False] that by blast
    then show ?thesis using send_invD(1) [OF i, of u] False queue_cong [of "qs u" l "send_links s"]
      by (simp add: dequeue_send_eqs [OF e])
  qed
  moreover have "queue_state_is_set y qs_send (dequeue_send x t s) \<longleftrightarrow>
      (\<exists>u. y \<in> set ((qs(t := remove1 x (qs t))) u))" for y
  proof (cases "y = x")
    case True
    then show ?thesis using n r by auto
  next
    case False
    then have "(y \<in> set ((qs(t := remove1 x (qs t))) u)) = (y \<in> set (qs u))" for u using r by auto
    then show ?thesis using False send_invD(3) [OF i, of y] by simp
  qed
  moreover have "a \<noteq> b \<Longrightarrow> set ((qs(t := remove1 x (qs t))) a) \<inter> set ((qs(t := remove1 x (qs t))) b) = {}" for a b
    using send_invD(2) [OF i, of a b] r by auto
  ultimately show ?thesis unfolding send_inv_def by blast
qed

interpretation sq: send_queues enqueue_send dequeue_send "\<lambda>t s. t_send_head (tcbs s t)"
  "\<lambda>x s. queue_state_is_set x qs_send s" NULL_tcb send_inv
proof
  fix s qs t x
  show "send_inv s qs \<Longrightarrow> t_send_head (tcbs s t) = (case qs t of [] \<Rightarrow> NULL_tcb | x # _ \<Rightarrow> x)"
    using send_invD(1) [of s qs t] by (auto simp: queue_def)
  show "send_inv s qs \<Longrightarrow> NULL_tcb \<notin> set (qs t)" using queue_null_notin [OF send_invD(1)] by metis
  show "send_inv s qs \<Longrightarrow> distinct (qs t)" using queue_distinct [OF send_invD(1)] by metis
  show "send_inv s qs \<Longrightarrow> queue_state_is_set x qs_send s \<longleftrightarrow> (\<exists>t. x \<in> set (qs t))" by (rule send_invD(3))
qed (rule send_inv_enqueue send_inv_dequeue; assumption)+


section \<open>Unwinding and the send queues\<close>

text \<open>Unwinding a thread that does not poll leaves every send queue alone.\<close>

lemma same_send_finish: "same_send s s2 \<Longrightarrow> same_send s (set_error_code t e (set_tag t tg s2))"
  using same_send_trans same_send_ops(10,13) by blast

lemma restore_state_states:
  "get_state t (restore_state t s) = get_saved_state t s" "get_saved_state t (restore_state t s) = aborted"
  by (simp_all add: restore_state_sel get_saved_state_def)

lemma not_polling_aborted: "\<not> is_polling aborted" by (simp add: thread_state_vals is_polling_def)

lemma unwind_loop_same_send:
  assumes "unwind_loop reason t tag s = Some s'" and "\<not> is_polling (get_state t s)"
    and "\<not> is_polling (get_saved_state t s)"
  shows "same_send s s'"
  using assms
proof (induction rule: unwind_loop.raw_induct [rotated 1, consumes 1])
  case (1 f reason t tag s s')
  let ?s1 = "set_state t running s" and ?c = "get_state t s"
  let ?p = "get_partner_tcb t ?s1"
  let ?a = "\<lambda>b e. if b then abort_partner ?p e (set_error tag) ?s1 else ?s1"
  have s1: "same_send s ?s1" "same_send s (cancel_timeout t ?s1)"
    using same_send_ops(1) same_send_queues(3) same_send_trans by blast+
  have a: "same_send s (?a b e)" "get_saved_state t (?a b e) = get_saved_state t s" for b e
    using s1(1) same_send_trans [OF s1(1) same_send_abort_partner]
    by (auto simp: get_saved_state_def running_sel)
  have np: "\<not> is_polling ?c" "\<not> is_polling (get_saved_state t s)" using 1 by blast+
  have redo: "same_send s s'" if "f reason t tg (restore_state t s2) = Some s'" "same_send s s2"
    "get_saved_state t s2 = get_saved_state t s" for tg s2
  proof -
    have "same_send (restore_state t s2) s'"
      by (rule 1(1) [OF that(1)]) (simp_all add: restore_state_states that(3) np not_polling_aborted)
    then show ?thesis using that(2) same_send_restore same_send_trans by blast
  qed
  have fin: "same_send s s'" if "(if \<not> is_nilthread (get_saved_partner t s2) then f reason t tg (restore_state t s2)
      else Some (set_error_code t er (set_tag t tg' s2))) = Some s'" "same_send s s2"
    "get_saved_state t s2 = get_saved_state t s" for tg tg' er s2
    using that(1) redo [OF _ that(2,3)] same_send_finish [OF that(2)] by (auto split: if_splits)
  note e = 1(2) [unfolded Let_def]
  consider "is_waiting ?c" | "\<not> is_waiting ?c" "?c = waiting_tunneled_pf"
    | "\<not> is_waiting ?c" "?c \<noteq> waiting_tunneled_pf" "?c = locked_running_ipc_done"
    | "\<not> is_waiting ?c" "?c \<noteq> waiting_tunneled_pf" "?c \<noteq> locked_running_ipc_done" by blast
  then show ?case
  proof cases
    case c: 1
    show ?thesis using e np(1) c
      by (intro fin [OF _ s1(2)]) (simp only: simp_thms if_True if_False, simp add: get_saved_state_def running_sel)
  next
    case c: 2
    then show ?thesis using e np(1) same_send_finish [OF a(1) [of True]]
      by (auto simp only: simp_thms if_True if_False option.case prod.case option.inject split: option.split_asm prod.split_asm)
  next
    case c: 3
    then show ?thesis using e np(1) redo [OF _ s1(1)]
      by (simp add: get_saved_state_def running_sel)
  next
    case c: 4
    note f = a [of True, simplified] s1(1) a(2) [of False, simplified]
    show ?thesis using e np(1) c redo [OF _ f(1,2)] redo [OF _ f(3,4)] same_send_finish [OF f(1)]
        same_send_finish [OF f(3)] s1(1)
      by (auto simp only: simp_thms if_True if_False option.case prod.case option.inject split: option.split_asm prod.split_asm if_split_asm)
  qed
qed


text \<open>A thread that polls is taken out of the queue of its partner, all other queues stay.\<close>

definition after_unwind :: "tcbp \<Rightarrow> kstate \<Rightarrow> (tcbp \<Rightarrow> tcbp list) \<Rightarrow> tcbp \<Rightarrow> tcbp list" where
  "after_unwind t s qs =
     (if is_polling (get_state t s)
      then qs(get_partner_tcb t s := remove1 t (qs (get_partner_tcb t s))) else qs)"

lemma unwind_loop_polling:
  assumes "is_polling (get_state t s)" and "p = get_partner_tcb t s"
    and "unwind_loop reason t tag s = Some s'" and "\<not> is_polling (get_saved_state t s)"
  shows "same_send (dequeue_send t p (cancel_timeout t (set_state t running s))) s'"
proof -
  let ?s3 = "dequeue_send t p (cancel_timeout t (set_state t running s))"
  have p: "get_partner_tcb t (set_state t running s) = p" using assms(2) by (simp add: tcb_ops)
  have saved: "get_saved_state t ?s3 = get_saved_state t s" by (simp add: get_saved_state_def running_sel)
  note e = unwind_loop.simps [of reason t tag s, unfolded Let_def p]
  show ?thesis
  proof (cases "is_nilthread (get_saved_partner t ?s3)")
    case True
    then have "\<exists>tg er. s' = set_error_code t er (set_tag t tg ?s3)"
      using assms(1,3) e by (simp only: simp_thms if_True if_False option.inject) metis
    then show ?thesis using same_send_finish [OF same_send_refl] by blast
  next
    case False
    then have u: "unwind_loop reason t tag (restore_state t ?s3) = Some s'"
      using assms(1,3) e by (simp only: simp_thms if_True if_False)
    have "same_send (restore_state t ?s3) s'"
      by (rule unwind_loop_same_send [OF u])
        (simp_all only: restore_state_states saved assms(4) not_polling_aborted not_False_eq_True)
    then show ?thesis using same_send_restore same_send_trans by blast
  qed
qed

lemma unwind_send_inv:
  assumes i: "send_inv s qs" and "is_polling (get_state t s) \<Longrightarrow> t \<in> set (qs (get_partner_tcb t s))"
    and "\<not> is_polling (get_saved_state t s)" and "unwind reason t s = Some s'"
  shows "send_inv s' (after_unwind t s qs)"
proof (cases "is_polling (get_state t s)")
  case True
  let ?s2 = "cancel_timeout t (set_state t running s)"
  have "same_send s ?s2" using same_send_ops(1) same_send_queues(3) same_send_trans by blast
  then have "send_inv ?s2 qs" using i by (rule send_inv_same)
  from send_inv_dequeue [OF this assms(2) [OF True]] show ?thesis
    using unwind_loop_polling [OF True refl assms(4) [unfolded unwind_def] assms(3)] True
    by (simp add: after_unwind_def send_inv_same)
next
  case False
  then show ?thesis using unwind_loop_same_send [OF assms(4) [unfolded unwind_def] False assms(3)] i
    by (simp add: after_unwind_def send_inv_same)
qed

section \<open>Threads whose IPC has not started\<close>

text \<open>C33: when the IPC of a thread that polls for a receiver or waits for a sender, outside a nested IPC,
  is aborted or times out, the thread leaves the wakeup list (the ring of the list without it), and a sender
  leaves the send queue of its partner (the ring of the queue without it; every other send queue is as
  before, and so are all of them when the thread was waiting); this is for wakeup list and send queues that are
  well formed, with a polling thread on the queue of its partner.  Its tag is the one it sent (the error tag
  for a receiver) with the error flag and its error code says which phase failed and whether by timeout or by
  abort; it is running, and no other thread changes its state.\<close>

theorem unwind_before_transfer:
  assumes "is_polling (get_state t s) \<or> is_waiting (get_state t s)" and "get_saved_partner t s = nilthread"
    and "wakeup_inv s ws" and "send_inv s qs"
    and "is_polling (get_state t s) \<Longrightarrow> t \<in> set (qs (get_partner_tcb t s))"
  shows "\<exists>s'. unwind reason t s = Some s' \<and>
    wakeup_inv s' (remove1 t ws) \<and>
    send_inv s' (if is_polling (get_state t s)
      then qs(get_partner_tcb t s := remove1 t (qs (get_partner_tcb t s))) else qs) \<and>
    get_tag t s' = set_error (if is_polling (get_state t s) then get_tag t s else error_tag) \<and>
    get_error_code t s' = (if is_polling (get_state t s) then IPC_SND_ERROR else IPC_RCV_ERROR)
      (if reason = unwind_timeout then ERR_IPC_TIMEOUT else ERR_IPC_CANCELED) \<and>
    get_state t s' = running \<and> (\<forall>x. x \<noteq> t \<longrightarrow> get_state x s' = get_state x s)"
proof -
  let ?s2 = "cancel_timeout t (set_state t running s)" and ?p = "get_partner_tcb t s"
  let ?s' = "unwound_before reason t s"
  have w2: "wakeup_inv ?s2 (remove1 t ws)" by (rule wakeup_inv_cancel [OF wakeup_inv_ops(1) [OF assms(3)]])
  have "same_send s ?s2" using same_send_ops(1) same_send_queues(3) same_send_trans by blast
  then have q2: "send_inv ?s2 qs" using assms(4) by (rule send_inv_same)
  have fin: "wakeup_inv (set_error_code t e (set_tag t tg s3)) ws3" "send_inv (set_error_code t e (set_tag t tg s3)) qs3"
    if "wakeup_inv s3 ws3" "send_inv s3 qs3" for e tg s3 ws3 qs3
    using wakeup_inv_ops(4) [OF wakeup_inv_ops(3) [OF that(1)]] send_inv_same [OF same_send_finish [OF same_send_refl] that(2)]
    by blast+
  have "wakeup_inv ?s' (remove1 t ws)" "send_inv ?s' (if is_polling (get_state t s) then qs(?p := remove1 t (qs ?p)) else qs)"
    using fin [OF wakeup_inv_ops(5) [OF w2] send_inv_dequeue [OF q2 assms(5)]] fin [OF w2 q2]
    by (simp_all add: unwound_before_def Let_def)
  moreover have "get_tag t ?s' = set_error (if is_polling (get_state t s) then get_tag t s else error_tag)"
    "get_error_code t ?s' = (if is_polling (get_state t s) then IPC_SND_ERROR else IPC_RCV_ERROR)
      (if reason = unwind_timeout then ERR_IPC_TIMEOUT else ERR_IPC_CANCELED)"
    "get_state t ?s' = running" "\<forall>x. x \<noteq> t \<longrightarrow> get_state x ?s' = get_state x s"
    by (auto simp: unwound_before_def Let_def tcb_ops)
  ultimately show ?thesis using unwind_before_eq [OF assms(1,2), of reason] by blast
qed

text \<open>The second thread polls for the first one and is the only one on its send queue.\<close>

definition timed_sender :: kstate where
  "timed_sender = set_state (Tcb 2) polling (set_partner (Tcb 2) 0x100000001 (enqueue_send (Tcb 2) (Tcb 1) blank_state))"

lemma send_inv_blank: "send_inv blank_state (\<lambda>_. [])"
  by (simp add: send_inv_def blank_state_def blank_tcb_def queue_state_is_set_def qstate_is_set_def)

lemma wakeup_inv_blank: "wakeup_inv blank_state []"
  by (simp add: wakeup_inv_def blank_state_def blank_tcb_def queue_state_is_set_def qstate_is_set_def)

lemma timed_sender_facts:
  "send_inv timed_sender ((\<lambda>_. [])(Tcb 1 := [Tcb 2]))" "wakeup_inv timed_sender []"
  "get_state (Tcb 2) timed_sender = polling" "get_partner_tcb (Tcb 2) timed_sender = Tcb 1"
  "get_saved_partner (Tcb 2) timed_sender = nilthread"
proof -
  have n: "\<not> queue_state_is_set (Tcb 2) qs_send blank_state" using send_invD(3) [OF send_inv_blank] by simp
  have "same_send (enqueue_send (Tcb 2) (Tcb 1) blank_state) timed_sender"
    unfolding timed_sender_def using same_send_ops(1,2) same_send_trans by blast
  then show "send_inv timed_sender ((\<lambda>_. [])(Tcb 1 := [Tcb 2]))"
    using send_inv_same send_inv_enqueue [OF send_inv_blank _ n, of "Tcb 1"] by simp
  have "wakeup_inv (enqueue_send (Tcb 2) (Tcb 1) blank_state) []"
    by (rule wakeup_inv_cong [OF wakeup_inv_blank])
      (auto simp: fun_eq_iff enqueue_send_def Let_def split_def wait_links_def set_queue_state_def upd_send_links_def
        queue_state_is_set_def)
  then show "wakeup_inv timed_sender []" unfolding timed_sender_def by (intro wakeup_inv_ops(1,2))
  show "get_state (Tcb 2) timed_sender = polling" "get_partner_tcb (Tcb 2) timed_sender = Tcb 1"
    "get_saved_partner (Tcb 2) timed_sender = nilthread"
    by (simp_all add: timed_sender_def tcb_ops get_tcb_eval blank_state_def blank_tcb_def nilthread_def
        get_saved_partner_def enqueue_send_def Let_def split_def set_queue_state_def upd_send_links_def)
qed

theorem unwind_before_transfer_witness:
  "\<exists>s'. unwind unwind_timeout (Tcb 2) timed_sender = Some s' \<and> send_inv s' ((\<lambda>_. [])(Tcb 1 := [])) \<and>
     get_error_code (Tcb 2) s' = IPC_SND_ERROR ERR_IPC_TIMEOUT"
proof -
  note f = timed_sender_facts
  have p: "is_polling (get_state (Tcb 2) timed_sender)" by (simp add: f(3) is_polling_def)
  show ?thesis
    using unwind_before_transfer [OF disjI1 [OF p] f(5) f(2) f(1), of unwind_timeout] p by (auto simp: f(4))
qed

section \<open>Senders that block\<close>

text \<open>C35: a sender that blocks joins the send queue of its receiver at the end, behind the senders
  that came before it, and no other queue changes; unwinding it by abort takes it out
  again and restores every queue.\<close>

theorem blocked_sender_abort_roundtrip:
  assumes "send_inv s qs" and "current \<noteq> NULL_tcb" and "\<not> queue_state_is_set current qs_send s"
    and "\<not> is_polling (get_saved_state current s)"
  shows "send_inv (ipc_send_block current (get_tcb to_tid) to_tid s)
      (qs(get_tcb to_tid := qs (get_tcb to_tid) @ [current])) \<and>
    (\<exists>s'. unwind unwind_abort current (ipc_send_block current (get_tcb to_tid) to_tid s) = Some s' \<and> send_inv s' qs)"
proof -
  let ?to = "get_tcb to_tid" and ?s1 = "ipc_send_block current (get_tcb to_tid) to_tid s"
  let ?q = "qs(?to := qs ?to @ [current])"
  have "same_send (enqueue_send current ?to s) ?s1"
    unfolding ipc_send_block_def using same_send_ops(1,2) same_send_trans by blast
  then have i: "send_inv ?s1 ?q" using send_inv_enqueue [OF assms(1-3)] send_inv_same by blast
  have n: "current \<notin> set (qs ?to)" using send_invD(3) [OF assms(1), of current] assms(3) by blast
  have p: "is_polling (get_state current ?s1)" "get_partner_tcb current ?s1 = ?to"
    "get_saved_state current ?s1 = get_saved_state current s"
    by (simp_all add: ipc_send_block_def tcb_ops is_polling_def enqueue_send_def Let_def split_def
        set_queue_state_def upd_send_links_def)
  obtain s' where u: "unwind unwind_abort current ?s1 = Some s'"
    using unwind_first [of unwind_abort ?s1 current] by (auto simp: unwind_def unwound_def)
  have "send_inv s' (after_unwind current ?s1 ?q)"
    by (rule unwind_send_inv [OF i _ _ u]) (simp_all add: p assms(4))
  moreover have "after_unwind current ?s1 ?q = qs" using n by (simp add: after_unwind_def p remove1_append)
  ultimately show ?thesis using i u by auto
qed

theorem blocked_sender_abort_roundtrip_witness:
  "\<exists>s'. unwind unwind_abort (Tcb 1) (ipc_send_block (Tcb 1) (get_tcb 5) 5 blank_state) = Some s' \<and>
     send_inv s' (\<lambda>_. [])"
proof -
  have "\<not> queue_state_is_set (Tcb 1) qs_send blank_state"
    using send_invD(3) [OF send_inv_blank, of "Tcb 1"] by simp
  moreover have "\<not> is_polling (get_saved_state (Tcb 1) blank_state)"
    by (simp add: get_saved_state_def blank_state_def blank_tcb_def not_polling_aborted)
  ultimately show ?thesis using blocked_sender_abort_roundtrip [OF send_inv_blank, of "Tcb 1" 5] by simp
qed

end
