(* ===== verification/Thread.thy ===== *)
theory Thread
  imports Send_Queue
begin

text \<open>
  The life of a thread (\<^verbatim>\<open>api/v4/thread.cc\<close>): initialisation, creation, activation,
  the startup protocol, deletion and migration between address spaces.

  \<^verbatim>\<open>tcb_t::allocate\<close> only touches the thread control block so that its page is
  mapped, and the list of present threads and the locks exist in debug and multiprocessor
  builds only: they have no effect on the state.
\<close>

section \<open>Creation\<close>

definition is_interrupt_thread :: "tcbp \<Rightarrow> kstate \<Rightarrow> bool" where
  "is_interrupt_thread t s \<longleftrightarrow>
     is_interrupt (get_system_base (kip_thread_info (kip s))) (get_global_id t s) \<and>
     get_threadno (get_global_id t s) < get_system_base (kip_thread_info (kip s))"

definition thread_startup :: "kstate \<Rightarrow> kstate" where
  "thread_startup s =
     (let current = get_current_tcb s;
          s1 = set_user_ip current (get_mr current 1 s) s;
          s2 = set_user_sp current (get_mr current 2 s1) s1
      in set_saved_state current aborted s2)"

definition fake_wait_for_startup :: "tcbp \<Rightarrow> threadid_t \<Rightarrow> kstate \<Rightarrow> kstate" where
  "fake_wait_for_startup t pager s =
     (let s1 = set_state t waiting_forever s;
          s2 = set_partner t pager s1;
          s3 = set_br t 0 0 s2;
          s4 = set_saved_partner t nilthread s3
      in set_saved_state t running s4)"

definition thread_return :: "kstate \<Rightarrow> kstate" where "thread_return s = s"

definition tcb_init :: "tcbp \<Rightarrow> threadid_t \<Rightarrow> kstate \<Rightarrow> kstate" where
  "tcb_init t dest s =
     (let s1 = upd_tcb t (\<lambda>x. x\<lparr>t_utcb := NULL_utcb, t_space := 0\<rparr>) s;
          s2 = set_state t aborted s1;
          s3 = set_saved_state t (t_thread_state (tcbs s2 t)) s2;
          s4 = upd_tcb t (\<lambda>x. x\<lparr>t_partner := nilthread\<rparr>) s3;
          s5 = set_saved_partner t nilthread s4;
          s6 = upd_tcb t (\<lambda>x. x\<lparr>t_myself_global := dest, t_myself_local := nilthread\<rparr>) s5;
          s7 = resources_init t s6;
          s8 = upd_tcb t (\<lambda>x. x\<lparr>t_queue_state := 0, t_send_head := NULL_tcb\<rparr>) s7;
          s9 = init_tcb t DEFAULT_PRIORITY DEFAULT_TOTAL_QUANTUM DEFAULT_TIMESLICE_LENGTH s8
      in init_stack t s9)"

definition create_kernel_thread :: "tcbp \<Rightarrow> threadid_t \<Rightarrow> utcbp \<Rightarrow> kstate \<Rightarrow> kstate" where
  "create_kernel_thread t dest utcb s =
     set_priority t 0 (upd_tcb t (\<lambda>x. x\<lparr>t_utcb := utcb\<rparr>) (tcb_init t dest s))"

definition create_inactive :: "tcbp \<Rightarrow> threadid_t \<Rightarrow> threadid_t \<Rightarrow> kstate \<Rightarrow> kstate" where
  "create_inactive t dest sched s = upd_tcb t (\<lambda>x. x\<lparr>t_scheduler := sched\<rparr>) (tcb_init t dest s)"

definition activate :: "tcbp \<Rightarrow> kfunc \<Rightarrow> threadid_t \<Rightarrow> kstate \<Rightarrow> (bool \<times> kstate) option" where
  "activate t startup_func pager s =
     do {
       (u, s1) \<leftarrow> allocate_utcb (get_space t s) t s;
       let s2 = upd_tcb t (\<lambda>x. x\<lparr>t_utcb := u\<rparr>) s1 in
       if u = NULL_utcb then Some (False, s2)
       else let s3 = set_global_id_tcb t (get_global_id t s2) s2;
                s4 = set_pager t pager s3;
                s5 = set_cpu t get_current_cpu s4;
                s6 = set_scheduler t (t_scheduler (tcbs s5 t)) s5;
                s7 = set_exception_handler t nilthread s6
            in Some (True, create_startup_stack t startup_func s7)
     }"

definition sizeof_utcb_t :: word_t where "sizeof_utcb_t = 1024"

definition check_utcb_location_at :: "tcbp \<Rightarrow> word_t \<Rightarrow> kstate \<Rightarrow> bool" where
  "check_utcb_location_at t utcb_location s \<longleftrightarrow>
     is_range_in_fpage (get_utcb_page_area (get_space t s) s) utcb_location (utcb_location + sizeof_utcb_t)"

definition check_utcb_location :: "tcbp \<Rightarrow> kstate \<Rightarrow> bool" where
  "check_utcb_location t s \<longleftrightarrow> check_utcb_location_at t (get_utcb_location t s) s"

section \<open>Deletion and migration\<close>

text \<open>The loop that empties the send queue; it ends if the queue is a well formed ring.\<close>

partial_function (option) drain_send :: "tcbp \<Rightarrow> kstate \<Rightarrow> kstate option" where
  "drain_send t s =
     (if t_send_head (tcbs s t) = NULL_tcb then Some s
      else drain_send t (dequeue_send (t_send_head (tcbs s t)) t s))"

definition delete_tcb :: "tcbp \<Rightarrow> kstate \<Rightarrow> kstate option" where
  "delete_tcb t s =
     do {
       s1 \<leftarrow> (if is_activated t s
             then do {
               let sa = dequeue_ready t s;
               sb \<leftarrow> (if is_sending (get_state t sa) \<or> is_receiving (get_state t sa)
                     then unwind unwind_abort t sa else Some sa);
               sc \<leftarrow> drain_send t sb;
               Some (upd_tcb t (\<lambda>x. x\<lparr>t_utcb := NULL_utcb\<rparr>) (resources_free t sc))
             }
             else Some s);
       let s2 = upd_tcb t (\<lambda>x. x\<lparr>t_myself_global := nilthread, t_myself_local := nilthread\<rparr>) s1;
           s3 = set_space t 0 s2
       in Some (set_state t aborted s3)
     }"

text \<open>Migration: as in the source, the space whose mappings are released when the last thread
  leaves is the destination, and the thread is not counted there.\<close>

definition migrate_to_space :: "unmapper \<Rightarrow> tcbp \<Rightarrow> spacep \<Rightarrow> kstate \<Rightarrow> (bool \<times> kstate) option" where
  "migrate_to_space unmap t space s =
     do {
       (new_utcb, s1) \<leftarrow> allocate_utcb space t s;
       if new_utcb = NULL_utcb then Some (False, s1)
       else do {
         s2 \<leftarrow> unwind unwind_abort t s1;
         let (last, s3) = remove_tcb (get_space t s2) s2;
         s4 \<leftarrow> (if last
               then do { sa \<leftarrow> space_free unmap space s3; free_space (get_space t sa) sa }
               else Some s3);
         let s5 = set_space t space s4 in
         Some (True, upd_tcb t (\<lambda>x. x\<lparr>t_utcb := new_utcb\<rparr>) s5)
       }
     }"

section \<open>A deleted thread is gone\<close>

lemma drain_send_returns:
  assumes "send_inv s qs"
  shows "\<exists>s'. drain_send t s = Some s' \<and> send_inv s' (qs(t := []))"
  using assms
proof (induction "qs t" arbitrary: qs s)
  case Nil
  then have "t_send_head (tcbs s t) = NULL_tcb" using sq.head_null [OF Nil(2), of t] by simp
  moreover have "qs(t := []) = qs" using Nil(1) by auto
  ultimately show ?case using Nil(2) by (simp add: drain_send.simps)
next
  case (Cons x xs)
  let ?s = "dequeue_send (t_send_head (tcbs s t)) t s"
  have "t_send_head (tcbs s t) \<noteq> NULL_tcb" using sq.head_null [OF Cons(3), of t] Cons(2) by auto
  then have e: "drain_send t s = drain_send t ?s" by (subst drain_send.simps) simp
  have "send_inv ?s (qs(t := xs))" using sq.deq_head(2) [OF Cons(3)] Cons(2) by metis
  from Cons(1) [OF _ this] show ?case by (simp add: e)
qed

text \<open>Deletion ends the thread's part in every queue: whatever queues there are before, the thread's own
  send queue is empty afterwards.\<close>

lemma delete_tcb_result:
  assumes "delete_tcb t s = Some s'"
  shows "get_global_id t s' = nilthread" "get_local_id t s' = nilthread" "\<not> exists_tcb t s'"
    "get_state t s' = aborted"
  using assms
  by (auto simp: delete_tcb_def get_global_id_def get_local_id_def exists_tcb_def set_space_def tcb_ops
      split: bind_splits)

lemma delete_tcb_returns:
  assumes "send_inv s qs" and "is_activated t s"
    and "is_polling (get_state t s) \<Longrightarrow> t \<in> set (qs (get_partner_tcb t s))"
    and "\<not> is_polling (get_saved_state t s)"
  shows "\<exists>s'. delete_tcb t s = Some s' \<and> get_global_id t s' = nilthread \<and> \<not> exists_tcb t s' \<and>
    \<not> is_activated t s' \<and> get_state t s' = aborted \<and> send_inv s' ((after_unwind t s qs)(t := []))"
proof -
  let ?sa = "dequeue_ready t s"
  have sa: "send_inv ?sa qs" using assms(1) same_send_queues(2) send_inv_same by blast
  have eq: "get_state t ?sa = get_state t s" "get_saved_state t ?sa = get_saved_state t s"
    "get_partner_tcb t ?sa = get_partner_tcb t s"
    by (simp_all add: tcb_ops dequeue_ready_def)
  then have au: "after_unwind t ?sa qs = after_unwind t s qs" by (simp add: after_unwind_def)
  obtain su where u: "unwind unwind_abort t ?sa = Some su"
    using unwind_first [of unwind_abort ?sa t] by (auto simp: unwind_def unwound_def)
  let ?ipc = "is_sending (get_state t ?sa) \<or> is_receiving (get_state t ?sa)"
  let ?sb = "if ?ipc then su else ?sa"
  have iu: "send_inv su (after_unwind t s qs)"
    using unwind_send_inv [OF sa _ _ u] assms(3,4) eq au by simp
  have "\<not> ?ipc \<Longrightarrow> after_unwind t s qs = qs"
    by (simp add: after_unwind_def eq(1) is_sending_def is_polling_def)
  then have "send_inv ?sb (after_unwind t s qs)" using iu sa by auto
  then obtain sc where d: "drain_send t ?sb = Some sc" and ic: "send_inv sc ((after_unwind t s qs)(t := []))"
    using drain_send_returns by blast
  let ?s1 = "upd_tcb t (\<lambda>x. x\<lparr>t_utcb := NULL_utcb\<rparr>) (resources_free t sc)"
  let ?s' = "set_state t aborted (set_space t 0 (upd_tcb t (\<lambda>x. x\<lparr>t_myself_global := nilthread, t_myself_local := nilthread\<rparr>) ?s1))"
  have r: "delete_tcb t s = Some ?s'" using assms(2) u d by (cases ?ipc) (simp_all add: delete_tcb_def Let_def)
  have "same_send sc ?s'"
    by (simp add: same_send_def resources_free_def set_state_def set_space_def queue_state_is_set_def)
  then have "send_inv ?s' ((after_unwind t s qs)(t := []))" using ic send_inv_same by blast
  moreover have "\<not> is_activated t ?s'" by (simp add: is_activated_def set_state_def set_space_def)
  ultimately show ?thesis using r delete_tcb_result [OF r] by blast
qed


definition queued_sender :: kstate where
  "queued_sender = upd_tcb (Tcb 1) (\<lambda>x. x\<lparr>t_utcb := Utcb 0x5000, t_space := 0x10000, t_myself_global := 0x100000001\<rparr>)
     (enqueue_send (Tcb 2) (Tcb 1) blank_state)"

lemma queued_sender_inv: "send_inv queued_sender ((\<lambda>_. [])(Tcb 1 := [Tcb 2]))"
proof -
  have "\<not> queue_state_is_set (Tcb 2) qs_send blank_state" using send_invD(3) [OF send_inv_blank, of "Tcb 2"] by simp
  then have "send_inv (enqueue_send (Tcb 2) (Tcb 1) blank_state) ((\<lambda>_. [])(Tcb 1 := [Tcb 2]))"
    using send_inv_enqueue [OF send_inv_blank, of "Tcb 2" "Tcb 1"] by simp
  then show ?thesis
    unfolding queued_sender_def by (rule send_inv_same [OF same_send_upd_tcb, rotated -1]) simp_all
qed


end
