(* ===== verification/Interrupt.thy ===== *)
theory Interrupt
  imports Thread
begin

text \<open>
  Interrupts as threads (\<^verbatim>\<open>interrupt.cc\<close>) and the mips64 interrupt controller
  (\<^verbatim>\<open>glue/v4-mips64/intctrl.h\<close>).

  Every interrupt line has a thread; a hardware interrupt becomes an IPC from it to its handler, and
  the handler's reply unmasks the line again.  The controller keeps the enabled lines in the
  \<^verbatim>\<open>int_mask\<close> of the idle thread; the bits of the processor's status register that it sets in the
  same way are hardware state and not modelled.
\<close>

section \<open>The interrupt controller\<close>

definition intctrl_mask :: "word_t \<Rightarrow> kstate \<Rightarrow> kstate" where
  "intctrl_mask irq s = upd_tcb Idle_tcb (\<lambda>x. x\<lparr>t_int_mask := t_int_mask x AND NOT (push_bit (unat irq) 1)\<rparr>) s"

definition intctrl_unmask :: "word_t \<Rightarrow> kstate \<Rightarrow> bool \<times> kstate" where
  "intctrl_unmask irq s =
     (False, upd_tcb Idle_tcb (\<lambda>x. x\<lparr>t_int_mask := t_int_mask x OR push_bit (unat irq) 1\<rparr>) s)"

definition intctrl_disable :: "word_t \<Rightarrow> kstate \<Rightarrow> kstate" where
  "intctrl_disable irq s = upd_tcb Idle_tcb (\<lambda>x. x\<lparr>t_int_mask := t_int_mask x AND NOT (push_bit (unat irq) 1)\<rparr>) s"

definition intctrl_enable :: "word_t \<Rightarrow> kstate \<Rightarrow> bool \<times> kstate" where
  "intctrl_enable irq s =
     (False, upd_tcb Idle_tcb (\<lambda>x. x\<lparr>t_int_mask := t_int_mask x OR push_bit (unat irq) 1\<rparr>) s)"

definition get_number_irqs :: word_t where "get_number_irqs = 7"

text \<open>The argument is an \<^verbatim>\<open>int\<close>: the low 32 bits, read as signed.\<close>

definition is_irq_available :: "word_t \<Rightarrow> bool" where
  "is_irq_available irq \<longleftrightarrow>
     sint (ucast irq :: 32 word) < 7 \<and> sint (ucast irq :: 32 word) \<ge> 2"

definition intctrl_set_cpu :: "word_t \<Rightarrow> cpuid_t \<Rightarrow> kstate \<Rightarrow> kstate" where
  "intctrl_set_cpu irq cpu s = s"

section \<open>Delivery\<close>

text \<open>The fast path: the handler waits for this interrupt, or for anybody.\<close>

definition deliver_interrupt :: "switcher \<Rightarrow> tcbp \<Rightarrow> threadid_t \<Rightarrow> threadid_t \<Rightarrow> kstate \<Rightarrow> kstate option" where
  "deliver_interrupt sw current irq_tid handler_tid s =
     (let irq_tcb = get_tcb irq_tid;
          handler_tcb = get_tcb handler_tid;
          s1 = set_partner irq_tcb handler_tid s;
          s2 = set_state irq_tcb waiting_forever s1;
          s3 = set_tag handler_tcb irq_tag s2;
          s4 = set_partner handler_tcb irq_tid s3
      in if current = Idle_tcb then sw current handler_tcb s4
         else if check_dispatch_thread current handler_tcb s4
         then sw current handler_tcb (preempt_thread current handler_tcb s4)
         else Some (enqueue_ready handler_tcb False (set_state handler_tcb running s4)))"

text \<open>The slow path: the interrupt thread queues up as a sender.\<close>

definition queue_interrupt :: "tcbp \<Rightarrow> threadid_t \<Rightarrow> kstate \<Rightarrow> kstate" where
  "queue_interrupt irq_tcb handler_tid s =
     (let s1 = set_tag irq_tcb irq_tag s;
          s2 = set_partner irq_tcb handler_tid s1;
          s3 = set_state irq_tcb polling s2
      in enqueue_send irq_tcb (get_tcb handler_tid) s3)"

definition handle_interrupt :: "switcher \<Rightarrow> word_t \<Rightarrow> kstate \<Rightarrow> kstate option" where
  "handle_interrupt sw irq s =
     (let current = get_current_tcb s;
          irq_tid = irqthread irq;
          irq_tcb = get_tcb irq_tid
      in if get_state irq_tcb s = aborted then Some s
         else let handler_tid = get_irq_handler irq_tcb s;
                  handler_tcb = get_tcb handler_tid;
                  partner = get_partner handler_tcb s
              in if get_global_id handler_tcb s \<noteq> handler_tid then Some (set_state irq_tcb aborted s)
                 else if is_waiting (get_state handler_tcb s) \<and> (partner = irq_tid \<or> is_anythread partner)
                 then deliver_interrupt sw current irq_tid handler_tid s
                 else Some (queue_interrupt irq_tcb handler_tid s))"

section \<open>The interrupt thread\<close>

text \<open>One round of its endless loop.  \<^verbatim>\<open>current\<close> and \<^verbatim>\<open>irq\<close> are set when the thread
  first runs; the round ends when the thread is dispatched again after \<^verbatim>\<open>switch_to_idle\<close>.\<close>

definition irq_thread_round :: "switcher \<Rightarrow> tcbp \<Rightarrow> word_t \<Rightarrow> kstate \<Rightarrow> kstate option" where
  "irq_thread_round sw current irq s =
     (let handler_tcb = get_tcb (get_irq_handler current s)
      in do {
        s1 \<leftarrow> (if queue_state_is_set current qs_send s
              then let sa = dequeue_send current handler_tcb s;
                       sb = set_tag handler_tcb irq_tag sa;
                       sc = set_partner handler_tcb (get_global_id current sb) sb;
                       sd = set_partner current (get_irq_handler current sc) sc;
                       se = set_state current waiting_forever sd
                   in sw current handler_tcb se
              else Some s);
        let s2 = set_state current halted s1;
        let (pending, s3) = intctrl_unmask irq s2;
        s4 \<leftarrow> (if pending then handle_interrupt sw irq s3 else Some s3);
        sw current Idle_tcb s4
      })"

section \<open>Thread control of interrupts\<close>

definition thread_control_interrupt :: "threadid_t \<Rightarrow> threadid_t \<Rightarrow> kstate \<Rightarrow> bool \<times> kstate" where
  "thread_control_interrupt irq_tid handler_tid s =
     (let irq_tcb = get_tcb irq_tid;
          irq = get_irqno irq_tid
      in if \<not> is_interrupt (get_system_base (kip_thread_info (kip s))) irq_tid \<or> \<not> is_irq_available irq then (False, s)
         else if is_activated irq_tcb s \<and> get_irq_handler irq_tcb s = handler_tid then (True, s)
         else let s1 = (if is_activated irq_tcb s
                        then if is_polling (get_state irq_tcb s)
                             then dequeue_send irq_tcb (get_partner_tcb irq_tcb s) s else s
                        else notify0 irq_tcb Irq_thread
                               (set_priority irq_tcb MAX_PRIO (create_kernel_thread irq_tcb irq_tid Irq_utcb s)));
                  s2 = set_irq_handler irq_tcb handler_tid s1
              in if irq_tid = handler_tid
                 then (True, set_state irq_tcb aborted (intctrl_disable irq s2))
                 else let s3 = set_state irq_tcb halted s2;
                          s4 = intctrl_set_cpu irq (get_cpu irq_tcb s3) s3
                      in (True, snd (intctrl_enable irq s4)))"

definition init_interrupt_threads :: "kstate \<Rightarrow> kstate" where
  "init_interrupt_threads s =
     s\<lparr>kip := (kip s)\<lparr>kip_thread_info := set_system_base get_number_irqs (kip_thread_info (kip s))\<rparr>\<rparr>"


section \<open>An interrupt reaches its handler\<close>

lemma handler_state_sel:
  "get_state x (set_partner t p s) = get_state x s" "get_state x (set_tag t tg s) = get_state x s"
  "get_partner x (set_tag t tg s) = get_partner x s" "get_partner x (set_state t v s) = get_partner x s"
  "get_tag x (set_partner t p s) = get_tag x s" "get_tag x (set_state t v s) = get_tag x s"
  "get_state x (set_state t v s) = (if x = t then v else get_state x s)"
  "get_partner x (set_partner t p s) = (if x = t then p else get_partner x s)"
  "get_tag t (set_tag t tg s) = tg"
  by (simp_all add: tcb_ops)

lemma handler_queue_sel:
  "get_state x (enqueue_send t u s) = get_state x s" "get_partner x (enqueue_send t u s) = get_partner x s"
  "get_tag x (enqueue_send t u s) = get_tag x s"
  "get_state x (dequeue_send t u s) = get_state x s" "get_partner x (dequeue_send t u s) = get_partner x s"
  "get_tag x (dequeue_send t u s) = get_tag x s"
  "get_state x (enqueue_ready t b s) = get_state x s" "get_partner x (enqueue_ready t b s) = get_partner x s"
  "get_tag x (enqueue_ready t b s) = get_tag x s"
  "get_state x (preempt_thread t u s) = get_state x s" "get_partner x (preempt_thread t u s) = get_partner x s"
  "get_tag x (preempt_thread t u s) = get_tag x s"
  by (simp_all add: tcb_ops enqueue_send_def Let_def split_def set_queue_state_def upd_send_links_def
      enqueue_ready_def preempt_thread_def)

lemma enqueue_ready_sets: "queue_state_is_set t qs_ready (enqueue_ready t b s)"
  by (simp add: enqueue_ready_def prio_enqueue_def Let_def split_def)

text \<open>The handler has been told: its message is the interrupt message, its partner the interrupt
  thread, which waits for the handler's reply.\<close>

definition interrupt_delivered :: "threadid_t \<Rightarrow> threadid_t \<Rightarrow> kstate \<Rightarrow> bool" where
  "interrupt_delivered irq_tid handler_tid s \<longleftrightarrow>
     get_tag (get_tcb handler_tid) s = irq_tag \<and> get_partner (get_tcb handler_tid) s = irq_tid \<and>
     get_state (get_tcb irq_tid) s = waiting_forever \<and> get_partner (get_tcb irq_tid) s = handler_tid"

lemmas interrupt_sels = handler_state_sel handler_queue_sel

lemma deliver_interrupt_result:
  assumes "get_tcb irq_tid \<noteq> get_tcb handler_tid"
  shows "\<exists>s1. interrupt_delivered irq_tid handler_tid s1 \<and>
    (deliver_interrupt sw current irq_tid handler_tid s = sw current (get_tcb handler_tid) s1 \<or>
     deliver_interrupt sw current irq_tid handler_tid s = Some s1 \<and> get_state (get_tcb handler_tid) s1 = running \<and>
       queue_state_is_set (get_tcb handler_tid) qs_ready s1)"
proof -
  let ?s4 = "set_partner (get_tcb handler_tid) irq_tid (set_tag (get_tcb handler_tid) irq_tag
    (set_state (get_tcb irq_tid) waiting_forever (set_partner (get_tcb irq_tid) handler_tid s)))"
  let ?s5 = "enqueue_ready (get_tcb handler_tid) False (set_state (get_tcb handler_tid) running ?s4)"
  have d: "interrupt_delivered irq_tid handler_tid ?s4"
    "interrupt_delivered irq_tid handler_tid (preempt_thread current (get_tcb handler_tid) ?s4)"
    "interrupt_delivered irq_tid handler_tid ?s5"
    using assms by (simp_all add: interrupt_delivered_def interrupt_sels)
  have r: "get_state (get_tcb handler_tid) ?s5 = running" "queue_state_is_set (get_tcb handler_tid) qs_ready ?s5"
    by (simp add: interrupt_sels, rule enqueue_ready_sets)
  consider "current = Idle_tcb" | "current \<noteq> Idle_tcb" "check_dispatch_thread current (get_tcb handler_tid) ?s4"
    | "current \<noteq> Idle_tcb" "\<not> check_dispatch_thread current (get_tcb handler_tid) ?s4" by blast
  then show ?thesis
  proof cases
    case 1
    then show ?thesis using d(1) by (auto simp: deliver_interrupt_def Let_def)
  next
    case 2
    then show ?thesis using d(2) by (auto simp: deliver_interrupt_def Let_def)
  next
    case 3
    then have "deliver_interrupt sw current irq_tid handler_tid s = Some ?s5"
      by (simp add: deliver_interrupt_def Let_def)
    then show ?thesis using d(3) r by blast
  qed
qed

lemma queue_interrupt_result:
  assumes "send_inv s qs" and "irq_tcb \<noteq> NULL_tcb" and "\<not> queue_state_is_set irq_tcb qs_send s"
  shows "send_inv (queue_interrupt irq_tcb h s) (qs(get_tcb h := qs (get_tcb h) @ [irq_tcb]))"
    and "get_state irq_tcb (queue_interrupt irq_tcb h s) = polling"
    and "get_partner irq_tcb (queue_interrupt irq_tcb h s) = h"
    and "get_tag irq_tcb (queue_interrupt irq_tcb h s) = irq_tag"
proof -
  let ?s3 = "set_state irq_tcb polling (set_partner irq_tcb h (set_tag irq_tcb irq_tag s))"
  have ss: "same_send s ?s3" by (intro same_send_trans [OF _ same_send_ops(1)]
      same_send_trans [OF _ same_send_ops(2)] same_send_ops(10))
  then have "\<not> queue_state_is_set irq_tcb qs_send ?s3" using assms(3) by (simp add: same_send_def)
  from send_inv_enqueue [OF send_inv_same [OF ss assms(1)] assms(2) this]
  show "send_inv (queue_interrupt irq_tcb h s) (qs(get_tcb h := qs (get_tcb h) @ [irq_tcb]))"
    by (simp add: queue_interrupt_def Let_def)
qed (simp_all add: queue_interrupt_def Let_def interrupt_sels)

text \<open>C17: an interrupt whose thread is attached and whose handler exists is never lost.  If the handler
  waits for it (or for anybody), the handler gets the interrupt message, and is either switched to
  or made running and ready; otherwise the interrupt thread polls, at the end of the handler's
  send queue, and every other send queue is unchanged.\<close>

theorem handle_interrupt_reaches_handler:
  assumes "irq_tid = irqthread irq" and "irq_tcb = get_tcb irq_tid" and "get_state irq_tcb s \<noteq> aborted"
    and "h = get_irq_handler irq_tcb s" and "get_global_id (get_tcb h) s = h" and "get_tcb h \<noteq> irq_tcb"
    and "send_inv s qs" and "\<not> queue_state_is_set irq_tcb qs_send s"
  shows "if is_waiting (get_state (get_tcb h) s) \<and>
      (get_partner (get_tcb h) s = irq_tid \<or> is_anythread (get_partner (get_tcb h) s))
    then \<exists>s1. interrupt_delivered irq_tid h s1 \<and>
      (handle_interrupt sw irq s = sw (get_current_tcb s) (get_tcb h) s1 \<or>
       handle_interrupt sw irq s = Some s1 \<and> get_state (get_tcb h) s1 = running \<and>
         queue_state_is_set (get_tcb h) qs_ready s1)
    else \<exists>s1. handle_interrupt sw irq s = Some s1 \<and> get_state irq_tcb s1 = polling \<and>
      get_partner irq_tcb s1 = h \<and> get_tag irq_tcb s1 = irq_tag \<and>
      send_inv s1 (qs(get_tcb h := qs (get_tcb h) @ [irq_tcb]))"
proof (cases "is_waiting (get_state (get_tcb h) s) \<and>
    (get_partner (get_tcb h) s = irq_tid \<or> is_anythread (get_partner (get_tcb h) s))")
  case True
  then have "handle_interrupt sw irq s = deliver_interrupt sw (get_current_tcb s) irq_tid h s"
    using assms(1-5) by (simp add: handle_interrupt_def Let_def)
  then show ?thesis using deliver_interrupt_result [of irq_tid h] assms(2,6) True by simp
next
  case False
  then have r: "handle_interrupt sw irq s = Some (queue_interrupt irq_tcb h s)"
    using assms(1-5) by (auto simp: handle_interrupt_def Let_def)
  have "irq_tcb \<noteq> NULL_tcb" by (simp add: assms(2) get_tcb_def)
  from queue_interrupt_result [OF assms(7) this assms(8)] show ?thesis
    by (subst if_not_P [OF False]) (simp add: r)
qed


text \<open>A handler (thread 16) that waits for anybody, an attached interrupt 3, and an idle processor.\<close>

definition irq_state :: kstate where
  "irq_state = upd_tcb (Tcb 3) (\<lambda>x. x\<lparr>t_utcb := Irq_utcb, t_thread_state := halted, t_scheduler := threadid 16 1\<rparr>)
     (upd_tcb (Tcb 16) (\<lambda>x. x\<lparr>t_utcb := Utcb 0x5000, t_space := 0x10000, t_myself_global := threadid 16 1,
        t_thread_state := waiting_forever, t_partner := anythread\<rparr>) blank_state)"

lemma irq_state_tcbs:
  "get_tcb (irqthread 3) = Tcb 3" "get_tcb (threadid 16 1) = Tcb 16"
  by (simp_all add: get_tcb_def irqthread_threadid get_threadno_def threadid_def VALID_THREADNO_BITS_def
      bf_get_def bf_set_def)

theorem handle_interrupt_reaches_handler_witness:
  "\<exists>s1. interrupt_delivered (irqthread 3) (threadid 16 1) s1 \<and>
     (handle_interrupt switch_now 3 irq_state = switch_now Idle_tcb (Tcb 16) s1 \<or>
      handle_interrupt switch_now 3 irq_state = Some s1 \<and> get_state (Tcb 16) s1 = running)"
proof -
  have h: "get_irq_handler (Tcb 3) irq_state = threadid 16 1"
    by (simp add: irq_state_def get_irq_handler_def get_scheduler_def)
  have st: "get_state (Tcb 3) irq_state \<noteq> aborted" "get_state (Tcb 16) irq_state = waiting_forever"
    "get_partner (Tcb 16) irq_state = anythread" "get_global_id (Tcb 16) irq_state = threadid 16 1"
    "get_current_tcb irq_state = Idle_tcb"
    by (simp_all add: irq_state_def tcb_ops thread_state_vals get_current_tcb_def blank_state_def)
  have i: "send_inv irq_state (\<lambda>_. [])"
    unfolding irq_state_def by (rule send_inv_same [OF _ send_inv_blank]) (simp add: same_send_def queue_state_is_set_def)
  then have nq: "\<not> queue_state_is_set (Tcb 3) qs_send irq_state" using send_invD(3) [OF i, of "Tcb 3"] by simp
  show ?thesis
    using handle_interrupt_reaches_handler [of "irqthread 3" 3 "Tcb 3" irq_state "threadid 16 1" "\<lambda>_. []" switch_now]
      h st i nq by (auto simp: irq_state_tcbs is_waiting_def is_anythread_def anythread_def)
qed

text \<open>C32: one round of an interrupt thread that is dispatched from the send queue of its handler, for well
  formed send queues and whatever the switches of the processor do: it leaves the queue, gives the handler the interrupt
  message with its own id as the sender, waits for the reply and switches to the handler in this state; when the
  reply dispatches it again, it halts, its line is unmasked, no other thread changes state, and it gives up the
  processor.  These two switches are all that the round does.\<close>

theorem irq_thread_round_delivers:
  assumes "send_inv s qs" and "irq_tcb = get_tcb (get_global_id irq_tcb s)" and "h = get_irq_handler irq_tcb s"
    and "irq_tcb \<in> set (qs (get_tcb h))" and "get_tcb h \<noteq> irq_tcb" and "unat irq < 64"
  shows "\<exists>s1 fin. (\<forall>sw. irq_thread_round sw irq_tcb irq s =
      do { s2 \<leftarrow> sw irq_tcb (get_tcb h) s1; sw irq_tcb Idle_tcb (fin s2) }) \<and>
    interrupt_delivered (get_global_id irq_tcb s) h s1 \<and>
    send_inv s1 (qs(get_tcb h := remove1 irq_tcb (qs (get_tcb h)))) \<and>
    (\<forall>x. x \<noteq> irq_tcb \<longrightarrow> get_state x s1 = get_state x s) \<and>
    (\<forall>s2. get_state irq_tcb (fin s2) = halted \<and> bit (t_int_mask (tcbs (fin s2) Idle_tcb)) (unat irq) \<and>
       (\<forall>x. x \<noteq> irq_tcb \<longrightarrow> get_state x (fin s2) = get_state x s2))"
proof -
  let ?h = "get_tcb h" and ?id = "get_global_id irq_tcb s"
  let ?s1 = "set_state irq_tcb waiting_forever (set_partner irq_tcb h (set_partner ?h ?id
    (set_tag ?h irq_tag (dequeue_send irq_tcb ?h s))))"
  let ?fin = "\<lambda>s2. snd (intctrl_unmask irq (set_state irq_tcb halted s2))"
  have q: "queue_state_is_set irq_tcb qs_send s" using send_invD(3) [OF assms(1)] assms(4) by blast
  have a: "get_irq_handler irq_tcb (set_partner ?h ?id (set_tag ?h irq_tag (dequeue_send irq_tcb ?h s))) = h"
    "get_global_id irq_tcb (set_tag ?h irq_tag (dequeue_send irq_tcb ?h s)) = ?id"
    using assms(3) by (simp_all add: get_irq_handler_def get_scheduler_def tcb_ops dequeue_send_def Let_def
        split_def clear_queue_state_def upd_send_links_def)
  have "irq_thread_round sw irq_tcb irq s = do { s2 \<leftarrow> sw irq_tcb ?h ?s1; sw irq_tcb Idle_tcb (?fin s2) }" for sw
    using q by (simp add: irq_thread_round_def Let_def a intctrl_unmask_def flip: assms(3))
  moreover have "interrupt_delivered ?id h ?s1"
    using assms(5) by (simp add: interrupt_delivered_def interrupt_sels assms(2) [symmetric])
  moreover have "send_inv ?s1 (qs(?h := remove1 irq_tcb (qs ?h)))"
    using send_inv_dequeue [OF assms(1,4)] send_inv_same same_send_ops(1,2,10) same_send_trans by blast
  moreover have "\<forall>x. x \<noteq> irq_tcb \<longrightarrow> get_state x ?s1 = get_state x s" by (simp add: tcb_ops)
  moreover have "bit (push_bit (unat irq) 1 :: word_t) (unat irq)" using assms(6) by (simp only: bit_push_bit_iff) simp
  then have "get_state irq_tcb (?fin s2) = halted \<and> bit (t_int_mask (tcbs (?fin s2) Idle_tcb)) (unat irq) \<and>
      (\<forall>x. x \<noteq> irq_tcb \<longrightarrow> get_state x (?fin s2) = get_state x s2)" for s2
    by (auto simp: intctrl_unmask_def get_state_def set_state_def bit_or_iff)
  ultimately show ?thesis by (intro exI [of _ ?s1] exI [of _ ?fin]) blast
qed

definition irq_queued_state :: kstate where
  "irq_queued_state = enqueue_send (Tcb 3) (Tcb 16)
     (upd_tcb (Tcb 3) (\<lambda>x. x\<lparr>t_myself_global := irqthread 3\<rparr>) irq_state)"

lemma irq_queued_sel:
  "get_global_id (Tcb 3) irq_queued_state = irqthread 3"
  "get_irq_handler (Tcb 3) irq_queued_state = threadid 16 1"
  by (simp_all add: irq_queued_state_def irq_state_def get_irq_handler_def get_scheduler_def get_global_id_def
      enqueue_send_def Let_def split_def set_queue_state_def upd_send_links_def)

lemma irq_queued_inv: "send_inv irq_queued_state ((\<lambda>_. [])(Tcb 16 := [Tcb 3]))"
proof -
  let ?s = "upd_tcb (Tcb 3) (\<lambda>x. x\<lparr>t_myself_global := irqthread 3\<rparr>) irq_state"
  have i: "send_inv ?s (\<lambda>_. [])"
    unfolding irq_state_def by (rule send_inv_same [OF _ send_inv_blank]) (simp add: same_send_def queue_state_is_set_def)
  have "\<not> queue_state_is_set (Tcb 3) qs_send ?s" using send_invD(3) [OF i, of "Tcb 3"] by simp
  then show ?thesis using send_inv_enqueue [OF i, of "Tcb 3" "Tcb 16"] by (simp add: irq_queued_state_def)
qed

theorem irq_thread_round_delivers_witness:
  "\<exists>s1 s3. irq_thread_round switch_now (Tcb 3) 3 irq_queued_state = switch_now (Tcb 3) Idle_tcb s3 \<and>
     get_tag (Tcb 16) s1 = irq_tag \<and> send_inv s1 ((\<lambda>_. [])(Tcb 16 := [])) \<and>
     get_state (Tcb 3) s3 = halted \<and> bit (t_int_mask (tcbs s3 Idle_tcb)) 3"
proof -
  have "Tcb 3 = get_tcb (get_global_id (Tcb 3) irq_queued_state)" by (simp add: irq_queued_sel irq_state_tcbs)
  from irq_thread_round_delivers [OF irq_queued_inv this irq_queued_sel(2) [symmetric], of 3]
  show ?thesis by (fastforce simp: irq_state_tcbs switch_now_def interrupt_delivered_def)
qed

section \<open>Attaching and detaching a handler\<close>

lemma irq_available_range:
  assumes "irq = get_irqno tid"
  shows "is_irq_available irq \<longleftrightarrow> 2 \<le> unat irq \<and> unat irq < 7"
proof -
  let ?w = "ucast irq :: 32 word"
  have "irq = take_bit 32 irq" by (simp add: assms get_irqno_def get_threadno_def bf_get_def)
  then have "uint irq = take_bit 32 (uint irq)" by (metis unsigned_take_bit_eq)
  then have u: "uint ?w = uint irq" by (simp add: unsigned_ucast_eq)
  have small: "sint ?w = uint ?w" if "uint ?w < 2 ^ 31"
    using that by (simp add: sint_uint signed_take_bit_eq_if_positive bit_iff_odd not_less take_bit_int_eq_self)
  have pos: "uint ?w = sint ?w" if "0 \<le> sint ?w" "sint ?w < 7"
    using that by (simp add: uint_sint take_bit_int_eq_self)
  have "is_irq_available irq \<longleftrightarrow> 2 \<le> uint irq \<and> uint irq < 7"
  proof
    assume "is_irq_available irq"
    then have r: "2 \<le> sint ?w" "sint ?w < 7" by (simp_all only: is_irq_available_def)
    then have "uint ?w = sint ?w" by (intro pos) simp_all
    then show "2 \<le> uint irq \<and> uint irq < 7" using r by (simp only: u)
  next
    assume r: "2 \<le> uint irq \<and> uint irq < 7"
    then have "sint ?w = uint ?w" by (intro small) (simp add: u)
    then show "is_irq_available irq" using r by (simp only: is_irq_available_def u)
  qed
  moreover have "uint irq = int (unat irq)" by (rule uint_nat)
  ultimately show ?thesis by linarith
qed

text \<open>Attaching or detaching the handler of an interrupt succeeds exactly for interrupt ids of the lines
  2 to 6; a refused call changes nothing.  After a successful one the handler is the requested one, the
  interrupt thread is activated, and a change of handler leaves the thread halted with its line enabled,
  or, when it is detached (it is its own handler), aborted with its line disabled.\<close>

theorem thread_control_interrupt_correct:
  assumes "thread_control_interrupt irq_tid h s = (ok, s')"
  shows "(ok \<longleftrightarrow> is_interrupt (get_system_base (kip_thread_info (kip s))) irq_tid \<and>
      2 \<le> get_irqno irq_tid \<and> get_irqno irq_tid < 7) \<and>
    (\<not> ok \<longrightarrow> s' = s) \<and>
    (ok \<longrightarrow> get_irq_handler (get_tcb irq_tid) s' = h \<and> is_activated (get_tcb irq_tid) s' \<and>
      (if is_activated (get_tcb irq_tid) s \<and> get_irq_handler (get_tcb irq_tid) s = h then s' = s
       else get_state (get_tcb irq_tid) s' = (if irq_tid = h then aborted else halted) \<and>
         (bit (t_int_mask (tcbs s' Idle_tcb)) (unat (get_irqno irq_tid)) \<longleftrightarrow> irq_tid \<noteq> h)))"
proof -
  let ?t = "get_tcb irq_tid" and ?irq = "get_irqno irq_tid"
  have t: "?t \<noteq> Idle_tcb" by (simp add: get_tcb_def)
  have av: "is_irq_available ?irq \<longleftrightarrow> 2 \<le> ?irq \<and> ?irq < 7"
    using irq_available_range [OF refl, of irq_tid] by (simp add: word_le_nat_alt word_less_nat_alt)
  have b: "bit (push_bit (unat ?irq) 1 :: word_t) (unat ?irq)" if "2 \<le> ?irq \<and> ?irq < 7"
  proof -
    have "unat ?irq < 7" using that by (simp add: word_less_nat_alt)
    then show ?thesis by (simp only: bit_push_bit_iff) simp
  qed
  let ?s1 = "if is_activated ?t s then if is_polling (get_state ?t s) then dequeue_send ?t (get_partner_tcb ?t s) s else s
    else notify0 ?t Irq_thread (set_priority ?t MAX_PRIO (create_kernel_thread ?t irq_tid Irq_utcb s))"
  have a1: "t_utcb (tcbs ?s1 ?t) \<noteq> NULL_utcb"
    by (auto simp: is_activated_def create_kernel_thread_def notify0_def set_priority_def Let_def set_sensitive_prio_def)
  show ?thesis
  proof (cases "is_interrupt (get_system_base (kip_thread_info (kip s))) irq_tid \<and> is_irq_available ?irq \<and>
      \<not> (is_activated ?t s \<and> get_irq_handler ?t s = h)")
    case True
    then have r: "ok" "s' = (if irq_tid = h then set_state ?t aborted (intctrl_disable ?irq (set_irq_handler ?t h ?s1))
        else snd (intctrl_enable ?irq (set_state ?t halted (set_irq_handler ?t h ?s1))))"
      using assms unfolding thread_control_interrupt_def Let_def intctrl_set_cpu_def by (auto split: if_splits)
    show ?thesis using True av b t a1 unfolding r(2)
      by (auto simp: r(1) set_state_def get_state_def intctrl_disable_def intctrl_enable_def set_irq_handler_def
          set_scheduler_def get_irq_handler_def get_scheduler_def is_activated_def bit_simps)
  next
    case False
    then show ?thesis using assms av unfolding thread_control_interrupt_def Let_def
      by (auto split: if_splits)
  qed
qed

theorem thread_control_interrupt_correct_witness:
  "\<exists>s'. thread_control_interrupt (irqthread 3) (irqthread 3) (init_interrupt_threads irq_state) = (True, s') \<and>
     get_state (Tcb 3) s' = aborted \<and> \<not> bit (t_int_mask (tcbs s' Idle_tcb)) 3"
proof -
  let ?s = "init_interrupt_threads irq_state"
  have irq: "get_irqno (irqthread 3) = 3" "get_version (irqthread 3) = 1" "get_threadno (irqthread 3) = 3"
    by (simp_all add: get_irqno_def get_threadno_def get_version_def irqthread_def bf_get_def bf_set_def
        mask_eq_exp_minus_1)
  have "get_system_base (kip_thread_info (kip ?s)) = 7"
    by (simp add: init_interrupt_threads_def get_system_base_def set_system_base_def get_number_irqs_def
        irq_state_def blank_state_def blank_kip_def bf_get_def bf_set_def)
  then have i: "is_interrupt (get_system_base (kip_thread_info (kip ?s))) (irqthread 3)"
    by (simp add: is_interrupt_def irq)
  have "get_irq_handler (Tcb 3) ?s \<noteq> irqthread 3"
    by (simp add: init_interrupt_threads_def irq_state_def get_irq_handler_def get_scheduler_def irqthread_def
        threadid_def bf_set_def mask_eq_exp_minus_1)
  moreover obtain ok s' where r: "thread_control_interrupt (irqthread 3) (irqthread 3) ?s = (ok, s')"
    by (cases "thread_control_interrupt (irqthread 3) (irqthread 3) ?s")
  ultimately show ?thesis using thread_control_interrupt_correct [OF r] i by (auto simp: irq irq_state_tcbs)
qed

end
