(* ===== verification/Thread_Control.thy ===== *)
theory Thread_Control
  imports Interrupt
begin

text \<open>
  The system call \<^verbatim>\<open>ThreadControl\<close> and the creation of the first threads
  (\<^verbatim>\<open>api/v4/thread.cc\<close>).  The call returns 1 for success and 0 for failure, with the error
  code in the caller's UTCB.  The deletion, modification and creation branches are one definition each.
\<close>

section \<open>ThreadControl\<close>

definition thread_control_fail :: "word_t \<Rightarrow> kstate \<Rightarrow> (word_t \<times> kstate) option" where
  "thread_control_fail err s = Some (0, set_error_code (get_current_tcb s) err s)"

definition thread_control_delete :: "unmapper \<Rightarrow> tcbp \<Rightarrow> kstate \<Rightarrow> (word_t \<times> kstate) option" where
  "thread_control_delete unmap dest_tcb s =
     (if dest_tcb = get_current_tcb s then thread_control_fail EINVALID_THREAD s
      else if exists_tcb dest_tcb s
      then let space = get_space dest_tcb s in do {
        s1 \<leftarrow> delete_tcb dest_tcb s;
        let (last, s2) = remove_tcb space s1;
        s3 \<leftarrow> (if last then do { sa \<leftarrow> space_free unmap space s2; free_space space sa } else Some s2);
        Some (1, s3)
      }
      else Some (1, s))"

text \<open>The last part of a modification: pager, scheduler and global id.\<close>

definition thread_control_modify_ids ::
  "tcbp \<Rightarrow> threadid_t \<Rightarrow> threadid_t \<Rightarrow> kstate \<Rightarrow> word_t \<times> kstate" where
  "thread_control_modify_ids dest_tcb dest_tid scheduler_tid s =
     (let s1 = (if \<not> is_nilthread scheduler_tid then set_scheduler dest_tcb scheduler_tid s else s)
      in (1, if get_global_id dest_tcb s1 \<noteq> dest_tid then set_global_id_tcb dest_tcb dest_tid s1 else s1))"

definition thread_control_modify_pager ::
  "tcbp \<Rightarrow> threadid_t \<Rightarrow> threadid_t \<Rightarrow> threadid_t \<Rightarrow> word_t \<Rightarrow> kstate \<Rightarrow> (word_t \<times> kstate) option" where
  "thread_control_modify_pager dest_tcb dest_tid scheduler_tid pager_tid utcb_location s =
     (if is_nilthread pager_tid then Some (thread_control_modify_ids dest_tcb dest_tid scheduler_tid s)
      else if is_activated dest_tcb s
      then Some (thread_control_modify_ids dest_tcb dest_tid scheduler_tid (set_pager dest_tcb pager_tid s))
      else if \<not> check_utcb_location_at dest_tcb utcb_location s then thread_control_fail EUTCB_AREA s
      else do {
        (ok, s1) \<leftarrow> activate dest_tcb Thread_startup pager_tid s;
        if \<not> ok then thread_control_fail ENO_MEM s1
        else Some (thread_control_modify_ids dest_tcb dest_tid scheduler_tid (fake_wait_for_startup dest_tcb pager_tid s1))
      })"

definition thread_control_modify ::
  "unmapper \<Rightarrow> tcbp \<Rightarrow> threadid_t \<Rightarrow> threadid_t \<Rightarrow> threadid_t \<Rightarrow> threadid_t \<Rightarrow> word_t \<Rightarrow> kstate \<Rightarrow>
     (word_t \<times> kstate) option" where
  "thread_control_modify unmap dest_tcb dest_tid space_tid scheduler_tid pager_tid utcb_location s =
     (if utcb_location \<noteq> - 1 \<and>
         (is_activated dest_tcb s \<or> \<not> check_utcb_location_at dest_tcb utcb_location s)
      then thread_control_fail EUTCB_AREA s
      else let s1 = (if utcb_location \<noteq> - 1 then set_utcb_location dest_tcb utcb_location s else s);
               space_tcb = get_tcb space_tid
           in if get_global_id space_tcb s1 \<noteq> space_tid then thread_control_fail EINVALID_SPACE s1
              else do {
                (ok, s2) \<leftarrow> (if get_space dest_tcb s1 \<noteq> get_space space_tcb s1
                             then migrate_to_space unmap dest_tcb (get_space space_tcb s1) s1 else Some (True, s1));
                if \<not> ok then thread_control_fail ENO_MEM s2
                else thread_control_modify_pager dest_tcb dest_tid scheduler_tid pager_tid utcb_location s2
              })"

text \<open>\<^verbatim>\<open>~0U\<close>, which the creation branch takes for an unspecified location, is an
  unsigned int: its value as a word is \<^term>\<open>0xFFFFFFFF :: word_t\<close>.\<close>

definition thread_control_create ::
  "tcbp \<Rightarrow> threadid_t \<Rightarrow> threadid_t \<Rightarrow> threadid_t \<Rightarrow> threadid_t \<Rightarrow> word_t \<Rightarrow> kstate \<Rightarrow> (word_t \<times> kstate) option" where
  "thread_control_create dest_tcb dest_tid space_tid scheduler_tid pager_tid utcb_location s =
     (let space_tcb = get_tcb space_tid
      in if is_nilthread scheduler_tid then thread_control_fail EINVALID_THREAD s
         else if dest_tid \<noteq> space_tid \<and> get_global_id space_tcb s \<noteq> space_tid
         then thread_control_fail EINVALID_SPACE s
         else if \<not> is_nilthread pager_tid \<and>
                 (dest_tid = space_tid \<or> \<not> space_is_initialized (get_space space_tcb s) s)
         then thread_control_fail EINVALID_SPACE s
         else if \<not> is_nilthread pager_tid \<and>
                 (utcb_location = 0xFFFFFFFF \<or> \<not> check_utcb_location_at space_tcb utcb_location s)
         then thread_control_fail EUTCB_AREA s
         else let s1 = create_inactive dest_tcb dest_tid scheduler_tid s;
                  s2 = (if utcb_location \<noteq> 0xFFFFFFFF then set_utcb_location dest_tcb utcb_location s1 else s1)
              in do {
                (space, s3) \<leftarrow> (if dest_tid \<noteq> space_tid then Some (get_space space_tcb s2, s2) else allocate_space s2);
                let s4 = add_tcb space (set_space dest_tcb space s3);
                if is_nilthread pager_tid then Some (1, s4)
                else do {
                  (ok, s5) \<leftarrow> activate dest_tcb Thread_startup pager_tid s4;
                  if ok then Some (1, fake_wait_for_startup dest_tcb pager_tid s5) else None
                }
              })"

definition sys_thread_control ::
  "unmapper \<Rightarrow> threadid_t \<Rightarrow> threadid_t \<Rightarrow> threadid_t \<Rightarrow> threadid_t \<Rightarrow> word_t \<Rightarrow> kstate \<Rightarrow>
     (word_t \<times> kstate) option" where
  "sys_thread_control unmap dest_tid space_tid scheduler_tid pager_tid utcb_location s =
     (let dest_tcb = get_tcb dest_tid;
          thread_info = kip_thread_info (kip s)
      in if \<not> is_privileged_space (get_current_space s) s then thread_control_fail ENO_PRIVILEGE s
         else if \<not> is_global dest_tid then thread_control_fail EINVALID_SPACE s
         else if get_threadno dest_tid < get_system_base thread_info
         then let (ok, s1) = thread_control_interrupt dest_tid pager_tid s
              in if ok then Some (1, s1) else thread_control_fail EINVALID_THREAD s1
         else if get_threadno dest_tid < get_user_base thread_info then thread_control_fail EINVALID_THREAD s
         else if is_nilthread space_tid then thread_control_delete unmap dest_tcb s
         else if exists_tcb dest_tcb s
         then thread_control_modify unmap dest_tcb dest_tid space_tid scheduler_tid pager_tid utcb_location s
         else thread_control_create dest_tcb dest_tid space_tid scheduler_tid pager_tid utcb_location s)"

section \<open>The first threads\<close>

definition ROOT_PRIORITY :: prio_t where "ROOT_PRIORITY = MAX_PRIO"

definition ROOT_MAX_THREADS :: word_t where "ROOT_MAX_THREADS = 256"

definition ROOT_VERSION :: word_t where "ROOT_VERSION = 1"

definition ROOT_UTCB_START :: word_t where "ROOT_UTCB_START = push_bit 32 1"

definition ROOT_KIP_START :: word_t where "ROOT_KIP_START = push_bit 33 1"

definition create_root_server ::
  "addr_t \<Rightarrow> threadid_t \<Rightarrow> threadid_t \<Rightarrow> threadid_t \<Rightarrow> fpage_t \<Rightarrow> fpage_t \<Rightarrow> word_t \<Rightarrow> kstate \<Rightarrow>
     (tcbp \<times> kstate) option" where
  "create_root_server kip_addr dest_tid scheduler_tid pager_tid utcb_area kip_area utcb_location s =
     (let tcb = get_tcb dest_tid
      in do {
        (space, s1) \<leftarrow> allocate_space s;
        s2 \<leftarrow> space_init kip_addr space utcb_area kip_area (create_inactive tcb dest_tid scheduler_tid s1);
        let s3 = set_utcb_location tcb utcb_location (add_tcb space (set_space tcb space s2));
        (ok, s4) \<leftarrow> activate tcb Thread_return pager_tid s3;
        if \<not> ok then None
        else Some (tcb, enqueue_ready tcb False (set_priority tcb ROOT_PRIORITY (set_state tcb running s4)))
      })"

definition init_kernel_threads :: "kstate \<Rightarrow> kstate" where
  "init_kernel_threads s =
     (let ti = kip_thread_info (kip s);
          s1 = s\<lparr>kip := (kip s)\<lparr>kip_thread_info := set_user_base (get_system_base ti + 32) ti\<rparr>\<rparr>;
          ktid = set_global_id (get_system_base (kip_thread_info (kip s1))) 1 0;
          tcb = get_tcb ktid
      in set_state tcb aborted (create_kernel_thread tcb ktid Kernel_utcb s1))"

text \<open>The search for the size of the UTCB area: \<^verbatim>\<open>1U << size_utcb\<close> has 32 bits.\<close>

partial_function (option) root_utcb_size :: "word_t \<Rightarrow> nat \<Rightarrow> nat option" where
  "root_utcb_size needed size_utcb =
     (if (ucast (push_bit size_utcb (1 :: 32 word)) :: word_t) < needed
      then root_utcb_size needed (size_utcb + 1) else Some size_utcb)"

definition start_root_server ::
  "addr_t \<Rightarrow> threadid_t \<Rightarrow> threadid_t \<Rightarrow> threadid_t \<Rightarrow> fpage_t \<Rightarrow> fpage_t \<Rightarrow> root_server_t \<Rightarrow> kstate \<Rightarrow>
     (spacep \<times> kstate) option" where
  "start_root_server kip_addr tid scheduler_tid pager_tid utcb_area kip_area server s =
     do {
       (tcb, s1) \<leftarrow> create_root_server kip_addr tid scheduler_tid pager_tid utcb_area kip_area ROOT_UTCB_START s;
       let s2 = set_user_sp tcb (rs_sp server) (set_user_ip tcb (rs_ip server) s1);
       Some (get_space tcb s2, s2)
     }"

definition init_root_servers :: "addr_t \<Rightarrow> kstate \<Rightarrow> kstate option" where
  "init_root_servers kip_addr s =
     (let ubase = get_user_base (kip_thread_info (kip s));
          utcb_info = kip_utcb_info (kip s)
      in do {
        size_utcb \<leftarrow> root_utcb_size (max (get_minimal_size utcb_info) (get_utcb_size utcb_info * ROOT_MAX_THREADS)) 0;
        let utcb_area = fpage_set ROOT_UTCB_START (of_nat size_utcb) False False False;
        let kip_area = fpage_set ROOT_KIP_START (kip_get_size_log2 (kip_kip_area_info (kip s))) False False False;
        let sigma0 = set_global_id ubase ROOT_VERSION 0;
        let sigma1 = set_global_id (ubase + 1) ROOT_VERSION 0;
        let root_server = set_global_id (ubase + 2) ROOT_VERSION 0;
        if region_is_empty (rs_mem_region (kip_sigma0 (kip s))) then None
        else do {
          (sp0, s0) \<leftarrow> start_root_server kip_addr sigma0 root_server nilthread utcb_area kip_area (kip_sigma0 (kip s)) s;
          let s1 = s0\<lparr>sigma0_space := sp0\<rparr>;
          s2 \<leftarrow> (if region_is_empty (rs_mem_region (kip_sigma1 (kip s1))) then Some s1
                else do {
                  (sp, sa) \<leftarrow> start_root_server kip_addr sigma1 root_server sigma0 utcb_area kip_area (kip_sigma1 (kip s1)) s1;
                  Some (sa\<lparr>sigma1_space := sp\<rparr>)
                });
          if region_is_empty (rs_mem_region (kip_root_server (kip s2))) then Some s2
          else do {
            (sp, sa) \<leftarrow> start_root_server kip_addr root_server root_server sigma0 utcb_area kip_area (kip_root_server (kip s2)) s2;
            Some (sa\<lparr>roottask_space := sp\<rparr>)
          }
        }
      })"


section \<open>Creation is all or nothing\<close>

lemma space_ops_sel [simp]:
  "tcbs (set_space_word sp off v s) = tcbs s" "utcbs (set_space_word sp off v s) = utcbs s"
  "tcbs (add_tcb sp s) = tcbs s" "utcbs (add_tcb sp s) = utcbs s" "current_tcb (add_tcb sp s) = current_tcb s"
  by (simp_all add: set_space_word_def add_tcb_def)

lemma space_add_mapping_sel:
  "space_add_mapping sp v p sz w k s = Some s' \<Longrightarrow> tcbs s' = tcbs s \<and> utcbs s' = utcbs s"
  by (auto simp: space_add_mapping_def)

lemma allocate_space_sel:
  "allocate_space s = Some (sp, s') \<Longrightarrow> tcbs s' = tcbs s \<and> utcbs s' = utcbs s"
  by (auto simp: allocate_space_def)

lemma allocate_utcb_sel:
  "allocate_utcb sp t s = Some (u, s') \<Longrightarrow> tcbs s' = tcbs s \<and> u \<noteq> NULL_utcb"
  by (auto simp: allocate_utcb_def Let_def clear_utcbs_def dest: space_add_mapping_sel
      split: option.split_asm)

lemma upd_tcb_at: "tcbs (upd_tcb t f s) t = f (tcbs s t)" "x \<noteq> t \<Longrightarrow> tcbs (upd_tcb t f s) x = tcbs s x"
  by simp_all

lemmas tcb_init_ops = tcb_init_def Let_def resources_init_def init_tcb_def set_timeslice_length_def
  set_total_quantum_def set_priority_def set_sensitive_prio_def set_maximum_delay_def init_stack_def tcb_ops

lemma tcb_init_other: "x \<noteq> t \<Longrightarrow> tcbs (tcb_init t dest s) x = tcbs s x"
  by (simp add: tcb_init_ops upd_tcb_at del: upd_tcb_sel(1))

lemma tcb_init_self:
  "t_myself_global (tcbs (tcb_init t dest s) t) = dest" "t_thread_state (tcbs (tcb_init t dest s) t) = aborted"
  "t_utcb (tcbs (tcb_init t dest s) t) = NULL_utcb"
  by (simp_all add: tcb_init_ops upd_tcb_at del: upd_tcb_sel(1))

lemma activate_cases:
  assumes "activate t f pager s = Some (ok, s')"
  obtains u s1 s2 where "tcbs s1 = tcbs s" "u \<noteq> NULL_utcb" "ok" "s2 = upd_tcb t (\<lambda>x. x\<lparr>t_utcb := u\<rparr>) s1"
    "s' = create_startup_stack t f (set_exception_handler t nilthread
       (set_scheduler t (t_scheduler (tcbs s t)) (set_cpu t get_current_cpu
         (set_pager t pager (set_global_id_tcb t (get_global_id t s) s2)))))"
proof -
  obtain u s1 where a: "allocate_utcb (get_space t s) t s = Some (u, s1)"
    using assms by (auto simp: activate_def split: bind_split_asm)
  note u = allocate_utcb_sel [OF a]
  have "t_scheduler (tcbs (set_cpu t c (set_pager t pager (set_global_id_tcb t g (upd_tcb t (\<lambda>x. x\<lparr>t_utcb := u\<rparr>) s1)))) t) =
      t_scheduler (tcbs s t)" for c g
    using u by (simp add: set_cpu_def set_pager_def set_global_id_tcb_def Let_def)
  moreover have "get_global_id t (upd_tcb t (\<lambda>x. x\<lparr>t_utcb := u\<rparr>) s1) = get_global_id t s"
    using u by (simp add: get_global_id_def)
  ultimately show ?thesis using that [OF conjunct1 [OF u] conjunct2 [OF u] _ refl] assms a u
    by (simp add: activate_def Let_def)
qed

lemmas activation_ops = create_startup_stack_def init_stack_def notify0_def set_exception_handler_def
  set_scheduler_def set_cpu_def set_pager_def set_global_id_tcb_def get_utcb_def get_pager_def is_activated_def
  get_global_id_def get_scheduler_def get_space_def get_utcb_location_def Let_def

lemma activate_result:
  assumes "activate t f pager s = Some (ok, s')"
  shows "ok" "\<And>x. x \<noteq> t \<Longrightarrow> tcbs s' x = tcbs s x" "is_activated t s'" "get_pager t s' = pager"
    "get_global_id t s' = get_global_id t s" "get_scheduler t s' = get_scheduler t s" "get_space t s' = get_space t s"
  using assms by (elim activate_cases; simp add: activation_ops)+

lemma fake_wait_sel:
  "x \<noteq> t \<Longrightarrow> tcbs (fake_wait_for_startup t p s) x = tcbs s x"
  "get_state t (fake_wait_for_startup t p s) = waiting_forever" "get_partner t (fake_wait_for_startup t p s) = p"
  "is_activated t (fake_wait_for_startup t p s) = is_activated t s"
  "get_pager t (fake_wait_for_startup t p s) = get_pager t s"
  "get_global_id t (fake_wait_for_startup t p s) = get_global_id t s"
  "get_scheduler t (fake_wait_for_startup t p s) = get_scheduler t s"
  "get_space t (fake_wait_for_startup t p s) = get_space t s"
  "get_utcb_location t (fake_wait_for_startup t p s) = get_utcb_location t s"
  by (simp_all add: fake_wait_for_startup_def Let_def tcb_ops is_activated_def get_pager_def get_scheduler_def
      get_space_def get_utcb_location_def)

text \<open>What a successful creation leaves behind.\<close>

definition thread_created ::
  "tcbp \<Rightarrow> threadid_t \<Rightarrow> threadid_t \<Rightarrow> threadid_t \<Rightarrow> spacep \<Rightarrow> kstate \<Rightarrow> kstate \<Rightarrow> bool" where
  "thread_created t dest_tid scheduler_tid pager_tid space s s' \<longleftrightarrow>
     get_global_id t s' = dest_tid \<and> get_scheduler t s' = scheduler_tid \<and> get_space t s' = space \<and>
     (\<forall>x. x \<noteq> t \<longrightarrow> tcbs s' x = tcbs s x) \<and>
     (if is_nilthread pager_tid then get_state t s' = aborted \<and> \<not> is_activated t s'
      else get_state t s' = waiting_forever \<and> get_partner t s' = pager_tid \<and> is_activated t s' \<and>
        get_pager t s' = pager_tid)"

text \<open>The address space of the new thread: that of the thread named by the space specifier, or a new one.\<close>

definition created_space :: "threadid_t \<Rightarrow> threadid_t \<Rightarrow> spacep \<Rightarrow> kstate \<Rightarrow> bool" where
  "created_space dest_tid space_tid space s \<longleftrightarrow>
     (if dest_tid \<noteq> space_tid then space = get_space (get_tcb space_tid) s
      else map_option fst (allocate_space s) = Some space)"

lemma create_inactive_keeps:
  "kmem (create_inactive t dest sched s) = kmem s"
  "\<not> exists_tcb t s \<Longrightarrow> get_space x (create_inactive t dest sched s) = get_space x s"
  by (simp_all add: create_inactive_def tcb_init_ops get_space_def exists_tcb_def)

lemma allocate_space_kmem: "kmem s' = kmem s \<Longrightarrow> map_option fst (allocate_space s') = map_option fst (allocate_space s)"
  by (simp add: allocate_space_def option.map_comp comp_def split_def)

lemma thread_control_create_success:
  assumes "thread_control_create t dest_tid space_tid sched pager loc s = Some (r, s')" and "r \<noteq> 0"
    and "\<not> exists_tcb t s"
  shows "\<exists>space. thread_created t dest_tid sched pager space s s' \<and> created_space dest_tid space_tid space s \<and>
    (is_nilthread pager \<and> dest_tid \<noteq> space_tid \<longrightarrow>
     space_word space thread_count_offset s' = space_word space thread_count_offset s + 1)"
proof -
  let ?s1 = "create_inactive t dest_tid sched s"
  let ?s2 = "if loc \<noteq> 0xFFFFFFFF then set_utcb_location t loc ?s1 else ?s1"
  have z: "thread_control_fail e s \<noteq> Some (r, s')" for e using assms(2) by (simp add: thread_control_fail_def)
  obtain space s3 where a: "(if dest_tid \<noteq> space_tid then Some (get_space (get_tcb space_tid) ?s2, ?s2)
      else allocate_space ?s2) = Some (space, s3)"
    and c: "(let s4 = add_tcb space (set_space t space s3) in
        if is_nilthread pager then Some (1, s4)
        else do { (ok, s5) \<leftarrow> activate t Thread_startup pager s4;
                  if ok then Some (1, fake_wait_for_startup t pager s5) else None }) = Some (r, s')"
    using assms(1) z unfolding thread_control_create_def Let_def
    by (auto split: if_split_asm bind_split_asm)
  have s3: "tcbs s3 = tcbs ?s2" using a allocate_space_sel by (auto split: if_split_asm)
  let ?s4 = "add_tcb space (set_space t space s3)"
  have k2: "kmem ?s2 = kmem s" by (simp add: set_utcb_location_def create_inactive_keeps)
  have sp2: "get_space x ?s2 = get_space x s" for x
    using create_inactive_keeps(2) [OF assms(3), of x dest_tid sched] by (auto simp: set_utcb_location_def get_space_def)
  have sp: "created_space dest_tid space_tid space s"
  proof (cases "dest_tid = space_tid")
    case True
    with a have "allocate_space ?s2 = Some (space, s3)" by simp
    then have "map_option fst (allocate_space ?s2) = Some space" by simp
    then show ?thesis using True unfolding created_space_def allocate_space_kmem [OF k2] by simp
  next
    case False
    then show ?thesis using a sp2 by (simp add: created_space_def)
  qed
  have cnt: "space_word space thread_count_offset ?s4 = space_word space thread_count_offset s + 1" if "dest_tid \<noteq> space_tid"
  proof -
    from a that have "kmem (set_space t space s3) = kmem s" using k2 by (simp add: set_space_def)
    then show ?thesis by (simp add: add_tcb_def space_word_def set_space_word_def)
  qed
  have o: "tcbs ?s4 x = tcbs s x" if "x \<noteq> t" for x
    using that by (simp add: set_space_def s3 set_utcb_location_def create_inactive_def tcb_init_other)
  have n: "get_global_id t ?s4 = dest_tid" "get_scheduler t ?s4 = sched" "get_space t ?s4 = space"
    "get_state t ?s4 = aborted" "\<not> is_activated t ?s4"
    by (simp_all add: set_space_def s3 set_utcb_location_def create_inactive_def tcb_init_self tcb_ops
        get_scheduler_def get_space_def is_activated_def)
  show ?thesis
  proof (cases "is_nilthread pager")
    case True
    then have "s' = ?s4" using c by simp
    then show ?thesis using True o n sp cnt by (auto simp: thread_created_def)
  next
    case False
    then obtain ok s5 where ac: "activate t Thread_startup pager ?s4 = Some (ok, s5)"
      and s': "s' = fake_wait_for_startup t pager s5"
      using c by (auto split: bind_split_asm if_split_asm)
    have "thread_created t dest_tid sched pager space s s'"
      using activate_result [OF ac] o n False unfolding s' thread_created_def
      by (auto simp: fake_wait_sel)
    then show ?thesis using sp False by blast
  qed
qed

text \<open>C16: creating a thread by \<^verbatim>\<open>ThreadControl\<close>, from a privileged space and for a user thread that
  does not exist, succeeds or fails completely when it returns.  When it reports failure, nothing has changed but the
  error code of the caller; when it reports success, the new thread has the requested id and scheduler and is in the
  address space of the thread that the space specifier names, or in the newly allocated one if it names the thread itself;
  it waits for the startup message of its pager if it has one and is inactive otherwise, and no other
  thread control block has changed; an inactive thread that joins an existing space is counted there.\<close>

theorem thread_creation_all_or_nothing:
  assumes "sys_thread_control unmap dest_tid space_tid sched pager loc s = Some (r, s')"
    and "is_privileged_space (get_current_space s) s" and "is_global dest_tid" and "\<not> is_nilthread space_tid"
    and "get_system_base (kip_thread_info (kip s)) \<le> get_threadno dest_tid"
    and "get_user_base (kip_thread_info (kip s)) \<le> get_threadno dest_tid"
    and "\<not> exists_tcb (get_tcb dest_tid) s"
  shows "(r = 0 \<longrightarrow> (\<exists>e. e \<noteq> EOK \<and> s' = set_error_code (get_current_tcb s) e s)) \<and>
    (r \<noteq> 0 \<longrightarrow> (\<exists>space. thread_created (get_tcb dest_tid) dest_tid sched pager space s s' \<and>
       created_space dest_tid space_tid space s \<and>
       (is_nilthread pager \<and> dest_tid \<noteq> space_tid \<longrightarrow>
        space_word space thread_count_offset s' = space_word space thread_count_offset s + 1)))"
proof -
  let ?t = "get_tcb dest_tid"
  have c: "thread_control_create ?t dest_tid space_tid sched pager loc s = Some (r, s')"
    using assms(1) assms(2-) [THEN eqTrueI] assms(5,6) [THEN leD]
    unfolding sys_thread_control_def Let_def by simp
  have ne: "EINVALID_THREAD \<noteq> EOK" "EINVALID_SPACE \<noteq> EOK" "EUTCB_AREA \<noteq> EOK"
    by (simp_all add: EOK_def EINVALID_THREAD_def EINVALID_SPACE_def EUTCB_AREA_def)
  have "\<exists>e. e \<noteq> EOK \<and> s' = set_error_code (get_current_tcb s) e s" if "r = 0"
    using c that ne unfolding thread_control_create_def Let_def
    by (auto simp: thread_control_fail_def split: if_split_asm bind_split_asm)
  then show ?thesis using thread_control_create_success [OF c _ assms(7)] by blast
qed


text \<open>A state in which thread 41 has an address space, with every address in its UTCB area.\<close>

definition control_state :: kstate where
  "control_state = upd_tcb (Tcb 41) (\<lambda>x. x\<lparr>t_space := 0x10000, t_myself_global := threadid 41 1\<rparr>)
     (set_space_word 0x10000 utcb_area_offset fpage_complete blank_state)"

lemma control_tids:
  "get_tcb (threadid 40 1) = Tcb 40" "get_tcb (threadid 41 1) = Tcb 41" "get_tcb (threadid 42 1) = Tcb 42"
  "is_global (threadid 40 1)" "threadid 40 1 \<noteq> threadid 41 1"
  "\<not> is_nilthread (threadid 41 1)" "\<not> is_nilthread (threadid 42 1)" "threadid 42 1 \<noteq> 0"
  by (simp_all add: get_tcb_def get_threadno_def threadid_def VALID_THREADNO_BITS_def is_global_def is_nilthread_def
      bf_get_def bf_set_def mask_eq_exp_minus_1)

lemma control_state_sel:
  "is_privileged_space (get_current_space control_state) control_state"
  "kip_thread_info (kip control_state) = 0" "\<not> exists_tcb (Tcb 40) control_state"
  "get_global_id (Tcb 41) control_state = threadid 41 1" "get_global_id (Tcb 42) control_state = 0"
  by (simp_all add: control_state_def is_privileged_space_def is_roottask_space_def get_current_space_def get_space_def
      get_current_tcb_def set_space_word_def blank_state_def blank_tcb_def exists_tcb_def get_global_id_def blank_kip_def)

theorem thread_creation_all_or_nothing_witness:
  "\<exists>s'. sys_thread_control (\<lambda>_ f _ _ s. Some (f, s)) (threadid 40 1) (threadid 41 1) (threadid 41 1) 0 0x2000
      control_state = Some (1, s') \<and>
    thread_created (Tcb 40) (threadid 40 1) (threadid 41 1) 0 0x10000 control_state s'"
proof -
  let ?u = "\<lambda>_ f _ _ s. Some (f, s)"
  have b: "get_system_base 0 = 0" "get_user_base 0 = 0" by (simp_all add: get_system_base_def get_user_base_def bf_get_def)
  have "\<exists>s'. sys_thread_control ?u (threadid 40 1) (threadid 41 1) (threadid 41 1) 0 0x2000 control_state = Some (1, s')"
    unfolding sys_thread_control_def thread_control_create_def Let_def
    by (simp add: control_tids control_state_sel b is_nilthread_def control_tids(6,7) [unfolded is_nilthread_def])
  then obtain s' where r: "sys_thread_control ?u (threadid 40 1) (threadid 41 1) (threadid 41 1) 0 0x2000
      control_state = Some (1, s')" by blast
  have "get_system_base (kip_thread_info (kip control_state)) \<le> get_threadno (threadid 40 1)"
    "get_user_base (kip_thread_info (kip control_state)) \<le> get_threadno (threadid 40 1)"
    by (simp_all add: control_state_sel b)
  moreover have "get_space (Tcb 41) control_state = 0x10000" by (simp add: get_space_def control_state_def)
  ultimately have k: "get_system_base (kip_thread_info (kip control_state)) \<le> get_threadno (threadid 40 1)"
    "get_user_base (kip_thread_info (kip control_state)) \<le> get_threadno (threadid 40 1)"
    "get_space (Tcb 41) control_state = 0x10000" by blast+
  from thread_creation_all_or_nothing [OF r control_state_sel(1) control_tids(4,6) k(1,2)] show ?thesis
    using r k(3) by (auto simp: control_tids control_state_sel created_space_def)
qed

section \<open>Modification is not\<close>


text \<open>Thread 40 exists, inactive, in the address space of thread 41; there is no thread 42.\<close>

definition inactive_state :: kstate where
  "inactive_state = upd_tcb (Tcb 40) (\<lambda>x. x\<lparr>t_space := 0x10000, t_myself_global := threadid 40 1\<rparr>) control_state"


section \<open>Deletion through the system call\<close>

lemma drain_send_kmem: "drain_send t s = Some s' \<Longrightarrow> kmem s' = kmem s"
proof (induction rule: drain_send.raw_induct [rotated 1, consumes 1])
  case (1 f t s s')
  then show ?case by (auto split: if_split_asm)
qed

lemma delete_tcb_kmem:
  assumes "delete_tcb t s = Some s'" shows "kmem s' = kmem s"
proof -
  have u: "unwind unwind_abort t (dequeue_ready t s) = Some s2 \<Longrightarrow> kmem s2 = kmem s" for s2
    using unwind_first [of unwind_abort "dequeue_ready t s" t "get_tag t (dequeue_ready t s)"]
    by (auto simp: unwind_def unwound_def xfer_frame_def dequeue_ready_def)
  show ?thesis using assms
    by (auto simp: delete_tcb_def Let_def set_state_def set_space_def resources_free_def
        dest!: drain_send_kmem u split: bind_split_asm if_split_asm) (simp_all add: dequeue_ready_def)
qed

lemma delete_inactive:
  assumes "\<not> is_activated t s" and "send_inv s qs"
  shows "\<exists>s'. delete_tcb t s = Some s' \<and> get_global_id t s' = nilthread \<and> \<not> exists_tcb t s' \<and> \<not> is_activated t s' \<and>
    send_inv s' qs"
proof -
  let ?s' = "set_state t aborted (set_space t 0 (upd_tcb t (\<lambda>x. x\<lparr>t_myself_global := nilthread, t_myself_local := nilthread\<rparr>) s))"
  have r: "delete_tcb t s = Some ?s'" using assms(1) by (simp add: delete_tcb_def Let_def)
  have "same_send s ?s'" by (simp add: same_send_def set_state_def set_space_def queue_state_is_set_def)
  then have "send_inv ?s' qs" using assms(2) by (rule send_inv_same)
  moreover have "\<not> is_activated t ?s'" using assms(1) by (simp add: is_activated_def set_state_def set_space_def)
  ultimately show ?thesis using r delete_tcb_result [OF r] by blast
qed




section \<open>The UTCB area of the root servers\<close>

lemma root_utcb_size_step:
  assumes "n < 32"
  shows "root_utcb_size needed n = (if 2 ^ n < unat needed then root_utcb_size needed (n + 1) else Some n)"
proof -
  have "unat (push_bit n (1 :: 32 word)) = 2 ^ n" using assms by (simp add: push_bit_eq_mult unat_exp)
  then have "unat (ucast (push_bit n (1 :: 32 word)) :: word_t) = 2 ^ n" by (simp add: unat_ucast_up)
  then show ?thesis by (subst root_utcb_size.simps) (simp add: word_less_nat_alt)
qed

text \<open>The search for the size of the root servers' UTCB area ends for every size up to 2 GB, and finds
  the smallest power of two that holds the area.\<close>

theorem root_utcb_size_minimal:
  assumes "unat needed \<le> 2 ^ 31"
  shows "\<exists>n \<le> 31. root_utcb_size needed 0 = Some n \<and> unat needed \<le> 2 ^ n \<and> (\<forall>m < n. 2 ^ m < unat needed)"
proof -
  have "\<exists>n \<le> 31. root_utcb_size needed k = Some n \<and> unat needed \<le> 2 ^ n \<and> (\<forall>m < n. 2 ^ m < unat needed)"
    if "k \<le> 31" "\<forall>m < k. 2 ^ m < unat needed" for k
    using that
  proof (induction "31 - k" arbitrary: k)
    case 0
    then have "k = 31" by simp
    then show ?case using 0 assms root_utcb_size_step [of 31 needed] by auto
  next
    case (Suc d)
    then have k: "d = 31 - (k + 1)" "k + 1 \<le> 31" "k < 32" by auto
    show ?case
    proof (cases "2 ^ k < unat needed")
      case True
      then have "\<forall>m < k + 1. 2 ^ m < unat needed" using Suc.prems by (auto simp: less_Suc_eq)
      from Suc.hyps(1) [OF k(1,2) this] show ?thesis using True root_utcb_size_step [OF k(3)] by simp
    next
      case False
      then show ?thesis using Suc.prems root_utcb_size_step [OF k(3), of needed] by auto
    qed
  qed
  from this [of 0] show ?thesis by simp
qed

theorem root_utcb_size_minimal_witness:
  "\<exists>n \<le> 31. root_utcb_size 0x40000 0 = Some n \<and> (0x40000 :: nat) \<le> 2 ^ n"
  using root_utcb_size_minimal [of "0x40000"] by auto

end
