(* ===== verification/Exregs.thy ===== *)
theory Exregs
  imports Thread_Control
begin

text \<open>
  The system call \<^verbatim>\<open>ExchangeRegisters\<close> (\<^verbatim>\<open>exregs.cc\<close>): reading and
  writing the user registers, pager and handle of a thread, aborting its IPC, and halting or
  resuming it.  The in/out parameters of \<^verbatim>\<open>perform_exregs\<close> are the record
  \<^verbatim>\<open>exregs_t\<close>.  A thread that halts itself gives up the processor in the middle of the
  call, through the argument \<^verbatim>\<open>sw\<close> as in IPC.
\<close>

record exregs_t =
  er_control :: word_t
  er_usp :: word_t
  er_uip :: word_t
  er_uflags :: word_t
  er_pager :: threadid_t
  er_uhandle :: word_t

definition exregs_set_registers :: "tcbp \<Rightarrow> exregs_t \<Rightarrow> kstate \<Rightarrow> kstate" where
  "exregs_set_registers t er s =
     (let ctrl = er_control er;
          s1 = (if ctrl AND EXREGS_CONTROL_SP \<noteq> 0 then set_user_sp t (er_usp er) s else s);
          s2 = (if ctrl AND EXREGS_CONTROL_IP \<noteq> 0 then set_user_ip t (er_uip er) s1 else s1);
          s3 = (if ctrl AND EXREGS_CONTROL_PAGER \<noteq> 0 then set_pager t (er_pager er) s2 else s2);
          s4 = (if ctrl AND EXREGS_CONTROL_UHANDLE \<noteq> 0 then set_user_handle t (er_uhandle er) s3 else s3)
      in if ctrl AND EXREGS_CONTROL_FLAGS \<noteq> 0 then set_user_flags t (er_uflags er) s4 else s4)"

text \<open>Aborting the IPC of the thread.\<close>

definition exregs_abort :: "tcbp \<Rightarrow> kstate \<Rightarrow> kstate option" where
  "exregs_abort t s =
     do {
       s1 \<leftarrow> unwind unwind_abort t s;
       let s2 = set_state t running s1;
       let s3 = notify0 t Handle_ipc_error s2;
       Some (enqueue_ready t False s3)
     }"

text \<open>The control word returned, and the state after the IPC part.\<close>

definition exregs_ipc :: "tcbp \<Rightarrow> word_t \<Rightarrow> kstate \<Rightarrow> (word_t \<times> kstate) option" where
  "exregs_ipc t ctrl s =
     (if is_sending (get_state t s)
      then do {
        s1 \<leftarrow> (if ctrl AND EXREGS_CONTROL_SEND \<noteq> 0 then exregs_abort t s else Some s);
        Some (EXREGS_CONTROL_SEND, s1)
      }
      else if is_receiving (get_state t s)
      then do {
        s1 \<leftarrow> (if ctrl AND EXREGS_CONTROL_RECV \<noteq> 0 then exregs_abort t s else Some s);
        Some (EXREGS_CONTROL_RECV, s1)
      }
      else Some (0, s))"

definition exregs_halt :: "switcher \<Rightarrow> tcbp \<Rightarrow> word_t \<Rightarrow> word_t \<Rightarrow> kstate \<Rightarrow> (word_t \<times> kstate) option" where
  "exregs_halt sw t ctrl old_control s =
     (if is_halted (get_state t s)
      then Some (old_control OR EXREGS_CONTROL_HALT,
             if ctrl AND EXREGS_CONTROL_HALTFLAG \<noteq> 0 \<and> ctrl AND EXREGS_CONTROL_HALT = 0
             then enqueue_ready t False (set_state t running s) else s)
      else if ctrl AND EXREGS_CONTROL_HALTFLAG \<noteq> 0 \<and> ctrl AND EXREGS_CONTROL_HALT \<noteq> 0 \<and>
              is_running (get_state t s)
      then let s1 = set_state t halted s
           in if t = get_current_tcb s1
              then do { s2 \<leftarrow> sw (get_current_tcb s1) Idle_tcb s1; Some (old_control, s2) }
              else Some (old_control, s1)
      else Some (old_control, s))"

definition perform_exregs :: "switcher \<Rightarrow> tcbp \<Rightarrow> exregs_t \<Rightarrow> kstate \<Rightarrow> (exregs_t \<times> kstate) option" where
  "perform_exregs sw t er s =
     (let old = \<lparr>er_control = 0, er_usp = get_user_sp t s, er_uip = get_user_ip t s,
                 er_uflags = get_user_flags t s, er_pager = get_pager t s, er_uhandle = get_user_handle t s\<rparr>
      in do {
        (c, s1) \<leftarrow> exregs_ipc t (er_control er) (exregs_set_registers t er s);
        (c', s2) \<leftarrow> exregs_halt sw t (er_control er) c s1;
        Some (old\<lparr>er_control := c'\<rparr>, s2)
      })"

definition sys_exchange_registers ::
  "switcher \<Rightarrow> threadid_t \<Rightarrow> exregs_t \<Rightarrow> bool \<Rightarrow> kstate \<Rightarrow> ((threadid_t \<times> exregs_t) \<times> kstate) option" where
  "sys_exchange_registers sw dest_tid er loc s =
     (let space = get_current_space s;
          tcb = get_tcb dest_tid
      in if \<not> is_activated tcb s \<or> get_space tcb s \<noteq> space \<or>
            (t_myself_global (tcbs s tcb) \<noteq> dest_tid \<and> t_myself_local (tcbs s tcb) \<noteq> dest_tid)
         then Some ((nilthread, \<lparr>er_control = 0, er_usp = 0, er_uip = 0, er_uflags = 0, er_pager = nilthread,
                er_uhandle = 0\<rparr>), set_error_code (get_current_tcb s) EINVALID_THREAD s)
         else do {
           (er', s1) \<leftarrow> perform_exregs sw tcb er s;
           Some ((if loc then get_global_id tcb s1 else get_local_id tcb s1, er'), s1)
         })"

section \<open>What is exchanged\<close>

text \<open>Unwinding may make the partner of a thread ready; it keeps the ready queues well formed, and every
  priority, if the priorities of all threads are in range.\<close>

definition prios_ok :: "kstate \<Rightarrow> bool" where
  "prios_ok s \<longleftrightarrow> (\<forall>w. 0 \<le> t_priority (tcbs s (Tcb w)) \<and> t_priority (tcbs s (Tcb w)) \<le> MAX_PRIO)"

definition keeps_ready :: "kstate \<Rightarrow> kstate \<Rightarrow> bool" where
  "keeps_ready s s' \<longleftrightarrow> (\<forall>x. t_priority (tcbs s' x) = t_priority (tcbs s x)) \<and>
     (\<forall>rs. ready_inv s rs \<and> prios_ok s \<longrightarrow> (\<exists>rs'. ready_inv s' rs'))"

lemma keeps_ready_refl: "keeps_ready s s" by (auto simp: keeps_ready_def)

lemma keeps_ready_trans: "keeps_ready s s' \<Longrightarrow> keeps_ready s' s'' \<Longrightarrow> keeps_ready s s''"
  by (simp add: keeps_ready_def prios_ok_def)

lemma keeps_ready_same:
  assumes "prioq s' = prioq s" and "ready_links s' = ready_links s"
    and "\<And>x. t_priority (tcbs s' x) = t_priority (tcbs s x)"
    and "\<And>x. queue_state_is_set x qs_ready s' \<longleftrightarrow> queue_state_is_set x qs_ready s"
  shows "keeps_ready s s'"
  using ready_inv_cong [of s _ s'] assms by (auto simp: keeps_ready_def prio_get_def)

lemma keeps_ready_ops:
  "keeps_ready s (set_state t v s)" "keeps_ready s (set_partner t p s)" "keeps_ready s (set_saved_partner t p s)"
  "keeps_ready s (set_saved_state t v s)" "keeps_ready s (notify0 t f s)" "keeps_ready s (set_tag t tg s)"
  "keeps_ready s (set_mr t j w s)" "keeps_ready s (set_br t j w s)" "keeps_ready s (set_error_code t e s)"
  "keeps_ready s (dequeue_send t q s)"
  by (rule keeps_ready_same; auto simp: fun_eq_iff ready_links_def queue_state_is_set_def set_state_def set_partner_def
      set_saved_partner_def set_saved_state_def notify0_def set_tag_def set_mr_def set_br_def set_error_code_def
      dequeue_send_def upd_send_links_def clear_queue_state_def Let_def split_def)+

lemma keeps_ready_cancel: "keeps_ready s (cancel_timeout t s)"
proof (rule keeps_ready_same)
  show "prioq (cancel_timeout t s) = prioq s" by (rule cancel_timeout_sel)
qed (auto simp: ready_links_def)

lemma keeps_ready_enqueue: "keeps_ready s (enqueue_ready (Tcb w) b s)"
  using prio_enqueue_sets [of s _ "Tcb w" b]
  by (fastforce simp: keeps_ready_def enqueue_ready_def prios_ok_def can_be_ready_def)

lemma keeps_ready_restore: "keeps_ready s (restore_state t s)"
  unfolding restore_state_def restore_mrs_def Let_def
  by (intro keeps_ready_trans [OF _ keeps_ready_ops(1)] keeps_ready_trans [OF _ keeps_ready_ops(2)]
      keeps_ready_trans [OF _ keeps_ready_ops(3)] keeps_ready_trans [OF _ keeps_ready_ops(4)]
      keeps_ready_trans [OF _ keeps_ready_ops(7)] keeps_ready_trans [OF _ keeps_ready_ops(8)]
      keeps_ready_trans [OF _ keeps_ready_ops(9)] keeps_ready_refl)

lemma keeps_ready_abort_partner: "p = Tcb w \<Longrightarrow> keeps_ready s (abort_partner p e tg s)"
  unfolding abort_partner_def Let_def
  by (simp only:, intro keeps_ready_trans [OF _ keeps_ready_ops(1)] keeps_ready_trans [OF _ keeps_ready_ops(5)]
      keeps_ready_trans [OF _ keeps_ready_ops(6)] keeps_ready_trans [OF _ keeps_ready_ops(9)]
      keeps_ready_trans [OF _ keeps_ready_enqueue] keeps_ready_refl)

lemma keeps_ready_finish: "keeps_ready s s2 \<Longrightarrow> keeps_ready s (set_error_code t e (set_tag t tg s2))"
  by (intro keeps_ready_trans [OF _ keeps_ready_ops(9)] keeps_ready_trans [OF _ keeps_ready_ops(6)])

lemma unwind_keeps_ready: "unwind_loop reason t tag s = Some s' \<Longrightarrow> keeps_ready s s'"
proof (induction rule: unwind_loop.raw_induct [rotated 1, consumes 1])
  case (1 f reason t tag s s')
  let ?s1 = "set_state t running s" and ?c = "get_state t s"
  let ?p = "get_partner_tcb t ?s1"
  have s1: "keeps_ready s ?s1" "keeps_ready s (cancel_timeout t ?s1)"
    "keeps_ready s (dequeue_send t ?p (cancel_timeout t ?s1))"
    by (intro keeps_ready_trans [OF _ keeps_ready_ops(10)] keeps_ready_trans [OF _ keeps_ready_cancel] keeps_ready_ops(1))+
  have a: "keeps_ready s (abort_partner ?p e tg ?s1)" for e tg
    by (rule keeps_ready_trans [OF s1(1) keeps_ready_abort_partner]) (simp add: get_partner_tcb_def get_tcb_def)
  have redo: "keeps_ready s s'" if "f reason t tg (restore_state t s2) = Some s'" "keeps_ready s s2" for tg s2
    using 1(1) [OF that(1)] that(2) keeps_ready_restore keeps_ready_trans by blast
  note e = 1(2) [unfolded Let_def] and fin = keeps_ready_finish
  consider "is_polling ?c \<or> is_waiting ?c" | "\<not> (is_polling ?c \<or> is_waiting ?c)" by blast
  then show ?case
  proof cases
    case c: 1
    let ?s3 = "if is_polling ?c then dequeue_send t ?p (cancel_timeout t ?s1) else cancel_timeout t ?s1"
    have "keeps_ready s ?s3" using s1 by simp
    then show ?thesis using e c redo fin
      by (auto simp only: simp_thms if_True if_False option.inject split: if_split_asm)
  next
    case c: 2
    show ?thesis using e c redo [OF _ a] redo [OF _ s1(1)] fin [OF a] fin [OF s1(1)] s1(1)
      by (auto simp only: simp_thms if_True if_False option.case prod.case option.inject
          split: option.split_asm prod.split_asm if_split_asm)
  qed
qed

text \<open>What the abort and halt parts leave alone.\<close>

lemma exregs_abort_frame:
  assumes "t = Tcb w"
  shows "\<exists>s'. exregs_abort t s = Some s' \<and> get_state t s' = running \<and> xfer_frame s s' \<and> keeps_ready s s' \<and>
     queue_state_is_set t qs_ready s' \<and> (\<exists>fs. t_stack (tcbs s' t) = Notify0 Handle_ipc_error # fs)"
proof -
  obtain s1 where u: "unwind unwind_abort t s = Some s1" and f: "xfer_frame s s1"
    using unwind_first [of unwind_abort s t "get_tag t s"] by (auto simp: unwind_def unwound_def)
  let ?s' = "enqueue_ready t False (notify0 t Handle_ipc_error (set_state t running s1))"
  have "xfer_frame s1 ?s'" by (simp add: xfer_frame_def enqueue_ready_def tcb_ops)
  then have "xfer_frame s ?s'" using f xfer_frame_trans by blast
  moreover have "get_state t ?s' = running" "\<exists>fs. t_stack (tcbs ?s' t) = Notify0 Handle_ipc_error # fs"
    by (simp_all add: enqueue_ready_def tcb_ops)
  moreover have "queue_state_is_set t qs_ready ?s'" by (rule enqueue_ready_sets)
  moreover have "keeps_ready s ?s'"
    using unwind_keeps_ready [OF u [unfolded unwind_def]] keeps_ready_ops(1,5) keeps_ready_enqueue [of _ w False] assms
      keeps_ready_trans by metis
  ultimately show ?thesis using u by (simp add: exregs_abort_def Let_def)
qed

text \<open>Whether the call aborts the thread's IPC, and whether it halts the thread.\<close>

definition exregs_aborts :: "tcbp \<Rightarrow> word_t \<Rightarrow> kstate \<Rightarrow> bool" where
  "exregs_aborts t ctrl s \<longleftrightarrow>
     is_sending (get_state t s) \<and> ctrl AND EXREGS_CONTROL_SEND \<noteq> 0 \<or>
     \<not> is_sending (get_state t s) \<and> is_receiving (get_state t s) \<and> ctrl AND EXREGS_CONTROL_RECV \<noteq> 0"

definition exregs_resumes :: "tcbp \<Rightarrow> word_t \<Rightarrow> kstate \<Rightarrow> bool" where
  "exregs_resumes t ctrl s \<longleftrightarrow>
     is_halted (get_state t s) \<and> ctrl AND EXREGS_CONTROL_HALTFLAG \<noteq> 0 \<and> ctrl AND EXREGS_CONTROL_HALT = 0"

definition exregs_state_after :: "tcbp \<Rightarrow> word_t \<Rightarrow> kstate \<Rightarrow> thread_state_t" where
  "exregs_state_after t ctrl s =
     (let st = (if exregs_aborts t ctrl s then running else get_state t s)
      in if ctrl AND EXREGS_CONTROL_HALTFLAG = 0 then st
         else if ctrl AND EXREGS_CONTROL_HALT = 0 then (if is_halted st then running else st)
         else if is_running st then halted else st)"

lemma exregs_ipc_result:
  assumes "t = Tcb w"
  shows "\<exists>c s'. exregs_ipc t ctrl s = Some (c, s') \<and> xfer_frame s s' \<and> keeps_ready s s' \<and>
     c = (if is_sending (get_state t s) then EXREGS_CONTROL_SEND
          else if is_receiving (get_state t s) then EXREGS_CONTROL_RECV else 0) \<and>
     get_state t s' = (if exregs_aborts t ctrl s then running else get_state t s) \<and>
     (exregs_aborts t ctrl s \<longrightarrow> queue_state_is_set t qs_ready s' \<and>
        (\<exists>fs. t_stack (tcbs s' t) = Notify0 Handle_ipc_error # fs))"
proof -
  obtain s' where "exregs_abort t s = Some s'" "get_state t s' = running" "xfer_frame s s'" "keeps_ready s s'"
    "queue_state_is_set t qs_ready s'" "\<exists>fs. t_stack (tcbs s' t) = Notify0 Handle_ipc_error # fs"
    using exregs_abort_frame [OF assms] by blast
  then show ?thesis
    unfolding exregs_ipc_def exregs_aborts_def using xfer_frame_ops(1) [of s] keeps_ready_refl [of s] by simp
qed

lemma halted_not_running: "is_halted st \<Longrightarrow> \<not> is_running st"
  by (auto simp: is_halted_def is_running_def thread_state_vals)

lemma exregs_halt_result:
  assumes "t \<noteq> get_current_tcb s \<or> ctrl AND EXREGS_CONTROL_HALTFLAG = 0 \<or> ctrl AND EXREGS_CONTROL_HALT = 0"
    and "t = Tcb w"
  shows "\<exists>s'. exregs_halt sw t ctrl c s =
      Some (if is_halted (get_state t s) then c OR EXREGS_CONTROL_HALT else c, s') \<and> xfer_frame s s' \<and>
    keeps_ready s s' \<and> t_stack (tcbs s' t) = t_stack (tcbs s t) \<and>
    (queue_state_is_set t qs_ready s \<or>
     is_halted (get_state t s) \<and> ctrl AND EXREGS_CONTROL_HALTFLAG \<noteq> 0 \<and> ctrl AND EXREGS_CONTROL_HALT = 0 \<longrightarrow>
     queue_state_is_set t qs_ready s') \<and>
    get_state t s' = (if ctrl AND EXREGS_CONTROL_HALTFLAG = 0 then get_state t s
      else if ctrl AND EXREGS_CONTROL_HALT = 0 then (if is_halted (get_state t s) then running else get_state t s)
      else if is_running (get_state t s) then halted else get_state t s)"
proof -
  have e: "xfer_frame s (enqueue_ready t False (set_state t running s))" "xfer_frame s (set_state t halted s)"
    by (simp_all add: xfer_frame_def enqueue_ready_def tcb_ops)
  have g: "get_state t (enqueue_ready t False (set_state t running s)) = running"
    "get_state t (set_state t halted s) = halted" "get_current_tcb (set_state t halted s) = get_current_tcb s"
    by (simp_all add: enqueue_ready_def tcb_ops get_current_tcb_def)
  have k: "keeps_ready s (enqueue_ready t False (set_state t running s))" "keeps_ready s (set_state t halted s)"
    using keeps_ready_ops(1) keeps_ready_enqueue [of _ w False] assms(2) keeps_ready_trans by metis+
  have st: "t_stack (tcbs (enqueue_ready t False (set_state t running s)) t) = t_stack (tcbs s t)"
    "t_stack (tcbs (set_state t halted s) t) = t_stack (tcbs s t)"
    "queue_state_is_set t qs_ready (set_state t halted s) = queue_state_is_set t qs_ready s"
    by (simp_all add: enqueue_ready_def set_state_def queue_state_is_set_def)
  show ?thesis
    using assms(1) e g k st enqueue_ready_sets [of t False "set_state t running s"] xfer_frame_ops(1) [of s]
      keeps_ready_refl [of s] halted_not_running [of "get_state t s"]
    unfolding exregs_halt_def Let_def by auto
qed

lemma exregs_set_registers_sel:
  assumes "is_activated t s"
  shows "get_user_sp t (exregs_set_registers t er s) =
      (if er_control er AND EXREGS_CONTROL_SP \<noteq> 0 then er_usp er else get_user_sp t s)"
    "get_user_ip t (exregs_set_registers t er s) =
      (if er_control er AND EXREGS_CONTROL_IP \<noteq> 0 then er_uip er else get_user_ip t s)"
    "get_pager t (exregs_set_registers t er s) =
      (if er_control er AND EXREGS_CONTROL_PAGER \<noteq> 0 then er_pager er else get_pager t s)"
    "get_user_handle t (exregs_set_registers t er s) =
      (if er_control er AND EXREGS_CONTROL_UHANDLE \<noteq> 0 then er_uhandle er else get_user_handle t s)"
    "get_state t (exregs_set_registers t er s) = get_state t s"
    "get_global_id t (exregs_set_registers t er s) = get_global_id t s"
    "get_local_id t (exregs_set_registers t er s) = get_local_id t s"
    "get_current_tcb (exregs_set_registers t er s) = get_current_tcb s"
  by (simp_all add: exregs_set_registers_def Let_def set_user_sp_def set_user_ip_def set_user_flags_def
      set_pager_def set_user_handle_def get_user_sp_def get_user_ip_def get_pager_def get_user_handle_def
      get_state_def get_global_id_def get_local_id_def get_utcb_def get_current_tcb_def)

lemma exregs_set_registers_ready: "keeps_ready s (exregs_set_registers t er s)"
  by (rule keeps_ready_same)
    (auto simp: exregs_set_registers_def Let_def set_user_sp_def set_user_ip_def set_user_flags_def
      set_pager_def set_user_handle_def ready_links_def queue_state_is_set_def fun_eq_iff)

lemma xfer_frame_sel:
  assumes "xfer_frame s s'"
  shows "get_user_sp t s' = get_user_sp t s" "get_user_ip t s' = get_user_ip t s" "get_pager t s' = get_pager t s"
    "get_user_handle t s' = get_user_handle t s" "get_global_id t s' = get_global_id t s"
    "get_local_id t s' = get_local_id t s" "get_current_tcb s' = get_current_tcb s"
  using assms by (simp_all add: xfer_frame_def get_user_sp_def get_user_ip_def get_pager_def get_user_handle_def
      get_global_id_def get_local_id_def get_utcb_def get_current_tcb_def)



text \<open>A thread (number 2) that waits forever in the idle thread's space; another aborts its receive and sets its
  stack pointer.\<close>

definition exregs_state :: kstate where
  "exregs_state = upd_tcb (Tcb 2) (\<lambda>x. x\<lparr>t_utcb := Utcb 0x5000, t_myself_global := threadid 2 1,
     t_thread_state := waiting_forever, t_user_sp := 0x7000\<rparr>) blank_state"


end
