(* ===== verification/Timer.thy ===== *)
theory Timer
  imports Exregs
begin

text \<open>
  The timer interrupt, the start of the scheduler and the idle thread (\<^verbatim>\<open>schedule.cc\<close>).
  The timer handler composes the walk of the wakeup list, the accounting of time slices and the
  choice of the next thread.
\<close>

section \<open>The timer interrupt\<close>

definition TIMER_TICK_LENGTH :: u64_t where "TIMER_TICK_LENGTH = 2000"

definition get_timer_tick_length :: u64_t where "get_timer_tick_length = TIMER_TICK_LENGTH"

definition TOTAL_QUANTUM_EXPIRED :: u64_t where "TOTAL_QUANTUM_EXPIRED = - 1"

definition total_quantum_expired :: "typed_transfer \<Rightarrow> switcher \<Rightarrow> tcbp \<Rightarrow> kstate \<Rightarrow> kstate option" where
  "total_quantum_expired xfer sw t s =
     map_option snd (send_preemption_ipc xfer sw t (get_current_time s) s)"

definition tick_time :: "kstate \<Rightarrow> kstate" where
  "tick_time s = upd_sched (\<lambda>c. c\<lparr>sc_current_time := sc_current_time c + get_timer_tick_length\<rparr>) s"

text \<open>The time slice of the running thread is kept in the priority queue; the comparison
  \<^verbatim>\<open>(current_timeslice -= tick) <= 0\<close> is signed.\<close>

definition tick_timeslice :: "kstate \<Rightarrow> kstate" where
  "tick_timeslice s = upd_prioq (\<lambda>q. q\<lparr>pq_current_timeslice := pq_current_timeslice q - get_timer_tick_length\<rparr>) s"

definition timeslice_over :: "kstate \<Rightarrow> bool" where
  "timeslice_over s \<longleftrightarrow> sint (pq_current_timeslice (prioq s)) \<le> 0"

definition delay_slice :: "tcbp \<Rightarrow> kstate \<Rightarrow> kstate" where
  "delay_slice current s =
     (let s1 = upd_prioq (\<lambda>q. q\<lparr>pq_current_timeslice :=
                 pq_current_timeslice q + ucast (t_current_max_delay (tcbs s current))\<rparr>) s;
          s2 = upd_tcb current (\<lambda>x. x\<lparr>t_current_max_delay := 0\<rparr>) s1
      in set_preempt_flags current (set_pending (get_preempt_flags current s2)) s2)"

definition account_quantum :: "typed_transfer \<Rightarrow> switcher \<Rightarrow> tcbp \<Rightarrow> kstate \<Rightarrow> kstate option" where
  "account_quantum xfer sw current s =
     (let x = tcbs s current
      in if t_total_quantum x = 0 then Some s
         else if t_total_quantum x = TOTAL_QUANTUM_EXPIRED then total_quantum_expired xfer sw current s
         else if t_total_quantum x \<le> t_timeslice_length x
         then Some (upd_tcb current (\<lambda>y. y\<lparr>t_current_timeslice := t_current_timeslice y + t_total_quantum y,
                t_total_quantum := TOTAL_QUANTUM_EXPIRED\<rparr>) s)
         else Some (upd_tcb current (\<lambda>y. y\<lparr>t_total_quantum := t_total_quantum y - t_timeslice_length y\<rparr>) s))"

definition timer_wakeup_switch :: "tcbp \<Rightarrow> tcbp \<Rightarrow> kstate \<Rightarrow> kstate" where
  "timer_wakeup_switch current wakeup s =
     (if wakeup = current then s else switch_to current wakeup (preempt_thread current wakeup s))"

definition handle_timer_interrupt :: "typed_transfer \<Rightarrow> switcher \<Rightarrow> kstate \<Rightarrow> kstate option" where
  "handle_timer_interrupt xfer sw s =
     (let current = get_current_tcb s
      in do {
        (wakeup, s1) \<leftarrow> parse_wakeup_queues current (tick_time s);
        if current = Idle_tcb then Some s1
        else if t_timeslice_length (tcbs s1 current) \<noteq> 0 \<and> timeslice_over (tick_timeslice s1)
        then let s2 = tick_timeslice s1
             in if is_delayed (get_preempt_flags current s2) \<and> delay_preemption current wakeup s2
                then Some (timer_wakeup_switch current wakeup (delay_slice current s2))
                else do {
                  s3 \<leftarrow> account_quantum xfer sw current (end_of_timeslice current s2);
                  (_, s4) \<leftarrow> schedule current (enqueue_ready current False s3);
                  Some s4
                }
        else Some (timer_wakeup_switch current wakeup
               (if t_timeslice_length (tcbs s1 current) \<noteq> 0 then tick_timeslice s1 else s1))
      })"

section \<open>Start of the scheduler\<close>

definition scheduler_start :: "cpuid_t \<Rightarrow> kstate \<Rightarrow> kstate" where
  "scheduler_start cpuid s = initial_switch_to Idle_tcb (set_cpu Idle_tcb cpuid s)"

definition scheduler_init :: "bool \<Rightarrow> kstate \<Rightarrow> kstate" where
  "scheduler_init bootcpu s =
     (let s1 = prio_init (upd_sched (\<lambda>c. c\<lparr>sc_wakeup_list := NULL_tcb\<rparr>) s);
          s2 = create_kernel_thread Idle_tcb nilthread Idle_utcb s1;
          s3 = upd_tcb Idle_tcb (\<lambda>x. x\<lparr>t_myself_global := 0x1d1e1d1e1d1e1d1e\<rparr>) s2;
          s4 = notify0 Idle_tcb Idle_thread s3
      in if bootcpu then notify0 Idle_tcb Init_all_threads s4 else s4)"

definition init_all_threads :: "addr_t \<Rightarrow> kstate \<Rightarrow> kstate option" where
  "init_all_threads kip_addr s = init_root_servers kip_addr (init_kernel_threads (init_interrupt_threads s))"

text \<open>One round of the idle thread; \<^verbatim>\<open>processor_sleep\<close> waits for the next interrupt and has no
  effect on the state.\<close>

definition idle_thread_round :: "kstate \<Rightarrow> (bool \<times> kstate) option" where
  "idle_thread_round s = schedule Idle_tcb s"

section \<open>A tick\<close>

lemma tick_time_sel [simp]:
  "tcbs (tick_time s) = tcbs s" "utcbs (tick_time s) = utcbs s" "current_tcb (tick_time s) = current_tcb s"
  "get_current_time (tick_time s) = get_current_time s + get_timer_tick_length"
  "prioq (tick_time s) = prioq s" "wakeup_list (tick_time s) = wakeup_list s"
  by (simp_all add: tick_time_def get_current_time_def)

lemma tick_inv:
  "ready_inv (tick_time s) rs \<longleftrightarrow> ready_inv s rs" "wakeup_inv (tick_time s) ws \<longleftrightarrow> wakeup_inv s ws"
  by (simp_all add: ready_inv_def wakeup_inv_def prio_get_def ready_links_def wait_links_def queue_state_is_set_def)

lemma ready_inv_slice: "ready_inv s rs \<Longrightarrow> ready_inv (upd_prioq (\<lambda>q. q\<lparr>pq_current_timeslice := f q\<rparr>) s) rs"
  by (rule ready_inv_cong) (simp_all add: prio_get_def ready_links_def queue_state_is_set_def)

lemma preempt_thread_inv:
  assumes "ready_inv s rs" and "can_be_ready s c"
  shows "\<exists>rs'. ready_inv (switch_to c w (preempt_thread c w s)) rs' \<and>
    (\<forall>p. set (rs' p) = set (rs p) \<union> (if get_priority c s = p then {c} else {}))"
proof -
  let ?s1 = "upd_tcb c (\<lambda>x. x\<lparr>t_current_timeslice := pq_current_timeslice (prioq s)\<rparr>) s"
  have i: "ready_inv ?s1 rs" by (rule ready_inv_upd_tcb [OF assms(1)]) simp_all
  have c: "can_be_ready ?s1 c" using assms(2) by (simp add: can_be_ready_def)
  obtain rs' where r: "ready_inv (prio_enqueue c True ?s1) rs'"
    "\<And>p. set (rs' p) = set (rs p) \<union> (if t_priority (tcbs ?s1 c) = p then {c} else {})"
    using prio_enqueue_sets [OF i c, of True] by auto
  have "ready_inv (switch_to c w (preempt_thread c w s)) rs'"
    by (rule ready_inv_cong [OF r(1)])
      (simp_all add: preempt_thread_def Let_def enqueue_ready_def switch_to_def prio_get_def ready_links_def
        queue_state_is_set_def)
  then show ?thesis using r(2) by (auto simp: get_priority_def)
qed


text \<open>The end of a slice: the thread goes to the end of its queue and the best ready thread runs next.\<close>

definition best_runs :: "tcbp \<Rightarrow> kstate \<Rightarrow> (prio_t \<Rightarrow> tcbp list) \<Rightarrow> bool" where
  "best_runs c s rs \<longleftrightarrow> current_tcb s \<noteq> Idle_tcb \<and> is_runnable (get_state (current_tcb s) s) \<and>
     (\<forall>q > get_priority (current_tcb s) s. rs q = []) \<and> c \<in> set (rs (get_priority c s))"

lemma schedule_best:
  assumes i: "ready_inv s rs" and c: "c \<in> set (rs (get_priority c s))" "is_runnable (get_state c s)" "can_be_ready s c"
    and cur: "current_tcb s = c"
  shows "\<exists>b s' rs'. schedule c s = Some (b, s') \<and> ready_inv s' rs' \<and> best_runs c s' rs' \<and>
    get_current_time s' = get_current_time s"
proof -
  obtain t s' rs1 rs' where r: "schedule c s = Some (t \<noteq> c, s')" "next_ready s rs t rs1"
    "current_tcb s' = (if t = c then current_tcb s else t)" "ready_inv s' rs'"
    "\<And>p. set (rs' p) = set (rs1 p) \<union> (if t \<noteq> c \<and> c \<noteq> Idle_tcb \<and> get_priority c s = p then {c} else {})"
    and k: "schedule_keeps s s'"
    using schedule_spec [OF i, of c] c(3) by blast
  have ni: "c \<noteq> Idle_tcb" using c(3) by (simp add: can_be_ready_def)
  have ns: "\<not> stuck s c" using c(2) by simp
  have t: "t \<noteq> Idle_tcb" using r(2) c(1) ns unfolding next_ready_def by (auto split: if_split_asm)
  have n: "is_runnable (get_state t s)" "t \<in> set (rs (get_priority t s))"
    "\<And>q. q > get_priority t s \<Longrightarrow> (\<forall>x \<in> set (rs q). stuck s x) \<and> rs1 q = []"
    "rs1 (get_priority t s) = dropWhile (stuck s) (rs (get_priority t s))" "hd (rs1 (get_priority t s)) = t"
    using r(2) t unfolding next_ready_def by auto
  have cu: "current_tcb s' = t" using r(3) cur by auto
  have pr: "get_priority x s' = get_priority x s" "get_state x s' = get_state x s" for x
    using k by (simp_all add: schedule_keeps_def get_priority_def get_state_def)
  have le: "get_priority c s \<le> get_priority t s" using n(3) [of "get_priority c s"] c(1) ns by (meson not_le)
  have "rs' q = []" if "q > get_priority t s" for q
    using r(5) [of q] n(3) [OF that] that le by (cases "get_priority c s = q") auto
  moreover have "c \<in> set (rs' (get_priority c s))"
  proof (cases "t = c")
    case True
    have "rs1 (get_priority t s) \<noteq> []" unfolding n(4) dropWhile_eq_Nil_conv using n(1,2) by auto
    then have "t \<in> set (rs1 (get_priority t s))" using n(5) hd_in_set by metis
    then show ?thesis using r(5) [of "get_priority c s"] True by auto
  next
    case False
    then show ?thesis using r(5) [of "get_priority c s"] ni by simp
  qed
  ultimately have "best_runs c s' rs'" using cu t n(1) by (simp add: best_runs_def pr)
  then show ?thesis using r(1,4) k by (auto simp: schedule_keeps_def)
qed

lemma account_quantum_keeps:
  assumes "t_total_quantum (tcbs s c) \<noteq> TOTAL_QUANTUM_EXPIRED"
  obtains f where "account_quantum xfer sw c s = Some (upd_tcb c f s)" "\<And>y. t_ready_list (f y) = t_ready_list y"
    "\<And>y. t_queue_state (f y) = t_queue_state y" "\<And>y. t_priority (f y) = t_priority y"
    "\<And>y. t_thread_state (f y) = t_thread_state y"
proof -
  have "upd_tcb c id s = s" by (simp add: upd_tcb_def)
  then have "\<exists>f. account_quantum xfer sw c s = Some (upd_tcb c f s) \<and> (\<forall>y. t_ready_list (f y) = t_ready_list y \<and>
      t_queue_state (f y) = t_queue_state y \<and> t_priority (f y) = t_priority y \<and> t_thread_state (f y) = t_thread_state y)"
    using assms unfolding account_quantum_def Let_def by (auto intro: exI [of _ id])
  then show ?thesis using that by blast
qed

lemma end_of_timeslice_keeps:
  "t_thread_state (tcbs (end_of_timeslice t s) x) = t_thread_state (tcbs s x)"
  "t_priority (tcbs (end_of_timeslice t s) x) = t_priority (tcbs s x)"
  "t_total_quantum (tcbs (end_of_timeslice t s) x) = t_total_quantum (tcbs s x)"
  "current_tcb (end_of_timeslice t s) = current_tcb s"
  "get_current_time (end_of_timeslice t s) = get_current_time s"
  by (simp_all add: end_of_timeslice_def Let_def enqueue_ready_def get_current_time_def prio_set_def)

lemma slice_end:
  assumes i: "ready_inv s rs" and c: "can_be_ready s c" "is_runnable (get_state c s)"
    and q: "t_total_quantum (tcbs s c) \<noteq> TOTAL_QUANTUM_EXPIRED" and cur: "current_tcb s = c"
  shows "\<exists>s3 b s' rs'. account_quantum xfer sw c (end_of_timeslice c s) = Some s3 \<and>
    schedule c (enqueue_ready c False s3) = Some (b, s') \<and> ready_inv s' rs' \<and> best_runs c s' rs' \<and>
    get_current_time s' = get_current_time s"
proof -
  let ?e = "end_of_timeslice c s" and ?p = "get_priority c s"
  let ?rs = "rs(?p := rotate_past c (rs ?p))"
  have ie: "ready_inv ?e ?rs" using end_of_timeslice_spec [OF i c(1)] by blast
  obtain f where f: "account_quantum xfer sw c ?e = Some (upd_tcb c f ?e)" "\<And>y. t_ready_list (f y) = t_ready_list y"
    "\<And>y. t_queue_state (f y) = t_queue_state y" "\<And>y. t_priority (f y) = t_priority y"
    "\<And>y. t_thread_state (f y) = t_thread_state y"
    using account_quantum_keeps [of ?e c xfer sw] q by (auto simp: end_of_timeslice_keeps)
  let ?s3 = "upd_tcb c f ?e"
  have i3: "ready_inv ?s3 ?rs" by (rule ready_inv_upd_tcb [OF ie f(2-4)])
  have k3: "t_thread_state (tcbs ?s3 x) = t_thread_state (tcbs s x)" "t_priority (tcbs ?s3 x) = t_priority (tcbs s x)" for x
    by (simp_all add: f end_of_timeslice_keeps)
  have c3: "can_be_ready ?s3 c" using c(1) unfolding can_be_ready_def k3 .
  obtain rs4 where r4: "ready_inv (enqueue_ready c False ?s3) rs4"
    "\<And>p. set (rs4 p) = set (?rs p) \<union> (if t_priority (tcbs ?s3 c) = p then {c} else {})"
    using prio_enqueue_sets [OF i3 c3, of False] unfolding enqueue_ready_def by auto
  let ?s4 = "enqueue_ready c False ?s3"
  have k4: "t_thread_state (tcbs ?s4 x) = t_thread_state (tcbs s x)" "t_priority (tcbs ?s4 x) = t_priority (tcbs s x)" for x
    unfolding enqueue_ready_def prio_enqueue_sel k3 by simp_all
  have "get_priority c ?s4 = ?p" "get_state c ?s4 = get_state c s" "can_be_ready ?s4 c" "current_tcb ?s4 = c"
    "get_current_time ?s4 = get_current_time s"
    using c(1) cur by (simp_all add: get_priority_def get_state_def can_be_ready_def k4, simp_all add: enqueue_ready_def
        end_of_timeslice_keeps get_current_time_def end_of_timeslice_keeps(5) [unfolded get_current_time_def])
  then obtain b s' rs' where "schedule c ?s4 = Some (b, s')" "ready_inv s' rs'" "best_runs c s' rs'"
    "get_current_time s' = get_current_time s"
    using schedule_best [OF r4(1), of c] c(2) r4(2) [of ?p] k3(2) [of c] by (auto simp: get_priority_def)
  then show ?thesis using f(1) by blast
qed


lemma erase_lists_sel:
  assumes "erase_lists x = erase_lists y"
  shows "t_timeslice_length x = t_timeslice_length y" "t_total_quantum x = t_total_quantum y"
    "t_thread_state x = t_thread_state y"
proof -
  have e: "t_timeslice_length (erase_lists z) = t_timeslice_length z" "t_total_quantum (erase_lists z) = t_total_quantum z"
    "t_thread_state (erase_lists z) = t_thread_state z" for z
    by (simp_all add: erase_lists_def erase_ready_def)
  show "t_timeslice_length x = t_timeslice_length y" "t_total_quantum x = t_total_quantum y"
    "t_thread_state x = t_thread_state y"
    using arg_cong [OF assms, of t_timeslice_length] arg_cong [OF assms, of t_total_quantum]
      arg_cong [OF assms, of t_thread_state] unfolding e .
qed

lemma woken_sel: "t_timeslice_length (woken x) = t_timeslice_length x" "t_total_quantum (woken x) = t_total_quantum x"
  "t_thread_state (woken x) = running"
  by (simp_all add: woken_def)

lemma is_runnable_running: "is_runnable running" by (simp add: is_runnable_def thread_state_vals)

text \<open>The slice that is left to a thread: while it runs it is kept with the queues.\<close>

definition slice_left :: "tcbp \<Rightarrow> kstate \<Rightarrow> u64_t" where
  "slice_left c s = (if current_tcb s = c then pq_current_timeslice (prioq s) else t_current_timeslice (tcbs s c))"

text \<open>The end of an interrupt that does not reschedule: the thread \<^term>\<open>w\<close> runs, and a preempted one keeps what
  is left of its slice.\<close>

definition goes_on :: "tcbp \<Rightarrow> tcbp \<Rightarrow> u64_t \<Rightarrow> kstate \<Rightarrow> (prio_t \<Rightarrow> tcbp list) \<Rightarrow> bool" where
  "goes_on c w left s rs \<longleftrightarrow> current_tcb s = w \<and> slice_left c s = left \<and> (w \<noteq> c \<longrightarrow> c \<in> set (rs (get_priority c s)))"

lemma timer_switch_result:
  assumes i: "ready_inv s rs" and c: "can_be_ready s c" and cur: "current_tcb s = c"
  shows "\<exists>rs'. ready_inv (timer_wakeup_switch c w s) rs' \<and>
    goes_on c w (pq_current_timeslice (prioq s)) (timer_wakeup_switch c w s) rs' \<and>
    get_current_time (timer_wakeup_switch c w s) = get_current_time s \<and>
    get_preempt_flags c (timer_wakeup_switch c w s) = get_preempt_flags c s \<and>
    t_current_max_delay (tcbs (timer_wakeup_switch c w s) c) = t_current_max_delay (tcbs s c)"
proof (cases "w = c")
  case True
  then show ?thesis using i cur by (auto simp: timer_wakeup_switch_def goes_on_def slice_left_def)
next
  case False
  let ?s = "switch_to c w (preempt_thread c w s)"
  obtain rs' where "ready_inv ?s rs'" "c \<in> set (rs' (get_priority c s))"
    using preempt_thread_inv [OF i c, of w] by auto
  moreover have "get_priority c ?s = get_priority c s" "get_current_time ?s = get_current_time s" "current_tcb ?s = w"
    "t_current_timeslice (tcbs ?s c) = pq_current_timeslice (prioq s)"
    "get_preempt_flags c ?s = get_preempt_flags c s" "t_current_max_delay (tcbs ?s c) = t_current_max_delay (tcbs s c)"
    by (simp_all add: get_priority_def switch_to_def preempt_thread_def Let_def enqueue_ready_def get_current_time_def
        get_preempt_flags_def get_utcb_def)
  ultimately show ?thesis using False by (auto simp: timer_wakeup_switch_def goes_on_def slice_left_def)
qed

lemma delay_slice_result:
  assumes "ready_inv s rs"
  shows "ready_inv (delay_slice c s) rs" "pq_current_timeslice (prioq (delay_slice c s)) =
      pq_current_timeslice (prioq s) + ucast (t_current_max_delay (tcbs s c))"
    "t_current_max_delay (tcbs (delay_slice c s) c) = 0" "is_pending (get_preempt_flags c (delay_slice c s))"
    "current_tcb (delay_slice c s) = current_tcb s" "get_current_time (delay_slice c s) = get_current_time s"
    "can_be_ready (delay_slice c s) x = can_be_ready s x"
proof -
  show "ready_inv (delay_slice c s) rs"
    by (rule ready_inv_cong [OF assms])
      (auto simp: delay_slice_def Let_def set_preempt_flags_def prio_get_def ready_links_def queue_state_is_set_def)
qed (simp_all add: delay_slice_def Let_def set_preempt_flags_def get_preempt_flags_def get_utcb_def is_pending_def
    set_pending_def bf_get_set_same get_current_time_def can_be_ready_def)

text \<open>C18: the timer interrupt returns, on well-formed ready and wakeup queues, when every thread that it wakes
  up has a priority in range and the running thread is the idle thread or is runnable, has a priority in range
  and has not used up its total quantum.  The clock advances by one tick and the ready queues are well formed.  The
  idle thread goes on, and the threads woken up are ready.  If the slice of another thread is not over, the thread to be
  preferred among the running one and those woken up runs, with the slice of the interrupted thread reduced by
  the tick; it is ready if it was preempted.  If the slice is over and the thread may delay its preemption,
  the same holds with its delay added to the slice, its delay is used up and the pending flag is set in its UTCB.
  If the slice is over otherwise, the next thread is a runnable one with no ready thread of higher priority, and the
  interrupted thread is ready.\<close>

theorem handle_timer_interrupt_correct:
  assumes "ready_inv s rs" and "wakeup_inv s ws"
    and "\<forall>x \<in> set ws. wakes (tick_time s) x \<longrightarrow> can_be_ready (tick_time s) x"
    and "c = current_tcb s"
    and "c \<noteq> Idle_tcb \<Longrightarrow> can_be_ready s c \<and> is_runnable (get_state c s) \<and> t_total_quantum (tcbs s c) \<noteq> TOTAL_QUANTUM_EXPIRED"
    and "w = best_wakeup (tick_time s) c (filter (wakes (tick_time s)) ws)"
    and "left = (if t_timeslice_length (tcbs s c) \<noteq> 0 then pq_current_timeslice (prioq s) - TIMER_TICK_LENGTH
      else pq_current_timeslice (prioq s))"
  shows "\<exists>s' rs'. handle_timer_interrupt xfer sw s = Some s' \<and>
    get_current_time s' = get_current_time s + TIMER_TICK_LENGTH \<and> ready_inv s' rs' \<and>
    (if c = Idle_tcb
     then current_tcb s' = Idle_tcb \<and> (\<forall>x \<in> set ws. wakes (tick_time s) x \<longrightarrow> x \<in> set (rs' (get_priority x s)))
     else if t_timeslice_length (tcbs s c) = 0 \<or> 0 < sint left then goes_on c w left s' rs'
     else if is_delayed (get_preempt_flags c s) \<and> delay_preemption c w s
     then goes_on c w (left + ucast (t_current_max_delay (tcbs s c))) s' rs' \<and>
       is_pending (get_preempt_flags c s') \<and> t_current_max_delay (tcbs s' c) = 0
     else best_runs c s' rs')"
proof -
  let ?s0 = "tick_time s"
  obtain s1 rs1 where p: "parse_wakeup_queues c ?s0 = Some (w, s1)" and wf: "wakeup_frame ?s0 s1"
    and er: "\<And>x. erase_lists (tcbs s1 x) = (if x \<in> set ws \<and> wakes ?s0 x then erase_lists (woken (tcbs s x))
        else erase_lists (tcbs s x))" and i1: "ready_inv s1 rs1"
    and q1: "\<And>p. set (rs1 p) = set (rs p) \<union> {x \<in> set ws. wakes ?s0 x \<and> t_priority (tcbs ?s0 x) = p}"
    using parse_wakeup_queues_spec [of ?s0 ws rs c] assms(1-3,6) by (auto simp: tick_inv)
  have f1: "current_tcb s1 = c" "utcbs s1 = utcbs s" "pq_current_timeslice (prioq s1) = pq_current_timeslice (prioq s)"
    "get_current_time s1 = get_current_time s + TIMER_TICK_LENGTH" "\<And>x. t_priority (tcbs s1 x) = t_priority (tcbs s x)"
    "\<And>x. t_utcb (tcbs s1 x) = t_utcb (tcbs s x)" "\<And>x. t_sensitive_prio (tcbs s1 x) = t_sensitive_prio (tcbs s x)"
    "\<And>x. t_current_max_delay (tcbs s1 x) = t_current_max_delay (tcbs s x)"
    using wf assms(4) by (simp_all add: wakeup_frame_def get_timer_tick_length_def)
  note h = handle_timer_interrupt_def [of xfer sw s, unfolded Let_def get_current_tcb_def assms(4) [symmetric] p bind.simps
      prod.case]
  show ?thesis
  proof (cases "c = Idle_tcb")
    case True
    then have "handle_timer_interrupt xfer sw s = Some s1" unfolding h by simp
    then show ?thesis using True f1(1,4) i1 q1 by (intro exI [of _ s1] exI [of _ rs1]) (simp add: get_priority_def)
  next
    case ni: False
    note a5 = assms(5) [OF ni]
    have c1: "t_timeslice_length (tcbs s1 c) = t_timeslice_length (tcbs s c)"
      "t_total_quantum (tcbs s1 c) = t_total_quantum (tcbs s c)" "is_runnable (get_state c s1)"
      using er [of c] erase_lists_sel woken_sel [of "tcbs s c"] is_runnable_running a5 unfolding get_state_def
      by (cases "c \<in> set ws \<and> wakes ?s0 c"; metis)+
    let ?s2 = "tick_timeslice s1"
    have i2: "ready_inv ?s2 rs1" unfolding tick_timeslice_def by (rule ready_inv_slice [OF i1])
    have k2: "tcbs ?s2 = tcbs s1" "current_tcb ?s2 = c" "get_current_time ?s2 = get_current_time s1" "utcbs ?s2 = utcbs s1"
      "pq_current_timeslice (prioq ?s2) = pq_current_timeslice (prioq s) - TIMER_TICK_LENGTH"
      using f1(1,3) by (simp_all add: tick_timeslice_def get_current_time_def get_timer_tick_length_def)
    have dl: "get_preempt_flags c ?s2 = get_preempt_flags c s" "delay_preemption c w ?s2 = delay_preemption c w s"
      by (simp_all add: get_preempt_flags_def get_utcb_def delay_preemption_def get_sensitive_prio_def get_priority_def k2 f1)
    have cr: "can_be_ready s1 c" "can_be_ready ?s2 c" using a5 by (simp_all add: can_be_ready_def k2 f1)
    consider "t_timeslice_length (tcbs s c) = 0 \<or> 0 < sint left"
      | "t_timeslice_length (tcbs s c) \<noteq> 0" "\<not> 0 < sint left" "is_delayed (get_preempt_flags c s) \<and> delay_preemption c w s"
      | "t_timeslice_length (tcbs s c) \<noteq> 0" "\<not> 0 < sint left" "\<not> (is_delayed (get_preempt_flags c s) \<and> delay_preemption c w s)"
      by blast
    then show ?thesis
    proof cases
      case 1
      let ?s3 = "if t_timeslice_length (tcbs s1 c) \<noteq> 0 then ?s2 else s1"
      have "handle_timer_interrupt xfer sw s = Some (timer_wakeup_switch c w ?s3)"
        unfolding h using 1 ni assms(7) by (auto simp: c1 timeslice_over_def k2)
      moreover have "ready_inv ?s3 rs1" "can_be_ready ?s3 c" "current_tcb ?s3 = c" "get_current_time ?s3 = get_current_time s1"
        "pq_current_timeslice (prioq ?s3) = left"
        using i1 i2 cr k2 f1(1,3) assms(7) c1(1) by auto
      ultimately show ?thesis using timer_switch_result [of ?s3 rs1 c w] ni 1 f1(4) by auto
    next
      case 2
      let ?s3 = "delay_slice c ?s2"
      note d = delay_slice_result [OF i2, of c]
      have "handle_timer_interrupt xfer sw s = Some (timer_wakeup_switch c w ?s3)"
        unfolding h using 2 ni assms(7) by (simp add: c1 timeslice_over_def k2(5) dl)
      moreover obtain rs' where r: "ready_inv (timer_wakeup_switch c w ?s3) rs'"
        "goes_on c w (pq_current_timeslice (prioq ?s3)) (timer_wakeup_switch c w ?s3) rs'"
        "get_current_time (timer_wakeup_switch c w ?s3) = get_current_time ?s3"
        "get_preempt_flags c (timer_wakeup_switch c w ?s3) = get_preempt_flags c ?s3"
        "t_current_max_delay (tcbs (timer_wakeup_switch c w ?s3) c) = t_current_max_delay (tcbs ?s3 c)"
        using timer_switch_result [OF d(1), of c w] d(5,7) cr(2) k2(2) by auto
      moreover have "pq_current_timeslice (prioq ?s3) = left + ucast (t_current_max_delay (tcbs s c))"
        using d(2) 2(1) assms(7) by (simp add: k2 f1)
      ultimately show ?thesis using 2 ni d(3,4,6) k2(3) f1(4)
        by (intro exI [of _ "timer_wakeup_switch c w ?s3"] exI [of _ rs']) simp
    next
      case 3
      obtain s3 b s' rs' where a: "account_quantum xfer sw c (end_of_timeslice c ?s2) = Some s3"
        "schedule c (enqueue_ready c False s3) = Some (b, s')" "ready_inv s' rs'" "best_runs c s' rs'"
        "get_current_time s' = get_current_time ?s2"
        using slice_end [OF i2 cr(2), of xfer sw] c1 a5 by (auto simp: k2 get_state_def)
      have "handle_timer_interrupt xfer sw s = Some s'"
        unfolding h using 3 ni assms(7) a(1,2) by (auto simp: c1 timeslice_over_def k2(5) dl)
      then show ?thesis using a(3-5) 3 ni k2(3) f1(4) by (intro exI [of _ s'] exI [of _ rs']) auto
    qed
  qed
qed

text \<open>Two ready threads of the same priority; the first has a timeout that has expired, and the second one runs, with a
  slice that ends at the next tick.\<close>

definition second_runs :: kstate where
  "second_runs = upd_prioq (\<lambda>q. q\<lparr>pq_current_timeslice := 1000\<rparr>)
     (upd_tcb (Tcb 2) (\<lambda>x. x\<lparr>t_timeslice_length := 10000\<rparr>) (timed_threads\<lparr>current_tcb := Tcb 2\<rparr>))"

theorem handle_timer_interrupt_correct_witness:
  "wakes (tick_time second_runs) (Tcb 1) \<and>
   (\<exists>s' rs'. handle_timer_interrupt refuse_typed switch_now second_runs = Some s' \<and>
     get_current_time s' = get_current_time second_runs + 2000 \<and> best_runs (Tcb 2) s' rs')"
proof -
  let ?rs = "\<lambda>p. if p = 0 then [Tcb 1, Tcb 2] else []"
  have i: "ready_inv second_runs ?rs"
    by (rule ready_inv_cong [OF timed_threads_inv(2)])
      (auto simp: second_runs_def prio_get_def ready_links_def queue_state_is_set_def)
  have same: "queue_state_is_set x q second_runs = queue_state_is_set x q timed_threads"
    "wakeup_list second_runs = wakeup_list timed_threads" "wait_links second_runs = wait_links timed_threads" for x q
    by (auto simp: fun_eq_iff second_runs_def wait_links_def queue_state_is_set_def)
  have w: "wakeup_inv second_runs [Tcb 1]" using timed_threads_inv(1) unfolding wakeup_inv_def same .
  have sel: "t_priority (tcbs second_runs x) = 0" "t_absolute_timeout (tcbs second_runs (Tcb 1)) = 0"
    "get_state x second_runs = (if x = Tcb 2 then running else aborted)" "get_current_time second_runs = 0" for x
    using two_threads_tcb(1,3,4,8)
    by (simp_all add: second_runs_def timed_threads_def set_timeout_abs_def Let_def split_def get_state_def get_current_time_def)
  have k: "\<forall>x \<in> set [Tcb 1]. wakes (tick_time second_runs) x \<longrightarrow> can_be_ready (tick_time second_runs) x"
    using sel(1) by (simp add: can_be_ready_def MAX_PRIO_def)
  have wk: "wakes (tick_time second_runs) (Tcb 1)"
    using sel(2) sel(3) [of "Tcb 1"] by (simp add: wakes_def lazy_wait_def has_timeout_expired_def get_state_def is_waiting_forever_def
        aborted_def waiting_forever_def BLOCKED_STATE_def)
  have t: "current_tcb second_runs = Tcb 2" "t_timeslice_length (tcbs second_runs (Tcb 2)) = 10000"
    "pq_current_timeslice (prioq second_runs) = 1000" "t_total_quantum (tcbs second_runs (Tcb 2)) = 0"
    "\<not> is_delayed (get_preempt_flags (Tcb 2) second_runs)"
    by (simp_all add: second_runs_def timed_threads_def set_timeout_abs_def Let_def split_def two_threads_def
        set_state_def blank_state_def blank_tcb_def blank_utcb_def get_preempt_flags_def get_utcb_def is_delayed_def bf_get_def)
  have c: "can_be_ready second_runs (Tcb 2) \<and> is_runnable (get_state (Tcb 2) second_runs) \<and>
      t_total_quantum (tcbs second_runs (Tcb 2)) \<noteq> TOTAL_QUANTUM_EXPIRED"
    using sel t by (simp add: can_be_ready_def MAX_PRIO_def is_runnable_running TOTAL_QUANTUM_EXPIRED_def)
  have "\<not> 0 < sint (1000 - TIMER_TICK_LENGTH)" by (simp add: TIMER_TICK_LENGTH_def)
  then show ?thesis
    using handle_timer_interrupt_correct [OF i w k t(1) [symmetric] c refl refl, of refuse_typed switch_now] t wk
    by (auto simp: TIMER_TICK_LENGTH_def)
qed

end
