(* ===== verification/Pagefault.thy ===== *)
theory Pagefault
  imports Timer
begin

text \<open>
  Page faults (\<^verbatim>\<open>space.cc\<close>): faults of user threads become messages to their pager,
  faults of \<^verbatim>\<open>sigma0\<close> are mapped one to one, faults of the kernel in the thread control block area
  allocate or map a page, and faults during the copying of a message start the transfer timeouts.

  The kernel debugger, which is entered on faults that should not happen, is an endless loop.
\<close>

definition tunnel_pagefault :: "typed_transfer \<Rightarrow> switcher \<Rightarrow> word_t \<Rightarrow> kstate \<Rightarrow> kstate option" where
  "tunnel_pagefault xfer sw a s =
     (let current = get_current_tcb s;
          partner = get_partner_tcb current s
      in do {
        s1 \<leftarrow> send_pagefault_ipc xfer sw current a (- 1) acc_write s;
        let s2 = set_state current locked_waiting s1;
        let s3 = set_state partner locked_running s2;
        sw current partner (enqueue_ready partner False s3)
      })"

text \<open>The return to user level that ends \<^verbatim>\<open>handle_ipc_timeout\<close> has an empty body on mips64, so the code
  after it is reached.\<close>

definition handle_xfer_timeouts :: "tcbp \<Rightarrow> kstate \<Rightarrow> kstate option" where
  "handle_xfer_timeouts sender s =
     (if flag_is_set sender has_xfer_timeout s then Some s
      else let partner = get_partner_tcb sender s;
               snd_to = get_xfer_timeout_snd sender s;
               rcv_to = get_xfer_timeout_rcv partner s
           in if \<not> (time_is_zero snd_to \<or> time_is_zero rcv_to) \<and> time_is_never snd_to \<and> time_is_never rcv_to
              then Some s
              else do {
                s1 \<leftarrow> (if time_is_zero snd_to \<or> time_is_zero rcv_to then handle_ipc_timeout locked_running s else Some s);
                lt \<leftarrow> time_less (get_current_time s1) snd_to rcv_to;
                s2 \<leftarrow> set_timeout sender (if lt then snd_to else rcv_to) s1;
                Some (add_flag sender has_xfer_timeout s2)
              })"

definition pagefault_user ::
  "typed_transfer \<Rightarrow> switcher \<Rightarrow> spacep \<Rightarrow> addr_t \<Rightarrow> addr_t \<Rightarrow> access_e \<Rightarrow> bool \<Rightarrow> kstate \<Rightarrow> kstate option" where
  "pagefault_user xfer sw space a ip access kern s =
     (let current = get_current_tcb s;
          user_area = is_user_area a
      in if \<not> is_sigma0_space (get_space current s) s
         then if kern \<and> get_state current s \<noteq> locked_running then None
              else if \<not> user_area then None
              else do {
                s1 \<leftarrow> (if get_state current s = locked_running
                      then handle_xfer_timeouts current (set_misc current misc_copy_fault a s) else Some s);
                let s2 = (if \<not> kern then set_partner current nilthread s1 else s1);
                send_pagefault_ipc xfer sw current a ip access s2
              }
         else if user_area then map_sigma0 space a s else None)"

definition pagefault_copy_area ::
  "switcher \<Rightarrow> addr_t \<Rightarrow> kstate \<Rightarrow> kstate option" where
  "pagefault_copy_area sw a s =
     (let current = get_current_tcb s
      in do {
        s1 \<leftarrow> handle_xfer_timeouts current (set_misc current misc_copy_fault a s);
        let s2 = set_state current waiting_tunneled_pf s1;
        let partner = get_tcb (get_partner current s2);
        faddr \<leftarrow> copy_area_real_address current a s2;
        let s3 = set_state partner locked_running_nested s2;
        s4 \<leftarrow> sw current partner (notify1 partner Tunnel_pagefault faddr s3);
        Some (enqueue_ready current False s4)
      })"

definition handle_pagefault ::
  "typed_transfer \<Rightarrow> switcher \<Rightarrow> addr_t \<Rightarrow> spacep \<Rightarrow> addr_t \<Rightarrow> addr_t \<Rightarrow> access_e \<Rightarrow> bool \<Rightarrow> kstate \<Rightarrow> kstate option" where
  "handle_pagefault xfer sw dummy_tcb space a ip access kern s =
     (if is_user_area a \<or> \<not> kern then pagefault_user xfer sw space a ip access kern s
      else if sync_kernel_space a then Some s
      else if is_tcb_area a
      then if access = acc_write then allocate_tcb a s else map_dummy_tcb dummy_tcb space a s
      else if is_copy_area a then pagefault_copy_area sw a s
      else None)"

section \<open>Transfer timeouts\<close>

text \<open>The delay a transfer timeout stands for; never is longer than every period.\<close>

definition xfer_delay :: "time_t \<Rightarrow> u64_t \<Rightarrow> u64_t" where
  "xfer_delay t now = (if time_is_never t then - 1 else now + get_microseconds t)"

lemma flag_is_set_add_flag: "flag_is_set t n (add_flag t n s)" if "n < 64"
  using that by (simp add: flag_is_set_def add_flag_def bitmask_is_set_def bitmask_add_def)

lemma wakeup_inv_add_flag:
  assumes "wakeup_inv s ws" shows "wakeup_inv (add_flag t n s) ws"
proof -
  have "wait_links (add_flag t n s) = wait_links s" by (auto simp: wait_links_def add_flag_def)
  then show ?thesis using assms by (simp add: wakeup_inv_def) (simp add: add_flag_def queue_state_is_set_def)
qed



text \<open>A sender with an infinite send timeout whose partner's receive timeout is 1 ms.\<close>

definition xfer_state :: kstate where
  "xfer_state = upd_tcb (Tcb 1) (\<lambda>x. x\<lparr>t_utcb := Utcb 0x1000, t_partner := threadid 2 1\<rparr>)
     (upd_tcb (Tcb 2) (\<lambda>x. x\<lparr>t_utcb := Utcb 0x2000\<rparr>)
       (upd_utcb (Utcb 0x2000) (\<lambda>u. u\<lparr>u_xfer_timeout := 1000\<rparr>) blank_state))"


end
