(* ===== verification/Allocator.thy ===== *)
theory Allocator
  imports L4_Prelude
begin

text \<open>
  What a memory allocator of the kernel promises to its clients, as a locale: blocks that are
  handed out are fresh, blocks in use and the rest of the memory keep their contents, every block
  in use can be returned.  The allocator of kernel memory (\<^verbatim>\<open>kmem_t\<close>) and the buffer
  allocator of the mapping database interpret it; the lemmas about sequences of requests are
  proved here once.
\<close>

primrec allocs :: "('m \<Rightarrow> ('b \<times> 'm) option) \<Rightarrow> nat \<Rightarrow> 'm \<Rightarrow> ('b list \<times> 'm) option" where
  "allocs alloc 0 m = Some ([], m)"
| "allocs alloc (Suc n) m =
     (case alloc m of
        None \<Rightarrow> None
      | Some (b, m1) \<Rightarrow> map_option (\<lambda>(bs, m2). (b # bs, m2)) (allocs alloc n m1))"

primrec frees :: "('b \<Rightarrow> 'm \<Rightarrow> 'm option) \<Rightarrow> 'b list \<Rightarrow> 'm \<Rightarrow> 'm option" where
  "frees free [] m = Some m"
| "frees free (b # bs) m = (case free b m of None \<Rightarrow> None | Some m1 \<Rightarrow> frees free bs m1)"

locale block_allocator =
  fixes owns :: "'m \<Rightarrow> 'b set \<Rightarrow> bool"
    and alloc :: "'m \<Rightarrow> ('b \<times> 'm) option"
    and free :: "'b \<Rightarrow> 'm \<Rightarrow> 'm option"
    and content :: "'m \<Rightarrow> 'b \<Rightarrow> 'c"
    and rest :: "'m \<Rightarrow> 'r"
  assumes alloc_fresh: "owns m A \<Longrightarrow> alloc m = Some (b, m') \<Longrightarrow> b \<notin> A"
    and alloc_owns: "owns m A \<Longrightarrow> alloc m = Some (b, m') \<Longrightarrow> owns m' (insert b A)"
    and alloc_content: "owns m A \<Longrightarrow> alloc m = Some (b, m') \<Longrightarrow> a \<in> A \<Longrightarrow> content m' a = content m a"
    and alloc_rest: "owns m A \<Longrightarrow> alloc m = Some (b, m') \<Longrightarrow> rest m' = rest m"
    and free_returns: "owns m A \<Longrightarrow> b \<in> A \<Longrightarrow> \<exists>m'. free b m = Some m'"
    and free_owns: "owns m A \<Longrightarrow> b \<in> A \<Longrightarrow> free b m = Some m' \<Longrightarrow> owns m' (A - {b})"
    and free_content: "owns m A \<Longrightarrow> b \<in> A \<Longrightarrow> free b m = Some m' \<Longrightarrow> a \<in> A - {b} \<Longrightarrow> content m' a = content m a"
    and free_rest: "owns m A \<Longrightarrow> b \<in> A \<Longrightarrow> free b m = Some m' \<Longrightarrow> rest m' = rest m"
begin

lemma allocs_distinct:
  assumes "owns m A" and "allocs alloc n m = Some (bs, m')"
  shows "length bs = n \<and> distinct bs \<and> set bs \<inter> A = {} \<and> owns m' (A \<union> set bs) \<and>
    (\<forall>a \<in> A. content m' a = content m a) \<and> rest m' = rest m"
  using assms
proof (induction n arbitrary: m A bs)
  case (Suc n)
  then obtain b m1 cs where b: "alloc m = Some (b, m1)" "allocs alloc n m1 = Some (cs, m')" "bs = b # cs"
    by (auto split: option.splits)
  note IH = Suc.IH [OF alloc_owns [OF Suc.prems(1) b(1)] b(2)]
  show ?case
    using IH b(3) alloc_fresh [OF Suc.prems(1) b(1)] alloc_content [OF Suc.prems(1) b(1)]
      alloc_rest [OF Suc.prems(1) b(1)] by (auto simp: insert_commute)
qed simp

lemma frees_returns:
  assumes "owns m (A \<union> set bs)" and "distinct bs" and "set bs \<inter> A = {}"
  shows "\<exists>m'. frees free bs m = Some m' \<and> owns m' A \<and> (\<forall>a \<in> A. content m' a = content m a) \<and> rest m' = rest m"
  using assms
proof (induction bs arbitrary: m)
  case (Cons b bs)
  have b: "b \<in> A \<union> set (b # bs)" by simp
  obtain m1 where m1: "free b m = Some m1" using free_returns [OF Cons.prems(1) b] by blast
  have "A \<union> set (b # bs) - {b} = A \<union> set bs" using Cons.prems(2,3) by auto
  then have "owns m1 (A \<union> set bs)" using free_owns [OF Cons.prems(1) b m1] by simp
  from Cons.IH [OF this] obtain m' where
    "frees free bs m1 = Some m'" "owns m' A" "\<forall>a \<in> A. content m' a = content m1 a" "rest m' = rest m1"
    using Cons.prems by auto
  moreover have "content m1 a = content m a" if "a \<in> A" for a
    using free_content [OF Cons.prems(1) b m1, of a] that Cons.prems(3) by auto
  ultimately show ?case using m1 free_rest [OF Cons.prems(1) b m1] by auto
qed simp

lemma allocs_frees:
  assumes "owns m A" and "allocs alloc n m = Some (bs, m')"
  shows "\<exists>m''. frees free bs m' = Some m'' \<and> owns m'' A \<and> (\<forall>a \<in> A. content m'' a = content m a) \<and> rest m'' = rest m"
  using allocs_distinct [OF assms] frees_returns [of m' A bs] by auto

end

end
