(* ===== verification/Kmem_Blocks.thy ===== *)
theory Kmem_Blocks
  imports Kmem Allocator
begin

text \<open>
  The kernel memory allocator interprets the contract of \<^verbatim>\<open>Allocator\<close>: which blocks are in
  use, that \<^verbatim>\<open>alloc\<close> and \<^verbatim>\<open>free\<close> respect them, and what follows for sequences of
  requests.
\<close>

section \<open>Kernel memory as a block allocator\<close>

definition chunk :: "word_t \<Rightarrow> word_t" where "chunk x = x AND NOT 0x3ff"

text \<open>The blocks of \<^term>\<open>n\<close> chunks in \<^term>\<open>A\<close> are in use: they overlap neither each other nor the free
  list, and nor do the words of \<^term>\<open>R\<close>, the memory that is not managed in blocks of this size.\<close>

definition kmem_owns :: "word_t set \<Rightarrow> nat \<Rightarrow> memory \<Rightarrow> word_t set \<Rightarrow> bool" where
  "kmem_owns R n m A \<longleftrightarrow> (\<exists>xs. free_list m xs \<and>
     (\<forall>a \<in> A. a AND 0x3ff = 0 \<and> a \<noteq> 0 \<and> unat a + n * 1024 \<le> 2 ^ 64 \<and> set (run a n) \<inter> set xs = {}) \<and>
     (\<forall>a \<in> A. \<forall>b \<in> A. a \<noteq> b \<longrightarrow> set (run a n) \<inter> set (run b n) = {}) \<and>
     (\<forall>x \<in> R. chunk x \<notin> set xs \<union> (\<Union>a \<in> A. set (run a n))))"

lemma chunk_aligned: "chunk x AND 0x3ff = 0"
  unfolding chunk_def by (rule bit_eqI) (auto simp: bit_simps)

lemma chunk_in_run:
  assumes "c AND 0x3ff = 0" and "unat (x - c) < n * 1024"
  shows "chunk x \<in> set (run c n)"
proof -
  have m: "(0x3ff :: word_t) = mask 10" by (simp add: mask_eq_exp_minus_1)
  have "chunk x = x - take_bit 10 x" using align_mask_mod [of x 10] by (simp add: chunk_def)
  have "unat (chunk x - c) \<le> unat (x - c)"
  proof -
    have "unat x = (unat (x - c) + unat c) mod 2 ^ 64" using unat_word_ariths(1) [of "x - c" c] by simp
    then have "unat x mod 1024 = (unat (x - c) + unat c) mod 1024" by (simp add: mod_mod_cancel)
    then have "unat x mod 1024 = unat (x - c) mod 1024"
      using assms(1) unfolding aligned_mod by (metis mod_add_right_eq add.right_neutral)
    moreover have "unat (take_bit 10 x) = unat x mod 1024"
      unfolding unsigned_take_bit_eq by (simp add: take_bit_eq_mod)
    ultimately have "take_bit 10 x \<le> x - c"
      using mod_less_eq_dividend [of "unat (x - c)" 1024] by (simp add: word_le_nat_alt)
    then have "unat (x - c - take_bit 10 x) = unat (x - c) - unat (take_bit 10 x)" by (rule unat_sub)
    moreover have "chunk x - c = x - c - take_bit 10 x" using \<open>chunk x = x - take_bit 10 x\<close> by simp
    ultimately show ?thesis by (metis diff_le_self)
  qed
  then show ?thesis using in_run_offset [OF chunk_aligned assms(1)] assms(2) by simp
qed

lemma kmem_owns_alloc:
  assumes own: "kmem_owns R n m A" and n: "0 < n" "n * 1024 < 2 ^ 64"
    and al: "kmem_alloc (of_nat n * KMEM_CHUNKSIZE) m = Some (b, m')"
  shows "b \<notin> A \<and> kmem_owns R n m' (insert b A) \<and> (\<forall>x \<in> R. mem m' x = mem m x) \<and>
    (\<forall>a \<in> A. \<forall>k<n * 1024. mem m' (a + of_nat k) = mem m (a + of_nat k))"
proof -
  obtain xs where xs: "free_list m xs"
      "\<forall>a \<in> A. a AND 0x3ff = 0 \<and> a \<noteq> 0 \<and> unat a + n * 1024 \<le> 2 ^ 64 \<and> set (run a n) \<inter> set xs = {}"
      "\<forall>a \<in> A. \<forall>b \<in> A. a \<noteq> b \<longrightarrow> set (run a n) \<inter> set (run b n) = {}"
      "\<forall>x \<in> R. chunk x \<notin> set xs \<union> (\<Union>a \<in> A. set (run a n))"
    using own unfolding kmem_owns_def by blast
  obtain us w ws where r: "xs = us @ run b n @ w # ws" "free_list m' (us @ w # ws)"
      "\<forall>x. x \<in> set us \<or> x - b < of_nat n * KMEM_CHUNKSIZE \<or> mem m' x = mem m x"
    using kmem_alloc_result [OF xs(1) n refl al] by blast
  have bn: "b \<in> set (run b n)" using n(1) by (cases n) auto
  have s: "sorted_wrt (<) xs" and alg: "\<forall>x \<in> set xs. x AND 0x3ff = 0" and nz: "0 \<notin> set xs"
    using xs(1) fseg_nonzero by (auto simp: free_list_def)
  have b: "b AND 0x3ff = 0" "b \<noteq> 0" using alg nz bn unfolding r(1) by auto
  have "sorted_wrt (<) (run b n)" using s unfolding r(1) sorted_wrt_append by blast
  then have bd: "unat b + n * 1024 \<le> 2 ^ 64" using run_nowrap b(1) by blast
  have sub: "set (run b n) \<subseteq> set xs" "set (us @ w # ws) \<subseteq> set xs" unfolding r(1) by auto
  have dis: "set (run b n) \<inter> set (us @ w # ws) = {}" using s unfolding r(1) strict_sorted_iff by auto
  have keep: "mem m' x = mem m x" if "chunk x \<notin> set xs" for x
  proof -
    have "x \<notin> set us"
    proof
      assume "x \<in> set us"
      then have "x AND 0x3ff = 0" using alg unfolding r(1) by auto
      then have "chunk x = x" using and_not_eq_self [of x "0x3ff"] by (simp add: chunk_def)
      then show False using that \<open>x \<in> set us\<close> unfolding r(1) by auto
    qed
    moreover have "\<not> x - b < of_nat n * KMEM_CHUNKSIZE"
      using chunk_in_run [OF b(1), of x n] sub(1) that block_size(1) [OF n] by (auto simp: word_less_nat_alt)
    ultimately show ?thesis using r(3) by blast
  qed
  have "b \<notin> A" using xs(2) bn sub(1) by blast
  moreover have "mem m' x = mem m x" if "x \<in> R" for x using keep xs(4) that by blast
  moreover have "mem m' (a + of_nat k) = mem m (a + of_nat k)" if "a \<in> A" "k < n * 1024" for a k
  proof (rule keep)
    have "chunk (a + of_nat k) \<in> set (run a n)"
      using xs(2) that n(2) by (intro chunk_in_run) (auto simp: unat_of_nat take_bit_nat_eq_self)
    then show "chunk (a + of_nat k) \<notin> set xs" using xs(2) that(1) by blast
  qed
  moreover have "kmem_owns R n m' (insert b A)"
    unfolding kmem_owns_def
  proof (intro exI [of _ "us @ w # ws"] conjI ballI impI)
    fix a assume "a \<in> insert b A"
    then show "a AND 0x3ff = 0" "a \<noteq> 0" "unat a + n * 1024 \<le> 2 ^ 64" "set (run a n) \<inter> set (us @ w # ws) = {}"
      using b bd dis xs(2) sub(2) by blast+
  next
    fix a c assume "a \<in> insert b A" "c \<in> insert b A" "a \<noteq> c"
    then show "set (run a n) \<inter> set (run c n) = {}" using xs(2,3) sub(1) by blast
  next
    fix x assume "x \<in> R"
    then show "chunk x \<notin> set (us @ w # ws) \<union> (\<Union>a \<in> insert b A. set (run a n))" using xs(4) sub by blast
  qed (rule r(2))
  ultimately show ?thesis by blast
qed

lemma kmem_owns_free:
  assumes own: "kmem_owns R n m A" and n: "0 < n" "n * 1024 < 2 ^ 64" and b: "b \<in> A"
  shows "\<exists>m'. kmem_free b (of_nat n * KMEM_CHUNKSIZE) m = Some m' \<and> kmem_owns R n m' (A - {b}) \<and>
    (\<forall>x \<in> R. mem m' x = mem m x) \<and> (\<forall>a \<in> A - {b}. \<forall>k<n * 1024. mem m' (a + of_nat k) = mem m (a + of_nat k))"
proof -
  obtain xs where xs: "free_list m xs"
      "\<forall>a \<in> A. a AND 0x3ff = 0 \<and> a \<noteq> 0 \<and> unat a + n * 1024 \<le> 2 ^ 64 \<and> set (run a n) \<inter> set xs = {}"
      "\<forall>a \<in> A. \<forall>b \<in> A. a \<noteq> b \<longrightarrow> set (run a n) \<inter> set (run b n) = {}"
      "\<forall>x \<in> R. chunk x \<notin> set xs \<union> (\<Union>a \<in> A. set (run a n))"
    using own unfolding kmem_owns_def by blast
  have b': "b AND 0x3ff = 0" "b \<noteq> 0" "unat b + n * 1024 \<le> 2 ^ 64" "set xs \<inter> set (run b n) = {}"
    using bspec [OF xs(2) b] by (auto simp only: inf_commute)
  obtain m' where m': "kmem_free b (of_nat n * KMEM_CHUNKSIZE) m = Some m'" "free_list m' (insert_run b n xs)"
      "\<forall>x. x \<in> set xs \<or> x \<in> set (run b n) \<or> mem m' x = mem m x"
    using kmem_free_inserts [OF xs(1) b'(1,2) n(1) b'(3,4)] by blast
  have st: "set (insert_run b n xs) = set xs \<union> set (run b n)" by (rule set_insert_run)
  have alg: "\<forall>x \<in> set xs \<union> set (run b n). x AND 0x3ff = 0"
    using xs(1) run_aligned [OF b'(1)] unfolding free_list_def by blast
  have keep: "mem m' x = mem m x" if "chunk x \<notin> set xs \<union> set (run b n)" for x
  proof -
    have "x \<notin> set xs \<union> set (run b n)"
    proof
      assume x: "x \<in> set xs \<union> set (run b n)"
      then have "chunk x = x" using alg and_not_eq_self [of x "0x3ff"] by (auto simp: chunk_def)
      then show False using that x by simp
    qed
    then show ?thesis using m'(3) by blast
  qed
  have "mem m' x = mem m x" if "x \<in> R" for x using keep xs(4) that b by blast
  moreover have "mem m' (a + of_nat k) = mem m (a + of_nat k)" if "a \<in> A - {b}" "k < n * 1024" for a k
  proof (rule keep)
    have "chunk (a + of_nat k) \<in> set (run a n)"
      using xs(2) that n(2) by (intro chunk_in_run) (auto simp: unat_of_nat take_bit_nat_eq_self)
    then show "chunk (a + of_nat k) \<notin> set xs \<union> set (run b n)" using xs(2,3) that(1) b by blast
  qed
  moreover have "kmem_owns R n m' (A - {b})"
    unfolding kmem_owns_def
  proof (intro exI [of _ "insert_run b n xs"] conjI ballI impI)
    fix a assume a: "a \<in> A - {b}"
    then show "a AND 0x3ff = 0" "a \<noteq> 0" "unat a + n * 1024 \<le> 2 ^ 64" using xs(2) by blast+
    show "set (run a n) \<inter> set (insert_run b n xs) = {}" unfolding st using xs(2,3) a b by blast
  next
    fix a c assume "a \<in> A - {b}" "c \<in> A - {b}" "a \<noteq> c"
    then show "set (run a n) \<inter> set (run c n) = {}" using xs(3) by blast
  next
    fix x assume "x \<in> R"
    then show "chunk x \<notin> set (insert_run b n xs) \<union> (\<Union>a \<in> A - {b}. set (run a n))" unfolding st using xs(4) b by blast
  qed (rule m'(2))
  ultimately show ?thesis using m'(1) by blast
qed

text \<open>Blocks of fewer than \<^term>\<open>2 ^ 54\<close> chunks.\<close>

interpretation kb: block_allocator
  "\<lambda>m A. kmem_owns R (Suc n) m A \<and> Suc n * 1024 < 2 ^ 64"
  "kmem_alloc (of_nat (Suc n) * KMEM_CHUNKSIZE)" "\<lambda>b. kmem_free b (of_nat (Suc n) * KMEM_CHUNKSIZE)"
  "\<lambda>m b. map (\<lambda>k. mem m (b + of_nat k)) [0..<Suc n * 1024]" "\<lambda>m x. if x \<in> R then mem m x else 0"
  for R n
proof (unfold_locales, goal_cases)
  case (1 m A b m') then show ?case using kmem_owns_alloc [of R "Suc n" m A b m'] by simp
next
  case (2 m A b m') then show ?case using kmem_owns_alloc [of R "Suc n" m A b m'] by simp
next
  case (3 m A b m' a) then show ?case using kmem_owns_alloc [of R "Suc n" m A b m'] by (auto simp del: mult_Suc)
next
  case (4 m A b m') then show ?case using kmem_owns_alloc [of R "Suc n" m A b m'] by auto
next
  case (5 m A b) then show ?case using kmem_owns_free [of R "Suc n" m A b] by auto
next
  case (6 m A b m') then show ?case using kmem_owns_free [of R "Suc n" m A b] by auto
next
  case (7 m A b m' a) then show ?case using kmem_owns_free [of R "Suc n" m A b] by (auto simp del: mult_Suc)
next
  case (8 m A b m') then show ?case using kmem_owns_free [of R "Suc n" m A b] by auto
qed

text \<open>C29: blocks of kernel memory are exclusive.  Any number of successive requests for blocks of the
  same size returns distinct blocks that were not in use, none of them overlapping a block in use, and
  the contents of the blocks in use are kept; returning the new blocks always succeeds and
  leaves the allocator with the blocks that were in use before, their contents unchanged.\<close>

theorem kmem_blocks_exclusive:
  assumes "kmem_owns R (Suc n) m A" and "Suc n * 1024 < 2 ^ 64"
    and "allocs (kmem_alloc (of_nat (Suc n) * KMEM_CHUNKSIZE)) k m = Some (bs, m')"
  shows "length bs = k \<and> distinct bs \<and> set bs \<inter> A = {} \<and> kmem_owns R (Suc n) m' (A \<union> set bs) \<and>
    (\<forall>a \<in> A. \<forall>i<Suc n * 1024. mem m' (a + of_nat i) = mem m (a + of_nat i)) \<and>
    (\<exists>m''. frees (\<lambda>b. kmem_free b (of_nat (Suc n) * KMEM_CHUNKSIZE)) bs m' = Some m'' \<and> kmem_owns R (Suc n) m'' A \<and>
       (\<forall>a \<in> A. \<forall>i<Suc n * 1024. mem m'' (a + of_nat i) = mem m (a + of_nat i)))"
proof -
  have own: "kmem_owns R (Suc n) m A \<and> Suc n * 1024 < 2 ^ 64" using assms(1,2) by blast
  show ?thesis
    using kb.allocs_distinct [OF own assms(3)] kb.allocs_frees [OF own assms(3)]
    by (auto simp del: mult_Suc of_nat_Suc)
qed

theorem kmem_blocks_exclusive_witness:
  "\<exists>bs m'. allocs (kmem_alloc (of_nat (Suc 0) * KMEM_CHUNKSIZE)) 2 three_chunks = Some (bs, m') \<and>
     distinct bs \<and> length bs = 2 \<and> kmem_owns {0x20000} (Suc 0) m' (set bs)"
proof -
  have own: "kmem_owns {0x20000} (Suc 0) three_chunks {}"
    unfolding kmem_owns_def using three_chunks_list
    by (intro exI [of _ "[0x10000, 0x10400, 0x10800]"]) (simp add: chunk_def)
  let ?al = "kmem_alloc (of_nat (Suc 0) * KMEM_CHUNKSIZE)"
  have two: "?al m \<noteq> None" if "free_list m (x # y # zs)" for m x y zs
  proof -
    have "x AND 0x3ff = 0" using that by (simp add: free_list_def)
    then show ?thesis using kmem_alloc_scan [OF that, of 1, OF _ _ refl] by (simp add: KMEM_CHUNKSIZE_def)
  qed
  obtain c m1 where c: "?al three_chunks = Some (c, m1)" using two [OF three_chunks_list] by auto
  obtain us w ws where u: "[0x10000, 0x10400, 0x10800] = us @ run c 1 @ w # ws" "free_list m1 (us @ w # ws)"
    using kmem_alloc_result [OF three_chunks_list _ _ _ c, of 1] by auto
  have "length (us @ w # ws) = 2" using arg_cong [OF u(1), of length] by simp
  moreover have "\<exists>x y. l = [x, y]" if "length l = 2" for l :: "word_t list"
    using that by (cases l; cases "tl l") auto
  ultimately obtain x y where "us @ w # ws = [x, y]" by blast
  then have "?al m1 \<noteq> None" using two [of m1 x y "[]"] u(2) by simp
  then have "allocs ?al 2 three_chunks \<noteq> None" using c by (auto simp: numeral_2_eq_2)
  then obtain bs m' where r: "allocs (kmem_alloc (of_nat (Suc 0) * KMEM_CHUNKSIZE)) 2 three_chunks = Some (bs, m')"
    by auto
  show ?thesis using kmem_blocks_exclusive [OF own _ r] r by auto
qed

end
