(* ===== verification/Mdb_Alloc.thy ===== *)
theory Mdb_Alloc
  imports Page_Table Kmem_Blocks
begin

text \<open>
  The buffer allocator of the mapping database (\<^verbatim>\<open>generic/mapping_alloc.cc\<close>).

  Buffers of a few fixed sizes are cut out of pages of 4 KB.  The first words of a page are its
  management structure \<^verbatim>\<open>mdb_mng_t\<close> (free list, number of free buffers, next and previous
  page with free buffers, buffer list), the free buffers are linked through their first words.
  The array \<^verbatim>\<open>mdb_buflists\<close> (size, first page, buffers per page; three words each) lies in
  kernel memory at an address that the linker chooses, the argument \<^verbatim>\<open>bls\<close>.
  \<^verbatim>\<open>panic\<close> does not return, so an unknown buffer size is the result \<^term>\<open>None\<close>.
\<close>

section \<open>Memory layout\<close>

definition MDB_ALLOC_CHUNKSZ :: word_t where "MDB_ALLOC_CHUNKSZ = 4096"

definition MDB_NUM_PGSIZES :: nat where "MDB_NUM_PGSIZES = 8"

definition sizeof_mapnode_t :: word_t where "sizeof_mapnode_t = 24"

definition sizeof_dualnode_t :: word_t where "sizeof_dualnode_t = 16"

definition sizeof_rootnode_t :: word_t where "sizeof_rootnode_t = 8"

definition sizeof_mdb_mng_t :: word_t where "sizeof_mdb_mng_t = 40"

definition mdb_pgshifts :: "nat \<Rightarrow> nat" where "mdb_pgshifts = hw_pgshifts"

text \<open>The fields of \<^verbatim>\<open>mdb_buflist_t\<close> and \<^verbatim>\<open>mdb_mng_t\<close>, by their addresses.\<close>

definition bl_size :: "word_t \<Rightarrow> word_t" where "bl_size bl = bl"
definition bl_list_of_lists :: "word_t \<Rightarrow> word_t" where "bl_list_of_lists bl = bl + 8"
definition bl_max_free :: "word_t \<Rightarrow> word_t" where "bl_max_free bl = bl + 16"
definition bl_next :: "word_t \<Rightarrow> word_t" where "bl_next bl = bl + 24"

definition mng_freelist :: "word_t \<Rightarrow> word_t" where "mng_freelist p = p"
definition mng_num_free :: "word_t \<Rightarrow> word_t" where "mng_num_free p = p + 8"
definition mng_next_freelist :: "word_t \<Rightarrow> word_t" where "mng_next_freelist p = p + 16"
definition mng_prev_freelist :: "word_t \<Rightarrow> word_t" where "mng_prev_freelist p = p + 24"
definition mng_bl :: "word_t \<Rightarrow> word_t" where "mng_bl p = p + 32"

lemmas mdb_layout = bl_size_def bl_list_of_lists_def bl_max_free_def bl_next_def mng_freelist_def
  mng_num_free_def mng_next_freelist_def mng_prev_freelist_def mng_bl_def

section \<open>Initialisation\<close>

partial_function (option) add_size_find :: "word_t \<Rightarrow> word_t \<Rightarrow> memory \<Rightarrow> (bool \<times> word_t) option" where
  "add_size_find bl sz m =
     (if mem m (bl_size bl) = 0 then Some (False, bl)
      else if mem m (bl_size bl) = sz then Some (True, bl)
      else add_size_find (bl_next bl) sz m)"

definition mdb_add_size :: "word_t \<Rightarrow> word_t \<Rightarrow> memory \<Rightarrow> memory option" where
  "mdb_add_size bls sz m =
     (case add_size_find bls sz m of
        None \<Rightarrow> None
      | Some (True, _) \<Rightarrow> Some m
      | Some (False, bl) \<Rightarrow> Some (set_raw (bl_size (bl_next bl)) 0 (set_raw (bl_size bl) sz m)))"

fun mdb_add_sizes :: "word_t \<Rightarrow> word_t list \<Rightarrow> memory \<Rightarrow> memory option" where
  "mdb_add_sizes bls [] m = Some m"
| "mdb_add_sizes bls (sz # szs) m =
     (case mdb_add_size bls sz m of None \<Rightarrow> None | Some m1 \<Rightarrow> mdb_add_sizes bls szs m1)"

partial_function (option) max_free_loop :: "word_t \<Rightarrow> word_t \<Rightarrow> word_t \<Rightarrow> word_t option" where
  "max_free_loop i sz n =
     (if i \<ge> sizeof_mdb_mng_t then max_free_loop (i - sz) sz (n + 1) else Some n)"

partial_function (option) buflist_init_loop :: "word_t \<Rightarrow> memory \<Rightarrow> memory option" where
  "buflist_init_loop bl m =
     (if mem m (bl_size bl) = 0 then Some m
      else let m1 = set_raw (bl_list_of_lists bl) 0 m; sz = mem m1 (bl_size bl)
           in if sz \<ge> MDB_ALLOC_CHUNKSZ then buflist_init_loop (bl_next bl) m1
              else (case max_free_loop (MDB_ALLOC_CHUNKSZ - sz) sz 0 of
                      None \<Rightarrow> None
                    | Some n \<Rightarrow> buflist_init_loop (bl_next bl) (set_raw (bl_max_free bl) n m1)))"

definition mdb_sizes :: "word_t list" where
  "mdb_sizes = sizeof_mapnode_t # sizeof_dualnode_t #
     map (\<lambda>i. push_bit (mdb_pgshifts (i + 1) - mdb_pgshifts i) 1 * sizeof_rootnode_t) [0..<MDB_NUM_PGSIZES]"

definition mdb_buflist_init :: "word_t \<Rightarrow> memory \<Rightarrow> memory option" where
  "mdb_buflist_init bls m =
     (case mdb_add_sizes bls mdb_sizes (set_raw (bl_size bls) 0 m) of
        None \<Rightarrow> None
      | Some m1 \<Rightarrow> buflist_init_loop bls m1)"

section \<open>Allocating and freeing\<close>

partial_function (option) find_buflist :: "word_t \<Rightarrow> word_t \<Rightarrow> memory \<Rightarrow> word_t option" where
  "find_buflist bl sz m =
     (if mem m (bl_size bl) = sz then Some bl
      else if mem m (bl_size bl) = 0 then None
      else find_buflist (bl_next bl) sz m)"

partial_function (option) link_buffers :: "word_t \<Rightarrow> word_t \<Rightarrow> word_t \<Rightarrow> memory \<Rightarrow> (word_t \<times> memory) option" where
  "link_buffers b ed sz m =
     (if b \<le> ed then link_buffers (b + sz) ed sz (set_raw b (b + sz) m) else Some (b, m))"

text \<open>A new page of buffers, put at the head of the list of pages.\<close>

definition mdb_new_page :: "word_t \<Rightarrow> word_t \<Rightarrow> memory \<Rightarrow> (word_t \<times> memory) option" where
  "mdb_new_page bl sz m =
     (case kmem_alloc MDB_ALLOC_CHUNKSZ m of
        None \<Rightarrow> None
      | Some (mng, m0) \<Rightarrow>
          let m1 = set_raw (mng_freelist mng) (mng + MDB_ALLOC_CHUNKSZ - mem m0 (bl_max_free bl) * sz) m0;
              m2 = set_raw (mng_num_free mng) (mem m1 (bl_max_free bl)) m1;
              m3 = set_raw (mng_prev_freelist mng) 0 m2;
              m4 = set_raw (mng_bl mng) bl m3
          in (case link_buffers (mem m4 (mng_freelist mng)) (mng + MDB_ALLOC_CHUNKSZ - sz) sz m4 of
                None \<Rightarrow> None
              | Some (b, m5) \<Rightarrow>
                  let m6 = set_raw (b - sz) 0 m5;
                      m7 = set_raw (mng_next_freelist mng) (mem m6 (bl_list_of_lists bl)) m6;
                      m8 = set_raw (bl_list_of_lists bl) mng m7;
                      m9 = (if mem m8 (mng_next_freelist mng) \<noteq> 0
                            then set_raw (mng_prev_freelist (mem m8 (mng_next_freelist mng))) mng m8 else m8)
                  in Some (mng, m9)))"

definition mdb_take_buffer :: "word_t \<Rightarrow> word_t \<Rightarrow> memory \<Rightarrow> word_t \<times> memory" where
  "mdb_take_buffer bl mng m =
     (let buf = mem m (mng_freelist mng);
          m1 = set_raw (mng_freelist mng) (mem m buf) m;
          m2 = set_raw (mng_num_free mng) (mem m1 (mng_num_free mng) - 1) m1;
          m3 = (if mem m2 (mng_num_free mng) = 0
                then let ma = set_raw (bl_list_of_lists bl) (mem m2 (mng_next_freelist mng)) m2
                     in if mem ma (bl_list_of_lists bl) \<noteq> 0
                        then set_raw (mng_prev_freelist (mem ma (bl_list_of_lists bl))) 0 ma else ma
                else m2)
      in (buf, m3))"

definition mdb_alloc_buffer :: "word_t \<Rightarrow> word_t \<Rightarrow> memory \<Rightarrow> (word_t \<times> memory) option" where
  "mdb_alloc_buffer bls sz m =
     (case find_buflist bls sz m of
        None \<Rightarrow> None
      | Some bl \<Rightarrow>
          if sz \<ge> MDB_ALLOC_CHUNKSZ then kmem_alloc sz m
          else if mem m (bl_list_of_lists bl) = 0
          then (case mdb_new_page bl sz m of
                  None \<Rightarrow> None
                | Some (mng, m1) \<Rightarrow> Some (mdb_take_buffer bl mng m1))
          else Some (mdb_take_buffer bl (mem m (bl_list_of_lists bl)) m))"

definition mdb_free_buffer :: "word_t \<Rightarrow> word_t \<Rightarrow> memory \<Rightarrow> memory option" where
  "mdb_free_buffer addr sz m =
     (if sz \<ge> MDB_ALLOC_CHUNKSZ then kmem_free addr sz m
      else
        let buf = addr;
            mng = addr AND NOT (MDB_ALLOC_CHUNKSZ - 1);
            bl = mem m (mng_bl mng);
            m1 = set_raw buf (mem m (mng_freelist mng)) m;
            m2 = set_raw (mng_freelist mng) buf m1;
            m3 = set_raw (mng_num_free mng) (mem m2 (mng_num_free mng) + 1) m2
        in if mem m3 (mng_num_free mng) = 1
           then let m4 = (if mem m3 (bl_list_of_lists bl) \<noteq> 0
                          then set_raw (mng_prev_freelist (mem m3 (bl_list_of_lists bl))) mng m3 else m3);
                    m5 = set_raw (mng_next_freelist mng) (mem m4 (bl_list_of_lists bl)) m4;
                    m6 = set_raw (mng_prev_freelist mng) 0 m5
                in Some (set_raw (bl_list_of_lists bl) mng m6)
           else if mem m3 (mng_num_free mng) = mem m3 (bl_max_free bl)
           then let nxt = mem m3 (mng_next_freelist mng);
                    m4 = (if nxt \<noteq> 0
                          then set_raw (mng_prev_freelist nxt) (mem m3 (mng_prev_freelist mng)) m3 else m3);
                    m5 = (if mem m4 (bl_list_of_lists bl) = mng
                          then set_raw (bl_list_of_lists bl) (mem m4 (mng_next_freelist mng)) m4
                          else if mem m4 (mng_prev_freelist mng) \<noteq> 0
                          then set_raw (mng_next_freelist (mem m4 (mng_prev_freelist mng)))
                                 (mem m4 (mng_next_freelist mng)) m4
                          else m4)
                in kmem_free mng MDB_ALLOC_CHUNKSZ m5
           else Some m3)"

section \<open>The array of buffer sizes\<close>

lemma mem_set_raw [simp]: "mem (set_raw a v m) = (mem m)(a := v)"
  by (simp add: set_raw_def)

lemma set_raw_collapse [simp]: "set_raw a v m = m\<lparr>mem := (mem m)(a := v)\<rparr>"
  by (simp add: set_raw_def)

lemma unat_small: "n \<le> 4096 \<Longrightarrow> unat (of_nat n :: word_t) = n"
  by (simp add: unat_of_nat take_bit_nat_eq_self)

lemma max_free_loop_count:
  assumes "0 < z" and "Suc mf * z \<le> 4096" and "4096 - Suc mf * z < 40" and "mf * z + 40 \<le> 4096"
  shows "j \<le> mf \<Longrightarrow> max_free_loop (of_nat (4096 - Suc j * z)) (of_nat z) (of_nat j) = Some (of_nat mf)"
proof (induction "mf - j" arbitrary: j)
  case 0
  then have "j = mf" by simp
  have "\<not> sizeof_mdb_mng_t \<le> of_nat (4096 - Suc mf * z)"
    using assms(3) unfolding word_le_nat_alt unat_small [OF diff_le_self] by (simp add: sizeof_mdb_mng_t_def)
  then show ?case unfolding \<open>j = mf\<close> by (subst max_free_loop.simps) simp
next
  case (Suc d)
  then have j: "Suc j \<le> mf" "d = mf - Suc j" by simp_all
  have "Suc j * z \<le> mf * z" "Suc (Suc j) * z \<le> Suc mf * z" using j(1) by (intro mult_right_mono; simp)+
  then have le: "40 \<le> 4096 - Suc j * z" "Suc j * z + z \<le> 4096" using assms(2,4) by simp_all
  then have "sizeof_mdb_mng_t \<le> of_nat (4096 - Suc j * z)"
    unfolding word_le_nat_alt unat_small [OF diff_le_self] by (simp add: sizeof_mdb_mng_t_def)
  moreover have "of_nat (4096 - Suc j * z) - of_nat z = (of_nat (4096 - Suc (Suc j) * z) :: word_t)"
  proof -
    have "4096 - Suc j * z - z = 4096 - Suc (Suc j) * z" by simp
    then show ?thesis using le(2) by (metis add_le_imp_le_diff of_nat_diff add.commute)
  qed
  ultimately show ?case
    using Suc.hyps(1) [OF j(2) j(1)] by (subst max_free_loop.simps) (simp add: add.commute)
qed

lemma max_free_values:
  "max_free_loop 4072 24 0 = Some 169" "max_free_loop 4080 16 0 = Some 253"
  "max_free_loop 4064 32 0 = Some 126" "max_free_loop 2048 2048 0 = Some 1"
  using max_free_loop_count [of 24 169 0] max_free_loop_count [of 16 253 0]
    max_free_loop_count [of 32 126 0] max_free_loop_count [of 2048 1 0] by simp_all

lemma mdb_sizes_list: "mdb_sizes = [24, 16, 32, 32, 32, 32, 32, 32, 2048, 4096]"
  by (simp add: mdb_sizes_def mdb_pgshifts_def hw_pgshifts_def MDB_NUM_PGSIZES_def sizeof_mapnode_t_def
      sizeof_dualnode_t_def sizeof_rootnode_t_def upt_rec push_bit_eq_mult)

lemma mdb_add_sizes_list:
  "mdb_add_sizes bls mdb_sizes (m\<lparr>mem := (mem m)(bls := 0)\<rparr>) = Some (m\<lparr>mem := (mem m)
     (bls := 24, bls + 24 := 16, bls + 48 := 32, bls + 72 := 2048, bls + 96 := 4096, bls + 120 := 0)\<rparr>)"
  unfolding mdb_sizes_list
  by (simp add: mdb_add_size_def add_size_find.simps mdb_layout add.assoc fun_upd_twist)

lemma mdb_buflist_init_result:
  "mdb_buflist_init bls m = Some (m\<lparr>mem := (mem m)
     (bls := 24, bls + 24 := 16, bls + 48 := 32, bls + 72 := 2048, bls + 96 := 4096, bls + 120 := 0,
      bls + 8 := 0, bls + 16 := 169, bls + 32 := 0, bls + 40 := 253, bls + 56 := 0, bls + 64 := 126,
      bls + 80 := 0, bls + 88 := 1, bls + 104 := 0)\<rparr>)"
  unfolding mdb_buflist_init_def
  by (simp add: mdb_layout mdb_add_sizes_list)
    (simp add: buflist_init_loop.simps mdb_layout add.assoc Let_def MDB_ALLOC_CHUNKSZ_def max_free_values)

end
