(* ===== verification/Mdb_Pool.thy ===== *)
theory Mdb_Pool
  imports Mdb_Alloc
begin

text \<open>
  The pages of the buffer allocator: which words they consist of, the invariant of the list of
  pages of one buffer size, and that \<^verbatim>\<open>mdb_alloc_buffer\<close> keeps it and hands out a buffer that is
  not in use.
\<close>

section \<open>Pages and their buffers\<close>

definition pgof :: "word_t \<Rightarrow> word_t" where "pgof x = x AND NOT 0xfff"

lemma pgof_eq: "pgof x = x - take_bit 12 x"
  using align_mask_mod [of x 12] by (simp add: pgof_def)

lemma pgof_pgof [simp]: "pgof (pgof x) = pgof x"
  by (simp add: pgof_def and.assoc)

lemma pgof_iff:
  assumes "pgof p = p"
  shows "pgof x = p \<longleftrightarrow> x - p < 4096"
proof
  assume "pgof x = p"
  then have "x - p = take_bit 12 x" by (simp add: pgof_eq algebra_simps)
  moreover have "unat (take_bit 12 x) < 2 ^ 12"
    unfolding unsigned_take_bit_eq by (rule take_bit_nat_less_exp)
  ultimately show "x - p < 4096" by (simp add: word_less_nat_alt)
next
  assume "x - p < 4096"
  then have d: "take_bit 12 (x - p) = x - p"
    by (intro take_bit_id_of_bound) (simp add: word_less_nat_alt)
  have m: "(0xfff :: word_t) = mask 12" by (simp add: mask_eq_exp_minus_1)
  have "pgof (p + take_bit 12 (x - p)) = p"
  proof -
    have b: "\<not> bit p i" if "i < 12" for i
    proof -
      have "bit p i = bit (p AND NOT (mask 12)) i" using assms unfolding pgof_def m by simp
      then show ?thesis using that by (simp add: bit_simps)
    qed
    have "p AND take_bit 12 (x - p) = 0" by (rule bit_eqI) (auto simp: bit_simps b)
    then have "p + take_bit 12 (x - p) = p OR take_bit 12 (x - p)" by (rule disjunctive_add_eq_or)
    then show ?thesis unfolding pgof_def m by (intro bit_eqI) (auto simp: bit_simps b)
  qed
  then show "pgof x = p" by (simp add: d)
qed

lemma pgof_add: "pgof p = p \<Longrightarrow> n < 4096 \<Longrightarrow> pgof (p + of_nat n) = p"
  by (simp add: pgof_iff word_less_nat_alt unat_of_nat take_bit_nat_eq_self)

lemma pgof_field:
  assumes "pgof p = p"
  shows "pgof (p + 8) = p" "pgof (p + 16) = p" "pgof (p + 24) = p" "pgof (p + 32) = p"
  using assms by (simp_all add: pgof_iff)

definition geom :: "nat \<Rightarrow> nat \<Rightarrow> bool" where
  "geom z mf \<longleftrightarrow> 16 \<le> z \<and> 8 dvd z \<and> 0 < mf \<and> mf * z + 40 \<le> 4096"

definition buffers :: "nat \<Rightarrow> nat \<Rightarrow> word_t \<Rightarrow> word_t list" where
  "buffers z mf p = map (\<lambda>k. p + of_nat (4096 - mf * z + k * z)) [0..<mf]"

lemma geom_off:
  assumes "geom z mf" and "k < mf"
  shows "40 \<le> 4096 - mf * z + k * z" "4096 - mf * z + k * z + z \<le> 4096" "8 dvd 4096 - mf * z + k * z"
proof -
  have g: "8 dvd z" "mf * z + 40 \<le> 4096" using assms(1) by (simp_all add: geom_def)
  have "Suc k * z \<le> mf * z" using assms(2) by (intro mult_right_mono) simp_all
  then show "4096 - mf * z + k * z + z \<le> 4096" using g(2) by simp
  show "40 \<le> 4096 - mf * z + k * z" using g(2) by simp
  have "8 dvd mf * z" "8 dvd k * z" using g(1) by simp_all
  then show "8 dvd 4096 - mf * z + k * z" by (intro dvd_add dvd_diff_nat) simp_all
qed

lemma buffers_off:
  assumes "geom z mf" and "b \<in> set (buffers z mf p)"
  shows "\<exists>n. b = p + of_nat n \<and> 40 \<le> n \<and> n + z \<le> 4096 \<and> 8 dvd n"
proof -
  obtain k where "k < mf" and "b = p + of_nat (4096 - mf * z + k * z)"
    using assms(2) unfolding buffers_def by auto
  then show ?thesis using geom_off [OF assms(1)] by blast
qed

lemma pgof_buffer:
  assumes "geom z mf" and "b \<in> set (buffers z mf p)" and "pgof p = p"
  shows "pgof b = p"
proof -
  obtain n where "b = p + of_nat n" "n + z \<le> 4096" using buffers_off [OF assms(1,2)] by auto
  then show ?thesis using pgof_add [OF assms(3), of n] assms(1) by (auto simp: geom_def)
qed

lemma offset_inj:
  assumes "p + of_nat m = p + (of_nat n :: word_t)" and "m < 2 ^ 64" and "n < 2 ^ 64"
  shows "m = n"
proof -
  have "unat (of_nat m :: word_t) = unat (of_nat n :: word_t)" using assms(1) by simp
  then show ?thesis using assms(2,3) by (simp add: unat_of_nat take_bit_nat_eq_self)
qed

lemma page_field: "pgof p = p \<Longrightarrow> i < 4096 \<Longrightarrow> pgof (p + i) = p"
  by (simp add: pgof_iff)

lemma field_neq:
  assumes "pgof p = p" and "pgof q = q" and "p \<noteq> q" and "i < 4096" and "j < 4096"
  shows "p + i \<noteq> q + j"
  using page_field [OF assms(1,4)] page_field [OF assms(2,5)] assms(3) by auto

lemma buffer_not_header:
  assumes "geom z mf" and "b \<in> set (buffers z mf p)" and "i < 40"
  shows "b \<noteq> p + i"
proof
  assume e: "b = p + i"
  obtain n where n: "b = p + of_nat n" "40 \<le> n" "n + z \<le> 4096" using buffers_off [OF assms(1,2)] by auto
  then have "i = of_nat n" using e by simp
  then show False using n assms(3) by (simp add: word_less_nat_alt unat_of_nat take_bit_nat_eq_self)
qed

lemma buffers_distinct: "geom z mf \<Longrightarrow> distinct (buffers z mf p)"
  unfolding buffers_def distinct_map
proof (intro conjI inj_onI)
  fix j k
  assume g: "geom z mf" and j: "j \<in> set [0..<mf]" and k: "k \<in> set [0..<mf]"
    and e: "p + of_nat (4096 - mf * z + j * z) = p + (of_nat (4096 - mf * z + k * z) :: word_t)"
  have "4096 - mf * z + j * z < 2 ^ 64" "4096 - mf * z + k * z < 2 ^ 64"
    using geom_off(2) [OF g, of j] geom_off(2) [OF g, of k] j k by auto
  from offset_inj [OF e this] show "j = k" using g by (simp add: geom_def)
qed simp

text \<open>A page \<^term>\<open>p\<close> with the free buffers \<^term>\<open>bs\<close>, and the list of pages.\<close>

definition pool :: "(word_t \<Rightarrow> word_t) \<Rightarrow> word_t \<Rightarrow> nat \<Rightarrow> nat \<Rightarrow> word_t \<Rightarrow> word_t list \<Rightarrow> bool" where
  "pool h bl z mf p bs \<longleftrightarrow> p \<noteq> 0 \<and> pgof p = p \<and> fseg h (h p) bs 0 \<and> distinct bs \<and>
     set bs \<subseteq> set (buffers z mf p) \<and> h (p + 8) = of_nat (length bs) \<and> h (p + 32) = bl"

fun plist :: "(word_t \<Rightarrow> word_t) \<Rightarrow> word_t \<Rightarrow> word_t \<Rightarrow> word_t list \<Rightarrow> bool" where
  "plist h a c [] \<longleftrightarrow> c = 0"
| "plist h a c (p # ps) \<longleftrightarrow> c = p \<and> p \<noteq> 0 \<and> h (p + 24) = a \<and> plist h p (h (p + 16)) ps"

lemma pool_cong:
  assumes "geom z mf"
    and "\<And>x. pgof x = p \<Longrightarrow> x \<noteq> p + 16 \<Longrightarrow> x \<noteq> p + 24 \<Longrightarrow> h' x = h x"
  shows "pool h' bl z mf p bs = pool h bl z mf p bs"
proof (cases "pgof p = p \<and> set bs \<subseteq> set (buffers z mf p)")
  case True
  have "h' x = h x" if "x \<in> set bs" for x
    using assms(2) [of x] True that pgof_buffer [OF assms(1), of x p] buffer_not_header [OF assms(1), of x p]
    by auto
  then have "fseg h' c bs 0 = fseg h c bs 0" for c by (rule fseg_cong)
  then show ?thesis using assms(2) [of p] assms(2) [of "p + 8"] assms(2) [of "p + 32"] True
    by (simp add: pool_def pgof_field)
qed (auto simp: pool_def)

lemma plist_cong:
  assumes "\<And>p. p \<in> set ps \<Longrightarrow> h' (p + 16) = h (p + 16) \<and> h' (p + 24) = h (p + 24)"
  shows "plist h' a c ps = plist h a c ps"
  using assms by (induction ps arbitrary: a c) auto

lemma plist_set_prev:
  assumes "plist h a c ps" and "distinct ps" and "\<forall>p \<in> set ps. pgof p = p"
  shows "plist (if c = 0 then h else h(c + 24 := a')) a' c ps"
proof (cases ps)
  case (Cons q qs)
  have n: "p + 16 \<noteq> q + 24" "p + 24 \<noteq> q + 24" if "p \<in> set qs" for p
    using that assms(2,3) Cons field_neq [of p q 16 24] by auto
  have "plist (h(q + 24 := a')) q (h (q + 16)) qs = plist h q (h (q + 16)) qs"
    using n by (intro plist_cong) auto
  then show ?thesis using assms(1) Cons by simp
qed (use assms(1) in simp)

text \<open>Unlinking a page, as the allocator does when all its buffers are free.\<close>

lemma plist_unlink:
  assumes "plist h a c (us @ p # vs)" and "distinct (us @ p # vs)" and "\<forall>q \<in> set (us @ p # vs). pgof q = q"
  defines "h1 \<equiv> (if h (p + 16) = 0 then h else h(h (p + 16) + 24 := h (p + 24)))"
  shows "if us = [] then plist h1 a (h (p + 16)) vs
         else h (p + 24) = last us \<and> plist (h1(last us + 16 := h (p + 16))) a c (us @ vs)"
  using assms(1-3) unfolding h1_def
proof (induction us arbitrary: a c)
  case Nil
  then have l: "plist h p (h (p + 16)) vs" and a: "h (p + 24) = a" and d: "distinct vs" "\<forall>q \<in> set vs. pgof q = q"
    by auto
  show ?case using plist_set_prev [OF l d, of a] by (simp add: a split: if_splits)
next
  case (Cons u us)
  let ?n = "h (p + 16)" and ?h1 = "if h (p + 16) = 0 then h else h(h (p + 16) + 24 := h (p + 24))"
  have pre: "plist h u (h (u + 16)) (us @ p # vs)" "distinct (us @ p # vs)" "\<forall>q \<in> set (us @ p # vs). pgof q = q"
    and u: "c = u" "u \<noteq> 0" "h (u + 24) = a" "u \<notin> set (us @ p # vs)" "pgof u = u"
    using Cons.prems by auto
  have nn: "?n = 0 \<or> ?n \<in> set vs"
  proof -
    obtain a' where "plist h a' ?n vs" using pre(1) by (induction us arbitrary: u) auto
    then show ?thesis by (cases vs) auto
  qed
  then have ne: "?n \<noteq> 0 \<Longrightarrow> pgof ?n = ?n \<and> ?n \<noteq> u" using pre(3) u(4) by auto
  then have un: "?n \<noteq> 0 \<Longrightarrow> u + 16 \<noteq> ?n + 24 \<and> u + 24 \<noteq> ?n + 24"
    using field_neq [OF u(5), of ?n 16 24] by auto
  show ?case
  proof (cases "us = []")
    case True
    have "plist ?h1 u ?n vs" using Cons.IH [OF pre] True u by (auto simp: fun_upd_def)
    moreover have "h (p + 24) = u" using pre(1) True by simp
    moreover have "plist (?h1(u + 16 := ?n)) u ?n vs = plist ?h1 u ?n vs"
    proof (rule plist_cong, intro conjI fun_upd_other)
      fix q assume "q \<in> set vs"
      then have "pgof q = q" "q \<noteq> u" using pre(3) u(4) by auto
      then show "q + 16 \<noteq> u + 16" "q + 24 \<noteq> u + 16" using field_neq [of q u 24 16] u(5) by auto
    qed
    ultimately show ?thesis using u un True by auto
  next
    case False
    have IH: "h (p + 24) = last us" "plist (?h1(last us + 16 := ?n)) u (h (u + 16)) (us @ vs)"
      using Cons.IH [OF pre] False by auto
    have "last us \<in> set us" using False by simp
    then have "pgof (last us) = last us" "last us \<noteq> u" using pre(3) u(4) by auto
    then have "u + 16 \<noteq> last us + 16" "u + 24 \<noteq> last us + 16" using field_neq [OF u(5), of "last us" 24 16] by auto
    then show ?thesis using IH u un False by auto
  qed
qed

section \<open>The buffer list of one size\<close>

text \<open>The pages on the list with their free buffers, and the set of pages without free buffers.\<close>

definition buflist_inv ::
  "(word_t \<Rightarrow> word_t) \<Rightarrow> word_t \<Rightarrow> nat \<Rightarrow> nat \<Rightarrow> (word_t \<times> word_t list) list \<Rightarrow> word_t set \<Rightarrow> bool" where
  "buflist_inv h bl z mf ps fs \<longleftrightarrow> geom z mf \<and> h bl = of_nat z \<and> h (bl + 16) = of_nat mf \<and>
     plist h 0 (h (bl + 8)) (map fst ps) \<and> (\<forall>p bs. (p, bs) \<in> set ps \<longrightarrow> pool h bl z mf p bs \<and> bs \<noteq> []) \<and>
     (\<forall>p \<in> fs. pool h bl z mf p []) \<and> distinct (map fst ps) \<and> fst ` set ps \<inter> fs = {} \<and>
     {pgof bl, pgof (bl + 8), pgof (bl + 16)} \<inter> (fst ` set ps \<union> fs) = {}"

text \<open>The words of the management structures of the pages \<^term>\<open>P\<close>.\<close>

definition hdr :: "word_t set \<Rightarrow> word_t \<Rightarrow> bool" where
  "hdr P x \<longleftrightarrow> pgof x \<in> P \<and> x - pgof x < 40"

lemma hdr_field: "pgof p = p \<Longrightarrow> p \<in> P \<Longrightarrow> i < 40 \<Longrightarrow> hdr P (p + i)"
  using page_field [of p i] order.strict_trans [of i 40 4096] by (simp add: hdr_def)

lemma pool_other:
  assumes "geom z mf" and "\<And>x. h' x \<noteq> h x \<Longrightarrow> x = c \<or> pgof x = p \<or> (\<exists>q. pgof q = q \<and> (x = q + 16 \<or> x = q + 24))"
    and "q \<noteq> p" and "pgof c \<noteq> q"
  shows "pool h' bl z mf q bs = pool h bl z mf q bs"
proof (rule pool_cong [OF assms(1)])
  fix x
  assume x: "pgof x = q" "x \<noteq> q + 16" "x \<noteq> q + 24"
  have False if "pgof r = r" "x = r + 16 \<or> x = r + 24" for r
    using that x pgof_field [OF that(1)] by auto
  then show "h' x = h x" using assms(2) [of x] assms(3,4) x(1) by blast
qed

lemma buflist_invD:
  assumes "buflist_inv h bl z mf ps fs"
  shows "geom z mf" "h bl = of_nat z" "h (bl + 16) = of_nat mf" "plist h 0 (h (bl + 8)) (map fst ps)"
    "\<And>p bs. (p, bs) \<in> set ps \<Longrightarrow> pool h bl z mf p bs \<and> bs \<noteq> []" "\<And>p. p \<in> fs \<Longrightarrow> pool h bl z mf p []"
    "distinct (map fst ps)" "\<And>p bs. (p, bs) \<in> set ps \<Longrightarrow> p \<notin> fs"
    "\<And>p. p \<in> fst ` set ps \<union> fs \<Longrightarrow> pgof p = p \<and> pgof bl \<noteq> p \<and> pgof (bl + 8) \<noteq> p \<and> pgof (bl + 16) \<noteq> p"
proof -
  show "geom z mf" "h bl = of_nat z" "h (bl + 16) = of_nat mf" "plist h 0 (h (bl + 8)) (map fst ps)"
    and 1: "\<And>p bs. (p, bs) \<in> set ps \<Longrightarrow> pool h bl z mf p bs \<and> bs \<noteq> []" and 2: "\<And>p. p \<in> fs \<Longrightarrow> pool h bl z mf p []"
    and "distinct (map fst ps)"
    using assms by (simp_all add: buflist_inv_def)
  show "p \<notin> fs" if "(p, bs) \<in> set ps" for p bs
    using assms that by (force simp: buflist_inv_def)
  fix p assume p: "p \<in> fst ` set ps \<union> fs"
  then have "pgof p = p" using 1 2 by (auto simp: pool_def)
  moreover have "{pgof bl, pgof (bl + 8), pgof (bl + 16)} \<inter> (fst ` set ps \<union> fs) = {}"
    using assms unfolding buflist_inv_def by blast
  ultimately show "pgof p = p \<and> pgof bl \<noteq> p \<and> pgof (bl + 8) \<noteq> p \<and> pgof (bl + 16) \<noteq> p" using p by blast
qed

lemma buflist_inv_bl:
  "buflist_inv h bl z mf ps fs \<Longrightarrow> {pgof bl, pgof (bl + 8), pgof (bl + 16)} \<inter> (fst ` set ps \<union> fs) = {}"
  unfolding buflist_inv_def by blast

lemma geom_size: "geom z mf \<Longrightarrow> unat (of_nat z :: word_t) = z \<and> unat (of_nat mf :: word_t) = mf \<and> mf \<le> 4096 \<and> z \<le> 4096"
proof -
  assume g: "geom z mf"
  have "mf * 1 \<le> mf * z" "1 * z \<le> mf * z" using g by (intro mult_mono; simp add: geom_def)+
  then have "mf \<le> 4096" "z \<le> 4096" using g unfolding geom_def by linarith+
  then show ?thesis by (simp add: unat_of_nat take_bit_nat_eq_self)
qed

lemma small_of_nat_0: "n < 2 ^ 64 \<Longrightarrow> (of_nat n :: word_t) = 0 \<longleftrightarrow> n = 0"
  unfolding unat_eq_0 [symmetric] by (simp add: unat_of_nat take_bit_nat_eq_self)

lemma take_buffer_spec:
  assumes inv: "buflist_inv (mem m) bl z mf ((p, b # bs) # ps) fs"
  shows "\<exists>h'. mdb_take_buffer bl p m = (b, m\<lparr>mem := h'\<rparr>) \<and>
    buflist_inv h' bl z mf (if bs = [] then ps else (p, bs) # ps) (if bs = [] then insert p fs else fs) \<and>
    (\<forall>x. h' x \<noteq> mem m x \<longrightarrow> x = bl + 8 \<or> hdr (insert p (fst ` set ps)) x)"
proof -
  note I = buflist_invD [OF inv]
  define h where "h = mem m"
  let ?n = "h (p + 16)"
  have P: "pool h bl z mf p (b # bs)" using I(5) [of p "b # bs"] by (simp add: h_def)
  then have f: "h p = b" "fseg h (h b) bs 0" "h (p + 8) = 1 + of_nat (length bs)" "h (p + 32) = bl" "p \<noteq> 0"
      "pgof p = p" "distinct (b # bs)" "set (b # bs) \<subseteq> set (buffers z mf p)"
    by (auto simp: pool_def)
  have bl: "bl + 8 \<noteq> p + i" "bl \<noteq> p + i" "bl + 16 \<noteq> p + i" if "i < 40" for i
    using I(9) [of p] page_field [OF f(6), of i] that by (auto simp: word_less_nat_alt)
  have l: "plist h p ?n (map fst ps)" "h (bl + 8) = p" using I(4) by (auto simp: h_def)
  have ps: "distinct (map fst ps)" "\<forall>q \<in> set (map fst ps). pgof q = q" "p \<notin> set (map fst ps)"
    using I(7,9) by auto
  have lb: "length bs < 2 ^ 64"
  proof -
    have "length bs \<le> card (set (buffers z mf p))"
      using f(7,8) card_mono [of "set (buffers z mf p)" "set bs"] distinct_card [of bs] by auto
    also have "\<dots> \<le> mf" using card_length [of "buffers z mf p"] by (simp add: buffers_def)
    finally show ?thesis using geom_size [OF I(1)] by simp
  qed
  define h2 where "h2 = h(p := h b, p + 8 := of_nat (length bs))"
  define h3 where "h3 = h2(bl + 8 := ?n)"
  define h4 where "h4 = (if ?n = 0 then h3 else h3(?n + 24 := 0))"
  have z0: "(of_nat (length bs) :: word_t) = 0 \<longleftrightarrow> bs = []"
    using small_of_nat_0 [OF lb] by simp
  have ne: "?n \<noteq> 0 \<Longrightarrow> ?n \<in> set (map fst ps)" using l(1) by (cases ps) auto
  have run: "mdb_take_buffer bl p m = (b, m\<lparr>mem := if bs = [] then h4 else h2\<rparr>)"
    using bl [of 0] bl [of 8] bl [of 16] f
    by (auto simp: mdb_take_buffer_def mdb_layout Let_def h_def [symmetric] h2_def h3_def h4_def z0)
  have fr: "x = bl + 8 \<or> pgof x = p \<or> (\<exists>q. pgof q = q \<and> (x = q + 16 \<or> x = q + 24))"
    if "(if bs = [] then h4 else h2) x \<noteq> h x" for x
    using that f(6) ps(2) ne pgof_field [OF f(6)]
    by (auto simp: h2_def h3_def h4_def split: if_splits)
  define h' where "h' = (if bs = [] then h4 else h2)"
  have nbl: "?n \<noteq> 0 \<Longrightarrow> pgof (?n + 24) \<noteq> pgof bl \<and> pgof (?n + 24) \<noteq> pgof (bl + 8) \<and> pgof (?n + 24) \<noteq> pgof (bl + 16) \<and> pgof (?n + 24) \<noteq> p"
  proof -
    assume "?n \<noteq> 0"
    then have i: "?n \<in> set (map fst ps)" by (rule ne)
    then have "pgof ?n = ?n" "?n \<noteq> p" using ps(2,3) by metis+
    moreover have "?n \<in> fst ` set ((p, b # bs) # ps) \<union> fs" using i by auto
    ultimately show ?thesis using page_field [of ?n 24] I(9) [of ?n] by auto
  qed
  then have nbl': "?n \<noteq> 0 \<Longrightarrow> bl \<noteq> ?n + 24 \<and> bl + 8 \<noteq> ?n + 24 \<and> bl + 16 \<noteq> ?n + 24 \<and> p \<noteq> ?n + 24 \<and> p + 8 \<noteq> ?n + 24"
    using f(6) pgof_field(1) [OF f(6)] by metis
  have hbl: "h' bl = of_nat z" "h' (bl + 16) = of_nat mf" "h' (bl + 8) = (if bs = [] then ?n else p)"
    using bl [of 0] bl [of 8] nbl' I(2,3) l(2)
    by (auto simp: h'_def h4_def h3_def h2_def h_def [symmetric])
  have q: "q + 16 \<noteq> p" "q + 24 \<noteq> p" "q + 16 \<noteq> p + 8" "q + 24 \<noteq> p + 8" "q + 16 \<noteq> bl + 8" "q + 24 \<noteq> bl + 8"
    if "q \<in> set (map fst ps)" for q
  proof -
    have "pgof (q + 16) = q" "pgof (q + 24) = q" "q \<noteq> p" "pgof (bl + 8) \<noteq> q"
      using that ps I(9) [of q] pgof_field [of q] by auto
    then show "q + 16 \<noteq> p" "q + 24 \<noteq> p" "q + 16 \<noteq> p + 8" "q + 24 \<noteq> p + 8" "q + 16 \<noteq> bl + 8" "q + 24 \<noteq> bl + 8"
      using f(6) pgof_field(1) [OF f(6)] by metis+
  qed
  have pl: "plist h' 0 (h' (bl + 8)) (map fst (if bs = [] then ps else (p, bs) # ps))"
  proof (cases "bs = []")
    case True
    have "plist h3 p ?n (map fst ps)" using q l(1) by (subst plist_cong [of _ _ h]) (auto simp: h3_def h2_def)
    from plist_set_prev [OF this ps(1,2), of 0] show ?thesis using True hbl by (simp add: h'_def h4_def split: if_splits)
  next
    case False
    have "plist h2 p ?n (map fst ps)" using q l(1) by (subst plist_cong [of _ _ h]) (auto simp: h2_def)
    then show ?thesis using False hbl f(5) l I(4) by (auto simp: h'_def h2_def h_def)
  qed
  have oth: "pool h' bl z mf r rs = pool h bl z mf r rs" if "r \<noteq> p" "r \<in> fst ` set ps \<union> fs" for r rs
    by (rule pool_other [OF I(1), of _ _ "bl + 8" p]) (use fr that I(9) [of r] in \<open>auto simp: h'_def\<close>)
  have keep: "h' x = h x" if "pgof x = p" "x \<noteq> p" "x \<noteq> p + 8" for x
    using that bl nbl I(9) [of p] by (auto simp: h'_def h4_def h3_def h2_def)
  have "fseg h' (h b) bs 0 = fseg h (h b) bs 0"
  proof (rule fseg_cong, rule keep)
    fix x assume "x \<in> set bs"
    then have "x \<in> set (buffers z mf p)" using f(8) by auto
    then show "pgof x = p" "x \<noteq> p" "x \<noteq> p + 8"
      using pgof_buffer [OF I(1) _ f(6)] buffer_not_header [OF I(1), of x p 0] buffer_not_header [OF I(1), of x p 8] by auto
  qed
  moreover have "h' p = h b" "h' (p + 8) = of_nat (length bs)" "h' (p + 32) = bl"
    using keep [of "p + 32"] pgof_field(4) [OF f(6)] f(4) bl(1) [of 0] bl(1) [of 8] nbl'
    by (simp_all add: h'_def h4_def h3_def h2_def)
  ultimately have pp: "pool h' bl z mf p bs" using f by (simp add: pool_def)
  have "buflist_inv h' bl z mf (if bs = [] then ps else (p, bs) # ps) (if bs = [] then insert p fs else fs)"
  proof -
    have "(r, rs) \<in> set ps \<Longrightarrow> pool h' bl z mf r rs \<and> rs \<noteq> []" for r rs
      using oth [of r rs] I(5) [of r rs] ps(3) by (force simp: h_def)
    moreover have "r \<in> fs \<Longrightarrow> pool h' bl z mf r []" for r
      using oth [of r "[]"] I(6) [of r] I(8) [of p "b # bs"] by (auto simp: h_def)
    moreover have "fst ` set ps \<inter> fs = {}" "p \<notin> fs" using I(8) by force+
    moreover have "{pgof bl, pgof (bl + 8), pgof (bl + 16)} \<inter> (insert p (fst ` set ps \<union> fs)) = {}"
      using I(9) by auto
    ultimately show ?thesis using I(1) hbl(1,2) pl pp ps(1,3) by (auto simp: buflist_inv_def)
  qed
  moreover have "x = bl + 8 \<or> hdr (insert p (fst ` set ps)) x" if "h' x \<noteq> h x" for x
    using that hdr_field [OF f(6), of "insert p (fst ` set ps)" 0] hdr_field [OF f(6), of "insert p (fst ` set ps)" 8]
      hdr_field [of ?n "insert p (fst ` set ps)" 24] ne ps(2)
    by (auto simp: h'_def h4_def h3_def h2_def split: if_splits)
  ultimately show ?thesis using run unfolding h'_def [symmetric] h_def by blast
qed

section \<open>A new page\<close>

lemma unat_off: "unat p + 4096 < 2 ^ 64 \<Longrightarrow> n \<le> 4096 \<Longrightarrow> unat (p + of_nat n) = unat p + n" for p :: word_t
  by (subst unat_add_small) (simp_all add: unat_of_nat take_bit_nat_eq_self)

lemma link_buffers_run:
  assumes p: "unat p + 4096 < 2 ^ 64" and z: "0 < z" "z \<le> 4096" and "a + n * z = 4096"
  shows "\<exists>h'. link_buffers (p + of_nat a) (p + of_nat (4096 - z)) (of_nat z) m = Some (p + 4096, m\<lparr>mem := h'\<rparr>) \<and>
    (\<forall>k<n. h' (p + of_nat (a + k * z)) = p + of_nat (a + Suc k * z)) \<and>
    (\<forall>x. (\<forall>k<n. x \<noteq> p + of_nat (a + k * z)) \<longrightarrow> h' x = mem m x)"
  using assms(4)
proof (induction n arbitrary: a m)
  case 0
  then have "\<not> p + of_nat a \<le> p + of_nat (4096 - z)"
    using unat_off [OF p, of "4096 - z"] unat_off [OF p, of a] z by (simp add: word_le_nat_alt)
  then show ?case using 0 by (subst link_buffers.simps) (auto intro: exI [of _ "mem m"])
next
  case (Suc n)
  let ?b = "p + of_nat a" and ?h = "(mem m)(p + of_nat a := p + of_nat (a + z))"
  have a: "a + z \<le> 4096" "a + z + n * z = 4096" using Suc.prems by auto
  have le: "?b \<le> p + of_nat (4096 - z)"
    using unat_off [OF p, of "4096 - z"] unat_off [OF p, of a] a by (simp add: word_le_nat_alt)
  have nx: "?b + of_nat z = p + of_nat (a + z)" by simp
  obtain h' where h': "link_buffers (p + of_nat (a + z)) (p + of_nat (4096 - z)) (of_nat z) (m\<lparr>mem := ?h\<rparr>) =
      Some (p + 4096, m\<lparr>mem := h'\<rparr>)"
    "\<forall>k<n. h' (p + of_nat (a + z + k * z)) = p + of_nat (a + z + Suc k * z)"
    "\<forall>x. (\<forall>k<n. x \<noteq> p + of_nat (a + z + k * z)) \<longrightarrow> h' x = ?h x"
    using Suc.IH [OF a(2), of "m\<lparr>mem := ?h\<rparr>"] by auto
  have step: "link_buffers ?b (p + of_nat (4096 - z)) (of_nat z) m = Some (p + 4096, m\<lparr>mem := h'\<rparr>)"
    using le h'(1) unfolding link_buffers.simps [of ?b] nx set_raw_collapse by simp
  have nb: "?b \<noteq> p + of_nat (a + z + k * z)" if "k < n" for k
  proof
    assume e: "?b = p + of_nat (a + z + k * z)"
    have "Suc k * z \<le> n * z" using that by (intro mult_right_mono) simp_all
    then have "a + z + k * z \<le> 4096" using a(2) by simp
    then show False using offset_inj [OF e] z a by simp
  qed
  have "h' (p + of_nat (a + k * z)) = p + of_nat (a + Suc k * z)" if "k < Suc n" for k
  proof (cases k)
    case 0
    then show ?thesis using h'(3) nb by simp
  next
    case (Suc j)
    have "a + Suc j * z = a + z + j * z" "a + Suc (Suc j) * z = a + z + Suc j * z" by simp_all
    then show ?thesis using h'(2) [rule_format, of j] that unfolding Suc by (metis Suc_less_eq)
  qed
  moreover have "h' x = mem m x" if x: "\<forall>k<Suc n. x \<noteq> p + of_nat (a + k * z)" for x
  proof -
    have "x \<noteq> p + of_nat (a + z + k * z)" if "k < n" for k
      using x [rule_format, of "Suc k"] that by (simp add: add.assoc)
    moreover have "x \<noteq> ?b" using x [rule_format, of 0] by simp
    ultimately show ?thesis using h'(3) by simp
  qed
  ultimately show ?case using step by blast
qed

lemma fseg_map:
  assumes "\<And>k. i \<le> k \<Longrightarrow> k < n \<Longrightarrow> f k \<noteq> 0 \<and> h (f k) = f (Suc k)" and "i \<le> n"
  shows "fseg h (f i) (map f [i..<n]) (f n)"
  using assms
proof (induction "n - i" arbitrary: i)
  case (Suc d)
  then have "i < n" by simp
  moreover have "fseg h (f (Suc i)) (map f [Suc i..<n]) (f n)" using Suc by simp
  ultimately show ?case using Suc.prems(1) [of i] by (simp add: upt_conv_Cons)
qed simp

lemma page_chunks:
  assumes "pgof c = c" and "x AND 0x3ff = 0" and "pgof x = c"
  shows "x \<in> set (run c 4)"
proof -
  have m: "(0x3ff :: word_t) = mask 10" "(0xfff :: word_t) = mask 12" by (simp_all add: mask_eq_exp_minus_1)
  have "c AND mask 10 = (c AND NOT (mask 12)) AND mask 10" using assms(1) by (simp add: pgof_def m)
  also have "\<dots> = 0" by (rule bit_eqI) (auto simp: bit_simps)
  finally have "c AND 0x3ff = 0" by (simp only: m)
  moreover have "unat (x - c) < 4 * 1024"
    using assms(1,3) pgof_iff [of c x] by (simp add: word_less_nat_alt)
  ultimately show ?thesis using in_run_offset [of x c 4] assms(2) by simp
qed

lemma kmem_page:
  assumes "free_list m xs" and "kmem_alloc MDB_ALLOC_CHUNKSZ m = Some (c, m')"
  shows "\<exists>us w ws. xs = us @ run c 4 @ w # ws \<and> free_list m' (us @ w # ws)" "pgof c = c" "c \<noteq> 0"
    "c \<in> set xs" "unat c + 4096 < 2 ^ 64" "\<forall>x. mem m' x \<noteq> mem m x \<longrightarrow> x \<in> set xs \<or> pgof x = c"
proof -
  have sz: "MDB_ALLOC_CHUNKSZ = of_nat 4 * KMEM_CHUNKSIZE" by (simp add: MDB_ALLOC_CHUNKSZ_def KMEM_CHUNKSIZE_def)
  obtain us w ws where r: "xs = us @ run c 4 @ w # ws" "c AND (MDB_ALLOC_CHUNKSZ - 1) = 0"
      "free_list m' (us @ w # ws)" "\<forall>x. x \<in> set us \<or> x - c < MDB_ALLOC_CHUNKSZ \<or> mem m' x = mem m x"
    using kmem_alloc_result [OF assms(1) _ _ sz assms(2)] by auto
  then show "\<exists>us w ws. xs = us @ run c 4 @ w # ws \<and> free_list m' (us @ w # ws)" by blast
  show c: "pgof c = c" using r(2) and_not_eq_self [of c "0xfff"] by (simp add: pgof_def MDB_ALLOC_CHUNKSZ_def)
  have run: "run c 4 = [c, c + 1024, c + 1024 + 1024, c + 1024 + 1024 + 1024]"
    by (simp add: numeral_eq_Suc KMEM_CHUNKSIZE_def)
  show cx: "c \<in> set xs" unfolding r(1) run by simp
  then show "c \<noteq> 0" using assms(1) fseg_nonzero by (auto simp: free_list_def)
  show "\<forall>x. mem m' x \<noteq> mem m x \<longrightarrow> x \<in> set xs \<or> pgof x = c"
    using r(4) pgof_iff [OF c] unfolding r(1) MDB_ALLOC_CHUNKSZ_def by auto
  have s: "sorted_wrt (<) xs" and al: "\<forall>x \<in> set xs. x AND 0x3ff = 0" using assms(1) by (auto simp: free_list_def)
  have "unat c + 3072 < unat w"
  proof -
    have "sorted_wrt (<) (run c 4)" using s unfolding r(1) by (auto simp: sorted_wrt_append)
    then have "unat c + 4 * 1024 \<le> 2 ^ 64" using run_nowrap cx al by blast
    then have "unat (c + of_nat 3 * KMEM_CHUNKSIZE) = unat c + 3072" using unat_chunk [of c 3] by simp
    moreover have "c + of_nat 3 * KMEM_CHUNKSIZE < w"
    proof -
      have "c + of_nat 3 * KMEM_CHUNKSIZE \<in> set (run c 4)" unfolding in_run by (intro exI [of _ 3]) simp
      then show ?thesis using s unfolding r(1) by (auto simp: sorted_wrt_append)
    qed
    ultimately show ?thesis by (simp add: word_less_nat_alt)
  qed
  moreover have "unat w mod 1024 = 0" "unat c mod 1024 = 0" using al cx unfolding aligned_mod [symmetric] r(1) by auto
  then obtain i j where ij: "unat w = 1024 * i" "unat c = 1024 * j" by (auto elim!: dvdE)
  ultimately have "j + 3 < i" by linarith
  then have "unat c + 4096 \<le> unat w" unfolding ij by linarith
  then show "unat c + 4096 < 2 ^ 64" using unat_lt64 [of w] by simp
qed

lemma buffers_pool:
  assumes g: "geom z mf" and c: "pgof c = c" "unat c + 4096 < 2 ^ 64" "c \<noteq> 0"
    and l: "\<forall>k<mf. h (c + of_nat (4096 - mf * z + k * z)) = c + of_nat (4096 - mf * z + Suc k * z)"
  shows "fseg (h(c + of_nat (4096 - z) := 0)) (c + of_nat (4096 - mf * z)) (buffers z mf c) 0"
proof -
  let ?f = "\<lambda>k. c + of_nat (4096 - mf * z + k * z) :: word_t"
  have nz: "?f k \<noteq> 0" if "k < mf" for k
  proof -
    have "unat (?f k) = unat c + (4096 - mf * z + k * z)"
      using geom_off(2) [OF g that] by (intro unat_off [OF c(2)]) simp
    then show ?thesis using c(3) by (metis add_is_0 unat_eq_0)
  qed
  have "fseg h (?f 0) (map ?f [0..<mf]) (?f mf)" by (rule fseg_map) (use nz l in auto)
  moreover have "buffers z mf c \<noteq> []" using g by (simp add: buffers_def geom_def)
  ultimately have "fseg (h(last (buffers z mf c) := 0)) (?f 0) (buffers z mf c) 0"
    using fseg_relink buffers_distinct [OF g] unfolding buffers_def by blast
  moreover have "last (buffers z mf c) = ?f (mf - 1)"
    using g by (simp add: buffers_def last_map geom_def)
  moreover have "4096 - mf * z + (mf - 1) * z = 4096 - z"
    using g by (cases mf) (auto simp: geom_def)
  ultimately show ?thesis by (simp del: of_nat_add of_nat_mult)
qed

lemma new_page_spec:
  assumes inv: "buflist_inv (mem m) bl z mf [] fs" and fl: "free_list m xs"
    and dis: "pgof ` set xs \<inter> ({pgof bl, pgof (bl + 8), pgof (bl + 16)} \<union> fs) = {}"
    and al: "kmem_alloc MDB_ALLOC_CHUNKSZ m = Some (c, m0)"
  shows "\<exists>h'. mdb_new_page bl (of_nat z) m = Some (c, m0\<lparr>mem := h'\<rparr>) \<and>
    buflist_inv h' bl z mf [(c, buffers z mf c)] fs \<and>
    (\<forall>x. h' x \<noteq> mem m0 x \<longrightarrow> x = bl + 8 \<or> pgof x = c)"
proof -
  note I = buflist_invD [OF inv] and K = kmem_page [OF fl al]
  define h where "h = mem m0"
  have cx: "c \<notin> fs" "pgof bl \<noteq> c" "pgof (bl + 8) \<noteq> c" "pgof (bl + 16) \<noteq> c"
    using dis K(2,4) by (auto dest!: imageI [of c "set xs" pgof])
  have bl: "bl + 8 \<noteq> c + i" "bl \<noteq> c + i" "bl + 16 \<noteq> c + i" if "i < 4096" for i
    using cx page_field [OF K(2) that] by auto
  have hb: "h bl = of_nat z" "h (bl + 16) = of_nat mf" "h (bl + 8) = 0"
    using K(6) dis cx I(2-4) by (force simp: h_def)+
  have hf: "pool h bl z mf p [] = pool (mem m) bl z mf p []" if "p \<in> fs" for p
    using K(6) dis cx that by (intro pool_cong [OF I(1)]) (force simp: h_def)
  note g = geom_size [OF I(1)]
  define h4 where "h4 = h(c := c + of_nat (4096 - mf * z), c + 8 := of_nat mf, c + 24 := 0, c + 32 := bl)"
  have st: "c + 4096 - of_nat mf * of_nat z = c + of_nat (4096 - mf * z)"
    using I(1) by (simp add: geom_def of_nat_diff)
  have ed: "c + 4096 - of_nat z = c + of_nat (4096 - z)" using g by (simp add: of_nat_diff)
  have "4096 - mf * z + mf * z = 4096" "0 < z" "z \<le> 4096" using I(1) g by (auto simp: geom_def)
  from link_buffers_run [OF K(5) this(2,3,1), of "m0\<lparr>mem := h4\<rparr>"]
  obtain h5 where h5: "link_buffers (c + of_nat (4096 - mf * z)) (c + of_nat (4096 - z)) (of_nat z) (m0\<lparr>mem := h4\<rparr>) =
      Some (c + 4096, m0\<lparr>mem := h5\<rparr>)"
    "\<forall>k<mf. h5 (c + of_nat (4096 - mf * z + k * z)) = c + of_nat (4096 - mf * z + Suc k * z)"
    "\<forall>x. (\<forall>k<mf. x \<noteq> c + of_nat (4096 - mf * z + k * z)) \<longrightarrow> h5 x = h4 x" by auto
  have h5x: "h5 x = h4 x" if "x \<notin> set (buffers z mf c)" for x
    using h5(3) that by (auto simp: buffers_def image_iff simp del: of_nat_add of_nat_mult)
  have lastb: "c + of_nat (4096 - z) \<in> set (buffers z mf c)"
  proof -
    have "4096 - z = 4096 - mf * z + (mf - 1) * z" using I(1) by (cases mf) (auto simp: geom_def)
    then show ?thesis using I(1) unfolding buffers_def by (auto simp: geom_def image_iff intro!: bexI [of _ "mf - 1"])
  qed
  define h' where "h' = h5(c + of_nat (4096 - z) := 0, c + 16 := 0, bl + 8 := c)"
  have nb: "c + i \<notin> set (buffers z mf c)" if "i < 40" for i using buffer_not_header [OF I(1) _ that] by auto
  have blb: "x \<notin> set (buffers z mf c)" if "pgof x \<noteq> c" for x using pgof_buffer [OF I(1) _ K(2), of x] that by auto
  have run: "mdb_new_page bl (of_nat z) m = Some (c, m0\<lparr>mem := h'\<rparr>)"
  proof -
    have "h4 (bl + 8) = 0" using hb(3) bl(1) [of 0] bl(1) [of 8] bl(1) [of 24] bl(1) [of 32] by (simp add: h4_def)
    then have "h5 (bl + 8) = 0" "bl + 8 \<noteq> c + of_nat (4096 - z)" "c + 16 \<noteq> bl + 8"
      using h5x blb [OF cx(3)] lastb bl(1) [of 16] by auto
    then show ?thesis
      using al h5(1) hb(2) bl(3) [of 0] bl(3) [of 8]
      by (simp add: mdb_new_page_def mdb_layout Let_def MDB_ALLOC_CHUNKSZ_def h_def [symmetric] st ed
          h4_def [symmetric] h'_def)
  qed
  have hx: "h' x = h5 x" if "x \<noteq> c + of_nat (4096 - z)" "x \<noteq> c + 16" "x \<noteq> bl + 8" for x
    using that by (simp add: h'_def)
  have keep: "h' x = h4 x" if "x \<notin> set (buffers z mf c)" "x \<noteq> c + 16" "x \<noteq> bl + 8" for x
    using hx [of x] h5x [OF that(1)] that lastb by auto
  have far: "h' x = h x" if "pgof x \<noteq> c" "x \<noteq> bl + 8" for x
  proof -
    have "x \<noteq> c" "x \<noteq> c + 8" "x \<noteq> c + 16" "x \<noteq> c + 24" "x \<noteq> c + 32"
      using that(1) pgof_field [OF K(2)] K(2) by metis+
    then show ?thesis using keep [OF blb] that by (simp add: h4_def)
  qed
  have hc: "h' c = c + of_nat (4096 - mf * z)" "h' (c + 8) = of_nat mf" "h' (c + 24) = 0" "h' (c + 32) = bl" "h' (c + 16) = 0"
      "h' (bl + 8) = c"
    using keep [of c] keep [of "c + 8"] keep [of "c + 24"] keep [of "c + 32"] nb [of 0] nb [of 8] nb [of 24] nb [of 32]
      bl(1) [of 0] bl(1) [of 8] bl(1) [of 16] bl(1) [of 24] bl(1) [of 32] st
    by (simp_all add: h4_def h'_def)
  have "fseg h' (h' c) (buffers z mf c) 0"
  proof -
    have "fseg (h5(c + of_nat (4096 - z) := 0)) (c + of_nat (4096 - mf * z)) (buffers z mf c) 0"
      by (rule buffers_pool [OF I(1) K(2,5,3) h5(2)])
    moreover have "c + 16 \<notin> set (buffers z mf c)" "bl + 8 \<notin> set (buffers z mf c)"
      using nb [of 16] blb [OF cx(3)] by simp_all
    ultimately show ?thesis unfolding hc(1) by (simp add: h'_def)
  qed
  then have "pool h' bl z mf c (buffers z mf c)"
    using hc K(2,3) buffers_distinct [OF I(1)] by (simp add: pool_def) (simp add: buffers_def)
  moreover have "pool h' bl z mf p []" if "p \<in> fs" for p
  proof -
    have "pool h' bl z mf p [] = pool h bl z mf p []"
      by (rule pool_cong [OF I(1)], rule far) (use that cx(1) I(9) [of p] in auto)
    then show ?thesis using hf [OF that] I(6) [OF that] by simp
  qed
  moreover have "h' bl = of_nat z" "h' (bl + 16) = of_nat mf" using far [of bl] far [of "bl + 16"] cx hb by simp_all
  moreover have "buffers z mf c \<noteq> []" using I(1) by (simp add: buffers_def geom_def)
  ultimately have "buflist_inv h' bl z mf [(c, buffers z mf c)] fs"
    using I(1,9) cx hc K(3) by (auto simp: buflist_inv_def)
  then show ?thesis using run far unfolding h_def by blast
qed

section \<open>The allocator as a whole\<close>

lemma buffer_word:
  assumes "geom z mf" and "a \<in> set (buffers z mf p)" and "pgof p = p" and "i < z"
  shows "pgof (a + of_nat i) = p" and "\<not> hdr P (a + of_nat i)"
proof -
  obtain n where n: "a = p + of_nat n" "40 \<le> n" "n + z \<le> 4096" using buffers_off [OF assms(1,2)] by auto
  have e: "a + of_nat i = p + of_nat (n + i)" using n by simp
  show pg: "pgof (a + of_nat i) = p" unfolding e using n assms(3,4) by (intro pgof_add) simp_all
  have "\<not> (of_nat (n + i) :: word_t) < 40"
    using n assms(4) by (simp add: word_less_nat_alt unat_of_nat take_bit_nat_eq_self del: of_nat_add)
  then show "\<not> hdr P (a + of_nat i)" unfolding hdr_def pg unfolding e by simp
qed

lemma buffers_apart:
  assumes "geom z mf" and "a \<in> set (buffers z mf p)" and "b \<in> set (buffers z mf p)" and "a \<noteq> b" and "i < z"
  shows "a + of_nat i \<noteq> b"
proof
  assume e: "a + of_nat i = b"
  let ?off = "\<lambda>k. 4096 - mf * z + k * z"
  obtain j k where jk: "j < mf" "a = p + of_nat (?off j)" "k < mf" "b = p + of_nat (?off k)"
    using assms(2,3) by (auto simp: buffers_def simp del: of_nat_add of_nat_mult)
  have "?off j + i < 2 ^ 64" "?off k < 2 ^ 64"
    using geom_off(2) [OF assms(1) jk(1)] geom_off(2) [OF assms(1) jk(3)] assms(5) by auto
  moreover have "p + of_nat (?off j + i) = p + of_nat (?off k)" using e jk(2,4) by (simp add: algebra_simps)
  ultimately have "?off j + i = ?off k" by (intro offset_inj)
  then have "j * z + i = k * z" by simp
  moreover have "j \<noteq> k" using assms(4) jk by auto
  moreover have "Suc j * z \<le> k * z" if "j < k" using that by (intro mult_right_mono) simp_all
  moreover have "Suc k * z \<le> j * z" if "k < j" using that by (intro mult_right_mono) simp_all
  ultimately show False using assms(5) by (cases "j < k") auto
qed

text \<open>The buffers that are handed out.\<close>

definition allocd :: "nat \<Rightarrow> nat \<Rightarrow> (word_t \<times> word_t list) list \<Rightarrow> word_t set \<Rightarrow> word_t set" where
  "allocd z mf ps fs = (\<Union>(p, bs) \<in> set ps. set (buffers z mf p) - set bs) \<union> (\<Union>p \<in> fs. set (buffers z mf p))"

text \<open>The invariant for buffers of size \<^term>\<open>z\<close>: the entry of the size in the array, its pages and the
  free list of the kernel memory, which do not share pages with each other nor with the words of
  \<^term>\<open>R\<close>, the rest of the kernel memory that is in use.\<close>

definition mdb_state :: "word_t set \<Rightarrow> word_t \<Rightarrow> nat \<Rightarrow> nat \<Rightarrow> memory \<Rightarrow> nat \<Rightarrow> (word_t \<times> word_t list) list \<Rightarrow> word_t set \<Rightarrow>
    word_t list \<Rightarrow> bool" where
  "mdb_state R bls z mf m i ps fs xs \<longleftrightarrow> i < MDB_NUM_PGSIZES + 3 \<and>
     (\<forall>j<i. mem m (bls + 24 * of_nat j) \<notin> {0, of_nat z}) \<and> (\<forall>j\<le>i. bls + 24 * of_nat j \<in> R) \<and>
     buflist_inv (mem m) (bls + 24 * of_nat i) z mf ps fs \<and> free_list m xs \<and>
     pgof ` set xs \<inter> ({pgof (bls + 24 * of_nat i), pgof (bls + 24 * of_nat i + 8), pgof (bls + 24 * of_nat i + 16)}
       \<union> fst ` set ps \<union> fs) = {} \<and>
     (\<forall>x \<in> R. pgof x \<notin> pgof ` set xs \<union> fst ` set ps \<union> fs \<and> x \<noteq> bls + 24 * of_nat i + 8)"

definition mdb_inv :: "word_t set \<Rightarrow> word_t \<Rightarrow> nat \<Rightarrow> nat \<Rightarrow> memory \<Rightarrow> word_t set \<Rightarrow> bool" where
  "mdb_inv R bls z mf m A \<longleftrightarrow> (\<exists>i ps fs xs. mdb_state R bls z mf m i ps fs xs \<and> A = allocd z mf ps fs)"

lemma find_buflist_at:
  assumes "\<forall>j<i. mem m (bls + 24 * of_nat j) \<notin> {0, sz}" and "mem m (bls + 24 * of_nat i) = sz"
  shows "find_buflist bls sz m = Some (bls + 24 * of_nat i)"
  using assms
proof (induction i arbitrary: bls)
  case 0
  then show ?case by (subst find_buflist.simps) (simp add: mdb_layout)
next
  case (Suc i)
  have "mem m (bls + 24 + 24 * of_nat j) \<notin> {0, sz}" if "j < i" for j
    using Suc.prems(1) [rule_format, of "Suc j"] that by (simp add: algebra_simps)
  then have "find_buflist (bls + 24) sz m = Some (bls + 24 + 24 * of_nat i)"
    using Suc.IH [of "bls + 24"] Suc.prems(2) by (simp add: algebra_simps)
  then show ?case using Suc.prems(1) [rule_format, of 0]
    by (subst find_buflist.simps) (simp add: mdb_layout algebra_simps)
qed

lemma free_list_cong:
  assumes "free_list m xs" and "\<And>x. x \<in> set xs \<Longrightarrow> h x = mem m x"
  shows "free_list (m\<lparr>mem := h\<rparr>) xs"
  using assms fseg_cong [of xs h "mem m"] by (simp add: free_list_def)

lemma geom_small: "geom z mf \<Longrightarrow> \<not> MDB_ALLOC_CHUNKSZ \<le> of_nat z"
proof -
  assume g: "geom z mf"
  have "1 * z \<le> mf * z" using g by (intro mult_right_mono) (simp_all add: geom_def)
  then have "z < 4096" using g unfolding geom_def by linarith
  then show ?thesis using geom_size [OF g] by (simp add: MDB_ALLOC_CHUNKSZ_def word_le_nat_alt)
qed

lemma mdb_stateD:
  assumes "mdb_state R bls z mf m i ps fs xs"
  defines "bl \<equiv> bls + 24 * of_nat i"
  shows "find_buflist bls (of_nat z) m = Some bl" "buflist_inv (mem m) bl z mf ps fs" "free_list m xs"
    "pgof ` set xs \<inter> ({pgof bl, pgof (bl + 8), pgof (bl + 16)} \<union> fst ` set ps \<union> fs) = {}"
    "\<And>x. x \<in> R \<Longrightarrow> pgof x \<notin> pgof ` set xs \<union> fst ` set ps \<union> fs \<and> x \<noteq> bl + 8"
    "pgof ` set xs \<inter> (fst ` set ps \<union> fs) = {}" "pgof ` set xs \<inter> {pgof bl, pgof (bl + 8), pgof (bl + 16)} = {}"
  using assms find_buflist_at [of i m bls "of_nat z"] buflist_invD(2) [of "mem m" bl z mf ps fs]
  unfolding mdb_state_def bl_def by auto

lemma allocd_page: "a \<in> allocd z mf ps fs \<Longrightarrow> \<exists>p \<in> fst ` set ps \<union> fs. a \<in> set (buffers z mf p)"
  unfolding allocd_def by force

text \<open>A step that keeps the array and the words of \<^term>\<open>R\<close> keeps the state, given the new pages and
  free chunks.\<close>

lemma mdb_state_step:
  assumes st: "mdb_state R bls z mf m i ps fs xs" and "\<And>x. x \<in> R \<Longrightarrow> mem m' x = mem m x"
    and "buflist_inv (mem m') (bls + 24 * of_nat i) z mf ps' fs'" and "free_list m' xs'"
    and sub: "pgof ` set xs' \<union> fst ` set ps' \<union> fs' \<subseteq> pgof ` set xs \<union> fst ` set ps \<union> fs"
    and "pgof ` set xs' \<inter> (fst ` set ps' \<union> fs') = {}"
    and "pgof ` set xs' \<inter> {pgof (bls + 24 * of_nat i), pgof (bls + 24 * of_nat i + 8), pgof (bls + 24 * of_nat i + 16)} = {}"
  shows "mdb_state R bls z mf m' i ps' fs' xs'"
  unfolding mdb_state_def
proof (intro conjI ballI allI impI)
  note S = st [unfolded mdb_state_def]
  show "mem m' (bls + 24 * of_nat j) \<notin> {0, of_nat z}" if "j < i" for j
  proof -
    have "bls + 24 * of_nat j \<in> R" using S that less_imp_le by blast
    then show ?thesis using assms(2) S that by simp
  qed
  show "bls + 24 * of_nat j \<in> R" if "j \<le> i" for j using S that by blast
  show "i < MDB_NUM_PGSIZES + 3" using S by blast
  show "pgof x \<notin> pgof ` set xs' \<union> fst ` set ps' \<union> fs'" if "x \<in> R" for x
    using mdb_stateD(5) [OF st that] sub by (meson subsetD)
  show "x \<noteq> bls + 24 * of_nat i + 8" if "x \<in> R" for x using mdb_stateD(5) [OF st that] by simp
  show "buflist_inv (mem m') (bls + 24 * of_nat i) z mf ps' fs'" "free_list m' xs'" by fact+
  show "pgof ` set xs' \<inter> ({pgof (bls + 24 * of_nat i), pgof (bls + 24 * of_nat i + 8), pgof (bls + 24 * of_nat i + 16)}
       \<union> fst ` set ps' \<union> fs') = {}" using assms(6,7) by blast
qed

lemma take_state:
  assumes st: "mdb_state R bls z mf m i ((p, b # bs) # ps) fs xs"
  shows "\<exists>m'. mdb_take_buffer (bls + 24 * of_nat i) p m = (b, m') \<and>
    mdb_state R bls z mf m' i (if bs = [] then ps else (p, bs) # ps) (if bs = [] then insert p fs else fs) xs \<and>
    (\<forall>x. mem m' x \<noteq> mem m x \<longrightarrow> x = bls + 24 * of_nat i + 8 \<or> hdr (insert p (fst ` set ps)) x)"
proof -
  note S = mdb_stateD [OF st] and I = buflist_invD [OF S(2)]
  obtain h' where h': "mdb_take_buffer (bls + 24 * of_nat i) p m = (b, m\<lparr>mem := h'\<rparr>)"
      "buflist_inv h' (bls + 24 * of_nat i) z mf (if bs = [] then ps else (p, bs) # ps) (if bs = [] then insert p fs else fs)"
      "\<forall>x. h' x \<noteq> mem m x \<longrightarrow> x = bls + 24 * of_nat i + 8 \<or> hdr (insert p (fst ` set ps)) x"
    using take_buffer_spec [OF S(2)] by blast
  have out: "h' x = mem m x" if "pgof x \<notin> insert p (fst ` set ps)" "x \<noteq> bls + 24 * of_nat i + 8" for x
    using h'(3) that by (auto simp: hdr_def)
  have "free_list (m\<lparr>mem := h'\<rparr>) xs"
    using S(4) by (intro free_list_cong [OF S(3)] out) (auto simp: image_iff)
  moreover have "mem (m\<lparr>mem := h'\<rparr>) x = mem m x" if "x \<in> R" for x using S(5) [OF that] out [of x] by auto
  ultimately have "mdb_state R bls z mf (m\<lparr>mem := h'\<rparr>) i (if bs = [] then ps else (p, bs) # ps) (if bs = [] then insert p fs else fs) xs"
    using h'(2) S(4) by (intro mdb_state_step [OF st]) auto
  then show ?thesis using h' by auto
qed

lemma new_state:
  assumes st: "mdb_state R bls z mf m i [] fs xs" and al: "kmem_alloc MDB_ALLOC_CHUNKSZ m = Some (c, m0)"
  shows "\<exists>m' xs'. mdb_new_page (bls + 24 * of_nat i) (of_nat z) m = Some (c, m') \<and>
    mdb_state R bls z mf m' i [(c, buffers z mf c)] fs xs' \<and>
    (\<forall>x. mem m' x \<noteq> mem m x \<longrightarrow> x = bls + 24 * of_nat i + 8 \<or> pgof x \<in> pgof ` set xs)"
proof -
  let ?bl = "bls + 24 * of_nat i"
  note S = mdb_stateD [OF st] and K = kmem_page [OF S(3) al]
  obtain us w ws where k: "xs = us @ run c 4 @ w # ws" "free_list m0 (us @ w # ws)" using K(1) by blast
  obtain h' where h': "mdb_new_page ?bl (of_nat z) m = Some (c, m0\<lparr>mem := h'\<rparr>)"
      "buflist_inv h' ?bl z mf [(c, buffers z mf c)] fs" "\<forall>x. h' x \<noteq> mem m0 x \<longrightarrow> x = ?bl + 8 \<or> pgof x = c"
    using new_page_spec [OF S(2,3) _ al] S(4) by auto
  have cx: "c \<in> pgof ` set xs" using K(2,4) by force
  have nc: "pgof x \<noteq> c" if "x \<in> set (us @ w # ws)" for x
  proof
    assume "pgof x = c"
    moreover have "x AND 0x3ff = 0" using S(3) that unfolding k(1) free_list_def by auto
    ultimately have "x \<in> set (run c 4)" using page_chunks [OF K(2)] by blast
    moreover have "distinct xs" using S(3) by (simp add: free_list_def strict_sorted_iff)
    ultimately show False using that unfolding k(1) by auto
  qed
  have sub: "set (us @ w # ws) \<subseteq> set xs" unfolding k(1) by auto
  have fr: "x = ?bl + 8 \<or> pgof x \<in> pgof ` set xs" if "h' x \<noteq> mem m x" for x
    using h'(3) K(6) that cx by (metis imageI)
  have "free_list (m0\<lparr>mem := h'\<rparr>) (us @ w # ws)"
  proof (rule free_list_cong [OF k(2)])
    fix x assume x: "x \<in> set (us @ w # ws)"
    have "pgof x \<in> pgof ` set xs" using x sub by auto
    then have "x \<noteq> ?bl + 8" using S(4) by auto
    then show "h' x = mem m0 x" using h'(3) nc [OF x] by blast
  qed
  moreover have "mem (m0\<lparr>mem := h'\<rparr>) x = mem m x" if "x \<in> R" for x using S(5) [OF that] fr [of x] by fastforce
  ultimately have "mdb_state R bls z mf (m0\<lparr>mem := h'\<rparr>) i [(c, buffers z mf c)] fs (us @ w # ws)"
  proof (intro mdb_state_step [OF st])
    show "pgof ` set (us @ w # ws) \<inter> (fst ` set [(c, buffers z mf c)] \<union> fs) = {}"
    proof -
      have "pgof ` set (us @ w # ws) \<inter> fs = {}" using S(4) image_mono [OF sub, of pgof] by blast
      then show ?thesis using nc by (auto simp del: set_append)
    qed
    show "pgof ` set (us @ w # ws) \<union> fst ` set [(c, buffers z mf c)] \<union> fs \<subseteq> pgof ` set xs \<union> fst ` set [] \<union> fs"
      using sub cx by (auto simp del: set_append)
    show "pgof ` set (us @ w # ws) \<inter> {pgof ?bl, pgof (?bl + 8), pgof (?bl + 16)} = {}"
      using S(4) image_mono [OF sub, of pgof] by blast
  qed (use h'(2) in auto)
  then show ?thesis using h'(1) fr by auto
qed

lemma allocd_take:
  assumes "buflist_inv h bl z mf ((p, b # bs) # ps) fs"
  shows "allocd z mf (if bs = [] then ps else (p, bs) # ps) (if bs = [] then insert p fs else fs) =
      insert b (allocd z mf ((p, b # bs) # ps) fs)" and "b \<notin> allocd z mf ((p, b # bs) # ps) fs"
proof -
  note I = buflist_invD [OF assms]
  have P: "distinct (b # bs)" "set (b # bs) \<subseteq> set (buffers z mf p)" "pgof p = p"
    using I(5) [of p "b # bs"] by (auto simp: pool_def)
  then show "allocd z mf (if bs = [] then ps else (p, bs) # ps) (if bs = [] then insert p fs else fs) =
      insert b (allocd z mf ((p, b # bs) # ps) fs)"
    by (auto simp: allocd_def)
  have "b \<in> set (buffers z mf p)" using P(2) by simp
  then have bp: "pgof b = p" using pgof_buffer [OF I(1)] P(3) by blast
  have "b \<notin> set (buffers z mf q)" if "q \<in> fst ` set ps \<union> fs" for q
  proof
    assume "b \<in> set (buffers z mf q)"
    then have "pgof b = q" using pgof_buffer [OF I(1)] I(9) [of q] that by auto
    then show False using that bp I(7) I(8) [of p "b # bs"] by auto
  qed
  then show "b \<notin> allocd z mf ((p, b # bs) # ps) fs" by (force simp: allocd_def)
qed

lemma mdb_alloc_cases:
  assumes st: "mdb_state R bls z mf m i ps fs xs"
  shows "mdb_alloc_buffer bls (of_nat z) m =
    (case ps of
       [] \<Rightarrow> (case mdb_new_page (bls + 24 * of_nat i) (of_nat z) m of
                None \<Rightarrow> None | Some (c, m1) \<Rightarrow> Some (mdb_take_buffer (bls + 24 * of_nat i) c m1))
     | (p, bs) # _ \<Rightarrow> Some (mdb_take_buffer (bls + 24 * of_nat i) p m))"
proof -
  note S = mdb_stateD [OF st] and I = buflist_invD [OF mdb_stateD(2) [OF st]]
  show ?thesis using S(1) I(4) geom_small [OF I(1)]
    by (cases ps) (auto simp: mdb_alloc_buffer_def mdb_layout split: prod.splits)
qed

lemma take_inv:
  assumes st: "mdb_state R bls z mf m i ((p, b # bs) # ps) fs xs"
  shows "\<exists>m'. mdb_take_buffer (bls + 24 * of_nat i) p m = (b, m') \<and>
    mdb_inv R bls z mf m' (insert b (allocd z mf ((p, b # bs) # ps) fs)) \<and>
    b \<notin> allocd z mf ((p, b # bs) # ps) fs \<and> (\<forall>x \<in> R. mem m' x = mem m x) \<and>
    (\<forall>a \<in> allocd z mf ((p, b # bs) # ps) fs. \<forall>k<z. mem m' (a + of_nat k) = mem m (a + of_nat k))"
proof -
  note S = mdb_stateD [OF st] and I = buflist_invD [OF mdb_stateD(2) [OF st]]
  obtain m' where m': "mdb_take_buffer (bls + 24 * of_nat i) p m = (b, m')"
      "mdb_state R bls z mf m' i (if bs = [] then ps else (p, bs) # ps) (if bs = [] then insert p fs else fs) xs"
      "\<forall>x. mem m' x \<noteq> mem m x \<longrightarrow> x = bls + 24 * of_nat i + 8 \<or> hdr (insert p (fst ` set ps)) x"
    using take_state [OF st] by blast
  have "mem m' (a + of_nat k) = mem m (a + of_nat k)" if a: "a \<in> allocd z mf ((p, b # bs) # ps) fs" and k: "k < z" for a k
  proof -
    obtain q where q: "q \<in> fst ` set ((p, b # bs) # ps) \<union> fs" "a \<in> set (buffers z mf q)" using allocd_page [OF a] by blast
    note w = buffer_word [OF I(1) q(2) _ k]
    have "a + of_nat k \<noteq> bls + 24 * of_nat i + 8" using w(1) I(9) [OF q(1)] by metis
    then show ?thesis using m'(3) w(2) I(9) [OF q(1)] by blast
  qed
  moreover have "mem m' x = mem m x" if "x \<in> R" for x
    using S(5) [OF that] m'(3) by (auto simp: hdr_def)
  moreover have "mdb_inv R bls z mf m' (insert b (allocd z mf ((p, b # bs) # ps) fs))"
    using m'(2) allocd_take(1) [OF S(2)] unfolding mdb_inv_def by metis
  ultimately show ?thesis using m'(1) allocd_take(2) [OF S(2)] by blast
qed

text \<open>Allocating succeeds when a page with free buffers or a page of kernel memory is left.\<close>

lemma mdb_alloc_inv:
  assumes inv: "mdb_inv R bls z mf m A" and al: "mdb_alloc_buffer bls (of_nat z) m = Some (b, m')"
  shows "b \<notin> A \<and> mdb_inv R bls z mf m' (insert b A) \<and> (\<forall>x \<in> R. mem m' x = mem m x) \<and>
    (\<forall>a \<in> A. \<forall>k<z. mem m' (a + of_nat k) = mem m (a + of_nat k))"
proof -
  obtain i ps fs xs where st: "mdb_state R bls z mf m i ps fs xs" and A: "A = allocd z mf ps fs"
    using inv unfolding mdb_inv_def by blast
  note S = mdb_stateD [OF st] and I = buflist_invD [OF mdb_stateD(2) [OF st]]
  let ?bl = "bls + 24 * of_nat i"
  show ?thesis
  proof (cases ps)
    case (Cons x ps')
    then obtain p b' bs where x: "ps = (p, b' # bs) # ps'" using I(5) by (metis list.exhaust prod.exhaust list.set_intros(1))
    show ?thesis using take_inv [OF st [unfolded x]] al mdb_alloc_cases [OF st] unfolding A x by auto
  next
    case Nil
    then obtain c m1 where n: "mdb_new_page ?bl (of_nat z) m = Some (c, m1)" "mdb_take_buffer ?bl c m1 = (b, m')"
      using al mdb_alloc_cases [OF st] by (auto split: option.splits)
    then obtain m0 where k: "kmem_alloc MDB_ALLOC_CHUNKSZ m = Some (c, m0)"
      by (auto simp: mdb_new_page_def Let_def split: option.splits)
    obtain xs' where s1: "mdb_state R bls z mf m1 i [(c, buffers z mf c)] fs xs'"
        "\<forall>x. mem m1 x \<noteq> mem m x \<longrightarrow> x = ?bl + 8 \<or> pgof x \<in> pgof ` set xs"
      using new_state [OF st [unfolded Nil] k] n(1) by auto
    obtain b' bs where bs: "buffers z mf c = b' # bs" using I(1) by (cases "buffers z mf c") (auto simp: buffers_def geom_def)
    have e: "allocd z mf [(c, b' # bs)] fs = A" unfolding A Nil by (simp add: allocd_def bs)
    have "mem m1 x = mem m x" if "x \<in> R" for x using S(5) [OF that] s1(2) by auto
    moreover have "mem m1 (a + of_nat k) = mem m (a + of_nat k)" if a: "a \<in> A" and k: "k < z" for a k
    proof -
      obtain q where q: "q \<in> fs" "a \<in> set (buffers z mf q)" using a unfolding A Nil by (auto simp: allocd_def)
      have "pgof (a + of_nat k) = q" using buffer_word(1) [OF I(1) q(2) _ k] I(9) [of q] q(1) by simp
      moreover have "q \<notin> pgof ` set xs" "pgof (?bl + 8) \<noteq> q" using S(4) I(9) [of q] q(1) by auto
      ultimately show ?thesis using s1(2) by metis
    qed
    ultimately show ?thesis using take_inv [OF s1(1) [unfolded bs]] n(2) unfolding e by auto
  qed
qed

end
