(* ===== verification/Mdb_Free.thy ===== *)
theory Mdb_Free
  imports Mdb_Pool
begin

text \<open>
  Returning buffers: that \<^verbatim>\<open>mdb_free_buffer\<close> keeps the invariant in its three cases (a page gets
  its first free buffer, another one, or its last and goes back to the kernel memory), the
  interpretation of the contract of \<^verbatim>\<open>Allocator\<close> and the properties of the buffer allocator.
\<close>

section \<open>Freeing a buffer\<close>

definition push_buf :: "word_t \<Rightarrow> word_t \<Rightarrow> (word_t \<Rightarrow> word_t) \<Rightarrow> word_t \<Rightarrow> word_t" where
  "push_buf p b h = h(b := h p, p := b, p + 8 := h (p + 8) + 1)"

lemma push_pool:
  assumes g: "geom z mf" and P: "pool h bl z mf p bs" and b: "b \<in> set (buffers z mf p)" "b \<notin> set bs"
  shows "pool (push_buf p b h) bl z mf p (b # bs)"
    and "\<And>x. pgof x \<noteq> p \<Longrightarrow> push_buf p b h x = h x"
    and "push_buf p b h (p + 16) = h (p + 16)" "push_buf p b h (p + 24) = h (p + 24)" "push_buf p b h (p + 32) = bl"
    and "\<And>x. x \<noteq> b \<Longrightarrow> \<not> hdr {p} x \<Longrightarrow> push_buf p b h x = h x"
proof -
  have p: "pgof p = p" "p \<noteq> 0" "fseg h (h p) bs 0" "distinct bs" "set bs \<subseteq> set (buffers z mf p)"
    "h (p + 8) = of_nat (length bs)" "h (p + 32) = bl" using P by (auto simp: pool_def)
  have nb: "x \<noteq> p" "x \<noteq> p + 8" "x \<noteq> p + 16" "x \<noteq> p + 24" "x \<noteq> p + 32" "pgof x = p" if "x \<in> set (buffers z mf p)" for x
    using buffer_not_header [OF g that, of 0] buffer_not_header [OF g that, of 8] buffer_not_header [OF g that, of 16]
      buffer_not_header [OF g that, of 24] buffer_not_header [OF g that, of 32] pgof_buffer [OF g that p(1)] by simp_all
  note n = nb [OF b(1)]
  have "b \<noteq> 0" using n(6) p(2) by (auto simp: pgof_def)
  have "fseg (push_buf p b h) c bs 0 = fseg h c bs 0" for c
  proof (rule fseg_cong)
    fix x assume "x \<in> set bs"
    then have "x \<noteq> p" "x \<noteq> p + 8" "x \<noteq> b" using nb p(5) b(2) by blast+
    then show "push_buf p b h x = h x" by (simp add: push_buf_def)
  qed
  then show "pool (push_buf p b h) bl z mf p (b # bs)"
    using p b n \<open>b \<noteq> 0\<close> by (simp add: pool_def) (simp add: push_buf_def)
  show "push_buf p b h (p + 16) = h (p + 16)" "push_buf p b h (p + 24) = h (p + 24)" "push_buf p b h (p + 32) = bl"
    using n(3-5) p(7) by (simp_all add: push_buf_def)
  show "push_buf p b h x = h x" if "pgof x \<noteq> p" for x
  proof -
    have "x \<noteq> b" "x \<noteq> p" "x \<noteq> p + 8" using that n(6) p(1) pgof_field [OF p(1)] by metis+
    then show ?thesis by (simp add: push_buf_def)
  qed
  show "push_buf p b h x = h x" if "x \<noteq> b" "\<not> hdr {p} x" for x
    using that hdr_field [OF p(1), of "{p}" 0] hdr_field [OF p(1), of "{p}" 8] by (auto simp: push_buf_def)
qed

lemma plist_page_upd:
  assumes "pgof p = p" and "p \<notin> set ps" and "\<forall>q \<in> set ps. pgof q = q" and "\<And>x. pgof x \<noteq> p \<Longrightarrow> x \<noteq> y \<Longrightarrow> h' x = h x"
    and "pgof y \<notin> set ps"
  shows "plist h' a c ps = plist h a c ps"
proof (rule plist_cong)
  fix q assume q: "q \<in> set ps"
  then have "pgof (q + 16) = q" "pgof (q + 24) = q" "q \<noteq> p" using assms(2,3) pgof_field [of q] by auto
  then show "h' (q + 16) = h (q + 16) \<and> h' (q + 24) = h (q + 24)" using assms(4,5) q by metis
qed

text \<open>A page without free buffers returns to the list.\<close>

lemma free_full:
  assumes inv: "buflist_inv h bl z mf ps fs" and p: "p \<in> fs" and b: "b \<in> set (buffers z mf p)"
  defines "q \<equiv> h (bl + 8)"
  defines "h1 \<equiv> push_buf p b h"
  defines "h' \<equiv> (if q = 0 then h1 else h1(q + 24 := p))(p + 16 := q, p + 24 := 0, bl + 8 := p)"
  shows "buflist_inv h' bl z mf ((p, [b]) # ps) (fs - {p})" and "h1 (bl + 8) = q" and "h1 (p + 8) = 1" and "h1 (p + 32) = bl"
    and "q \<noteq> 0 \<Longrightarrow> q + 24 \<noteq> bl + 8"
    and "\<And>x. h' x \<noteq> h x \<Longrightarrow> x = b \<or> x = bl + 8 \<or> hdr (insert p (fst ` set ps)) x"
proof -
  note I = buflist_invD [OF inv]
  have P: "pool h bl z mf p []" using I(6) p by blast
  note pu = push_pool [OF I(1) P b, simplified, folded h1_def]
  have pp: "pgof p = p" "p \<noteq> 0" using P by (auto simp: pool_def)
  have blp: "pgof bl \<noteq> p" "pgof (bl + 8) \<noteq> p" "pgof (bl + 16) \<noteq> p" using I(9) [of p] p by auto
  have np: "p \<notin> set (map fst ps)" "\<forall>r \<in> set (map fst ps). pgof r = r" using I(8,9) p by force+
  show h1bl: "h1 (bl + 8) = q" using pu(2) [OF blp(2)] by (simp add: q_def)
  show "h1 (p + 8) = 1" using pu(1) by (simp add: pool_def)
  show "h1 (p + 32) = bl" by (rule pu(5))
  have l: "plist h 0 q (map fst ps)" using I(4) by (simp add: q_def)
  then have qin: "q \<noteq> 0 \<Longrightarrow> q \<in> set (map fst ps)" by (cases ps) auto
  then have q24: "q \<noteq> 0 \<Longrightarrow> pgof (q + 24) = q \<and> q \<noteq> p \<and> pgof bl \<noteq> q \<and> pgof (bl + 8) \<noteq> q \<and> pgof (bl + 16) \<noteq> q"
    using np I(9) [of q] pgof_field(3) [of q] by auto
  show "q + 24 \<noteq> bl + 8" if "q \<noteq> 0" using q24 [OF that] by metis
  define h2 where "h2 = (if q = 0 then h1 else h1(q + 24 := p))"
  have l2: "plist h2 p q (map fst ps)"
  proof -
    have "plist h1 0 q (map fst ps)" using l by (subst plist_page_upd [OF pp(1) np, of p _ h]) (use pu(2) np(1) pp in auto)
    from plist_set_prev [OF this I(7) np(2), of p] show ?thesis by (simp add: h2_def)
  qed
  have hx: "h' x = h2 x" if "x \<noteq> p + 16" "x \<noteq> p + 24" "x \<noteq> bl + 8" for x using that by (simp add: h'_def h2_def)
  have hp: "h' (p + 16) = q" "h' (p + 24) = 0" "h' (bl + 8) = p"
  proof -
    have "bl + 8 \<noteq> p + 16" "bl + 8 \<noteq> p + 24" using blp(2) pgof_field [OF pp(1)] by metis+
    then show "h' (p + 16) = q" "h' (p + 24) = 0" "h' (bl + 8) = p" by (simp_all add: h'_def)
  qed
  have l': "plist h' p q (map fst ps)"
  proof (subst plist_page_upd [OF pp(1) np, of "bl + 8" _ h2])
    show "h' x = h2 x" if "pgof x \<noteq> p" "x \<noteq> bl + 8" for x
      using that hx [of x] pgof_field [OF pp(1)] by metis
    show "pgof (bl + 8) \<notin> set (map fst ps)" using I(9) by force
  qed (rule l2)
  have fr: "x = bl + 8 \<or> pgof x = p \<or> x = q + 24 \<and> q \<noteq> 0" if "h' x \<noteq> h x" for x
  proof (rule ccontr)
    assume n: "\<not> ?thesis"
    then have "x \<noteq> p + 16" "x \<noteq> p + 24" "x \<noteq> bl + 8" using pgof_field(2,3) [OF pp(1)] by metis+
    then show False using hx [of x] pu(2) [of x] n that by (auto simp: h2_def split: if_splits)
  qed
  have oth: "pool h' bl z mf r rs = pool h bl z mf r rs" if "r \<noteq> p" "pgof (bl + 8) \<noteq> r" for r rs
    by (rule pool_other [OF I(1) _ that(1), of _ _ "bl + 8"]) (use fr q24 np qin that in blast)+
  have "pool h' bl z mf p [b] = pool h1 bl z mf p [b]"
  proof (rule pool_cong [OF I(1)])
    fix x assume x: "pgof x = p" "x \<noteq> p + 16" "x \<noteq> p + 24"
    then have "x \<noteq> bl + 8" "q \<noteq> 0 \<Longrightarrow> x \<noteq> q + 24" using blp q24 by metis+
    then show "h' x = h1 x" using hx [of x] x by (simp add: h2_def)
  qed
  then have pb: "pool h' bl z mf p [b]" using pu(1) by simp
  have hb: "h' bl = of_nat z" "h' (bl + 16) = of_nat mf"
  proof -
    have "h' x = h x" if "pgof x \<noteq> p" "x \<noteq> bl + 8" "q \<noteq> 0 \<Longrightarrow> pgof x \<noteq> q" for x
      using fr [of x] that q24 by metis
    then show "h' bl = of_nat z" "h' (bl + 16) = of_nat mf" using I(2,3) blp q24 by simp_all
  qed
  show "buflist_inv h' bl z mf ((p, [b]) # ps) (fs - {p})"
    unfolding buflist_inv_def
  proof (intro conjI allI impI ballI)
    show "pool h' bl z mf r rs" "rs \<noteq> []" if "(r, rs) \<in> set ((p, [b]) # ps)" for r rs
      using that pb oth [of r rs] I(5) [of r rs] I(9) [of r] np(1) by force+
    show "pool h' bl z mf r []" if "r \<in> fs - {p}" for r using that oth [of r "[]"] I(6) [of r] I(9) [of r] by auto
    show "fst ` set ((p, [b]) # ps) \<inter> (fs - {p}) = {}" using I(8) by force
    show "{pgof bl, pgof (bl + 8), pgof (bl + 16)} \<inter> (fst ` set ((p, [b]) # ps) \<union> (fs - {p})) = {}"
      using buflist_inv_bl [OF inv] p by auto
  qed (use I(1,7) hb hp l' pp np in auto)
  show "x = b \<or> x = bl + 8 \<or> hdr (insert p (fst ` set ps)) x" if "h' x \<noteq> h x" for x
  proof -
    have "x = b \<or> x = bl + 8 \<or> hdr {p} x \<or> x = p + 16 \<or> x = p + 24 \<or> x = q + 24 \<and> q \<noteq> 0"
      using that hx [of x] pu(6) [of x] by (auto simp: h2_def split: if_splits)
    then show ?thesis
      using hdr_field [OF pp(1), of "insert p (fst ` set ps)" 16] hdr_field [OF pp(1), of "insert p (fst ` set ps)" 24]
        hdr_field [of q "insert p (fst ` set ps)" 24] qin np(2) by (auto simp: hdr_def)
  qed
qed

text \<open>A page that keeps some buffers in use stays where it is.\<close>

lemma free_keep:
  assumes inv: "buflist_inv h bl z mf (us @ (p, bs) # vs) fs" and b: "b \<in> set (buffers z mf p)" "b \<notin> set bs"
  defines "h1 \<equiv> push_buf p b h"
  shows "buflist_inv h1 bl z mf (us @ (p, b # bs) # vs) fs" and "h1 (p + 8) = of_nat (Suc (length bs))"
    and "h1 (p + 32) = bl" and "\<And>x. pgof x \<noteq> p \<Longrightarrow> h1 x = h x" and "\<And>x. h1 x \<noteq> h x \<Longrightarrow> x = b \<or> hdr {p} x"
proof -
  note I = buflist_invD [OF inv]
  have P: "pool h bl z mf p bs" using I(5) by auto
  note pu = push_pool [OF I(1) P b, folded h1_def]
  have pp: "pgof p = p" "p \<noteq> 0" using P by (auto simp: pool_def)
  have blp: "pgof bl \<noteq> p" "pgof (bl + 8) \<noteq> p" "pgof (bl + 16) \<noteq> p" using I(9) [of p] by auto
  have al: "\<forall>q \<in> set (map fst (us @ (p, bs) # vs)). pgof q = q" using I(9) by (simp add: ball_Un)
  have pl: "plist h1 0 (h1 (bl + 8)) (map fst (us @ (p, b # bs) # vs))"
  proof -
    have "plist h1 0 (h (bl + 8)) (map fst (us @ (p, bs) # vs)) = plist h 0 (h (bl + 8)) (map fst (us @ (p, bs) # vs))"
    proof (rule plist_cong)
      fix q assume q: "q \<in> set (map fst (us @ (p, bs) # vs))"
      show "h1 (q + 16) = h (q + 16) \<and> h1 (q + 24) = h (q + 24)"
      proof (cases "q = p")
        case False
        then have "pgof (q + 16) \<noteq> p" "pgof (q + 24) \<noteq> p" using al q pgof_field [of q] by auto
        then show ?thesis using pu(2) by simp
      qed (use pu(3,4) in simp)
    qed
    then show ?thesis using I(4) pu(2) [OF blp(2)] by simp
  qed
  have oth: "pool h1 bl z mf r rs = pool h bl z mf r rs" if "r \<noteq> p" for r rs
    by (rule pool_cong [OF I(1)]) (use pu(2) that in auto)
  have ps: "(p, rs) \<in> set us \<union> set vs \<Longrightarrow> False" for rs using I(7) by force
  have "(r, rs) \<in> set (us @ (p, b # bs) # vs) \<Longrightarrow> pool h1 bl z mf r rs \<and> rs \<noteq> []" for r rs
    using pu(1) oth [of r rs] I(5) [of r rs] ps [of rs] by (cases "r = p") auto
  moreover have "r \<in> fs \<Longrightarrow> pool h1 bl z mf r []" for r using oth [of r "[]"] I(6) [of r] I(8) [of p bs] by auto
  moreover have "fst ` set (us @ (p, b # bs) # vs) \<inter> fs = {}" using I(8) by force
  moreover have "h1 bl = of_nat z" "h1 (bl + 16) = of_nat mf" using pu(2) blp I(2,3) by simp_all
  ultimately show "buflist_inv h1 bl z mf (us @ (p, b # bs) # vs) fs"
    using I(1,7) pl buflist_inv_bl [OF inv] by (simp add: buflist_inv_def)
  show "h1 (p + 8) = of_nat (Suc (length bs))" using pu(1) by (simp add: pool_def)
  show "h1 (p + 32) = bl" by (rule pu(5))
  show "h1 x = h x" if "pgof x \<noteq> p" for x using pu(2) that by blast
  show "x = b \<or> hdr {p} x" if "h1 x \<noteq> h x" for x using pu(6) that by blast
qed

text \<open>A page whose buffers are all free leaves the list.\<close>

definition unlink_page :: "word_t \<Rightarrow> word_t \<Rightarrow> (word_t \<Rightarrow> word_t) \<Rightarrow> word_t \<Rightarrow> word_t" where
  "unlink_page bl p h =
     (let nxt = h (p + 16); h1 = (if nxt = 0 then h else h(nxt + 24 := h (p + 24)))
      in if h1 (bl + 8) = p then h1(bl + 8 := h1 (p + 16))
         else if h1 (p + 24) \<noteq> 0 then h1(h1 (p + 24) + 16 := h1 (p + 16)) else h1)"

lemma unlink_inv:
  assumes inv: "buflist_inv h bl z mf (us @ (p, bs) # vs) fs"
  shows "buflist_inv (unlink_page bl p h) bl z mf (us @ vs) fs"
    and "\<And>x. unlink_page bl p h x \<noteq> h x \<Longrightarrow> x = bl + 8 \<or> (\<exists>q \<in> fst ` set (us @ vs). x = q + 16 \<or> x = q + 24)"
proof -
  note I = buflist_invD [OF inv]
  let ?n = "h (p + 16)"
  define h1 where "h1 = (if ?n = 0 then h else h(?n + 24 := h (p + 24)))"
  have al: "\<forall>q \<in> set (map fst us @ p # map fst vs). pgof q = q" using I(9) by (simp add: ball_Un)
  have d: "distinct (map fst us @ p # map fst vs)" using I(7) by simp
  have pl: "plist h 0 (h (bl + 8)) (map fst us @ p # map fst vs)" using I(4) by simp
  have un: "if map fst us = [] then plist h1 0 ?n (map fst vs)
      else h (p + 24) = last (map fst us) \<and> plist (h1(last (map fst us) + 16 := ?n)) 0 (h (bl + 8)) (map fst us @ map fst vs)"
    using plist_unlink [OF pl d al] by (simp add: h1_def)
  have nin: "?n \<in> fst ` set vs" if "?n \<noteq> 0"
  proof -
    have "\<exists>a c. plist h a c (xs @ p # map fst vs) \<Longrightarrow> \<exists>a. plist h a ?n (map fst vs)" for xs by (induction xs) auto
    then have "\<exists>a. plist h a ?n (map fst vs)" using pl by blast
    then show ?thesis using that by (cases vs) auto
  qed
  have n24: "pgof (?n + 24) = ?n \<and> ?n \<noteq> p \<and> pgof (bl + 8) \<noteq> ?n \<and> pgof bl \<noteq> ?n \<and> pgof (bl + 16) \<noteq> ?n" if "?n \<noteq> 0"
  proof -
    have "p \<notin> fst ` set vs" using d by simp
    then have "?n \<noteq> p" using nin [OF that] by metis
    then show ?thesis using nin [OF that] I(9) [of ?n] pgof_field(3) [of ?n] by auto
  qed
  have pp: "pgof p = p" "p \<noteq> 0" using I(5) [of p bs] by (auto simp: pool_def)
  have h1p: "h1 (bl + 8) = h (bl + 8)" "h1 (p + 16) = ?n" "h1 (p + 24) = h (p + 24)"
  proof -
    have "bl + 8 \<noteq> ?n + 24 \<and> p + 16 \<noteq> ?n + 24 \<and> p + 24 \<noteq> ?n + 24" if "?n \<noteq> 0"
      using n24 [OF that] pgof_field [OF pp(1)] by metis
    then show "h1 (bl + 8) = h (bl + 8)" "h1 (p + 16) = ?n" "h1 (p + 24) = h (p + 24)" by (auto simp: h1_def)
  qed
  have head: "h (bl + 8) = p \<longleftrightarrow> us = []" using pl d by (cases us) auto
  have lu: "us \<noteq> [] \<Longrightarrow> last (map fst us) \<in> fst ` set us" by (metis last_in_set list.map_disc_iff set_map)
  have lnz: "us \<noteq> [] \<Longrightarrow> h (p + 24) \<noteq> 0"
    using un lu I(5) by (force simp: pool_def)
  have e: "unlink_page bl p h = (if us = [] then h1(bl + 8 := ?n) else h1(last (map fst us) + 16 := ?n))"
    using un lnz head unfolding unlink_page_def Let_def h1_def [symmetric] by (auto simp: h1p)
  show fr: "x = bl + 8 \<or> (\<exists>q \<in> fst ` set (us @ vs). x = q + 16 \<or> x = q + 24)" if "unlink_page bl p h x \<noteq> h x" for x
    using that nin lu unfolding e by (auto simp: h1_def split: if_splits)
  have fs: "pgof q = q" if "q \<in> fst ` set (us @ vs)" for q using al that by auto
  have oth: "pool (unlink_page bl p h) bl z mf r rs = pool h bl z mf r rs" if "pgof (bl + 8) \<noteq> r" "r \<noteq> p" for r rs
    by (rule pool_other [OF I(1) _ that(2,1)]) (use fr fs in blast)
  have bl: "unlink_page bl p h x = h x" if "x = bl \<or> x = bl + 16" for x
  proof (rule ccontr)
    assume "unlink_page bl p h x \<noteq> h x"
    moreover have "x \<noteq> bl + 8" using that by auto
    ultimately obtain q where q: "q \<in> fst ` set (us @ vs)" "x = q + 16 \<or> x = q + 24" using fr by blast
    then have "pgof x = q" using fs [of q] pgof_field [of q] by auto
    moreover have "q \<in> fst ` set (us @ (p, bs) # vs) \<union> fs" using q(1) by auto
    ultimately show False using I(9) [of q] that by auto
  qed
  have pl': "plist (unlink_page bl p h) 0 (unlink_page bl p h (bl + 8)) (map fst (us @ vs))"
  proof (cases "us = []")
    case True
    have "plist (h1(bl + 8 := ?n)) 0 ?n (map fst vs) = plist h1 0 ?n (map fst vs)"
    proof (rule plist_cong)
      fix q assume "q \<in> set (map fst vs)"
      then have "pgof (q + 16) = q" "pgof (q + 24) = q" "pgof (bl + 8) \<noteq> q" using fs [of q] I(9) [of q] pgof_field [of q] by auto
      then have "q + 16 \<noteq> bl + 8" "q + 24 \<noteq> bl + 8" by metis+
      then show "(h1(bl + 8 := ?n)) (q + 16) = h1 (q + 16) \<and> (h1(bl + 8 := ?n)) (q + 24) = h1 (q + 24)" by simp
    qed
    then show ?thesis using un True by (simp add: e)
  next
    case False
    let ?l = "last (map fst us)"
    have "pgof (?l + 16) = ?l" "pgof (bl + 8) \<noteq> ?l" using lu [OF False] fs [of ?l] I(9) [of ?l] pgof_field [of ?l] by auto
    then have "bl + 8 \<noteq> ?l + 16" by metis
    then show ?thesis using un False h1p(1) by (simp add: e)
  qed
  have "(r, rs) \<in> set (us @ vs) \<Longrightarrow> pool (unlink_page bl p h) bl z mf r rs \<and> rs \<noteq> []" for r rs
  proof -
    assume r: "(r, rs) \<in> set (us @ vs)"
    then have m: "r \<in> fst ` set us \<union> fst ` set vs" by (auto intro: rev_image_eqI)
    then have "r \<noteq> p" using d by auto
    moreover have "pgof (bl + 8) \<noteq> r" using m I(9) [of r] by auto
    ultimately show ?thesis using r oth [of r rs] I(5) [of r rs] by auto
  qed
  moreover have "r \<in> fs \<Longrightarrow> pool (unlink_page bl p h) bl z mf r []" for r
    using oth [of r "[]"] I(6) [of r] I(9) [of r] I(8) [of p bs] by auto
  moreover have "fst ` set (us @ vs) \<inter> fs = {}" using I(8) by force
  ultimately show "buflist_inv (unlink_page bl p h) bl z mf (us @ vs) fs"
    using I(1,2,3,7) pl' bl [of bl] bl [of "bl + 16"] buflist_inv_bl [OF inv] by (auto simp: buflist_inv_def)
qed

lemma run_page: "pgof c = c \<Longrightarrow> x \<in> set (run c 4) \<Longrightarrow> pgof x = c"
proof -
  assume c: "pgof c = c" and "x \<in> set (run c 4)"
  then obtain k where k: "k < 4" "x = c + of_nat (k * 1024)" unfolding in_run KMEM_CHUNKSIZE_def by auto
  then show "pgof x = c" using pgof_add [OF c, of "k * 1024"] by simp
qed

lemma free_page:
  assumes fl: "free_list m xs" and p: "pgof p = p" "p \<noteq> 0" and dis: "p \<notin> pgof ` set xs"
  shows "\<exists>m'. kmem_free p MDB_ALLOC_CHUNKSZ m = Some m' \<and> free_list m' (insert_run p 4 xs) \<and>
    (\<forall>x. x \<in> set xs \<or> pgof x = p \<or> mem m' x = mem m x)"
proof -
  have sz: "of_nat 4 * KMEM_CHUNKSIZE = MDB_ALLOC_CHUNKSZ" by (simp add: MDB_ALLOC_CHUNKSZ_def KMEM_CHUNKSIZE_def)
  have m: "(0x3ff :: word_t) = mask 10" "(0xfff :: word_t) = mask 12" by (simp_all add: mask_eq_exp_minus_1)
  have "p AND mask 10 = (p AND NOT (mask 12)) AND mask 10" using p(1) by (simp add: pgof_def m)
  also have "\<dots> = 0" by (rule bit_eqI) (auto simp: bit_simps)
  finally have al: "p AND 0x3ff = 0" by (simp only: m)
  have "unat p mod 4096 = 0"
  proof -
    have "unat p = unat p - unat p mod 4096" using unat_align_down [of p 12] p(1) by (simp add: pgof_def)
    then show ?thesis using mod_less_eq_dividend [of "unat p" 4096] by linarith
  qed
  then obtain k where "unat p = 4096 * k" by (auto elim!: dvdE)
  then have "unat p + 4 * 1024 \<le> 2 ^ 64" using unat_lt64 [of p] by simp
  moreover have "set xs \<inter> set (run p 4) = {}" using run_page [OF p(1)] dis by force
  ultimately show ?thesis using kmem_free_inserts [OF fl al p(2), of 4] run_page [OF p(1)] unfolding sz by fastforce
qed

lemma mdb_free_eval:
  assumes g: "geom z mf" and b: "b \<in> set (buffers z mf p)" and p: "pgof p = p"
  shows "mdb_free_buffer b (of_nat z) m =
    (let bl = mem m (p + 32); h1 = push_buf p b (mem m); q = h1 (bl + 8);
         h4 = (if q = 0 then h1 else h1(q + 24 := p))
     in if h1 (p + 8) = 1
        then Some (m\<lparr>mem := h4(p + 16 := h4 (bl + 8), p + 24 := 0, bl + 8 := p)\<rparr>)
        else if h1 (p + 8) = h1 (bl + 16) then kmem_free p MDB_ALLOC_CHUNKSZ (m\<lparr>mem := unlink_page bl p h1\<rparr>)
        else Some (m\<lparr>mem := h1\<rparr>))"
proof -
  have mng: "b AND NOT (MDB_ALLOC_CHUNKSZ - 1) = p"
    using pgof_buffer [OF g b p] by (simp add: pgof_def MDB_ALLOC_CHUNKSZ_def)
  have "b \<noteq> p" "b \<noteq> p + 8" using buffer_not_header [OF g b, of 0] buffer_not_header [OF g b, of 8] by simp_all
  then have e: "(mem m)(b := mem m p, p := b, p + 8 := ((mem m)(b := mem m p, p := b)) (p + 8) + 1) = push_buf p b (mem m)"
    by (simp add: push_buf_def)
  have l: "(if q \<noteq> 0 then set_raw (q + 24) v m' else m') = m'\<lparr>mem := if q = 0 then mem m' else (mem m')(q + 24 := v)\<rparr>"
    for q v :: word_t and m' by simp
  show ?thesis using geom_small [OF g]
    unfolding mdb_free_buffer_def mng mdb_layout Let_def
    by (simp add: e [simplified] unlink_page_def Let_def)
qed

text \<open>What freeing the buffer \<^term>\<open>b\<close> may change: the buffer, the entry of the size, management structures, the
  free chunks, and the page of the buffer when nothing in it is in use any more.\<close>

definition free_frame :: "word_t \<Rightarrow> word_t \<Rightarrow> word_t set \<Rightarrow> word_t set \<Rightarrow> word_t set \<Rightarrow> word_t \<Rightarrow> bool" where
  "free_frame b bl P P' X x \<longleftrightarrow> x = b \<or> x = bl + 8 \<or> hdr P x \<or> pgof x \<in> X \<or> pgof x = pgof b \<and> pgof b \<notin> P'"

definition freed :: "word_t set \<Rightarrow> word_t \<Rightarrow> nat \<Rightarrow> nat \<Rightarrow> memory \<Rightarrow> nat \<Rightarrow> (word_t \<times> word_t list) list \<Rightarrow> word_t set \<Rightarrow>
    word_t list \<Rightarrow> word_t \<Rightarrow> bool" where
  "freed R bls z mf m i ps fs xs b \<longleftrightarrow>
    (\<exists>m' ps' fs' xs'. mdb_free_buffer b (of_nat z) m = Some m' \<and> mdb_state R bls z mf m' i ps' fs' xs' \<and>
       allocd z mf ps' fs' = allocd z mf ps fs - {b} \<and>
       (\<forall>x. mem m' x \<noteq> mem m x \<longrightarrow>
          free_frame b (bls + 24 * of_nat i) (fst ` set ps \<union> fs) (fst ` set ps' \<union> fs') (pgof ` set xs) x))"

lemma state_frame:
  assumes st: "mdb_state R bls z mf m i ps fs xs" and "b \<in> set (buffers z mf p)" and "p \<in> fst ` set ps \<union> fs"
    and ff: "\<forall>x. h x \<noteq> mem m x \<longrightarrow> x = b \<or> x = bls + 24 * of_nat i + 8 \<or> hdr (fst ` set ps \<union> fs) x"
  shows "\<And>x. x \<in> R \<Longrightarrow> h x = mem m x" and "free_list (m\<lparr>mem := h\<rparr>) xs"
proof -
  note S = mdb_stateD [OF st] and I = buflist_invD [OF mdb_stateD(2) [OF st]]
  have pb: "pgof b = p" using pgof_buffer [OF I(1) assms(2)] I(9) [OF assms(3)] by blast
  have out: "h x = mem m x" if "pgof x \<notin> fst ` set ps \<union> fs" "x \<noteq> bls + 24 * of_nat i + 8" for x
  proof (rule ccontr)
    assume "h x \<noteq> mem m x"
    from ff [rule_format, OF this] show False using that assms(3) pb unfolding hdr_def by blast
  qed
  show "h x = mem m x" if "x \<in> R" for x using S(5) [OF that] by (intro out) auto
  show "free_list (m\<lparr>mem := h\<rparr>) xs" using S(4) by (intro free_list_cong [OF S(3)] out) auto
qed

lemma buflist_inv_cong:
  assumes inv: "buflist_inv h bl z mf ps fs"
    and e: "\<And>x. pgof x \<in> fst ` set ps \<union> fs \<or> x \<in> {bl, bl + 8, bl + 16} \<Longrightarrow> h' x = h x"
  shows "buflist_inv h' bl z mf ps fs"
proof -
  note I = buflist_invD [OF inv]
  have po: "pool h' bl z mf p bs = pool h bl z mf p bs" if "p \<in> fst ` set ps \<union> fs" for p bs
    by (rule pool_cong [OF I(1)], rule e) (use that in blast)
  have "pool h' bl z mf p bs" if "(p, bs) \<in> set ps" for p bs
  proof -
    have "p \<in> fst ` set ps" using that by (auto intro: rev_image_eqI)
    then show ?thesis using I(5) [OF that] po [of p bs] by blast
  qed
  moreover have "pool h' bl z mf p []" if "p \<in> fs" for p using I(6) [OF that] po that by blast
  moreover have "plist h' 0 c (map fst ps) = plist h 0 c (map fst ps)" for c
  proof (rule plist_cong)
    fix p assume p: "p \<in> set (map fst ps)"
    then have "pgof (p + 16) = p" "pgof (p + 24) = p" using I(9) [of p] pgof_field [of p] by auto
    then show "h' (p + 16) = h (p + 16) \<and> h' (p + 24) = h (p + 24)" using e p by auto
  qed
  moreover have "h' bl = h bl" "h' (bl + 8) = h (bl + 8)" "h' (bl + 16) = h (bl + 16)" using e by auto
  ultimately show ?thesis using inv unfolding buflist_inv_def by simp
qed

lemma free_full_state:
  assumes st: "mdb_state R bls z mf m i ps fs xs" and p: "p \<in> fs" and b: "b \<in> set (buffers z mf p)"
  shows "freed R bls z mf m i ps fs xs b"
proof -
  note S = mdb_stateD [OF st] and I = buflist_invD [OF mdb_stateD(2) [OF st]]
  let ?bl = "bls + 24 * of_nat i"
  note F = free_full [OF S(2) p b]
  have pp: "pgof p = p" "mem m (p + 32) = ?bl" using I(6) [OF p] by (auto simp: pool_def)
  define h' where "h' = (if mem m (?bl + 8) = 0 then push_buf p b (mem m)
      else (push_buf p b (mem m))(mem m (?bl + 8) + 24 := p))(p + 16 := mem m (?bl + 8), p + 24 := 0, ?bl + 8 := p)"
  note F' = F [folded h'_def]
  have run: "mdb_free_buffer b (of_nat z) m = Some (m\<lparr>mem := h'\<rparr>)"
    unfolding mdb_free_eval [OF I(1) b pp(1)] pp(2) Let_def F(2,3) h'_def using F(2,5) by auto
  have fr: "x = b \<or> x = ?bl + 8 \<or> hdr (fst ` set ps \<union> fs) x" if "h' x \<noteq> mem m x" for x
    using F'(6) [OF that] p by (auto simp: hdr_def)
  have pin: "p \<in> fst ` set ps \<union> fs" using p by simp
  have "\<forall>x. h' x \<noteq> mem m x \<longrightarrow> x = b \<or> x = ?bl + 8 \<or> hdr (fst ` set ps \<union> fs) x" using fr by blast
  note sf = state_frame [OF st b pin this]
  have st': "mdb_state R bls z mf (m\<lparr>mem := h'\<rparr>) i ((p, [b]) # ps) (fs - {p}) xs"
  proof (rule mdb_state_step [OF st])
    show "pgof ` set xs \<inter> (fst ` set ((p, [b]) # ps) \<union> (fs - {p})) = {}" using S(6) p by auto
    show "pgof ` set xs \<union> fst ` set ((p, [b]) # ps) \<union> (fs - {p}) \<subseteq> pgof ` set xs \<union> fst ` set ps \<union> fs" using p by auto
    show "free_list (m\<lparr>mem := h'\<rparr>) xs" by (rule sf(2))
    show "mem (m\<lparr>mem := h'\<rparr>) x = mem m x" if "x \<in> R" for x using sf(1) [OF that] by simp
    show "buflist_inv (mem (m\<lparr>mem := h'\<rparr>)) ?bl z mf ((p, [b]) # ps) (fs - {p})" using F'(1) by simp
  qed (rule S(7))
  have bq: "b \<notin> set (buffers z mf q)" if "q \<in> fst ` set ps \<union> (fs - {p})" for q
  proof
    assume "b \<in> set (buffers z mf q)"
    then have "pgof b = q" using pgof_buffer [OF I(1)] I(9) [of q] that by auto
    moreover have "pgof b = p" using pgof_buffer [OF I(1) b pp(1)] .
    ultimately show False using that p I(8) by auto
  qed
  have "allocd z mf ((p, [b]) # ps) (fs - {p}) = allocd z mf ps fs - {b}"
  proof -
    have "b \<notin> allocd z mf ps (fs - {p})" using allocd_page bq by blast
    moreover have "allocd z mf ps fs = set (buffers z mf p) \<union> allocd z mf ps (fs - {p})" using p by (auto simp: allocd_def)
    moreover have "allocd z mf ((p, [b]) # ps) (fs - {p}) = set (buffers z mf p) - {b} \<union> allocd z mf ps (fs - {p})"
      by (auto simp: allocd_def)
    ultimately show ?thesis by auto
  qed
  then show ?thesis unfolding freed_def using run st' fr
    by (intro exI [of _ "m\<lparr>mem := h'\<rparr>"] exI [of _ "(p, [b]) # ps"] exI [of _ "fs - {p}"] exI [of _ xs])
      (auto simp: free_frame_def)
qed

lemma free_list_state:
  assumes st: "mdb_state R bls z mf m i (us @ (p, bs) # vs) fs xs" and b: "b \<in> set (buffers z mf p)" "b \<notin> set bs"
  shows "freed R bls z mf m i (us @ (p, bs) # vs) fs xs b"
proof -
  note S = mdb_stateD [OF st] and I = buflist_invD [OF mdb_stateD(2) [OF st]]
  let ?bl = "bls + 24 * of_nat i" and ?h1 = "push_buf p b (mem m)" and ?ps = "us @ (p, bs) # vs"
  note F = free_keep [OF S(2) b] and J = buflist_invD [OF free_keep(1) [OF S(2) b]]
  have P: "pool (mem m) ?bl z mf p bs" "bs \<noteq> []" using I(5) by auto
  then have pp: "pgof p = p" "p \<noteq> 0" "mem m (p + 32) = ?bl" by (auto simp: pool_def)
  have P1: "pool ?h1 ?bl z mf p (b # bs)" using J(5) by auto
  have len: "Suc (length bs) \<le> mf"
  proof -
    have "length (b # bs) = card (set (b # bs))" using P1 distinct_card [of "b # bs"] unfolding pool_def by metis
    also have "\<dots> \<le> card (set (buffers z mf p))" using P1 by (intro card_mono) (auto simp: pool_def)
    also have "\<dots> \<le> mf" using card_length [of "buffers z mf p"] by (simp add: buffers_def)
    finally show ?thesis by simp
  qed
  have u: "unat (of_nat (Suc (length bs)) :: word_t) = Suc (length bs)"
    using len geom_size [OF I(1)] by (simp add: unat_of_nat take_bit_nat_eq_self del: of_nat_Suc)
  have n1: "?h1 (p + 8) \<noteq> 1" using F(2) u P(2) by (metis One_nat_def length_0_conv nat.inject unsigned_1)
  have nm: "?h1 (p + 8) = ?h1 (?bl + 16) \<longleftrightarrow> Suc (length bs) = mf"
    unfolding F(2) J(3) using u geom_size [OF I(1)] by metis
  have fr: "x = b \<or> x = ?bl + 8 \<or> hdr (fst ` set ?ps \<union> fs) x" if "?h1 x \<noteq> mem m x" for x
    using F(5) [OF that] by (auto simp: hdr_def)
  have pin: "p \<in> fst ` set ?ps \<union> fs" by simp
  have "\<forall>x. ?h1 x \<noteq> mem m x \<longrightarrow> x = b \<or> x = ?bl + 8 \<or> hdr (fst ` set ?ps \<union> fs) x" using fr by blast
  note sf = state_frame [OF st b(1) pin this]
  have bp: "pgof b = p" using pgof_buffer [OF I(1) b(1) pp(1)] .
  have bq: "b \<notin> set (buffers z mf q)" if "q \<in> fst ` set (us @ vs) \<union> fs" for q
  proof
    assume "b \<in> set (buffers z mf q)"
    then have "pgof b = q" using pgof_buffer [OF I(1)] I(9) [of q] that by auto
    then show False using that bp I(7) I(8) [of p bs] by auto
  qed
  have al: "allocd z mf (us @ (p, b # bs) # vs) fs = allocd z mf ?ps fs - {b}"
  proof -
    have "b \<notin> allocd z mf (us @ vs) fs" using allocd_page bq by blast
    moreover have "allocd z mf (us @ (p, cs) # vs) fs = set (buffers z mf p) - set cs \<union> allocd z mf (us @ vs) fs" for cs
      by (auto simp: allocd_def)
    ultimately show ?thesis by auto
  qed
  have st1: "mdb_state R bls z mf (m\<lparr>mem := ?h1\<rparr>) i (us @ (p, b # bs) # vs) fs xs"
  proof (rule mdb_state_step [OF st])
    have e: "fst ` set (us @ (p, b # bs) # vs) = fst ` set ?ps" by simp
    show "pgof ` set xs \<union> fst ` set (us @ (p, b # bs) # vs) \<union> fs \<subseteq> pgof ` set xs \<union> fst ` set ?ps \<union> fs"
      unfolding e by (rule subset_refl)
    show "pgof ` set xs \<inter> (fst ` set (us @ (p, b # bs) # vs) \<union> fs) = {}" unfolding e by (rule S(6))
    show "free_list (m\<lparr>mem := ?h1\<rparr>) xs" by (rule sf(2))
    show "mem (m\<lparr>mem := ?h1\<rparr>) x = mem m x" if "x \<in> R" for x using sf(1) [OF that] by simp
    show "buflist_inv (mem (m\<lparr>mem := ?h1\<rparr>)) ?bl z mf (us @ (p, b # bs) # vs) fs" using F(1) by simp
  qed (rule S(7))
  show ?thesis
  proof (cases "Suc (length bs) = mf")
    case False
    have run: "mdb_free_buffer b (of_nat z) m = Some (m\<lparr>mem := ?h1\<rparr>)"
      unfolding mdb_free_eval [OF I(1) b(1) pp(1)] pp(3) Let_def using n1 nm False by simp
    show ?thesis unfolding freed_def using run st1 fr al
      by (intro exI [of _ "m\<lparr>mem := ?h1\<rparr>"] exI [of _ "us @ (p, b # bs) # vs"] exI [of _ fs] exI [of _ xs])
        (auto simp: free_frame_def)
  next
    case True
    let ?h2 = "unlink_page ?bl p ?h1"
    note U = unlink_inv [OF F(1)]
    have run: "mdb_free_buffer b (of_nat z) m = kmem_free p MDB_ALLOC_CHUNKSZ (m\<lparr>mem := ?h2\<rparr>)"
      unfolding mdb_free_eval [OF I(1) b(1) pp(1)] pp(3) Let_def using n1 nm True by simp
    have fr2: "x = b \<or> x = ?bl + 8 \<or> hdr (fst ` set ?ps \<union> fs) x" if "?h2 x \<noteq> mem m x" for x
    proof (cases "?h2 x = ?h1 x")
      case False
      then consider "x = ?bl + 8" | q where "q \<in> fst ` set (us @ vs)" "x = q + 16 \<or> x = q + 24" using U(2) by blast
      then show ?thesis
      proof cases
        case (2 q)
        then have "q \<in> fst ` set ?ps \<union> fs" by auto
        then show ?thesis using 2 hdr_field [of q "fst ` set ?ps \<union> fs" 16] hdr_field [of q "fst ` set ?ps \<union> fs" 24] I(9) [of q] by auto
      qed simp
    qed (use fr that in simp)
    have "\<forall>x. ?h2 x \<noteq> mem m x \<longrightarrow> x = b \<or> x = ?bl + 8 \<or> hdr (fst ` set ?ps \<union> fs) x" using fr2 by blast
  note sf2 = state_frame [OF st b(1) pin this]
    have px: "p \<notin> pgof ` set xs" using S(4) by auto
    obtain m' where m': "kmem_free p MDB_ALLOC_CHUNKSZ (m\<lparr>mem := ?h2\<rparr>) = Some m'" "free_list m' (insert_run p 4 xs)"
        "\<forall>x. x \<in> set xs \<or> pgof x = p \<or> mem m' x = ?h2 x"
      using free_page [OF sf2(2) pp(1,2) px] by auto
    have full: "set (b # bs) = set (buffers z mf p)"
    proof (rule card_subset_eq)
      show "set (b # bs) \<subseteq> set (buffers z mf p)" using P1 by (simp add: pool_def)
      have "card (set (buffers z mf p)) = mf" using buffers_distinct [OF I(1)] distinct_card by (fastforce simp: buffers_def)
      moreover have "card (set (b # bs)) = length (b # bs)" using P1 distinct_card unfolding pool_def by blast
      ultimately show "card (set (b # bs)) = card (set (buffers z mf p))" using True by simp
    qed simp
    have al2: "allocd z mf (us @ vs) fs = allocd z mf ?ps fs - {b}"
    proof -
      have "allocd z mf (us @ vs) fs = allocd z mf (us @ (p, b # bs) # vs) fs" using full by (auto simp: allocd_def)
      then show ?thesis using al by simp
    qed
    have pn: "p \<notin> fst ` set (us @ vs) \<union> fs" using I(7) I(8) [of p bs] by auto
    have xs': "pgof ` set (insert_run p 4 xs) \<subseteq> insert p (pgof ` set xs)"
      using run_page [OF pp(1)] by (auto simp: set_insert_run)
    have out: "mem m' x = ?h2 x" if "x \<notin> set xs" "pgof x \<noteq> p" for x using m'(3) that by blast
    have inv': "buflist_inv (mem m') ?bl z mf (us @ vs) fs"
    proof (rule buflist_inv_cong [OF U(1)])
      fix x assume x: "pgof x \<in> fst ` set (us @ vs) \<union> fs \<or> x \<in> {?bl, ?bl + 8, ?bl + 16}"
      have "pgof x \<notin> pgof ` set xs" using x S(6,7) by auto
      moreover have "pgof x \<noteq> p" using x pn I(9) [of p] by auto
      ultimately show "mem m' x = ?h2 x" by (intro out) auto
    qed
    have "mdb_state R bls z mf m' i (us @ vs) fs (insert_run p 4 xs)"
    proof (rule mdb_state_step [OF st _ inv' m'(2)])
      show "mem m' x = mem m x" if "x \<in> R" for x
      proof -
        have "pgof x \<notin> pgof ` set xs" "pgof x \<noteq> p" using S(5) [OF that] by auto
        then have "mem m' x = ?h2 x" by (intro out) auto
        then show ?thesis using sf2(1) [OF that] by simp
      qed
      show "pgof ` set (insert_run p 4 xs) \<union> fst ` set (us @ vs) \<union> fs \<subseteq> pgof ` set xs \<union> fst ` set ?ps \<union> fs"
        using xs' by auto
      have "insert p (pgof ` set xs) \<inter> (fst ` set (us @ vs) \<union> fs) = {}" using S(6) pn by auto
      then show "pgof ` set (insert_run p 4 xs) \<inter> (fst ` set (us @ vs) \<union> fs) = {}" using xs' by blast
      have "insert p (pgof ` set xs) \<inter> {pgof ?bl, pgof (?bl + 8), pgof (?bl + 16)} = {}" using S(7) I(9) [of p] by auto
      then show "pgof ` set (insert_run p 4 xs) \<inter> {pgof ?bl, pgof (?bl + 8), pgof (?bl + 16)} = {}" using xs' by blast
    qed
    moreover have "free_frame b ?bl (fst ` set ?ps \<union> fs) (fst ` set (us @ vs) \<union> fs) (pgof ` set xs) x" if "mem m' x \<noteq> mem m x" for x
      using that m'(3) fr2 [of x] pn bp by (auto simp: free_frame_def)
    ultimately show ?thesis unfolding freed_def using run m'(1) al2 by metis
  qed
qed

lemma mdb_free_inv:
  assumes inv: "mdb_inv R bls z mf m A" and b: "b \<in> A"
  shows "\<exists>m'. mdb_free_buffer b (of_nat z) m = Some m' \<and> mdb_inv R bls z mf m' (A - {b}) \<and>
    (\<forall>x \<in> R. mem m' x = mem m x) \<and> (\<forall>a \<in> A - {b}. \<forall>k<z. mem m' (a + of_nat k) = mem m (a + of_nat k))"
proof -
  obtain i ps fs xs where st: "mdb_state R bls z mf m i ps fs xs" and A: "A = allocd z mf ps fs"
    using inv unfolding mdb_inv_def by blast
  note S = mdb_stateD [OF st] and I = buflist_invD [OF mdb_stateD(2) [OF st]]
  let ?bl = "bls + 24 * of_nat i"
  have "freed R bls z mf m i ps fs xs b"
  proof -
    consider p where "p \<in> fs" "b \<in> set (buffers z mf p)" | p bs where "(p, bs) \<in> set ps" "b \<in> set (buffers z mf p)" "b \<notin> set bs"
      using b unfolding A allocd_def by auto
    then show ?thesis
    proof cases
      case (1 p)
      then show ?thesis using free_full_state [OF st] by blast
    next
      case (2 p bs)
      then obtain us vs where "ps = us @ (p, bs) # vs" by (meson split_list)
      then show ?thesis using free_list_state [of R bls z mf m i us p bs vs fs xs b] st 2 by simp
    qed
  qed
  then obtain m' ps' fs' xs' where m': "mdb_free_buffer b (of_nat z) m = Some m'" "mdb_state R bls z mf m' i ps' fs' xs'"
      "allocd z mf ps' fs' = A - {b}"
      "\<forall>x. mem m' x \<noteq> mem m x \<longrightarrow> free_frame b ?bl (fst ` set ps \<union> fs) (fst ` set ps' \<union> fs') (pgof ` set xs) x"
    unfolding freed_def A by blast
  note S' = mdb_stateD [OF m'(2)] and I' = buflist_invD [OF mdb_stateD(2) [OF m'(2)]]
  obtain p where p: "p \<in> fst ` set ps \<union> fs" "b \<in> set (buffers z mf p)" using allocd_page [of b z mf ps fs] b A by blast
  have bp: "pgof b = p" using pgof_buffer [OF I(1) p(2)] I(9) [OF p(1)] by blast
  have "mem m' x = mem m x" if "x \<in> R" for x
  proof (rule ccontr)
    assume "mem m' x \<noteq> mem m x"
    then have "free_frame b ?bl (fst ` set ps \<union> fs) (fst ` set ps' \<union> fs') (pgof ` set xs) x" using m'(4) by blast
    moreover have "pgof x \<noteq> pgof b" using S(5) [OF that] p(1) bp by (metis Un_assoc UnI2)
    moreover have "x \<noteq> b" using calculation(2) by blast
    ultimately show False using S(5) [OF that] unfolding free_frame_def hdr_def by simp
  qed
  moreover have "mem m' (a + of_nat k) = mem m (a + of_nat k)" if a: "a \<in> A - {b}" and k: "k < z" for a k
  proof (rule ccontr)
    assume "mem m' (a + of_nat k) \<noteq> mem m (a + of_nat k)"
    then have ff: "free_frame b ?bl (fst ` set ps \<union> fs) (fst ` set ps' \<union> fs') (pgof ` set xs) (a + of_nat k)" using m'(4) by blast
    obtain q where q: "q \<in> fst ` set ps \<union> fs" "a \<in> set (buffers z mf q)" using allocd_page [of a z mf ps fs] a A by blast
    obtain q' where q': "q' \<in> fst ` set ps' \<union> fs'" "a \<in> set (buffers z mf q')" using allocd_page [of a z mf ps' fs'] a m'(3) by blast
    note w = buffer_word [OF I(1) q(2) _ k]
    have qq: "pgof a = q" "pgof a = q'" "pgof q = q"
      using pgof_buffer [OF I(1)] q q' I(9) [OF q(1)] I'(9) [OF q'(1)] by blast+
    have "a + of_nat k \<noteq> b"
    proof (cases "p = q")
      case True
      then show ?thesis using buffers_apart [OF I(1) q(2) _ _ k, of b] p(2) a by blast
    next
      case False
      then show ?thesis using w(1) [OF qq(3)] bp by metis
    qed
    moreover have "pgof (?bl + 8) \<noteq> q" using I(9) [OF q(1)] by blast
    then have "a + of_nat k \<noteq> ?bl + 8" using w(1) [OF qq(3)] by metis
    moreover have "q \<notin> pgof ` set xs" using S(6) q(1) by blast
    ultimately have "pgof (a + of_nat k) = pgof b" "pgof b \<notin> fst ` set ps' \<union> fs'"
      using ff w [OF qq(3)] unfolding free_frame_def by simp_all
    then show False using w(1) [OF qq(3)] qq(1,2) q'(1) by simp
  qed
  moreover have "mdb_inv R bls z mf m' (A - {b})" unfolding mdb_inv_def using m'(2) m'(3) [symmetric] by blast
  ultimately show ?thesis using m'(1) by blast
qed

section \<open>The contract of the buffer allocator\<close>

interpretation mb: block_allocator "mdb_inv R bls z mf" "mdb_alloc_buffer bls (of_nat z)"
  "\<lambda>b. mdb_free_buffer b (of_nat z)" "\<lambda>m b. map (\<lambda>k. mem m (b + of_nat k)) [0..<z]" "\<lambda>m x. if x \<in> R then mem m x else 0"
  for R bls z mf
proof (unfold_locales, goal_cases)
  case (1 m A b m') then show ?case using mdb_alloc_inv by blast
next
  case (2 m A b m') then show ?case using mdb_alloc_inv by blast
next
  case (3 m A b m' a) then show ?case using mdb_alloc_inv [of R bls z mf m A b m'] by auto
next
  case (4 m A b m') then show ?case using mdb_alloc_inv [of R bls z mf m A b m'] by auto
next
  case (5 m A b) then show ?case using mdb_free_inv by blast
next
  case (6 m A b m') then show ?case using mdb_free_inv [of R bls z mf m A b] by auto
next
  case (7 m A b m' a) then show ?case using mdb_free_inv [of R bls z mf m A b] by auto
next
  case (8 m A b m') then show ?case using mdb_free_inv [of R bls z mf m A b] by auto
qed

lemma mdb_alloc_returns:
  assumes inv: "mdb_inv R bls z mf m A" and k: "kmem_alloc MDB_ALLOC_CHUNKSZ m \<noteq> None"
  shows "mdb_alloc_buffer bls (of_nat z) m \<noteq> None"
proof -
  obtain i ps fs xs where st: "mdb_state R bls z mf m i ps fs xs" using inv unfolding mdb_inv_def by blast
  obtain c m0 where c: "kmem_alloc MDB_ALLOC_CHUNKSZ m = Some (c, m0)" using k by auto
  show ?thesis
  proof (cases ps)
    case Nil
    then show ?thesis using new_state [OF st [unfolded Nil] c] mdb_alloc_cases [OF st] by auto
  next
    case (Cons p ps')
    then show ?thesis using mdb_alloc_cases [OF st] by (cases p) simp
  qed
qed

text \<open>The array has room for every size that the mapping database asks for, and each entry starts without pages.\<close>

lemma init_state:
  assumes fl: "free_list m xs" and zm: "(z, mf, i) \<in> {(24, 169, 0), (16, 253, 1), (32, 126, 2), (2048, 1, 3)}"
    and arr: "\<forall>k<16. pgof (bls + 8 * of_nat k) \<notin> pgof ` set xs"
    and R: "\<forall>x \<in> R. pgof x \<notin> pgof ` set xs \<and> x \<notin> {bls + 8, bls + 32, bls + 56, bls + 80}"
    and sz: "{bls, bls + 24, bls + 48, bls + 72} \<subseteq> R"
  shows "\<exists>m'. mdb_buflist_init bls m = Some m' \<and> free_list m' xs \<and> mdb_state R bls z mf m' i [] {} xs"
proof -
  define h where "h = (mem m)
     (bls := 24, bls + 24 := 16, bls + 48 := 32, bls + 72 := 2048, bls + 96 := 4096, bls + 120 := 0,
      bls + 8 := 0, bls + 16 := 169, bls + 32 := 0, bls + 40 := 253, bls + 56 := 0, bls + 64 := 126,
      bls + 80 := 0, bls + 88 := 1, bls + 104 := 0)"
  have out: "h x = mem m x" if "x \<in> set xs" for x
  proof -
    have "x \<noteq> bls + 8 * of_nat k" if "k < 16" for k using arr that \<open>x \<in> set xs\<close> by (metis imageI)
    from this [of 0] this [of 1] this [of 2] this [of 3] this [of 4] this [of 5] this [of 6] this [of 7]
      this [of 8] this [of 9] this [of 10] this [of 11] this [of 12] this [of 13] this [of 15]
    show ?thesis by (simp add: h_def)
  qed
  have fl': "free_list (m\<lparr>mem := h\<rparr>) xs" by (rule free_list_cong [OF fl out])
  have a: "pgof (bls + 8 * of_nat k) \<notin> pgof ` set xs" if "k < 16" for k using arr that by blast
  have st: "mdb_state R bls z mf (m\<lparr>mem := h\<rparr>) i [] {} xs"
    if i: "i < 4" and g: "geom z mf" and hi: "h (bls + 24 * of_nat i) = of_nat z" "h (bls + 24 * of_nat i + 8) = 0"
      "h (bls + 24 * of_nat i + 16) = of_nat mf" and d: "\<forall>j<i. h (bls + 24 * of_nat j) \<notin> {0, of_nat z}"
  proof -
    have "bls + 24 * of_nat j \<in> R" if "j \<le> i" for j
    proof -
      have "j = 0 \<or> j = 1 \<or> j = 2 \<or> j = 3" using i that by linarith
      then show ?thesis using sz by auto
    qed
    moreover have "x \<noteq> bls + 24 * of_nat i + 8" if "x \<in> R" for x
    proof -
      have "i = 0 \<or> i = 1 \<or> i = 2 \<or> i = 3" using i by linarith
      moreover have "x \<noteq> bls + 8" "x \<noteq> bls + 32" "x \<noteq> bls + 56" "x \<noteq> bls + 80" using R that by blast+
      ultimately show ?thesis by (elim disjE) (simp_all add: add.assoc)
    qed
    moreover have "pgof (bls + 24 * of_nat i) \<notin> pgof ` set xs" "pgof (bls + 24 * of_nat i + 8) \<notin> pgof ` set xs"
        "pgof (bls + 24 * of_nat i + 16) \<notin> pgof ` set xs"
    proof -
      have e: "bls + 24 * of_nat i = bls + 8 * of_nat (3 * i)" "bls + 24 * of_nat i + 8 = bls + 8 * of_nat (3 * i + 1)"
        "bls + 24 * of_nat i + 16 = bls + 8 * of_nat (3 * i + 2)" by simp_all
      show "pgof (bls + 24 * of_nat i) \<notin> pgof ` set xs" unfolding e(1) by (rule a) (use i in simp)
      show "pgof (bls + 24 * of_nat i + 8) \<notin> pgof ` set xs" unfolding e(2) by (rule a) (use i in simp)
      show "pgof (bls + 24 * of_nat i + 16) \<notin> pgof ` set xs" unfolding e(3) by (rule a) (use i in simp)
    qed
    moreover have "pgof x \<notin> pgof ` set xs" if "x \<in> R" for x using R that by blast
    ultimately show ?thesis using i g hi d fl' by (simp add: mdb_state_def buflist_inv_def MDB_NUM_PGSIZES_def)
  qed
  have "mdb_state R bls z mf (m\<lparr>mem := h\<rparr>) i [] {} xs"
  proof -
    have hv: "h bls = 24" "h (bls + 24) = 16" "h (bls + 48) = 32" "h (bls + 72) = 2048" "h (bls + 8) = 0" "h (bls + 32) = 0"
      "h (bls + 56) = 0" "h (bls + 80) = 0" "h (bls + 16) = 169" "h (bls + 40) = 253" "h (bls + 64) = 126" "h (bls + 88) = 1"
      by (simp_all add: h_def)
    have d: "\<forall>j<i. h (bls + 24 * of_nat j) \<notin> {0, of_nat z}"
    proof (intro allI impI)
      fix j assume "j < i"
      then have "j = 0 \<and> i > 0 \<or> j = 1 \<and> i > 1 \<or> j = 2 \<and> i > 2" using zm by auto
      then show "h (bls + 24 * of_nat j) \<notin> {0, of_nat z}" using zm hv(1-4) by auto
    qed
    show ?thesis using zm hv by (intro st d) (auto simp: geom_def add.assoc)
  qed
  then show ?thesis using mdb_buflist_init_result [of bls m] fl' by (auto simp: h_def)
qed

lemma state_empty: "mdb_state R bls z mf m i [] {} xs \<Longrightarrow> mdb_inv R bls z mf m {}"
  unfolding mdb_inv_def by (rule exI [of _ i], rule exI [of _ "[]"], rule exI [of _ "{}"]) (auto simp: allocd_def)

text \<open>\<^verbatim>\<open>mdb_buflist_init\<close> returns and leaves, for every size below a page that the mapping
  database uses (mapping nodes of 24 bytes, dual nodes of 16, root arrays of 32 and 2048), a
  buffer list on which the allocator works: the buffers of that size fit behind the management
  structure of a page, and no buffer is in use.\<close>

theorem mdb_buflist_init_ready:
  assumes "free_list m xs" and "(z, mf) \<in> {(24, 169), (16, 253), (32, 126), (2048, 1)}"
    and "\<forall>k<16. pgof (bls + 8 * of_nat k) \<notin> pgof ` set xs"
    and "\<forall>x \<in> R. pgof x \<notin> pgof ` set xs \<and> x \<notin> {bls + 8, bls + 32, bls + 56, bls + 80}"
    and "{bls, bls + 24, bls + 48, bls + 72} \<subseteq> R"
  shows "\<exists>m'. mdb_buflist_init bls m = Some m' \<and> free_list m' xs \<and> mdb_inv R bls z mf m' {}"
proof -
  obtain i where "(z, mf, i) \<in> {(24, 169, 0), (16, 253, 1), (32, 126, 2), (2048, 1, 3 :: nat)}" using assms(2) by auto
  from init_state [OF assms(1) this assms(3-5)] obtain m' where
    m': "mdb_buflist_init bls m = Some m'" "free_list m' xs" "mdb_state R bls z mf m' i [] {} xs" by blast
  have "mdb_inv R bls z mf m' {}" by (rule state_empty [OF m'(3)])
  then show ?thesis using m'(1,2) by blast
qed

definition five_chunks :: memory where
  "five_chunks = \<lparr>mem = (\<lambda>x. if x \<in> {0x10000, 0x10400, 0x10800, 0x10c00} then x + 0x400 else 0),
     kmem_free_list = 0x10000, free_chunks = 5\<rparr>"

lemma five_chunks_list: "free_list five_chunks [0x10000, 0x10400, 0x10800, 0x10c00, 0x11000]"
  by (simp add: free_list_def five_chunks_def)

lemma buflists_apart: "k < 16 \<Longrightarrow> pgof (0x40000 + 8 * of_nat k) = 0x40000"
  using pgof_add [of "0x40000" "8 * k"] by (simp add: pgof_def)

theorem mdb_buflist_init_ready_witness:
  "\<exists>m'. mdb_buflist_init 0x40000 five_chunks = Some m' \<and>
     mdb_inv {0x40000, 0x40018, 0x40030, 0x40048} 0x40000 24 169 m' {}"
  using mdb_buflist_init_ready [OF five_chunks_list, of 24 169 "0x40000" "{0x40000, 0x40018, 0x40030, 0x40048}"]
  by (simp add: buflists_apart) (auto simp: pgof_def)

text \<open>C28: buffers of the mapping database are exclusive.  An allocation succeeds whenever the kernel
  memory has a page left.  Any number of successive requests for buffers of one size returns
  distinct buffers that were not in use, keeps the contents of the buffers in use and of the
  rest of the memory; returning them always succeeds and restores the set of buffers in use,
  with their contents.\<close>

theorem mdb_buffers_exclusive:
  assumes "mdb_inv R bls z mf m A" and "allocs (mdb_alloc_buffer bls (of_nat z)) k m = Some (bs, m')"
  shows "(kmem_alloc MDB_ALLOC_CHUNKSZ m' \<noteq> None \<longrightarrow> mdb_alloc_buffer bls (of_nat z) m' \<noteq> None) \<and>
    length bs = k \<and> distinct bs \<and> set bs \<inter> A = {} \<and> mdb_inv R bls z mf m' (A \<union> set bs) \<and>
    (\<forall>x \<in> R. mem m' x = mem m x) \<and> (\<forall>a \<in> A. \<forall>i<z. mem m' (a + of_nat i) = mem m (a + of_nat i)) \<and>
    (\<exists>m''. frees (\<lambda>b. mdb_free_buffer b (of_nat z)) bs m' = Some m'' \<and> mdb_inv R bls z mf m'' A \<and>
       (\<forall>x \<in> R. mem m'' x = mem m x) \<and> (\<forall>a \<in> A. \<forall>i<z. mem m'' (a + of_nat i) = mem m (a + of_nat i)))"
proof -
  have e: "(\<lambda>x. if x \<in> R then mem m1 x else 0) = (\<lambda>x. if x \<in> R then mem m x else 0) \<Longrightarrow> \<forall>x \<in> R. mem m1 x = mem m x" for m1
    by (metis (mono_tags))
  note D = mb.allocs_distinct [OF assms] and F = mb.allocs_frees [OF assms]
  have "\<forall>x \<in> R. mem m' x = mem m x" using D e by blast
  moreover obtain m'' where m'': "frees (\<lambda>b. mdb_free_buffer b (of_nat z)) bs m' = Some m''" "mdb_inv R bls z mf m'' A"
    "\<forall>x \<in> R. mem m'' x = mem m x" "\<forall>a \<in> A. \<forall>i<z. mem m'' (a + of_nat i) = mem m (a + of_nat i)"
  proof -
    obtain m2 where m2: "frees (\<lambda>b. mdb_free_buffer b (of_nat z)) bs m' = Some m2" "mdb_inv R bls z mf m2 A"
      "\<forall>a \<in> A. map (\<lambda>k. mem m2 (a + of_nat k)) [0..<z] = map (\<lambda>k. mem m (a + of_nat k)) [0..<z]"
      "(\<lambda>x. if x \<in> R then mem m2 x else 0) = (\<lambda>x. if x \<in> R then mem m x else 0)" using F by blast
    have "\<forall>a \<in> A. \<forall>i<z. mem m2 (a + of_nat i) = mem m (a + of_nat i)" using m2(3) by simp
    then show ?thesis using that m2(1,2) e [OF m2(4)] by blast
  qed
  ultimately show ?thesis using D mdb_alloc_returns by auto
qed

theorem mdb_buffers_exclusive_witness:
  "\<exists>m b m'. mdb_buflist_init 0x40000 five_chunks = Some m \<and> allocs (mdb_alloc_buffer 0x40000 24) 1 m = Some ([b], m') \<and>
     mdb_inv {0x40000, 0x40018, 0x40030, 0x40048} 0x40000 24 169 m' {b} \<and> mdb_free_buffer b 24 m' \<noteq> None"
proof -
  let ?R = "{0x40000, 0x40018, 0x40030, 0x40048} :: word_t set"
  have "\<exists>m. mdb_buflist_init 0x40000 five_chunks = Some m \<and> free_list m [0x10000, 0x10400, 0x10800, 0x10c00, 0x11000] \<and>
      mdb_state ?R 0x40000 24 169 m 0 [] {} [0x10000, 0x10400, 0x10800, 0x10c00, 0x11000]"
    by (rule init_state [OF five_chunks_list]) (simp_all add: buflists_apart, simp_all add: pgof_def)
  then obtain m where m: "mdb_buflist_init 0x40000 five_chunks = Some m"
      "free_list m [0x10000, 0x10400, 0x10800, 0x10c00, 0x11000]" "mdb_inv ?R 0x40000 24 169 m {}"
    using state_empty by blast
  have "kmem_alloc MDB_ALLOC_CHUNKSZ m \<noteq> None"
  proof -
    have "run 0x10000 4 = [0x10000, 0x10400, 0x10800, 0x10c00]" by (simp add: run_map upt_rec KMEM_CHUNKSIZE_def)
    then have "first_run (\<lambda>c. c AND (of_nat 4 * KMEM_CHUNKSIZE - 1) = 0) 4 [0x10000, 0x10400, 0x10800, 0x10c00, 0x11000] \<noteq> None"
      by (simp add: KMEM_CHUNKSIZE_def)
    moreover have "MDB_ALLOC_CHUNKSZ = of_nat 4 * KMEM_CHUNKSIZE" by (simp add: MDB_ALLOC_CHUNKSZ_def KMEM_CHUNKSIZE_def)
    ultimately show ?thesis using kmem_alloc_scan [OF m(2), of 4, OF _ _ refl]
      by (simp only: option.map_disc_iff) simp
  qed
  then obtain b m' where b: "mdb_alloc_buffer 0x40000 24 m = Some (b, m')"
    using mdb_alloc_returns [OF m(3)] by auto
  then have al: "allocs (mdb_alloc_buffer 0x40000 (of_nat 24)) 1 m = Some ([b], m')" by simp
  show ?thesis using mdb_buffers_exclusive [OF m(3) al] m(1) al by (auto split: option.splits)
qed

declare set_raw_collapse [simp del]

end
