(* ===== verification/Mapping_Node.thy ===== *)
theory Mapping_Node
  imports Mdb_Free
begin

text \<open>
  The nodes of the mapping database (\<^verbatim>\<open>mapping.h\<close>): mapping nodes of three words, root nodes of
  one word and dual nodes of two.  A node is named by its address in kernel memory; its fields are
  the C bit fields of its words (on a big-endian machine the first field of a word is its most
  significant one).  A mapping node keeps the exclusive or of the address of its predecessor and of
  its page table entry in one field, so that each of the two can be had from the other.
\<close>

section \<open>Mapping nodes\<close>

type_synonym mapnode_p = word_t
type_synonym rootnode_p = word_t
type_synonym dualnode_p = word_t
type_synonym space_p = word_t

definition MDB_SPACE_BITS :: nat where "MDB_SPACE_BITS = 64 - 11"

definition map_x_is_prev_root :: "mapnode_p \<Rightarrow> memory \<Rightarrow> bool" where
  "map_x_is_prev_root n m \<longleftrightarrow> bf_get 63 1 (mem m n) \<noteq> 0"

definition map_x_prev_ptr :: "mapnode_p \<Rightarrow> memory \<Rightarrow> word_t" where
  "map_x_prev_ptr n m = bf_get 0 63 (mem m n)"

definition map_x_is_next_root :: "mapnode_p \<Rightarrow> memory \<Rightarrow> bool" where
  "map_x_is_next_root n m \<longleftrightarrow> bf_get 63 1 (mem m (n + 16)) \<noteq> 0"

definition map_x_is_next_map :: "mapnode_p \<Rightarrow> memory \<Rightarrow> bool" where
  "map_x_is_next_map n m \<longleftrightarrow> bf_get 62 1 (mem m (n + 16)) \<noteq> 0"

definition map_x_next_ptr :: "mapnode_p \<Rightarrow> memory \<Rightarrow> word_t" where
  "map_x_next_ptr n m = bf_get 0 62 (mem m (n + 16))"

text \<open>The fields of a dual node.\<close>

definition dual_map :: "dualnode_p \<Rightarrow> word_t" where "dual_map d = d"
definition dual_root :: "dualnode_p \<Rightarrow> word_t" where "dual_root d = d + 8"

text \<open>Previous pointer and backing pointer; both overloads of \<^verbatim>\<open>get_pgent\<close> have the same body.\<close>

definition map_get_pgent :: "mapnode_p \<Rightarrow> word_t \<Rightarrow> memory \<Rightarrow> pgent_p" where
  "map_get_pgent n prev m = push_bit 1 (map_x_prev_ptr n m) XOR prev"

definition get_prevmap :: "mapnode_p \<Rightarrow> pgent_p \<Rightarrow> memory \<Rightarrow> mapnode_p" where
  "get_prevmap n pg m = (if map_x_is_prev_root n m then 0 else push_bit 1 (map_x_prev_ptr n m) XOR pg)"

definition get_prevroot :: "mapnode_p \<Rightarrow> pgent_p \<Rightarrow> memory \<Rightarrow> rootnode_p" where
  "get_prevroot n pg m = (if \<not> map_x_is_prev_root n m then 0 else push_bit 1 (map_x_prev_ptr n m) XOR pg)"

definition set_backlink_map :: "mapnode_p \<Rightarrow> mapnode_p \<Rightarrow> pgent_p \<Rightarrow> memory \<Rightarrow> memory" where
  "set_backlink_map n prev pg m = set_raw n (bf_set 63 1 0 (bf_set 0 63 (drop_bit 1 (prev XOR pg)) (mem m n))) m"

definition set_backlink_root :: "mapnode_p \<Rightarrow> rootnode_p \<Rightarrow> pgent_p \<Rightarrow> memory \<Rightarrow> memory" where
  "set_backlink_root n prev pg m = set_raw n (bf_set 63 1 1 (bf_set 0 63 (drop_bit 1 (prev XOR pg)) (mem m n))) m"

definition is_prev_root :: "mapnode_p \<Rightarrow> memory \<Rightarrow> bool" where
  "is_prev_root n m = map_x_is_prev_root n m"

text \<open>Next pointer.\<close>

definition get_nextmap :: "mapnode_p \<Rightarrow> memory \<Rightarrow> mapnode_p" where
  "get_nextmap n m =
     (if \<not> map_x_is_next_map n m then 0
      else if map_x_is_next_root n m then mem m (dual_map (push_bit 2 (map_x_next_ptr n m)))
      else push_bit 2 (map_x_next_ptr n m))"

definition get_nextroot :: "mapnode_p \<Rightarrow> memory \<Rightarrow> rootnode_p" where
  "get_nextroot n m =
     (if \<not> map_x_is_next_root n m then 0
      else if map_x_is_next_map n m then mem m (dual_root (push_bit 2 (map_x_next_ptr n m)))
      else push_bit 2 (map_x_next_ptr n m))"

definition get_nextdual :: "mapnode_p \<Rightarrow> memory \<Rightarrow> dualnode_p" where
  "get_nextdual n m =
     (if map_x_is_next_root n m \<and> map_x_is_next_map n m then push_bit 2 (map_x_next_ptr n m) else 0)"

definition set_next_ptr :: "word_t \<Rightarrow> bool \<Rightarrow> bool \<Rightarrow> word_t \<Rightarrow> memory \<Rightarrow> memory" where
  "set_next_ptr a is_root is_map p m =
     set_raw a (bf_set 62 1 (of_bool is_map) (bf_set 63 1 (of_bool is_root) (bf_set 0 62 (drop_bit 2 p) (mem m a)))) m"

definition set_next_map :: "mapnode_p \<Rightarrow> mapnode_p \<Rightarrow> memory \<Rightarrow> memory" where
  "set_next_map n mp m = set_next_ptr (n + 16) False True mp m"

definition set_next_root :: "mapnode_p \<Rightarrow> rootnode_p \<Rightarrow> memory \<Rightarrow> memory" where
  "set_next_root n root m = set_next_ptr (n + 16) True False root m"

definition set_next_dual :: "mapnode_p \<Rightarrow> dualnode_p \<Rightarrow> memory \<Rightarrow> memory" where
  "set_next_dual n dual m = set_next_ptr (n + 16) True True dual m"

definition is_next_root :: "mapnode_p \<Rightarrow> memory \<Rightarrow> bool" where
  "is_next_root n m \<longleftrightarrow> map_x_is_next_root n m \<and> \<not> map_x_is_next_map n m"

definition is_next_map :: "mapnode_p \<Rightarrow> memory \<Rightarrow> bool" where
  "is_next_map n m \<longleftrightarrow> map_x_is_next_map n m \<and> \<not> map_x_is_next_root n m"

definition is_next_both :: "mapnode_p \<Rightarrow> memory \<Rightarrow> bool" where
  "is_next_both n m \<longleftrightarrow> map_x_is_next_root n m \<and> map_x_is_next_map n m"

text \<open>Address space, reference bits and tree depth.\<close>

definition map_get_space :: "mapnode_p \<Rightarrow> memory \<Rightarrow> space_p" where
  "map_get_space n m = push_bit (64 - MDB_SPACE_BITS) (bf_get 0 MDB_SPACE_BITS (mem m (n + 8)))"

definition map_set_space :: "mapnode_p \<Rightarrow> space_p \<Rightarrow> memory \<Rightarrow> memory" where
  "map_set_space n sp m =
     set_raw (n + 8) (bf_set 0 MDB_SPACE_BITS (drop_bit (64 - MDB_SPACE_BITS) sp) (mem m (n + 8))) m"

definition map_get_rwx :: "mapnode_p \<Rightarrow> memory \<Rightarrow> word_t" where
  "map_get_rwx n m = bf_get MDB_SPACE_BITS 3 (mem m (n + 8))"

definition map_set_rwx :: "mapnode_p \<Rightarrow> word_t \<Rightarrow> memory \<Rightarrow> memory" where
  "map_set_rwx n rwx m = set_raw (n + 8) (bf_set MDB_SPACE_BITS 3 rwx (mem m (n + 8))) m"

definition map_update_rwx :: "mapnode_p \<Rightarrow> word_t \<Rightarrow> memory \<Rightarrow> memory" where
  "map_update_rwx n rwx m = map_set_rwx n (map_get_rwx n m OR rwx) m"

definition map_get_depth :: "mapnode_p \<Rightarrow> memory \<Rightarrow> word_t" where
  "map_get_depth n m = bf_get (MDB_SPACE_BITS + 3) (64 - MDB_SPACE_BITS - 3) (mem m (n + 8))"

definition map_set_depth :: "mapnode_p \<Rightarrow> word_t \<Rightarrow> memory \<Rightarrow> memory" where
  "map_set_depth n depth m =
     set_raw (n + 8) (bf_set (MDB_SPACE_BITS + 3) (64 - MDB_SPACE_BITS - 3) depth (mem m (n + 8))) m"

section \<open>Root nodes\<close>

definition root_x_is_next_root :: "rootnode_p \<Rightarrow> memory \<Rightarrow> bool" where
  "root_x_is_next_root r m \<longleftrightarrow> bf_get 63 1 (mem m r) \<noteq> 0"

definition root_x_is_next_map :: "rootnode_p \<Rightarrow> memory \<Rightarrow> bool" where
  "root_x_is_next_map r m \<longleftrightarrow> bf_get 62 1 (mem m r) \<noteq> 0"

definition root_x_next_ptr :: "rootnode_p \<Rightarrow> memory \<Rightarrow> word_t" where
  "root_x_next_ptr r m = bf_get 0 62 (mem m r)"

definition root_get_map :: "rootnode_p \<Rightarrow> memory \<Rightarrow> mapnode_p" where
  "root_get_map r m =
     (if \<not> root_x_is_next_map r m then 0
      else if root_x_is_next_root r m then mem m (dual_map (push_bit 2 (root_x_next_ptr r m)))
      else push_bit 2 (root_x_next_ptr r m))"

definition root_get_root :: "rootnode_p \<Rightarrow> memory \<Rightarrow> rootnode_p" where
  "root_get_root r m =
     (if \<not> root_x_is_next_root r m then 0
      else if root_x_is_next_map r m then mem m (dual_root (push_bit 2 (root_x_next_ptr r m)))
      else push_bit 2 (root_x_next_ptr r m))"

definition root_get_dual :: "rootnode_p \<Rightarrow> memory \<Rightarrow> dualnode_p" where
  "root_get_dual r m =
     (if root_x_is_next_root r m \<and> root_x_is_next_map r m then push_bit 2 (root_x_next_ptr r m) else 0)"

definition root_set_ptr_map :: "rootnode_p \<Rightarrow> mapnode_p \<Rightarrow> memory \<Rightarrow> memory" where
  "root_set_ptr_map r mp m = set_next_ptr r False True mp m"

definition root_set_ptr_root :: "rootnode_p \<Rightarrow> rootnode_p \<Rightarrow> memory \<Rightarrow> memory" where
  "root_set_ptr_root r root m = set_next_ptr r True False root m"

definition root_set_ptr_dual :: "rootnode_p \<Rightarrow> dualnode_p \<Rightarrow> memory \<Rightarrow> memory" where
  "root_set_ptr_dual r dual m = set_next_ptr r True True dual m"

definition root_is_next_root :: "rootnode_p \<Rightarrow> memory \<Rightarrow> bool" where
  "root_is_next_root r m \<longleftrightarrow> root_x_is_next_root r m \<and> \<not> root_x_is_next_map r m"

definition root_is_next_map :: "rootnode_p \<Rightarrow> memory \<Rightarrow> bool" where
  "root_is_next_map r m \<longleftrightarrow> root_x_is_next_map r m \<and> \<not> root_x_is_next_root r m"

definition root_is_next_both :: "rootnode_p \<Rightarrow> memory \<Rightarrow> bool" where
  "root_is_next_both r m \<longleftrightarrow> root_x_is_next_root r m \<and> root_x_is_next_map r m"

section \<open>Reading back what was written\<close>

lemma xor_cancel: "(a XOR b) XOR b = a" "(a XOR b) XOR a = b" for a b :: word_t
  by (simp_all add: xor.assoc xor.commute [of a b])

lemma even_ptr: "take_bit 1 p = 0 \<Longrightarrow> push_bit 1 (drop_bit 1 p) = p" for p :: word_t
  using bits_ident [of 1 p] by simp

lemma quad_ptr: "take_bit 2 p = 0 \<Longrightarrow> push_bit 2 (drop_bit 2 p) = p" for p :: word_t
  using bits_ident [of 2 p] by simp

lemma drop_bit_fits: "n + k = 64 \<Longrightarrow> take_bit n (drop_bit k p) = drop_bit k p" for p :: word_t
  by (rule bit_eqI) (auto simp: bit_simps dest: bit_imp_le_length)

lemma prev_ptr_set:
  fixes prev pg u v w :: word_t
  assumes "take_bit 1 prev = 0" and "take_bit 1 pg = 0"
  shows "push_bit 1 (bf_get 0 63 (bf_set 63 1 v (bf_set 0 63 (drop_bit 1 (prev XOR pg)) w))) = prev XOR pg"
    and "bf_get 63 1 (bf_set 63 1 v (bf_set 0 63 u w)) = take_bit 1 v"
proof -
  have "push_bit 1 (drop_bit 1 (prev XOR pg)) = prev XOR pg"
    by (rule even_ptr) (simp only: take_bit_xor assms xor_self_eq)
  then show "push_bit 1 (bf_get 0 63 (bf_set 63 1 v (bf_set 0 63 (drop_bit 1 (prev XOR pg)) w))) = prev XOR pg"
    by (simp add: bf_get_set_same bf_get_set_other drop_bit_fits)
  show "bf_get 63 1 (bf_set 63 1 v (bf_set 0 63 u w)) = take_bit 1 v"
    by (simp add: bf_get_set_same)
qed

lemma next_ptr_set:
  fixes p a b w :: word_t
  assumes "take_bit 2 p = 0"
  shows "push_bit 2 (bf_get 0 62 (bf_set 62 1 a (bf_set 63 1 b (bf_set 0 62 (drop_bit 2 p) w)))) = p"
    and "bf_get 63 1 (bf_set 62 1 a (bf_set 63 1 b w)) = take_bit 1 b" and "bf_get 62 1 (bf_set 62 1 a w) = take_bit 1 a"
  using quad_ptr [OF assms] by (simp_all add: bf_get_set_same bf_get_set_other drop_bit_fits)

lemma mem_at_set_raw [simp]: "mem (set_raw a v m) x = (if x = a then v else mem m x)"
  by (simp add: set_raw_def)

text \<open>The two links of a node, as a relation between the node and what they point to.\<close>

definition node_prev :: "memory \<Rightarrow> mapnode_p \<Rightarrow> bool \<Rightarrow> word_t \<Rightarrow> pgent_p \<Rightarrow> bool" where
  "node_prev m n rt prev pg \<longleftrightarrow> map_x_is_prev_root n m = rt \<and> push_bit 1 (map_x_prev_ptr n m) = prev XOR pg"

definition node_next :: "memory \<Rightarrow> mapnode_p \<Rightarrow> mapnode_p \<Rightarrow> bool" where
  "node_next m n nx \<longleftrightarrow> map_x_is_next_map n m \<and> \<not> map_x_is_next_root n m \<and> push_bit 2 (map_x_next_ptr n m) = nx"

lemma node_prevD:
  assumes "node_prev m n rt prev pg"
  shows "map_get_pgent n prev m = pg" "get_prevmap n pg m = (if rt then 0 else prev)"
    "get_prevroot n pg m = (if rt then prev else 0)" "is_prev_root n m = rt"
  using assms by (simp_all add: node_prev_def map_get_pgent_def get_prevmap_def get_prevroot_def is_prev_root_def xor_cancel)

lemma node_nextD:
  assumes "node_next m n nx"
  shows "get_nextmap n m = nx" "get_nextroot n m = 0" "get_nextdual n m = 0" "is_next_map n m" "\<not> is_next_root n m"
    "\<not> is_next_both n m"
  using assms by (simp_all add: node_next_def get_nextmap_def get_nextroot_def get_nextdual_def is_next_map_def
      is_next_root_def is_next_both_def)

lemma node_prev_set:
  assumes "take_bit 1 prev = 0" and "take_bit 1 pg = 0"
  shows "node_prev (set_backlink_map n prev pg m) n False prev pg" "node_prev (set_backlink_root n prev pg m) n True prev pg"
  using prev_ptr_set [OF assms]
  by (simp_all add: node_prev_def map_x_is_prev_root_def map_x_prev_ptr_def set_backlink_map_def set_backlink_root_def)

lemma node_next_set:
  assumes "take_bit 2 nx = 0"
  shows "node_next (set_next_map n nx m) n nx"
  using next_ptr_set [OF assms]
  by (simp add: node_next_def map_x_is_next_map_def map_x_is_next_root_def map_x_next_ptr_def set_next_map_def set_next_ptr_def)

lemma node_cong:
  "mem m' n = mem m n \<Longrightarrow> node_prev m' n rt prev pg = node_prev m n rt prev pg"
  "mem m' (n + 16) = mem m (n + 16) \<Longrightarrow> node_next m' n nx = node_next m n nx"
  "mem m' (n + 8) = mem m (n + 8) \<Longrightarrow> map_get_depth n m' = map_get_depth n m"
  "mem m' (n + 8) = mem m (n + 8) \<Longrightarrow> map_get_space n m' = map_get_space n m"
  "mem m' (n + 8) = mem m (n + 8) \<Longrightarrow> map_get_rwx n m' = map_get_rwx n m"
  by (simp_all add: node_prev_def node_next_def map_x_is_prev_root_def map_x_prev_ptr_def map_x_is_next_map_def
      map_x_is_next_root_def map_x_next_ptr_def map_get_depth_def map_get_space_def map_get_rwx_def)

text \<open>The middle word: depth, reference bits and space do not disturb each other.\<close>

lemma node_fields_set:
  "map_get_depth n (map_set_depth n d m) = take_bit 8 d" "map_get_space n (map_set_depth n d m) = map_get_space n m"
  "map_get_rwx n (map_set_depth n d m) = map_get_rwx n m"
  "map_get_depth n (map_set_space n sp m) = map_get_depth n m" "map_get_rwx n (map_set_space n sp m) = map_get_rwx n m"
  "map_get_space n (map_set_rwx n r m) = map_get_space n m" "map_get_depth n (map_set_rwx n r m) = map_get_depth n m"
  "map_get_rwx n (map_set_rwx n r m) = take_bit 3 r"
  by (simp_all add: map_get_depth_def map_set_depth_def map_get_space_def map_set_space_def map_get_rwx_def map_set_rwx_def
      MDB_SPACE_BITS_def bf_get_set_same bf_get_set_other)

lemma node_space_set:
  assumes "take_bit 11 sp = 0"
  shows "map_get_space n (map_set_space n sp m) = sp"
proof -
  have "push_bit 11 (drop_bit 11 sp) = sp" using bits_ident [of 11 sp] assms by simp
  then show ?thesis
    by (simp add: map_get_space_def map_set_space_def MDB_SPACE_BITS_def bf_get_set_same drop_bit_fits)
qed

text \<open>A mapping node gives back what was stored in it.  After its back link was set to a predecessor
  and a page table entry, the predecessor is found from the entry and the entry from the
  predecessor, and the node knows whether the predecessor is a root node; after its next
  pointer was set to a mapping node, a root node or a dual node, exactly the accessor of that
  kind returns it; the address space, and the depth up to 255, are returned as stored, and
  reference bits accumulate.\<close>

theorem mapnode_roundtrip:
  assumes "take_bit 2 prev = 0" and "take_bit 2 pg = 0" and "take_bit 2 nx = 0" and "take_bit 11 sp = 0" and "d \<le> 255"
  shows "get_prevmap n pg (set_backlink_map n prev pg m) = prev \<and> map_get_pgent n prev (set_backlink_map n prev pg m) = pg \<and>
    \<not> is_prev_root n (set_backlink_map n prev pg m) \<and>
    get_prevroot n pg (set_backlink_root n prev pg m) = prev \<and> map_get_pgent n prev (set_backlink_root n prev pg m) = pg \<and>
    is_prev_root n (set_backlink_root n prev pg m) \<and>
    get_nextmap n (set_next_map n nx m) = nx \<and> get_nextroot n (set_next_map n nx m) = 0 \<and> is_next_map n (set_next_map n nx m) \<and>
    get_nextroot n (set_next_root n nx m) = nx \<and> get_nextmap n (set_next_root n nx m) = 0 \<and> is_next_root n (set_next_root n nx m) \<and>
    get_nextdual n (set_next_dual n nx m) = nx \<and> is_next_both n (set_next_dual n nx m) \<and>
    map_get_space n (map_set_space n sp m) = sp \<and> map_get_depth n (map_set_depth n d m) = d \<and>
    map_get_rwx n (map_update_rwx n r m) = map_get_rwx n m OR take_bit 3 r"
proof -
  have "take_bit 1 prev = take_bit 1 (take_bit 2 prev)" "take_bit 1 pg = take_bit 1 (take_bit 2 pg)" by simp_all
  then have e: "take_bit 1 prev = 0" "take_bit 1 pg = 0" using assms(1,2) by simp_all
  note P = node_prev_set [OF e, of n m, THEN node_prevD(1)] node_prev_set [OF e, of n m, THEN node_prevD(2)]
    node_prev_set [OF e, of n m, THEN node_prevD(3)] node_prev_set [OF e, of n m, THEN node_prevD(4)]
  note N = node_next_set [OF assms(3), of n m, THEN node_nextD(1)] node_next_set [OF assms(3), of n m, THEN node_nextD(2)]
    node_next_set [OF assms(3), of n m, THEN node_nextD(4)]
  have R: "get_nextroot n (set_next_root n nx m) = nx" "get_nextmap n (set_next_root n nx m) = 0" "is_next_root n (set_next_root n nx m)"
    "get_nextdual n (set_next_dual n nx m) = nx" "is_next_both n (set_next_dual n nx m)"
    using next_ptr_set [OF assms(3)]
    by (simp_all add: get_nextroot_def get_nextmap_def is_next_root_def get_nextdual_def is_next_both_def map_x_is_next_map_def
        map_x_is_next_root_def map_x_next_ptr_def set_next_root_def set_next_dual_def set_next_ptr_def)
  have "take_bit 8 d = d" using assms(5) by (intro take_bit_id_of_bound) (simp add: word_le_nat_alt)
  moreover have "take_bit 3 (map_get_rwx n m) = map_get_rwx n m" by (simp add: map_get_rwx_def)
  then have "map_get_rwx n (map_update_rwx n r m) = map_get_rwx n m OR take_bit 3 r"
    by (simp add: map_update_rwx_def node_fields_set)
  ultimately show ?thesis using P N R node_space_set [OF assms(4)] by (simp add: node_fields_set)
qed

theorem mapnode_roundtrip_witness:
  "get_prevmap 0x1000 0x5008 (set_backlink_map 0x1000 0x2018 0x5008 five_chunks) = 0x2018 \<and>
   map_get_pgent 0x1000 0x2018 (set_backlink_map 0x1000 0x2018 0x5008 five_chunks) = 0x5008 \<and>
   map_get_space 0x1000 (map_set_space 0x1000 0x8000 five_chunks) = 0x8000"
  using mapnode_roundtrip [of "0x2018" "0x5008" "0x3000" "0x8000" 7 "0x1000" five_chunks] by simp

end
