(* ===== verification/Mapping_Db.thy ===== *)
theory Mapping_Db
  imports Mapping_Node Flexpage "HOL-Library.Monad_Syntax"
begin

text \<open>
  The mapping database (\<^verbatim>\<open>generic/mapping.cc\<close>).  For every page frame the database keeps the
  tree of mappings of the frame, as a chain of mapping nodes in pre-order with their depths; root
  arrays hang below a node or a root node where mappings of a smaller page size exist.

  The state is the kernel memory with the cache of address space identifiers, which the flushing of
  a TLB entry consults; TLB instructions themselves are not modelled.  \<^term>\<open>None\<close> is a call
  that does not return (out of memory) or an access through a null pointer.
\<close>

section \<open>Helper functions\<close>

definition mdb_size_max :: nat where "mdb_size_max = MDB_NUM_PGSIZES - 1"

definition mdb_arraysize :: "nat \<Rightarrow> word_t" where
  "mdb_arraysize pgsize = push_bit (mdb_pgshifts (pgsize + 1) - mdb_pgshifts pgsize) 1"

definition mdb_get_index :: "nat \<Rightarrow> addr_t \<Rightarrow> word_t" where
  "mdb_get_index sz addr = drop_bit (mdb_pgshifts sz) addr AND (mdb_arraysize sz - 1)"

definition mdb_index_root :: "nat \<Rightarrow> rootnode_p \<Rightarrow> addr_t \<Rightarrow> rootnode_p" where
  "mdb_index_root sz r addr = r + mdb_get_index sz addr * sizeof_rootnode_t"

text \<open>The first entry of the array (of nine shifts) that is not smaller.\<close>

definition mdb_pgsize :: "nat \<Rightarrow> nat" where
  "mdb_pgsize hw = length (takeWhile (\<lambda>k. k < hw_pgshifts hw) (map mdb_pgshifts [0..<9]))"

definition hw_pgsize :: "nat \<Rightarrow> nat" where
  "hw_pgsize sz = length (takeWhile (\<lambda>k. k < mdb_pgshifts sz) (map hw_pgshifts [0..<9]))"

definition flush_tlbent :: "space_p \<Rightarrow> memory \<times> asid_cache_t \<Rightarrow> (memory \<times> asid_cache_t) option" where
  "flush_tlbent space s =
     (case asid_get (space + asid_offset) (fst s) (snd s) of None \<Rightarrow> None | Some (_, m, c) \<Rightarrow> Some (m, c))"

section \<open>Creating nodes\<close>

fun init_roots :: "nat \<Rightarrow> rootnode_p \<Rightarrow> memory \<Rightarrow> memory" where
  "init_roots 0 n m = m"
| "init_roots (Suc k) n m = init_roots k (n + sizeof_rootnode_t) (root_set_ptr_map n 0 m)"

definition mdb_create_roots :: "word_t \<Rightarrow> nat \<Rightarrow> memory \<Rightarrow> (rootnode_p \<times> memory) option" where
  "mdb_create_roots bls sz m =
     (let num = mdb_arraysize sz
      in do {
        (newnodes, m1) \<leftarrow> mdb_alloc_buffer bls (sizeof_rootnode_t * num) m;
        Some (newnodes, init_roots (unat num) newnodes m1)
      })"

definition mdb_create_dual :: "word_t \<Rightarrow> mapnode_p \<Rightarrow> rootnode_p \<Rightarrow> memory \<Rightarrow> (dualnode_p \<times> memory) option" where
  "mdb_create_dual bls mp root m =
     do {
       (dual, m1) \<leftarrow> mdb_alloc_buffer bls sizeof_dualnode_t m;
       Some (dual, set_raw (dual_root dual) root (set_raw (dual_map dual) mp m1))
     }"

definition init_mdb :: "word_t \<Rightarrow> mapnode_p \<Rightarrow> memory \<Rightarrow> memory option" where
  "init_mdb bls sigma0_mapnode m =
     do {
       m1 \<leftarrow> mdb_buflist_init bls m;
       (roots, m2) \<leftarrow> mdb_create_roots bls mdb_size_max m1;
       (dual, m3) \<leftarrow> mdb_create_dual bls 0 roots m2;
       let m4 = set_backlink_map sigma0_mapnode 0 0 m3;
       let m5 = map_set_space sigma0_mapnode 0 m4;
       let m6 = map_set_depth sigma0_mapnode 0 m5;
       Some (set_next_dual sigma0_mapnode dual m6)
     }"

section \<open>Removing a node\<close>

definition remove_map :: "mapnode_p \<Rightarrow> mapnode_p \<Rightarrow> memory \<Rightarrow> memory option" where
  "remove_map pmap cmap m =
     (let nmap = get_nextmap cmap m
      in do {
        m1 \<leftarrow> (if is_next_map pmap m then Some (set_next_map pmap nmap m)
              else let dual = get_nextdual pmap m
                   in if dual = 0 then None
                      else if nmap \<noteq> 0 then Some (set_raw (dual_map dual) nmap m)
                      else mdb_free_buffer dual sizeof_dualnode_t (set_next_root pmap (mem m (dual_root dual)) m));
        m2 \<leftarrow> mdb_free_buffer cmap sizeof_mapnode_t m1;
        Some (if nmap \<noteq> 0 then set_backlink_map nmap pmap (map_get_pgent nmap cmap m2) m2 else m2)
      })"

definition remove_map_root :: "rootnode_p \<Rightarrow> mapnode_p \<Rightarrow> memory \<Rightarrow> memory option" where
  "remove_map_root proot cmap m =
     (let nmap = get_nextmap cmap m
      in do {
        m1 \<leftarrow> (if root_is_next_map proot m then Some (root_set_ptr_map proot nmap m)
              else let dual = root_get_dual proot m
                   in if dual = 0 then None
                      else if nmap \<noteq> 0 then Some (set_raw (dual_map dual) nmap m)
                      else mdb_free_buffer dual sizeof_dualnode_t (root_set_ptr_root proot (mem m (dual_root dual)) m));
        m2 \<leftarrow> mdb_free_buffer cmap sizeof_mapnode_t m1;
        Some (if nmap \<noteq> 0 then set_backlink_root nmap proot (map_get_pgent nmap cmap m2) m2 else m2)
      })"

section \<open>Inserting a mapping\<close>

text \<open>A grant reuses the node.\<close>

definition mdb_grant :: "mapnode_p \<Rightarrow> pgent_p \<Rightarrow> pgent_p \<Rightarrow> space_p \<Rightarrow> memory \<Rightarrow> memory" where
  "mdb_grant f_map f_pg t_pg t_space m =
     (let m1 = (if is_prev_root f_map m then set_backlink_root f_map (get_prevroot f_map f_pg m) t_pg m
                else set_backlink_map f_map (get_prevmap f_map f_pg m) t_pg m)
      in map_set_space f_map t_space m1)"

text \<open>The new node directly below the mapping node.\<close>

definition mdb_map_below :: "word_t \<Rightarrow> mapnode_p \<Rightarrow> mapnode_p \<Rightarrow> pgent_p \<Rightarrow> space_p \<Rightarrow> memory \<Rightarrow> memory option" where
  "mdb_map_below bls f_map newmap t_pg t_space m =
     (let nmap = get_nextmap f_map m;
          m1 = set_backlink_map newmap f_map t_pg m;
          m2 = map_set_space newmap t_space m1;
          m3 = map_set_depth newmap (map_get_depth f_map m2 + 1) m2;
          m4 = set_next_map newmap nmap m3
      in do {
        m5 \<leftarrow> (if is_next_root f_map m4
              then do {
                (dual, ma) \<leftarrow> mdb_create_dual bls newmap (get_nextroot f_map m4) m4;
                Some (set_next_dual f_map dual ma)
              }
              else if is_next_both f_map m4 then Some (set_raw (dual_map (get_nextdual f_map m4)) newmap m4)
              else Some (set_next_map f_map newmap m4));
        Some (if nmap \<noteq> 0 then set_backlink_map nmap newmap (map_get_pgent nmap f_map m5) m5 else m5)
      })"

text \<open>Descending to the root node of the page, creating the arrays that are missing.\<close>

fun mdb_map_walk ::
  "word_t \<Rightarrow> mapnode_p \<Rightarrow> addr_t \<Rightarrow> nat \<Rightarrow> nat \<Rightarrow> rootnode_p \<Rightarrow> memory \<Rightarrow> (rootnode_p \<times> memory) option" where
  "mdb_map_walk bls f_map f_addr 0 t_pgsize root m = Some (root, m)"
| "mdb_map_walk bls f_map f_addr (Suc f_pgsize) t_pgsize root m =
     (if Suc f_pgsize > t_pgsize
      then let proot = root;
               nmap = (if proot \<noteq> 0 then root_get_map proot m else get_nextmap f_map m);
               root1 = (if proot \<noteq> 0 then root_get_root proot m else get_nextroot f_map m)
           in do {
             (root2, m2) \<leftarrow>
               (if root1 = 0
                then do {
                  (new, ma) \<leftarrow> mdb_create_roots bls f_pgsize m;
                  mb \<leftarrow> (if nmap \<noteq> 0
                        then do {
                          (dual, mc) \<leftarrow> mdb_create_dual bls nmap new ma;
                          Some (if proot \<noteq> 0 then root_set_ptr_dual proot dual mc else set_next_dual f_map dual mc)
                        }
                        else Some (if proot \<noteq> 0 then root_set_ptr_root proot new ma else set_next_root f_map new ma));
                  Some (new, mb)
                }
                else Some (root1, m));
             mdb_map_walk bls f_map f_addr f_pgsize t_pgsize (mdb_index_root f_pgsize root2 f_addr) m2
           }
      else Some (root, m))"

text \<open>The new node below a root node.\<close>

definition mdb_map_root ::
  "word_t \<Rightarrow> mapnode_p \<Rightarrow> rootnode_p \<Rightarrow> mapnode_p \<Rightarrow> pgent_p \<Rightarrow> space_p \<Rightarrow> memory \<Rightarrow> memory option" where
  "mdb_map_root bls f_map root newmap t_pg t_space m =
     (let nmap = root_get_map root m;
          m1 = set_backlink_root newmap root t_pg m;
          m2 = map_set_space newmap t_space m1;
          m3 = map_set_depth newmap (map_get_depth f_map m2 + 1) m2;
          m4 = set_next_map newmap (root_get_map root m3) m3
      in do {
        m5 \<leftarrow> (if root_is_next_root root m4
              then do {
                (dual, ma) \<leftarrow> mdb_create_dual bls newmap (root_get_root root m4) m4;
                Some (root_set_ptr_dual root dual ma)
              }
              else if root_is_next_both root m4 then Some (set_raw (dual_map (root_get_dual root m4)) newmap m4)
              else Some (root_set_ptr_map root newmap m4));
        Some (if nmap \<noteq> 0 then set_backlink_map nmap newmap (map_get_pgent nmap root m5) m5 else m5)
      })"

definition mdb_map ::
  "word_t \<Rightarrow> mapnode_p \<Rightarrow> pgent_p \<Rightarrow> nat \<Rightarrow> addr_t \<Rightarrow> pgent_p \<Rightarrow> nat \<Rightarrow> space_p \<Rightarrow> bool \<Rightarrow> memory \<Rightarrow>
   (mapnode_p \<times> memory) option" where
  "mdb_map bls f_map f_pg f_hwpgsize f_addr t_pg t_hwpgsize t_space grant m =
     (if grant then Some (f_map, mdb_grant f_map f_pg t_pg t_space m)
      else do {
        let f_pgsize = mdb_pgsize f_hwpgsize;
        let t_pgsize = mdb_pgsize t_hwpgsize;
        (newmap, m1) \<leftarrow> mdb_alloc_buffer bls sizeof_mapnode_t m;
        if f_pgsize = t_pgsize
        then do {
          m2 \<leftarrow> mdb_map_below bls f_map newmap t_pg t_space m1;
          Some (newmap, m2)
        }
        else do {
          (root, m2) \<leftarrow> mdb_map_walk bls f_map f_addr f_pgsize t_pgsize 0 m1;
          if root = 0 then None
          else do {
            m3 \<leftarrow> mdb_map_root bls f_map root newmap t_pg t_space m2;
            Some (newmap, m3)
          }
        }
      })"

section \<open>Flushing\<close>

text \<open>The local variables of \<^verbatim>\<open>mdb_flush\<close> that live across an iteration, with the four arrays
  that serve as a stack.\<close>

record flush_t =
  fl_f_map :: mapnode_p
  fl_f_pg :: pgent_p
  fl_f_pgsize :: nat
  fl_pmap :: mapnode_p
  fl_proot :: rootnode_p
  fl_root :: rootnode_p
  fl_rcnt :: word_t
  fl_rwx :: word_t
  fl_unmap_self :: bool
  fl_r_nmap :: "nat \<Rightarrow> mapnode_p"
  fl_r_root :: "nat \<Rightarrow> rootnode_p"
  fl_r_rcnt :: "nat \<Rightarrow> word_t"
  fl_r_prev :: "nat \<Rightarrow> word_t"

text \<open>The node itself: remove it or revoke the rights.\<close>

definition flush_node :: "fpage_t \<Rightarrow> flush_t \<Rightarrow> memory \<times> asid_cache_t \<Rightarrow> (flush_t \<times> memory \<times> asid_cache_t) option" where
  "flush_node fp v s =
     (let (m, c) = s;
          f_map = fl_f_map v;
          f_pg = fl_f_pg v;
          pmap = get_prevmap f_map f_pg m;
          proot = get_prevroot f_map f_pg m;
          space = map_get_space f_map m;
          f_hwpgsize = hw_pgsize (fl_f_pgsize v)
      in if fl_unmap_self v
         then do {
           let m1 = map_update_rwx f_map (pg_reference_bits f_pg m) m;
           let rwx = fl_rwx v OR pg_reference_bits f_pg m1;
           (v2, m2) \<leftarrow>
             (if fpage_is_rwx fp
              then do {
                ma \<leftarrow> (if pmap \<noteq> 0 then remove_map pmap f_map m1 else remove_map_root proot f_map m1);
                Some (v\<lparr>fl_rwx := rwx, fl_pmap := pmap, fl_proot := proot\<rparr>, pg_clear f_pg f_hwpgsize False ma)
              }
              else Some (v\<lparr>fl_rwx := rwx, fl_pmap := f_map, fl_proot := 0\<rparr>, pg_revoke_rights f_pg (fpage_get_rwx fp) m1));
           s3 \<leftarrow> flush_tlbent space (m2, c);
           Some (v2, s3)
         }
         else Some (v\<lparr>fl_pmap := f_map, fl_proot := 0\<rparr>, s))"

text \<open>Where the walk goes after a node: into a sub-array, to the next node, or up again.\<close>

definition flush_next ::
  "fpage_t \<Rightarrow> addr_t \<Rightarrow> nat \<Rightarrow> dualnode_p \<Rightarrow> rootnode_p \<Rightarrow> mapnode_p \<Rightarrow> flush_t \<Rightarrow> memory \<Rightarrow> (flush_t \<times> memory) option" where
  "flush_next fp f_addr t_pgsize dual nroot nmap v m =
     (if nroot \<noteq> 0
      then if fl_f_pgsize v = 0 then None
           else let p = fl_f_pgsize v - 1
                in if p < t_pgsize
                   then do {
                     let v1 = v\<lparr>fl_f_map := 0, fl_f_pgsize := p,
                           fl_r_prev := (fl_r_prev v)(p := if fl_pmap v \<noteq> 0 then fl_pmap v OR 1 else fl_proot v),
                           fl_r_nmap := (fl_r_nmap v)(p := nmap), fl_r_root := (fl_r_root v)(p := fl_root v),
                           fl_r_rcnt := (fl_r_rcnt v)(p := fl_rcnt v),
                           fl_root := nroot - sizeof_rootnode_t, fl_rcnt := mdb_arraysize p\<rparr>;
                     m1 \<leftarrow> (if dual \<noteq> 0 \<and> fpage_is_rwx fp \<and> fl_unmap_self v
                           then mdb_free_buffer dual sizeof_dualnode_t m else Some m);
                     Some (v1, m1)
                   }
                   else Some (v\<lparr>fl_f_map := 0, fl_f_pgsize := p,
                          fl_root := mdb_index_root p nroot f_addr - sizeof_rootnode_t, fl_rcnt := 1\<rparr>, m)
      else if nmap \<noteq> 0
      then Some (v\<lparr>fl_f_map := nmap,
             fl_f_pg := map_get_pgent nmap (if fl_pmap v \<noteq> 0 then fl_pmap v else fl_proot v) m\<rparr>, m)
      else if fl_f_pgsize v < t_pgsize \<and> fl_root v \<noteq> 0
      then do {
        let p = fl_f_pgsize v;
        m1 \<leftarrow> (if fpage_is_rwx fp
              then mdb_free_buffer (fl_root v - (mdb_arraysize p - 1) * sizeof_rootnode_t)
                     (mdb_arraysize p * sizeof_rootnode_t) m
              else Some m);
        let f_map = fl_r_nmap v p;
        let prev = fl_r_prev v p;
        let pmap = (if prev AND 1 \<noteq> 0 then prev AND NOT 1 else 0);
        let proot = (if prev AND 1 \<noteq> 0 then 0 else prev);
        let f_pg = (if f_map \<noteq> 0 then map_get_pgent f_map (if prev AND 1 \<noteq> 0 then pmap else proot) m1 else fl_f_pg v);
        Some (v\<lparr>fl_f_map := f_map, fl_f_pg := f_pg, fl_pmap := pmap, fl_proot := proot, fl_root := fl_r_root v p,
                fl_rcnt := fl_r_rcnt v p, fl_f_pgsize := Suc p\<rparr>, m1)
      }
      else Some (v\<lparr>fl_f_map := 0\<rparr>, m))"

text \<open>The search for the next node in the root array.\<close>

partial_function (option) flush_scan :: "fpage_t \<Rightarrow> flush_t \<Rightarrow> memory \<Rightarrow> (flush_t \<times> memory) option" where
  "flush_scan fp v m =
     (if fl_f_map v = 0 \<and> fl_rcnt v > 0
      then let rcnt = fl_rcnt v - 1;
               root = fl_root v + sizeof_rootnode_t;
               dual = root_get_dual root m;
               nroot = root_get_root root m;
               f_map = root_get_map root m
           in if nroot \<noteq> 0
              then if fl_f_pgsize v = 0 \<or> dual = 0 then None
                   else let p = fl_f_pgsize v - 1;
                            m1 = (if fpage_is_rwx fp then root_set_ptr_map root f_map m else m);
                            v1 = v\<lparr>fl_f_map := 0, fl_f_pgsize := p, fl_r_prev := (fl_r_prev v)(p := root),
                                   fl_r_nmap := (fl_r_nmap v)(p := f_map), fl_r_root := (fl_r_root v)(p := root),
                                   fl_r_rcnt := (fl_r_rcnt v)(p := rcnt),
                                   fl_root := mem m1 (dual_root dual) - sizeof_rootnode_t, fl_rcnt := mdb_arraysize p\<rparr>
                        in (case (if fpage_is_rwx fp then mdb_free_buffer dual sizeof_dualnode_t m1 else Some m1) of
                              None \<Rightarrow> None
                            | Some m2 \<Rightarrow> flush_scan fp v1 m2)
              else if f_map \<noteq> 0
              then flush_scan fp (v\<lparr>fl_f_map := f_map, fl_rcnt := rcnt, fl_root := root, fl_f_pg := map_get_pgent f_map root m,
                                    fl_pmap := 0, fl_proot := root\<rparr>) m
              else flush_scan fp (v\<lparr>fl_rcnt := rcnt, fl_root := root\<rparr>) m
      else Some (v, m))"

partial_function (option) flush_loop ::
  "fpage_t \<Rightarrow> addr_t \<Rightarrow> nat \<Rightarrow> word_t \<Rightarrow> flush_t \<Rightarrow> memory \<times> asid_cache_t \<Rightarrow> (word_t \<times> memory \<times> asid_cache_t) option" where
  "flush_loop fp f_addr t_pgsize startdepth v s =
     (let dual = get_nextdual (fl_f_map v) (fst s);
          nroot = get_nextroot (fl_f_map v) (fst s);
          nmap = get_nextmap (fl_f_map v) (fst s)
      in case flush_node fp v s of
           None \<Rightarrow> None
         | Some (v1, m1, c1) \<Rightarrow>
             (case flush_next fp f_addr t_pgsize dual nroot nmap v1 m1 of
                None \<Rightarrow> None
              | Some (v2, m2) \<Rightarrow>
                  (case flush_scan fp v2 m2 of
                     None \<Rightarrow> None
                   | Some (v3, m3) \<Rightarrow>
                       let v4 = (if fl_f_pgsize v3 \<le> t_pgsize then v3\<lparr>fl_unmap_self := True\<rparr> else v3)
                       in if fl_f_map v4 \<noteq> 0 \<and> map_get_depth (fl_f_map v4) m3 > startdepth
                          then flush_loop fp f_addr t_pgsize startdepth v4 (m3, c1)
                          else Some (fl_rwx v4, m3, c1))))"

definition mdb_flush ::
  "mapnode_p \<Rightarrow> pgent_p \<Rightarrow> nat \<Rightarrow> addr_t \<Rightarrow> nat \<Rightarrow> fpage_t \<Rightarrow> bool \<Rightarrow> memory \<times> asid_cache_t \<Rightarrow>
   (word_t \<times> memory \<times> asid_cache_t) option" where
  "mdb_flush f_map f_pg f_hwpgsize f_addr t_hwpgsize fp unmap_self s =
     (let (m, c) = s;
          startdepth = map_get_depth f_map m;
          rwx = (if unmap_self then map_get_rwx f_map m OR pg_reference_bits f_pg m else 0);
          m1 = (if unmap_self then map_set_rwx f_map 0 m else m)
      in flush_loop fp f_addr (mdb_pgsize t_hwpgsize) startdepth
           \<lparr>fl_f_map = f_map, fl_f_pg = f_pg, fl_f_pgsize = mdb_pgsize f_hwpgsize, fl_pmap = 0, fl_proot = 0, fl_root = 0,
            fl_rcnt = 0, fl_rwx = rwx, fl_unmap_self = unmap_self, fl_r_nmap = (\<lambda>_. 0), fl_r_root = (\<lambda>_. 0),
            fl_r_rcnt = (\<lambda>_. 0), fl_r_prev = (\<lambda>_. 0)\<rparr> (m1, c))"

end
