(* ===== verification/Mdb_Store.thy ===== *)
theory Mdb_Store
  imports Mdb_Free
begin

text \<open>
  What the clients of the buffer allocator of the mapping database may rely on beside its
  interface: buffers in use are aligned and lie apart from each other and from the rest of the
  memory, and writing to them, or to words that are not the allocator's, keeps its invariant.
\<close>

text \<open>The words of the array of buffer lists.\<close>

definition mdb_words :: "word_t \<Rightarrow> word_t set" where
  "mdb_words bls = (\<lambda>k. bls + 8 * of_nat k) ` {..<33}"

lemma mdb_words_entry:
  assumes "i < MDB_NUM_PGSIZES + 3"
  shows "bls + 24 * of_nat i \<in> mdb_words bls" "bls + 24 * of_nat i + 8 \<in> mdb_words bls"
    "bls + 24 * of_nat i + 16 \<in> mdb_words bls"
proof -
  have e: "bls + 24 * of_nat i = bls + 8 * of_nat (3 * i)" "bls + 24 * of_nat i + 8 = bls + 8 * of_nat (3 * i + 1)"
    "bls + 24 * of_nat i + 16 = bls + 8 * of_nat (3 * i + 2)"
    by simp_all
  have w: "bls + 8 * of_nat k \<in> mdb_words bls" if "k < 33" for k using that unfolding mdb_words_def by blast
  have i: "3 * i < 33" "3 * i + 1 < 33" "3 * i + 2 < 33" using assms by (simp_all add: MDB_NUM_PGSIZES_def)
  show "bls + 24 * of_nat i \<in> mdb_words bls" "bls + 24 * of_nat i + 8 \<in> mdb_words bls"
    "bls + 24 * of_nat i + 16 \<in> mdb_words bls"
    using w [OF i(1)] w [OF i(2)] w [OF i(3)] by (simp_all only: e [symmetric])
qed

text \<open>The words of the buffers in use are apart from each other and from the rest.\<close>

lemma mdb_inv_apart:
  assumes "mdb_inv R bls z mf m A"
  shows "a \<in> A \<Longrightarrow> i < z \<Longrightarrow> a + of_nat i \<notin> R" and "a \<in> A \<Longrightarrow> take_bit 3 a = 0 \<and> a \<noteq> 0"
    and "a \<in> A \<Longrightarrow> b \<in> A \<Longrightarrow> a \<noteq> b \<Longrightarrow> i < z \<Longrightarrow> a + of_nat i \<noteq> b"
proof -
  obtain n ps fs xs where st: "mdb_state R bls z mf m n ps fs xs" and A: "A = allocd z mf ps fs"
    using assms unfolding mdb_inv_def by blast
  note S = mdb_stateD [OF st] and I = buflist_invD [OF mdb_stateD(2) [OF st]]
  have pg: "\<exists>p \<in> fst ` set ps \<union> fs. a \<in> set (buffers z mf p) \<and> pgof p = p \<and> p \<noteq> 0" if aA: "a \<in> A" for a
  proof -
    obtain p where p: "p \<in> fst ` set ps \<union> fs" "a \<in> set (buffers z mf p)" using allocd_page [OF aA [unfolded A]] by blast
    moreover have "p \<noteq> 0"
      using p(1)
    proof
      assume "p \<in> fst ` set ps"
      then obtain bs where "(p, bs) \<in> set ps" by auto
      then show ?thesis using I(5) unfolding pool_def by blast
    next
      assume "p \<in> fs"
      then show ?thesis using I(6) unfolding pool_def by blast
    qed
    ultimately show ?thesis using I(9) by blast
  qed
  show "a + of_nat i \<notin> R" if "a \<in> A" "i < z"
  proof
    assume "a + of_nat i \<in> R"
    from S(5) [OF this] show False using pg [OF that(1)] buffer_word(1) [OF I(1) _ _ that(2)] by auto
  qed
  show "take_bit 3 a = 0 \<and> a \<noteq> 0" if a: "a \<in> A"
  proof -
    obtain p where p: "p \<in> fst ` set ps \<union> fs" "a \<in> set (buffers z mf p)" "pgof p = p" "p \<noteq> 0" using pg [OF a] by blast
    obtain k where k: "a = p + of_nat k" "8 dvd k" using buffers_off [OF I(1) p(2)] by blast
    have "take_bit 3 p = 0"
    proof -
      have "take_bit 12 p = 0" using p(3) by (simp add: pgof_eq)
      then have "take_bit 3 (take_bit 12 p) = 0" by simp
      then show ?thesis by (simp add: take_bit_take_bit)
    qed
    then have p3: "p = push_bit 3 (drop_bit 3 p)" using bits_ident [of 3 p] by simp
    obtain j where "k = 8 * j" using k(2) by blast
    then have "a = push_bit 3 (drop_bit 3 p + of_nat j)" unfolding k(1) by (subst p3) (simp add: push_bit_eq_mult algebra_simps)
    then have "take_bit 3 a = 0" by (simp add: take_bit_push_bit)
    moreover have "pgof a = p" using pgof_buffer [OF I(1) p(2,3)] .
    ultimately show ?thesis using p(4) by (auto simp: pgof_def)
  qed
  show "a + of_nat i \<noteq> b" if ab: "a \<in> A" "b \<in> A" "a \<noteq> b" "i < z"
  proof
    assume e: "a + of_nat i = b"
    obtain p q where p: "a \<in> set (buffers z mf p)" "pgof p = p" and q: "b \<in> set (buffers z mf q)" "pgof q = q"
      using pg [OF ab(1)] pg [OF ab(2)] by blast
    have "pgof (a + of_nat i) = p" "pgof b = q" using buffer_word(1) [OF I(1) p ab(4)] pgof_buffer [OF I(1) q] by auto
    then have "p = q" using e by simp
    then show False using buffers_apart [OF I(1) p(1), of b i] q(1) ab e by blast
  qed
qed

lemma mdb_inv_apart2:
  assumes inv: "mdb_inv R bls z mf m A" and "a \<in> A" "b \<in> A" "a \<noteq> b" "i < z" "j < z"
  shows "a + of_nat i \<noteq> b + of_nat j"
proof
  assume e: "a + of_nat i = b + of_nat j"
  show False
  proof (cases "i \<le> j")
    case True
    then have "b + of_nat (j - i) = a" using e by (simp add: of_nat_diff algebra_simps)
    then show False using mdb_inv_apart(3) [OF inv, of b a "j - i"] assms by simp
  next
    case False
    then have "a + of_nat (i - j) = b" using e by (simp add: of_nat_diff algebra_simps)
    then show False using mdb_inv_apart(3) [OF inv, of a b "i - j"] assms by simp
  qed
qed

lemma not_hdr: "pgof p = p \<Longrightarrow> \<not> hdr {p} x \<Longrightarrow> x \<notin> {p, p + 8, p + 16, p + 24, p + 32}"
  using hdr_field [of p "{p}" 0] hdr_field [of p "{p}" 8] hdr_field [of p "{p}" 16] hdr_field [of p "{p}" 24]
    hdr_field [of p "{p}" 32] by auto

text \<open>A buffer on a free list is not handed out.\<close>

lemma free_not_allocd:
  assumes inv: "buflist_inv h bl z mf ps fs" and p: "(p, bs) \<in> set ps" and b: "b \<in> set bs"
  shows "b \<notin> allocd z mf ps fs"
proof
  note I = buflist_invD [OF inv]
  assume "b \<in> allocd z mf ps fs"
  then consider q cs where "(q, cs) \<in> set ps" "b \<in> set (buffers z mf q)" "b \<notin> set cs"
    | q where "q \<in> fs" "b \<in> set (buffers z mf q)" unfolding allocd_def by auto
  moreover have bp: "b \<in> set (buffers z mf p)" using I(5) [OF p] b by (auto simp: pool_def)
  moreover have "p \<in> fst ` set ps" using p by force
  then have same: "q = p" if "q \<in> fst ` set ps \<union> fs" "b \<in> set (buffers z mf q)" for q
    using pgof_buffer [OF I(1) bp] pgof_buffer [OF I(1) that(2)] I(9) [OF that(1)] I(9) [of p] by simp
  ultimately show False
  proof cases
    case (1 q cs)
    then have "q = p" using same [of q] by force
    then have "cs = bs" using 1(1) p I(7) by (metis eq_key_imp_eq_value)
    then show False using 1(3) b by simp
  next
    case (2 q)
    then show False using same [of q] I(8) [OF p] by blast
  qed
qed

lemma mdb_inv_write:
  assumes inv: "mdb_inv R bls z mf m A" and x: "x \<in> R - mdb_words bls \<or> (\<exists>a \<in> A. \<exists>i<z. x = a + of_nat i)"
  shows "mdb_inv R bls z mf (set_raw x v m) A"
proof -
  obtain n ps fs xs where st: "mdb_state R bls z mf m n ps fs xs" and A: "A = allocd z mf ps fs"
    using inv unfolding mdb_inv_def by blast
  note S = mdb_stateD [OF st] and I = buflist_invD [OF mdb_stateD(2) [OF st]] and D = st [unfolded mdb_state_def]
  let ?bl = "bls + 24 * of_nat n"
  let ?h = "(mem m)(x := v)"
  have out: "pgof x \<notin> pgof ` set xs" "\<forall>j\<le>n. x \<noteq> bls + 24 * of_nat j" "x \<notin> {?bl, ?bl + 8, ?bl + 16}"
    "pgof x \<notin> fst ` set ps \<union> fs \<or> (\<exists>a \<in> A. \<exists>i<z. x = a + of_nat i)"
  proof -
    have "pgof x \<notin> pgof ` set xs \<and> (\<forall>j\<le>n. x \<noteq> bls + 24 * of_nat j) \<and> x \<notin> {?bl, ?bl + 8, ?bl + 16} \<and>
      (pgof x \<notin> fst ` set ps \<union> fs \<or> (\<exists>a \<in> A. \<exists>i<z. x = a + of_nat i))"
      using x
    proof
      assume x: "x \<in> R - mdb_words bls"
      have "n < MDB_NUM_PGSIZES + 3" using D by blast
      then have "\<forall>j\<le>n. x \<noteq> bls + 24 * of_nat j" "x \<notin> {?bl, ?bl + 8, ?bl + 16}"
        using x mdb_words_entry(1) [of _ bls] mdb_words_entry [of n bls] by (auto dest: order.strict_trans1)
      then show ?thesis using S(5) [of x] x by blast
    next
      assume "\<exists>a \<in> A. \<exists>i<z. x = a + of_nat i"
      then obtain a i where a: "a \<in> A" "i < z" "x = a + of_nat i" by blast
      obtain p where p: "p \<in> fst ` set ps \<union> fs" "a \<in> set (buffers z mf p)" using allocd_page [OF a(1) [unfolded A]] by blast
      have pg: "pgof x = p" unfolding a(3) using buffer_word(1) [OF I(1) p(2) _ a(2)] I(9) [OF p(1)] by blast
      moreover have "x \<notin> R" using mdb_inv_apart(1) [OF inv a(1,2)] a(3) by simp
      moreover have "\<forall>j\<le>n. bls + 24 * of_nat j \<in> R" using D by blast
      moreover have "x \<notin> {?bl, ?bl + 8, ?bl + 16}" using I(9) [OF p(1)] pg by auto
      moreover have "p \<notin> pgof ` set xs" using S(6) p(1) by blast
      ultimately show ?thesis using a by blast
    qed
    then show "pgof x \<notin> pgof ` set xs" "\<forall>j\<le>n. x \<noteq> bls + 24 * of_nat j" "x \<notin> {?bl, ?bl + 8, ?bl + 16}"
      "pgof x \<notin> fst ` set ps \<union> fs \<or> (\<exists>a \<in> A. \<exists>i<z. x = a + of_nat i)" by blast+
  qed
  have pool: "pool ?h ?bl z mf p bs" if po: "pool (mem m) ?bl z mf p bs" and pin: "p \<in> fst ` set ps \<union> fs"
    and "set (buffers z mf p) - set bs \<subseteq> A" and bd: "set bs \<inter> A = {}" for p bs
  proof (cases "pgof x = p")
    case False
    then have "pool ?h ?bl z mf p bs = pool (mem m) ?bl z mf p bs" by (intro pool_cong [OF I(1)]) auto
    then show ?thesis using po by simp
  next
    case True
    then obtain a i where a: "a \<in> A" "i < z" "x = a + of_nat i" using out(4) pin by blast
    obtain q where q: "q \<in> fst ` set ps \<union> fs" "a \<in> set (buffers z mf q)" using allocd_page [OF a(1) [unfolded A]] by blast
    have w: "pgof x = q" "\<not> hdr {q} x" unfolding a(3) using buffer_word [OF I(1) q(2) _ a(2)] I(9) [OF q(1)] by blast+
    then have [simp]: "q = p" using True by simp
    have "x \<noteq> p" "x \<noteq> p + 8" "x \<noteq> p + 32" using not_hdr [of p x] w(2) I(9) [OF q(1)] by auto
    moreover have "x \<notin> set bs"
    proof
      assume b: "x \<in> set bs"
      then have "x \<noteq> a" using a(1) bd by blast
      then show False using buffers_apart [OF I(1) q(2), of x i] a b po by (auto simp: pool_def)
    qed
    ultimately show ?thesis using po fseg_cong [of bs ?h "mem m"] unfolding pool_def by auto
  qed
  have "buflist_inv ?h ?bl z mf ps fs"
  proof -
    have "pool ?h ?bl z mf p bs \<and> bs \<noteq> []" if "(p, bs) \<in> set ps" for p bs
    proof (intro conjI pool)
      show "pool (mem m) ?bl z mf p bs" "bs \<noteq> []" using I(5) [OF that] by blast+
      show p: "p \<in> fst ` set ps \<union> fs" using that by force
      show "set (buffers z mf p) - set bs \<subseteq> A" using that A unfolding allocd_def by blast
      show "set bs \<inter> A = {}" using free_not_allocd [OF S(2) that] A by blast
    qed
    moreover have "pool ?h ?bl z mf p []" if "p \<in> fs" for p
      using that I(6) [OF that] A by (intro pool) (auto simp: allocd_def)
    moreover have "plist ?h 0 c (map fst ps) = plist (mem m) 0 c (map fst ps)" for c
    proof (rule plist_cong)
      fix p assume p: "p \<in> set (map fst ps)"
      have "x \<noteq> p + 16 \<and> x \<noteq> p + 24"
      proof (cases "pgof x \<in> fst ` set ps \<union> fs")
        case False
        then show ?thesis using p I(9) [of p] pgof_field [of p] by auto
      next
        case True
        then obtain a i where a: "a \<in> A" "i < z" "x = a + of_nat i" using out(4) by blast
        obtain q where q: "q \<in> fst ` set ps \<union> fs" "a \<in> set (buffers z mf q)" using allocd_page [OF a(1) [unfolded A]] by blast
        have "\<not> hdr {p} x" unfolding a(3) using buffer_word(2) [OF I(1) q(2) _ a(2)] I(9) [OF q(1)] by blast
        then show ?thesis using not_hdr [of p x] I(9) [of p] p by auto
      qed
      then show "?h (p + 16) = mem m (p + 16) \<and> ?h (p + 24) = mem m (p + 24)" by auto
    qed
    ultimately show ?thesis using S(2) out(3) unfolding buflist_inv_def by auto
  qed
  moreover have "free_list (set_raw x v m) xs"
    unfolding set_raw_def using out(1) by (intro free_list_cong [OF S(3)]) auto
  moreover have "?h (bls + 24 * of_nat j) \<notin> {0, of_nat z}" if "j < n" for j
  proof -
    have "mem m (bls + 24 * of_nat j) \<notin> {0, of_nat z}" using D that by blast
    moreover have "bls + 24 * of_nat j \<noteq> x" using out(2) that less_imp_le by blast
    ultimately show ?thesis by simp
  qed
  ultimately have "mdb_state R bls z mf (set_raw x v m) n ps fs xs"
    using D by (simp add: mdb_state_def set_raw_def)
  then show ?thesis using A unfolding mdb_inv_def by blast
qed

end
