(* ===== verification/Mapping_Chain.thy ===== *)
theory Mapping_Chain
  imports Mapping_Db Mdb_Store
begin

text \<open>
  Chains of mapping nodes.  The mappings of a page frame hang below the root node of the frame as a
  doubly linked chain.  This theory states when the memory holds a chain and shows how the
  removal of a node and the insertion of one change it.
\<close>

section \<open>The words of a node\<close>

definition node_words :: "mapnode_p \<Rightarrow> word_t set" where "node_words n = {n, n + 8, n + 16}"

lemma node_words_apart:
  assumes inv: "mdb_inv R bls 24 169 m A" and a: "a \<in> A"
  shows "node_words a \<inter> R = {}" and "b \<in> A \<Longrightarrow> a \<noteq> b \<Longrightarrow> node_words a \<inter> node_words b = {}"
    and "take_bit 1 a = 0" "take_bit 2 a = 0" "a \<noteq> 0"
    and "x \<in> node_words a \<Longrightarrow> mdb_inv R bls 24 169 (set_raw x v m) A"
proof -
  have w: "x \<in> node_words a \<Longrightarrow> \<exists>i<24. x = a + of_nat i" for x a
    unfolding node_words_def by (auto intro: exI [of _ 0] exI [of _ 8] exI [of _ 16])
  show "node_words a \<inter> R = {}" using w mdb_inv_apart(1) [OF inv a] by blast
  show "node_words a \<inter> node_words b = {}" if "b \<in> A" "a \<noteq> b"
    using w [of _ a] w [of _ b] mdb_inv_apart2 [OF inv a that] by blast
  have t: "take_bit 3 a = 0" and n: "a \<noteq> 0" using mdb_inv_apart(2) [OF inv a] by blast+
  have "take_bit 1 (take_bit 3 a) = 0" "take_bit 2 (take_bit 3 a) = 0" using t by simp_all
  then show "take_bit 1 a = 0" "take_bit 2 a = 0" by (simp_all add: take_bit_take_bit)
  show "a \<noteq> 0" by (fact n)
  show "mdb_inv R bls 24 169 (set_raw x v m) A" if "x \<in> node_words a"
    using mdb_inv_write [OF inv] w [OF that] a by blast
qed

text \<open>The word that holds the next pointer of a node, or of a root node, and what it points to.\<close>

definition link_word :: "bool \<Rightarrow> word_t \<Rightarrow> word_t" where "link_word rt p = (if rt then p else p + 16)"

definition next_link :: "memory \<Rightarrow> word_t \<Rightarrow> mapnode_p \<Rightarrow> bool" where
  "next_link m w nx \<longleftrightarrow> bf_get 62 1 (mem m w) \<noteq> 0 \<and> bf_get 63 1 (mem m w) = 0 \<and> push_bit 2 (bf_get 0 62 (mem m w)) = nx"

lemma next_link_node: "node_next m n nx = next_link m (n + 16) nx"
  by (simp add: node_next_def next_link_def map_x_is_next_map_def map_x_is_next_root_def map_x_next_ptr_def)

lemma next_link_root:
  assumes "next_link m r nx"
  shows "root_is_next_map r m" "root_get_map r m = nx" "root_get_root r m = 0" "root_get_dual r m = 0"
  using assms by (simp_all add: next_link_def root_is_next_map_def root_get_map_def root_get_root_def root_get_dual_def
      root_x_is_next_map_def root_x_is_next_root_def root_x_next_ptr_def)

lemma next_link_set: "take_bit 2 nx = 0 \<Longrightarrow> next_link (set_next_ptr w False True nx m) w nx"
  using next_ptr_set [of nx] by (simp add: next_link_def set_next_ptr_def)

lemma next_link_cong: "mem m' w = mem m w \<Longrightarrow> next_link m' w nx = next_link m w nx"
  by (simp add: next_link_def)

section \<open>Chains\<close>

text \<open>The nodes from the one after \<^term>\<open>p\<close> up to \<^term>\<open>nx\<close>, each with its page table entry.\<close>

fun chain :: "memory \<Rightarrow> bool \<Rightarrow> word_t \<Rightarrow> (mapnode_p \<times> pgent_p) list \<Rightarrow> mapnode_p \<Rightarrow> bool" where
  "chain m rt p [] nx \<longleftrightarrow> next_link m (link_word rt p) nx"
| "chain m rt p ((n, pg) # ns) nx \<longleftrightarrow>
     next_link m (link_word rt p) n \<and> node_prev m n rt p pg \<and> chain m False n ns nx"

lemma chain_append:
  "chain m rt p (xs @ (n, pg) # ys) nx \<longleftrightarrow>
   chain m rt p xs n \<and> node_prev m n (rt \<and> xs = []) (last (p # map fst xs)) pg \<and> chain m False n ys nx"
  by (induction m rt p xs nx rule: chain.induct) auto

definition chain_words :: "bool \<Rightarrow> word_t \<Rightarrow> (mapnode_p \<times> pgent_p) list \<Rightarrow> word_t set" where
  "chain_words rt p xs = insert (link_word rt p) (\<Union>n \<in> fst ` set xs. {n, n + 16})"

lemma chain_words_Cons: "chain_words rt p ((n, pg) # xs) = {link_word rt p, n} \<union> chain_words False n xs"
  by (auto simp: chain_words_def link_word_def)

lemma mchain_cong:
  assumes "\<And>x. x \<in> chain_words rt p xs \<Longrightarrow> mem m' x = mem m x"
  shows "chain m' rt p xs nx = chain m rt p xs nx"
  using assms
proof (induction m rt p xs nx rule: chain.induct)
  case (1 m rt p nx)
  have "mem m' (link_word rt p) = mem m (link_word rt p)" by (rule 1) (simp add: chain_words_def)
  then show ?case using next_link_cong [of m' "link_word rt p" m nx] by simp
next
  case (2 m rt p n pg ns nx)
  have e: "mem m' (link_word rt p) = mem m (link_word rt p)" "mem m' n = mem m n"
    by (rule 2(2), simp add: chain_words_Cons)+
  have "chain m' False n ns nx = chain m False n ns nx"
    by (rule 2(1), rule 2(2)) (simp add: chain_words_Cons)
  then show ?case using next_link_cong [OF e(1)] node_cong(1) [OF e(2)] by simp
qed

text \<open>Changing the last link.\<close>

lemma chain_relink:
  assumes "chain m rt p xs nx" and "distinct (map fst xs)"
    and "w = link_word (rt \<and> xs = []) (last (p # map fst xs))"
    and "\<And>x. x \<in> chain_words rt p xs \<Longrightarrow> x \<noteq> w \<Longrightarrow> mem m' x = mem m x"
    and "next_link m' w nx'" and "w \<notin> fst ` set xs" and "xs \<noteq> [] \<Longrightarrow> link_word rt p \<noteq> w"
  shows "chain m' rt p xs nx'"
  using assms
proof (induction xs arbitrary: rt p)
  case (Cons x xs)
  obtain n pg where x: "x = (n, pg)" by (cases x)
  have e: "mem m' (link_word rt p) = mem m (link_word rt p)" "mem m' n = mem m n"
    using Cons.prems(4) [of "link_word rt p"] Cons.prems(4) [of n] Cons.prems(6,7) by (auto simp: x chain_words_Cons)
  have "chain m' False n xs nx'"
  proof (rule Cons.IH)
    show "chain m False n xs nx" "distinct (map fst xs)" "next_link m' w nx'" "w \<notin> fst ` set xs"
      using Cons.prems by (auto simp: x)
    show w: "w = link_word (False \<and> xs = []) (last (n # map fst xs))" using Cons.prems(3) by (simp add: x link_word_def)
    show "mem m' y = mem m y" if "y \<in> chain_words False n xs" "y \<noteq> w" for y
      using Cons.prems(4) [of y] that by (simp add: x chain_words_Cons)
    assume "xs \<noteq> []"
    then have "last (n # map fst xs) \<in> fst ` set xs" using last_in_set [of "map fst xs"] by simp
    moreover have "n \<notin> fst ` set xs" using Cons.prems(2) by (simp add: x)
    ultimately have "n \<noteq> last (n # map fst xs)" by metis
    then show "link_word False n \<noteq> w" by (simp add: w link_word_def)
  qed
  then show ?case using Cons.prems(1) next_link_cong [OF e(1)] node_cong(1) [OF e(2)] by (simp add: x)
qed simp

text \<open>The mappings of a frame: buffers of the allocator, chained below the root node \<^term>\<open>r\<close>.\<close>

definition frame_inv :: "word_t set \<Rightarrow> word_t \<Rightarrow> word_t set \<Rightarrow> rootnode_p \<Rightarrow> memory \<Rightarrow> (mapnode_p \<times> pgent_p) list \<Rightarrow> bool" where
  "frame_inv R bls A r m ns \<longleftrightarrow> mdb_inv R bls 24 169 m A \<and> r \<in> R - mdb_words bls \<and> take_bit 1 r = 0 \<and>
     chain m True r ns 0 \<and> distinct (map fst ns) \<and> fst ` set ns \<subseteq> A \<and> (\<forall>pg \<in> snd ` set ns. take_bit 1 pg = 0)"

lemma frame_invD:
  assumes "frame_inv R bls A r m ns"
  shows "mdb_inv R bls 24 169 m A" "r \<in> R" "r \<notin> mdb_words bls" "take_bit 1 r = 0" "chain m True r ns 0"
    "distinct (map fst ns)" "fst ` set ns \<subseteq> A" "\<And>pg. pg \<in> snd ` set ns \<Longrightarrow> take_bit 1 pg = 0"
  using assms by (auto simp: frame_inv_def)

text \<open>Words that are in no link may change.\<close>

lemma frame_inv_step:
  assumes "frame_inv R bls A r m ns" and "mdb_inv R bls 24 169 m' A"
    and "\<And>x. x = r \<or> (\<exists>n \<in> fst ` set ns. x = n \<or> x = n + 16) \<Longrightarrow> mem m' x = mem m x"
  shows "frame_inv R bls A r m' ns"
proof -
  have "chain m' True r ns 0 = chain m True r ns 0"
    by (rule mchain_cong, rule assms(3)) (auto simp: chain_words_def link_word_def)
  then show ?thesis using assms(1,2) by (simp add: frame_inv_def)
qed

section \<open>Removing a node\<close>

text \<open>The steps of both variants of \<^verbatim>\<open>remove_map\<close> on a chain: redirect the link \<^term>\<open>w\<close> of the
  predecessor, free the node, redirect the backward link of the successor.\<close>

definition set_back :: "bool \<Rightarrow> mapnode_p \<Rightarrow> word_t \<Rightarrow> pgent_p \<Rightarrow> memory \<Rightarrow> memory" where
  "set_back rt n p pg m = (if rt then set_backlink_root n p pg m else set_backlink_map n p pg m)"

lemma set_back_raw: "\<exists>v. set_back rt n p pg m = set_raw n v m"
  by (auto simp: set_back_def set_backlink_root_def set_backlink_map_def)

lemma set_next_ptr_raw: "\<exists>v. set_next_ptr w a b p m = set_raw w v m"
  by (auto simp: set_next_ptr_def)

lemma remove_map_eval:
  assumes "next_link m (link_word rt p) n" and "node_next m n ny"
    and "mdb_free_buffer n sizeof_mapnode_t (set_next_ptr (link_word rt p) False True ny m) = Some m2"
  shows "(if rt then remove_map_root p n m else remove_map p n m) =
    Some (if ny \<noteq> 0 then set_back rt ny p (map_get_pgent ny n m2) m2 else m2)"
proof (cases rt)
  case True
  then have "next_link m p n" using assms(1) by (simp add: link_word_def)
  then show ?thesis using assms(3) True node_nextD(1) [OF assms(2)] next_link_root(1) [of m p n]
    by (simp add: remove_map_root_def link_word_def root_set_ptr_map_def set_back_def)
next
  case False
  then have "node_next m p n" using assms(1) by (simp add: link_word_def next_link_node)
  then show ?thesis using assms(3) False node_nextD(1) [OF assms(2)] node_nextD(4) [of m p n]
    by (simp add: remove_map_def link_word_def set_next_map_def set_back_def)
qed

text \<open>What a step may change: the words of \<^term>\<open>W\<close> and words outside \<^term>\<open>R\<close> and the nodes \<^term>\<open>A\<close>.\<close>

definition keeps :: "word_t set \<Rightarrow> word_t set \<Rightarrow> word_t set \<Rightarrow> memory \<Rightarrow> memory \<Rightarrow> bool" where
  "keeps R A W m m' \<longleftrightarrow> (\<forall>x. x \<in> R \<or> (\<exists>a \<in> A. x \<in> node_words a) \<longrightarrow> x \<notin> W \<longrightarrow> mem m' x = mem m x)"

lemma keepsD: "keeps R A W m m' \<Longrightarrow> x \<in> R \<or> (\<exists>a \<in> A. x \<in> node_words a) \<Longrightarrow> x \<notin> W \<Longrightarrow> mem m' x = mem m x"
  unfolding keeps_def by blast

lemma keeps_trans: "keeps R A V m m1 \<Longrightarrow> keeps R B W m1 m2 \<Longrightarrow> B \<subseteq> A \<Longrightarrow> keeps R B (V \<union> W) m m2"
  unfolding keeps_def by (metis Un_iff subsetD)

lemma keeps_raw: "x \<in> W \<Longrightarrow> keeps R A W m (set_raw x v m)"
  by (auto simp: keeps_def)

lemma keeps_mono: "keeps R A V m m' \<Longrightarrow> V \<subseteq> W \<Longrightarrow> B \<subseteq> A \<Longrightarrow> keeps R B W m m'"
  unfolding keeps_def by blast

lemma keeps_nodes:
  assumes "\<forall>x \<in> R. mem m' x = mem m x" and "\<forall>a \<in> A. \<forall>k<24. mem m' (a + of_nat k) = mem m (a + of_nat k)"
  shows "keeps R A {} m m'"
proof -
  have "mem m' a = mem m a \<and> mem m' (a + 8) = mem m (a + 8) \<and> mem m' (a + 16) = mem m (a + 16)" if "a \<in> A" for a
    using assms(2) [rule_format, OF that, of 0] assms(2) [rule_format, OF that, of 8]
      assms(2) [rule_format, OF that, of 16] by simp
  then show ?thesis using assms(1) by (auto simp: keeps_def node_words_def)
qed

lemma free_node:
  assumes inv: "mdb_inv R bls 24 169 m A" and "n \<in> A"
  shows "\<exists>m'. mdb_free_buffer n sizeof_mapnode_t m = Some m' \<and> mdb_inv R bls 24 169 m' (A - {n}) \<and> keeps R (A - {n}) {} m m'"
proof -
  obtain m' where m': "mdb_free_buffer n (of_nat 24) m = Some m'" "mdb_inv R bls 24 169 m' (A - {n})"
    "\<forall>x \<in> R. mem m' x = mem m x" "\<forall>a \<in> A - {n}. \<forall>k<24. mem m' (a + of_nat k) = mem m (a + of_nat k)"
    using mdb_free_inv [OF assms] by blast
  have "keeps R (A - {n}) {} m m'" using m'(3,4) by (simp add: keeps_nodes)
  then show ?thesis using m'(1,2) by (simp add: sizeof_mapnode_t_def)
qed

lemma node_set_back:
  assumes "take_bit 1 p = 0" and "take_bit 1 pg = 0"
  shows "node_prev (set_back rt n p pg m) n rt p pg"
  using node_prev_set [OF assms] by (simp add: set_back_def)

lemma frame_split:
  assumes fr: "frame_inv R bls A r m (xs @ (n, pg) # ys)"
  defines "p \<equiv> last (r # map fst xs)"
  shows "chain m True r xs n" "node_prev m n (xs = []) p pg" "chain m False n ys 0" "n \<in> A" "fst ` set xs \<subseteq> A"
    "fst ` set ys \<subseteq> A" "n \<notin> fst ` set xs \<union> fst ` set ys" "fst ` set xs \<inter> fst ` set ys = {}"
    "distinct (map fst xs)" "distinct (map fst ys)" "take_bit 1 pg = 0" "take_bit 1 p = 0"
    "link_word (xs = []) p = r \<and> xs = [] \<or> (\<exists>q \<in> fst ` set xs. link_word (xs = []) p = q + 16 \<and> p = q)"
    "link_word (xs = []) p \<notin> A"
proof -
  note F = frame_invD [OF fr]
  show "chain m True r xs n" "node_prev m n (xs = []) p pg" "chain m False n ys 0"
    using F(5) unfolding chain_append p_def by auto
  show A: "n \<in> A" "fst ` set xs \<subseteq> A" "fst ` set ys \<subseteq> A" "n \<notin> fst ` set xs \<union> fst ` set ys"
    "fst ` set xs \<inter> fst ` set ys = {}" "distinct (map fst xs)" "distinct (map fst ys)"
    using F(6,7) by auto
  show "take_bit 1 pg = 0" using F(8) by simp
  have p: "xs \<noteq> [] \<longrightarrow> p \<in> fst ` set xs" using last_in_set [of "map fst xs"] by (simp add: p_def)
  show "take_bit 1 p = 0"
  proof (cases "xs = []")
    case True
    then show ?thesis using F(4) by (simp add: p_def)
  next
    case False
    then show ?thesis using p A(2) node_words_apart(3) [OF F(1), of p] by blast
  qed
  show w: "link_word (xs = []) p = r \<and> xs = [] \<or> (\<exists>q \<in> fst ` set xs. link_word (xs = []) p = q + 16 \<and> p = q)"
    using p by (cases "xs = []") (auto simp: link_word_def p_def)
  have out: "link_word (xs = []) p \<noteq> k" if "k \<in> A" for k
    using w
  proof
    assume "link_word (xs = []) p = r \<and> xs = []"
    then show ?thesis using node_words_apart(1) [OF F(1) that] F(2) by (auto simp: node_words_def)
  next
    assume "\<exists>q \<in> fst ` set xs. link_word (xs = []) p = q + 16 \<and> p = q"
    then obtain q where q: "q \<in> A" "link_word (xs = []) p = q + 16" using A(2) by blast
    show ?thesis
    proof (cases "q = k")
      case False
      then show ?thesis using node_words_apart(2) [OF F(1) q(1) that] q(2) by (auto simp: node_words_def)
    qed (simp add: q(2))
  qed
  show "link_word (xs = []) p \<notin> A" using out by blast
qed

definition link_cells :: "rootnode_p \<Rightarrow> word_t set \<Rightarrow> word_t set" where
  "link_cells r A = insert r (\<Union>a \<in> A. {a, a + 16})"

text \<open>Every link word of a chain belongs to the root node or to a node, and no node shares it.\<close>

lemma chain_words_apart:
  assumes inv: "mdb_inv R bls 24 169 m A" and sub: "fst ` set xs \<subseteq> A" and p: "if rt then p \<in> R else p \<in> A"
    and x: "x \<in> chain_words rt p xs" and b: "b \<in> A" "b \<notin> fst ` set xs"
  shows "x \<noteq> b" and "rt \<or> p \<noteq> b \<Longrightarrow> x \<notin> node_words b"
    and "x \<in> R \<or> (\<exists>a \<in> A. x \<in> node_words a \<and> (a \<noteq> b \<or> a = p))" and "r \<in> R \<Longrightarrow> \<not> rt \<Longrightarrow> x \<noteq> r"
proof -
  consider "rt" "x = p" | a where "a \<in> A" "x = a \<and> a \<noteq> b \<or> x = a + 16" "a \<noteq> b \<or> \<not> rt \<and> a = p"
    using x p sub b unfolding chain_words_def link_word_def by (cases rt) auto
  note cs = this
  show "x \<noteq> b" using cs
  proof cases
    case 1
    then show ?thesis using p node_words_apart(1) [OF inv b(1)] by (auto simp: node_words_def)
  next
    case (2 a)
    then show ?thesis using node_words_apart(2) [OF inv 2(1) b(1)] by (cases "a = b") (auto simp: node_words_def)
  qed
  show "x \<notin> node_words b" if "rt \<or> p \<noteq> b" using cs
  proof cases
    case 1
    then show ?thesis using p node_words_apart(1) [OF inv b(1)] by (auto simp: node_words_def)
  next
    case (2 a)
    then have "a \<noteq> b" using that by blast
    then show ?thesis using node_words_apart(2) [OF inv 2(1) b(1)] 2(2) by (auto simp: node_words_def)
  qed
  show "x \<in> R \<or> (\<exists>a \<in> A. x \<in> node_words a \<and> (a \<noteq> b \<or> a = p))" using cs p by (cases; auto simp: node_words_def)
  show "x \<noteq> r" if "r \<in> R" "\<not> rt" using cs
  proof cases
    case (2 a)
    then show ?thesis using node_words_apart(1) [OF inv 2(1)] that(1) by (auto simp: node_words_def)
  qed (use that in simp)
qed

lemma unlink_node:
  assumes fr: "frame_inv R bls A r m (xs @ (n, pg) # ys)"
  defines "p \<equiv> last (r # map fst xs)"
  shows "\<exists>m'. (if xs = [] then remove_map_root p n m else remove_map p n m) = Some m' \<and>
    frame_inv R bls (A - {n}) r m' (xs @ ys) \<and> keeps R (A - {n}) (link_cells r A) m m'"
proof -
  note F = frame_invD [OF fr] and S = frame_split [OF fr, folded p_def]
  let ?w = "link_word (xs = []) p"
  define ny where "ny = (case ys of [] \<Rightarrow> 0 | (k, _) # _ \<Rightarrow> k)"
  define m1 where "m1 = set_next_ptr ?w False True ny m"
  have nn: "node_next m n ny" using S(3) by (cases ys) (auto simp: ny_def next_link_node link_word_def)
  have "ny \<noteq> 0 \<longrightarrow> ny \<in> fst ` set ys" by (cases ys) (auto simp: ny_def)
  then have nyA: "ny \<noteq> 0 \<longrightarrow> ny \<in> A - {n} \<and> ny \<notin> fst ` set xs" using S(6-8) by blast
  have ny2: "take_bit 2 ny = 0" using nyA node_words_apart(4) [OF F(1), of ny] by (cases "ny = 0") auto
  obtain v where v: "m1 = set_raw ?w v m" using set_next_ptr_raw unfolding m1_def by blast
  have inv1: "mdb_inv R bls 24 169 m1 A" unfolding v
    using S(13) F(2,3) S(5) mdb_inv_write [OF F(1), of r] node_words_apart(6) [OF F(1), of _ ?w]
    by (auto simp: node_words_def)
  have k1: "keeps R A {?w} m m1" unfolding v by (rule keeps_raw) simp
  obtain m2 where m2: "mdb_free_buffer n sizeof_mapnode_t m1 = Some m2" "mdb_inv R bls 24 169 m2 (A - {n})"
    "keeps R (A - {n}) {} m1 m2" using free_node [OF inv1 S(4)] by blast
  define m3 where "m3 = (if ny \<noteq> 0 then set_back (xs = []) ny p (map_get_pgent ny n m2) m2 else m2)"
  define W where "W = insert ?w (if ny \<noteq> 0 then {ny} else {})"
  have run: "(if xs = [] then remove_map_root p n m else remove_map p n m) = Some m3"
  proof -
    have "next_link m ?w n" using S(1) chain_append [of m True r xs n pg ys 0] F(5)
      by (cases xs rule: rev_cases) (auto simp: p_def link_word_def chain_append split: prod.splits)
    from remove_map_eval [OF this nn] show ?thesis using m2(1) unfolding m1_def m3_def by simp
  qed
  obtain u where u: "m3 = (if ny \<noteq> 0 then set_raw ny u m2 else m2)"
    using set_back_raw [of "xs = []" ny p "map_get_pgent ny n m2" m2] unfolding m3_def by metis
  have k2: "keeps R (A - {n}) {?w} m m2" using keeps_trans [OF k1 m2(3)] by auto
  have k3: "keeps R (A - {n}) W m m3"
    using k2 unfolding u keeps_def W_def by auto
  have inv3: "mdb_inv R bls 24 169 m3 (A - {n})"
    unfolding u using nyA m2(2) node_words_apart(6) [OF m2(2), of ny ny u] by (simp add: node_words_def)
  have link: "next_link m3 ?w ny"
  proof -
    have "?w \<in> R \<or> (\<exists>a \<in> A - {n}. ?w \<in> node_words a)" using S(13,5,7) F(2) by (force simp: node_words_def)
    then have "mem m2 ?w = mem m1 ?w" using keepsD [OF m2(3)] by blast
    moreover have "mem m3 ?w = mem m2 ?w" using S(14) nyA unfolding u by auto
    ultimately show ?thesis using next_link_set [OF ny2, of ?w m] unfolding m1_def [symmetric]
      by (simp add: next_link_def)
  qed
  have xs3: "chain m3 True r xs ny"
  proof (rule chain_relink [OF S(1,9)])
    show "?w = link_word (True \<and> xs = []) (last (r # map fst xs))" by (simp add: p_def)
    show "mem m3 x = mem m x" if x: "x \<in> chain_words True r xs" "x \<noteq> ?w" for x
    proof (rule keepsD [OF k3])
      note C = chain_words_apart [OF F(1) S(5) _ x(1), of ny] chain_words_apart [OF F(1) S(5) _ x(1), of n]
      show "x \<in> R \<or> (\<exists>a \<in> A - {n}. x \<in> node_words a)"
        using C(7) F(2) S(4,7) node_words_apart(1) [OF F(1)] by (auto simp: node_words_def)
      show "x \<notin> W" using C(1) F(2) nyA x(2) unfolding W_def by (cases "ny = 0") auto
    qed
    show "?w \<notin> fst ` set xs" using S(5,14) by blast
    show "next_link m3 ?w ny" by (fact link)
    show "link_word True r \<noteq> ?w" if "xs \<noteq> []"
      using S(13) that S(5) node_words_apart(1) [OF F(1)] F(2) by (auto simp: link_word_def node_words_def)
  qed
  have "chain m3 True r (xs @ ys) 0"
  proof (cases ys)
    case Nil
    then show ?thesis using xs3 by (simp add: ny_def)
  next
    case (Cons y ys')
    then obtain pgy where y: "ys = (ny, pgy) # ys'" by (cases y) (simp add: ny_def)
    have nA: "ny \<in> A" "ny \<noteq> n" "ny \<noteq> 0" "ny \<notin> fst ` set ys'" using S(6,7,10) node_words_apart(5) [OF F(1)] by (auto simp: y)
    have "mem m2 ny = mem m ny" using S(14) nA by (intro keepsD [OF k2]) (auto simp: node_words_def)
    then have "map_get_pgent ny n m2 = pgy"
      using S(3) node_prevD(1) [of m ny False n pgy] by (simp add: y map_get_pgent_def map_x_prev_ptr_def)
    then have "node_prev m3 ny (xs = []) p pgy"
      using node_set_back [OF S(12), of pgy] F(8) [of pgy] nA(3) unfolding m3_def y by simp
    moreover have "chain m3 False ny ys' 0"
    proof -
      have "mem m3 x = mem m x" if x: "x \<in> chain_words False ny ys'" for x
      proof (rule keepsD [OF k3])
        have s': "fst ` set ys' \<subseteq> A" using S(6) by (simp add: y)
        note C = chain_words_apart [OF F(1) s' _ x]
        show "x \<in> R \<or> (\<exists>a \<in> A - {n}. x \<in> node_words a)" using C(3) [of n] S(4,7) nA by (auto simp: y)
        have "x \<noteq> ?w"
          using S(13)
        proof
          assume "?w = r \<and> xs = []"
          then show ?thesis using C(4) [of n r] S(4,7) nA F(2) by (auto simp: y)
        next
          assume "\<exists>q \<in> fst ` set xs. ?w = q + 16 \<and> p = q"
          then obtain q where q: "q \<in> fst ` set xs" "?w = q + 16" by blast
          then show ?thesis using C(2) [of q] S(5,8) nA nyA by (auto simp: y node_words_def)
        qed
        then show "x \<notin> W" using C(1) [of ny] nA unfolding W_def by auto
      qed
      then show ?thesis using mchain_cong [of False ny ys' m3 m 0] S(3) by (simp add: y)
    qed
    ultimately show ?thesis using xs3 unfolding y chain_append p_def by simp
  qed
  moreover have "W \<subseteq> link_cells r A" using S(13,5) nyA unfolding W_def link_cells_def by auto
  then have "keeps R (A - {n}) (link_cells r A) m m3" using keeps_mono [OF k3] by blast
  ultimately show ?thesis using run inv3 fr S(7) unfolding frame_inv_def by (intro exI [of _ m3]) auto
qed

section \<open>Inserting a node\<close>

definition node_cells :: "word_t set \<Rightarrow> word_t set" where "node_cells A = (\<Union>a \<in> A. {a, a + 16})"

lemma keeps_seq:
  "keeps R A W m m1 \<Longrightarrow> keeps R A W m1 m2 \<Longrightarrow> keeps R A W m m2"
  unfolding keeps_def by metis

lemma new_node:
  fixes m :: memory
  assumes "take_bit 1 f = 0" "take_bit 1 t_pg = 0" "take_bit 11 t_space = 0" "take_bit 2 ny = 0"
    and "f \<notin> node_words n" "f + 8 \<notin> node_words n"
  defines "m2 \<equiv> map_set_space n t_space (set_backlink_map n f t_pg m)"
  defines "m4 \<equiv> set_next_map n ny (map_set_depth n (map_get_depth f m2 + 1) m2)"
  shows "node_prev m4 n False f t_pg" "next_link m4 (n + 16) ny" "map_get_space n m4 = t_space"
    "map_get_depth n m4 = take_bit 8 (map_get_depth f m + 1)" "x \<notin> node_words n \<Longrightarrow> mem m4 x = mem m x"
proof -
  have raw: "\<exists>v. map_set_space n t_space m = set_raw (n + 8) v m" "\<exists>v. map_set_depth n d m = set_raw (n + 8) v m"
    "\<exists>v. set_backlink_map n f t_pg m = set_raw n v m" "\<exists>v. set_next_map n ny m = set_raw (n + 16) v m" for m d
    by (auto simp: map_set_space_def map_set_depth_def set_backlink_map_def set_next_map_def set_next_ptr_def)
  have d: "map_get_depth f m2 = map_get_depth f m" unfolding m2_def
    by (rule node_cong(3))
      (use assms(6) in \<open>auto simp: map_set_space_def set_backlink_map_def node_words_def\<close>)
  obtain a b c e where m4: "m4 = set_raw (n + 16) a (set_raw (n + 8) b (set_raw (n + 8) c (set_raw n e m)))"
    "m2 = set_raw (n + 8) c (set_raw n e m)" "set_backlink_map n f t_pg m = set_raw n e m"
    using raw unfolding m4_def m2_def by metis
  show "x \<notin> node_words n \<Longrightarrow> mem m4 x = mem m x" unfolding m4(1) by (auto simp: node_words_def)
  have "mem m4 n = mem (set_backlink_map n f t_pg m) n" unfolding m4 by simp
  then show "node_prev m4 n False f t_pg" using node_cong(1) node_prev_set(1) [OF assms(1,2)] by blast
  show "next_link m4 (n + 16) ny" using next_link_set [OF assms(4)] unfolding m4_def set_next_map_def .
  have m8: "mem m4 (n + 8) = mem (map_set_depth n (map_get_depth f m2 + 1) m2) (n + 8)"
    unfolding m4_def set_next_map_def set_next_ptr_def by simp
  show "map_get_space n m4 = t_space"
    using node_cong(4) [OF m8] node_space_set [OF assms(3)] unfolding m2_def by (simp add: node_fields_set)
  show "map_get_depth n m4 = take_bit 8 (map_get_depth f m + 1)"
    using node_cong(3) [OF m8] d by (simp add: node_fields_set)
qed

lemma mdb_map_below_eval:
  fixes t_pg t_space :: word_t
  assumes "node_next m f ny" and "f + 16 \<notin> node_words n"
  defines "m2 \<equiv> map_set_space n t_space (set_backlink_map n f t_pg m)"
  defines "m4 \<equiv> set_next_map n ny (map_set_depth n (map_get_depth f m2 + 1) m2)"
  defines "m5 \<equiv> set_next_map f n m4"
  shows "mdb_map_below bls f n t_pg t_space m =
    Some (if ny \<noteq> 0 then set_backlink_map ny n (map_get_pgent ny f m5) m5 else m5)"
proof -
  have "mem m4 (f + 16) = mem m (f + 16)" using assms(2)
    unfolding m4_def m2_def set_next_map_def set_next_ptr_def map_set_depth_def map_set_space_def set_backlink_map_def
    by (simp add: node_words_def)
  then have "node_next m4 f ny" using node_cong(2) assms(1) by blast
  from node_nextD(5,6) [OF this] show ?thesis
    using node_nextD(1) [OF assms(1)] unfolding mdb_map_below_def m5_def m4_def m2_def by (simp add: Let_def)
qed

lemma insert_node:
  assumes fr: "frame_inv R bls A r m (xs @ (f, pg) # ys)" and n: "n \<in> A" "n \<notin> fst ` set (xs @ (f, pg) # ys)"
    and "take_bit 1 t_pg = 0" and "take_bit 11 t_space = 0"
  shows "\<exists>m'. mdb_map_below bls f n t_pg t_space m = Some m' \<and>
    frame_inv R bls A r m' (xs @ (f, pg) # (n, t_pg) # ys) \<and> keeps R A (insert (n + 8) (node_cells A)) m m' \<and>
    map_get_space n m' = t_space \<and> map_get_depth n m' = take_bit 8 (map_get_depth f m + 1)"
proof -
  note F = frame_invD [OF fr] and S = frame_split [OF fr] and N = node_words_apart [OF F(1)]
  define ny where "ny = (case ys of [] \<Rightarrow> 0 | (k, _) # _ \<Rightarrow> k)"
  have nn: "node_next m f ny" using S(3) by (cases ys) (auto simp: ny_def next_link_node link_word_def)
  have fn: "f \<noteq> n" "node_words f \<inter> node_words n = {}" using n N(2) [OF S(4) n(1)] by auto
  have nyA: "ny \<noteq> 0 \<longrightarrow> ny \<in> A \<and> ny \<noteq> f \<and> ny \<noteq> n" using S(6,7) n(2) by (cases ys) (auto simp: ny_def)
  have nyxs: "ny \<noteq> 0 \<longrightarrow> ny \<notin> fst ` set xs" using S(8) by (cases ys) (force simp: ny_def)+
  have ny2: "take_bit 2 ny = 0" using nyA N(4) [of ny] by (cases "ny = 0") auto
  define m2 where "m2 = map_set_space n t_space (set_backlink_map n f t_pg m)"
  define m4 where "m4 = set_next_map n ny (map_set_depth n (map_get_depth f m2 + 1) m2)"
  define m5 where "m5 = set_next_map f n m4"
  define m6 where "m6 = (if ny \<noteq> 0 then set_backlink_map ny n (map_get_pgent ny f m5) m5 else m5)"
  have fw: "f \<notin> node_words n" "f + 8 \<notin> node_words n" "f + 16 \<notin> node_words n" using fn(2) by (auto simp: node_words_def)
  note M4 = new_node [OF N(3) [OF S(4)] assms(4,5) ny2 fw(1,2), where m = m, folded m2_def, folded m4_def]
  have run: "mdb_map_below bls f n t_pg t_space m = Some m6"
    using mdb_map_below_eval [OF nn fw(3)] unfolding m6_def m5_def m4_def m2_def .
  have e5: "mem m5 x = mem m4 x" if "x \<noteq> f + 16" for x using that by (simp add: m5_def set_next_map_def set_next_ptr_def)
  have e6: "mem m6 x = mem m5 x" if "x \<noteq> ny \<or> ny = 0" for x using that by (auto simp: m6_def set_backlink_map_def)
  have e: "mem m6 x = mem m x" if "x \<notin> node_words n" "x \<noteq> f + 16" "x \<noteq> ny \<or> ny = 0" for x
    using that e5 e6 M4(5) by simp
  have nw: "ny \<noteq> n" "ny \<noteq> n + 8" "ny \<noteq> n + 16" if "ny \<noteq> 0" using nyA that N(2) [OF n(1), of ny] by (auto simp: node_words_def)
  have "mem m6 x = mem m4 x" if "x \<in> node_words n" for x
  proof -
    have "x \<noteq> f + 16" "x \<noteq> ny \<or> ny = 0" using that fn(2) nw by (auto simp: node_words_def)
    then show ?thesis using e5 e6 by simp
  qed
  then have n6: "mem m6 n = mem m4 n" "mem m6 (n + 8) = mem m4 (n + 8)" "mem m6 (n + 16) = mem m4 (n + 16)"
    by (simp_all add: node_words_def)
  have st: "mdb_inv R bls 24 169 (set_raw x v k) A" if "mdb_inv R bls 24 169 k A" "a \<in> A" "x \<in> node_words a" for x v k a
    using node_words_apart(6) [OF that] .
  have inv6: "mdb_inv R bls 24 169 m6 A"
  proof -
    have "mdb_inv R bls 24 169 m4 A"
      unfolding m4_def m2_def set_next_map_def set_next_ptr_def map_set_depth_def map_set_space_def set_backlink_map_def
      by (intro st [OF _ n(1)] F(1)) (simp_all add: node_words_def)
    then have "mdb_inv R bls 24 169 m5 A"
      unfolding m5_def set_next_map_def set_next_ptr_def by (intro st [OF _ S(4)]) (simp_all add: node_words_def)
    then show ?thesis
      unfolding m6_def set_backlink_map_def using nyA st [of m5 ny ny] by (simp add: node_words_def)
  qed
  have link: "next_link m6 (f + 16) n"
  proof -
    have "f + 16 \<noteq> ny \<or> ny = 0" using nyA N(2) [OF S(4), of ny] by (auto simp: node_words_def)
    then have "mem m6 (f + 16) = mem m5 (f + 16)" by (rule e6)
    then show ?thesis using next_link_set [OF N(4) [OF n(1)], of "f + 16" m4] unfolding m5_def set_next_map_def
      by (simp add: next_link_def)
  qed
  have xs6: "chain m6 True r xs f"
  proof -
    have "mem m6 x = mem m x" if x: "x \<in> chain_words True r xs" for x
    proof -
      note C = chain_words_apart [OF F(1) S(5) _ x]
      have "x \<notin> node_words n" "x \<noteq> f + 16" using C(2) [of n] C(2) [of f] n S(4,7) F(2) by (auto simp: node_words_def)
      moreover have "x \<noteq> ny \<or> ny = 0" using C(1) [of ny] nyA nyxs F(2) by auto
      ultimately show ?thesis by (rule e)
    qed
    then show ?thesis using mchain_cong [of True r xs m6 m f] S(1) by blast
  qed
  have f6: "node_prev m6 f (xs = []) (last (r # map fst xs)) pg"
  proof -
    have "f \<noteq> f + 16" "f \<noteq> ny \<or> ny = 0" using nyA by auto
    then have "mem m6 f = mem m f" using e fw(1) by blast
    then show ?thesis using S(2) node_cong(1) by blast
  qed
  have ys6: "chain m6 False n ys 0"
  proof (cases ys)
    case Nil
    then show ?thesis using M4(2) n6(3) by (simp add: ny_def link_word_def next_link_def)
  next
    case (Cons y ys')
    then obtain pgy where y: "ys = (ny, pgy) # ys'" by (cases y) (simp add: ny_def)
    have nA: "ny \<in> A" "ny \<noteq> n" "ny \<noteq> f" "ny \<noteq> 0" "ny \<notin> fst ` set ys'" "fst ` set ys' \<subseteq> A" "n \<notin> fst ` set ys'" "f \<notin> fst ` set ys'"
      using S(6,7,10) N(5) n(2) by (auto simp: y)
    have nyw: "ny \<notin> node_words n" "ny \<noteq> f + 16" using nw nA N(2) [OF S(4) nA(1)] by (auto simp: node_words_def)
    then have "mem m5 ny = mem m ny" using e5 M4(5) by simp
    then have "map_get_pgent ny f m5 = pgy"
      using S(3) node_prevD(1) [of m ny False f pgy] by (simp add: y map_get_pgent_def map_x_prev_ptr_def)
    then have "node_prev m6 ny False n pgy"
      using node_prev_set(1) [OF N(3) [OF n(1)], of pgy] F(8) [of pgy] nA(4) unfolding m6_def y by simp
    moreover have "chain m6 False ny ys' 0"
    proof -
      have "mem m6 x = mem m x" if x: "x \<in> chain_words False ny ys'" for x
      proof -
        note C = chain_words_apart [OF F(1) nA(6) _ x]
        have "x \<notin> node_words n" "x \<noteq> f + 16" "x \<noteq> ny"
          using C(2) [of n] C(2) [of f] C(1) [of ny] nA n(1) S(4) by (auto simp: node_words_def)
        then show ?thesis using e by blast
      qed
      then show ?thesis using mchain_cong [of False ny ys' m6 m 0] S(3) by (simp add: y)
    qed
    moreover have "next_link m6 (n + 16) ny" using M4(2) n6(3) by (simp add: next_link_def)
    ultimately show ?thesis by (simp add: y link_word_def)
  qed
  have "node_prev m6 n False f t_pg" using M4(1) node_cong(1) [OF n6(1)] by simp
  then have "chain m6 True r (xs @ (f, pg) # (n, t_pg) # ys) 0"
    unfolding chain_append using xs6 f6 link ys6 by (simp add: link_word_def)
  then have "frame_inv R bls A r m6 (xs @ (f, pg) # (n, t_pg) # ys)"
    using fr inv6 n assms(4) unfolding frame_inv_def by auto
  moreover have "keeps R A (insert (n + 8) (node_cells A)) m m6"
    using e S(4) n(1) nyA unfolding keeps_def node_cells_def node_words_def by auto
  moreover have "map_get_space n m6 = t_space" "map_get_depth n m6 = take_bit 8 (map_get_depth f m + 1)"
    using M4(3,4) node_cong(3,4) [OF n6(2)] by simp_all
  ultimately show ?thesis using run by blast
qed

end
