(* ===== verification/Mapping_Tree.thy ===== *)
theory Mapping_Tree
  imports Mapping_Chain
begin

text \<open>
  The mapping database refines trees of mappings.  The mappings of a page frame form a tree; the
  database keeps its nodes in pre-order, in the chain below the root node of the frame.  Mapping a
  page adds a leaf below the node of the source, flushing removes a subtree (\<^verbatim>\<open>mdb_map\<close> and
  \<^verbatim>\<open>mdb_flush\<close> of \<^verbatim>\<open>generic/mapping.cc\<close>, for mappings of one page size).
\<close>

section \<open>Trees and their pre-order\<close>

datatype mtree = Mapping pgent_p space_p "mtree list"

text \<open>Page table entry, address space and depth of every mapping.\<close>

fun preorder :: "nat \<Rightarrow> mtree \<Rightarrow> (pgent_p \<times> space_p \<times> nat) list" where
  "preorder d (Mapping pg sp cs) = (pg, sp, d) # concat (map (preorder (Suc d)) cs)"

lemma preorder_depth: "e \<in> set (preorder d t) \<Longrightarrow> d \<le> snd (snd e)"
proof (induction d t rule: preorder.induct)
  case (1 d pg sp cs)
  show ?case
  proof (cases "e = (pg, sp, d)")
    case False
    then obtain t where t: "t \<in> set cs" "e \<in> set (preorder (Suc d) t)" using "1.prems" by auto
    then show ?thesis using "1.IH" [OF t] by simp
  qed simp
qed

lemma preorder_below: "e \<in> set (concat (map (preorder (Suc d)) cs)) \<Longrightarrow> d < snd (snd e)"
  by (force dest: preorder_depth simp: Suc_le_eq)

text \<open>What the nodes of a chain say.\<close>

definition entries :: "memory \<Rightarrow> (mapnode_p \<times> pgent_p) list \<Rightarrow> (pgent_p \<times> space_p \<times> nat) list" where
  "entries m ns = map (\<lambda>(n, pg). (pg, map_get_space n m, unat (map_get_depth n m))) ns"

lemma entries_simps [simp]:
  "entries m [] = []"
  "entries m ((n, pg) # ns) = (pg, map_get_space n m, unat (map_get_depth n m)) # entries m ns"
  "entries m (xs @ ys) = entries m xs @ entries m ys"
  by (simp_all add: entries_def)

lemma entries_cong: "(\<And>n. n \<in> fst ` set ns \<Longrightarrow> mem m' (n + 8) = mem m (n + 8)) \<Longrightarrow> entries m' ns = entries m ns"
  unfolding entries_def by (rule map_cong) (auto simp: node_cong(3,4) [of m' _ m] rev_image_eqI)

section \<open>Mapping\<close>

lemma alloc_frame:
  assumes fr: "frame_inv R bls A r m ns" and k: "mdb_alloc_buffer bls sizeof_mapnode_t m \<noteq> None"
  shows "\<exists>n m1. mdb_alloc_buffer bls sizeof_mapnode_t m = Some (n, m1) \<and> n \<notin> A \<and>
    frame_inv R bls (insert n A) r m1 ns \<and> keeps R A {} m m1"
proof -
  note F = frame_invD [OF fr]
  obtain n m1 where al: "mdb_alloc_buffer bls (of_nat 24) m = Some (n, m1)"
    using k by (auto simp: sizeof_mapnode_t_def)
  note I = mdb_alloc_inv [OF F(1) al]
  have ke: "keeps R A {} m m1" using I by (intro keeps_nodes) auto
  have "chain m1 True r ns 0 = chain m True r ns 0"
    by (rule mchain_cong, rule keepsD [OF ke]) (use F(2,7) in \<open>auto simp: chain_words_def link_word_def node_words_def\<close>)
  then have "frame_inv R bls (insert n A) r m1 ns" using fr I unfolding frame_inv_def by auto
  then show ?thesis using al I ke by (auto simp: sizeof_mapnode_t_def)
qed

lemma entries_keeps:
  assumes inv: "mdb_inv R bls 24 169 m A" and "keeps R B W m m'" and "fst ` set ns \<subseteq> B" and "B \<subseteq> A"
    and "W \<subseteq> R \<union> node_cells A \<union> (\<lambda>a. a + 8) ` C" and "fst ` set ns \<inter> C = {}" and "C \<subseteq> A"
  shows "entries m' ns = entries m ns"
proof (rule entries_cong)
  fix n
  assume n: "n \<in> fst ` set ns"
  then have nA: "n \<in> A" "n \<in> B" using assms(3,4) by auto
  have "n + 8 \<notin> W"
  proof
    assume "n + 8 \<in> W"
    then consider "n + 8 \<in> R" | a where "a \<in> A" "n + 8 = a \<or> n + 8 = a + 16" | a where "a \<in> A" "a \<noteq> n" "n + 8 = a + 8"
      using assms(5-7) n unfolding node_cells_def by blast
    then show False
    proof cases
      case 1
      then show False using node_words_apart(1) [OF inv nA(1)] by (auto simp: node_words_def)
    next
      case (2 a)
      then show False using node_words_apart(2) [OF inv nA(1), of a] by (cases "n = a") (auto simp: node_words_def)
    qed simp
  qed
  then show "mem m' (n + 8) = mem m (n + 8)" using nA(2) by (intro keepsD [OF assms(2)]) (auto simp: node_words_def)
qed

lemma frame_node:
  assumes "entries m ns = xs @ (pg, sp, d) # ys" and "ns ! length xs = (f, pg')"
  shows "\<exists>as bs. ns = as @ (f, pg) # bs \<and> entries m as = xs \<and> entries m bs = ys \<and> map_get_space f m = sp \<and>
    unat (map_get_depth f m) = d"
proof -
  obtain as n bs where n: "ns = as @ n # bs" "entries m as = xs" "entries m [n] = [(pg, sp, d)]" "entries m bs = ys"
    using assms(1) by (auto simp: entries_def map_eq_append_conv)
  then have "length as = length xs" by (auto simp: entries_def)
  then have "n = (f, pg')" using n(1) assms(2) by (metis nth_append_length)
  then show ?thesis using n by (auto simp: entries_def)
qed

lemma mdb_map_tree:
  assumes "frame_inv R bls A r m ns" and "entries m ns = xs @ preorder d (Mapping pg sp cs) @ ys"
    and "ns ! length xs = (f_map, pg)" and "d < 255" and "mdb_pgsize f_hwpgsize = mdb_pgsize t_hwpgsize"
    and "take_bit 1 t_pg = 0" and "take_bit 11 t_space = 0" and "mdb_alloc_buffer bls sizeof_mapnode_t m \<noteq> None"
  shows "\<exists>n m' ns'. mdb_map bls f_map pg f_hwpgsize f_addr t_pg t_hwpgsize t_space False m = Some (n, m') \<and> n \<notin> A \<and>
    frame_inv R bls (insert n A) r m' ns' \<and>
    entries m' ns' = xs @ preorder d (Mapping pg sp (Mapping t_pg t_space [] # cs)) @ ys \<and> (\<forall>x \<in> R. mem m' x = mem m x)"
proof -
  obtain n m1 where n: "mdb_alloc_buffer bls sizeof_mapnode_t m = Some (n, m1)" "n \<notin> A"
    "frame_inv R bls (insert n A) r m1 ns" "keeps R A {} m m1"
    using alloc_frame [OF assms(1,8)] by blast
  have nsA: "fst ` set ns \<subseteq> A" using frame_invD(7) [OF assms(1)] .
  have e1: "entries m1 ns = entries m ns"
    by (rule entries_keeps [OF frame_invD(1) [OF assms(1)] n(4) nsA, of "{}"]) auto
  obtain as bs where ab: "ns = as @ (f_map, pg) # bs" "entries m1 as = xs"
      "entries m1 bs = concat (map (preorder (Suc d)) cs) @ ys" "map_get_space f_map m1 = sp" "unat (map_get_depth f_map m1) = d"
    using frame_node [of m1 ns xs pg sp d "concat (map (preorder (Suc d)) cs) @ ys"] assms(2,3) e1 by auto
  have nn: "n \<notin> fst ` set (as @ (f_map, pg) # bs)" using n(2) nsA ab(1) by blast
  obtain m' where m': "mdb_map_below bls f_map n t_pg t_space m1 = Some m'"
    "frame_inv R bls (insert n A) r m' (as @ (f_map, pg) # (n, t_pg) # bs)"
    "keeps R (insert n A) (insert (n + 8) (node_cells (insert n A))) m1 m'" "map_get_space n m' = t_space"
    "map_get_depth n m' = take_bit 8 (map_get_depth f_map m1 + 1)"
    using insert_node [OF n(3) [unfolded ab(1)] insertI1 nn assms(6,7)] by blast
  have run: "mdb_map bls f_map pg f_hwpgsize f_addr t_pg t_hwpgsize t_space False m = Some (n, m')"
    using n(1) m'(1) assms(5) by (simp add: mdb_map_def Let_def)
  have "entries m' zs = entries m1 zs" if "fst ` set zs \<subseteq> A" for zs
    by (rule entries_keeps [OF frame_invD(1) [OF n(3)] m'(3), of zs "{n}"]) (use that n(2) in auto)
  from this [of as] this [of "[(f_map, pg)]"] this [of bs]
  have "entries m' as = entries m1 as" "entries m' bs = entries m1 bs" "map_get_space f_map m' = map_get_space f_map m1"
    "unat (map_get_depth f_map m') = unat (map_get_depth f_map m1)" using nsA by (simp_all add: ab(1) image_Un)
  moreover have "unat (map_get_depth n m') = Suc d"
    using ab(5) assms(4) unfolding m'(5)
    by (simp add: unsigned_take_bit_eq take_bit_nat_eq_self unat_word_ariths(1))
  ultimately have "entries m' (as @ (f_map, pg) # (n, t_pg) # bs) =
      xs @ preorder d (Mapping pg sp (Mapping t_pg t_space [] # cs)) @ ys"
    using ab(2-5) m'(4) by simp
  moreover have "mem m' x = mem m x" if x: "x \<in> R" for x
  proof -
    note N = node_words_apart(1) [OF frame_invD(1) [OF n(3)]]
    have "x \<notin> insert (n + 8) (node_cells (insert n A))"
      using N [of n] N x unfolding node_cells_def node_words_def by blast
    then show ?thesis using keepsD [OF m'(3), of x] keepsD [OF n(4), of x] x by auto
  qed
  ultimately show ?thesis using run n(2) m'(2) by blast
qed

text \<open>C7: mapping a page refines the insertion of a leaf in the tree of mappings.  If the memory
  represents the tree of a frame (and holds kernel words, the set \<open>R\<close>, besides the nodes), the source node is at a
  depth below 255 (the depth of a node has 8 bits, and a mapping below depth 255 gets depth 0), the source node
  and the new mapping have the same page size, the new page table entry and address space are aligned, and a
  buffer can be allocated, then \<^verbatim>\<open>mdb_map\<close> without grant returns a node that was not in use and leaves the
  representation of the tree with the new mapping as the first child of the source; the memory
  outside the nodes is unchanged.\<close>
theorem mdb_map_refines:
  assumes "frame_inv R bls A r m ns" and "entries m ns = xs @ preorder d (Mapping pg sp cs) @ ys"
    and "ns ! length xs = (f_map, pg)" and "d < 255" and "mdb_pgsize f_hwpgsize = mdb_pgsize t_hwpgsize"
    and "take_bit 1 t_pg = 0" and "take_bit 11 t_space = 0" and "mdb_alloc_buffer bls sizeof_mapnode_t m \<noteq> None"
  shows "\<exists>n m' ns'. mdb_map bls f_map pg f_hwpgsize f_addr t_pg t_hwpgsize t_space False m = Some (n, m') \<and> n \<notin> A \<and>
    frame_inv R bls (insert n A) r m' ns' \<and>
    entries m' ns' = xs @ preorder d (Mapping pg sp (Mapping t_pg t_space [] # cs)) @ ys \<and> (\<forall>x \<in> R. mem m' x = mem m x)"
  using assms by (rule mdb_map_tree)

text \<open>A frame with one mapping: the node at \<^verbatim>\<open>0x10040\<close>, in a page with one free buffer.  The spaces at
  \<^verbatim>\<open>0x80000\<close> and \<^verbatim>\<open>0x90000\<close> have tables for address 0; the first maps it.\<close>

definition one_page :: memory where
  "one_page = \<lparr>mem = (\<lambda>_. 0)(0x40000 := 24, 0x40008 := 0x10000, 0x40010 := 169, 0x10000 := 0x10028, 0x10008 := 1,
     0x10020 := 0x40000, 0x80000 := 0x1600000000020000, 0xFF00000000020000 := 0x1400000000030000,
     0xFF00000000030000 := 0x200000000000015E, 0xFF00000000032000 := 0x10040,
     0x90000 := 0x1600000000060000, 0xFF00000000060000 := 0x1400000000070000, 0xFF00000000070000 := 0x1000000000000000), kmem_free_list = 0, free_chunks = 0\<rparr>"

definition one_mapping :: memory where
  "one_mapping = set_next_ptr 0x50000 False True 0x10040 (set_backlink_root 0x10040 0x50000 0xFF00000000030000
     (map_set_space 0x10040 0x80000 (set_next_map 0x10040 0 one_page)))"

definition kernel_words :: "word_t set" where
  "kernel_words = {0x40000, 0x50000, 0x80000, 0x90000, 0xFF00000000020000, 0xFF00000000060000, 0xFF00000000030000, 0xFF00000000032000, 0xFF00000000070000, 0xFF00000000072000, 0x81ff8, 0x91ff8}"

lemma one_page_buffers: "buffers 24 169 0x10000 = map (\<lambda>k. 0x10028 + 24 * of_nat k) [0..<169]"
  by (simp add: buffers_def)

lemma one_mapping_state: "mdb_state kernel_words 0x40000 24 169 one_mapping 0 [(0x10000, [0x10028])] {} []"
proof -
  have "(0x10028 :: word_t) = (\<lambda>k. 0x10028 + 24 * of_nat k) (0 :: nat)" by simp
  then have b: "(0x10028 :: word_t) \<in> set (buffers 24 169 0x10000)" unfolding one_page_buffers set_map by (rule image_eqI) simp
  have m: "mem one_mapping 0x40000 = 24" "mem one_mapping 0x40008 = 0x10000" "mem one_mapping 0x40010 = 169"
    "mem one_mapping 0x10000 = 0x10028" "mem one_mapping 0x10008 = 1" "mem one_mapping 0x10020 = 0x40000"
    "mem one_mapping 0x10028 = 0" "mem one_mapping 0x10010 = 0" "mem one_mapping 0x10018 = 0"
    by (simp_all add: one_mapping_def one_page_def set_next_ptr_def set_backlink_root_def map_set_space_def set_next_map_def)
  have "pool (mem one_mapping) 0x40000 24 169 0x10000 [0x10028]" using b m by (simp add: pool_def pgof_def)
  then have "buflist_inv (mem one_mapping) 0x40000 24 169 [(0x10000, [0x10028])] {}"
    using m by (simp add: buflist_inv_def geom_def pgof_def)
  moreover have "free_list one_mapping []"
    by (simp add: free_list_def one_mapping_def one_page_def set_next_ptr_def set_backlink_root_def map_set_space_def set_next_map_def set_raw_def)
  ultimately show ?thesis by (simp add: mdb_state_def MDB_NUM_PGSIZES_def kernel_words_def) (simp add: pgof_def)
qed

lemma kernel_words_free: "kernel_words - {0x40000} \<subseteq> kernel_words - mdb_words 0x40000"
proof -
  have "pgof x = 0x40000" if "x \<in> mdb_words 0x40000" for x
    using that pgof_add [of "0x40000" "8 * k" for k] by (auto simp: mdb_words_def) (simp add: pgof_def)
  moreover have "pgof x \<noteq> 0x40000" if "x \<in> kernel_words - {0x40000}" for x using that by (auto simp: kernel_words_def pgof_def)
  ultimately show ?thesis by blast
qed

definition one_page_nodes :: "word_t set" where "one_page_nodes = set (buffers 24 169 0x10000) - {0x10028}"

lemma one_mapping_frame:
  "frame_inv kernel_words 0x40000 one_page_nodes 0x50000 one_mapping [(0x10040, 0xFF00000000030000)]"
  "entries one_mapping [(0x10040, 0xFF00000000030000)] = [(0xFF00000000030000, 0x80000, 0)]"
  "mdb_alloc_buffer 0x40000 sizeof_mapnode_t one_mapping \<noteq> None" "0x10058 \<in> one_page_nodes"
proof -
  have "(\<lambda>k. 0x10028 + 24 * of_nat k :: word_t) k \<in> set (buffers 24 169 0x10000)" if "k < 169" for k
    unfolding one_page_buffers set_map by (rule imageI) (simp add: that)
  from this [of 1] this [of 2] have A: "0x10040 \<in> one_page_nodes" "0x10058 \<in> one_page_nodes"
    by (simp_all add: one_page_nodes_def)
  show "0x10058 \<in> one_page_nodes" by fact
  show "mdb_alloc_buffer 0x40000 sizeof_mapnode_t one_mapping \<noteq> None"
    using mdb_alloc_cases [OF one_mapping_state] by (simp add: sizeof_mapnode_t_def)
  have "mdb_inv kernel_words 0x40000 24 169 one_mapping one_page_nodes"
    unfolding mdb_inv_def using one_mapping_state by (force simp: allocd_def one_page_nodes_def)
  moreover have "next_link one_mapping 0x50000 0x10040" unfolding one_mapping_def by (rule next_link_set) simp
  moreover have "node_prev one_mapping 0x10040 True 0x50000 0xFF00000000030000"
    using node_prev_set(2) [of "0x50000" "0xFF00000000030000" "0x10040" "map_set_space 0x10040 0x80000 (set_next_map 0x10040 0 one_page)"]
      node_cong(1) [of one_mapping "0x10040"] by (simp add: one_mapping_def set_next_ptr_def)
  moreover have "next_link one_mapping 0x10050 0"
    using next_link_set [of 0 "0x10050" one_page]
    by (simp add: next_link_def one_mapping_def set_next_ptr_def set_backlink_root_def map_set_space_def set_next_map_def)
  moreover have "0x50000 \<in> kernel_words - mdb_words 0x40000" using kernel_words_free by (auto simp: kernel_words_def)
  ultimately show "frame_inv kernel_words 0x40000 one_page_nodes 0x50000 one_mapping [(0x10040, 0xFF00000000030000)]"
    using A by (simp add: frame_inv_def link_word_def)
  have e: "mem one_mapping 0x10048 = mem (map_set_space 0x10040 0x80000 (set_next_map 0x10040 0 one_page)) 0x10048"
    by (simp add: one_mapping_def set_next_ptr_def set_backlink_root_def)
  then have "map_get_space 0x10040 one_mapping = 0x80000"
    using node_cong(4) [of one_mapping "0x10040"] node_space_set [of "0x80000" "0x10040"] by simp
  moreover have "map_get_depth 0x10040 one_mapping = 0"
    using e node_cong(3) [of one_mapping "0x10040"]
    by (simp add: node_fields_set) (simp add: map_get_depth_def set_next_map_def set_next_ptr_def one_page_def bf_get_def)
  ultimately show "entries one_mapping [(0x10040, 0xFF00000000030000)] = [(0xFF00000000030000, 0x80000, 0)]" by simp
qed

theorem mdb_map_refines_witness:
  "\<exists>n m' ns'. mdb_map 0x40000 0x10040 0xFF00000000030000 0 0x8000 0xFF00000000070000 0 0x90000 False one_mapping = Some (n, m') \<and>
    n \<notin> one_page_nodes \<and> frame_inv kernel_words 0x40000 (insert n one_page_nodes) 0x50000 m' ns' \<and>
    entries m' ns' = [(0xFF00000000030000, 0x80000, 0), (0xFF00000000070000, 0x90000, 1)]"
  using mdb_map_refines [OF one_mapping_frame(1), of "[]" 0 "0xFF00000000030000" "0x80000" "[]" "[]" "0x10040" 0 0 "0xFF00000000070000" "0x90000" "0x8000"]
    one_mapping_frame(2,3) by auto

section \<open>Flushing\<close>

text \<open>The words of the page table entries of some nodes, and the conditions for clearing them.\<close>

definition pt_cells :: "(mapnode_p \<times> pgent_p) list \<Rightarrow> word_t set" where
  "pt_cells ns = (\<Union>pg \<in> snd ` set ns. {pg, pg + MIPS64_PTAB_SIZE})"

definition asid_cell :: "memory \<Rightarrow> mapnode_p \<Rightarrow> word_t" where
  "asid_cell m n = map_get_space n m + asid_offset"

definition flushable :: "word_t set \<Rightarrow> word_t \<Rightarrow> rootnode_p \<Rightarrow> memory \<Rightarrow> (mapnode_p \<times> pgent_p) list \<Rightarrow> bool" where
  "flushable R bls r m ns \<longleftrightarrow> pt_cells ns \<subseteq> R - mdb_words bls - {r} \<and>
     (\<forall>n \<in> fst ` set ns. asid_cell m n \<in> R - {r} - pt_cells ns \<and> asid_is_valid (asid_cell m n) m)"

lemma flush_tlbent_valid:
  assumes "asid_is_valid (sp + asid_offset) m"
  shows "\<exists>c'. flush_tlbent sp (m, c) = Some (m, c')"
  using assms by (simp add: flush_tlbent_def asid_get_def Let_def)

lemma frame_write_rest:
  assumes fr: "frame_inv R bls A r m ns" and x: "x \<in> R - mdb_words bls - {r}"
  shows "frame_inv R bls A r (set_raw x v m) ns"
proof (rule frame_inv_step [OF fr])
  note F = frame_invD [OF fr]
  show "mdb_inv R bls 24 169 (set_raw x v m) A" using mdb_inv_write [OF F(1)] x by blast
  show "mem (set_raw x v m) y = mem m y" if "y = r \<or> (\<exists>n \<in> fst ` set ns. y = n \<or> y = n + 16)" for y
    using that
  proof
    assume "\<exists>n \<in> fst ` set ns. y = n \<or> y = n + 16"
    then obtain n where n: "n \<in> A" "y \<in> node_words n" using F(7) by (auto simp: node_words_def)
    then have "y \<noteq> x" using x node_words_apart(1) [OF F(1) n(1)] by blast
    then show ?thesis by simp
  qed (use x in auto)
qed

lemma frame_write_fields:
  assumes fr: "frame_inv R bls A r m ns" and a: "a \<in> A"
  shows "frame_inv R bls A r (set_raw (a + 8) v m) ns"
proof (rule frame_inv_step [OF fr])
  note F = frame_invD [OF fr]
  show "mdb_inv R bls 24 169 (set_raw (a + 8) v m) A"
    using node_words_apart(6) [OF F(1) a] by (simp add: node_words_def)
  show "mem (set_raw (a + 8) v m) y = mem m y" if y: "y = r \<or> (\<exists>n \<in> fst ` set ns. y = n \<or> y = n + 16)" for y
  proof -
    have "y \<noteq> a + 8"
      using y
    proof
      assume "y = r"
      then show ?thesis using F(2) node_words_apart(1) [OF F(1) a] by (auto simp: node_words_def)
    next
      assume "\<exists>n \<in> fst ` set ns. y = n \<or> y = n + 16"
      then obtain n where n: "n \<in> A" "y = n \<or> y = n + 16" using F(7) by blast
      then show ?thesis using node_words_apart(2) [OF F(1) a n(1)] by (cases "a = n") (auto simp: node_words_def)
    qed
    then show ?thesis by simp
  qed
qed

text \<open>The words of the rest of the memory keep their value or become invalid entries.  An entry of a size that
  has no table of its own keeps the size of the smallest page in it and is marked as a subtree.\<close>

definition pt_links :: "(mapnode_p \<times> pgent_p) list \<Rightarrow> word_t set" where
  "pt_links ns = (\<lambda>pg. pg + MIPS64_PTAB_SIZE) ` snd ` set ns"

definition only_clears :: "nat \<Rightarrow> word_t set \<Rightarrow> word_t set \<Rightarrow> memory \<Rightarrow> memory \<Rightarrow> bool" where
  "only_clears hw L R m m' \<longleftrightarrow> (\<forall>x \<in> R. mem m' x = mem m x \<or> \<not> ent_is_valid (mem m' x) \<and>
     (x \<in> L \<or> is_table_size hw \<or> hw = 11 \<or> ent_is_subtree (mem m' x) \<and> ent_pgsize (mem m' x) = ent_pgsize (mem m x)))"

lemma only_clears_trans:
  assumes "only_clears hw L R m m1" and "only_clears hw L' R m1 m2"
  shows "only_clears hw (L \<union> L') R m m2"
  unfolding only_clears_def
proof
  fix x
  assume x: "x \<in> R"
  show "mem m2 x = mem m x \<or> \<not> ent_is_valid (mem m2 x) \<and> (x \<in> L \<union> L' \<or> is_table_size hw \<or> hw = 11 \<or>
      ent_is_subtree (mem m2 x) \<and> ent_pgsize (mem m2 x) = ent_pgsize (mem m x))"
    using bspec [OF assms(1) [unfolded only_clears_def] x] bspec [OF assms(2) [unfolded only_clears_def] x]
    by (cases "mem m1 x = mem m x"; cases "mem m2 x = mem m1 x") auto
qed

lemma only_clears_refl [simp]: "only_clears hw L R m m"
  by (simp add: only_clears_def)

lemma pg_clear_eval:
  "\<exists>w. pg_clear pg sz False m = set_raw (pg + MIPS64_PTAB_SIZE) 0 (set_raw pg w m) \<and> \<not> ent_is_valid w \<and>
     (is_table_size sz \<or> sz = 11 \<or> ent_is_subtree w \<and> ent_pgsize w = ent_pgsize (mem m pg))"
proof -
  let ?w = "if is_table_size sz \<or> sz = 11 then 0 else bf_set 60 1 1 (bf_set 61 1 0 (pg_raw m pg))"
  have "pg_clear pg sz False m = set_raw (pg + MIPS64_PTAB_SIZE) 0 (set_raw pg ?w m)"
    by (simp only: pg_clear_def Let_def set_linknode_def set_raw_def [of "pg + MIPS64_PTAB_SIZE"] simp_thms if_True)
  moreover have "\<not> ent_is_valid ?w"
    by (simp add: ent_is_valid_def bf_get_set_same bf_get_set_other)
  moreover have "is_table_size sz \<or> sz = 11 \<or> ent_is_subtree ?w \<and> ent_pgsize ?w = ent_pgsize (mem m pg)"
    by (simp add: ent_is_subtree_def ent_pgsize_def bf_get_set_same bf_get_set_other pg_raw_def)
  ultimately show ?thesis by blast
qed

lemma link_cells_rest: "mdb_inv R bls 24 169 m A \<Longrightarrow> x \<in> R - {r} \<Longrightarrow> x \<notin> link_cells r A"
  using node_words_apart(1) [of R bls m A] unfolding link_cells_def node_words_def by blast

lemma flush_node_step:
  assumes fr: "frame_inv R bls A r m (xs @ (n, pg) # ys)" and fl: "flushable R bls r m ((n, pg) # zs)"
    and v: "fl_f_map v = n" "fl_f_pg v = pg" "fl_unmap_self v" and fp: "fpage_is_rwx fp"
  defines "p \<equiv> last (r # map fst xs)"
  shows "\<exists>w m' c'. flush_node fp v (m, c) = Some (v\<lparr>fl_rwx := w, fl_pmap := (if xs = [] then 0 else p),
      fl_proot := (if xs = [] then p else 0)\<rparr>, m', c') \<and>
    frame_inv R bls (A - {n}) r m' (xs @ ys) \<and> keeps R (A - {n}) (link_cells r A \<union> pt_cells [(n, pg)]) m m' \<and>
    only_clears (hw_pgsize (fl_f_pgsize v)) (pt_links [(n, pg)]) (R - {r}) m m' \<and> \<not> ent_is_valid (mem m' pg)"
proof -
  note F = frame_invD [OF fr] and S = frame_split [OF fr, folded p_def]
  have pA: "xs \<noteq> [] \<longrightarrow> p \<noteq> 0" using S(5,13) node_words_apart(5) [OF F(1)] by blast
  note P = node_prevD [OF S(2)]
  let ?m1 = "map_update_rwx n (pg_reference_bits pg m) m"
  obtain u where u: "?m1 = set_raw (n + 8) u m" by (simp add: map_update_rwx_def map_set_rwx_def)
  have fr1: "frame_inv R bls A r ?m1 (xs @ (n, pg) # ys)" unfolding u by (rule frame_write_fields [OF fr S(4)])
  obtain m2 where m2: "(if xs = [] then remove_map_root p n ?m1 else remove_map p n ?m1) = Some m2"
    "frame_inv R bls (A - {n}) r m2 (xs @ ys)" "keeps R (A - {n}) (link_cells r A) ?m1 m2"
    using unlink_node [OF fr1] unfolding p_def by blast
  obtain w where w: "pg_clear pg (hw_pgsize (fl_f_pgsize v)) False m2 = set_raw (pg + MIPS64_PTAB_SIZE) 0 (set_raw pg w m2)"
    "\<not> ent_is_valid w" "is_table_size (hw_pgsize (fl_f_pgsize v)) \<or> hw_pgsize (fl_f_pgsize v) = 11 \<or>
       ent_is_subtree w \<and> ent_pgsize w = ent_pgsize (mem m2 pg)" using pg_clear_eval by blast
  define m3 where "m3 = set_raw (pg + MIPS64_PTAB_SIZE) 0 (set_raw pg w m2)"
  have cells: "pt_cells [(n, pg)] = {pg, pg + MIPS64_PTAB_SIZE}" "pt_cells [(n, pg)] \<subseteq> pt_cells ((n, pg) # zs)"
    by (auto simp: pt_cells_def)
  have R: "pg \<in> R - mdb_words bls - {r}" "pg + MIPS64_PTAB_SIZE \<in> R - mdb_words bls - {r}"
    using fl cells unfolding flushable_def by blast+
  have fr3: "frame_inv R bls (A - {n}) r m3 (xs @ ys)"
    unfolding m3_def by (intro frame_write_rest [OF frame_write_rest [OF m2(2) R(1)] R(2)])
  have k1: "keeps R (A - {n}) {} m ?m1"
  proof -
    have "x \<noteq> n + 8" if "x \<in> R \<or> (\<exists>a \<in> A - {n}. x \<in> node_words a)" for x
      using that node_words_apart(1,2) [OF F(1) S(4)] unfolding node_words_def [of n] by blast
    then show ?thesis unfolding u keeps_def by simp
  qed
  have k2: "keeps R (A - {n}) (link_cells r A) m m2" using keeps_trans [OF k1 m2(3)] by simp
  have k3: "keeps R (A - {n}) (link_cells r A \<union> pt_cells [(n, pg)]) m m3"
    using k2 unfolding m3_def keeps_def cells(1) by simp
  have rest: "mem m3 x = mem m x" if "x \<in> R - {r} - pt_cells [(n, pg)]" for x
  proof (rule keepsD [OF k3])
    have "x \<notin> node_cells A"
      using that node_words_apart(1) [OF F(1)] unfolding node_cells_def node_words_def by blast
    then show "x \<notin> link_cells r A \<union> pt_cells [(n, pg)]" using that by (auto simp: link_cells_def node_cells_def)
  qed (use that in simp)
  have inval: "\<not> ent_is_valid (mem m3 x)" if "x \<in> pt_cells [(n, pg)]" for x
    using that w(2) unfolding cells(1) m3_def by (auto simp: ent_is_valid_def bf_get_def)
  have "pg \<notin> link_cells r A" using link_cells_rest [OF F(1), of pg r] R(1) by blast
  then have pg2: "mem m2 pg = mem m pg" using keepsD [OF k2, of pg] R(1) by blast
  have oc: "only_clears (hw_pgsize (fl_f_pgsize v)) (pt_links [(n, pg)]) (R - {r}) m m3"
    unfolding only_clears_def
  proof
    fix x
    assume x: "x \<in> R - {r}"
    show "mem m3 x = mem m x \<or> \<not> ent_is_valid (mem m3 x) \<and> (x \<in> pt_links [(n, pg)] \<or> is_table_size (hw_pgsize (fl_f_pgsize v)) \<or>
        hw_pgsize (fl_f_pgsize v) = 11 \<or> ent_is_subtree (mem m3 x) \<and> ent_pgsize (mem m3 x) = ent_pgsize (mem m x))"
    proof (cases "x \<in> pt_cells [(n, pg)]")
      case False
      then show ?thesis using rest x by blast
    next
      case True
      then have "x = pg + MIPS64_PTAB_SIZE \<or> x \<noteq> pg + MIPS64_PTAB_SIZE \<and> x = pg" unfolding cells(1) by blast
      then show ?thesis using inval [OF True] w(3) pg2 by (auto simp: pt_links_def m3_def)
    qed
  qed
  have "asid_is_valid (asid_cell m n) m3"
  proof -
    have "asid_cell m n \<in> R - {r} - pt_cells [(n, pg)]" "asid_is_valid (asid_cell m n) m"
      using fl cells(2) unfolding flushable_def by auto
    then show ?thesis using rest [of "asid_cell m n"] by (simp add: asid_is_valid_def asid_value_def)
  qed
  then obtain c' where "flush_tlbent (map_get_space n m) (m3, c) = Some (m3, c')"
    using flush_tlbent_valid unfolding asid_cell_def by blast
  then have "flush_node fp v (m, c) = Some (v\<lparr>fl_rwx := fl_rwx v OR pg_reference_bits pg ?m1,
      fl_pmap := (if xs = [] then 0 else p), fl_proot := (if xs = [] then p else 0)\<rparr>, m3, c')"
    using v fp m2(1) w(1) pA P(2,3) unfolding flush_node_def m3_def [symmetric]
    by (cases "xs = []") (simp_all add: Let_def)
  then show ?thesis using fr3 k3 oc inval [of pg] unfolding cells(1) by blast
qed

text \<open>One round of the loop on a chain without arrays below.\<close>

lemma flush_advance:
  assumes "flush_node fp v (m, c) = Some (v1, m1, c1)" and "node_next m (fl_f_map v) nx"
    and "fl_root v1 = 0" "fl_rcnt v1 = 0" "fl_f_pgsize v1 \<le> t"
    and "nx \<noteq> 0 \<longrightarrow> map_get_pgent nx (if fl_pmap v1 \<noteq> 0 then fl_pmap v1 else fl_proot v1) m1 = pgx"
  shows "flush_loop fp f_addr t start v (m, c) =
    (if nx \<noteq> 0 \<and> start < map_get_depth nx m1
     then flush_loop fp f_addr t start (v1\<lparr>fl_f_map := nx, fl_f_pg := pgx, fl_unmap_self := True\<rparr>) (m1, c1)
     else Some (fl_rwx v1, m1, c1))"
proof (cases "nx = 0")
  case True
  then have "flush_next fp f_addr t 0 0 0 v1 m1 = Some (v1\<lparr>fl_f_map := 0\<rparr>, m1)"
    using assms(3) by (simp add: flush_next_def)
  then show ?thesis using assms node_nextD [OF assms(2)] True
    by (subst flush_loop.simps) (simp add: flush_scan.simps)
next
  case False
  then have "flush_next fp f_addr t 0 0 nx v1 m1 = Some (v1\<lparr>fl_f_map := nx, fl_f_pg := pgx\<rparr>, m1)"
    using assms(6) by (simp add: flush_next_def)
  moreover have "flush_scan fp (v1\<lparr>fl_f_map := nx, fl_f_pg := pgx\<rparr>) m1 = Some (v1\<lparr>fl_f_map := nx, fl_f_pg := pgx\<rparr>, m1)"
    using False by (subst flush_scan.simps) simp
  ultimately show ?thesis using assms node_nextD [OF assms(2)] False
    by (subst flush_loop.simps) (simp add: Let_def)
qed

text \<open>The nodes that remain keep their fields.\<close>

lemma frame_fields:
  assumes "frame_inv R bls A r m ns" and "keeps R B (link_cells r A \<union> P) m m'" and "P \<subseteq> R" and "k \<in> B" "B \<subseteq> A"
  shows "mem m' (k + 8) = mem m (k + 8)"
proof (rule keepsD [OF assms(2)])
  note F = frame_invD [OF assms(1)]
  have k: "k \<in> A" using assms(4,5) by blast
  have "k + 8 \<notin> R" using node_words_apart(1) [OF F(1) k] by (auto simp: node_words_def)
  moreover have "k + 8 \<noteq> a" "k + 8 \<noteq> a + 16" if "a \<in> A" for a
    using node_words_apart(2) [OF F(1) k that] by (cases "k = a"; auto simp: node_words_def)+
  ultimately show "k + 8 \<notin> link_cells r A \<union> P" using F(2) assms(3) unfolding link_cells_def by blast
qed (use assms(4) in \<open>auto simp: node_words_def\<close>)

lemma flush_round:
  assumes fr: "frame_inv R bls A r m (xs @ (n, pg) # zs)" and fl: "flushable R bls r m ((n, pg) # ws)"
    and v: "fl_f_map v = n" "fl_f_pg v = pg" "fl_unmap_self v" "fl_root v = 0" "fl_rcnt v = 0" "fl_f_pgsize v \<le> t"
    and fp: "fpage_is_rwx fp"
  shows "\<exists>v1 m1 c1. frame_inv R bls (A - {n}) r m1 (xs @ zs) \<and>
    keeps R (A - {n}) (link_cells r A \<union> pt_cells [(n, pg)]) m m1 \<and> only_clears (hw_pgsize (fl_f_pgsize v)) (pt_links [(n, pg)]) (R - {r}) m m1 \<and>
    \<not> ent_is_valid (mem m1 pg) \<and> fl_unmap_self v1 \<and> fl_root v1 = 0 \<and> fl_rcnt v1 = 0 \<and> fl_f_pgsize v1 = fl_f_pgsize v \<and>
    (case zs of [] \<Rightarrow> flush_loop fp f_addr t start v (m, c) = Some (fl_rwx v1, m1, c1)
     | (k, pgk) # _ \<Rightarrow> fl_f_map v1 = k \<and> fl_f_pg v1 = pgk \<and> flush_loop fp f_addr t start v (m, c) =
         (if start < map_get_depth k m then flush_loop fp f_addr t start v1 (m1, c1) else Some (fl_rwx v1, m1, c1)))"
proof -
  note F = frame_invD [OF fr] and S = frame_split [OF fr]
  define p where "p = last (r # map fst xs)"
  obtain w m1 c1 where st: "flush_node fp v (m, c) = Some (v\<lparr>fl_rwx := w, fl_pmap := (if xs = [] then 0 else p),
      fl_proot := (if xs = [] then p else 0)\<rparr>, m1, c1)" "frame_inv R bls (A - {n}) r m1 (xs @ zs)"
      "keeps R (A - {n}) (link_cells r A \<union> pt_cells [(n, pg)]) m m1" "only_clears (hw_pgsize (fl_f_pgsize v)) (pt_links [(n, pg)]) (R - {r}) m m1" "\<not> ent_is_valid (mem m1 pg)"
    using flush_node_step [OF fr fl v(1-3) fp, where c = c] unfolding p_def by blast
  let ?v = "v\<lparr>fl_rwx := w, fl_pmap := (if xs = [] then 0 else p), fl_proot := (if xs = [] then p else 0)\<rparr>"
  have p0: "xs \<noteq> [] \<longrightarrow> p \<noteq> 0" using S(5,13) node_words_apart(5) [OF F(1)] unfolding p_def by blast
  show ?thesis
  proof (cases zs)
    case Nil
    then have "node_next m (fl_f_map v) 0" using S(3) v(1) by (simp add: next_link_node link_word_def)
    from flush_advance [OF st(1) this, of t] show ?thesis
      using st(2-5) v Nil by (intro exI [of _ ?v] exI [of _ m1] exI [of _ c1]) simp
  next
    case (Cons z zs')
    obtain k pgk where z: "zs = (k, pgk) # zs'" using Cons by (cases z) simp
    have kA: "k \<in> A - {n}" using S(6,7) by (auto simp: z)
    have k0: "k \<noteq> 0" using node_words_apart(5) [OF F(1)] kA by blast
    have nx: "node_next m (fl_f_map v) k" using S(3) v(1) by (simp add: z next_link_node link_word_def)
    have "node_prev m1 k (xs = []) p pgk" using frame_split(2) [OF st(2) [unfolded z]] unfolding p_def .
    then have pgk: "map_get_pgent k p m1 = pgk" by (rule node_prevD(1))
    have "pt_cells [(n, pg)] \<subseteq> R" using fl unfolding flushable_def pt_cells_def by auto
    then have "map_get_depth k m1 = map_get_depth k m"
      using frame_fields [OF fr st(3) _ kA] by (intro node_cong(3)) auto
    then have "flush_loop fp f_addr t start v (m, c) = (if start < map_get_depth k m
        then flush_loop fp f_addr t start (?v\<lparr>fl_f_map := k, fl_f_pg := pgk, fl_unmap_self := True\<rparr>) (m1, c1)
        else Some (w, m1, c1))"
      using flush_advance [OF st(1) nx, of t pgk] v k0 pgk p0 by (cases "xs = []") simp_all
    then show ?thesis using st(2-5) v
      by (intro exI [of _ "?v\<lparr>fl_f_map := k, fl_f_pg := pgk, fl_unmap_self := True\<rparr>"] exI [of _ m1] exI [of _ c1]) (simp add: z)
  qed
qed

lemma flushable_step:
  assumes fr: "frame_inv R bls A r m ns" and fl: "flushable R bls r m ((n, pg) # ws)"
    and k: "keeps R (A - {n}) (link_cells r A \<union> pt_cells [(n, pg)]) m m1" and ws: "fst ` set ws \<subseteq> A - {n}"
  shows "flushable R bls r m1 ws"
proof -
  have cells: "pt_cells ((n, pg) # ws) = pt_cells [(n, pg)] \<union> pt_cells ws" by (auto simp: pt_cells_def)
  have "asid_cell m1 k \<in> R - {r} - pt_cells ws \<and> asid_is_valid (asid_cell m1 k) m1" if kw: "k \<in> fst ` set ws" for k
  proof -
    have a: "asid_cell m k \<in> R - {r} - pt_cells ((n, pg) # ws)" "asid_is_valid (asid_cell m k) m"
      using fl kw unfolding flushable_def by auto
    have "pt_cells [(n, pg)] \<subseteq> R" using fl unfolding flushable_def cells by blast
    then have "asid_cell m1 k = asid_cell m k"
      unfolding asid_cell_def using node_cong(4) [OF frame_fields [OF fr assms(3)]] kw ws by auto
    moreover have "mem m1 (asid_cell m k) = mem m (asid_cell m k)"
      by (rule keepsD [OF assms(3)])
        (use a(1) link_cells_rest [OF frame_invD(1) [OF fr], of "asid_cell m k" r] in \<open>auto simp: cells\<close>)
    ultimately show ?thesis using a unfolding cells by (auto simp: asid_is_valid_def asid_value_def)
  qed
  then show ?thesis using fl unfolding flushable_def cells by blast
qed

lemma flush_run:
  assumes "frame_inv R bls A r m (xs @ (n, pg) # sub @ ys)" and "flushable R bls r m ((n, pg) # sub)"
    and "fl_f_map v = n" "fl_f_pg v = pg" "fl_unmap_self v" "fl_root v = 0" "fl_rcnt v = 0" "fl_f_pgsize v \<le> t"
    and fp: "fpage_is_rwx fp" and "\<forall>k \<in> fst ` set sub. start < map_get_depth k m"
    and "ys \<noteq> [] \<longrightarrow> \<not> start < map_get_depth (fst (hd ys)) m"
  shows "\<exists>w m' c'. flush_loop fp f_addr t start v (m, c) = Some (w, m', c') \<and>
    frame_inv R bls (A - fst ` set ((n, pg) # sub)) r m' (xs @ ys) \<and>
    keeps R (A - fst ` set ((n, pg) # sub)) (link_cells r A \<union> pt_cells ((n, pg) # sub)) m m' \<and>
    only_clears (hw_pgsize (fl_f_pgsize v)) (pt_links ((n, pg) # sub)) (R - {r}) m m' \<and>
    (\<forall>pg \<in> snd ` set ((n, pg) # sub). \<not> ent_is_valid (mem m' pg))"
  using assms(1-8,10,11)
proof (induction sub arbitrary: A m c n pg v)
  case Nil
  obtain v1 m1 c1 where st: "frame_inv R bls (A - {n}) r m1 (xs @ ys)"
      "keeps R (A - {n}) (link_cells r A \<union> pt_cells [(n, pg)]) m m1" "only_clears (hw_pgsize (fl_f_pgsize v)) (pt_links [(n, pg)]) (R - {r}) m m1" "\<not> ent_is_valid (mem m1 pg)"
      "case ys of [] \<Rightarrow> flush_loop fp f_addr t start v (m, c) = Some (fl_rwx v1, m1, c1)
       | (k, pgk) # _ \<Rightarrow> fl_f_map v1 = k \<and> fl_f_pg v1 = pgk \<and> flush_loop fp f_addr t start v (m, c) =
         (if start < map_get_depth k m then flush_loop fp f_addr t start v1 (m1, c1) else Some (fl_rwx v1, m1, c1))"
    using flush_round [OF Nil.prems(1) [unfolded append_Nil] Nil.prems(2-8) fp, where c = c and f_addr = f_addr and start = start]
    by (elim exE conjE)
  have "flush_loop fp f_addr t start v (m, c) = Some (fl_rwx v1, m1, c1)"
    using st(5) Nil.prems(10) by (cases ys) (auto split: prod.splits)
  then show ?case using st(1-4) by auto
next
  case (Cons s sub)
  obtain k pgk where s: "s = (k, pgk)" by (cases s)
  note fr = Cons.prems(1) [unfolded s, simplified]
  note F = frame_invD [OF fr] and S = frame_split [OF fr]
  have d: "start < map_get_depth k m" using Cons.prems(9) by (simp add: s)
  obtain v1 m1 c1 where st: "frame_inv R bls (A - {n}) r m1 (xs @ (k, pgk) # sub @ ys)"
      "keeps R (A - {n}) (link_cells r A \<union> pt_cells [(n, pg)]) m m1" "only_clears (hw_pgsize (fl_f_pgsize v)) (pt_links [(n, pg)]) (R - {r}) m m1" "\<not> ent_is_valid (mem m1 pg)"
      "fl_unmap_self v1" "fl_root v1 = 0" "fl_rcnt v1 = 0" "fl_f_pgsize v1 = fl_f_pgsize v" "fl_f_map v1 = k" "fl_f_pg v1 = pgk"
      "flush_loop fp f_addr t start v (m, c) = flush_loop fp f_addr t start v1 (m1, c1)"
    using flush_round [OF fr Cons.prems(2-8) fp, where c = c and f_addr = f_addr and start = start] d by auto
  have sub: "fst ` set (s # sub) \<subseteq> A - {n}" using S(6,7) by (auto simp: s)
  have fl1: "flushable R bls r m1 ((k, pgk) # sub)" using flushable_step [OF fr Cons.prems(2) st(2) sub] by (simp add: s)
  have "pt_cells [(n, pg)] \<subseteq> R" using Cons.prems(2) unfolding flushable_def pt_cells_def by auto
  then have fields: "map_get_depth j m1 = map_get_depth j m" if "j \<in> A - {n}" for j
    using frame_fields [OF fr st(2) _ that] by (intro node_cong(3)) auto
  have "\<forall>j \<in> fst ` set sub. start < map_get_depth j m1"
  proof
    fix j assume "j \<in> fst ` set sub"
    then have "j \<in> A - {n}" "start < map_get_depth j m" using sub Cons.prems(9) by auto
    then show "start < map_get_depth j m1" using fields by simp
  qed
  moreover have "ys \<noteq> [] \<longrightarrow> \<not> start < map_get_depth (fst (hd ys)) m1"
  proof
    assume "ys \<noteq> []"
    then have "fst (hd ys) \<in> A - {n}" using S(6,7) by (cases ys) auto
    then show "\<not> start < map_get_depth (fst (hd ys)) m1" using fields Cons.prems(10) \<open>ys \<noteq> []\<close> by simp
  qed
  ultimately obtain w m' c' where r: "flush_loop fp f_addr t start v1 (m1, c1) = Some (w, m', c')"
      "frame_inv R bls (A - {n} - fst ` set ((k, pgk) # sub)) r m' (xs @ ys)"
      "keeps R (A - {n} - fst ` set ((k, pgk) # sub)) (link_cells r (A - {n}) \<union> pt_cells ((k, pgk) # sub)) m1 m'"
      "only_clears (hw_pgsize (fl_f_pgsize v)) (pt_links ((k, pgk) # sub)) (R - {r}) m1 m'" "\<forall>pg \<in> snd ` set ((k, pgk) # sub). \<not> ent_is_valid (mem m' pg)"
    using Cons.IH [OF st(1) fl1 st(9,10,5-7), where c = c1] st(8) Cons.prems(8) by auto
  have A: "A - {n} - fst ` set ((k, pgk) # sub) = A - fst ` set ((n, pg) # s # sub)" by (auto simp: s)
  have "link_cells r (A - {n}) \<subseteq> link_cells r A" by (auto simp: link_cells_def)
  moreover have "pt_cells ((n, pg) # s # sub) = pt_cells [(n, pg)] \<union> pt_cells ((k, pgk) # sub)" by (auto simp: pt_cells_def s)
  ultimately have cells: "link_cells r A \<union> pt_cells [(n, pg)] \<union> (link_cells r (A - {n}) \<union> pt_cells ((k, pgk) # sub)) \<subseteq>
      link_cells r A \<union> pt_cells ((n, pg) # s # sub)" by blast
  have "keeps R (A - fst ` set ((n, pg) # s # sub)) (link_cells r A \<union> pt_cells ((n, pg) # s # sub)) m m'"
    using keeps_mono [OF keeps_trans [OF st(2) r(3) Diff_subset] cells order_refl] unfolding A .
  moreover have "\<not> ent_is_valid (mem m' pg)"
  proof -
    have "pg \<in> R - {r}" using Cons.prems(2) unfolding flushable_def pt_cells_def by auto
    then show ?thesis using r(4) st(4) unfolding only_clears_def by metis
  qed
  moreover have "pt_links [(n, pg)] \<union> pt_links ((k, pgk) # sub) = pt_links ((n, pg) # s # sub)" by (auto simp: pt_links_def s)
  then have "only_clears (hw_pgsize (fl_f_pgsize v)) (pt_links ((n, pg) # s # sub)) (R - {r}) m m'"
    using only_clears_trans [OF st(3) r(4)] by simp
  ultimately show ?case using r(1,2,5) st(11) unfolding A by (auto simp: s)
qed

text \<open>The walk over the nodes below a node that is kept.\<close>

lemma flush_children:
  assumes fr: "frame_inv R bls A r m (xs @ (n, pg) # sub @ ys)" and fl: "flushable R bls r m sub"
    and v: "fl_f_map v = n" "\<not> fl_unmap_self v" "fl_root v = 0" "fl_rcnt v = 0" "fl_f_pgsize v \<le> t"
    and fp: "fpage_is_rwx fp" and sub: "\<forall>k \<in> fst ` set sub. start < map_get_depth k m"
    and ys: "ys \<noteq> [] \<longrightarrow> \<not> start < map_get_depth (fst (hd ys)) m"
  shows "\<exists>w m' c'. flush_loop fp f_addr t start v (m, c) = Some (w, m', c') \<and>
    frame_inv R bls (A - fst ` set sub) r m' (xs @ (n, pg) # ys) \<and>
    keeps R (A - fst ` set sub) (link_cells r A \<union> pt_cells sub) m m' \<and>
    only_clears (hw_pgsize (fl_f_pgsize v)) (pt_links sub) (R - {r}) m m' \<and> (\<forall>pg \<in> snd ` set sub. \<not> ent_is_valid (mem m' pg))"
proof -
  note F = frame_invD [OF fr] and S = frame_split [OF fr]
  let ?v = "v\<lparr>fl_pmap := n, fl_proot := 0\<rparr>"
  have n0: "n \<noteq> 0" using node_words_apart(5) [OF F(1) S(4)] .
  have st: "flush_node fp v (m, c) = Some (?v, m, c)" using v by (simp add: flush_node_def Let_def)
  show ?thesis
  proof (cases "sub @ ys")
    case Nil
    then have "node_next m (fl_f_map v) 0" using S(3) v(1) by (simp add: next_link_node link_word_def)
    from flush_advance [OF st this, of t] show ?thesis
      using v Nil fr by (auto simp: keeps_def)
  next
    case (Cons z zs)
    obtain k pgk where z: "sub @ ys = (k, pgk) # zs" using Cons by (cases z) simp
    have k0: "k \<noteq> 0" using node_words_apart(5) [OF F(1)] S(6) unfolding z by simp
    have nx: "node_next m (fl_f_map v) k" using S(3) v(1) unfolding z by (simp add: next_link_node link_word_def)
    have pgk: "map_get_pgent k n m = pgk" using S(3) unfolding z by (auto dest: node_prevD(1))
    have run: "flush_loop fp f_addr t start v (m, c) = (if start < map_get_depth k m
        then flush_loop fp f_addr t start (?v\<lparr>fl_f_map := k, fl_f_pg := pgk, fl_unmap_self := True\<rparr>) (m, c)
        else Some (fl_rwx v, m, c))"
      using flush_advance [OF st nx, of t pgk] v n0 k0 pgk by simp
    show ?thesis
    proof (cases sub)
      case Nil
      then have "\<not> start < map_get_depth k m" using ys z by simp
      then show ?thesis using run Nil fr by (auto simp: keeps_def)
    next
      case (Cons s sub')
      then have s: "sub = (k, pgk) # sub'" using z by simp
      have fr': "frame_inv R bls A r m ((xs @ [(n, pg)]) @ (k, pgk) # sub' @ ys)" using fr by (simp add: s)
      have "start < map_get_depth k m" using sub by (simp add: s)
      moreover have "\<forall>j \<in> fst ` set sub'. start < map_get_depth j m" using sub by (simp add: s)
      ultimately show ?thesis
        using flush_run [OF fr' fl [unfolded s] _ _ _ _ _ _ fp _ ys, of "?v\<lparr>fl_f_map := k, fl_f_pg := pgk, fl_unmap_self := True\<rparr>" t f_addr c]
          run v by (simp add: s)
    qed
  qed
qed

lemma mdb_flush_start:
  "\<exists>v. mdb_flush f_map f_pg f_hwpgsize f_addr t_hwpgsize fp us (m, c) =
     flush_loop fp f_addr (mdb_pgsize t_hwpgsize) (map_get_depth f_map m) v (if us then map_set_rwx f_map 0 m else m, c) \<and>
   fl_f_map v = f_map \<and> fl_f_pg v = f_pg \<and> fl_unmap_self v = us \<and> fl_root v = 0 \<and> fl_rcnt v = 0 \<and>
   fl_f_pgsize v = mdb_pgsize f_hwpgsize"
  unfolding mdb_flush_def Let_def prod.case by (rule exI, intro conjI, rule refl) simp_all

lemma flush_result:
  assumes fr: "frame_inv R bls A r m ns" and k: "keeps R B (link_cells r A \<union> P) m m'" and "P \<subseteq> R" and "B \<subseteq> A"
  shows "fst ` set zs \<subseteq> B \<Longrightarrow> entries m' zs = entries m zs" and "x \<in> R - {r} - P \<Longrightarrow> mem m' x = mem m x"
proof -
  show "entries m' zs = entries m zs" if "fst ` set zs \<subseteq> B"
    by (rule entries_cong, rule frame_fields [OF fr k assms(3) _ assms(4)]) (use that in auto)
  show "mem m' x = mem m x" if "x \<in> R - {r} - P"
    by (rule keepsD [OF k]) (use that link_cells_rest [OF frame_invD(1) [OF fr], of x r] in auto)
qed

text \<open>Resetting the reference bits of a node.\<close>

lemma reset_rwx:
  assumes fr: "frame_inv R bls A r m ns" and f: "f \<in> A"
  defines "m1 \<equiv> map_set_rwx f 0 m"
  shows "frame_inv R bls A r m1 ns" "map_get_depth k m1 = map_get_depth k m" "map_get_space k m1 = map_get_space k m"
    "x \<in> R \<Longrightarrow> mem m1 x = mem m x" "flushable R bls r m zs \<Longrightarrow> flushable R bls r m1 zs" "keeps R (A - {f}) {} m m1"
proof -
  note F = frame_invD [OF fr]
  obtain u where u: "m1 = set_raw (f + 8) u m" by (simp add: m1_def map_set_rwx_def)
  show "frame_inv R bls A r m1 ns" unfolding u by (rule frame_write_fields [OF fr f])
  show "map_get_depth k m1 = map_get_depth k m" and sp: "map_get_space k m1 = map_get_space k m" for k
    using node_fields_set(6,7) [of f 0 m] node_cong(3,4) [of m1 k m] by (cases "k = f"; simp add: m1_def map_set_rwx_def)+
  show e: "mem m1 x = mem m x" if "x \<in> R" for x
    using that node_words_apart(1) [OF F(1) f] unfolding u node_words_def by auto
  show "flushable R bls r m1 zs" if "flushable R bls r m zs"
    using that e unfolding flushable_def asid_cell_def sp by (auto simp: asid_is_valid_def asid_value_def)
  show "keeps R (A - {f}) {} m m1"
  proof -
    have "x \<noteq> f + 8" if "x \<in> R \<or> (\<exists>a \<in> A - {f}. x \<in> node_words a)" for x
      using that node_words_apart(1,2) [OF F(1) f] unfolding node_words_def [of f] by blast
    then show ?thesis unfolding u keeps_def by simp
  qed
qed

lemma mdb_flush_tree:
  assumes "frame_inv R bls A r m (xs @ ts @ ys)" and "entries m ts = preorder d (Mapping pg sp cs)" and "fst (hd ts) = f_map"
    and "ys \<noteq> [] \<longrightarrow> unat (map_get_depth (fst (hd ys)) m) \<le> d" and "flushable R bls r m ts"
    and "fpage_is_rwx fp" and "mdb_pgsize f_hwpgsize \<le> mdb_pgsize t_hwpgsize"
  shows "\<exists>w m' c'. mdb_flush f_map pg f_hwpgsize f_addr t_hwpgsize fp unmap_self (m, c) = Some (w, m', c') \<and>
    (let gone = (if unmap_self then ts else tl ts);
         left = xs @ (if unmap_self then [] else [hd ts]) @ ys
     in frame_inv R bls (A - fst ` set gone) r m' left \<and>
        entries m' left = entries m xs @ (if unmap_self then [] else preorder d (Mapping pg sp [])) @ entries m ys \<and>
        (\<forall>pg \<in> snd ` set gone. \<not> ent_is_valid (mem m' pg)) \<and>
        (\<forall>x \<in> R - {r} - pt_cells gone. mem m' x = mem m x) \<and>
        only_clears (hw_pgsize (mdb_pgsize f_hwpgsize)) (pt_links gone) (R - {r}) m m')"
proof -
  obtain sub where ts: "ts = (f_map, pg) # sub" "entries m sub = concat (map (preorder (Suc d)) cs)"
      "map_get_space f_map m = sp" "unat (map_get_depth f_map m) = d"
    using assms(2,3) by (cases ts) (auto simp: entries_def)
  note F = frame_invD [OF assms(1)]
  let ?start = "map_get_depth f_map m"
  have depth: "\<forall>k \<in> fst ` set sub. ?start < map_get_depth k m"
  proof
    fix k assume "k \<in> fst ` set sub"
    then obtain pgk where "(pgk, map_get_space k m, unat (map_get_depth k m)) \<in> set (entries m sub)"
      by (force simp: entries_def)
    then show "?start < map_get_depth k m" using preorder_below [of _ d cs] ts(2,4) by (fastforce simp: word_less_nat_alt)
  qed
  have last: "ys \<noteq> [] \<longrightarrow> \<not> ?start < map_get_depth (fst (hd ys)) m" using assms(4) ts(4) by (auto simp: word_less_nat_alt)
  obtain v where v: "mdb_flush f_map pg f_hwpgsize f_addr t_hwpgsize fp unmap_self (m, c) =
        flush_loop fp f_addr (mdb_pgsize t_hwpgsize) ?start v (if unmap_self then map_set_rwx f_map 0 m else m, c)"
      "fl_f_map v = f_map" "fl_f_pg v = pg" "fl_unmap_self v = unmap_self" "fl_root v = 0" "fl_rcnt v = 0"
      "fl_f_pgsize v = mdb_pgsize f_hwpgsize"
    using mdb_flush_start by blast
  have le: "fl_f_pgsize v \<le> mdb_pgsize t_hwpgsize" using v(7) assms(7) by simp
  show ?thesis
  proof (cases unmap_self)
    case False
    have fl: "flushable R bls r m sub" using assms(5) by (auto simp: flushable_def ts(1) pt_cells_def)
    have fr: "frame_inv R bls A r m (xs @ (f_map, pg) # sub @ ys)" using assms(1) by (simp add: ts(1))
    obtain w m' c' where r: "flush_loop fp f_addr (mdb_pgsize t_hwpgsize) ?start v (m, c) = Some (w, m', c')"
        "frame_inv R bls (A - fst ` set sub) r m' (xs @ (f_map, pg) # ys)"
        "keeps R (A - fst ` set sub) (link_cells r A \<union> pt_cells sub) m m'" "\<forall>pg \<in> snd ` set sub. \<not> ent_is_valid (mem m' pg)"
        "only_clears (hw_pgsize (fl_f_pgsize v)) (pt_links sub) (R - {r}) m m'"
      using flush_children [OF fr fl v(2) _ v(5,6) le assms(6) depth last, where c = c and f_addr = f_addr] v(4) False by auto
    have P: "pt_cells sub \<subseteq> R" using fl unfolding flushable_def by blast
    have "fst ` set (xs @ (f_map, pg) # ys) \<subseteq> A - fst ` set sub" using frame_invD(7) [OF r(2)] .
    from flush_result(1) [OF fr r(3) P Diff_subset this] have "entries m' (xs @ (f_map, pg) # ys) = entries m (xs @ (f_map, pg) # ys)" .
    then show ?thesis using v(1) r flush_result(2) [OF fr r(3) P Diff_subset] False ts(3,4) v(7) by (simp add: ts(1) Let_def)
  next
    case True
    let ?m = "map_set_rwx f_map 0 m"
    have fr: "frame_inv R bls A r m (xs @ (f_map, pg) # sub @ ys)" using assms(1) by (simp add: ts(1))
    have fA: "f_map \<in> A" using frame_split(4) [OF fr] .
    note Z = reset_rwx [OF fr fA]
    have d1: "\<forall>k \<in> fst ` set sub. ?start < map_get_depth k ?m" "ys \<noteq> [] \<longrightarrow> \<not> ?start < map_get_depth (fst (hd ys)) ?m"
      using depth last Z(2) by simp_all
    obtain w m' c' where r: "flush_loop fp f_addr (mdb_pgsize t_hwpgsize) ?start v (?m, c) = Some (w, m', c')"
        "frame_inv R bls (A - fst ` set ts) r m' (xs @ ys)" "keeps R (A - fst ` set ts) (link_cells r A \<union> pt_cells ts) ?m m'"
        "\<forall>pg \<in> snd ` set ts. \<not> ent_is_valid (mem m' pg)"
        "only_clears (hw_pgsize (fl_f_pgsize v)) (pt_links ts) (R - {r}) ?m m'"
      using flush_run [OF Z(1) Z(5) [OF assms(5) [unfolded ts(1)]] v(2,3) _ v(5,6) le assms(6) d1, where c = c and f_addr = f_addr]
        v(4) True unfolding ts(1) by blast
    have "keeps R (A - fst ` set ts) ({} \<union> (link_cells r A \<union> pt_cells ts)) m m'"
      by (rule keeps_trans [OF Z(6) r(3)]) (auto simp: ts(1))
    then have k: "keeps R (A - fst ` set ts) (link_cells r A \<union> pt_cells ts) m m'" by simp
    have P: "pt_cells ts \<subseteq> R" using assms(5) unfolding flushable_def by blast
    have "mem ?m x = mem m x" if "x \<in> R - {r}" for x using Z(4) that by blast
    then have oc: "only_clears (hw_pgsize (mdb_pgsize f_hwpgsize)) (pt_links ts) (R - {r}) m m'"
      using r(5) unfolding only_clears_def v(7) by simp
    have "entries m' (xs @ ys) = entries m (xs @ ys)"
      using flush_result(1) [OF fr k P Diff_subset frame_invD(7) [OF r(2)]] .
    then show ?thesis using v(1) r(1,2,4) flush_result(2) [OF fr k P Diff_subset] True oc by (simp add: Let_def)
  qed
qed

text \<open>C6: flushing refines the removal of a subtree.  If the memory represents the tree of a
  frame, the nodes \<^term>\<open>ts\<close> represent the subtree of the mapping \<^term>\<open>f_map\<close>, and all access rights are
  revoked, \<^verbatim>\<open>mdb_flush\<close> returns; exactly the subtree (without its root, unless the mapping
  itself is to be unmapped) is removed from the tree and its nodes are freed, the page table entries
  of the removed mappings are no longer valid, and every other mapping and the rest of the memory
  are unchanged.\<close>

theorem mdb_flush_refines:
  assumes "frame_inv R bls A r m (xs @ ts @ ys)" and "entries m ts = preorder d (Mapping pg sp cs)" and "fst (hd ts) = f_map"
    and "ys \<noteq> [] \<longrightarrow> unat (map_get_depth (fst (hd ys)) m) \<le> d" and "flushable R bls r m ts"
    and "fpage_is_rwx fp" and "mdb_pgsize f_hwpgsize \<le> mdb_pgsize t_hwpgsize"
  shows "\<exists>w m' c'. mdb_flush f_map pg f_hwpgsize f_addr t_hwpgsize fp unmap_self (m, c) = Some (w, m', c') \<and>
    (let gone = (if unmap_self then ts else tl ts);
         left = xs @ (if unmap_self then [] else [hd ts]) @ ys
     in frame_inv R bls (A - fst ` set gone) r m' left \<and>
        entries m' left = entries m xs @ (if unmap_self then [] else preorder d (Mapping pg sp [])) @ entries m ys \<and>
        (\<forall>pg \<in> snd ` set gone. \<not> ent_is_valid (mem m' pg)) \<and>
        (\<forall>x \<in> R - {r} - pt_cells gone. mem m' x = mem m x))"
  using mdb_flush_tree [OF assms] unfolding Let_def by blast

theorem mdb_flush_refines_witness:
  "\<exists>m w m' c'. frame_inv kernel_words 0x40000 one_page_nodes 0x50000 m [(0x10040, 0xFF00000000030000), (0x10058, 0xFF00000000070000)] \<and>
    mdb_flush 0x10040 0xFF00000000030000 0 0x8000 0 (-1) True (m, two_asids) = Some (w, m', c') \<and>
    frame_inv kernel_words 0x40000 (one_page_nodes - {0x10040, 0x10058}) 0x50000 m' []"
proof -
  let ?ts = "[(0x10040, 0xFF00000000030000), (0x10058, 0xFF00000000070000)] :: (word_t \<times> word_t) list"
  have "(0x10058 :: word_t) \<notin> fst ` set ([] @ (0x10040, 0xFF00000000030000 :: word_t) # [])" by simp
  moreover have "frame_inv kernel_words 0x40000 one_page_nodes 0x50000 one_mapping ([] @ (0x10040, 0xFF00000000030000) # [])"
    using one_mapping_frame(1) by simp
  ultimately have "\<exists>m. frame_inv kernel_words 0x40000 one_page_nodes 0x50000 m ([] @ (0x10040, 0xFF00000000030000) # [(0x10058, 0xFF00000000070000)]) \<and>
    keeps kernel_words one_page_nodes (insert (0x10058 + 8) (node_cells one_page_nodes)) one_mapping m \<and>
    map_get_space 0x10058 m = 0x90000 \<and> map_get_depth 0x10058 m = take_bit 8 (map_get_depth 0x10040 one_mapping + 1)"
    using insert_node [where f = "0x10040" and n = "0x10058" and t_pg = "0xFF00000000070000" and t_space = "0x90000"] one_mapping_frame(4)
    by fastforce
  then
  obtain m where m: "frame_inv kernel_words 0x40000 one_page_nodes 0x50000 m [(0x10040, 0xFF00000000030000), (0x10058, 0xFF00000000070000)]"
    "keeps kernel_words one_page_nodes (insert (0x10058 + 8) (node_cells one_page_nodes)) one_mapping m"
    "map_get_space 0x10058 m = 0x90000" "map_get_depth 0x10058 m = take_bit 8 (map_get_depth 0x10040 one_mapping + 1)" by auto
  note F = frame_invD(1) [OF one_mapping_frame(1)]
  have "entries m [(0x10040, 0xFF00000000030000)] = entries one_mapping [(0x10040, 0xFF00000000030000)]"
    by (rule entries_keeps [OF F m(2), of _ "{0x10058}"]) (use m(1) one_mapping_frame(4) in \<open>auto simp: frame_inv_def\<close>)
  then have e: "map_get_space 0x10040 m = 0x80000" "unat (map_get_depth 0x10040 m) = 0"
    "map_get_depth 0x10040 one_mapping = 0" using one_mapping_frame(2) by (simp_all add: unat_eq_zero)
  have rest: "mem m x = mem one_mapping x" if "x \<in> kernel_words" for x
  proof (rule keepsD [OF m(2)])
    show "x \<notin> insert (0x10058 + 8) (node_cells one_page_nodes)"
      using that node_words_apart(1) [OF F] one_mapping_frame(4) unfolding node_cells_def node_words_def by blast
  qed (use that in simp)
  have "mem m 0x81ff8 = 0" "mem m 0x91ff8 = 0"
    using rest [of "0x81ff8"] rest [of "0x91ff8"]
    by (simp_all add: kernel_words_def one_mapping_def one_page_def set_next_ptr_def set_backlink_root_def map_set_space_def set_next_map_def)
  moreover have "pt_cells ?ts = {0xFF00000000030000, 0xFF00000000032000, 0xFF00000000070000, 0xFF00000000072000}" by (auto simp: pt_cells_def MIPS64_PTAB_SIZE_def)
  moreover have "{0xFF00000000030000, 0xFF00000000032000, 0xFF00000000070000, 0xFF00000000072000} \<subseteq> kernel_words - mdb_words 0x40000"
    using kernel_words_free unfolding kernel_words_def by auto
  ultimately have "flushable kernel_words 0x40000 0x50000 m ?ts"
    using e m(3) by (auto simp: flushable_def asid_cell_def asid_offset_def asid_is_valid_def asid_value_def kernel_words_def)
  moreover have "entries m ?ts = preorder 0 (Mapping 0xFF00000000030000 0x80000 [Mapping 0xFF00000000070000 0x90000 []])"
    using e m(3,4) by simp
  moreover have "fpage_is_rwx (-1)" by (simp add: fpage_is_rwx_def fpage_read_def fpage_write_def fpage_execute_def bf_get_def)
  ultimately show ?thesis
    using mdb_flush_refines [of kernel_words "0x40000" one_page_nodes "0x50000" m "[]" ?ts "[]" 0 "0xFF00000000030000" "0x80000"
        "[Mapping 0xFF00000000070000 0x90000 []]" "0x10040" "-1" 0 0 "0x8000" True two_asids] m(1) by (auto simp: Let_def)
qed

end
