(* ===== verification/Ptab_Walker.thy ===== *)
theory Ptab_Walker
  imports Mapping_Tree Space
begin

text \<open>
  The page table walker (\<^verbatim>\<open>generic/linear_ptab_walker.cc\<close>): mapping an fpage from one address
  space to another and unmapping an fpage.  Both operations walk the page tables with an explicit
  stack, call the mapping database for every page and change the page table entries.

  The parameters \<^term>\<open>bls\<close> and \<^term>\<open>sigma0_mapnode\<close> are the addresses of the buffer lists and of the node of
  sigma0.  \<^term>\<open>None\<close> is a call that does not return: the kernel debugger loops in this configuration.
  Variable shifts take their count modulo 64, as the shift instructions of the machine do.
\<close>

section \<open>Helper functions\<close>

definition shl :: "word_t \<Rightarrow> word_t \<Rightarrow> word_t" where "shl w n = push_bit (unat (n AND 63)) w"

definition shr :: "word_t \<Rightarrow> word_t \<Rightarrow> word_t" where "shr w n = drop_bit (unat (n AND 63)) w"

definition base_mask :: "fpage_t \<Rightarrow> word_t \<Rightarrow> word_t" where
  "base_mask fp sz = shr (- 1) (64 - fpage_get_size_log2 fp) AND NOT (shr (- 1) (64 - sz))"

definition fp_address :: "fpage_t \<Rightarrow> word_t \<Rightarrow> addr_t" where
  "fp_address fp sz = fp AND NOT (shl 1 sz - 1)"

text \<open>The largest page size that is not larger than \<^term>\<open>2 ^ num\<close> bytes.\<close>

fun fit_pgsize :: "word_t \<Rightarrow> nat \<Rightarrow> nat" where
  "fit_pgsize num 0 = 0"
| "fit_pgsize num (Suc p) = (if of_nat (hw_pgshifts (Suc p)) > num then fit_pgsize num p else Suc p)"

text \<open>Calls of the mapping database on the kernel state.\<close>

definition ks_flush ::
  "mapnode_p \<Rightarrow> pgent_p \<Rightarrow> nat \<Rightarrow> addr_t \<Rightarrow> nat \<Rightarrow> fpage_t \<Rightarrow> bool \<Rightarrow> kstate \<Rightarrow> (word_t \<times> kstate) option" where
  "ks_flush mp pg sz vaddr pgsize fp self s =
     map_option (\<lambda>(rwx, m, c). (rwx, (upd_kmem m s)\<lparr>asid_cache := c\<rparr>))
       (mdb_flush mp pg sz vaddr pgsize fp self (kmem s, asid_cache s))"

definition ks_flush_tlbent :: "spacep \<Rightarrow> kstate \<Rightarrow> kstate option" where
  "ks_flush_tlbent space s =
     map_option (\<lambda>(m, c). (upd_kmem m s)\<lparr>asid_cache := c\<rparr>) (flush_tlbent space (kmem s, asid_cache s))"

definition ks_mem :: "(memory \<Rightarrow> memory) \<Rightarrow> kstate \<Rightarrow> kstate" where "ks_mem f s = upd_kmem (f (kmem s)) s"

definition ks_mem_opt :: "(memory \<Rightarrow> memory option) \<Rightarrow> kstate \<Rightarrow> kstate option" where
  "ks_mem_opt f s = map_option (\<lambda>m. upd_kmem m s) (f (kmem s))"

section \<open>Unmapping\<close>

record unmap_t =
  um_num :: word_t
  um_vaddr :: addr_t
  um_pg :: pgent_p
  um_size :: nat
  um_rwx :: word_t
  um_r_pg :: "nat \<Rightarrow> pgent_p"
  um_r_num :: "nat \<Rightarrow> word_t"

text \<open>The loop that recurses up and removes empty tables.\<close>

function unmap_recurse_up :: "spacep \<Rightarrow> fpage_t \<Rightarrow> bool \<Rightarrow> bool \<Rightarrow> nat \<Rightarrow> unmap_t \<Rightarrow> kstate \<Rightarrow> (unmap_t \<times> kstate) option" where
  "unmap_recurse_up space fpage flush unmap_all pgsize v s =
     (if um_num v = 0 \<and> um_size v < pgsize
      then let pg = um_r_pg v (um_size v);
               sz = Suc (um_size v);
               fp = fpage_set (um_vaddr v) (page_size sz) False False False;
               v1 = v\<lparr>um_num := um_r_num v (um_size v), um_size := sz, um_pg := pg_next pg sz 1\<rparr>
           in (case (if flush \<and> fpage_is_rwx fpage \<and> (unmap_all \<or> is_mappable space fp s)
                     then ks_mem_opt (pg_remove_subtree pg sz False) s else Some s) of
                 None \<Rightarrow> None
               | Some s1 \<Rightarrow> unmap_recurse_up space fpage flush unmap_all pgsize v1 s1)
      else Some (v, s))"
  by pat_completeness auto
termination by (relation "measure (\<lambda>(_, _, _, _, pgsize, v, _). pgsize - um_size v)") auto

declare unmap_recurse_up.simps [simp del]

text \<open>One page: its mappings, or a mapping of the kernel.\<close>

definition unmap_entry :: "spacep \<Rightarrow> fpage_t \<Rightarrow> bool \<Rightarrow> bool \<Rightarrow> nat \<Rightarrow> unmap_t \<Rightarrow> kstate \<Rightarrow> (unmap_t \<times> kstate) option" where
  "unmap_entry space fpage flush unmap_all pgsize v s =
     (let pg = um_pg v; sz = um_size v; vaddr = um_vaddr v in
      if is_mappable_addr space vaddr s
      then do {
        let mp = pg_mapnode pg (addr_mask vaddr (NOT (page_mask sz))) (kmem s);
        (rwx, s1) \<leftarrow> ks_flush mp pg sz vaddr pgsize fpage flush s;
        Some (v\<lparr>um_rwx := um_rwx v OR rwx\<rparr>, s1)
      }
      else if unmap_all
      then do {
        s1 \<leftarrow> release_kernel_mapping space vaddr (pg_address pg sz (kmem s)) (page_shift sz) s;
        s2 \<leftarrow> ks_flush_tlbent space (ks_mem (pg_clear pg sz True) s1);
        Some (v, s2)
      }
      else Some (v, s))"

text \<open>The step to the next entry.\<close>

definition unmap_next :: "spacep \<Rightarrow> fpage_t \<Rightarrow> bool \<Rightarrow> bool \<Rightarrow> nat \<Rightarrow> unmap_t \<Rightarrow> kstate \<Rightarrow> (unmap_t \<times> kstate) option" where
  "unmap_next space fpage flush unmap_all pgsize v s =
     unmap_recurse_up space fpage flush unmap_all pgsize
       (v\<lparr>um_pg := pg_next (um_pg v) (um_size v) 1, um_vaddr := addr_offset (um_vaddr v) (page_size (um_size v)),
          um_num := um_num v - 1\<rparr>) s"

partial_function (option) unmap_walk ::
  "spacep \<Rightarrow> fpage_t \<Rightarrow> bool \<Rightarrow> bool \<Rightarrow> nat \<Rightarrow> unmap_t \<Rightarrow> kstate \<Rightarrow> (word_t \<times> kstate) option" where
  "unmap_walk space fpage flush unmap_all pgsize v s =
     (let pg = um_pg v; sz = um_size v; m = kmem s in
      if um_num v = 0 \<or> \<not> is_user_area (um_vaddr v) then Some (um_rwx v, s)
      else if sz > pgsize \<and> \<not> pg_is_valid pg sz m then Some (um_rwx v, s)
      else if sz > pgsize \<and> pg_is_subtree pg sz m
      then unmap_walk space fpage flush unmap_all pgsize
             (v\<lparr>um_size := sz - 1,
                um_pg := pg_next (pg_subtree pg sz m) (sz - 1) (page_table_index (sz - 1) (um_vaddr v))\<rparr>) s
      else if sz > pgsize \<and> fpage_is_rwx fpage \<and> flush then None
      else if \<not> pg_is_valid pg sz m
      then (case unmap_next space fpage flush unmap_all pgsize v s of
              None \<Rightarrow> None | Some (v1, s1) \<Rightarrow> unmap_walk space fpage flush unmap_all pgsize v1 s1)
      else if pg_is_subtree pg sz m
      then unmap_walk space fpage flush unmap_all pgsize
             (v\<lparr>um_size := sz - 1, um_r_pg := (um_r_pg v)(sz - 1 := pg), um_r_num := (um_r_num v)(sz - 1 := um_num v - 1),
                um_pg := pg_subtree pg sz m, um_num := page_table_size (sz - 1)\<rparr>) s
      else (case unmap_entry space fpage flush unmap_all pgsize v s of
              None \<Rightarrow> None
            | Some (v1, s1) \<Rightarrow>
                (case unmap_next space fpage flush unmap_all pgsize v1 s1 of
                   None \<Rightarrow> None | Some (v2, s2) \<Rightarrow> unmap_walk space fpage flush unmap_all pgsize v2 s2)))"

definition unmap_fpage :: "spacep \<Rightarrow> fpage_t \<Rightarrow> bool \<Rightarrow> bool \<Rightarrow> kstate \<Rightarrow> (fpage_t \<times> kstate) option" where
  "unmap_fpage space fpage flush unmap_all s =
     (let num0 = fpage_get_size_log2 fpage;
          vaddr = fp_address fpage num0
      in if num0 < of_nat (hw_pgshifts 0) then None
         else do {
           let num = (if num0 > of_nat (hw_pgshifts (size_max + 1)) then of_nat (hw_pgshifts (size_max + 1)) else num0);
           let pgsize = fit_pgsize num size_max;
           (rwx, s1) \<leftarrow> unmap_walk space fpage flush unmap_all pgsize
             \<lparr>um_num = shl 1 (num - of_nat (hw_pgshifts pgsize)), um_vaddr = vaddr,
              um_pg = space_pgent space (page_table_index size_max vaddr), um_size = size_max, um_rwx = 0,
              um_r_pg = (\<lambda>_. 0), um_r_num = (\<lambda>_. 0)\<rparr> s;
           Some (fpage_set_rwx rwx fpage, s1)
         })"

section \<open>Mapping\<close>

text \<open>The local variables of \<^verbatim>\<open>map_fpage\<close>, with the four arrays that serve as stacks.\<close>

record mapf_t =
  mf_f_num :: word_t
  mf_t_num :: word_t
  mf_f_off :: word_t
  mf_fpg :: pgent_p
  mf_tpg :: pgent_p
  mf_f_size :: nat
  mf_t_size :: nat
  mf_f_addr :: addr_t
  mf_t_addr :: addr_t
  mf_r_fpg :: "nat \<Rightarrow> pgent_p"
  mf_r_tpg :: "nat \<Rightarrow> pgent_p"
  mf_r_fnum :: "nat \<Rightarrow> word_t"
  mf_r_tnum :: "nat \<Rightarrow> word_t"

text \<open>How a part of the loop body ends: it falls through, or it jumps.\<close>

datatype jump = Fall | Continue | Next_receiver_entry | Next_sender_entry

text \<open>Recursing up in the receiver's table: the entry and count of the next larger size.\<close>

definition t_up :: "mapf_t \<Rightarrow> mapf_t" where
  "t_up v = v\<lparr>mf_tpg := mf_r_tpg v (mf_t_size v), mf_t_num := mf_r_tnum v (mf_t_size v), mf_t_size := Suc (mf_t_size v)\<rparr>"

definition t_up_off :: "mapf_t \<Rightarrow> mapf_t" where
  "t_up_off v = t_up (v\<lparr>mf_f_off := mf_f_off v + page_size (mf_t_size v)\<rparr>)"

definition f_up :: "mapf_t \<Rightarrow> mapf_t" where
  "f_up v = v\<lparr>mf_fpg := mf_r_fpg v (mf_f_size v), mf_f_num := mf_r_fnum v (mf_f_size v), mf_f_size := Suc (mf_f_size v)\<rparr>"

text \<open>The four loops that recurse up.\<close>

function t_up_to_f :: "mapf_t \<Rightarrow> mapf_t" where
  "t_up_to_f v = (if mf_t_size v < mf_f_size v then t_up_to_f (t_up_off v) else v)"
  by pat_completeness auto
termination by (relation "measure (\<lambda>v. mf_f_size v - mf_t_size v)") (auto simp: t_up_off_def t_up_def)

function t_up_off_loop :: "nat \<Rightarrow> mapf_t \<Rightarrow> mapf_t" where
  "t_up_off_loop pgsize v =
     (let v1 = t_up_off v in if mf_t_num v1 = 0 \<and> mf_t_size v1 < pgsize then t_up_off_loop pgsize v1 else v1)"
  by pat_completeness auto
termination by (relation "measure (\<lambda>(pgsize, v). pgsize - mf_t_size v)") (auto simp: t_up_off_def t_up_def)

function t_up_loop :: "nat \<Rightarrow> mapf_t \<Rightarrow> mapf_t" where
  "t_up_loop pgsize v =
     (let v1 = t_up v in if mf_t_num v1 = 0 \<and> mf_t_size v1 < pgsize then t_up_loop pgsize v1 else v1)"
  by pat_completeness auto
termination by (relation "measure (\<lambda>(pgsize, v). pgsize - mf_t_size v)") (auto simp: t_up_def)

function f_up_loop :: "nat \<Rightarrow> mapf_t \<Rightarrow> mapf_t" where
  "f_up_loop pgsize v =
     (let v1 = f_up v in if mf_f_size v1 < pgsize \<and> mf_f_num v1 = 0 then f_up_loop pgsize v1 else v1)"
  by pat_completeness auto
termination by (relation "measure (\<lambda>(pgsize, v). pgsize - mf_f_size v)") (auto simp: f_up_def)

declare t_up_to_f.simps [simp del] t_up_off_loop.simps [simp del] t_up_loop.simps [simp del] f_up_loop.simps [simp del]

text \<open>The sender's side: descend to a valid mapping.\<close>

definition map_sender :: "spacep \<Rightarrow> nat \<Rightarrow> mapf_t \<Rightarrow> kstate \<Rightarrow> jump \<times> mapf_t" where
  "map_sender space pgsize v s =
     (let fpg = mf_fpg v; f_size = mf_f_size v; m = kmem s in
      if is_sigma0_space space s then (Fall, v\<lparr>mf_f_size := pgsize\<rparr>)
      else if \<not> pg_is_valid fpg f_size m
      then let v1 = t_up_to_f v
           in (if mf_t_size v1 = mf_f_size v1 then Next_receiver_entry else Next_sender_entry, v1)
      else if f_size > pgsize \<and> pg_is_subtree fpg f_size m
      then (Continue, v\<lparr>mf_f_size := f_size - 1,
              mf_fpg := pg_next (pg_subtree fpg f_size m) (f_size - 1) (page_table_index (f_size - 1) (mf_f_addr v))\<rparr>)
      else if pg_is_subtree fpg f_size m
      then (Continue, v\<lparr>mf_f_size := f_size - 1, mf_r_fpg := (mf_r_fpg v)(f_size - 1 := pg_next fpg f_size 1),
              mf_r_fnum := (mf_r_fnum v)(f_size - 1 := mf_f_num v - 1),
              mf_fpg := pg_subtree fpg f_size m, mf_f_num := page_table_size (f_size - 1)\<rparr>)
      else if f_size > pgsize then (Fall, v\<lparr>mf_f_num := 1\<rparr>)
      else (Fall, v))"

text \<open>The receiver's side: a table for a page that is too large.\<close>

definition push_tpg :: "mapf_t \<Rightarrow> mapf_t" where
  "push_tpg v =
     (let t = mf_t_size v - 1 in
      v\<lparr>mf_t_size := t, mf_r_tpg := (mf_r_tpg v)(t := pg_next (mf_tpg v) (mf_t_size v) 1),
        mf_r_tnum := (mf_r_tnum v)(t := mf_t_num v - 1)\<rparr>)"

definition map_split :: "nat \<Rightarrow> mapf_t \<Rightarrow> kstate \<Rightarrow> (mapf_t \<times> kstate) option" where
  "map_split pgsize v s =
     (let sz = mf_t_size v; tpg = mf_tpg v; v1 = push_tpg v; t = mf_t_size v1 in
      case (if \<not> pg_is_valid tpg sz (kmem s) then ks_mem_opt (pg_make_subtree tpg sz False) s
            else if \<not> pg_is_subtree tpg sz (kmem s) then None
            else Some s) of
        None \<Rightarrow> None
      | Some s1 \<Rightarrow>
          let sub = pg_subtree tpg sz (kmem s1) in
          if t \<ge> pgsize
          then Some (v1\<lparr>mf_tpg := pg_next sub t (page_table_index t (mf_t_addr v))\<rparr>, s1)
          else let idx = page_table_index t (mf_f_addr v)
               in Some (v1\<lparr>mf_tpg := pg_next sub t idx, mf_t_num := page_table_size t - idx,
                           mf_t_addr := addr_offset (mf_t_addr v) (push_bit (hw_pgshifts t) idx)\<rparr>, s1))"

text \<open>Overmapping: the loop that removes a mapping or a subtree from the receiver's space.\<close>

text \<open>The do-while loop that removes empty tables.\<close>

function over_up :: "nat \<Rightarrow> word_t \<Rightarrow> mapf_t \<Rightarrow> kstate \<Rightarrow> (word_t \<times> mapf_t \<times> kstate) option" where
  "over_up f_size num v s =
     (let tpg = mf_r_tpg v (mf_t_size v); num1 = mf_r_tnum v (mf_t_size v); t = Suc (mf_t_size v) in
      case ks_mem_opt (pg_remove_subtree tpg t False) s of
        None \<Rightarrow> None
      | Some s1 \<Rightarrow>
          let v1 = v\<lparr>mf_t_size := t, mf_tpg := (if t < f_size then pg_next tpg t 1 else tpg)\<rparr>
          in if num1 = 0 \<and> t < f_size then over_up f_size num1 v1 s1 else Some (num1, v1, s1))"
  by pat_completeness auto
termination by (relation "measure (\<lambda>(f_size, num, v, s). f_size - mf_t_size v)") auto

declare over_up.simps [simp del]

partial_function (option) over_loop ::
  "spacep \<Rightarrow> nat \<Rightarrow> fpage_t \<Rightarrow> word_t \<Rightarrow> addr_t \<Rightarrow> mapf_t \<Rightarrow> kstate \<Rightarrow> (mapf_t \<times> kstate) option" where
  "over_loop tsp pgsize rcv_fp num vaddr v s =
     (let tpg = mf_tpg v; t_size = mf_t_size v; m = kmem s in
      if num = 0 then Some (v, s)
      else if pg_is_valid tpg t_size m \<and> pg_is_subtree tpg t_size m
      then over_loop tsp pgsize rcv_fp (page_table_size (t_size - 1)) vaddr
             (v\<lparr>mf_t_size := t_size - 1, mf_r_tpg := (mf_r_tpg v)(t_size - 1 := tpg),
                mf_r_tnum := (mf_r_tnum v)(t_size - 1 := num - 1), mf_tpg := pg_subtree tpg t_size m\<rparr>) s
      else case (if pg_is_valid tpg t_size m \<and> is_mappable_addr tsp vaddr s
                 then map_option snd (ks_flush (pg_mapnode tpg (addr_mask vaddr (NOT (page_mask t_size))) m)
                        tpg t_size vaddr pgsize rcv_fp True s)
                 else Some s) of
             None \<Rightarrow> None
           | Some s1 \<Rightarrow>
               let below = t_size < mf_f_size v;
                   vaddr1 = (if below then addr_offset vaddr (page_size t_size) else vaddr);
                   v1 = (if below then v\<lparr>mf_tpg := pg_next tpg t_size 1\<rparr> else v)
               in if num - 1 = 0 \<and> below
                  then (case over_up (mf_f_size v) (num - 1) v1 s1 of
                          None \<Rightarrow> None
                        | Some (num2, v2, s2) \<Rightarrow> over_loop tsp pgsize rcv_fp num2 vaddr1 v2 s2)
                  else over_loop tsp pgsize rcv_fp (num - 1) vaddr1 v1 s1)"

definition overmap :: "spacep \<Rightarrow> nat \<Rightarrow> mapf_t \<Rightarrow> kstate \<Rightarrow> (mapf_t \<times> kstate) option" where
  "overmap tsp pgsize v s =
     over_loop tsp pgsize (fpage_set (mf_t_addr v) (page_shift (mf_t_size v)) True True True) 1 (mf_t_addr v) v s"

text \<open>The physical address that the sender maps at the current position.\<close>

definition mf_source :: "spacep \<Rightarrow> word_t \<Rightarrow> mapf_t \<Rightarrow> kstate \<Rightarrow> addr_t" where
  "mf_source space off v s =
     addr_offset (if is_sigma0_space space s then mf_f_addr v else pg_address (mf_fpg v) (mf_f_size v) (kmem s)) off"

definition map_receiver :: "spacep \<Rightarrow> spacep \<Rightarrow> nat \<Rightarrow> mapf_t \<Rightarrow> kstate \<Rightarrow> (jump \<times> mapf_t \<times> kstate) option" where
  "map_receiver space tsp pgsize v s =
     (let tpg = mf_tpg v; t_size = mf_t_size v; f_size = mf_f_size v; m = kmem s;
          t_end = addr_offset (mf_t_addr v) (page_size t_size)
      in if t_size > f_size \<or> t_size > pgsize
         then map_option (Pair Continue) (map_split pgsize v s)
         else if pg_is_valid tpg t_size m \<and> t_size = f_size \<and> f_size \<le> pgsize \<and>
                 \<not> is_range_in_fpage (get_kip_page_area tsp s) (mf_t_addr v) t_end \<and>
                 \<not> is_range_in_fpage (get_utcb_page_area tsp s) (mf_t_addr v) t_end \<and>
                 (pg_is_subtree tpg t_size m \<or> pg_address tpg t_size m \<noteq> mf_source space 0 v s)
         then map_option (Pair Fall) (overmap tsp pgsize v s)
         else if pg_is_valid tpg t_size m \<and> pg_is_subtree tpg t_size m
         then Some (Fall, (push_tpg v)\<lparr>mf_tpg := pg_subtree tpg t_size m, mf_t_num := page_table_size (t_size - 1)\<rparr>, s)
         else if \<not> is_page_size_valid t_size
         then (case ks_mem_opt (pg_make_subtree tpg t_size False) s of
                 None \<Rightarrow> None
               | Some s1 \<Rightarrow>
                   Some (Continue, (push_tpg v)\<lparr>mf_tpg := pg_subtree tpg t_size (kmem s1),
                     mf_t_num := page_table_size (t_size - 1)\<rparr>, s1))
         else Some (Fall, v, s))"

text \<open>A new mapping in the receiver's entry, or an extension of the rights of the existing one.  For
  sigma0 the lookup of the memory attributes overwrites the sender's entry and page size.\<close>

definition map_insert ::
  "word_t \<Rightarrow> mapnode_p \<Rightarrow> spacep \<Rightarrow> fpage_t \<Rightarrow> spacep \<Rightarrow> bool \<Rightarrow> word_t \<Rightarrow> mapf_t \<Rightarrow> kstate \<Rightarrow>
    (mapf_t \<times> kstate) option" where
  "map_insert bls sigma0_mapnode space snd_fp tsp grant off v s =
     (let fpg = mf_fpg v; tpg = mf_tpg v; f_size = mf_f_size v; sz = mf_t_size v; paddr = mf_source space (off + mf_f_off v) v s in
      if is_sigma0_space space s
      then do {
        (newmap, m1) \<leftarrow> mdb_map bls sigma0_mapnode fpg (size_max + 1) paddr tpg sz tsp grant (kmem s);
        let (v2, m2) = (case lookup_mapping space (mf_f_addr v) m1 of
                    Some (pg, pgsz) \<Rightarrow>
                      (v\<lparr>mf_fpg := pg, mf_f_size := pgsz\<rparr>,
                       pg_set_entry_attr tpg sz paddr (fpage_is_read snd_fp) (fpage_is_write snd_fp) False (pg_get_attributes pg m1) m1)
                  | None \<Rightarrow> (v, pg_set_entry tpg sz paddr (fpage_is_read snd_fp) (fpage_is_write snd_fp) False m1));
        Some (v2, upd_kmem (pg_set_linknode tpg newmap (mf_t_addr v) m2) s)
      }
      else do {
        let mp = pg_mapnode fpg (addr_mask (mf_f_addr v) (NOT (page_mask f_size))) (kmem s);
        (newmap, m1) \<leftarrow> mdb_map bls mp fpg f_size (mf_f_addr v) tpg sz tsp grant (kmem s);
        let m2 = pg_set_entry_attr tpg sz (addr_offset (pg_address fpg f_size m1) (off + mf_f_off v))
                   (pg_is_readable fpg m1 \<and> fpage_is_read snd_fp) (pg_is_writable fpg m1 \<and> fpage_is_write snd_fp) False
                   (pg_get_attributes fpg m1) m1;
        let s1 = upd_kmem (pg_set_linknode tpg newmap (mf_t_addr v) m2) s;
        s2 \<leftarrow> (if grant then ks_flush_tlbent space (ks_mem (pg_clear fpg f_size False) s1) else Some s1);
        Some (v, s2)
      })"

definition map_extend :: "spacep \<Rightarrow> fpage_t \<Rightarrow> word_t \<Rightarrow> mapf_t \<Rightarrow> kstate \<Rightarrow> kstate option" where
  "map_extend space snd_fp off v s =
     (let fpg = mf_fpg v; m = kmem s;
          rights = of_bool (fpage_is_execute snd_fp \<and> pg_is_executable fpg m) +
                   2 * of_bool (fpage_is_write snd_fp \<and> pg_is_writable fpg m) +
                   4 * of_bool (fpage_is_read snd_fp \<and> pg_is_readable fpg m)
      in if pg_address (mf_tpg v) (mf_t_size v) m \<noteq> mf_source space (if is_sigma0_space space s then 0 else off) v s then None
         else Some (ks_mem (pg_update_rights (mf_tpg v) rights) s))"

definition map_entry ::
  "word_t \<Rightarrow> mapnode_p \<Rightarrow> spacep \<Rightarrow> fpage_t \<Rightarrow> spacep \<Rightarrow> bool \<Rightarrow> mapf_t \<Rightarrow> kstate \<Rightarrow> (mapf_t \<times> kstate) option" where
  "map_entry bls sigma0_mapnode space snd_fp tsp grant v s =
     (let off = mf_f_addr v AND page_mask (mf_f_size v) AND NOT (page_mask (mf_t_size v)) in
      if (\<not> is_mappable_addr space (mf_f_addr v) s \<and> \<not> is_sigma0_space space s) \<or> \<not> is_mappable_addr tsp (mf_t_addr v) s
      then Some (v, s)
      else if pg_is_valid (mf_tpg v) (mf_t_size v) (kmem s) then map_option (Pair v) (map_extend space snd_fp off v s)
      else map_insert bls sigma0_mapnode space snd_fp tsp grant off v s)"

text \<open>The ends of the loop body.\<close>

definition next_sender_entry :: "spacep \<Rightarrow> nat \<Rightarrow> mapf_t \<Rightarrow> kstate \<Rightarrow> mapf_t" where
  "next_sender_entry space pgsize v s =
     (let v1 = v\<lparr>mf_f_addr := addr_offset (mf_f_addr v) (page_size (mf_f_size v)), mf_f_off := 0, mf_f_num := mf_f_num v - 1\<rparr> in
      if mf_f_num v1 > 0
      then if is_sigma0_space space s then v1 else v1\<lparr>mf_fpg := pg_next (mf_fpg v1) (mf_f_size v1) 1\<rparr>
      else if mf_f_size v1 < pgsize
      then let v2 = f_up_loop pgsize v1
           in if mf_t_size v2 < mf_f_size v2 \<and> mf_t_num v2 = 0 then t_up_loop pgsize v2 else v2
      else v1\<lparr>mf_t_num := 0\<rparr>)"

definition next_receiver_entry :: "spacep \<Rightarrow> nat \<Rightarrow> mapf_t \<Rightarrow> kstate \<Rightarrow> mapf_t" where
  "next_receiver_entry space pgsize v s =
     (let v1 = v\<lparr>mf_t_addr := addr_offset (mf_t_addr v) (page_size (mf_t_size v)), mf_t_num := mf_t_num v - 1\<rparr> in
      if mf_t_num v1 > 0
      then let v2 = v1\<lparr>mf_tpg := pg_next (mf_tpg v1) (mf_t_size v1) 1\<rparr>
           in if mf_t_size v2 < mf_f_size v2 then v2\<lparr>mf_f_off := mf_f_off v2 + page_size (mf_t_size v2)\<rparr>
              else next_sender_entry space pgsize v2 s
      else if mf_t_size v1 < mf_f_size v1 \<and> mf_f_size v1 \<le> pgsize
      then let v2 = t_up_off_loop pgsize v1
           in if mf_t_size v2 < mf_f_size v2 then v2 else next_sender_entry space pgsize v2 s
      else if mf_t_size v1 > mf_f_size v1
      then next_sender_entry space pgsize
             (v1\<lparr>mf_f_addr := addr_offset (mf_f_addr v1) (page_size (mf_t_size v1) - page_size (mf_f_size v1)), mf_f_num := 1\<rparr>) s
      else next_sender_entry space pgsize v1 s)"

text \<open>One round of the loop, and the loop.\<close>

definition map_round ::
  "word_t \<Rightarrow> mapnode_p \<Rightarrow> spacep \<Rightarrow> fpage_t \<Rightarrow> spacep \<Rightarrow> bool \<Rightarrow> nat \<Rightarrow> mapf_t \<Rightarrow> kstate \<Rightarrow> (mapf_t \<times> kstate) option" where
  "map_round bls sigma0_mapnode space snd_fp tsp grant pgsize v s =
     (let (j, v1) = map_sender space pgsize v s in
      case j of
        Continue \<Rightarrow> Some (v1, s)
      | Next_receiver_entry \<Rightarrow> Some (next_receiver_entry space pgsize v1 s, s)
      | Next_sender_entry \<Rightarrow> Some (next_sender_entry space pgsize v1 s, s)
      | Fall \<Rightarrow>
          (case map_receiver space tsp pgsize v1 s of
             None \<Rightarrow> None
           | Some (j2, v2, s2) \<Rightarrow>
               if j2 = Continue then Some (v2, s2)
               else map_option (\<lambda>(v3, s3). (next_receiver_entry space pgsize v3 s3, s3))
                      (map_entry bls sigma0_mapnode space snd_fp tsp grant v2 s2)))"

partial_function (option) map_loop ::
  "word_t \<Rightarrow> mapnode_p \<Rightarrow> spacep \<Rightarrow> fpage_t \<Rightarrow> spacep \<Rightarrow> bool \<Rightarrow> nat \<Rightarrow> mapf_t \<Rightarrow> kstate \<Rightarrow> kstate option" where
  "map_loop bls sigma0_mapnode space snd_fp tsp grant pgsize v s =
     (if mf_f_num v = 0 \<and> mf_t_num v = 0 then Some s
      else if (\<not> is_user_area (mf_f_addr v) \<and> \<not> is_sigma0_space space s) \<or> \<not> is_user_area (mf_t_addr v) then Some s
      else case map_round bls sigma0_mapnode space snd_fp tsp grant pgsize v s of
             None \<Rightarrow> None
           | Some (v1, s1) \<Rightarrow> map_loop bls sigma0_mapnode space snd_fp tsp grant pgsize v1 s1)"

text \<open>The addresses that are mapped: \<^verbatim>\<open>base\<close> selects the part of the larger fpage.\<close>

definition map_addresses :: "fpage_t \<Rightarrow> word_t \<Rightarrow> fpage_t \<Rightarrow> word_t \<times> addr_t \<times> addr_t" where
  "map_addresses snd_fp base rcv_fp =
     (if fpage_get_size_log2 snd_fp \<le> fpage_get_size_log2 rcv_fp
      then let num = fpage_get_size_log2 snd_fp; b = base AND base_mask rcv_fp num
           in (num, fp_address snd_fp num, addr_offset (addr_mask (fp_address rcv_fp num) (NOT (base_mask rcv_fp num))) b)
      else let num = fpage_get_size_log2 rcv_fp; b = base AND base_mask snd_fp num
           in (num, addr_offset (addr_mask (fp_address snd_fp num) (NOT (base_mask snd_fp num))) b, fp_address rcv_fp num))"

definition map_fpage ::
  "word_t \<Rightarrow> mapnode_p \<Rightarrow> spacep \<Rightarrow> fpage_t \<Rightarrow> word_t \<Rightarrow> spacep \<Rightarrow> fpage_t \<Rightarrow> bool \<Rightarrow> kstate \<Rightarrow> kstate option" where
  "map_fpage bls sigma0_mapnode space snd_fp base tsp rcv_fp grant s =
     (let (num, f_addr, t_addr) = map_addresses snd_fp base rcv_fp in
      if num < of_nat (hw_pgshifts 0) then if num \<noteq> 0 then None else Some s
      else let pgsize = fit_pgsize num size_max;
               n = shl 1 (num - of_nat (hw_pgshifts pgsize))
           in map_loop bls sigma0_mapnode space snd_fp tsp grant pgsize
                \<lparr>mf_f_num = n, mf_t_num = n, mf_f_off = 0, mf_fpg = space_pgent space (page_table_index size_max f_addr),
                 mf_tpg = space_pgent tsp (page_table_index size_max t_addr), mf_f_size = size_max, mf_t_size = size_max,
                 mf_f_addr = f_addr, mf_t_addr = t_addr, mf_r_fpg = (\<lambda>_. 0), mf_r_tpg = (\<lambda>_. 0), mf_r_fnum = (\<lambda>_. 0),
                 mf_r_tnum = (\<lambda>_. 0)\<rparr> s)"

end
