(* ===== verification/Page_Transfer.thy ===== *)
theory Page_Transfer
  imports Ptab_Walker
begin

text \<open>
  Mapping and unmapping of a single page: the walk through the page tables reaches the entries
  that a lookup finds, and the mapping database and the page tables change together.
\<close>

section \<open>The entry of a page\<close>

lemma pg_cong:
  assumes "mem m' pg = mem m pg"
  shows "pg_is_valid pg sz m' = pg_is_valid pg sz m" "pg_is_subtree pg sz m' = pg_is_subtree pg sz m"
    "pg_subtree pg sz m' = pg_subtree pg sz m" "pg_address pg sz m' = pg_address pg sz m"
    "pg_is_readable pg m' = pg_is_readable pg m" "pg_is_writable pg m' = pg_is_writable pg m"
    "pg_get_attributes pg m' = pg_get_attributes pg m"
  using assms by (simp_all add: pg_is_valid_def pg_is_subtree_def pg_subtree_def pg_address_def pg_is_readable_def
      pg_is_writable_def pg_get_attributes_def pg_raw_def)

lemma pg_level_0 [simp]: "\<not> pg_is_subtree pg 0 m" "pg_is_valid pg 0 m = ent_is_valid (mem m pg)"
  by (simp_all add: pg_is_subtree_def is_table_size_def pg_is_valid_def pg_raw_def)

text \<open>The walk to the entry for a page of the smallest size, along existing tables.\<close>

fun slot_walk :: "nat \<Rightarrow> pgent_p \<Rightarrow> addr_t \<Rightarrow> memory \<Rightarrow> pgent_p option" where
  "slot_walk 0 pg vaddr m = Some pg"
| "slot_walk (Suc p) pg vaddr m =
     (if pg_is_valid pg (Suc p) m \<and> pg_is_subtree pg (Suc p) m
      then slot_walk p (pg_next (pg_subtree pg (Suc p) m) p (page_table_index p vaddr)) vaddr m else None)"

text \<open>The entries that the walk passes: those of the tables above (sizes from 4 MB), and the first
  entries of the groups that stand for a larger page in the table of the smallest pages.\<close>

fun slot_path :: "(nat \<Rightarrow> bool) \<Rightarrow> nat \<Rightarrow> pgent_p \<Rightarrow> addr_t \<Rightarrow> memory \<Rightarrow> word_t set" where
  "slot_path P 0 pg vaddr m = {}"
| "slot_path P (Suc p) pg vaddr m =
     (if P (Suc p) then {pg} else {}) \<union>
     slot_path P p (pg_next (pg_subtree pg (Suc p) m) p (page_table_index p vaddr)) vaddr m"

definition page_slot :: "spacep \<Rightarrow> addr_t \<Rightarrow> memory \<Rightarrow> pgent_p option" where
  "page_slot space vaddr m = slot_walk size_max (space_pgent space (page_table_index size_max vaddr)) vaddr m"

definition page_tables :: "spacep \<Rightarrow> addr_t \<Rightarrow> memory \<Rightarrow> word_t set" where
  "page_tables space vaddr m = slot_path (\<lambda>k. 5 \<le> k) size_max (space_pgent space (page_table_index size_max vaddr)) vaddr m"

definition page_heads :: "spacep \<Rightarrow> addr_t \<Rightarrow> memory \<Rightarrow> word_t set" where
  "page_heads space vaddr m = slot_path (\<lambda>k. k < 5) size_max (space_pgent space (page_table_index size_max vaddr)) vaddr m"

lemma slot_lookup:
  "slot_walk sz pg vaddr m = Some slot \<Longrightarrow>
   lookup_walk sz pg vaddr m = (if ent_is_valid (mem m slot) then Some (slot, 0) else None)"
  by (induction sz pg vaddr m rule: slot_walk.induct) (auto simp: lookup_walk.simps split: if_splits)

lemma lookup_slot: "lookup_walk sz pg vaddr m = Some (slot, 0) \<Longrightarrow> slot_walk sz pg vaddr m = Some slot"
proof (induction sz arbitrary: pg)
  case 0
  then show ?case by (subst (asm) lookup_walk.simps) (simp split: if_splits)
next
  case (Suc p)
  then show ?case by (subst (asm) lookup_walk.simps) (simp split: if_splits)
qed

lemma page_slot_lookup:
  "page_slot space vaddr m = Some slot \<Longrightarrow>
   lookup_mapping space vaddr m = (if ent_is_valid (mem m slot) then Some (slot, 0) else None)"
  "lookup_mapping space vaddr m = Some (slot, 0) \<Longrightarrow> page_slot space vaddr m = Some slot"
  unfolding page_slot_def lookup_mapping_def by (erule slot_lookup, erule lookup_slot)

text \<open>The walk takes the same way if the first entry of a group still stands for small pages.\<close>

definition still_small :: "word_t \<Rightarrow> word_t \<Rightarrow> bool" where
  "still_small w w' \<longleftrightarrow> w' = w \<or> (ent_is_valid w' \<or> ent_is_subtree w') \<and> ent_pgsize w' \<le> ent_pgsize w"

lemma still_small_level:
  assumes "still_small (mem m pg) (mem m' pg)" and "pg_is_valid pg k m" "pg_is_subtree pg k m" and "k < 5"
  shows "pg_is_valid pg k m'" "pg_is_subtree pg k m'" "pg_subtree pg k m' = pg_subtree pg k m"
  using assms by (auto simp: still_small_def pg_is_valid_def pg_is_subtree_def pg_subtree_def pg_raw_def is_table_size_def)

lemma slot_walk_same:
  assumes "slot_walk sz pg vaddr m = Some slot"
    and "\<And>x. x \<in> slot_path (\<lambda>k. 5 \<le> k) sz pg vaddr m \<Longrightarrow> mem m' x = mem m x"
    and "\<And>x. x \<in> slot_path (\<lambda>k. k < 5) sz pg vaddr m \<Longrightarrow> still_small (mem m x) (mem m' x)"
  shows "slot_walk sz pg vaddr m' = Some slot"
  using assms
proof (induction sz pg vaddr m rule: slot_walk.induct)
  case (2 p pg vaddr m)
  let ?next = "pg_next (pg_subtree pg (Suc p) m) p (page_table_index p vaddr)"
  have e: "pg_is_valid pg (Suc p) m" "pg_is_subtree pg (Suc p) m" "slot_walk p ?next vaddr m = Some slot"
    using 2(2) by (auto split: if_splits)
  have "pg_is_valid pg (Suc p) m' \<and> pg_is_subtree pg (Suc p) m' \<and> pg_subtree pg (Suc p) m' = pg_subtree pg (Suc p) m"
  proof (cases "5 \<le> Suc p")
    case True
    have "mem m' pg = mem m pg" by (rule 2(3)) (use True in simp)
    then show ?thesis using pg_cong [of m' pg m] e(1,2) by simp
  next
    case False
    then have "still_small (mem m pg) (mem m' pg)" by (intro 2(4)) simp
    then show ?thesis using still_small_level [of m pg m' "Suc p"] e(1,2) False by simp
  qed
  moreover have "slot_walk p ?next vaddr m' = Some slot"
    by (rule 2(1) [OF conjI [OF e(1,2)] e(3)]) (rule 2(3) 2(4), simp)+
  ultimately show ?case by simp
qed simp

lemma page_slot_same:
  assumes "page_slot space vaddr m = Some slot" and "\<And>x. x \<in> page_tables space vaddr m \<Longrightarrow> mem m' x = mem m x"
    and "\<And>x. x \<in> page_heads space vaddr m \<Longrightarrow> still_small (mem m x) (mem m' x)"
  shows "page_slot space vaddr m' = Some slot"
  using slot_walk_same [of size_max "space_pgent space (page_table_index size_max vaddr)" vaddr m slot m'] assms
  unfolding page_slot_def page_tables_def page_heads_def by blast

section \<open>Unmapping a page\<close>

lemma unmap_descend:
  assumes "slot_walk sz pg (um_vaddr v) (kmem s) = Some slot" and "um_num v \<noteq> 0" and "is_user_area (um_vaddr v)"
    and "um_size v = sz" "um_pg v = pg"
  shows "unmap_walk space fp flush unmap_all 0 v s = unmap_walk space fp flush unmap_all 0 (v\<lparr>um_size := 0, um_pg := slot\<rparr>) s"
  using assms
proof (induction sz arbitrary: pg v)
  case 0
  then have "v\<lparr>um_size := 0, um_pg := slot\<rparr> = v" by (cases v) simp
  then show ?case by simp
next
  case (Suc p)
  have e: "pg_is_valid pg (Suc p) (kmem s)" "pg_is_subtree pg (Suc p) (kmem s)"
    "slot_walk p (pg_next (pg_subtree pg (Suc p) (kmem s)) p (page_table_index p (um_vaddr v))) (um_vaddr v) (kmem s) = Some slot"
    using Suc.prems(1) by (auto split: if_splits)
  let ?v = "v\<lparr>um_size := p, um_pg := pg_next (pg_subtree pg (Suc p) (kmem s)) p (page_table_index p (um_vaddr v))\<rparr>"
  have "unmap_walk space fp flush unmap_all 0 v s = unmap_walk space fp flush unmap_all 0 ?v s"
    using Suc.prems e(1,2) by (subst unmap_walk.simps) simp
  also have "... = unmap_walk space fp flush unmap_all 0 (?v\<lparr>um_size := 0, um_pg := slot\<rparr>) s"
    using Suc.prems e(3) by (intro Suc.IH) simp_all
  finally show ?case by simp
qed

lemma fit_page: "p \<le> 7 \<Longrightarrow> fit_pgsize 12 p = 0"
proof (induction p)
  case (Suc p)
  then have "p = 0 \<or> p = 1 \<or> p = 2 \<or> p = 3 \<or> p = 4 \<or> p = 5 \<or> p = 6" by linarith
  then have "(12 :: word_t) < of_nat (hw_pgshifts (Suc p))" by (elim disjE) (simp_all add: hw_pgshifts_def)
  then show ?case using Suc by simp
qed simp

lemma smallest_page: "hw_pgsize (mdb_pgsize 0) = 0"
  by (simp add: hw_pgsize_def mdb_pgsize_def mdb_pgshifts_def hw_pgshifts_def upt_rec)

lemma unmap_page:
  assumes slot: "page_slot space vaddr (kmem s) = Some slot" and valid: "ent_is_valid (mem (kmem s) slot)"
    and fp: "fpage_get_size_log2 fp = 12" "fp_address fp 12 = vaddr" and u: "is_user_area vaddr"
    and mp: "is_mappable_addr space vaddr s"
  shows "unmap_fpage space fp flush unmap_all s =
    map_option (\<lambda>(rwx, s'). (fpage_set_rwx rwx fp, s')) (ks_flush (pg_mapnode slot vaddr (kmem s)) slot 0 vaddr 0 fp flush s)"
proof -
  let ?v = "\<lparr>um_num = 1, um_vaddr = vaddr, um_pg = space_pgent space (page_table_index size_max vaddr), um_size = size_max,
     um_rwx = 0, um_r_pg = (\<lambda>_. 0), um_r_num = (\<lambda>_. 0)\<rparr>"
  let ?w = "?v\<lparr>um_size := 0, um_pg := slot\<rparr>"
  have fit: "fit_pgsize 12 size_max = 0" by (rule fit_page) (simp add: size_max_def)
  have al: "addr_mask vaddr (NOT (page_mask 0)) = vaddr"
    unfolding fp(2) [symmetric] by (simp add: fp_address_def shl_def addr_mask_def page_mask_def hw_pgshifts_def and.assoc)
  have "unmap_walk space fp flush unmap_all 0 ?v s = unmap_walk space fp flush unmap_all 0 ?w s"
    using slot [unfolded page_slot_def] u by (intro unmap_descend [where sz = size_max]) simp_all
  also have "... = ks_flush (pg_mapnode slot vaddr (kmem s)) slot 0 vaddr 0 fp flush s"
  proof (cases "ks_flush (pg_mapnode slot vaddr (kmem s)) slot 0 vaddr 0 fp flush s")
    case None
    then show ?thesis using u valid mp al by (subst unmap_walk.simps) (simp add: unmap_entry_def Let_def)
  next
    case (Some x)
    then obtain rwx s' where x: "ks_flush (pg_mapnode slot vaddr (kmem s)) slot 0 vaddr 0 fp flush s = Some (rwx, s')" by (cases x) simp
    have "unmap_entry space fp flush unmap_all 0 ?w s = Some (?w\<lparr>um_rwx := rwx\<rparr>, s')"
      using mp al x by (simp add: unmap_entry_def Let_def)
    then show ?thesis using u valid x
      by (subst unmap_walk.simps) (simp add: unmap_next_def unmap_recurse_up.simps unmap_walk.simps)
  qed
  finally show ?thesis using fp fit u
    by (cases "ks_flush (pg_mapnode slot vaddr (kmem s)) slot 0 vaddr 0 fp flush s")
      (auto simp: unmap_fpage_def Let_def hw_pgshifts_def size_max_def shl_def)
qed

text \<open>C9: flushing a page with all rights through \<^verbatim>\<open>unmap_fpage\<close> takes it away from everyone who
  received it.  If the address is mapped by the smallest page size, its mapping node is the root of the
  subtree \<^term>\<open>ts\<close> in the tree of the frame, the call returns; the address is no longer mapped, exactly
  the subtree is removed from the tree of mappings, the page table entries of all its mappings are
  invalid and the remaining mappings are unchanged.\<close>

theorem unmap_fpage_flushes_page:
  assumes "frame_inv R bls A r (kmem s) (xs @ ts @ ys)" and "entries (kmem s) ts = preorder d (Mapping slot sp cs)"
    and "fst (hd ts) = pg_mapnode slot vaddr (kmem s)"
    and "ys \<noteq> [] \<longrightarrow> unat (map_get_depth (fst (hd ys)) (kmem s)) \<le> d" and "flushable R bls r (kmem s) ts"
    and "lookup_mapping space vaddr (kmem s) = Some (slot, 0)" and "page_tables space vaddr (kmem s) \<subseteq> R - {r} - pt_cells ts"
    and "page_heads space vaddr (kmem s) \<subseteq> R - {r} - pt_links ts"
    and "fpage_is_rwx fp" and "fpage_get_size_log2 fp = 12" and "fp_address fp 12 = vaddr"
    and "is_user_area vaddr" and "is_mappable_addr space vaddr s"
  shows "\<exists>fp' s'. unmap_fpage space fp True unmap_all s = Some (fp', s') \<and> lookup_mapping space vaddr (kmem s') = None \<and>
    frame_inv R bls (A - fst ` set ts) r (kmem s') (xs @ ys) \<and> entries (kmem s') (xs @ ys) = entries (kmem s) (xs @ ys) \<and>
    (\<forall>pg \<in> snd ` set ts. \<not> ent_is_valid (mem (kmem s') pg))"
proof -
  have slot: "page_slot space vaddr (kmem s) = Some slot" using assms(6) by (rule page_slot_lookup(2))
  then have v: "ent_is_valid (mem (kmem s) slot)" using page_slot_lookup(1) [OF slot] assms(6) by (simp split: if_splits)
  obtain w m' c' where r: "mdb_flush (pg_mapnode slot vaddr (kmem s)) slot 0 vaddr 0 fp True (kmem s, asid_cache s) = Some (w, m', c')"
      "frame_inv R bls (A - fst ` set ts) r m' (xs @ ys)" "entries m' (xs @ ys) = entries (kmem s) (xs @ ys)"
      "\<forall>pg \<in> snd ` set ts. \<not> ent_is_valid (mem m' pg)" "\<forall>x \<in> R - {r} - pt_cells ts. mem m' x = mem (kmem s) x"
      "only_clears 0 (pt_links ts) (R - {r}) (kmem s) m'"
    using mdb_flush_tree [OF assms(1-5,9) order_refl, of 0 vaddr True "asid_cache s"] smallest_page by (auto simp: Let_def)
  let ?s = "(upd_kmem m' s)\<lparr>asid_cache := c'\<rparr>"
  have run: "unmap_fpage space fp True unmap_all s = Some (fpage_set_rwx w fp, ?s)"
    using unmap_page [OF slot v assms(10-13), of True unmap_all] r(1) by (simp add: ks_flush_def)
  have slot': "page_slot space vaddr m' = Some slot"
  proof (rule page_slot_same [OF slot])
    show "mem m' x = mem (kmem s) x" if "x \<in> page_tables space vaddr (kmem s)" for x using assms(7) r(5) that by blast
    show "still_small (mem (kmem s) x) (mem m' x)" if "x \<in> page_heads space vaddr (kmem s)" for x
    proof -
      have "x \<in> R - {r}" "x \<notin> pt_links ts" using assms(8) that by auto
      then show ?thesis using bspec [OF r(6) [unfolded only_clears_def], of x] by (auto simp: still_small_def is_table_size_def)
    qed
  qed
  have "slot \<in> snd ` set ts" using assms(2) by (cases ts) (auto simp: entries_def)
  then have "lookup_mapping space vaddr m' = None" using page_slot_lookup(1) [OF slot'] r(4) by simp
  then show ?thesis using run r(2-4) by simp
qed

section \<open>Mapping a page\<close>

lemma map_descend_f:
  assumes "slot_walk sz pg (mf_f_addr v) (kmem s) = Some slot" and "mf_f_num v \<noteq> 0"
    and "is_user_area (mf_f_addr v)" "is_user_area (mf_t_addr v)" "\<not> is_sigma0_space space s" "mf_f_size v = sz" "mf_fpg v = pg"
  shows "map_loop bls s0 space fp tsp grant 0 v s = map_loop bls s0 space fp tsp grant 0 (v\<lparr>mf_f_size := 0, mf_fpg := slot\<rparr>) s"
  using assms
proof (induction sz arbitrary: pg v)
  case 0
  then have "v\<lparr>mf_f_size := 0, mf_fpg := slot\<rparr> = v" by (cases v) simp
  then show ?case by simp
next
  case (Suc p)
  let ?next = "pg_next (pg_subtree pg (Suc p) (kmem s)) p (page_table_index p (mf_f_addr v))"
  have e: "pg_is_valid pg (Suc p) (kmem s)" "pg_is_subtree pg (Suc p) (kmem s)"
    "slot_walk p ?next (mf_f_addr v) (kmem s) = Some slot" using Suc.prems(1) by (auto split: if_splits)
  let ?v = "v\<lparr>mf_f_size := p, mf_fpg := ?next\<rparr>"
  have "map_round bls s0 space fp tsp grant 0 v s = Some (?v, s)"
    using Suc.prems e(1,2) by (simp add: map_round_def map_sender_def Let_def)
  then have "map_loop bls s0 space fp tsp grant 0 v s = map_loop bls s0 space fp tsp grant 0 ?v s"
    using Suc.prems by (subst map_loop.simps) simp
  also have "... = map_loop bls s0 space fp tsp grant 0 (?v\<lparr>mf_f_size := 0, mf_fpg := slot\<rparr>) s"
    using Suc.prems e(3) by (intro Suc.IH) simp_all
  finally show ?case by simp
qed

lemma map_descend_t:
  assumes "slot_walk sz pg (mf_t_addr v) (kmem s) = Some slot" and "mf_f_num v \<noteq> 0"
    and "is_user_area (mf_f_addr v)" "is_user_area (mf_t_addr v)" "\<not> is_sigma0_space space s" "mf_t_size v = sz" "mf_tpg v = pg"
    and "mf_f_size v = 0" "ent_is_valid (mem (kmem s) (mf_fpg v))"
  shows "\<exists>r_tpg r_tnum. map_loop bls s0 space fp tsp grant 0 v s = map_loop bls s0 space fp tsp grant 0
    (v\<lparr>mf_t_size := 0, mf_tpg := slot, mf_r_tpg := r_tpg, mf_r_tnum := r_tnum\<rparr>) s"
  using assms
proof (induction sz arbitrary: pg v)
  case 0
  then have "v\<lparr>mf_t_size := 0, mf_tpg := slot, mf_r_tpg := mf_r_tpg v, mf_r_tnum := mf_r_tnum v\<rparr> = v" by (cases v) simp
  then show ?case by metis
next
  case (Suc p)
  let ?next = "pg_next (pg_subtree pg (Suc p) (kmem s)) p (page_table_index p (mf_t_addr v))"
  have e: "pg_is_valid pg (Suc p) (kmem s)" "pg_is_subtree pg (Suc p) (kmem s)"
    "slot_walk p ?next (mf_t_addr v) (kmem s) = Some slot" using Suc.prems(1) by (auto split: if_splits)
  let ?v = "(push_tpg v)\<lparr>mf_tpg := ?next\<rparr>"
  have "map_round bls s0 space fp tsp grant 0 v s = Some (?v, s)"
    using Suc.prems e(1,2) by (simp add: map_round_def map_sender_def map_receiver_def map_split_def push_tpg_def Let_def)
  then have "map_loop bls s0 space fp tsp grant 0 v s = map_loop bls s0 space fp tsp grant 0 ?v s"
    using Suc.prems by (subst map_loop.simps) simp
  moreover obtain r_tpg r_tnum where "map_loop bls s0 space fp tsp grant 0 ?v s = map_loop bls s0 space fp tsp grant 0
      (?v\<lparr>mf_t_size := 0, mf_tpg := slot, mf_r_tpg := r_tpg, mf_r_tnum := r_tnum\<rparr>) s"
    using Suc.IH [of ?next ?v] Suc.prems e(3) by (auto simp: push_tpg_def Let_def)
  ultimately show ?case by (auto simp: push_tpg_def Let_def)
qed

text \<open>The state after a page was mapped.\<close>

definition mapped_page :: "fpage_t \<Rightarrow> pgent_p \<Rightarrow> pgent_p \<Rightarrow> addr_t \<Rightarrow> mapnode_p \<Rightarrow> memory \<Rightarrow> memory" where
  "mapped_page fp fslot tslot t_addr n m =
     pg_set_linknode tslot n t_addr (pg_set_entry_attr tslot 0 (pg_address fslot 0 m) (pg_is_readable fslot m \<and> fpage_is_read fp)
       (pg_is_writable fslot m \<and> fpage_is_write fp) False (pg_get_attributes fslot m) m)"

lemma map_page:
  assumes addr: "map_addresses fp base rcv = (12, f_addr, t_addr)" and al: "take_bit 12 f_addr = 0"
    and f: "page_slot space f_addr (kmem s) = Some fslot" "ent_is_valid (mem (kmem s) fslot)"
    and t: "page_slot tsp t_addr (kmem s) = Some tslot" "\<not> ent_is_valid (mem (kmem s) tslot)"
    and u: "is_user_area f_addr" "is_user_area t_addr" and s0: "\<not> is_sigma0_space space s"
    and mp: "is_mappable_addr space f_addr s" "is_mappable_addr tsp t_addr s"
    and mdb: "mdb_map bls (pg_mapnode fslot f_addr (kmem s)) fslot 0 f_addr tslot 0 tsp False (kmem s) = Some (n, m1)"
  shows "map_fpage bls sigma0_mapnode space fp base tsp rcv False s = Some (upd_kmem (mapped_page fp fslot tslot t_addr n m1) s)"
proof -
  let ?loop = "map_loop bls sigma0_mapnode space fp tsp False 0"
  let ?v = "\<lparr>mf_f_num = 1, mf_t_num = 1, mf_f_off = 0, mf_fpg = space_pgent space (page_table_index size_max f_addr),
     mf_tpg = space_pgent tsp (page_table_index size_max t_addr), mf_f_size = size_max, mf_t_size = size_max, mf_f_addr = f_addr,
     mf_t_addr = t_addr, mf_r_fpg = (\<lambda>_. 0), mf_r_tpg = (\<lambda>_. 0), mf_r_fnum = (\<lambda>_. 0), mf_r_tnum = (\<lambda>_. 0)\<rparr>"
  let ?v1 = "?v\<lparr>mf_f_size := 0, mf_fpg := fslot\<rparr>"
  have fit: "fit_pgsize 12 size_max = 0" by (rule fit_page) (simp add: size_max_def)
  have alig: "f_addr AND page_mask 0 = 0" "addr_mask f_addr (NOT (page_mask 0)) = f_addr"
    using al pgof_eq [of f_addr]
    by (simp_all add: page_mask_def hw_pgshifts_def addr_mask_def pgof_def take_bit_eq_mask mask_eq_exp_minus_1)
  have start: "map_fpage bls sigma0_mapnode space fp base tsp rcv False s = ?loop ?v s"
    using addr fit by (simp add: map_fpage_def hw_pgshifts_def shl_def)
  have "?loop ?v s = ?loop ?v1 s"
    using f(1) [unfolded page_slot_def] u s0 by (intro map_descend_f [where sz = size_max]) simp_all
  moreover have "\<exists>r_tpg r_tnum. ?loop ?v1 s = ?loop (?v1\<lparr>mf_t_size := 0, mf_tpg := tslot, mf_r_tpg := r_tpg, mf_r_tnum := r_tnum\<rparr>) s"
    using t(1) [unfolded page_slot_def] f(2) u s0 by (intro map_descend_t [where sz = size_max]) simp_all
  ultimately obtain v where v: "?loop ?v s = ?loop v s" "mf_f_num v = 1" "mf_t_num v = 1" "mf_f_off v = 0" "mf_fpg v = fslot"
      "mf_tpg v = tslot" "mf_f_size v = 0" "mf_t_size v = 0" "mf_f_addr v = f_addr" "mf_t_addr v = t_addr" by fastforce
  have "map_insert bls sigma0_mapnode space fp tsp False 0 v s = Some (v, upd_kmem (mapped_page fp fslot tslot t_addr n m1) s)"
    using v s0 mdb alig by (simp add: map_insert_def mapped_page_def Let_def addr_offset_def)
  then have "map_entry bls sigma0_mapnode space fp tsp False v s = Some (v, upd_kmem (mapped_page fp fslot tslot t_addr n m1) s)"
    using v mp t(2) alig by (simp add: map_entry_def Let_def)
  moreover have "is_page_size_valid 0" by (simp add: is_page_size_valid_def HW_VALID_PGSIZES_def hw_pgshifts_def)
  then have "map_receiver space tsp 0 v s = Some (Fall, v, s)" "map_sender space 0 v s = (Fall, v)"
    using v t(2) f(2) s0 by (simp_all add: map_receiver_def map_sender_def Let_def)
  ultimately have "map_round bls sigma0_mapnode space fp tsp False 0 v s =
      Some (next_receiver_entry space 0 v (upd_kmem (mapped_page fp fslot tslot t_addr n m1) s), upd_kmem (mapped_page fp fslot tslot t_addr n m1) s)"
    by (simp add: map_round_def Let_def)
  then have "?loop v s = ?loop (next_receiver_entry space 0 v (upd_kmem (mapped_page fp fslot tslot t_addr n m1) s))
      (upd_kmem (mapped_page fp fslot tslot t_addr n m1) s)"
    using v u by (subst map_loop.simps) simp
  also have "... = Some (upd_kmem (mapped_page fp fslot tslot t_addr n m1) s)"
    using v by (subst map_loop.simps) (simp add: next_receiver_entry_def next_sender_entry_def Let_def)
  finally show ?thesis using start v(1) by simp
qed

lemma tr_ent_set:
  "tr_get_valid (ent_set v t sz w) = tr_get_valid w" "tr_get_dirty (ent_set v t sz w) = tr_get_dirty w"
  "tr_phys_addr (ent_set v t sz w) = tr_phys_addr w"
  by (simp_all add: tr_get_valid_def tr_get_dirty_def tr_phys_addr_def ent_set_def bf_get_set_other)

lemma pg_address_page: "pg_address pg 0 m = tr_phys_addr (mem m pg)"
proof -
  have "take_bit 12 (tr_phys_addr (mem m pg)) = 0"
    by (simp add: tr_phys_addr_def CONFIG_MIPS64_VPN_SHIFT_def take_bit_push_bit)
  then show ?thesis using pgof_eq [of "tr_phys_addr (mem m pg)"]
    by (simp add: pg_address_def pg_raw_def hw_pgshifts_def addr_mask_def pgof_def)
qed

lemma phys_addr_roundtrip: "push_bit 12 (take_bit 24 (drop_bit 12 (tr_phys_addr w))) = tr_phys_addr w"
  by (simp add: tr_phys_addr_def CONFIG_MIPS64_VPN_SHIFT_def bf_get_def) (rule bit_eqI, auto simp: bit_simps)

lemma mapped_page_fields:
  fixes tslot :: word_t
  assumes "m' = mapped_page fp fslot tslot t_addr n m"
  shows "ent_is_valid (mem m' tslot)" "still_small (mem m tslot) (mem m' tslot)" "pg_address tslot 0 m' = pg_address fslot 0 m"
    "pg_is_readable tslot m' \<longleftrightarrow> pg_is_readable fslot m \<and> fpage_is_read fp"
    "pg_is_writable tslot m' \<longleftrightarrow> pg_is_writable fslot m \<and> fpage_is_write fp \<and> fpage_is_read fp"
    "pg_mapnode tslot t_addr m' = n" "x \<noteq> tslot \<Longrightarrow> x \<noteq> tslot + MIPS64_PTAB_SIZE \<Longrightarrow> mem m' x = mem m x"
    "\<exists>u v. m' = set_raw (tslot + MIPS64_PTAB_SIZE) u (set_raw tslot v m)"
proof -
  let ?w = "ent_set True False 0 (new_translation (pg_get_attributes fslot m) (pg_is_readable fslot m \<and> fpage_is_read fp)
     (pg_is_writable fslot m \<and> fpage_is_write fp) False (pg_address fslot 0 m))"
  have m': "m' = set_raw (tslot + MIPS64_PTAB_SIZE) (n XOR t_addr) (set_raw tslot ?w m)"
    by (simp add: assms mapped_page_def pg_set_linknode_def set_linknode_def pg_set_entry_attr_def set_raw_def)
  have "MIPS64_PTAB_SIZE \<noteq> 0" by (simp add: MIPS64_PTAB_SIZE_def)
  then have w: "mem m' tslot = ?w" "mem m' (tslot + MIPS64_PTAB_SIZE) = n XOR t_addr" by (simp_all add: m')
  show "x \<noteq> tslot \<Longrightarrow> x \<noteq> tslot + MIPS64_PTAB_SIZE \<Longrightarrow> mem m' x = mem m x" by (simp add: m')
  show "\<exists>u v. m' = set_raw (tslot + MIPS64_PTAB_SIZE) u (set_raw tslot v m)" using m' by blast
  show "ent_is_valid (mem m' tslot)" "still_small (mem m tslot) (mem m' tslot)"
    using w(1) ent_set_fields [of 0 True False] by (simp_all add: still_small_def)
  show "pg_address tslot 0 m' = pg_address fslot 0 m"
    by (simp add: pg_address_page w tr_ent_set new_translation_def tr_set_fields phys_addr_roundtrip)
  show "pg_is_readable tslot m' \<longleftrightarrow> pg_is_readable fslot m \<and> fpage_is_read fp"
    "pg_is_writable tslot m' \<longleftrightarrow> pg_is_writable fslot m \<and> fpage_is_write fp \<and> fpage_is_read fp"
    by (auto simp: pg_is_readable_def pg_is_writable_def pg_raw_def w tr_ent_set new_translation_def tr_set_fields)
  show "pg_mapnode tslot t_addr m' = n" by (simp add: pg_mapnode_def get_linknode_def w xor_cancel)
qed

lemma map_fpage_page:
  assumes "map_addresses fp base rcv = (12, f_addr, t_addr)" and "take_bit 12 f_addr = 0"
    and "lookup_mapping space f_addr (kmem s) = Some (fslot, 0)" and "page_slot tsp t_addr (kmem s) = Some tslot"
    and "\<not> ent_is_valid (mem (kmem s) tslot)" and "is_user_area f_addr" "is_user_area t_addr" and "\<not> is_sigma0_space space s"
    and "is_mappable_addr space f_addr s" "is_mappable_addr tsp t_addr s"
    and "frame_inv R bls A r (kmem s) ns" and "entries (kmem s) ns = xs @ preorder d (Mapping fslot sp cs) @ ys"
    and "ns ! length xs = (pg_mapnode fslot f_addr (kmem s), fslot)" and "d < 255" and "take_bit 1 tslot = 0" "take_bit 11 tsp = 0"
    and "mdb_alloc_buffer bls sizeof_mapnode_t (kmem s) \<noteq> None" and "fslot \<in> R"
    and "{tslot, tslot + MIPS64_PTAB_SIZE} \<subseteq> R - mdb_words bls - {r}"
    and "page_tables tsp t_addr (kmem s) \<subseteq> R - {tslot, tslot + MIPS64_PTAB_SIZE}"
    and "page_heads tsp t_addr (kmem s) \<subseteq> R - {tslot + MIPS64_PTAB_SIZE}"
  shows "\<exists>s' n ns'. map_fpage bls sigma0_mapnode space fp base tsp rcv False s = Some s' \<and>
    lookup_mapping tsp t_addr (kmem s') = Some (tslot, 0) \<and> pg_address tslot 0 (kmem s') = pg_address fslot 0 (kmem s) \<and>
    (pg_is_readable tslot (kmem s') \<longleftrightarrow> pg_is_readable fslot (kmem s) \<and> fpage_is_read fp) \<and>
    (pg_is_writable tslot (kmem s') \<longleftrightarrow> pg_is_writable fslot (kmem s) \<and> fpage_is_write fp \<and> fpage_is_read fp) \<and>
    n \<notin> A \<and> pg_mapnode tslot t_addr (kmem s') = n \<and> frame_inv R bls (insert n A) r (kmem s') ns' \<and>
    entries (kmem s') ns' = xs @ preorder d (Mapping fslot sp (Mapping tslot tsp [] # cs)) @ ys"
proof -
  let ?m = "kmem s"
  have f: "page_slot space f_addr ?m = Some fslot" using assms(3) by (rule page_slot_lookup(2))
  then have fv: "ent_is_valid (mem ?m fslot)" using page_slot_lookup(1) [OF f] assms(3) by (simp split: if_splits)
  obtain n m1 ns' where m1: "mdb_map bls (pg_mapnode fslot f_addr ?m) fslot 0 f_addr tslot 0 tsp False ?m = Some (n, m1)" "n \<notin> A"
      "frame_inv R bls (insert n A) r m1 ns'"
      "entries m1 ns' = xs @ preorder d (Mapping fslot sp (Mapping tslot tsp [] # cs)) @ ys" "\<forall>x \<in> R. mem m1 x = mem ?m x"
    using mdb_map_tree [OF assms(11-14) refl assms(15-17), of 0 f_addr] by blast
  define m' where "m' = mapped_page fp fslot tslot t_addr n m1"
  note M = mapped_page_fields [OF m'_def]
  have run: "map_fpage bls sigma0_mapnode space fp base tsp rcv False s = Some (upd_kmem m' s)"
    unfolding m'_def by (rule map_page [OF assms(1,2) f fv assms(4-10) m1(1)])
  have ns': "fst ` set ns' \<subseteq> insert n A" using frame_invD(7) [OF m1(3)] .
  have fr: "frame_inv R bls (insert n A) r m' ns'"
  proof -
    obtain u v where uv: "m' = set_raw (tslot + MIPS64_PTAB_SIZE) u (set_raw tslot v m1)" using M(8) by blast
    show ?thesis unfolding uv using assms(19) by (intro frame_write_rest [OF frame_write_rest [OF m1(3)]]) auto
  qed
  have en: "entries m' ns' = entries m1 ns'"
  proof (rule entries_cong)
    fix k assume "k \<in> fst ` set ns'"
    then have "k + 8 \<notin> R" using ns' node_words_apart(1) [OF frame_invD(1) [OF m1(3)], of k] by (auto simp: node_words_def)
    then show "mem m' (k + 8) = mem m1 (k + 8)" using assms(19) by (intro M(7)) auto
  qed
  have "page_slot tsp t_addr m' = Some tslot"
  proof (rule page_slot_same [OF assms(4)])
    show "mem m' x = mem ?m x" if "x \<in> page_tables tsp t_addr ?m" for x
    proof -
      have "x \<in> R" "x \<noteq> tslot" "x \<noteq> tslot + MIPS64_PTAB_SIZE" using assms(20) that by blast+
      then show ?thesis using M(7) m1(5) by simp
    qed
    show "still_small (mem ?m x) (mem m' x)" if "x \<in> page_heads tsp t_addr ?m" for x
    proof -
      have "x \<in> R" "x \<noteq> tslot + MIPS64_PTAB_SIZE" using assms(21) that by blast+
      then show ?thesis using M(7) [of x] M(2) m1(5) by (cases "x = tslot") (simp_all add: still_small_def)
    qed
  qed
  then have "lookup_mapping tsp t_addr m' = Some (tslot, 0)" using page_slot_lookup(1) M(1) by simp
  moreover have "mem m1 fslot = mem ?m fslot" using m1(5) assms(18) by blast
  note e = pg_cong [OF this]
  ultimately show ?thesis using run m1(2,4) fr en M(3-6) e(4-6) by auto
qed

text \<open>C8: mapping a page through \<^verbatim>\<open>map_fpage\<close>, without grant, from a space other than sigma0's, when
  the send and receive fpages select one page of the smallest size.  If the source address is mapped by that
  page size, the receiver's tables reach a free entry for the destination address, both addresses are user
  addresses outside the kernel interface pages and UTCB areas, the sender's node is at a depth below 255, a buffer for the
  new node can be allocated, and the page tables lie apart from the mapping nodes, then the call returns; the
  destination address is mapped to the same physical page by the new entry; it is readable if
  the sender's page and the send fpage are, and writable if the sender's page is writable and the send fpage has
  both the write and the read right (one with the write right alone gives no right); the entry links to a new
  mapping node, which is the first child of the sender's mapping in the tree of the frame.\<close>
theorem map_fpage_maps_page:
  assumes "map_addresses fp base rcv = (12, f_addr, t_addr)" and "take_bit 12 f_addr = 0"
    and "lookup_mapping space f_addr (kmem s) = Some (fslot, 0)" and "page_slot tsp t_addr (kmem s) = Some tslot"
    and "\<not> ent_is_valid (mem (kmem s) tslot)" and "is_user_area f_addr" "is_user_area t_addr" and "\<not> is_sigma0_space space s"
    and "is_mappable_addr space f_addr s" "is_mappable_addr tsp t_addr s"
    and "frame_inv R bls A r (kmem s) ns" and "entries (kmem s) ns = xs @ preorder d (Mapping fslot sp cs) @ ys"
    and "ns ! length xs = (pg_mapnode fslot f_addr (kmem s), fslot)" and "d < 255" and "take_bit 1 tslot = 0" "take_bit 11 tsp = 0"
    and "mdb_alloc_buffer bls sizeof_mapnode_t (kmem s) \<noteq> None" and "fslot \<in> R"
    and "{tslot, tslot + MIPS64_PTAB_SIZE} \<subseteq> R - mdb_words bls - {r}"
    and "page_tables tsp t_addr (kmem s) \<subseteq> R - {tslot, tslot + MIPS64_PTAB_SIZE}"
    and "page_heads tsp t_addr (kmem s) \<subseteq> R - {tslot + MIPS64_PTAB_SIZE}"
  shows "\<exists>s' n ns'. map_fpage bls sigma0_mapnode space fp base tsp rcv False s = Some s' \<and>
    lookup_mapping tsp t_addr (kmem s') = Some (tslot, 0) \<and> pg_address tslot 0 (kmem s') = pg_address fslot 0 (kmem s) \<and>
    (pg_is_readable tslot (kmem s') \<longleftrightarrow> pg_is_readable fslot (kmem s) \<and> fpage_is_read fp) \<and>
    (pg_is_writable tslot (kmem s') \<longleftrightarrow> pg_is_writable fslot (kmem s) \<and> fpage_is_write fp \<and> fpage_is_read fp) \<and>
    n \<notin> A \<and> pg_mapnode tslot t_addr (kmem s') = n \<and> frame_inv R bls (insert n A) r (kmem s') ns' \<and>
    entries (kmem s') ns' = xs @ preorder d (Mapping fslot sp (Mapping tslot tsp [] # cs)) @ ys"
  using assms by (rule map_fpage_page)

section \<open>Two spaces\<close>

text \<open>The space at \<^verbatim>\<open>0x80000\<close> maps address 0, the one at \<^verbatim>\<open>0x90000\<close> has a free entry for it.\<close>

definition two_spaces :: kstate where
  "two_spaces = blank_state\<lparr>kmem := one_mapping, asid_cache := two_asids, sigma0_space := 1\<rparr>"

lemma one_mapping_tables:
  "mem one_mapping 0x80000 = 0x1600000000020000" "mem one_mapping 0xFF00000000020000 = 0x1400000000030000"
  "mem one_mapping 0xFF00000000030000 = 0x200000000000015E" "mem one_mapping 0xFF00000000032000 = 0x10040"
  "mem one_mapping 0x90000 = 0x1600000000060000" "mem one_mapping 0xFF00000000060000 = 0x1400000000070000"
  "mem one_mapping 0xFF00000000070000 = 0x1000000000000000"
  "mem one_mapping 0x81fe0 = 0" "mem one_mapping 0x81fe8 = 0" "mem one_mapping 0x91fe0 = 0" "mem one_mapping 0x91fe8 = 0"
  by (simp_all add: one_mapping_def one_page_def set_next_ptr_def set_backlink_root_def map_set_space_def set_next_map_def)

lemma zero_index [simp]: "pg_next pg k (page_table_index k' 0) = pg"
  by (simp add: page_table_index_def pg_next_def)

lemma zero_slot:
  assumes "pg_is_valid p 7 m" "pg_is_subtree p 7 m" "pg_subtree p 7 m = q"
    and "\<And>k. k = 5 \<or> k = 6 \<Longrightarrow> pg_is_valid q k m \<and> pg_is_subtree q k m" "pg_subtree q 5 m = l"
    and "\<And>k. 0 < k \<Longrightarrow> k < 5 \<Longrightarrow> pg_is_valid l k m \<and> pg_is_subtree l k m"
  shows "page_slot p 0 m = Some l" "page_tables p 0 m = {p, q}" "page_heads p 0 m = {l}"
proof -
  have same: "pg_subtree x k m = x" if "\<not> is_table_size k" for x k using that by (simp add: pg_subtree_def)
  have n: "4 = Suc 3" "3 = Suc 2" "2 = Suc 1" "1 = Suc 0" by simp_all
  have l: "slot_walk 4 l 0 m = Some l" "slot_path (\<lambda>k. 5 \<le> k) 4 l 0 m = {}" "slot_path (\<lambda>k. k < 5) 4 l 0 m = {l}"
    unfolding n using assms(6) by (simp_all add: same is_table_size_def space_pgent_def)
  have q: "slot_walk 6 q 0 m = Some l" "slot_path (\<lambda>k. 5 \<le> k) 6 q 0 m = {q}" "slot_path (\<lambda>k. k < 5) 6 q 0 m = {l}"
    using assms(4) [of 6] assms(4) [of 5] assms(5) l same [of 6 q] slot_walk.simps(2) [of 5 q 0 m] slot_walk.simps(2) [of 4 q 0 m]
      slot_path.simps(2) [of _ 5 q 0 m] slot_path.simps(2) [of _ 4 q 0 m]
    by (simp_all add: is_table_size_def)
  show "page_slot p 0 m = Some l" "page_tables p 0 m = {p, q}" "page_heads p 0 m = {l}"
    unfolding page_slot_def page_tables_def page_heads_def size_max_def
    using assms(1-3) q slot_walk.simps(2) [of 6 p 0 m] slot_path.simps(2) [of _ 6 p 0 m] by (simp_all add: space_pgent_def insert_commute)
qed

lemma two_spaces_slots:
  "page_slot 0x80000 0 one_mapping = Some 0xFF00000000030000" "page_tables 0x80000 0 one_mapping = {0x80000, 0xFF00000000020000}"
  "page_heads 0x80000 0 one_mapping = {0xFF00000000030000}"
  "page_slot 0x90000 0 one_mapping = Some 0xFF00000000070000" "page_tables 0x90000 0 one_mapping = {0x90000, 0xFF00000000060000}"
  "page_heads 0x90000 0 one_mapping = {0xFF00000000070000}"
proof -
  have num: "(0 :: word_t) < of_nat k" if "0 < k" "k < 5" for k :: nat
    using that by (simp add: word_less_nat_alt unat_of_nat take_bit_nat_eq_self)
  have lf: "pg_is_valid l k one_mapping \<and> pg_is_subtree l k one_mapping"
    if "l = 0xFF00000000030000 \<or> l = 0xFF00000000070000" "0 < k" "k < 5" for l k
    using that num [of k] one_mapping_tables(3,7)
    by (auto simp: pg_is_valid_def pg_is_subtree_def is_table_size_def pg_raw_def ent_is_valid_def ent_is_subtree_def ent_pgsize_def bf_get_def)
  note defs = pg_is_valid_def pg_is_subtree_def pg_subtree_def is_table_size_def pg_raw_def ent_is_valid_def ent_is_subtree_def
    ent_pgsize_def bf_get_def tree_to_addr_def AS_KSEG_START_def
  have t: "pg_is_valid 0x80000 7 one_mapping" "pg_is_subtree 0x80000 7 one_mapping" "pg_subtree 0x80000 7 one_mapping = 0xFF00000000020000"
      "pg_is_valid 0x90000 7 one_mapping" "pg_is_subtree 0x90000 7 one_mapping" "pg_subtree 0x90000 7 one_mapping = 0xFF00000000060000"
      "pg_subtree 0xFF00000000020000 5 one_mapping = 0xFF00000000030000" "pg_subtree 0xFF00000000060000 5 one_mapping = 0xFF00000000070000"
    by (simp_all add: defs one_mapping_tables)
  have q: "pg_is_valid q k one_mapping \<and> pg_is_subtree q k one_mapping"
    if "q = 0xFF00000000020000 \<or> q = 0xFF00000000060000" "k = 5 \<or> k = 6" for q k
    using that one_mapping_tables(2,6) by (elim disjE) (simp_all add: defs)
  show "page_slot 0x80000 0 one_mapping = Some 0xFF00000000030000" "page_tables 0x80000 0 one_mapping = {0x80000, 0xFF00000000020000}"
    "page_heads 0x80000 0 one_mapping = {0xFF00000000030000}"
    using zero_slot [OF t(1-3) q t(7) lf] by simp_all
  show "page_slot 0x90000 0 one_mapping = Some 0xFF00000000070000" "page_tables 0x90000 0 one_mapping = {0x90000, 0xFF00000000060000}"
    "page_heads 0x90000 0 one_mapping = {0xFF00000000070000}"
    using zero_slot [OF t(4-6) q t(8) lf] by simp_all
qed

lemma two_spaces_facts:
  "kmem two_spaces = one_mapping" "is_mappable_addr 0x80000 0 two_spaces" "is_mappable_addr 0x90000 0 two_spaces"
  "\<not> is_sigma0_space 0x80000 two_spaces" "is_user_area 0" "fpage_get_size_log2 0xC7 = 12" "fp_address 0xC7 12 = 0"
  "map_addresses 0xC7 0 0xC7 = (12, 0, 0)" "fpage_is_rwx 0xC7" "pg_mapnode 0xFF00000000030000 0 one_mapping = 0x10040"
proof -
  have "\<not> (8 :: word_t) \<le> 1" by (simp add: word_le_nat_alt)
  then have z: "\<not> is_addr_in_fpage 0 0"
    by (simp add: is_addr_in_fpage_def is_range_in_fpage_def is_complete_fpage_def fpage_x_size_def fpage_x_base_def
        fpage_get_address_def fpage_get_size_def bf_get_def addr_offset_def)
  show k: "kmem two_spaces = one_mapping" by (simp add: two_spaces_def)
  show u: "is_user_area 0" by (simp add: is_user_area_def USER_AREA_START_def)
  show "is_mappable_addr 0x80000 0 two_spaces" "is_mappable_addr 0x90000 0 two_spaces"
    using z u one_mapping_tables by (simp_all add: is_mappable_addr_def get_kip_page_area_def get_utcb_page_area_def space_word_def
        kip_area_offset_def utcb_area_offset_def k)
  show "\<not> is_sigma0_space 0x80000 two_spaces" by (simp add: is_sigma0_space_def two_spaces_def)
  show l: "fpage_get_size_log2 0xC7 = 12"
    by (simp add: fpage_get_size_log2_def is_complete_fpage_def fpage_x_size_def fpage_x_base_def bf_get_def)
  show a: "fp_address 0xC7 12 = 0" by (simp add: fp_address_def shl_def)
  show "map_addresses 0xC7 0 0xC7 = (12, 0, 0)" using l a by (simp add: map_addresses_def addr_mask_def addr_offset_def)
  show "fpage_is_rwx 0xC7" by (simp add: fpage_is_rwx_def fpage_read_def fpage_write_def fpage_execute_def bf_get_def)
  show "pg_mapnode 0xFF00000000030000 0 one_mapping = 0x10040"
    by (simp add: pg_mapnode_def get_linknode_def MIPS64_PTAB_SIZE_def one_mapping_tables)
qed

lemma two_spaces_source: "lookup_mapping 0x80000 0 one_mapping = Some (0xFF00000000030000, 0)"
  using page_slot_lookup(1) [OF two_spaces_slots(1)] one_mapping_tables(3) by (simp add: ent_is_valid_def bf_get_def)

theorem map_fpage_maps_page_witness:
  "\<exists>s'. map_fpage 0x40000 0 0x80000 0xC7 0 0x90000 0xC7 False two_spaces = Some s' \<and>
     lookup_mapping 0x90000 0 (kmem s') = Some (0xFF00000000070000, 0)"
proof -
  have "{0xFF00000000070000, 0xFF00000000072000} \<subseteq> kernel_words - mdb_words 0x40000 - {0x50000}"
    using kernel_words_free by (auto simp: kernel_words_def)
  moreover have "\<not> ent_is_valid (mem one_mapping 0xFF00000000070000)"
    by (simp add: one_mapping_tables ent_is_valid_def bf_get_def)
  moreover have "page_tables 0x90000 0 one_mapping \<subseteq> kernel_words - {0xFF00000000070000, 0xFF00000000072000}"
    "page_heads 0x90000 0 one_mapping \<subseteq> kernel_words - {0xFF00000000072000}"
    by (simp_all add: two_spaces_slots kernel_words_def)
  ultimately show ?thesis
    using map_fpage_maps_page [of "0xC7" 0 "0xC7" 0 0 "0x80000" two_spaces "0xFF00000000030000" "0x90000" "0xFF00000000070000"
        kernel_words "0x40000" one_page_nodes "0x50000" "[(0x10040, 0xFF00000000030000)]" "[]" 0 "0x80000" "[]" "[]" 0]
      two_spaces_facts two_spaces_slots two_spaces_source one_mapping_frame
    by (auto simp: MIPS64_PTAB_SIZE_def kernel_words_def)
qed

theorem unmap_fpage_flushes_page_witness:
  "\<exists>fp' s'. unmap_fpage 0x80000 0xC7 True False two_spaces = Some (fp', s') \<and> lookup_mapping 0x80000 0 (kmem s') = None"
proof -
  let ?ts = "[(0x10040, 0xFF00000000030000)] :: (word_t \<times> word_t) list"
  have "{0xFF00000000030000, 0xFF00000000032000} \<subseteq> kernel_words - mdb_words 0x40000 - {0x50000}"
    using kernel_words_free by (auto simp: kernel_words_def)
  moreover have c: "pt_cells ?ts = {0xFF00000000030000, 0xFF00000000032000}" "pt_links ?ts = {0xFF00000000032000}"
    by (auto simp: pt_cells_def pt_links_def MIPS64_PTAB_SIZE_def)
  moreover have "mem one_mapping 0x81ff8 = 0"
    by (simp add: one_mapping_def one_page_def set_next_ptr_def set_backlink_root_def map_set_space_def set_next_map_def)
  ultimately have "flushable kernel_words 0x40000 0x50000 one_mapping ?ts"
    using one_mapping_frame(2) by (simp add: flushable_def asid_cell_def asid_offset_def asid_is_valid_def asid_value_def kernel_words_def)
  moreover have "page_tables 0x80000 0 one_mapping \<subseteq> kernel_words - {0x50000} - pt_cells ?ts"
    "page_heads 0x80000 0 one_mapping \<subseteq> kernel_words - {0x50000} - pt_links ?ts"
    by (simp_all add: two_spaces_slots kernel_words_def c)
  ultimately show ?thesis
    using unmap_fpage_flushes_page [of kernel_words "0x40000" one_page_nodes "0x50000" two_spaces "[]" ?ts "[]" 0 "0xFF00000000030000"
        "0x80000" "[]" 0 "0x80000" "0xC7" False] two_spaces_facts two_spaces_source one_mapping_frame by auto
qed

end
