(* ===== verification/Ext_Transfer.thy ===== *)
theory Ext_Transfer
  imports Pagefault Page_Transfer
begin

text \<open>
  The transfer of typed message items (\<^verbatim>\<open>ipcx.cc\<close>): map and grant items call the page table
  walker, string items copy memory between the buffers of the two threads.

  \<^verbatim>\<open>memcpy\<close>, assembler code that may fault on user memory, is the argument \<^term>\<open>copy\<close>; the
  mapping operation is the argument \<^term>\<open>mapf\<close>, which the kernel instantiates with \<^verbatim>\<open>map_fpage\<close>.
  A jump to \<^verbatim>\<open>message_overflow\<close> is the result \<^term>\<open>Inl\<close>, with the number of bytes copied so far.
\<close>

type_synonym copier = "addr_t \<Rightarrow> addr_t \<Rightarrow> word_t \<Rightarrow> kstate \<Rightarrow> kstate option"
type_synonym mapper = "spacep \<Rightarrow> fpage_t \<Rightarrow> word_t \<Rightarrow> spacep \<Rightarrow> fpage_t \<Rightarrow> bool \<Rightarrow> kstate \<Rightarrow> kstate option"

section \<open>String copy\<close>

definition IPC_NUM_MR :: word_t where "IPC_NUM_MR = 64"

definition IPC_NUM_BR :: word_t where "IPC_NUM_BR = 33"

text \<open>Copying to another space is not implemented on this architecture.\<close>

definition adjust_for_copy_area :: "tcbp \<Rightarrow> tcbp \<Rightarrow> addr_t \<Rightarrow> addr_t \<Rightarrow> (addr_t \<times> addr_t) option" where
  "adjust_for_copy_area src dst sa da = None"

definition ipc_copy :: "copier \<Rightarrow> tcbp \<Rightarrow> addr_t \<Rightarrow> tcbp \<Rightarrow> addr_t \<Rightarrow> word_t \<Rightarrow> kstate \<Rightarrow> (word_t \<times> kstate) option" where
  "ipc_copy copy src src_addr dst dst_addr len s =
     (let src_len = get_copy_limit src_addr len;
          dst_len = get_copy_limit dst_addr len;
          len1 = (if src_len < len then src_len else len);
          len2 = (if dst_len < len1 then dst_len else len1)
      in do {
        (sa, da) \<leftarrow> (if get_space src s \<noteq> get_space dst s then adjust_for_copy_area src dst src_addr dst_addr
                    else Some (src_addr, dst_addr));
        let s1 = set_misc src misc_copy_start_dst da (set_misc src misc_copy_start_src sa (set_misc src misc_copy_fault sa s));
        s2 \<leftarrow> copy da sa len2 s1;
        Some (len2, set_misc src misc_copy_length (get_misc src misc_copy_length s2 + len2) s2)
      })"

definition copy_mr :: "tcbp \<Rightarrow> tcbp \<Rightarrow> word_t \<Rightarrow> kstate \<Rightarrow> kstate" where
  "copy_mr dst src index s = set_mr dst index (get_mr src index s) s"

section \<open>The state of the transfer\<close>

record xfer_t =
  x_src_idx :: word_t
  x_br_idx :: word_t
  x_total_len :: word_t
  x_accept_strings :: bool
  x_src_item :: msg_item_t
  x_src_addr :: word_t
  x_src_len :: word_t
  x_src_ptridx :: word_t
  x_dst_item :: msg_item_t
  x_dst_addr :: word_t
  x_dst_len :: word_t
  x_dst_ptridx :: word_t

text \<open>The next part of the send string: the next substring, the next item of a compound string, or the
  end (\<^term>\<open>True\<close>).  \<^term>\<open>None\<close> is the overflow.\<close>

definition next_send_part :: "tcbp \<Rightarrow> word_t \<Rightarrow> xfer_t \<Rightarrow> kstate \<Rightarrow> (bool \<times> xfer_t) option" where
  "next_send_part src total_mrs x s =
     (if x_src_ptridx x < get_string_ptr_count (x_src_item x)
      then Some (False, x\<lparr>x_src_ptridx := x_src_ptridx x + 1, x_src_addr := get_mr src (x_src_idx x + (x_src_ptridx x + 1)) s,
                          x_src_len := get_string_length (x_src_item x)\<rparr>)
      else if is_string_compound (x_src_item x)
      then let idx = x_src_idx x + (x_src_ptridx x + 1);
               item = get_mr src idx s
           in if idx + 1 > total_mrs \<or> idx + get_string_ptr_count item > total_mrs then None
              else Some (False, x\<lparr>x_src_idx := idx, x_src_ptridx := 1, x_src_item := item, x_src_addr := get_mr src (idx + 1) s,
                                  x_src_len := get_string_length item\<rparr>)
      else Some (True, x\<lparr>x_src_idx := x_src_idx x + (x_src_ptridx x + 1)\<rparr>))"

text \<open>Skipping the receive buffer, with all items of a compound one.\<close>

partial_function (option) skip_buffer :: "tcbp \<Rightarrow> xfer_t \<Rightarrow> kstate \<Rightarrow> xfer_t option" where
  "skip_buffer dst x s =
     (let br_idx = x_br_idx x + (get_string_ptr_count (x_dst_item x) + 1) in
      if br_idx \<ge> IPC_NUM_BR then Some (x\<lparr>x_br_idx := br_idx, x_accept_strings := False\<rparr>)
      else let x1 = x\<lparr>x_br_idx := br_idx, x_dst_item := get_br dst br_idx s\<rparr>
           in if is_string_compound (x_dst_item x) then skip_buffer dst x1 s else Some x1)"

text \<open>The next part of the receive buffer.\<close>

definition next_receive_part :: "tcbp \<Rightarrow> xfer_t \<Rightarrow> kstate \<Rightarrow> xfer_t option" where
  "next_receive_part dst x s =
     (if x_dst_ptridx x < get_string_ptr_count (x_dst_item x)
      then Some (x\<lparr>x_dst_ptridx := x_dst_ptridx x + 1, x_dst_addr := get_br dst (x_br_idx x + (x_dst_ptridx x + 1)) s,
                   x_dst_len := get_string_length (x_dst_item x)\<rparr>)
      else if is_string_compound (x_dst_item x)
      then let idx = x_br_idx x + (x_dst_ptridx x + 1);
               item = get_br dst idx s
           in if idx + 1 > IPC_NUM_BR \<or> idx + get_string_ptr_count item > IPC_NUM_BR then None
              else Some (x\<lparr>x_br_idx := idx, x_dst_ptridx := 1, x_dst_item := item, x_dst_addr := get_br dst (idx + 1) s,
                           x_dst_len := get_string_length item\<rparr>)
      else None)"

text \<open>One round of the copy loop: copy, then advance the sender, then the receiver.\<close>

definition string_round ::
  "copier \<Rightarrow> tcbp \<Rightarrow> tcbp \<Rightarrow> word_t \<Rightarrow> xfer_t \<Rightarrow> kstate \<Rightarrow> ((word_t \<times> kstate) + (bool \<times> xfer_t \<times> kstate)) option" where
  "string_round copy src dst total_mrs x s =
     (let s1 = copy_mr dst src (x_src_idx x + x_src_ptridx x) s;
          copy_length = (if x_dst_len x < x_src_len x then x_dst_len x else x_src_len x)
      in case ipc_copy copy src (x_src_addr x) dst (x_dst_addr x) copy_length s1 of
           None \<Rightarrow> None
         | Some (n, s2) \<Rightarrow>
             let x1 = x\<lparr>x_total_len := x_total_len x + n, x_src_len := x_src_len x - n, x_dst_len := x_dst_len x - n,
                        x_src_addr := x_src_addr x + n, x_dst_addr := x_dst_addr x + n\<rparr>
             in if n < copy_length then Some (Inl (x_total_len x1, s2))
                else (case (if x_src_len x1 = 0 then next_send_part src total_mrs x1 s2 else Some (False, x1)) of
                        None \<Rightarrow> Some (Inl (x_total_len x1, s2))
                      | Some (True, x2) \<Rightarrow> map_option (\<lambda>x3. Inr (True, x3, s2)) (skip_buffer dst x2 s2)
                      | Some (False, x2) \<Rightarrow>
                          if x_dst_len x2 = 0
                          then (case next_receive_part dst x2 s2 of
                                  None \<Rightarrow> Some (Inl (x_total_len x2, s2))
                                | Some x3 \<Rightarrow> Some (Inr (False, x3, s2)))
                          else Some (Inr (False, x2, s2))))"

partial_function (option) string_loop ::
  "copier \<Rightarrow> tcbp \<Rightarrow> tcbp \<Rightarrow> word_t \<Rightarrow> xfer_t \<Rightarrow> kstate \<Rightarrow> ((word_t \<times> kstate) + (xfer_t \<times> kstate)) option" where
  "string_loop copy src dst total_mrs x s =
     (case string_round copy src dst total_mrs x s of
        None \<Rightarrow> None
      | Some (Inl e) \<Rightarrow> Some (Inl e)
      | Some (Inr (fin, x1, s1)) \<Rightarrow> if fin then Some (Inr (x1, s1)) else string_loop copy src dst total_mrs x1 s1)"

definition string_item ::
  "copier \<Rightarrow> tcbp \<Rightarrow> tcbp \<Rightarrow> word_t \<Rightarrow> xfer_t \<Rightarrow> kstate \<Rightarrow> ((word_t \<times> kstate) + (xfer_t \<times> kstate)) option" where
  "string_item copy src dst total_mrs x s =
     (let s1 = copy_mr dst src (x_src_idx x) s;
          dst_item = get_br dst (x_br_idx x) s1
      in if \<not> x_accept_strings x \<or> x_src_idx x + get_string_ptr_count (x_src_item x) > total_mrs \<or>
            x_br_idx x + get_string_ptr_count dst_item > IPC_NUM_BR \<or> \<not> is_string_item dst_item
         then Some (Inl (x_total_len x, s1))
         else string_loop copy src dst total_mrs
                (x\<lparr>x_src_addr := get_mr src (x_src_idx x + 1) s1, x_src_len := get_string_length (x_src_item x), x_src_ptridx := 1,
                   x_dst_item := dst_item, x_dst_addr := get_br dst (x_br_idx x + 1) s1,
                   x_dst_len := get_string_length dst_item, x_dst_ptridx := 1, x_accept_strings := more_strings dst_item\<rparr>) s1)"

definition map_item ::
  "mapper \<Rightarrow> tcbp \<Rightarrow> tcbp \<Rightarrow> acceptor_t \<Rightarrow> word_t \<Rightarrow> xfer_t \<Rightarrow> kstate \<Rightarrow> ((word_t \<times> kstate) + (xfer_t \<times> kstate)) option" where
  "map_item mapf src dst acceptor total_mrs x s =
     (let idx = x_src_idx x;
          rcv_fpage = get_rcv_window acceptor;
          snd_fpage = get_mr src (idx + 1) s
      in if idx + 1 > total_mrs \<or> is_nil_fpage rcv_fpage then Some (Inl (x_total_len x, s))
         else let s1 = copy_mr dst src (idx + 1) (copy_mr dst src idx s)
              in map_option (\<lambda>s2. Inr (x\<lparr>x_src_idx := idx + 2\<rparr>, s2))
                   (mapf (get_space src s1) snd_fpage (get_snd_base (x_src_item x)) (get_space dst s1) rcv_fpage
                      (is_grant_item (x_src_item x)) s1))"

partial_function (option) item_loop ::
  "copier \<Rightarrow> mapper \<Rightarrow> tcbp \<Rightarrow> tcbp \<Rightarrow> acceptor_t \<Rightarrow> word_t \<Rightarrow> xfer_t \<Rightarrow> kstate \<Rightarrow> ((word_t \<times> kstate) + kstate) option" where
  "item_loop copy mapf src dst acceptor total_mrs x s =
     (if x_src_idx x < total_mrs
      then let item = get_mr src (x_src_idx x) s;
               x1 = x\<lparr>x_src_item := item\<rparr>
           in case (if is_map_item item \<or> is_grant_item item then map_item mapf src dst acceptor total_mrs x1 s
                    else if is_string_item item then string_item copy src dst total_mrs x1 s
                    else Some (Inl (x_total_len x, s))) of
                None \<Rightarrow> None
              | Some (Inl e) \<Rightarrow> Some (Inl e)
              | Some (Inr (x2, s2)) \<Rightarrow> item_loop copy mapf src dst acceptor total_mrs x2 s2
      else Some (Inr s))"

definition message_overflow :: "tcbp \<Rightarrow> tcbp \<Rightarrow> msg_tag_t \<Rightarrow> word_t \<Rightarrow> kstate \<Rightarrow> msg_tag_t \<times> kstate" where
  "message_overflow src dst tag total_len s =
     (set_error tag,
      set_error_code src (IPC_SND_ERROR (ERR_IPC_MSG_OVERFLOW total_len))
        (set_error_code dst (IPC_RCV_ERROR (ERR_IPC_MSG_OVERFLOW total_len)) (cancel_timeout src (release_copy_area src s))))"

text \<open>The states in which the transfer runs, and the local variables before the loop.\<close>

definition start_transfer :: "tcbp \<Rightarrow> tcbp \<Rightarrow> kstate \<Rightarrow> kstate" where
  "start_transfer src dst s =
     (let s1 = set_state dst locked_waiting (set_state src locked_running s)
      in set_misc src misc_copy_length 0 (set_partner src (get_global_id dst s1) s1))"

definition initial_xfer :: "msg_tag_t \<Rightarrow> acceptor_t \<Rightarrow> xfer_t" where
  "initial_xfer tag acceptor =
     \<lparr>x_src_idx = get_untyped tag + 1, x_br_idx = 1, x_total_len = 0, x_accept_strings = accept_strings acceptor,
      x_src_item = 0, x_src_addr = 0, x_src_len = 0, x_src_ptridx = 0, x_dst_item = 0, x_dst_addr = 0, x_dst_len = 0,
      x_dst_ptridx = 0\<rparr>"

definition extended_transfer :: "copier \<Rightarrow> mapper \<Rightarrow> tcbp \<Rightarrow> tcbp \<Rightarrow> msg_tag_t \<Rightarrow> kstate \<Rightarrow> (msg_tag_t \<times> kstate) option" where
  "extended_transfer copy mapf src dst tag s =
     (let total_mrs = get_untyped tag + get_typed tag in
      if total_mrs > IPC_NUM_MR then None
      else do {
        let s1 = start_transfer src dst s;
        let acceptor = get_br dst 0 s1;
        r \<leftarrow> item_loop copy mapf src dst acceptor total_mrs (initial_xfer tag acceptor) s1;
        (case r of
           Inl (n, s2) \<Rightarrow> Some (message_overflow src dst tag n s2)
         | Inr s2 \<Rightarrow> Some (tag, sub_flag src has_xfer_timeout (cancel_timeout src (release_copy_area src s2))))
      })"

section \<open>The transfer ends\<close>

lemma small_add: "unat a \<le> 1000 \<Longrightarrow> unat b \<le> 1000 \<Longrightarrow> unat (a + b) = unat a + unat b" for a b :: word_t
  by (simp add: unat_word_ariths(1))

lemma ptr_count: "1 \<le> unat (get_string_ptr_count i)" "unat (get_string_ptr_count i) \<le> 32"
proof -
  have "unat (bf_get 4 5 i) < 32"
    unfolding bf_get_def by (simp add: unsigned_take_bit_eq take_bit_nat_less_exp [of 5, simplified])
  then show "1 \<le> unat (get_string_ptr_count i)" "unat (get_string_ptr_count i) \<le> 32"
    by (simp_all add: get_string_ptr_count_def small_add)
qed

text \<open>The positions of the sender and of the receiver stay within their registers, and every round of the
  copy loop advances one of them.\<close>

definition send_pos :: "xfer_t \<Rightarrow> nat" where "send_pos x = unat (x_src_idx x) + unat (x_src_ptridx x)"

definition recv_pos :: "xfer_t \<Rightarrow> nat" where "recv_pos x = unat (x_br_idx x) + unat (x_dst_ptridx x)"

definition string_ok :: "word_t \<Rightarrow> xfer_t \<Rightarrow> bool" where
  "string_ok tm x \<longleftrightarrow> unat tm \<le> 64 \<and> unat (x_src_idx x) + unat (get_string_ptr_count (x_src_item x)) \<le> unat tm \<and>
     unat (x_src_ptridx x) \<le> unat (get_string_ptr_count (x_src_item x)) \<and>
     unat (x_br_idx x) + unat (get_string_ptr_count (x_dst_item x)) \<le> 33 \<and>
     unat (x_dst_ptridx x) \<le> unat (get_string_ptr_count (x_dst_item x))"

lemma string_okD:
  assumes "string_ok tm x"
  shows "send_pos x \<le> unat tm" "recv_pos x \<le> 33" "unat tm \<le> 64"
  using assms by (auto simp: string_ok_def send_pos_def recv_pos_def)

lemma idx_step:
  assumes "unat (i :: word_t) + unat (c :: word_t) \<le> 64" "unat (p :: word_t) \<le> unat c"
  shows "unat (p + 1) = unat p + 1" "unat (i + (p + 1)) = unat i + unat p + 1"
  using assms by (simp_all add: small_add)

lemma idx_fits:
  assumes "unat (idx :: word_t) \<le> 100" "\<not> idx + get_string_ptr_count item > lim" "unat lim \<le> 64"
  shows "unat idx + unat (get_string_ptr_count item) \<le> unat lim"
  using assms ptr_count(2) [of item] by (simp add: word_less_nat_alt small_add)

lemma next_send_part_ok:
  assumes ok: "string_ok tm x" and n: "next_send_part src tm x s = Some (False, x')"
  shows "string_ok tm x' \<and> send_pos x < send_pos x' \<and> recv_pos x' = recv_pos x \<and>
    unat (x_src_idx x) \<le> unat (x_src_idx x') \<and> x_dst_len x' = x_dst_len x"
proof -
  note O = ok [unfolded string_ok_def]
  have st: "unat (x_src_ptridx x + 1) = unat (x_src_ptridx x) + 1"
    "unat (x_src_idx x + (x_src_ptridx x + 1)) = unat (x_src_idx x) + unat (x_src_ptridx x) + 1"
    using idx_step [of "x_src_idx x" "get_string_ptr_count (x_src_item x)" "x_src_ptridx x"] O by auto
  show ?thesis
  proof (cases "x_src_ptridx x < get_string_ptr_count (x_src_item x)")
    case True
    then show ?thesis using n O st
      by (auto simp: next_send_part_def string_ok_def send_pos_def recv_pos_def word_less_nat_alt)
  next
    case False
    let ?i = "x_src_idx x + (x_src_ptridx x + 1)"
    have fit: "\<not> ?i + get_string_ptr_count (get_mr src ?i s) > tm" using n False
      by (auto simp: next_send_part_def Let_def split: if_splits)
    have fit': "unat ?i + unat (get_string_ptr_count (get_mr src ?i s)) \<le> unat tm"
      by (rule idx_fits [OF _ fit]) (use O st in auto)
    show ?thesis using n O st False fit' ptr_count(1) [of "get_mr src ?i s"]
      by (auto simp: next_send_part_def string_ok_def send_pos_def recv_pos_def Let_def split: if_splits)
  qed
qed

lemma next_send_part_end:
  assumes ok: "string_ok tm x" and n: "next_send_part src tm x s = Some (True, x')"
  shows "unat (x_src_idx x') = send_pos x + 1 \<and> x_dst_item x' = x_dst_item x \<and> x_br_idx x' = x_br_idx x"
  using n ok idx_step(2) [of "x_src_idx x" "get_string_ptr_count (x_src_item x)" "x_src_ptridx x"]
  by (auto simp: next_send_part_def string_ok_def send_pos_def Let_def split: if_splits)

lemma next_receive_part_ok:
  assumes ok: "string_ok tm x" and n: "next_receive_part dst x s = Some x'"
  shows "string_ok tm x' \<and> send_pos x' = send_pos x \<and> recv_pos x < recv_pos x' \<and> x_src_idx x' = x_src_idx x"
proof -
  note O = ok [unfolded string_ok_def]
  have st: "unat (x_dst_ptridx x + 1) = unat (x_dst_ptridx x) + 1"
    "unat (x_br_idx x + (x_dst_ptridx x + 1)) = unat (x_br_idx x) + unat (x_dst_ptridx x) + 1"
    using idx_step [of "x_br_idx x" "get_string_ptr_count (x_dst_item x)" "x_dst_ptridx x"] O by auto
  show ?thesis
  proof (cases "x_dst_ptridx x < get_string_ptr_count (x_dst_item x)")
    case True
    then show ?thesis using n O st
      by (auto simp: next_receive_part_def string_ok_def send_pos_def recv_pos_def word_less_nat_alt)
  next
    case False
    let ?i = "x_br_idx x + (x_dst_ptridx x + 1)"
    have fit: "\<not> ?i + get_string_ptr_count (get_br dst ?i s) > IPC_NUM_BR" using n False
      by (auto simp: next_receive_part_def Let_def split: if_splits)
    have fit': "unat ?i + unat (get_string_ptr_count (get_br dst ?i s)) \<le> unat IPC_NUM_BR"
      by (rule idx_fits [OF _ fit]) (use O st in \<open>auto simp: IPC_NUM_BR_def\<close>)
    show ?thesis using n O st False fit' ptr_count(1) [of "get_br dst ?i s"]
      by (auto simp: next_receive_part_def string_ok_def send_pos_def recv_pos_def Let_def IPC_NUM_BR_def split: if_splits)
  qed
qed

lemma skip_buffer_returns:
  assumes "unat (x_br_idx x) \<le> 33"
  shows "\<exists>x'. skip_buffer dst x s = Some x' \<and> x_src_idx x' = x_src_idx x \<and> unat (x_br_idx x') \<le> 66"
  using assms
proof (induction "33 - unat (x_br_idx x)" arbitrary: x rule: less_induct)
  case less
  let ?b = "x_br_idx x + (get_string_ptr_count (x_dst_item x) + 1)"
  have b: "unat ?b = unat (x_br_idx x) + unat (get_string_ptr_count (x_dst_item x)) + 1"
    using less.prems ptr_count(2) [of "x_dst_item x"] by (simp add: small_add)
  have le: "unat ?b \<le> 66" using b less.prems ptr_count(2) [of "x_dst_item x"] by simp
  show ?case
  proof (cases "?b \<ge> IPC_NUM_BR \<or> \<not> is_string_compound (x_dst_item x)")
    case True
    then show ?thesis using le by (subst skip_buffer.simps) (auto simp: Let_def)
  next
    case False
    let ?x = "x\<lparr>x_br_idx := ?b, x_dst_item := get_br dst ?b s\<rparr>"
    have lt: "unat ?b < 33" using False by (auto simp: IPC_NUM_BR_def word_le_nat_alt)
    have "\<exists>x'. skip_buffer dst ?x s = Some x' \<and> x_src_idx x' = x_src_idx ?x \<and> unat (x_br_idx x') \<le> 66"
      by (rule less.hyps) (use lt b less.prems in auto)
    then show ?thesis using False by (subst skip_buffer.simps) (auto simp: Let_def)
  qed
qed

text \<open>\<^verbatim>\<open>map_fpage\<close> changes no thread control block.\<close>

lemma ks_tcbs:
  "ks_flush mp pg sz va ps fp self s = Some (r, s') \<Longrightarrow> tcbs s' = tcbs s"
  "ks_flush_tlbent sp s = Some s' \<Longrightarrow> tcbs s' = tcbs s" "ks_mem_opt f s = Some s' \<Longrightarrow> tcbs s' = tcbs s"
  "tcbs (ks_mem g s) = tcbs s"
  by (auto simp: ks_flush_def ks_flush_tlbent_def ks_mem_opt_def ks_mem_def)

lemma over_up_tcbs: "over_up f_size num v s = Some (n, v', s') \<Longrightarrow> tcbs s' = tcbs s"
proof (induction f_size num v s rule: over_up.induct)
  case (1 f_size num v s)
  show ?case using 1(2) ks_tcbs(3) 1(1)
    by (subst (asm) over_up.simps) (fastforce simp: Let_def split: option.split_asm if_split_asm)
qed

lemma over_loop_tcbs: "over_loop tsp pgsize fp num va v s = Some r \<Longrightarrow> tcbs (snd r) = tcbs s"
proof (induction rule: over_loop.raw_induct [rotated 1, consumes 1])
  case (1 f tsp pgsize fp num va v s r)
  have k: "tcbs s1 = tcbs s" if "(if b then map_option snd (ks_flush mp pg sz a ps fp' self s) else Some s) = Some s1"
    for b mp pg sz a ps fp' self s1
    using that ks_tcbs(1) by (fastforce split: if_split_asm)
  show ?case using 1(2)
    by (auto simp: Let_def 1(1) dest!: k ks_tcbs(1) over_up_tcbs dest: 1(1) split: option.split_asm if_split_asm)
qed

lemma map_split_tcbs: "map_split pgsize v s = Some (v', s') \<Longrightarrow> tcbs s' = tcbs s"
  by (auto simp: map_split_def Let_def dest: ks_tcbs(3) split: option.split_asm if_split_asm)

lemma map_receiver_tcbs:
  assumes "map_receiver space tsp pgsize v s = Some (j, v', s')" shows "tcbs s' = tcbs s"
  using assms unfolding map_receiver_def Let_def
  by (auto simp: overmap_def dest: ks_tcbs(3) map_split_tcbs over_loop_tcbs split: option.split_asm if_split_asm)

lemma map_entry_tcbs:
  assumes "map_entry bls mn space fp tsp grant v s = Some (v', s')" shows "tcbs s' = tcbs s"
  using assms unfolding map_entry_def map_insert_def map_extend_def Let_def
  by (auto simp: ks_tcbs(4) dest!: ks_tcbs(2) split: option.split_asm if_split_asm bind_split_asm prod.split_asm)

lemma map_round_tcbs:
  assumes "map_round bls mn space fp tsp grant pgsize v s = Some (v', s')" shows "tcbs s' = tcbs s"
  using assms unfolding map_round_def Let_def
  by (auto dest!: map_receiver_tcbs map_entry_tcbs split: jump.split_asm option.split_asm if_split_asm prod.split_asm)

lemma map_loop_tcbs: "map_loop bls mn space fp tsp grant pgsize v s = Some s' \<Longrightarrow> tcbs s' = tcbs s"
proof (induction rule: map_loop.raw_induct [rotated 1, consumes 1])
  case (1 f bls mn space fp tsp grant pgsize v s s')
  show ?case using 1(2)
    by (auto simp: 1(1) dest!: map_round_tcbs dest: 1(1) split: option.split_asm if_split_asm)
qed

lemma map_fpage_tcbs: "map_fpage bls mn space fp base tsp rcv grant s = Some s' \<Longrightarrow> tcbs s' = tcbs s"
  unfolding map_fpage_def Let_def by (auto dest: map_loop_tcbs split: prod.split_asm if_split_asm)

text \<open>What the transfer relies on: copying returns, and copying and mapping leave the threads in their spaces.\<close>

definition keeps_spaces :: "kstate \<Rightarrow> kstate \<Rightarrow> bool" where
  "keeps_spaces s s' \<longleftrightarrow> (\<forall>t. get_space t s' = get_space t s)"

definition copy_returns :: "copier \<Rightarrow> bool" where
  "copy_returns copy \<longleftrightarrow> (\<forall>da sa n s. \<exists>s'. copy da sa n s = Some s' \<and> keeps_spaces s s')"

definition map_keeps :: "mapper \<Rightarrow> bool" where
  "map_keeps mapf \<longleftrightarrow> (\<forall>sp f b sp' f' g s s'. mapf sp f b sp' f' g s = Some s' \<longrightarrow> keeps_spaces s s')"

lemma map_fpage_keeps: "map_keeps (map_fpage bls mn)"
  using map_fpage_tcbs by (auto simp: map_keeps_def keeps_spaces_def get_space_def)

lemma get_space_set_mr [simp]: "get_space t (set_mr d i v s) = get_space t s"
  by (simp add: get_space_def set_mr_def upd_utcb_def)

lemma get_space_set_misc [simp]: "get_space t (set_misc d i v s) = get_space t s"
  by (simp add: get_space_def set_misc_def upd_tcb_def)

lemma get_space_set_state [simp]: "get_space t (set_state d st s) = get_space t s"
  by (simp add: get_space_def set_state_def upd_tcb_def)

lemma get_space_set_partner [simp]: "get_space t (set_partner d p s) = get_space t s"
  by (simp add: get_space_def set_partner_def upd_tcb_def)

lemma get_space_copy_mr [simp]: "get_space t (copy_mr d src i s) = get_space t s"
  by (simp add: copy_mr_def)

lemma get_mr_upd_tcb [simp]:
  "get_mr t i (set_state d st s) = get_mr t i s" "get_mr t i (set_partner d p s) = get_mr t i s"
  "get_mr t i (set_misc d j v s) = get_mr t i s" "get_br t i (set_state d st s) = get_br t i s"
  "get_br t i (set_partner d p s) = get_br t i s" "get_br t i (set_misc d j v s) = get_br t i s"
  "get_br t i (copy_mr d src k s) = get_br t i s"
  by (simp_all add: get_mr_def get_br_def set_state_def set_partner_def set_misc_def get_utcb_def copy_mr_def set_mr_def)

lemma get_utcb_upd_tcb [simp]:
  "get_utcb t (set_state d st s) = get_utcb t s" "get_utcb t (set_partner d p s) = get_utcb t s"
  "get_utcb t (set_misc d j v s) = get_utcb t s" "get_utcb t (copy_mr d src i s) = get_utcb t s"
  by (simp_all add: set_state_def set_partner_def set_misc_def get_utcb_def copy_mr_def set_mr_def)

lemma get_mr_copy_mr:
  assumes "get_utcb src s \<noteq> get_utcb dst s"
  shows "get_mr src i (copy_mr dst src j s) = get_mr src i s"
    "get_mr dst i (copy_mr dst src j s) = (if i = j then get_mr src j s else get_mr dst i s)"
  using assms by (simp_all add: get_mr_def copy_mr_def set_mr_def get_utcb_def)

lemma kmem_copy_mr [simp]: "kmem (copy_mr d src i s) = kmem s" "sigma0_space (copy_mr d src i s) = sigma0_space s"
  by (simp_all add: copy_mr_def set_mr_def)

lemma start_transfer_sel [simp]:
  "get_mr t i (start_transfer src dst s) = get_mr t i s" "get_br t i (start_transfer src dst s) = get_br t i s"
  "get_utcb t (start_transfer src dst s) = get_utcb t s" "get_space t (start_transfer src dst s) = get_space t s"
  "kmem (start_transfer src dst s) = kmem s" "sigma0_space (start_transfer src dst s) = sigma0_space s"
  by (simp_all add: start_transfer_def Let_def) (simp_all add: set_misc_def set_partner_def set_state_def)

lemma ipc_copy_returns:
  assumes c: "copy_returns copy" and sp: "get_space src s = get_space dst s"
  shows "\<exists>n s'. ipc_copy copy src sa dst da len s = Some (n, s') \<and> n \<le> len \<and> keeps_spaces s s'"
proof -
  define n where "n = (let l = (if get_copy_limit sa len < len then get_copy_limit sa len else len)
    in if get_copy_limit da len < l then get_copy_limit da len else l)"
  define s1 where "s1 = set_misc src misc_copy_start_dst da (set_misc src misc_copy_start_src sa (set_misc src misc_copy_fault sa s))"
  obtain s2 where s2: "copy da sa n s1 = Some s2" "keeps_spaces s1 s2" using c unfolding copy_returns_def by blast
  have "ipc_copy copy src sa dst da len s = Some (n, set_misc src misc_copy_length (get_misc src misc_copy_length s2 + n) s2)"
    using s2(1) sp by (simp add: ipc_copy_def n_def s1_def Let_def)
  moreover have "n \<le> len" by (auto simp: n_def Let_def)
  moreover have "keeps_spaces s s2" using s2(2) by (simp add: keeps_spaces_def s1_def)
  ultimately show ?thesis by (auto simp: keeps_spaces_def)
qed

definition round_left :: "word_t \<Rightarrow> xfer_t \<Rightarrow> nat" where
  "round_left tm x = (unat tm - send_pos x) + (33 - recv_pos x)"

text \<open>After a round the transfer has ended in an overflow, the string is complete, or there is less to do.\<close>

lemma string_round_progress:
  assumes c: "copy_returns copy" and sp: "get_space src s = get_space dst s" and ok: "string_ok tm x"
  shows "(\<exists>n s'. string_round copy src dst tm x s = Some (Inl (n, s'))) \<or>
    (\<exists>x' s'. string_round copy src dst tm x s = Some (Inr (True, x', s')) \<and> keeps_spaces s s' \<and>
       send_pos x < unat (x_src_idx x') \<and> unat (x_src_idx x') \<le> 65 \<and> unat (x_br_idx x') \<le> 66) \<or>
    (\<exists>x' s'. string_round copy src dst tm x s = Some (Inr (False, x', s')) \<and> keeps_spaces s s' \<and> string_ok tm x' \<and>
       unat (x_src_idx x) \<le> unat (x_src_idx x') \<and> round_left tm x' < round_left tm x)"
proof -
  define len where "len = (if x_dst_len x < x_src_len x then x_dst_len x else x_src_len x)"
  define s1 where "s1 = copy_mr dst src (x_src_idx x + x_src_ptridx x) s"
  obtain n s2 where cp: "ipc_copy copy src (x_src_addr x) dst (x_dst_addr x) len s1 = Some (n, s2)" "n \<le> len" "keeps_spaces s1 s2"
    using ipc_copy_returns [OF c, of src s1 dst "x_src_addr x" "x_dst_addr x" len] sp by (auto simp: s1_def)
  have k: "keeps_spaces s s2" using cp(3) by (simp add: keeps_spaces_def s1_def)
  define x1 where "x1 = x\<lparr>x_total_len := x_total_len x + n, x_src_len := x_src_len x - n, x_dst_len := x_dst_len x - n,
                        x_src_addr := x_src_addr x + n, x_dst_addr := x_dst_addr x + n\<rparr>"
  define snd_part where "snd_part = (if x_src_len x1 = 0 then next_send_part src tm x1 s2 else Some (False, x1))"
  have r: "string_round copy src dst tm x s =
    (if n < len then Some (Inl (x_total_len x1, s2))
     else (case snd_part of None \<Rightarrow> Some (Inl (x_total_len x1, s2))
           | Some (True, x2) \<Rightarrow> map_option (\<lambda>x3. Inr (True, x3, s2)) (skip_buffer dst x2 s2)
           | Some (False, x2) \<Rightarrow>
               if x_dst_len x2 = 0
               then (case next_receive_part dst x2 s2 of
                       None \<Rightarrow> Some (Inl (x_total_len x2, s2)) | Some x3 \<Rightarrow> Some (Inr (False, x3, s2)))
               else Some (Inr (False, x2, s2))))"
    using cp(1) unfolding string_round_def Let_def len_def [symmetric] s1_def [symmetric] x1_def snd_part_def by simp
  have pos1: "send_pos x1 = send_pos x" "recv_pos x1 = recv_pos x" "string_ok tm x1" "x_src_idx x1 = x_src_idx x"
    using ok by (simp_all add: x1_def send_pos_def recv_pos_def string_ok_def)
  note b = string_okD [OF ok]
  show ?thesis
  proof (cases "n < len")
    case True
    then show ?thesis by (simp add: r)
  next
    case False
    then have n: "n = len" using cp(2) by simp
    then have zero: "x_src_len x1 = 0 \<or> x_dst_len x1 = 0" by (auto simp: x1_def len_def)
    consider (over) "snd_part = None" | (fin) x2 where "snd_part = Some (True, x2)" | (more) x2 where "snd_part = Some (False, x2)"
      by (metis (full_types) not_Some_eq surj_pair)
    then show ?thesis
    proof cases
      case over
      then show ?thesis by (simp add: r False)
    next
      case fin
      then have e: "next_send_part src tm x1 s2 = Some (True, x2)" by (auto simp: snd_part_def split: if_splits)
      note E = next_send_part_end [OF pos1(3) e]
      have "unat (x_br_idx x2) \<le> 33" using E pos1(3) by (simp add: string_ok_def)
      then obtain x3 where x3: "skip_buffer dst x2 s2 = Some x3" "x_src_idx x3 = x_src_idx x2" "unat (x_br_idx x3) \<le> 66"
        using skip_buffer_returns by blast
      show ?thesis using x3 k E b pos1(1) by (auto simp: r False fin)
    next
      case more
      have m: "string_ok tm x2 \<and> send_pos x \<le> send_pos x2 \<and> (x_src_len x1 = 0 \<longrightarrow> send_pos x < send_pos x2) \<and>
        recv_pos x2 = recv_pos x \<and> unat (x_src_idx x) \<le> unat (x_src_idx x2) \<and> x_dst_len x2 = x_dst_len x1"
        using more next_send_part_ok [OF pos1(3)] pos1 by (fastforce simp: snd_part_def split: if_splits)
      note b2 = string_okD [OF m [THEN conjunct1]]
      show ?thesis
      proof (cases "x_dst_len x2 = 0")
        case True
        show ?thesis
        proof (cases "next_receive_part dst x2 s2")
          case None
          then show ?thesis by (simp add: r False more True)
        next
          case (Some x3)
          note R = next_receive_part_ok [OF m [THEN conjunct1] Some]
          note b3 = string_okD [OF R [THEN conjunct1]]
          have "round_left tm x3 < round_left tm x" using R m b b2 b3 by (auto simp: round_left_def)
          then show ?thesis using R m k by (auto simp: r False more True Some)
        qed
      next
        case F: False
        then have "round_left tm x2 < round_left tm x" using zero m b b2 by (auto simp: round_left_def)
        then show ?thesis using F m k by (auto simp: r False more)
      qed
    qed
  qed
qed

lemma string_loop_returns:
  assumes c: "copy_returns copy" and sp: "get_space src s = get_space dst s" and ok: "string_ok tm x"
  shows "(\<exists>n s'. string_loop copy src dst tm x s = Some (Inl (n, s'))) \<or>
    (\<exists>x' s'. string_loop copy src dst tm x s = Some (Inr (x', s')) \<and> keeps_spaces s s' \<and>
       unat (x_src_idx x) < unat (x_src_idx x') \<and> unat (x_src_idx x') \<le> 65 \<and> unat (x_br_idx x') \<le> 66)"
  using sp ok
proof (induction "round_left tm x" arbitrary: x s rule: less_induct)
  case less
  consider (over) n s' where "string_round copy src dst tm x s = Some (Inl (n, s'))"
    | (fin) x' s' where "string_round copy src dst tm x s = Some (Inr (True, x', s'))" "keeps_spaces s s'"
       "send_pos x < unat (x_src_idx x')" "unat (x_src_idx x') \<le> 65" "unat (x_br_idx x') \<le> 66"
    | (more) x' s' where "string_round copy src dst tm x s = Some (Inr (False, x', s'))" "keeps_spaces s s'" "string_ok tm x'"
       "unat (x_src_idx x) \<le> unat (x_src_idx x')" "round_left tm x' < round_left tm x"
    using string_round_progress [OF c less.prems] by blast
  then show ?case
  proof cases
    case over
    then show ?thesis by (subst string_loop.simps) simp
  next
    case fin
    then show ?thesis by (subst (2) string_loop.simps) (auto simp: send_pos_def)
  next
    case more
    have "get_space src s' = get_space dst s'" using more(2) less.prems(1) by (simp add: keeps_spaces_def)
    from less.hyps [OF more(5) this more(3)] more(1,2,4) show ?thesis
      by (subst (1 2) string_loop.simps) (auto simp: keeps_spaces_def)
  qed
qed

lemma string_item_returns:
  assumes c: "copy_returns copy" and sp: "get_space src s = get_space dst s"
    and lim: "unat tm \<le> 64" "unat (x_src_idx x) \<le> 65" "unat (x_br_idx x) \<le> 66"
  shows "(\<exists>n s'. string_item copy src dst tm x s = Some (Inl (n, s'))) \<or>
    (\<exists>x' s'. string_item copy src dst tm x s = Some (Inr (x', s')) \<and> keeps_spaces s s' \<and>
       unat (x_src_idx x) < unat (x_src_idx x') \<and> unat (x_src_idx x') \<le> 65 \<and> unat (x_br_idx x') \<le> 66)"
proof -
  define s1 where "s1 = copy_mr dst src (x_src_idx x) s"
  define item where "item = get_br dst (x_br_idx x) s1"
  define x1 where "x1 = x\<lparr>x_src_addr := get_mr src (x_src_idx x + 1) s1, x_src_len := get_string_length (x_src_item x), x_src_ptridx := 1,
                   x_dst_item := item, x_dst_addr := get_br dst (x_br_idx x + 1) s1,
                   x_dst_len := get_string_length item, x_dst_ptridx := 1, x_accept_strings := more_strings item\<rparr>"
  show ?thesis
  proof (cases "\<not> x_accept_strings x \<or> x_src_idx x + get_string_ptr_count (x_src_item x) > tm \<or>
            x_br_idx x + get_string_ptr_count item > IPC_NUM_BR \<or> \<not> is_string_item item")
    case True
    then show ?thesis unfolding string_item_def Let_def s1_def [symmetric] item_def [symmetric] by simp
  next
    case False
    then have e: "string_item copy src dst tm x s = string_loop copy src dst tm x1 s1"
      unfolding string_item_def Let_def s1_def [symmetric] item_def [symmetric] x1_def by simp
    have "unat (x_src_idx x) + unat (get_string_ptr_count (x_src_item x)) \<le> unat tm"
      by (rule idx_fits) (use lim False in auto)
    moreover have "unat (x_br_idx x) + unat (get_string_ptr_count item) \<le> unat IPC_NUM_BR"
      by (rule idx_fits) (use lim False in \<open>auto simp: IPC_NUM_BR_def\<close>)
    ultimately have "string_ok tm x1"
      using lim(1) ptr_count(1) [of item] ptr_count(1) [of "x_src_item x"] by (simp add: string_ok_def x1_def IPC_NUM_BR_def)
    moreover have "get_space src s1 = get_space dst s1" using sp by (simp add: s1_def)
    ultimately have "(\<exists>n s'. string_loop copy src dst tm x1 s1 = Some (Inl (n, s'))) \<or>
      (\<exists>x' s'. string_loop copy src dst tm x1 s1 = Some (Inr (x', s')) \<and> keeps_spaces s1 s' \<and>
       unat (x_src_idx x1) < unat (x_src_idx x') \<and> unat (x_src_idx x') \<le> 65 \<and> unat (x_br_idx x') \<le> 66)"
      using string_loop_returns [OF c] by blast
    then show ?thesis unfolding e by (simp add: x1_def s1_def keeps_spaces_def)
  qed
qed

lemma map_item_returns:
  assumes m: "map_keeps mapf" and i: "unat (x_src_idx x) < unat tm" "unat tm \<le> 64" "unat (x_br_idx x) \<le> 66"
  shows "map_item mapf src dst acceptor tm x s = None \<or>
    (\<exists>n s'. map_item mapf src dst acceptor tm x s = Some (Inl (n, s'))) \<or>
    (\<exists>x' s'. map_item mapf src dst acceptor tm x s = Some (Inr (x', s')) \<and> keeps_spaces s s' \<and>
       unat (x_src_idx x) < unat (x_src_idx x') \<and> unat (x_src_idx x') \<le> 65 \<and> unat (x_br_idx x') \<le> 66)"
proof -
  define s1 where "s1 = copy_mr dst src (x_src_idx x + 1) (copy_mr dst src (x_src_idx x) s)"
  define r where "r = mapf (get_space src s1) (get_mr src (x_src_idx x + 1) s) (get_snd_base (x_src_item x)) (get_space dst s1)
      (get_rcv_window acceptor) (is_grant_item (x_src_item x)) s1"
  have "unat (x_src_idx x + 2) = unat (x_src_idx x) + 2" using i by (simp add: small_add)
  moreover have "keeps_spaces s s2" if "r = Some s2" for s2
    using m that unfolding map_keeps_def r_def by (auto simp: keeps_spaces_def s1_def)
  ultimately show ?thesis using i
    by (cases r) (simp_all add: map_item_def Let_def s1_def [symmetric] r_def [symmetric])
qed

lemma string_item_other_space:
  assumes "get_space src s \<noteq> get_space dst s"
  shows "string_item copy src dst tm x s = None \<or> (\<exists>n s'. string_item copy src dst tm x s = Some (Inl (n, s')))"
proof -
  have "ipc_copy copy src sa dst da len s' = None" if "\<And>t. get_space t s' = get_space t s" for sa da len s'
    using assms that by (simp add: ipc_copy_def adjust_for_copy_area_def Let_def)
  then have "string_loop copy src dst tm x1 (copy_mr dst src i s) = None" for x1 i
    by (subst string_loop.simps) (simp add: string_round_def Let_def)
  then show ?thesis by (simp add: string_item_def Let_def)
qed

text \<open>One item, and the items that the loop comes to.\<close>

definition item_step ::
  "copier \<Rightarrow> mapper \<Rightarrow> tcbp \<Rightarrow> tcbp \<Rightarrow> acceptor_t \<Rightarrow> word_t \<Rightarrow> xfer_t \<Rightarrow> kstate \<Rightarrow> ((word_t \<times> kstate) + (xfer_t \<times> kstate)) option" where
  "item_step copy mapf src dst acceptor tm x s =
     (let item = get_mr src (x_src_idx x) s; x1 = x\<lparr>x_src_item := item\<rparr>
      in if is_map_item item \<or> is_grant_item item then map_item mapf src dst acceptor tm x1 s
         else if is_string_item item then string_item copy src dst tm x1 s
         else Some (Inl (x_total_len x, s)))"

lemma item_loop_step:
  "item_loop copy mapf src dst acceptor tm x s =
     (if x_src_idx x < tm
      then case item_step copy mapf src dst acceptor tm x s of None \<Rightarrow> None | Some (Inl e) \<Rightarrow> Some (Inl e)
           | Some (Inr (x2, s2)) \<Rightarrow> item_loop copy mapf src dst acceptor tm x2 s2
      else Some (Inr s))"
  by (subst item_loop.simps) (simp add: item_step_def Let_def)

inductive item_reach ::
  "copier \<Rightarrow> mapper \<Rightarrow> tcbp \<Rightarrow> tcbp \<Rightarrow> acceptor_t \<Rightarrow> word_t \<Rightarrow> xfer_t \<Rightarrow> kstate \<Rightarrow> xfer_t \<Rightarrow> kstate \<Rightarrow> bool"
  for copy mapf src dst acceptor tm where
  item_start: "item_reach copy mapf src dst acceptor tm x s x s"
| item_next: "x_src_idx x < tm \<Longrightarrow> item_step copy mapf src dst acceptor tm x s = Some (Inr (x1, s1)) \<Longrightarrow>
    item_reach copy mapf src dst acceptor tm x1 s1 x' s' \<Longrightarrow> item_reach copy mapf src dst acceptor tm x s x' s'"

text \<open>The items at which the transfer stops the kernel: a map or grant item whose mapping call does not return, and a
  string item that would have to be copied to another address space.\<close>

definition item_stuck :: "mapper \<Rightarrow> tcbp \<Rightarrow> tcbp \<Rightarrow> acceptor_t \<Rightarrow> word_t \<Rightarrow> xfer_t \<Rightarrow> kstate \<Rightarrow> bool" where
  "item_stuck mapf src dst acceptor tm x s \<longleftrightarrow>
     (let item = get_mr src (x_src_idx x) s
      in x_src_idx x < tm \<and>
        ((is_map_item item \<or> is_grant_item item) \<and> map_item mapf src dst acceptor tm (x\<lparr>x_src_item := item\<rparr>) s = None \<or>
         is_string_item item \<and> get_space src s \<noteq> get_space dst s))"

lemma item_step_progress:
  assumes c: "copy_returns copy" and m: "map_keeps mapf" and t: "x_src_idx x < tm"
    and lim: "unat tm \<le> 64" "unat (x_src_idx x) \<le> 65" "unat (x_br_idx x) \<le> 66"
  shows "item_step copy mapf src dst acceptor tm x s = None \<and> item_stuck mapf src dst acceptor tm x s \<or>
    (\<exists>n s'. item_step copy mapf src dst acceptor tm x s = Some (Inl (n, s'))) \<or>
    (\<exists>x' s'. item_step copy mapf src dst acceptor tm x s = Some (Inr (x', s')) \<and> keeps_spaces s s' \<and>
       unat (x_src_idx x) < unat (x_src_idx x') \<and> unat (x_src_idx x') \<le> 65 \<and> unat (x_br_idx x') \<le> 66)"
proof -
  define item where "item = get_mr src (x_src_idx x) s"
  define x1 where "x1 = x\<lparr>x_src_item := item\<rparr>"
  have x1: "unat (x_src_idx x1) < unat tm" "unat (x_br_idx x1) \<le> 66" "unat (x_src_idx x1) \<le> 65" "x_src_idx x1 = x_src_idx x"
    using t lim by (simp_all add: x1_def word_less_nat_alt)
  note defs = item_step_def item_stuck_def Let_def item_def [symmetric] x1_def [symmetric]
  show ?thesis
  proof (cases "is_map_item item \<or> is_grant_item item")
    case True
    then show ?thesis using map_item_returns [OF m x1(1) lim(1) x1(2), of src dst acceptor s] t x1(4)
      unfolding defs by auto
  next
    case False
    show ?thesis
    proof (cases "is_string_item item \<and> get_space src s \<noteq> get_space dst s")
      case True
      then show ?thesis using False string_item_other_space [of src s dst copy tm x1] t unfolding defs by auto
    next
      case same: False
      then show ?thesis using False string_item_returns [OF c _ lim(1) x1(3,2), of src s dst] x1(4)
        unfolding defs by auto
    qed
  qed
qed

lemma item_loop_ends:
  assumes c: "copy_returns copy" and m: "map_keeps mapf"
    and lim: "unat tm \<le> 64" "unat (x_src_idx x) \<le> 65" "unat (x_br_idx x) \<le> 66"
  shows "(\<exists>r. item_loop copy mapf src dst acceptor tm x s = Some r) \<or>
    item_loop copy mapf src dst acceptor tm x s = None \<and>
    (\<exists>x' s'. item_reach copy mapf src dst acceptor tm x s x' s' \<and> item_stuck mapf src dst acceptor tm x' s' \<and> keeps_spaces s s')"
  using lim(2,3)
proof (induction "66 - unat (x_src_idx x)" arbitrary: x s rule: less_induct)
  case less
  note e = item_loop_step [of copy mapf src dst acceptor tm x s]
  show ?case
  proof (cases "x_src_idx x < tm")
    case False
    then show ?thesis by (simp add: e)
  next
    case True
    from item_step_progress [OF c m True lim(1) less.prems, of src dst acceptor s]
    consider (stuck) "item_step copy mapf src dst acceptor tm x s = None" "item_stuck mapf src dst acceptor tm x s"
      | (over) n s' where "item_step copy mapf src dst acceptor tm x s = Some (Inl (n, s'))"
      | (more) x1 s1 where "item_step copy mapf src dst acceptor tm x s = Some (Inr (x1, s1))" "keeps_spaces s s1"
       "unat (x_src_idx x) < unat (x_src_idx x1)" "unat (x_src_idx x1) \<le> 65" "unat (x_br_idx x1) \<le> 66"
      by (elim disjE exE conjE) metis+
    then show ?thesis
    proof cases
      case stuck
      then show ?thesis using e True item_start by (fastforce simp: keeps_spaces_def)
    next
      case over
      then show ?thesis by (simp add: e True)
    next
      case more
      have "item_loop copy mapf src dst acceptor tm x s = item_loop copy mapf src dst acceptor tm x1 s1"
        by (simp add: e True more(1))
      moreover have "(\<exists>r. item_loop copy mapf src dst acceptor tm x1 s1 = Some r) \<or>
        item_loop copy mapf src dst acceptor tm x1 s1 = None \<and>
        (\<exists>x' s'. item_reach copy mapf src dst acceptor tm x1 s1 x' s' \<and> item_stuck mapf src dst acceptor tm x' s' \<and> keeps_spaces s1 s')"
        by (rule less.hyps) (use more less.prems in auto)
      moreover have "keeps_spaces s s'" if "keeps_spaces s1 s'" for s'
        using that more(2) by (simp add: keeps_spaces_def)
      ultimately show ?thesis using item_next [OF True more(1)] by metis
    qed
  qed
qed

section \<open>Properties\<close>

lemma message_overflow_errors:
  assumes "message_overflow src dst tag n s = (tag', s')"
  shows "tag' = set_error tag" "get_error_code src s' = IPC_SND_ERROR (ERR_IPC_MSG_OVERFLOW n)"
    "get_utcb dst s' \<noteq> get_utcb src s' \<Longrightarrow> get_error_code dst s' = IPC_RCV_ERROR (ERR_IPC_MSG_OVERFLOW n)"
  using assms by (auto simp: message_overflow_def get_error_code_def set_error_code_def upd_utcb_def get_utcb_def)

lemma untyped_bound: "unat (get_untyped tag) < 64"
  unfolding get_untyped_def bf_get_def by (simp add: unsigned_take_bit_eq take_bit_nat_less_exp [of 6, simplified])

text \<open>C12: the loops over items, substrings, compound strings and receive buffers of a message that fits the
  message registers terminate, if the memory copy returns and changes no thread's address space.  With
  \<^verbatim>\<open>map_fpage\<close> as the mapping operation, the transfer ends with the tag itself, or with the error bit
  and the overflow error, with the same number of bytes, in both threads; unless it comes to a map or grant
  item whose call of \<^verbatim>\<open>map_fpage\<close> does not return, or to a string item while sender and receiver are in
  different address spaces, for which this architecture has no implementation.\<close>

theorem extended_transfer_returns:
  assumes fits: "get_untyped tag + get_typed tag \<le> IPC_NUM_MR" and copy: "copy_returns copy"
  shows "(\<exists>tag' s'. extended_transfer copy (map_fpage bls mn) src dst tag s = Some (tag', s') \<and>
      (tag' = tag \<or> tag' = set_error tag \<and>
        (\<exists>n. get_error_code src s' = IPC_SND_ERROR (ERR_IPC_MSG_OVERFLOW n) \<and>
          (get_utcb dst s' \<noteq> get_utcb src s' \<longrightarrow> get_error_code dst s' = IPC_RCV_ERROR (ERR_IPC_MSG_OVERFLOW n))))) \<or>
    (\<exists>x s'. extended_transfer copy (map_fpage bls mn) src dst tag s = None \<and>
      item_reach copy (map_fpage bls mn) src dst (get_br dst 0 s) (get_untyped tag + get_typed tag)
        (initial_xfer tag (get_br dst 0 s)) (start_transfer src dst s) x s' \<and>
      item_stuck (map_fpage bls mn) src dst (get_br dst 0 s) (get_untyped tag + get_typed tag) x s')"
proof -
  let ?mapf = "map_fpage bls mn" and ?acc = "get_br dst 0 s" and ?tm = "get_untyped tag + get_typed tag"
  define s1 where "s1 = start_transfer src dst s"
  define x where "x = initial_xfer tag ?acc"
  have "unat ?tm \<le> 64" using fits by (simp add: IPC_NUM_MR_def word_le_nat_alt)
  moreover have "unat (x_src_idx x) \<le> 65" "unat (x_br_idx x) \<le> 66"
    using untyped_bound [of tag] by (simp_all add: x_def initial_xfer_def small_add)
  ultimately consider (stuck) x' s' where "item_loop copy ?mapf src dst ?acc ?tm x s1 = None"
      "item_reach copy ?mapf src dst ?acc ?tm x s1 x' s'" "item_stuck ?mapf src dst ?acc ?tm x' s'"
    | (ends) r where "item_loop copy ?mapf src dst ?acc ?tm x s1 = Some r"
    using item_loop_ends [OF copy map_fpage_keeps] by blast
  moreover have e: "extended_transfer copy ?mapf src dst tag s =
    (case item_loop copy ?mapf src dst ?acc ?tm x s1 of None \<Rightarrow> None
         | Some (Inl (n, s3)) \<Rightarrow> Some (message_overflow src dst tag n s3)
         | Some (Inr s3) \<Rightarrow> Some (tag, sub_flag src has_xfer_timeout (cancel_timeout src (release_copy_area src s3))))"
    using fits unfolding extended_transfer_def Let_def s1_def x_def
    by (simp add: leD split: option.split)
  ultimately show ?thesis
  proof cases
    case stuck
    then show ?thesis using e unfolding s1_def x_def by auto
  next
    case r: (ends r)
    show ?thesis
    proof (cases r)
      case (Inr s3)
      then show ?thesis using r by (simp add: e)
    next
      case (Inl p)
      obtain n s3 where p: "p = (n, s3)" by (cases p)
      obtain tag' s' where o: "message_overflow src dst tag n s3 = (tag', s')" by (metis surj_pair)
      show ?thesis using message_overflow_errors [OF o] by (auto simp: e r Inl p o)
    qed
  qed
qed

text \<open>A string item to a receiver in the same address space that accepts none.\<close>

theorem extended_transfer_returns_witness:
  "\<exists>tag' s'. extended_transfer (\<lambda>_ _ _ s. Some s) (map_fpage 0x40000 0) (Tcb 1) (Tcb 2) 0x81 blank_state = Some (tag', s') \<and>
    (tag' = 0x81 \<or> tag' = set_error 0x81 \<and>
      (\<exists>n. get_error_code (Tcb 1) s' = IPC_SND_ERROR (ERR_IPC_MSG_OVERFLOW n)))"
proof -
  let ?copy = "\<lambda>_ _ _ s. Some s" and ?mapf = "map_fpage 0x40000 0" and ?s = "start_transfer (Tcb 1) (Tcb 2) blank_state"
  let ?tm = "get_untyped 0x81 + get_typed 0x81" and ?x = "initial_xfer 0x81 (get_br (Tcb 2) 0 blank_state)"
  have fits: "?tm \<le> IPC_NUM_MR" by code_simp
  have copy: "copy_returns ?copy" by (simp add: copy_returns_def keeps_spaces_def)
  have z: "get_mr t i ?s = 0" "get_br t i blank_state = 0" "get_space t ?s = 0" for t i
    by (simp_all only: start_transfer_sel)
      (simp_all add: get_mr_def get_br_def get_space_def blank_state_def blank_utcb_def blank_tcb_def)
  have k: "\<not> is_map_item 0" "\<not> is_grant_item 0" "\<not> accept_strings 0" by code_simp+
  have step: "item_step ?copy ?mapf (Tcb 1) (Tcb 2) (get_br (Tcb 2) 0 blank_state) ?tm ?x ?s \<noteq> Some (Inr p)" for p
    using k z by (simp add: item_step_def string_item_def initial_xfer_def Let_def)
  have "\<not> item_stuck ?mapf (Tcb 1) (Tcb 2) a ?tm ?x ?s" for a using k z by (simp add: item_stuck_def)
  moreover have "x = ?x \<and> s' = ?s" if "item_reach ?copy ?mapf (Tcb 1) (Tcb 2) (get_br (Tcb 2) 0 blank_state) ?tm ?x ?s x s'" for x s'
    using that step by (cases rule: item_reach.cases) auto
  ultimately show ?thesis
    using extended_transfer_returns [OF fits copy, of "0x40000" 0 "Tcb 1" "Tcb 2" blank_state] by blast
qed

lemma skip_simple_buffer:
  assumes "\<not> is_string_compound (x_dst_item x)"
  shows "\<exists>x'. skip_buffer dst x s = Some x' \<and> x_src_idx x' = x_src_idx x"
  using assms by (subst skip_buffer.simps) (simp add: Let_def)

lemma ipc_copy_unclipped:
  assumes "get_space src s = get_space dst s" "get_copy_limit sa len = len" "get_copy_limit da len = len"
  shows "ipc_copy copy src sa dst da len s =
    map_option (\<lambda>s2. (len, set_misc src misc_copy_length (get_misc src misc_copy_length s2 + len) s2))
      (copy da sa len (set_misc src misc_copy_start_dst da (set_misc src misc_copy_start_src sa (set_misc src misc_copy_fault sa s))))"
  using assms by (simp add: ipc_copy_def Let_def split: option.split bind_split)

text \<open>The round that copies a simple string to a simple buffer is the only one.\<close>

lemma string_loop_none:
  assumes "x_src_len x \<le> x_dst_len x"
    and "ipc_copy copy src (x_src_addr x) dst (x_dst_addr x) (x_src_len x) (copy_mr dst src (x_src_idx x + x_src_ptridx x) s) = None"
  shows "string_loop copy src dst tm x s = None"
  using assms by (subst string_loop.simps) (simp add: string_round_def leD)

lemma string_loop_once:
  assumes "x_src_len x \<le> x_dst_len x" "\<not> is_string_compound (x_src_item x)"
    "x_src_ptridx x = get_string_ptr_count (x_src_item x)" "\<not> is_string_compound (x_dst_item x)"
    and "ipc_copy copy src (x_src_addr x) dst (x_dst_addr x) (x_src_len x) (copy_mr dst src (x_src_idx x + x_src_ptridx x) s) =
      Some (x_src_len x, s2)"
  shows "\<exists>x'. x_src_idx x' = x_src_idx x + (x_src_ptridx x + 1) \<and> string_loop copy src dst tm x s = Some (Inr (x', s2))"
proof -
  define x1 where "x1 = x\<lparr>x_total_len := x_total_len x + x_src_len x, x_src_len := 0, x_dst_len := x_dst_len x - x_src_len x,
    x_src_addr := x_src_addr x + x_src_len x, x_dst_addr := x_dst_addr x + x_src_len x\<rparr>"
  define x2 where "x2 = x1\<lparr>x_src_idx := x_src_idx x + (x_src_ptridx x + 1)\<rparr>"
  have z: "x_src_len x1 = 0" by (simp add: x1_def)
  have n: "next_send_part src tm x1 s2 = Some (True, x2)" using assms by (simp add: next_send_part_def x1_def x2_def)
  obtain x3 where x3: "skip_buffer dst x2 s2 = Some x3" "x_src_idx x3 = x_src_idx x2"
    using skip_simple_buffer [of x2 dst s2] assms(4) by (auto simp: x1_def x2_def)
  have "string_round copy src dst tm x s = Some (Inr (True, x3, s2))"
    using assms(1,5) n x3(1) z by (simp add: string_round_def leD x1_def [symmetric])
  then show ?thesis using x3(2) by (subst string_loop.simps) (simp add: x2_def)
qed

text \<open>A message with a single typed item of two words.\<close>

definition transfer_item :: "copier \<Rightarrow> mapper \<Rightarrow> tcbp \<Rightarrow> tcbp \<Rightarrow> msg_tag_t \<Rightarrow> kstate \<Rightarrow> ((word_t \<times> kstate) + (xfer_t \<times> kstate)) option" where
  "transfer_item copy mapf src dst tag s =
     (let acc = get_br dst 0 s; tm = get_untyped tag + 2; item = get_mr src (get_untyped tag + 1) s;
          x = (initial_xfer tag acc)\<lparr>x_src_item := item\<rparr>
      in if is_map_item item \<or> is_grant_item item then map_item mapf src dst acc tm x (start_transfer src dst s)
         else if is_string_item item then string_item copy src dst tm x (start_transfer src dst s)
         else Some (Inl (0, start_transfer src dst s)))"

lemma item_index:
  assumes "unat (u :: word_t) \<le> 62"
  shows "u + 1 < u + 2" "\<not> u + 3 < u + 2" "u + 2 \<le> IPC_NUM_MR" "u + 1 \<noteq> u + 2" "u + 1 + 1 = u + 2" "u + 1 + 2 = u + 3"
  using assms by (simp_all add: word_less_nat_alt word_le_nat_alt small_add IPC_NUM_MR_def)

lemma extended_transfer_item:
  assumes tag: "get_typed tag = 2" "unat (get_untyped tag) \<le> 62"
    and step: "\<And>x' s'. transfer_item copy mapf src dst tag s = Some (Inr (x', s')) \<Longrightarrow> x_src_idx x' = get_untyped tag + 3"
  shows "extended_transfer copy mapf src dst tag s =
    (case transfer_item copy mapf src dst tag s of None \<Rightarrow> None
     | Some (Inl (n, s')) \<Rightarrow> Some (message_overflow src dst tag n s')
     | Some (Inr (x', s')) \<Rightarrow> Some (tag, sub_flag src has_xfer_timeout (cancel_timeout src s')))"
proof -
  note idx = item_index [OF tag(2)]
  define s1 where "s1 = start_transfer src dst s"
  have i: "x_src_idx (initial_xfer tag a) = get_untyped tag + 1" "x_total_len (initial_xfer tag a) = 0" for a
    by (simp_all add: initial_xfer_def)
  have il: "item_loop copy mapf src dst (get_br dst 0 s1) (get_untyped tag + 2) (initial_xfer tag (get_br dst 0 s1)) s1 =
    (case transfer_item copy mapf src dst tag s of None \<Rightarrow> None | Some (Inl e) \<Rightarrow> Some (Inl e)
     | Some (Inr (x2, s2)) \<Rightarrow> item_loop copy mapf src dst (get_br dst 0 s1) (get_untyped tag + 2) x2 s2)"
    using idx(1) by (subst item_loop.simps) (simp add: i transfer_item_def Let_def s1_def)
  have "item_loop copy mapf src dst (get_br dst 0 s1) (get_untyped tag + 2) x2 s2 = Some (Inr s2)"
    if "x_src_idx x2 = get_untyped tag + 3" for x2 s2
    using that idx(2) by (subst item_loop.simps) simp
  then show ?thesis using il idx(3) step tag(1) unfolding extended_transfer_def Let_def s1_def [symmetric]
    by (auto simp: leD release_copy_area_def split: option.split sum.split)
qed

text \<open>C26: a message of one simple string item, sent within a space to a receiver whose first buffer is a
  simple string item at least as long, and which accepts strings, the string and the buffer lying within the copy limits
  of their areas, is transferred without an error by exactly one memory copy: from the
  sender's string to the receiver's buffer, of the length of the string, after the two message registers of the
  item have been copied.\<close>

theorem extended_transfer_copies_string:
  fixes u :: word_t
  assumes tag: "get_untyped tag = u" "get_typed tag = 2" "unat u \<le> 62"
    and same: "get_space src s = get_space dst s" and utcbs: "get_utcb src s \<noteq> get_utcb dst s"
    and item: "get_mr src (u + 1) s = item" "is_string_item item" "\<not> is_string_compound item"
      "get_string_ptr_count item = 1" "get_string_length item = len" "get_mr src (u + 2) s = sa"
    and accepts: "accept_strings (get_br dst 0 s)"
    and buf: "get_br dst 1 s = bufi" "is_string_item bufi" "\<not> is_string_compound bufi"
      "get_string_ptr_count bufi = 1" "len \<le> get_string_length bufi" "get_br dst 2 s = da"
    and limits: "get_copy_limit sa len = len" "get_copy_limit da len = len"
  shows "\<exists>s1. get_mr dst (u + 1) s1 = item \<and> get_mr dst (u + 2) s1 = sa \<and> get_state dst s1 = locked_waiting \<and>
    extended_transfer copy mapf src dst tag s =
      map_option (\<lambda>s2. (tag, sub_flag src has_xfer_timeout (cancel_timeout src
        (set_misc src misc_copy_length (get_misc src misc_copy_length s2 + len) s2)))) (copy da sa len s1)"
proof -
  let ?s1 = "copy_mr dst src (u + 1) (start_transfer src dst s)"
  define s4 where "s4 = copy_mr dst src (u + 2) ?s1"
  define s1 where "s1 = set_misc src misc_copy_start_dst da (set_misc src misc_copy_start_src sa (set_misc src misc_copy_fault sa s4))"
  define fin where "fin s2 = set_misc src misc_copy_length (get_misc src misc_copy_length s2 + len) s2" for s2
  define x where "x = \<lparr>x_src_idx = u + 1, x_br_idx = 1, x_total_len = 0, x_accept_strings = more_strings bufi,
    x_src_item = item, x_src_addr = sa, x_src_len = len, x_src_ptridx = 1, x_dst_item = bufi, x_dst_addr = da,
    x_dst_len = get_string_length bufi, x_dst_ptridx = 1\<rparr>"
  have ne: "src \<noteq> dst" using utcbs by auto
  note idx = item_index [OF tag(3)]
  have xf: "x_src_len x \<le> x_dst_len x" "\<not> is_string_compound (x_src_item x)" "x_src_ptridx x = get_string_ptr_count (x_src_item x)"
    "\<not> is_string_compound (x_dst_item x)" "x_src_idx x + x_src_ptridx x = u + 2" using item buf by (simp_all add: x_def)
  have sp: "get_space src s4 = get_space dst s4" using same by (simp add: s4_def)
  have cp: "ipc_copy copy src (x_src_addr x) dst (x_dst_addr x) (x_src_len x) (copy_mr dst src (x_src_idx x + x_src_ptridx x) ?s1) =
    map_option (\<lambda>s5. (x_src_len x, fin s5)) (copy da sa len s1)"
    using ipc_copy_unclipped [OF sp limits, of copy] unfolding xf(5) by (simp add: x_def s4_def s1_def fin_def)
  have nm: "\<not> is_map_item item" "\<not> is_grant_item item"
    using item(2) by (auto simp: is_map_item_def is_grant_item_def is_string_item_def)
  have rd: "get_br dst 1 ?s1 = bufi" "get_br dst 2 ?s1 = da" "get_mr src (u + 2) ?s1 = sa"
    using buf item utcbs by (simp_all add: get_mr_copy_mr)
  have ti: "transfer_item copy mapf src dst tag s = string_loop copy src dst (u + 2) x ?s1"
    using idx(5) item buf(2,4) rd accepts nm
    by (simp add: transfer_item_def string_item_def initial_xfer_def Let_def tag(1) x_def IPC_NUM_BR_def add.commute [of 2 u])
  have "transfer_item copy mapf src dst tag s = None \<and> copy da sa len s1 = None \<or>
    (\<exists>x' s5. transfer_item copy mapf src dst tag s = Some (Inr (x', fin s5)) \<and> copy da sa len s1 = Some s5 \<and> x_src_idx x' = u + 3)"
  proof (cases "copy da sa len s1")
    case None
    then show ?thesis using string_loop_none [OF xf(1), of copy src dst ?s1] cp by (simp add: ti)
  next
    case (Some s5)
    then show ?thesis using string_loop_once [OF xf(1-4), of copy src dst ?s1 "fin s5" "u + 2"] cp
      by (auto simp: ti x_def add.commute [of 3 u])
  qed
  then have "extended_transfer copy mapf src dst tag s =
      map_option (\<lambda>s5. (tag, sub_flag src has_xfer_timeout (cancel_timeout src (fin s5)))) (copy da sa len s1)"
    using extended_transfer_item [of tag copy mapf src dst s] tag by auto
  moreover have "get_mr dst (u + 1) s1 = item \<and> get_mr dst (u + 2) s1 = sa"
    using utcbs item by (simp add: s1_def s4_def get_mr_copy_mr)
  moreover have "get_state dst s1 = locked_waiting"
    using ne by (simp add: s1_def s4_def start_transfer_def Let_def get_state_def set_misc_def copy_mr_def set_mr_def set_partner_def set_state_def)
  ultimately show ?thesis unfolding fin_def by blast
qed

text \<open>A sender with one string of 16 bytes at 0x1000 and a receiver with a buffer of 32 bytes at 0x2000.\<close>

definition string_pair :: kstate where
  "string_pair = blank_state\<lparr>
     tcbs := (tcbs blank_state)(Tcb 1 := blank_tcb\<lparr>t_utcb := Utcb 1\<rparr>, Tcb 2 := blank_tcb\<lparr>t_utcb := Utcb 2\<rparr>),
     utcbs := (utcbs blank_state)(Utcb 1 := blank_utcb\<lparr>u_mr := (\<lambda>_. 0)(1 := 0x4000, 2 := 0x1000)\<rparr>,
       Utcb 2 := blank_utcb\<lparr>u_br := (\<lambda>_. 0)(0 := 1, 1 := 0x8000, 2 := 0x2000)\<rparr>)\<rparr>"

theorem extended_transfer_copies_string_witness:
  "\<exists>s1. get_mr (Tcb 2) 1 s1 = 0x4000 \<and> get_mr (Tcb 2) 2 s1 = 0x1000 \<and> get_state (Tcb 2) s1 = locked_waiting \<and>
    extended_transfer (\<lambda>_ _ _ s. Some s) (\<lambda>_ _ _ _ _ _ s. Some s) (Tcb 1) (Tcb 2) 0x80 string_pair =
      Some (0x80, sub_flag (Tcb 1) has_xfer_timeout (cancel_timeout (Tcb 1)
        (set_misc (Tcb 1) misc_copy_length (get_misc (Tcb 1) misc_copy_length s1 + 16) s1)))"
proof -
  have i: "is_string_item 0x4000" "\<not> is_string_compound 0x4000" "get_string_ptr_count 0x4000 = 1" "get_string_length 0x4000 = 16"
    "is_string_item 0x8000" "\<not> is_string_compound 0x8000" "get_string_ptr_count 0x8000 = 1" "16 \<le> get_string_length 0x8000"
    "get_untyped 0x80 = 0" "get_typed 0x80 = 2" "accept_strings 1" "get_copy_limit 0x1000 16 = 16" "get_copy_limit 0x2000 16 = 16"
    by code_simp+
  show ?thesis
    using extended_transfer_copies_string [where tag = "0x80" and u = 0 and src = "Tcb 1" and dst = "Tcb 2" and s = string_pair
        and item = "0x4000" and len = 16 and sa = "0x1000" and bufi = "0x8000" and da = "0x2000" 
        and copy = "\<lambda>_ _ _ s. Some s" and mapf = "\<lambda>_ _ _ _ _ _ s. Some s"] i
    by (simp add: string_pair_def get_space_def get_utcb_def get_mr_def get_br_def)
qed

text \<open>A message with a single map or grant item is one call of the mapping operation.\<close>

lemma extended_transfer_map_item:
  assumes tag: "get_typed tag = 2" "unat (get_untyped tag) \<le> 62" and utcbs: "get_utcb src s \<noteq> get_utcb dst s"
    and item: "get_mr src (get_untyped tag + 1) s = item" "is_map_item item \<or> is_grant_item item"
    and fp: "get_mr src (get_untyped tag + 2) s = fp" and rcv: "get_rcv_window (get_br dst 0 s) = rcv" "rcv \<noteq> 0"
  shows "\<exists>s1. kmem s1 = kmem s \<and> sigma0_space s1 = sigma0_space s \<and> get_mr dst (get_untyped tag + 1) s1 = item \<and>
    get_mr dst (get_untyped tag + 2) s1 = fp \<and>
    extended_transfer copy mapf src dst tag s =
      map_option (\<lambda>s2. (tag, sub_flag src has_xfer_timeout (cancel_timeout src s2)))
        (mapf (get_space src s) fp (get_snd_base item) (get_space dst s) rcv (is_grant_item item) s1)"
proof -
  let ?u = "get_untyped tag"
  define s1 where "s1 = copy_mr dst src (?u + 2) (copy_mr dst src (?u + 1) (start_transfer src dst s))"
  note idx = item_index [OF tag(2)]
  have "transfer_item copy mapf src dst tag s =
    map_option (\<lambda>s2. Inr ((initial_xfer tag (get_br dst 0 s))\<lparr>x_src_item := item, x_src_idx := ?u + 3\<rparr>, s2))
      (mapf (get_space src s) fp (get_snd_base item) (get_space dst s) rcv (is_grant_item item) s1)"
    using idx(5) item fp rcv
    by (simp add: transfer_item_def map_item_def initial_xfer_def Let_def s1_def is_nil_fpage_def add.commute [of 2 ?u] add.commute [of 3 ?u])
  then have "extended_transfer copy mapf src dst tag s =
      map_option (\<lambda>s2. (tag, sub_flag src has_xfer_timeout (cancel_timeout src s2)))
        (mapf (get_space src s) fp (get_snd_base item) (get_space dst s) rcv (is_grant_item item) s1)"
    using extended_transfer_item [OF tag, of copy mapf src dst s]
    by (cases "mapf (get_space src s) fp (get_snd_base item) (get_space dst s) rcv (is_grant_item item) s1") auto
  moreover have "get_mr dst (?u + 1) s1 = item \<and> get_mr dst (?u + 2) s1 = fp"
    using utcbs item fp by (simp add: s1_def get_mr_copy_mr)
  ultimately show ?thesis by (intro exI [of _ s1]) (simp add: s1_def)
qed

end
