(* ===== verification/Memory_Control.thy ===== *)
theory Memory_Control
  imports Page_Transfer
begin

text \<open>
  The system call MemoryControl (\<^verbatim>\<open>glue/v4-mips64/memcontrol.cc\<close>): a privileged thread changes the cache
  attributes of the pages of its own address space.  The flushes of the processor caches change nothing
  of the modelled state.
\<close>

section \<open>Attributes\<close>

text \<open>The cast to \<^verbatim>\<open>attribute_e\<close> keeps the low 32 bits.  \<^term>\<open>Some (Some a)\<close> is a memory attribute to set,
  \<^term>\<open>Some None\<close> a cache flush and \<^term>\<open>None\<close> an invalid attribute.\<close>

definition new_attrib :: "word_t \<Rightarrow> word_t option option" where
  "new_attrib attrib =
     (if attrib = 0 then Some (Some memattrib_l4default)
      else if attrib = 1 then Some (Some 2)
      else if attrib = 2 then Some (Some 3)
      else if attrib = 3 then Some (Some 1)
      else if attrib = 4 then Some (Some 0)
      else if attrib = 30 \<or> attrib = 31 then Some None
      else None)"

definition set_attrib :: "pgent_p \<Rightarrow> word_t \<Rightarrow> memory \<Rightarrow> memory" where
  "set_attrib pg a m = set_raw pg (tr_set_attrib a (pg_raw m pg)) m"

section \<open>One flexpage\<close>

lemma subtree_size: "pg_is_subtree pg sz m \<Longrightarrow> 0 < sz"
  by (cases sz) (auto simp: pg_is_subtree_def is_table_size_def)

text \<open>The walk over the page table; the result 1 is an error.  The stack that the code fills when it enters a
  subtree is never read, so it is left out.\<close>

function attrib_walk ::
  "tcbp \<Rightarrow> spacep \<Rightarrow> nat \<Rightarrow> word_t \<Rightarrow> nat \<Rightarrow> pgent_p \<Rightarrow> addr_t \<Rightarrow> word_t \<Rightarrow> kstate \<Rightarrow> (word_t \<times> kstate) option" where
  "attrib_walk t space pgsize attrib sz pg vaddr num s =
     (if num = 0 \<or> \<not> is_user_area vaddr then Some (0, s)
      else if sz > pgsize \<and> \<not> pg_is_valid pg sz (kmem s) then Some (0, s)
      else if sz > pgsize \<and> pg_is_subtree pg sz (kmem s)
      then attrib_walk t space pgsize attrib (sz - 1)
             (pg_next (pg_subtree pg sz (kmem s)) (sz - 1) (page_table_index (sz - 1) vaddr)) vaddr num s
      else if sz > pgsize then Some (1, set_error_code t 9 s)
      else if \<not> pg_is_valid pg sz (kmem s)
      then attrib_walk t space pgsize attrib sz (pg_next pg sz 1) (addr_offset vaddr (page_size sz)) (num - 1) s
      else if pg_is_subtree pg sz (kmem s)
      then attrib_walk t space pgsize attrib (sz - 1) (pg_subtree pg sz (kmem s)) vaddr (page_table_size (sz - 1)) s
      else (case (if is_mappable_addr space vaddr s
                  then case new_attrib attrib of
                         None \<Rightarrow> Some (Inl (set_error_code t EINVALID_PARAM s))
                       | Some None \<Rightarrow> Some (Inr s)
                       | Some (Some a) \<Rightarrow> map_option (\<lambda>s1. Inr (ks_mem (set_attrib pg a) s1)) (ks_flush_tlbent space s)
                  else Some (Inr s)) of
              None \<Rightarrow> None
            | Some (Inl s1) \<Rightarrow> Some (1, s1)
            | Some (Inr s1) \<Rightarrow>
                attrib_walk t space pgsize attrib sz (pg_next pg sz 1) (addr_offset vaddr (page_size sz)) (num - 1) s1))"
  by pat_completeness auto
termination
  by (relation "measures [\<lambda>(_, _, _, _, sz, _). sz, \<lambda>(_, _, _, _, _, _, _, num, _). unat num]")
    (auto dest: subtree_size simp: unat_gt_0 unat_minus_one)

declare attrib_walk.simps [simp del]

definition attrib_fpage :: "tcbp \<Rightarrow> fpage_t \<Rightarrow> word_t \<Rightarrow> kstate \<Rightarrow> (word_t \<times> kstate) option" where
  "attrib_fpage t fpage attrib s =
     (let space = get_space t s;
          num0 = fpage_get_size_log2 fpage;
          vaddr = fp_address fpage num0
      in if num0 < of_nat (hw_pgshifts 0) then Some (1, set_error_code t 9 s)
         else let num = (if num0 > of_nat (hw_pgshifts (size_max + 1)) then of_nat (hw_pgshifts (size_max + 1)) else num0);
                  pgsize = fit_pgsize num size_max
              in attrib_walk t space pgsize attrib size_max (space_pgent space (page_table_index size_max vaddr)) vaddr
                   (shl 1 (num - of_nat (hw_pgshifts pgsize))) s)"

section \<open>The system call\<close>

definition select_attribute :: "fpage_t \<Rightarrow> word_t \<Rightarrow> word_t \<Rightarrow> word_t \<Rightarrow> word_t \<Rightarrow> word_t" where
  "select_attribute fpage a0 a1 a2 a3 =
     (if fpage AND 3 = 0 then a0 else if fpage AND 3 = 1 then a1 else if fpage AND 3 = 2 then a2 else a3)"

definition memory_control_item ::
  "word_t \<Rightarrow> word_t \<Rightarrow> word_t \<Rightarrow> word_t \<Rightarrow> word_t \<Rightarrow> kstate \<Rightarrow> (bool \<times> kstate) option" where
  "memory_control_item a0 a1 a2 a3 i s =
     (let t = get_current_tcb s;
          space = get_space t s;
          fpage = get_mr t i s;
          att = take_bit 32 (select_attribute fpage a0 a1 a2 a3);
          addr = fp_address fpage (fpage_get_size_log2 fpage)
      in if is_nil_fpage fpage then Some (True, s)
         else if lookup_mapping space addr (kmem s) = None \<and> \<not> is_sigma0_space space s
         then Some (False, set_error_code t ENO_PRIVILEGE s)
         else do {
           s1 \<leftarrow> (if lookup_mapping space addr (kmem s) = None then map_sigma0 space addr s else Some s);
           (r, s2) \<leftarrow> attrib_fpage t fpage att s1;
           Some (r = 0, s2)
         })"

fun memory_control_loop ::
  "word_t \<Rightarrow> word_t \<Rightarrow> word_t \<Rightarrow> word_t \<Rightarrow> nat \<Rightarrow> nat \<Rightarrow> kstate \<Rightarrow> (word_t \<times> kstate) option" where
  "memory_control_loop a0 a1 a2 a3 0 i s = Some (1, s)"
| "memory_control_loop a0 a1 a2 a3 (Suc n) i s =
     (case memory_control_item a0 a1 a2 a3 (of_nat i) s of
        None \<Rightarrow> None
      | Some (ok, s1) \<Rightarrow> if ok then memory_control_loop a0 a1 a2 a3 n (Suc i) s1 else Some (0, s1))"

definition sys_memory_control ::
  "word_t \<Rightarrow> word_t \<Rightarrow> word_t \<Rightarrow> word_t \<Rightarrow> word_t \<Rightarrow> kstate \<Rightarrow> (word_t \<times> kstate) option" where
  "sys_memory_control control a0 a1 a2 a3 s =
     (let t = get_current_tcb s in
      if \<not> is_privileged_space (get_current_space s) s then Some (0, set_error_code t ENO_PRIVILEGE s)
      else if control = - 2 then Some (1, s)
      else if control \<ge> 64 then Some (0, set_error_code t EINVALID_PARAM s)
      else memory_control_loop a0 a1 a2 a3 (Suc (unat control)) 0 s)"

section \<open>Only attributes change\<close>

text \<open>All words of kernel memory agree but for the attribute bits 3 to 5, and the threads stay in their spaces.\<close>

definition only_attributes :: "kstate \<Rightarrow> kstate \<Rightarrow> bool" where
  "only_attributes s s' \<longleftrightarrow> (\<forall>a. mem (kmem s') a AND NOT 0x38 = mem (kmem s) a AND NOT 0x38) \<and>
     tcbs s' = tcbs s \<and> current_tcb s' = current_tcb s \<and> sigma0_space s' = sigma0_space s"

lemma only_attributes_refl [simp]: "only_attributes s s"
  by (simp add: only_attributes_def)

lemma only_attributes_trans [trans]: "only_attributes s s1 \<Longrightarrow> only_attributes s1 s2 \<Longrightarrow> only_attributes s s2"
  by (simp add: only_attributes_def)

lemma only_attributes_error [simp]: "only_attributes s (set_error_code t e s)"
  by (simp add: only_attributes_def set_error_code_def)

lemma set_attrib_only: "only_attributes s (ks_mem (set_attrib pg a) s)"
proof -
  have m: "push_bit 3 (mask 3) = (0x38 :: word_t)" by (simp add: mask_eq_exp_minus_1 push_bit_of_1 push_bit_eq_mult)
  have "bf_set 3 3 a w AND NOT 0x38 = w AND NOT 0x38" for w :: word_t
    unfolding bf_set_def m [symmetric] by (rule bit_eqI) (auto simp: bit_simps)
  then show ?thesis by (simp add: only_attributes_def ks_mem_def set_attrib_def set_raw_def pg_raw_def tr_set_attrib_def)
qed

lemma high_half:
  fixes v w :: word_t
  assumes "v AND NOT 0x38 = w AND NOT 0x38"
  shows "drop_bit 32 v = drop_bit 32 w"
proof -
  have "drop_bit 32 (v AND NOT 0x38) = drop_bit 32 v" for v :: word_t
  proof -
    have "drop_bit 32 (NOT 0x38 :: word_t) = mask 32" by (simp add: mask_eq_exp_minus_1)
    then have "drop_bit 32 (v AND NOT 0x38) = drop_bit 32 v AND mask 32" by (simp add: drop_bit_and)
    also have "\<dots> = drop_bit 32 v" by (rule bit_eqI) (auto simp: bit_simps dest: bit_imp_le_length)
    finally show ?thesis .
  qed
  then show ?thesis using assms by metis
qed

lemma only_attributes_asid:
  assumes "only_attributes s s'"
  shows "asid_is_valid a (kmem s') \<longleftrightarrow> asid_is_valid a (kmem s)"
  using assms high_half [of "mem (kmem s') a" "mem (kmem s) a"] by (simp add: only_attributes_def asid_is_valid_def asid_value_def)

lemma ks_flush_tlbent_valid:
  assumes "asid_is_valid (space + asid_offset) (kmem s)"
  shows "ks_flush_tlbent space s = Some s"
  using assms by (simp add: ks_flush_tlbent_def flush_tlbent_def asid_get_def asid_reference_def move_asid_def Let_def upd_kmem_def)

lemma attrib_walk_safe:
  assumes "asid_is_valid (space + asid_offset) (kmem s)"
  shows "\<exists>r s'. attrib_walk t space pgsize attrib sz pg vaddr num s = Some (r, s') \<and> only_attributes s s'"
  using assms
proof (induction t space pgsize attrib sz pg vaddr num s rule: attrib_walk.induct)
  case (1 t space pgsize attrib sz pg vaddr num s)
  let ?go = "attrib_walk t space pgsize attrib sz (pg_next pg sz 1) (addr_offset vaddr (page_size sz)) (num - 1)"
  consider (stop) "num = 0 \<or> \<not> is_user_area vaddr \<or> sz > pgsize \<and> \<not> pg_is_valid pg sz (kmem s)"
    | (down) "num \<noteq> 0" "is_user_area vaddr" "sz > pgsize" "pg_is_valid pg sz (kmem s)" "pg_is_subtree pg sz (kmem s)"
    | (large) "num \<noteq> 0" "is_user_area vaddr" "sz > pgsize" "pg_is_valid pg sz (kmem s)" "\<not> pg_is_subtree pg sz (kmem s)"
    | (skip) "num \<noteq> 0" "is_user_area vaddr" "\<not> sz > pgsize" "\<not> pg_is_valid pg sz (kmem s)"
    | (sub) "num \<noteq> 0" "is_user_area vaddr" "\<not> sz > pgsize" "pg_is_valid pg sz (kmem s)" "pg_is_subtree pg sz (kmem s)"
    | (page) "num \<noteq> 0" "is_user_area vaddr" "\<not> sz > pgsize" "pg_is_valid pg sz (kmem s)" "\<not> pg_is_subtree pg sz (kmem s)"
    by blast
  then show ?case
  proof cases
    case stop
    then show ?thesis by (subst attrib_walk.simps) auto
  next
    case down
    then show ?thesis using "1.IH"(1) "1.prems" by (subst attrib_walk.simps) simp
  next
    case large
    then show ?thesis by (subst attrib_walk.simps) simp
  next
    case skip
    then show ?thesis using "1.IH"(2) "1.prems" by (subst attrib_walk.simps) simp
  next
    case sub
    then show ?thesis using "1.IH"(3) "1.prems" by (subst attrib_walk.simps) simp
  next
    case page
    define st where "st = (if is_mappable_addr space vaddr s
                  then case new_attrib attrib of
                         None \<Rightarrow> Some (Inl (set_error_code t EINVALID_PARAM s))
                       | Some None \<Rightarrow> Some (Inr s)
                       | Some (Some a) \<Rightarrow> map_option (\<lambda>s1. Inr (ks_mem (set_attrib pg a) s1)) (ks_flush_tlbent space s)
                  else Some (Inr s))"
    have e: "attrib_walk t space pgsize attrib sz pg vaddr num s =
      (case st of None \<Rightarrow> None | Some (Inl s1) \<Rightarrow> Some (1, s1) | Some (Inr s1) \<Rightarrow> ?go s1)"
      using page unfolding st_def by (subst attrib_walk.simps) simp
    have "(\<exists>s1. st = Some (Inl s1) \<and> only_attributes s s1) \<or> (\<exists>s1. st = Some (Inr s1) \<and> only_attributes s s1)"
      using "1.prems" by (auto simp: st_def ks_flush_tlbent_valid set_attrib_only split: option.split)
    then consider (err) s1 where "st = Some (Inl s1)" "only_attributes s s1" | (ok) s1 where "st = Some (Inr s1)" "only_attributes s s1"
      by blast
    then show ?thesis
    proof cases
      case err
      then show ?thesis by (simp add: e)
    next
      case ok
      have "asid_is_valid (space + asid_offset) (kmem s1)" using only_attributes_asid [OF ok(2)] "1.prems" by simp
      then have "\<exists>r s'. ?go s1 = Some (r, s') \<and> only_attributes s1 s'"
        using "1.IH"(4) [OF _ _ _ _ _ _ ok(1) [unfolded st_def] refl] page by simp
      then show ?thesis using ok by (auto simp: e intro: only_attributes_trans)
    qed
  qed
qed

lemma attrib_fpage_safe:
  assumes "asid_is_valid (get_space t s + asid_offset) (kmem s)"
  shows "\<exists>r s'. attrib_fpage t fpage attrib s = Some (r, s') \<and> only_attributes s s'"
  using attrib_walk_safe [OF assms] by (simp add: attrib_fpage_def Let_def)

lemma memory_control_item_safe:
  assumes sp: "get_space (get_current_tcb s) s = space" and asid: "asid_is_valid (space + asid_offset) (kmem s)"
    and no0: "\<not> is_sigma0_space space s"
  shows "\<exists>ok s'. memory_control_item a0 a1 a2 a3 i s = Some (ok, s') \<and> only_attributes s s'"
proof -
  let ?f = "get_mr (get_current_tcb s) i s"
  obtain r s' where "attrib_fpage (get_current_tcb s) ?f (take_bit 32 (select_attribute ?f a0 a1 a2 a3)) s = Some (r, s')"
    "only_attributes s s'"
    using attrib_fpage_safe [of "get_current_tcb s" s] asid unfolding sp by blast
  then show ?thesis using sp no0 by (auto simp: memory_control_item_def Let_def)
qed

lemma memory_control_loop_safe:
  assumes "get_space (get_current_tcb s) s = space" "asid_is_valid (space + asid_offset) (kmem s)" "\<not> is_sigma0_space space s"
  shows "\<exists>r s'. memory_control_loop a0 a1 a2 a3 n i s = Some (r, s') \<and> only_attributes s s' \<and> (r = 0 \<or> r = 1)"
  using assms
proof (induction n arbitrary: i s)
  case 0
  then show ?case by simp
next
  case (Suc n)
  obtain ok s1 where item: "memory_control_item a0 a1 a2 a3 (of_nat i) s = Some (ok, s1)" "only_attributes s s1"
    using memory_control_item_safe [OF Suc.prems] by blast
  have p: "get_space (get_current_tcb s1) s1 = space" "asid_is_valid (space + asid_offset) (kmem s1)" "\<not> is_sigma0_space space s1"
    using item(2) Suc.prems only_attributes_asid [OF item(2)]
    by (simp_all add: only_attributes_def get_space_def get_current_tcb_def is_sigma0_space_def)
  from Suc.IH [OF p, of "Suc i"] item show ?case by (auto intro: only_attributes_trans)
qed

section \<open>Properties\<close>

text \<open>C27: MemoryControl, called by a thread whose space has an address space id and is not sigma0, always
  returns, with the result 0 or 1, whatever flexpages and attributes the caller passes, and on every path it leaves all
  words of kernel memory as they are but for their cache attribute bits: no mapping, right or page table changes.
  A caller without the privilege gets the error code and changes nothing of the memory at all.\<close>

theorem sys_memory_control_only_attributes:
  assumes asid: "asid_is_valid (get_current_space s + asid_offset) (kmem s)"
    and no0: "\<not> is_sigma0_space (get_current_space s) s"
  shows "\<exists>r s'. sys_memory_control control a0 a1 a2 a3 s = Some (r, s') \<and> (r = 0 \<or> r = 1) \<and>
    (\<forall>a. mem (kmem s') a AND NOT 0x38 = mem (kmem s) a AND NOT 0x38) \<and>
    (\<not> is_privileged_space (get_current_space s) s \<longrightarrow>
       r = 0 \<and> kmem s' = kmem s \<and> get_error_code (get_current_tcb s) s' = ENO_PRIVILEGE)"
proof -
  have sp: "get_space (get_current_tcb s) s = get_current_space s" by (simp add: get_current_space_def)
  obtain r s' where l: "memory_control_loop a0 a1 a2 a3 (Suc (unat control)) 0 s = Some (r, s')" "only_attributes s s'" "r = 0 \<or> r = 1"
    using memory_control_loop_safe [OF sp asid no0] by blast
  show ?thesis
  proof (cases "is_privileged_space (get_current_space s) s")
    case False
    then show ?thesis
      by (simp add: sys_memory_control_def set_error_code_def get_error_code_def get_utcb_def)
  next
    case True
    consider "control = - 2" | "control \<noteq> - 2" "control \<ge> 64" | "control \<noteq> - 2" "\<not> control \<ge> 64" by blast
    then show ?thesis
    proof cases
      case 1
      then show ?thesis using True by (simp add: sys_memory_control_def)
    next
      case 2
      then show ?thesis using True by (simp add: sys_memory_control_def set_error_code_def)
    next
      case 3
      then have "sys_memory_control control a0 a1 a2 a3 s = Some (r, s')"
        using True l(1) by (simp add: sys_memory_control_def del: memory_control_loop.simps)
      then show ?thesis using True l(2,3) by (simp add: only_attributes_def)
    qed
  qed
qed

theorem sys_memory_control_only_attributes_witness:
  "\<exists>r s'. sys_memory_control 3 0 1 2 3 (blank_state\<lparr>sigma0_space := 1\<rparr>) = Some (r, s') \<and> (r = 0 \<or> r = 1) \<and>
    (\<forall>a. mem (kmem s') a AND NOT 0x38 = 0)"
proof -
  let ?s = "blank_state\<lparr>sigma0_space := 1\<rparr>"
  have sp: "get_current_space ?s = 0"
    by (simp add: get_current_space_def get_space_def blank_state_def blank_tcb_def)
  then have "asid_is_valid (get_current_space ?s + asid_offset) (kmem ?s)" "\<not> is_sigma0_space (get_current_space ?s) ?s"
    by (simp_all add: asid_is_valid_def asid_value_def blank_state_def is_sigma0_space_def)
  from sys_memory_control_only_attributes [OF this, of 3 0 1 2 3] show ?thesis
    by (auto simp: blank_state_def)
qed

text \<open>The attribute of a single page.\<close>

lemma attrib_descend:
  assumes "slot_walk sz pg vaddr (kmem s) = Some slot" and "num \<noteq> 0" and "is_user_area vaddr"
  shows "attrib_walk t space 0 attrib sz pg vaddr num s = attrib_walk t space 0 attrib 0 slot vaddr num s"
  using assms
proof (induction sz arbitrary: pg)
  case (Suc p)
  have e: "pg_is_valid pg (Suc p) (kmem s)" "pg_is_subtree pg (Suc p) (kmem s)"
    "slot_walk p (pg_next (pg_subtree pg (Suc p) (kmem s)) p (page_table_index p vaddr)) vaddr (kmem s) = Some slot"
    using Suc.prems(1) by (auto split: if_splits)
  have "attrib_walk t space 0 attrib (Suc p) pg vaddr num s =
    attrib_walk t space 0 attrib p (pg_next (pg_subtree pg (Suc p) (kmem s)) p (page_table_index p vaddr)) vaddr num s"
    using Suc.prems e(1,2) by (subst attrib_walk.simps) simp
  then show ?case using Suc.IH [OF e(3)] Suc.prems by simp
qed simp

lemma attrib_fpage_page:
  assumes size: "fpage_get_size_log2 fpage = 12" and addr: "fp_address fpage 12 = vaddr"
    and mapd: "lookup_mapping (get_space t s) vaddr (kmem s) = Some (slot, 0)"
    and mappable: "is_mappable_addr (get_space t s) vaddr s" and asid: "asid_is_valid (get_space t s + asid_offset) (kmem s)"
    and new: "new_attrib attrib = Some (Some a)"
  shows "attrib_fpage t fpage attrib s = Some (0, ks_mem (set_attrib slot a) s)"
proof -
  let ?sp = "get_space t s"
  have slot: "page_slot ?sp vaddr (kmem s) = Some slot" by (rule page_slot_lookup(2) [OF mapd])
  have v: "ent_is_valid (mem (kmem s) slot)" using page_slot_lookup(1) [OF slot] mapd by (simp split: if_splits)
  have u: "is_user_area vaddr" using mappable by (simp add: is_mappable_addr_def)
  have fit: "fit_pgsize 12 size_max = 0" using fit_page by (simp add: size_max_def)
  have "attrib_fpage t fpage attrib s =
      attrib_walk t ?sp 0 attrib size_max (space_pgent ?sp (page_table_index size_max vaddr)) vaddr 1 s"
    using size addr fit by (simp add: attrib_fpage_def Let_def hw_pgshifts_def size_max_def shl_def word_less_nat_alt)
  also have "\<dots> = attrib_walk t ?sp 0 attrib 0 slot vaddr 1 s"
    using attrib_descend [OF slot [unfolded page_slot_def]] u by simp
  also have "\<dots> = Some (0, ks_mem (set_attrib slot a) s)"
    using u v mappable new ks_flush_tlbent_valid [OF asid]
    by (subst attrib_walk.simps) (simp add: attrib_walk.simps [where num = 0])
  finally show ?thesis .
qed

lemma new_attrib_fits: "new_attrib w = Some (Some a) \<Longrightarrow> take_bit 3 a = a"
  by (auto simp: new_attrib_def memattrib_l4default_def split: if_splits)

lemma set_attrib_page:
  assumes "take_bit 3 a = a"
  shows "pg_get_attributes pg (set_attrib pg a m) = a" "x \<noteq> pg \<Longrightarrow> mem (set_attrib pg a m) x = mem m x"
    "pg_address pg 0 (set_attrib pg a m) = pg_address pg 0 m" "pg_is_readable pg (set_attrib pg a m) = pg_is_readable pg m"
    "pg_is_writable pg (set_attrib pg a m) = pg_is_writable pg m" "ent_is_valid (mem (set_attrib pg a m) pg) = ent_is_valid (mem m pg)"
  using assms
  by (simp_all add: set_attrib_def set_raw_def pg_raw_def pg_get_attributes_def tr_memattrib_def tr_set_attrib_def bf_get_set_same
    bf_get_set_other pg_address_def tr_phys_addr_def pg_is_readable_def pg_is_writable_def tr_get_valid_def tr_get_dirty_def ent_is_valid_def)

text \<open>MemoryControl on one page that the caller's space maps gives the page the attribute that the call
  selects by the low bits of the flexpage, reports success, and changes nothing else: the page keeps its frame and its
  rights, and every other word of kernel memory keeps its value.\<close>

theorem sys_memory_control_sets_attribute:
  assumes priv: "is_privileged_space (get_current_space s) s"
    and mr: "get_mr (get_current_tcb s) 0 s = fpage" "\<not> is_nil_fpage fpage"
    and size: "fpage_get_size_log2 fpage = 12" and addr: "fp_address fpage 12 = vaddr"
    and mapd: "lookup_mapping (get_current_space s) vaddr (kmem s) = Some (slot, 0)"
    and mappable: "is_mappable_addr (get_current_space s) vaddr s"
    and asid: "asid_is_valid (get_current_space s + asid_offset) (kmem s)"
    and new: "new_attrib (take_bit 32 (select_attribute fpage a0 a1 a2 a3)) = Some (Some a)"
  shows "\<exists>s'. sys_memory_control 0 a0 a1 a2 a3 s = Some (1, s') \<and> pg_get_attributes slot (kmem s') = a \<and>
    pg_address slot 0 (kmem s') = pg_address slot 0 (kmem s) \<and> pg_is_readable slot (kmem s') = pg_is_readable slot (kmem s) \<and>
    pg_is_writable slot (kmem s') = pg_is_writable slot (kmem s) \<and> (\<forall>x. x \<noteq> slot \<longrightarrow> mem (kmem s') x = mem (kmem s) x)"
proof -
  have sp: "get_current_space s = get_space (get_current_tcb s) s" by (simp add: get_current_space_def)
  note page = attrib_fpage_page [OF size addr mapd [unfolded sp] mappable [unfolded sp] asid [unfolded sp] new]
  have "sys_memory_control 0 a0 a1 a2 a3 s = Some (1, ks_mem (set_attrib slot a) s)"
    using priv mr size addr mapd page
    by (simp add: sys_memory_control_def sp memory_control_item_def Let_def word_le_nat_alt)
  then show ?thesis using set_attrib_page [OF new_attrib_fits [OF new]] by (simp add: ks_mem_def)
qed

definition root_page :: kstate where
  "root_page = two_spaces\<lparr>tcbs := (\<lambda>_. blank_tcb\<lparr>t_space := 0x80000\<rparr>), roottask_space := 0x80000,
     utcbs := (\<lambda>_. blank_utcb\<lparr>u_mr := (\<lambda>_. 0xC7)\<rparr>)\<rparr>"

theorem sys_memory_control_sets_attribute_witness:
  "\<exists>s'. sys_memory_control 0 0 0 0 1 root_page = Some (1, s') \<and> pg_get_attributes 0xFF00000000030000 (kmem s') = 2"
proof -
  have k: "kmem root_page = one_mapping" "get_current_space root_page = 0x80000"
    using two_spaces_facts(1) by (simp_all add: root_page_def get_current_space_def get_space_def)
  have p: "is_privileged_space 0x80000 root_page" by (simp add: is_privileged_space_def is_roottask_space_def root_page_def)
  have m: "is_mappable_addr 0x80000 0 root_page"
    using two_spaces_facts(2) by (simp add: is_mappable_addr_def get_kip_page_area_def get_utcb_page_area_def space_word_def root_page_def)
  have v: "asid_is_valid (0x80000 + asid_offset) one_mapping"
    by (simp add: asid_offset_def asid_is_valid_def asid_value_def one_mapping_def one_page_def set_next_ptr_def set_backlink_root_def
      map_set_space_def set_next_map_def)
  have f: "get_mr (get_current_tcb root_page) 0 root_page = 0xC7" "\<not> is_nil_fpage 0xC7"
    by (simp_all add: get_mr_def root_page_def is_nil_fpage_def)
  have n: "new_attrib (take_bit 32 (select_attribute 0xC7 0 0 0 1)) = Some (Some 2)"
    by (simp add: select_attribute_def new_attrib_def)
  show ?thesis
    using sys_memory_control_sets_attribute [of root_page "0xC7" 0 "0xFF00000000030000" 0 0 0 1 2] p m v f n two_spaces_facts(6,7) two_spaces_source
    by (auto simp: k)
qed

end
