(* ===== verification/Fpu.thy ===== *)
theory Fpu
  imports Tcb "HOL-Library.Monad_Syntax"
begin

text \<open>
  Lazy switching of the floating point unit (\<^verbatim>\<open>resources.cc\<close> and \<^verbatim>\<open>resources.h\<close> of the
  mips64 glue code).

  \<^verbatim>\<open>fpu_t\<close> holds the floating point registers and the control register of the processor, its status
  register, and the arrays \<^verbatim>\<open>fpu_gprs\<close> of the threads' \<^verbatim>\<open>thread_resources_t\<close>; the owner
  \<^verbatim>\<open>fp_lazy_tcb\<close>, the saved control registers \<^verbatim>\<open>fpu_fpcsr\<close> and the status words of the saved
  user contexts are in the kernel state.  A thread may use the unit while the coprocessor bit \<^verbatim>\<open>ST_CU1\<close> is set
  in its saved status.  A floating point instruction executed while the bit is clear in the status register traps,
  which in the kernel is \<^verbatim>\<open>None\<close>.
\<close>

record fpu_t =
  f_fpr :: "nat \<Rightarrow> u64_t"
  f_fcr31 :: u32_t
  f_cp0_status :: word_t
  f_gprs :: "tcbp \<Rightarrow> nat \<Rightarrow> u64_t"

definition ST_CU1 :: word_t where "ST_CU1 = push_bit 28 2"

definition enable_fpu :: "fpu_t \<Rightarrow> fpu_t" where
  "enable_fpu f = f\<lparr>f_cp0_status := f_cp0_status f OR ST_CU1\<rparr>"

definition get_fp_lazy_tcb :: "kstate \<Rightarrow> tcbp" where "get_fp_lazy_tcb s = fp_lazy_tcb s"

definition set_fp_lazy_tcb :: "tcbp \<Rightarrow> kstate \<Rightarrow> kstate" where "set_fp_lazy_tcb t s = s\<lparr>fp_lazy_tcb := t\<rparr>"

definition clear_fp_lazy_tcb :: "kstate \<Rightarrow> kstate" where "clear_fp_lazy_tcb s = s\<lparr>fp_lazy_tcb := NULL_tcb\<rparr>"

definition deactivate_fpu :: "tcbp \<Rightarrow> kstate \<Rightarrow> kstate" where
  "deactivate_fpu t s = upd_tcb t (\<lambda>x. x\<lparr>t_user_status := t_user_status x AND NOT ST_CU1\<rparr>) (clear_fp_lazy_tcb s)"

definition activate_fpu :: "tcbp \<Rightarrow> kstate \<Rightarrow> kstate" where
  "activate_fpu t s = upd_tcb t (\<lambda>x. x\<lparr>t_user_status := t_user_status x OR ST_CU1\<rparr>) (set_fp_lazy_tcb t s)"

text \<open>\<^verbatim>\<open>cfc1\<close> sign-extends the 32 bit control register, \<^verbatim>\<open>ctc1\<close> writes the low 32 bits.\<close>

definition spill_fpu :: "tcbp \<Rightarrow> fpu_t \<times> kstate \<Rightarrow> (fpu_t \<times> kstate) option" where
  "spill_fpu t = (\<lambda>(f, s).
     if f_cp0_status f AND ST_CU1 = 0 then None
     else let f1 = f\<lparr>f_gprs := (f_gprs f)(t := \<lambda>i. if i < 32 then f_fpr f i else f_gprs f t i)\<rparr>;
              s1 = upd_tcb t (\<lambda>x. x\<lparr>t_fpu_fpcsr := scast (f_fcr31 f1)\<rparr>) s
          in Some (f1, deactivate_fpu t s1))"

definition restore_fpu :: "tcbp \<Rightarrow> fpu_t \<times> kstate \<Rightarrow> (fpu_t \<times> kstate) option" where
  "restore_fpu t = (\<lambda>(f, s).
     let s1 = activate_fpu t s
     in if f_cp0_status f AND ST_CU1 = 0 then None
        else let f1 = f\<lparr>f_fpr := \<lambda>i. if i < 32 then f_gprs f t i else f_fpr f i\<rparr>
             in Some (f1\<lparr>f_fcr31 := ucast (t_fpu_fpcsr (tcbs s1 t))\<rparr>, s1))"

definition mips64_fpu_unavail_exception :: "tcbp \<Rightarrow> fpu_t \<times> kstate \<Rightarrow> (fpu_t \<times> kstate) option" where
  "mips64_fpu_unavail_exception t = (\<lambda>(f, s).
     let fp_tcb = get_fp_lazy_tcb s;
         f1 = enable_fpu f
     in do {
       r \<leftarrow> (if fp_tcb \<noteq> NULL_tcb then spill_fpu fp_tcb (f1, s) else Some (f1, s));
       restore_fpu t r
     })"

definition mips64_fpu_spill :: "tcbp \<Rightarrow> fpu_t \<times> kstate \<Rightarrow> (fpu_t \<times> kstate) option" where
  "mips64_fpu_spill t = (\<lambda>(f, s).
     let fp_tcb = get_fp_lazy_tcb s
     in if t = fp_tcb then spill_fpu fp_tcb (enable_fpu f, s) else Some (f, s))"

section \<open>A floating point unit per thread\<close>

text \<open>
  The abstract specification: every thread has floating point registers and a control register of its own.  Those of
  the owner are in the processor, those of the other threads in their control blocks.
\<close>

type_synonym fregs = "u64_t list \<times> u32_t"

definition hw_fpu :: "fpu_t \<Rightarrow> fregs" where
  "hw_fpu f = (map (f_fpr f) [0..<32], f_fcr31 f)"

definition saved_fpu :: "tcbp \<Rightarrow> fpu_t \<times> kstate \<Rightarrow> fregs" where
  "saved_fpu t = (\<lambda>(f, s). (map (f_gprs f t) [0..<32], ucast (t_fpu_fpcsr (tcbs s t))))"

definition thread_fpu :: "fpu_t \<times> kstate \<Rightarrow> tcbp \<Rightarrow> fregs" where
  "thread_fpu m t = (if fp_lazy_tcb (snd m) = t then hw_fpu (fst m) else saved_fpu t m)"

definition has_fpu :: "tcbp \<Rightarrow> kstate \<Rightarrow> bool" where
  "has_fpu t s \<longleftrightarrow> t_user_status (tcbs s t) AND ST_CU1 \<noteq> 0"

definition fpu_inv :: "kstate \<Rightarrow> bool" where
  "fpu_inv s \<longleftrightarrow> (\<forall>t. t \<noteq> NULL_tcb \<longrightarrow> has_fpu t s \<longrightarrow> fp_lazy_tcb s = t)"

text \<open>A floating point instruction of a thread at user level: the status of the saved context is in the status
  register, so the instruction is executed if it has the coprocessor bit, and otherwise after the exception.\<close>

definition exec_fpu :: "(fregs \<Rightarrow> fregs) \<Rightarrow> fpu_t \<Rightarrow> fpu_t" where
  "exec_fpu g f = (let (rs, c) = g (hw_fpu f) in f\<lparr>f_fpr := \<lambda>i. if i < 32 then rs ! i else f_fpr f i, f_fcr31 := c\<rparr>)"

definition user_fpu :: "(fregs \<Rightarrow> fregs) \<Rightarrow> tcbp \<Rightarrow> fpu_t \<times> kstate \<Rightarrow> (fpu_t \<times> kstate) option" where
  "user_fpu g t = (\<lambda>(f, s).
     if has_fpu t s then Some (exec_fpu g f, s)
     else map_option (\<lambda>(f1, s1). (exec_fpu g f1, s1)) (mips64_fpu_unavail_exception t (f, s)))"

lemma bit_ST_CU1: "bit ST_CU1 n \<longleftrightarrow> n = 29"
proof -
  have e: "ST_CU1 = push_bit 29 1" by (simp add: ST_CU1_def)
  show ?thesis unfolding e bit_push_bit_iff bit_1_iff by auto
qed

lemma ST_CU1_and: "(w AND ST_CU1 \<noteq> 0) = bit w 29"
proof -
  have "w AND ST_CU1 = (if bit w 29 then ST_CU1 else 0)" by (rule bit_word_eqI) (auto simp: bit_simps bit_ST_CU1)
  then show ?thesis by (simp add: ST_CU1_def)
qed

lemma has_fpu_bit: "has_fpu t s \<longleftrightarrow> bit (t_user_status (tcbs s t)) 29"
  by (simp add: has_fpu_def ST_CU1_and)

lemma enable_fpu_on: "f_cp0_status (enable_fpu f) AND ST_CU1 \<noteq> 0"
  by (subst ST_CU1_and) (simp add: enable_fpu_def bit_ST_CU1 bit_simps)

lemma hw_fpu_exec: "length (fst (g (hw_fpu f))) = 32 \<Longrightarrow> hw_fpu (exec_fpu g f) = g (hw_fpu f)"
  by (auto simp: exec_fpu_def hw_fpu_def Let_def split: prod.splits intro: nth_equalityI)

lemma spill_fpu_Some:
  assumes "f_cp0_status f AND ST_CU1 \<noteq> 0"
  obtains f' s' where "spill_fpu t (f, s) = Some (f', s')" "saved_fpu t (f', s') = hw_fpu f"
    "fp_lazy_tcb s' = NULL_tcb" "f_cp0_status f' = f_cp0_status f" "hw_fpu f' = hw_fpu f"
    "\<And>u. u \<noteq> t \<Longrightarrow> saved_fpu u (f', s') = saved_fpu u (f, s)"
    "\<And>u. has_fpu u s' \<longleftrightarrow> u \<noteq> t \<and> has_fpu u s"
proof -
  let ?f = "f\<lparr>f_gprs := (f_gprs f)(t := \<lambda>i. if i < 32 then f_fpr f i else f_gprs f t i)\<rparr>"
  let ?s = "deactivate_fpu t (upd_tcb t (\<lambda>x. x\<lparr>t_fpu_fpcsr := scast (f_fcr31 ?f)\<rparr>) s)"
  have r: "spill_fpu t (f, s) = Some (?f, ?s)" using assms by (simp add: spill_fpu_def Let_def)
  show thesis
  proof (rule that [OF r])
    have "ucast (scast (f_fcr31 f) :: u64_t) = f_fcr31 f" by (rule bit_word_eqI) (simp add: bit_simps)
    then show "saved_fpu t (?f, ?s) = hw_fpu f" by (simp add: saved_fpu_def hw_fpu_def deactivate_fpu_def clear_fp_lazy_tcb_def)
    show "has_fpu u ?s \<longleftrightarrow> u \<noteq> t \<and> has_fpu u s" for u
      by (simp add: has_fpu_bit deactivate_fpu_def clear_fp_lazy_tcb_def bit_simps bit_ST_CU1)
  qed (simp_all add: saved_fpu_def hw_fpu_def deactivate_fpu_def clear_fp_lazy_tcb_def)
qed

lemma restore_fpu_Some:
  assumes "f_cp0_status f AND ST_CU1 \<noteq> 0"
  obtains f' s' where "restore_fpu t (f, s) = Some (f', s')" "hw_fpu f' = saved_fpu t (f, s)"
    "fp_lazy_tcb s' = t" "\<And>u. saved_fpu u (f', s') = saved_fpu u (f, s)"
    "\<And>u. has_fpu u s' \<longleftrightarrow> u = t \<or> has_fpu u s"
proof -
  let ?s = "activate_fpu t s"
  let ?f = "f\<lparr>f_fpr := \<lambda>i. if i < 32 then f_gprs f t i else f_fpr f i\<rparr>\<lparr>f_fcr31 := ucast (t_fpu_fpcsr (tcbs ?s t))\<rparr>"
  have r: "restore_fpu t (f, s) = Some (?f, ?s)" using assms by (simp add: restore_fpu_def Let_def)
  show thesis
  proof (rule that [OF r])
    show "has_fpu u ?s \<longleftrightarrow> u = t \<or> has_fpu u s" for u
      by (simp add: has_fpu_bit activate_fpu_def set_fp_lazy_tcb_def bit_simps bit_ST_CU1)
  qed (auto simp: saved_fpu_def hw_fpu_def activate_fpu_def set_fp_lazy_tcb_def)
qed

text \<open>The exception keeps the registers of every thread, and gives the unit to the thread that raised it.\<close>

lemma fpu_unavail_Some:
  assumes "fp_lazy_tcb s \<noteq> t" "t \<noteq> NULL_tcb"
  obtains f' s' where "mips64_fpu_unavail_exception t (f, s) = Some (f', s')" "fp_lazy_tcb s' = t"
    "hw_fpu f' = saved_fpu t (f, s)"
    "\<And>u. u \<noteq> NULL_tcb \<Longrightarrow> thread_fpu (f', s') u = thread_fpu (f, s) u"
    "\<And>u. u \<noteq> NULL_tcb \<Longrightarrow> has_fpu u s' \<longleftrightarrow> u = t \<or> u \<noteq> fp_lazy_tcb s \<and> has_fpu u s"
proof (cases "fp_lazy_tcb s = NULL_tcb")
  case True
  have e: "saved_fpu u (enable_fpu f, s) = saved_fpu u (f, s)" for u by (simp add: saved_fpu_def enable_fpu_def)
  obtain f' s' where r: "restore_fpu t (enable_fpu f, s) = Some (f', s')" "hw_fpu f' = saved_fpu t (f, s)"
    "fp_lazy_tcb s' = t" "\<And>u. saved_fpu u (f', s') = saved_fpu u (f, s)" "\<And>u. has_fpu u s' \<longleftrightarrow> u = t \<or> has_fpu u s"
    by (rule restore_fpu_Some [where f = "enable_fpu f" and t = t and s = s, OF enable_fpu_on]) (auto simp: e)
  show thesis
    by (rule that [of f' s'])
      (use assms True r in \<open>auto simp: mips64_fpu_unavail_exception_def get_fp_lazy_tcb_def Let_def thread_fpu_def\<close>)
next
  case False
  let ?o = "fp_lazy_tcb s"
  have e: "saved_fpu u (enable_fpu f, s) = saved_fpu u (f, s)" "hw_fpu (enable_fpu f) = hw_fpu f" for u
    by (simp_all add: saved_fpu_def hw_fpu_def enable_fpu_def)
  obtain f1 s1 where s: "spill_fpu ?o (enable_fpu f, s) = Some (f1, s1)" "saved_fpu ?o (f1, s1) = hw_fpu f"
    "f_cp0_status f1 = f_cp0_status (enable_fpu f)"
    "\<And>u. u \<noteq> ?o \<Longrightarrow> saved_fpu u (f1, s1) = saved_fpu u (f, s)" "\<And>u. has_fpu u s1 \<longleftrightarrow> u \<noteq> ?o \<and> has_fpu u s"
    by (rule spill_fpu_Some [where f = "enable_fpu f" and t = ?o and s = s, OF enable_fpu_on]) (auto simp: e)
  have on: "f_cp0_status f1 AND ST_CU1 \<noteq> 0" using s(3) enable_fpu_on by simp
  obtain f' s' where r: "restore_fpu t (f1, s1) = Some (f', s')" "hw_fpu f' = saved_fpu t (f1, s1)"
    "fp_lazy_tcb s' = t" "\<And>u. saved_fpu u (f', s') = saved_fpu u (f1, s1)" "\<And>u. has_fpu u s' \<longleftrightarrow> u = t \<or> has_fpu u s1"
    by (rule restore_fpu_Some [OF on, of t s1]) auto
  show thesis
    by (rule that [of f' s'])
      (use assms False s r in \<open>auto simp: mips64_fpu_unavail_exception_def get_fp_lazy_tcb_def Let_def thread_fpu_def\<close>)
qed

text \<open>C22: lazy switching implements a floating point unit per thread.  Whenever only the owner of the unit may use it
  without an exception, a floating point instruction of a thread always completes, has exactly the effect that the
  instruction has on the thread's own registers, changes no other thread's registers, and again only the owner may
  use the unit.\<close>

theorem user_fpu_refines:
  assumes inv: "fpu_inv s" and t: "t \<noteq> NULL_tcb" "fp_lazy_tcb s = t \<Longrightarrow> has_fpu t s"
    and g: "\<And>r. length (fst (g r)) = 32"
  shows "\<exists>f' s'. user_fpu g t (f, s) = Some (f', s') \<and> fpu_inv s' \<and> fp_lazy_tcb s' = t \<and> has_fpu t s' \<and>
    (\<forall>u. u \<noteq> NULL_tcb \<longrightarrow> thread_fpu (f', s') u = ((thread_fpu (f, s)) (t := g (thread_fpu (f, s) t))) u)"
proof (cases "has_fpu t s")
  case True
  then have o: "fp_lazy_tcb s = t" using inv t by (auto simp: fpu_inv_def)
  have "saved_fpu u (exec_fpu g f, s) = saved_fpu u (f, s)" for u
    by (simp add: saved_fpu_def exec_fpu_def Let_def split: prod.split)
  then show ?thesis using True o inv g by (simp add: user_fpu_def thread_fpu_def hw_fpu_exec)
next
  case False
  then have o: "fp_lazy_tcb s \<noteq> t" using t by auto
  obtain f' s' where r: "mips64_fpu_unavail_exception t (f, s) = Some (f', s')" "fp_lazy_tcb s' = t"
    "\<And>u. u \<noteq> NULL_tcb \<Longrightarrow> thread_fpu (f', s') u = thread_fpu (f, s) u"
    "\<And>u. u \<noteq> NULL_tcb \<Longrightarrow> has_fpu u s' \<longleftrightarrow> u = t \<or> u \<noteq> fp_lazy_tcb s \<and> has_fpu u s"
    using fpu_unavail_Some [OF o t(1)] by metis
  have e: "saved_fpu u (exec_fpu g f', s') = saved_fpu u (f', s')" for u
    by (simp add: saved_fpu_def exec_fpu_def Let_def split: prod.split)
  have h: "thread_fpu (f, s) t = hw_fpu f'" using r(2) r(3) [OF t(1)] by (simp add: thread_fpu_def)
  have "thread_fpu (exec_fpu g f', s') u = ((thread_fpu (f, s)) (t := g (thread_fpu (f, s) t))) u" if "u \<noteq> NULL_tcb" for u
    using r(2) r(3) [OF that] g by (auto simp: h e hw_fpu_exec thread_fpu_def)
  moreover have "fpu_inv s'" using inv r(2,4) by (auto simp: fpu_inv_def)
  ultimately show ?thesis using False r t by (simp add: user_fpu_def)
qed

definition sample_fpu :: fpu_t where
  "sample_fpu = \<lparr>f_fpr = (\<lambda>i. of_nat i), f_fcr31 = 1, f_cp0_status = 0, f_gprs = (\<lambda>_ _. 0)\<rparr>"

definition sample_fpu_state :: kstate where
  "sample_fpu_state = activate_fpu (Tcb 2) blank_state"

text \<open>Thread 3 sets its control register while thread 2 owns the unit.\<close>

theorem user_fpu_refines_witness:
  "\<exists>f' s'. user_fpu (\<lambda>r. (replicate 32 7, 5)) (Tcb 3) (sample_fpu, sample_fpu_state) = Some (f', s') \<and>
    thread_fpu (f', s') (Tcb 3) = (replicate 32 7, 5) \<and> thread_fpu (f', s') (Tcb 2) = (map of_nat [0..<32], 1)"
proof -
  have h: "has_fpu t sample_fpu_state \<longleftrightarrow> t = Tcb 2" for t
    by (simp add: has_fpu_bit sample_fpu_state_def activate_fpu_def set_fp_lazy_tcb_def bit_simps bit_ST_CU1 blank_state_def blank_tcb_def)
  have o: "fp_lazy_tcb sample_fpu_state = Tcb 2" by (simp add: sample_fpu_state_def activate_fpu_def set_fp_lazy_tcb_def)
  have i: "fpu_inv sample_fpu_state" by (simp add: fpu_inv_def h o)
  obtain f' s' where r: "user_fpu (\<lambda>r. (replicate 32 7, 5)) (Tcb 3) (sample_fpu, sample_fpu_state) = Some (f', s')"
    "\<And>u. u \<noteq> NULL_tcb \<Longrightarrow> thread_fpu (f', s') u = ((thread_fpu (sample_fpu, sample_fpu_state)) (Tcb 3 := (replicate 32 7, 5))) u"
    using user_fpu_refines [OF i, of "Tcb 3" "\<lambda>r. (replicate 32 7, 5)" sample_fpu] o by auto
  have "thread_fpu (sample_fpu, sample_fpu_state) (Tcb 2) = (map of_nat [0..<32], 1)"
    by (simp add: thread_fpu_def o hw_fpu_def sample_fpu_def)
  then show ?thesis using r by auto
qed

section \<open>Creation of a thread while the unit is in use\<close>

text \<open>
  \<^verbatim>\<open>thread_resources_t::init\<close>, called for every new thread, clears the owner without saving the registers
  and without taking the coprocessor bit from it.  The next thread that uses the unit therefore does not save the
  owner's registers, and the previous owner goes on with the registers of that thread.
\<close>

theorem resources_init_loses_fpu:
  assumes "fp_lazy_tcb s = t" "has_fpu t s" "t \<noteq> new" "\<not> has_fpu u s" "u \<noteq> NULL_tcb" "t \<noteq> NULL_tcb" "u \<noteq> new"
  shows "\<exists>f' s'. mips64_fpu_unavail_exception u (f, resources_init new s) = Some (f', s') \<and>
    has_fpu t s' \<and> hw_fpu f' = thread_fpu (f, s) u \<and> thread_fpu (f', s') t = saved_fpu t (f, s) \<and>
    user_fpu g t (f', s') = Some (exec_fpu g f', s')"
proof -
  let ?s = "resources_init new s"
  have i: "fp_lazy_tcb ?s = NULL_tcb" "saved_fpu x (f, ?s) = saved_fpu x (f, s)" "has_fpu x ?s = has_fpu x s" if "x \<noteq> new" for x
    using that by (auto simp: resources_init_def Let_def saved_fpu_def has_fpu_def)
  have ut: "u \<noteq> t" using assms(2,4) by auto
  obtain f' s' where r: "mips64_fpu_unavail_exception u (f, ?s) = Some (f', s')" "fp_lazy_tcb s' = u"
    "hw_fpu f' = saved_fpu u (f, ?s)" "\<And>x. x \<noteq> NULL_tcb \<Longrightarrow> thread_fpu (f', s') x = thread_fpu (f, ?s) x"
    "\<And>x. x \<noteq> NULL_tcb \<Longrightarrow> has_fpu x s' \<longleftrightarrow> x = u \<or> x \<noteq> fp_lazy_tcb ?s \<and> has_fpu x ?s"
    by (rule fpu_unavail_Some [of ?s u f]) (use assms i in auto)
  have "has_fpu t s'" using r(5) assms i by auto
  moreover have "hw_fpu f' = thread_fpu (f, s) u" using r(3) i(2) [OF assms(7)] assms(1) ut by (simp add: thread_fpu_def)
  moreover have "thread_fpu (f', s') t = saved_fpu t (f, s)"
    using r(4) [OF assms(6)] i(1,2) [OF assms(3)] assms(6) by (simp add: thread_fpu_def)
  ultimately show ?thesis using r(1) by (auto simp: user_fpu_def)
qed

end
