(* ===== verification/Exception.thy ===== *)
theory Exception
  imports Pagefault Fpu
begin

text \<open>
  Exceptions of user threads (\<^verbatim>\<open>exception.cc\<close> and \<^verbatim>\<open>exception.h\<close> of the mips64 glue code): the
  messages to the exception handler, the emulation of the load-linked and store-conditional instructions, the request
  for the kernel interface page and the dispatch on the exception code.

  The saved registers of the thread that raised the exception are a \<^verbatim>\<open>mips64_irq_context_t\<close> at the top of its
  kernel stack; its words \<^verbatim>\<open>epc\<close>, \<^verbatim>\<open>sp\<close> and \<^verbatim>\<open>status\<close> are those that
  \<^verbatim>\<open>get_user_ip\<close>, \<^verbatim>\<open>get_user_sp\<close> and \<^verbatim>\<open>get_user_flags\<close> read, so they are in the
  kernel state.  \<^verbatim>\<open>cpu_t\<close> has the other words, the \<^verbatim>\<open>BadVAddr\<close> register, the static variable
  \<^verbatim>\<open>llval\<close> of the emulation, the floating point unit, and the memory that the thread sees.
  Without the kernel debugger \<^verbatim>\<open>kdebug_entry\<close> is the null pointer, and \<^verbatim>\<open>mips64_break\<close>
  handles no breakpoint.
\<close>

section \<open>The saved context\<close>

record mips64_irq_context_t =
  c_ra :: word_t
  c_v0 :: word_t
  c_v1 :: word_t
  c_a1 :: word_t
  c_cause :: word_t
  c_a2 :: word_t
  c_a3 :: word_t
  c_t9 :: word_t
  c_a0 :: word_t
  c_gp :: word_t
  c_at :: word_t
  c_t0 :: word_t
  c_t1 :: word_t
  c_hi :: word_t
  c_t2 :: word_t
  c_t3 :: word_t
  c_lo :: word_t
  c_t4 :: word_t
  c_t5 :: word_t
  c_t6 :: word_t
  c_t7 :: word_t
  c_t8 :: word_t
  c_s0 :: word_t
  c_s1 :: word_t
  c_s2 :: word_t
  c_s3 :: word_t
  c_s4 :: word_t
  c_s5 :: word_t
  c_s6 :: word_t
  c_s7 :: word_t
  c_s8 :: word_t

record cpu_t =
  x_context :: mips64_irq_context_t
  x_badvaddr :: word_t
  x_llval_address :: word_t
  x_llval_space :: word_t
  x_fpu :: fpu_t
  x_umem :: "word_t \<Rightarrow> u8_t"

definition CAUSE_EXCCODE_NUM :: "word_t \<Rightarrow> word_t" where "CAUSE_EXCCODE_NUM x = drop_bit 2 x AND 31"

definition CAUSE_CE_NUM :: "word_t \<Rightarrow> word_t" where "CAUSE_CE_NUM x = drop_bit 28 x AND 3"

section \<open>Exception messages\<close>

definition EXCEPT_IPC_GEN_MR_NUM :: word_t where "EXCEPT_IPC_GEN_MR_NUM = 6"

definition EXCEPT_IPC_GEN_LABEL :: word_t where "EXCEPT_IPC_GEN_LABEL = push_bit 4 (- 5)"

definition EXCEPT_IPC_SYS_MR_NUM :: word_t where "EXCEPT_IPC_SYS_MR_NUM = 13"

definition EXCEPT_IPC_SYS_LABEL :: word_t where "EXCEPT_IPC_SYS_LABEL = push_bit 4 (- 5)"

text \<open>The loops over the message registers before and after a message.\<close>

definition saved_mrs :: "tcbp \<Rightarrow> word_t \<Rightarrow> kstate \<Rightarrow> word_t list" where
  "saved_mrs t n s = map (\<lambda>i. get_mr t (of_nat i) s) [0..<unat (n + 1)]"

definition set_mrs :: "tcbp \<Rightarrow> word_t \<Rightarrow> word_t list \<Rightarrow> kstate \<Rightarrow> kstate" where
  "set_mrs t n vs s = fold (\<lambda>i s. set_mr t (of_nat i) (vs ! i) s) [0..<unat (n + 1)] s"

definition exception_save :: "tcbp \<Rightarrow> kstate \<Rightarrow> kstate" where
  "exception_save t s = (let s1 = set_saved_partner t (get_partner t s) s in set_saved_state t (get_state t s1) s1)"

definition exception_cleanup :: "tcbp \<Rightarrow> word_t \<Rightarrow> word_t list \<Rightarrow> kstate \<Rightarrow> kstate" where
  "exception_cleanup t n vs s =
     (let s1 = set_mrs t n vs s;
          s2 = set_partner t (get_saved_partner t s1) s1;
          s3 = set_saved_partner t nilthread s2;
          s4 = set_state t (get_saved_state t s3) s3
      in set_saved_state t aborted s4)"

text \<open>The new user context, from the message registers of the reply.\<close>

definition exception_reply :: "tcbp \<Rightarrow> msg_tag_t \<Rightarrow> word_t \<Rightarrow> kstate \<Rightarrow> kstate" where
  "exception_reply t tag n s =
     (if \<not> is_error tag
      then let s1 = set_user_ip t (get_mr t n s) s;
               s2 = set_user_sp t (get_mr t (n + 1) s1) s1
           in set_user_flags t (get_mr t (n + 2) s2) s2
      else s)"

text \<open>The message, up to the call of \<^verbatim>\<open>do_ipc\<close>.\<close>

definition exception_request :: "tcbp \<Rightarrow> word_t \<Rightarrow> word_t \<Rightarrow> kstate \<Rightarrow> kstate" where
  "exception_request current exc_no exc_code s =
     (let s1 = exception_save current s;
          s2 = set_tag current (msg_tag_set 0 EXCEPT_IPC_GEN_MR_NUM EXCEPT_IPC_GEN_LABEL) s1;
          s3 = set_mr current 1 (get_user_ip current s2) s2;
          s4 = set_mr current 2 (get_user_sp current s3) s3;
          s5 = set_mr current 3 (get_user_flags current s4) s4;
          s6 = set_mr current 4 exc_no s5;
          s7 = set_mr current 5 exc_code s6;
          s8 = set_mr current 6 (get_local_id current s7) s7
      in set_exception_ipc current s8)"

definition send_exception_ipc ::
  "typed_transfer \<Rightarrow> switcher \<Rightarrow> word_t \<Rightarrow> word_t \<Rightarrow> kstate \<Rightarrow> (bool \<times> kstate) option" where
  "send_exception_ipc xfer sw exc_no exc_code s =
     (let current = get_current_tcb s
      in if is_nilthread (get_exception_handler current s) then Some (False, s)
         else let saved_mr = saved_mrs current EXCEPT_IPC_GEN_MR_NUM s;
                  s1 = exception_request current exc_no exc_code s
              in do {
                (tag, s2) \<leftarrow> do_ipc xfer sw current (get_exception_handler current s1) (get_exception_handler current s1) timeout_never s1;
                let s3 = clear_exception_ipc current s2;
                let s4 = exception_reply current tag 1 s3;
                Some (\<not> is_error tag, exception_cleanup current EXCEPT_IPC_GEN_MR_NUM saved_mr s4)
              })"

definition sys_clock :: "kstate \<Rightarrow> word_t" where "sys_clock s = get_current_time s"

definition syscall_request :: "tcbp \<Rightarrow> mips64_irq_context_t \<Rightarrow> kstate \<Rightarrow> kstate" where
  "syscall_request current context s =
     (let s1 = exception_save current s;
          s2 = set_tag current (msg_tag_set 0 EXCEPT_IPC_SYS_MR_NUM EXCEPT_IPC_SYS_LABEL) s1;
          s3 = set_mr current 1 (c_v0 context) s2;
          s4 = set_mr current 2 (c_v1 context) s3;
          s5 = set_mr current 3 (c_a0 context) s4;
          s6 = set_mr current 4 (c_a1 context) s5;
          s7 = set_mr current 5 (c_a2 context) s6;
          s8 = set_mr current 6 (c_a3 context) s7;
          s9 = set_mr current 7 (c_t0 context) s8;
          s10 = set_mr current 8 (c_t1 context) s9;
          s11 = set_mr current 9 (c_t2 context) s10;
          s12 = set_mr current 10 (c_t3 context) s11;
          s13 = set_mr current 11 (get_user_ip current s12) s12;
          s14 = set_mr current 12 (get_user_sp current s13) s13;
          s15 = set_mr current 13 (get_user_flags current s14) s14
      in set_exception_ipc current s15)"

definition syscall_results :: "tcbp \<Rightarrow> kstate \<Rightarrow> mips64_irq_context_t \<Rightarrow> mips64_irq_context_t" where
  "syscall_results current s context =
     context\<lparr>c_v0 := get_mr current 1 s, c_v1 := get_mr current 2 s,
       c_a0 := get_mr current 3 s, c_a1 := get_mr current 4 s, c_a2 := get_mr current 5 s,
       c_a3 := get_mr current 6 s, c_t0 := get_mr current 7 s, c_t1 := get_mr current 8 s,
       c_t2 := get_mr current 9 s, c_t3 := get_mr current 10 s\<rparr>"

definition send_syscall_ipc ::
  "typed_transfer \<Rightarrow> switcher \<Rightarrow> cpu_t \<times> kstate \<Rightarrow> (bool \<times> cpu_t \<times> kstate) option" where
  "send_syscall_ipc xfer sw = (\<lambda>(c, s).
     let current = get_current_tcb s
     in if is_nilthread (get_exception_handler current s) then Some (False, c, s)
        else let saved_mr = saved_mrs current EXCEPT_IPC_SYS_MR_NUM s;
                 s1 = syscall_request current (x_context c) s
             in do {
               (tag, s2) \<leftarrow> do_ipc xfer sw current (get_exception_handler current s1) (get_exception_handler current s1) timeout_never s1;
               let s3 = clear_exception_ipc current s2;
               let s4 = exception_reply current tag 11 s3;
               Some (\<not> is_error tag, c\<lparr>x_context := syscall_results current s4 (x_context c)\<rparr>,
                 exception_cleanup current EXCEPT_IPC_SYS_MR_NUM saved_mr s4)
             })"

definition halt_user_thread :: "kstate \<Rightarrow> kstate" where
  "halt_user_thread s = (let current = get_current_tcb s in switch_to_idle current (set_state current halted s))"

definition syscall_exception ::
  "typed_transfer \<Rightarrow> switcher \<Rightarrow> cpu_t \<times> kstate \<Rightarrow> (cpu_t \<times> kstate) option" where
  "syscall_exception xfer sw m =
     do {
       (ok, c1, s1) \<leftarrow> send_syscall_ipc xfer sw m;
       Some (if \<not> ok then (c1, halt_user_thread s1) else (c1, s1))
     }"

section \<open>The registers of the saved context\<close>

text \<open>Register 29 is the stack pointer.  26 and 27 are reserved for the kernel and are not saved.\<close>

definition get_reg :: "word_t \<Rightarrow> cpu_t \<times> kstate \<Rightarrow> word_t" where
  "get_reg num = (\<lambda>(c, s). let context = x_context c in
     if num = 0 then 0
     else if num = 1 then c_at context else if num = 2 then c_v0 context
     else if num = 3 then c_v1 context else if num = 4 then c_a0 context
     else if num = 5 then c_a1 context else if num = 6 then c_a2 context
     else if num = 7 then c_a3 context else if num = 8 then c_t0 context
     else if num = 9 then c_t1 context else if num = 10 then c_t2 context
     else if num = 11 then c_t3 context else if num = 12 then c_t4 context
     else if num = 13 then c_t5 context else if num = 14 then c_t6 context
     else if num = 15 then c_t7 context else if num = 16 then c_s0 context
     else if num = 17 then c_s1 context else if num = 18 then c_s2 context
     else if num = 19 then c_s3 context else if num = 20 then c_s4 context
     else if num = 21 then c_s5 context else if num = 22 then c_s6 context
     else if num = 23 then c_s7 context else if num = 24 then c_t8 context
     else if num = 25 then c_t9 context else if num = 28 then c_gp context
     else if num = 29 then get_user_sp (get_current_tcb s) s else if num = 30 then c_s8 context
     else if num = 31 then c_ra context
     else 0)"

definition set_reg_context :: "word_t \<Rightarrow> word_t \<Rightarrow> mips64_irq_context_t \<Rightarrow> mips64_irq_context_t" where
  "set_reg_context num val context =
     (if num = 1 then context\<lparr>c_at := val\<rparr> else if num = 2 then context\<lparr>c_v0 := val\<rparr>
      else if num = 3 then context\<lparr>c_v1 := val\<rparr> else if num = 4 then context\<lparr>c_a0 := val\<rparr>
      else if num = 5 then context\<lparr>c_a1 := val\<rparr> else if num = 6 then context\<lparr>c_a2 := val\<rparr>
      else if num = 7 then context\<lparr>c_a3 := val\<rparr> else if num = 8 then context\<lparr>c_t0 := val\<rparr>
      else if num = 9 then context\<lparr>c_t1 := val\<rparr> else if num = 10 then context\<lparr>c_t2 := val\<rparr>
      else if num = 11 then context\<lparr>c_t3 := val\<rparr> else if num = 12 then context\<lparr>c_t4 := val\<rparr>
      else if num = 13 then context\<lparr>c_t5 := val\<rparr> else if num = 14 then context\<lparr>c_t6 := val\<rparr>
      else if num = 15 then context\<lparr>c_t7 := val\<rparr> else if num = 16 then context\<lparr>c_s0 := val\<rparr>
      else if num = 17 then context\<lparr>c_s1 := val\<rparr> else if num = 18 then context\<lparr>c_s2 := val\<rparr>
      else if num = 19 then context\<lparr>c_s3 := val\<rparr> else if num = 20 then context\<lparr>c_s4 := val\<rparr>
      else if num = 21 then context\<lparr>c_s5 := val\<rparr> else if num = 22 then context\<lparr>c_s6 := val\<rparr>
      else if num = 23 then context\<lparr>c_s7 := val\<rparr> else if num = 24 then context\<lparr>c_t8 := val\<rparr>
      else if num = 25 then context\<lparr>c_t9 := val\<rparr> else if num = 28 then context\<lparr>c_gp := val\<rparr>
      else if num = 30 then context\<lparr>c_s8 := val\<rparr> else if num = 31 then context\<lparr>c_ra := val\<rparr>
      else context)"

definition set_reg :: "word_t \<Rightarrow> word_t \<Rightarrow> cpu_t \<times> kstate \<Rightarrow> cpu_t \<times> kstate" where
  "set_reg num val = (\<lambda>(c, s).
     if num = 0 then (c, s)
     else if num = 29 then (c, set_user_sp (get_current_tcb s) val s)
     else (c\<lparr>x_context := set_reg_context num val (x_context c)\<rparr>, s))"

section \<open>Memory of the thread\<close>

definition load_u32 :: "word_t \<Rightarrow> (word_t \<Rightarrow> u8_t) \<Rightarrow> u32_t" where
  "load_u32 a m = push_bit 24 (ucast (m a)) OR push_bit 16 (ucast (m (a + 1))) OR push_bit 8 (ucast (m (a + 2))) OR ucast (m (a + 3))"

definition load_word :: "word_t \<Rightarrow> (word_t \<Rightarrow> u8_t) \<Rightarrow> word_t" where
  "load_word a m = push_bit 32 (ucast (load_u32 a m)) OR ucast (load_u32 (a + 4) m)"

definition store_u32 :: "word_t \<Rightarrow> u32_t \<Rightarrow> (word_t \<Rightarrow> u8_t) \<Rightarrow> word_t \<Rightarrow> u8_t" where
  "store_u32 a v m = m(a := ucast (drop_bit 24 v), a + 1 := ucast (drop_bit 16 v), a + 2 := ucast (drop_bit 8 v), a + 3 := ucast v)"

definition store_word :: "word_t \<Rightarrow> word_t \<Rightarrow> (word_t \<Rightarrow> u8_t) \<Rightarrow> word_t \<Rightarrow> u8_t" where
  "store_word a v m = store_u32 (a + 4) (ucast v) (store_u32 a (ucast (drop_bit 32 v)) m)"

section \<open>Emulated instructions\<close>

text \<open>
  \<^verbatim>\<open>load_instr\<close>: bit fields of a big-endian machine are laid out from the most significant bit, so the
  first field \<^verbatim>\<open>offset\<close> is the upper half of the word and \<^verbatim>\<open>op\<close> are its lowest six bits.
\<close>

definition instr_offset :: "u32_t \<Rightarrow> word_t" where "instr_offset w = scast (ucast (drop_bit 16 w) :: 16 word)"

definition instr_rt :: "u32_t \<Rightarrow> word_t" where "instr_rt w = ucast (take_bit 5 (drop_bit 11 w))"

definition instr_base :: "u32_t \<Rightarrow> word_t" where "instr_base w = ucast (take_bit 5 (drop_bit 6 w))"

definition instr_op :: "u32_t \<Rightarrow> word_t" where "instr_op w = ucast (take_bit 6 w)"

definition is_sc :: "word_t \<Rightarrow> bool" where "is_sc op \<longleftrightarrow> op = 0x38 \<or> op = 0x3c"

definition is_emulated :: "word_t \<Rightarrow> bool" where "is_emulated op \<longleftrightarrow> is_sc op \<or> op = 0x30 \<or> op = 0x34"

definition instr_align :: "word_t \<Rightarrow> word_t" where "instr_align op = (if op = 0x34 \<or> op = 0x3c then 7 else 3)"

text \<open>The page fault loop: until the page is mapped, and writable for a store.\<close>

partial_function (option) emulation_lookup ::
  "typed_transfer \<Rightarrow> switcher \<Rightarrow> addr_t \<Rightarrow> spacep \<Rightarrow> addr_t \<Rightarrow> access_e \<Rightarrow> kstate \<Rightarrow> ((pgent_p \<times> nat) \<times> kstate) option" where
  "emulation_lookup xfer sw dummy_tcb space a access s =
     (case lookup_mapping space a (kmem s) of
        Some (pg, pgsize) \<Rightarrow>
          if access = acc_write \<and> \<not> pg_is_writable pg (kmem s)
          then do {
            s1 \<leftarrow> handle_pagefault xfer sw dummy_tcb space a (get_user_ip (get_current_tcb s) s) access False s;
            emulation_lookup xfer sw dummy_tcb space a access s1
          }
          else Some ((pg, pgsize), s)
      | None \<Rightarrow>
          do {
            s1 \<leftarrow> handle_pagefault xfer sw dummy_tcb space a (get_user_ip (get_current_tcb s) s) access False s;
            emulation_lookup xfer sw dummy_tcb space a access s1
          })"

text \<open>The load or store itself; the kernel's own access to an address that is not aligned faults again for ever.\<close>

definition emulate :: "word_t \<Rightarrow> word_t \<Rightarrow> word_t \<Rightarrow> word_t \<Rightarrow> spacep \<Rightarrow> cpu_t \<times> kstate \<Rightarrow> (cpu_t \<times> kstate) option" where
  "emulate op rt address paddr space = (\<lambda>(c, s).
     let aligned = (address AND instr_align op = 0)
     in if \<not> is_sc op
        then let c1 = c\<lparr>x_llval_address := paddr, x_llval_space := space\<rparr>
             in if \<not> aligned then None
                else Some (set_reg rt (if op = 0x30 then scast (load_u32 address (x_umem c)) else load_word address (x_umem c)) (c1, s))
        else if x_llval_address c = paddr \<and> x_llval_space c = space
        then if \<not> aligned then None
             else let v = get_reg rt (c, s);
                      c1 = c\<lparr>x_umem := (if op = 0x38 then store_u32 address (ucast v) (x_umem c) else store_word address v (x_umem c))\<rparr>
                  in Some (set_reg rt 1 (c1, s))
        else Some (set_reg rt 0 (c, s)))"

section \<open>Dispatch\<close>

definition MAGIC_KIP_REQUEST :: word_t where "MAGIC_KIP_REQUEST = 0x1FACECA1114e1f64"

definition kip_request :: "addr_t \<Rightarrow> cpu_t \<times> kstate \<Rightarrow> cpu_t" where
  "kip_request kip_addr = (\<lambda>(c, s).
     let desc = kip_kernel_desc_ptr (kip s)
     in c\<lparr>x_context := (x_context c)
        \<lparr>c_t0 := fpage_get_base (get_kip_page_area (get_current_space s) s),
         c_t1 := kip_api_version (kip s), c_t2 := kip_api_flags (kip s),
         c_t3 := (if desc \<noteq> 0 then mem (kmem s) (kip_addr + desc) else 0)\<rparr>\<rparr>)"

text \<open>What \<^verbatim>\<open>mips64_exception\<close> does with an exception that is not handled.\<close>

definition unhandled_exception ::
  "typed_transfer \<Rightarrow> switcher \<Rightarrow> word_t \<Rightarrow> word_t \<Rightarrow> kstate \<Rightarrow> kstate option" where
  "unhandled_exception xfer sw exc_no exc_code s =
     do {
       (ok, s1) \<leftarrow> send_exception_ipc xfer sw exc_no exc_code s;
       Some (if \<not> ok then halt_user_thread s1 else s1)
     }"

text \<open>
  An address that is not aligned raises the exception first: the faked cause has the code 5 in every case, since the
  condition of the code is the constant \<^verbatim>\<open>space_t::write\<close>, and \<^verbatim>\<open>mips64_exception\<close> then takes
  \<^verbatim>\<open>BadVAddr\<close> as the error code.
\<close>

definition emulate_instruction ::
  "typed_transfer \<Rightarrow> switcher \<Rightarrow> addr_t \<Rightarrow> u32_t \<Rightarrow> cpu_t \<times> kstate \<Rightarrow> (cpu_t \<times> kstate) option" where
  "emulate_instruction xfer sw dummy_tcb w = (\<lambda>(c, s).
     let op = instr_op w;
         access = (if is_sc op then acc_write else acc_read);
         address = get_reg (instr_base w) (c, s) + instr_offset w;
         space = (let sp = get_space (get_current_tcb s) s in if sp = 0 then kernel_space s else sp)
     in do {
       ((pg, pgsize), s1) \<leftarrow> emulation_lookup xfer sw dummy_tcb space address access s;
       let paddr = pg_address pg pgsize (kmem s1) + (address AND page_mask pgsize);
       s2 \<leftarrow> (if address AND instr_align op \<noteq> 0 then unhandled_exception xfer sw 5 (x_badvaddr c) s1 else Some s1);
       emulate op (instr_rt w) address paddr space (c, s2)
     })"

definition next_instruction :: "kstate \<Rightarrow> kstate" where
  "next_instruction s = set_user_ip (get_current_tcb s) (get_user_ip (get_current_tcb s) s + 4) s"

text \<open>The result, the error code and the state.\<close>

definition mips64_illegal ::
  "typed_transfer \<Rightarrow> switcher \<Rightarrow> addr_t \<Rightarrow> addr_t \<Rightarrow> cpu_t \<times> kstate \<Rightarrow> (bool \<times> word_t \<times> cpu_t \<times> kstate) option" where
  "mips64_illegal xfer sw dummy_tcb kip_addr = (\<lambda>(c, s).
     if c_at (x_context c) = MAGIC_KIP_REQUEST then Some (True, 0, kip_request kip_addr (c, s), next_instruction s)
     else let w = load_u32 (get_user_ip (get_current_tcb s) s) (x_umem c)
          in if \<not> is_emulated (instr_op w) then Some (False, ucast w, c, s)
             else do {
               (c1, s1) \<leftarrow> emulate_instruction xfer sw dummy_tcb w (c, s);
               Some (True, ucast w, c1, next_instruction s1)
             })"

definition mips64_break :: "cpu_t \<Rightarrow> bool" where "mips64_break c = False"

definition mips64_watch :: "cpu_t \<Rightarrow> bool" where "mips64_watch c = False"

definition mips64_cpu_unavail :: "cpu_t \<times> kstate \<Rightarrow> (bool \<times> word_t \<times> cpu_t \<times> kstate) option" where
  "mips64_cpu_unavail = (\<lambda>(c, s).
     if CAUSE_CE_NUM (c_cause (x_context c)) = 1
     then map_option (\<lambda>(f, s1). (True, 0, c\<lparr>x_fpu := f\<rparr>, s1)) (mips64_fpu_unavail_exception (get_current_tcb s) (x_fpu c, s))
     else Some (False, c_cause (x_context c), c, s))"

definition mips64_exception ::
  "typed_transfer \<Rightarrow> switcher \<Rightarrow> addr_t \<Rightarrow> addr_t \<Rightarrow> cpu_t \<times> kstate \<Rightarrow> (cpu_t \<times> kstate) option" where
  "mips64_exception xfer sw dummy_tcb kip_addr = (\<lambda>(c, s).
     let exc_no = CAUSE_EXCCODE_NUM (c_cause (x_context c))
     in do {
       (result, exc_code, c1, s1) \<leftarrow>
         (if exc_no = 4 \<or> exc_no = 5 then Some (False, x_badvaddr c, c, s)
          else if exc_no = 9 then Some (mips64_break c, 0, c, s)
          else if exc_no = 10 then mips64_illegal xfer sw dummy_tcb kip_addr (c, s)
          else if exc_no = 11 then mips64_cpu_unavail (c, s)
          else if exc_no = 13 then Some (False, 0, c, next_instruction s)
          else if exc_no = 23 then Some (mips64_watch c, 0, c, s)
          else Some (False, 0, c, s));
       if \<not> result
       then map_option (Pair c1) (unhandled_exception xfer sw exc_no exc_code s1)
       else Some (c1, s1)
     })"

section \<open>The register file\<close>

lemma reg_cases: "n < 32 \<Longrightarrow> n \<in> {0, 1, 2, 3, 4, 5, 6, 7, 8, 9, 10, 11, 12, 13, 14, 15, 16, 17, 18, 19, 20, 21, 22, 23, 24, 25,
    26, 27, 28, 29, 30, 31}" for n :: word_t
proof -
  assume "n < 32"
  then have "unat n \<in> set [0..<32]" by (simp add: word_less_nat_alt)
  then have "n \<in> set (map of_nat [0..<32])" by (metis image_eqI list.set_map of_nat_unat ucast_id)
  then show ?thesis by (simp add: upt_rec)
qed

lemmas reg_ops = get_reg_def set_reg_def set_reg_context_def get_user_sp_def set_user_sp_def get_current_tcb_def Let_def

lemma get_reg_set_reg_eq: "n < 32 \<Longrightarrow> n \<notin> {0, 26, 27} \<Longrightarrow> get_reg n (set_reg n v (c, s)) = v"
  by (drule reg_cases) (elim insertE emptyE; hypsubst; simp add: reg_ops)

lemma get_reg_set_reg_neq: "m < 32 \<Longrightarrow> n \<noteq> m \<Longrightarrow> get_reg n (set_reg m v (c, s)) = get_reg n (c, s)"
  by (drule reg_cases) (elim insertE emptyE; hypsubst; simp add: reg_ops cong: if_cong split del: if_split)

section \<open>Exception messages\<close>

lemmas exception_ops = get_user_ip_def get_user_sp_def get_user_flags_def set_user_ip_def set_user_sp_def set_user_flags_def
  set_exception_ipc_def clear_exception_ipc_def

lemma set_mrs_frame [simp]:
  "tcbs (set_mrs t n vs s) = tcbs s" "current_tcb (set_mrs t n vs s) = current_tcb s" "kmem (set_mrs t n vs s) = kmem s"
proof -
  have f: "tcbs (fold (\<lambda>i s. set_mr t (of_nat i) (vs ! i) s) is s) = tcbs s \<and>
      current_tcb (fold (\<lambda>i s. set_mr t (of_nat i) (vs ! i) s) is s) = current_tcb s \<and>
      kmem (fold (\<lambda>i s. set_mr t (of_nat i) (vs ! i) s) is s) = kmem s" for "is" s
    by (induction "is" arbitrary: s) (simp_all add: set_mr_def)
  then show "tcbs (set_mrs t n vs s) = tcbs s" "current_tcb (set_mrs t n vs s) = current_tcb s" "kmem (set_mrs t n vs s) = kmem s"
    by (simp_all add: set_mrs_def)
qed

lemma get_mr_set_mrs:
  assumes "i < unat (n + 1)" shows "get_mr t (of_nat i) (set_mrs t n vs s) = vs ! i"
proof -
  have "k \<le> unat (n + 1) \<Longrightarrow> i < k \<Longrightarrow> get_mr t (of_nat i) (fold (\<lambda>i s. set_mr t (of_nat i) (vs ! i) s) [0..<k] s) = vs ! i" for k
  proof (induction k)
    case (Suc k)
    have "k < 2 ^ 64" "i < 2 ^ 64" using Suc.prems unsigned_less [of "n + 1", where 'a = nat] by simp_all
    then have "(of_nat i :: word_t) = of_nat k \<longleftrightarrow> i = k" by (simp add: word_of_nat_eq_iff take_bit_nat_eq_self)
    moreover have "get_utcb t (fold (\<lambda>i s. set_mr t (of_nat i) (vs ! i) s) is s') = get_utcb t s'" for "is" s'
      by (induction "is" arbitrary: s') (simp_all add: set_mr_def get_utcb_def)
    ultimately show ?case using Suc by (auto simp: get_mr_def set_mr_def get_utcb_def less_Suc_eq)
  qed simp
  then show ?thesis using assms by (simp add: set_mrs_def)
qed

lemma get_mr_cleanup:
  assumes "i < unat (n + 1)"
  shows "get_mr t (of_nat i) (exception_cleanup t n (saved_mrs t n s0) s) = get_mr t (of_nat i) s0"
proof -
  have "get_mr t (of_nat i) (exception_cleanup t n vs s) = get_mr t (of_nat i) (set_mrs t n vs s)" for vs
    by (simp add: exception_cleanup_def Let_def get_mr_def get_utcb_def set_partner_def set_saved_partner_def set_state_def set_saved_state_def)
  then show ?thesis using assms by (simp add: get_mr_set_mrs saved_mrs_def)
qed

lemma cleanup_thread:
  "get_partner t (exception_cleanup t n vs s) = get_saved_partner t s"
  "get_state t (exception_cleanup t n vs s) = get_saved_state t s"
  "get_saved_partner t (exception_cleanup t n vs s) = nilthread" "get_saved_state t (exception_cleanup t n vs s) = aborted"
  "get_user_ip t (exception_cleanup t n vs s) = get_user_ip t s" "get_user_sp t (exception_cleanup t n vs s) = get_user_sp t s"
  "get_user_flags t (exception_cleanup t n vs s) = get_user_flags t s"
  by (simp_all add: exception_cleanup_def Let_def get_partner_def get_state_def get_saved_partner_def get_saved_state_def
      set_partner_def set_saved_partner_def set_state_def set_saved_state_def exception_ops)

lemma same_mr:
  "get_user_ip t (set_mr t' i v s) = get_user_ip t s" "get_user_sp t (set_mr t' i v s) = get_user_sp t s"
  "get_user_flags t (set_mr t' i v s) = get_user_flags t s" "get_local_id t (set_mr t' i v s) = get_local_id t s"
  "get_exception_handler t (set_mr t' i v s) = get_exception_handler t s"
  "get_saved_partner t (set_mr t' i v s) = get_saved_partner t s" "get_saved_state t (set_mr t' i v s) = get_saved_state t s"
  by (simp_all add: exception_ops get_local_id_def set_mr_def get_exception_handler_def get_utcb_def get_saved_partner_def get_saved_state_def)

lemma same_exception_save:
  "get_user_ip t (exception_save t s) = get_user_ip t s" "get_user_sp t (exception_save t s) = get_user_sp t s"
  "get_user_flags t (exception_save t s) = get_user_flags t s" "get_local_id t (exception_save t s) = get_local_id t s"
  "get_exception_handler t (exception_save t s) = get_exception_handler t s"
  "get_saved_partner t (exception_save t s) = get_partner t s" "get_saved_state t (exception_save t s) = get_state t s"
  by (simp_all add: exception_ops get_local_id_def exception_save_def Let_def set_saved_partner_def set_saved_state_def
      get_exception_handler_def get_utcb_def get_saved_partner_def get_saved_state_def get_partner_def get_state_def)

lemma same_exception_ipc:
  "get_exception_handler t (set_exception_ipc t s) = get_exception_handler t s"
  "get_saved_partner t (set_exception_ipc t s) = get_saved_partner t s" "get_saved_state t (set_exception_ipc t s) = get_saved_state t s"
  by (simp_all add: exception_ops get_exception_handler_def get_utcb_def get_saved_partner_def get_saved_state_def)

lemmas request_same = same_mr same_exception_save same_exception_ipc set_tag_def Let_def

lemma exception_request_mrs:
  "map (\<lambda>i. get_mr t (of_nat i) (exception_request t exc_no exc_code s)) [0..<7] =
    [msg_tag_set 0 6 EXCEPT_IPC_GEN_LABEL, get_user_ip t s, get_user_sp t s, get_user_flags t s, exc_no, exc_code, get_local_id t s]"
  by (simp add: exception_request_def request_same)
    (simp add: upt_rec EXCEPT_IPC_GEN_MR_NUM_def set_exception_ipc_def set_mr_def get_mr_def get_utcb_def)

lemma set_mr_frame:
  "get_current_tcb (set_mr t i v s) = get_current_tcb s" "get_global_id x (set_mr t i v s) = get_global_id x s"
  "get_state x (set_mr t i v s) = get_state x s" "get_partner x (set_mr t i v s) = get_partner x s"
  by (simp_all add: set_mr_def get_current_tcb_def get_global_id_def get_state_def get_partner_def)

lemma exception_request_frame:
  "get_current_tcb (exception_request t n c s) = get_current_tcb s"
  "get_global_id x (exception_request t n c s) = get_global_id x s"
  "get_state x (exception_request t n c s) = get_state x s" "get_partner x (exception_request t n c s) = get_partner x s"
proof -
  have e: "get_current_tcb (exception_save t s) = get_current_tcb s" "get_global_id x (exception_save t s) = get_global_id x s"
    "get_state x (exception_save t s) = get_state x s" "get_partner x (exception_save t s) = get_partner x s" for s
    by (simp_all add: exception_save_def Let_def set_saved_partner_def set_saved_state_def get_current_tcb_def
        get_global_id_def get_state_def get_partner_def)
  have i: "get_current_tcb (set_exception_ipc t s) = get_current_tcb s" "get_global_id x (set_exception_ipc t s) = get_global_id x s"
    "get_state x (set_exception_ipc t s) = get_state x s" "get_partner x (set_exception_ipc t s) = get_partner x s" for s
    by (simp_all add: set_exception_ipc_def get_current_tcb_def get_global_id_def get_state_def get_partner_def)
  show "get_current_tcb (exception_request t n c s) = get_current_tcb s"
    "get_global_id x (exception_request t n c s) = get_global_id x s"
    "get_state x (exception_request t n c s) = get_state x s" "get_partner x (exception_request t n c s) = get_partner x s"
    by (simp_all add: exception_request_def Let_def set_tag_def set_mr_frame e i)
qed

text \<open>The user context after the reply.\<close>

lemma reply_context:
  "get_user_ip t (exception_reply t tag n (clear_exception_ipc t r)) = (if is_error tag then get_user_ip t r else get_mr t n r)"
  "get_user_sp t (exception_reply t tag n (clear_exception_ipc t r)) = (if is_error tag then get_user_sp t r else get_mr t (n + 1) r)"
  "get_user_flags t (exception_reply t tag n (clear_exception_ipc t r)) = get_user_flags t r"
  "get_saved_partner t (exception_reply t tag n (clear_exception_ipc t r)) = get_saved_partner t r"
  "get_saved_state t (exception_reply t tag n (clear_exception_ipc t r)) = get_saved_state t r"
  "get_mr t i (exception_reply t tag n (clear_exception_ipc t r)) = get_mr t i r"
  by (simp_all add: exception_reply_def Let_def exception_ops get_saved_partner_def get_saved_state_def get_mr_def get_utcb_def)

text \<open>C19: an exception message is transparent to the thread.  The message to the handler has the instruction pointer,
  the stack pointer, the flags, the number and the code of the exception and the local identifier of the thread.  When
  the exchange with the handler is over and has kept the thread's saved partner and state, the message registers that were
  used, the partner and the state of the thread are what they were before the exception; the thread goes on at the
  instruction and stack pointer of the reply, or, if the exchange failed, at its own, and its status word is unchanged.\<close>

theorem send_exception_ipc_transparent:
  assumes t: "get_current_tcb s = t" and h: "get_exception_handler t s = h" "\<not> is_nilthread h"
    and p: "exception_request t exc_no exc_code s = p" and run: "do_ipc xfer sw t h h timeout_never p = Some (tag, r)"
    and keeps: "get_saved_partner t r = get_saved_partner t p" "get_saved_state t r = get_saved_state t p"
  shows "map (\<lambda>i. get_mr t (of_nat i) p) [0..<7] = [msg_tag_set 0 6 EXCEPT_IPC_GEN_LABEL, get_user_ip t s, get_user_sp t s,
      get_user_flags t s, exc_no, exc_code, get_local_id t s] \<and>
    (\<exists>s'. send_exception_ipc xfer sw exc_no exc_code s = Some (\<not> is_error tag, s') \<and>
       map (\<lambda>i. get_mr t (of_nat i) s') [0..<7] = map (\<lambda>i. get_mr t (of_nat i) s) [0..<7] \<and>
       get_partner t s' = get_partner t s \<and> get_state t s' = get_state t s \<and>
       get_user_ip t s' = (if is_error tag then get_user_ip t r else get_mr t 1 r) \<and>
       get_user_sp t s' = (if is_error tag then get_user_sp t r else get_mr t 2 r) \<and>
       get_user_flags t s' = get_user_flags t r)"
proof -
  have hp: "get_exception_handler t p = h" using h(1) by (simp add: p [symmetric] exception_request_def request_same)
  have sv: "get_saved_partner t p = get_partner t s" "get_saved_state t p = get_state t s"
    by (simp_all add: p [symmetric] exception_request_def request_same)
  obtain s' where s': "send_exception_ipc xfer sw exc_no exc_code s = Some (\<not> is_error tag, s')"
    "s' = exception_cleanup t EXCEPT_IPC_GEN_MR_NUM (saved_mrs t EXCEPT_IPC_GEN_MR_NUM s)
      (exception_reply t tag 1 (clear_exception_ipc t r))"
    using run h(2) hp by (simp add: send_exception_ipc_def Let_def t h(1) p)
  have "map (\<lambda>i. get_mr t (of_nat i) s') [0..<7] = map (\<lambda>i. get_mr t (of_nat i) s) [0..<7]"
    using get_mr_cleanup [of _ EXCEPT_IPC_GEN_MR_NUM t s] by (simp add: s'(2) EXCEPT_IPC_GEN_MR_NUM_def)
  then show ?thesis
    using s'(1) keeps sv exception_request_mrs [of t exc_no exc_code s]
    by (simp add: p) (simp add: s'(2) cleanup_thread reply_context)
qed

text \<open>A call to a thread that waits for the caller: the message is delivered, and the caller waits for the reply.\<close>

lemma do_ipc_call:
  assumes "get_current_tcb p = t" "\<not> is_nilthread h" "get_global_id (get_tcb h) p = h"
    "get_typed (get_tag t p) = 0" "\<not> is_propagated (get_tag t p)" "is_receiver_ready t (get_tcb h) (get_global_id t p) p"
  shows "do_ipc xfer sw t h h timeout_never p = do {
    r \<leftarrow> sw t (get_tcb h) (set_state t waiting_forever (set_partner t h
      (set_tag (get_tcb h) (clear_receive_flags (get_tag t p)) (set_partner (get_tcb h) (get_global_id t p) p))));
    Some (get_mr t 0 (set_state t running r), set_state t running r) }"
  using assms
  by (simp add: do_ipc_def sys_ipc_def Let_def ipc_send_def ipc_sender_id_def ipc_transfer_untyped ipc_finish_def ipc_receive_def
      timeout_is_never_def timeout_never_def is_nilthread_def)

definition faulting_thread :: kstate where
  "faulting_thread = upd_utcb (Utcb 0x1000) (\<lambda>u. u\<lparr>u_exception_handler := 0x200000001, u_mr := \<lambda>i. i + 1\<rparr>)
     (ipc_pair waiting_forever anythread)"

text \<open>The handler replies with a new instruction pointer.\<close>

definition skip_handler :: switcher where
  "skip_handler this dest s = Some (set_mr this 1 0x5004 (set_mr this 0 0x1 s))"

theorem send_exception_ipc_transparent_witness:
  "\<exists>s'. send_exception_ipc refuse_typed skip_handler 12 0 faulting_thread = Some (True, s') \<and>
     get_user_ip (Tcb 1) s' = 0x5004 \<and> get_state (Tcb 1) s' = running \<and>
     map (\<lambda>i. get_mr (Tcb 1) (of_nat i) s') [0..<7] = [1, 2, 3, 4, 5, 6, 7]"
proof -
  let ?s = faulting_thread
  let ?p = "exception_request (Tcb 1) 12 0 ?s"
  have ev: "get_current_tcb ?s = Tcb 1" "get_exception_handler (Tcb 1) ?s = 0x200000001" "get_utcb (Tcb 1) ?s = Utcb 0x1000"
    "get_state (Tcb 1) ?s = running" "map (\<lambda>i. get_mr (Tcb 1) (of_nat i) ?s) [0..<7] = [1, 2, 3, 4, 5, 6, 7]"
    by (simp_all add: faulting_thread_def get_current_tcb_def get_exception_handler_def get_utcb_def get_state_def get_mr_def
        ipc_pair_def upt_rec)
  have nn: "\<not> is_nilthread 0x200000001" by (simp add: is_nilthread_def)
  have p: "get_current_tcb ?p = Tcb 1" "get_global_id (Tcb 2) ?p = 0x200000001" "get_global_id (Tcb 1) ?p = 0x100000001"
    "get_tag (Tcb 1) ?p = msg_tag_set 0 6 EXCEPT_IPC_GEN_LABEL" "get_state (Tcb 2) ?p = waiting_forever"
    "get_partner (Tcb 2) ?p = anythread"
    using exception_request_mrs [of "Tcb 1" 12 0 ?s]
    by (simp_all add: upt_rec get_tag_def exception_request_frame)
      (simp_all add: get_current_tcb_def get_global_id_def get_state_def get_partner_def faulting_thread_def ipc_pair_def)
  have tg: "get_typed (msg_tag_set 0 6 EXCEPT_IPC_GEN_LABEL) = 0" "\<not> is_propagated (msg_tag_set 0 6 EXCEPT_IPC_GEN_LABEL)"
    "\<not> is_error 1" by code_simp+
  have rd: "is_receiver_ready (Tcb 1) (get_tcb 0x200000001) (get_global_id (Tcb 1) ?p) ?p"
    by (simp add: is_receiver_ready_def get_tcb_eval p is_waiting_def is_anythread_def anythread_def)
  obtain r where r: "do_ipc refuse_typed skip_handler (Tcb 1) 0x200000001 0x200000001 timeout_never ?p = Some (1, r)"
    "get_saved_partner (Tcb 1) r = get_saved_partner (Tcb 1) ?p" "get_saved_state (Tcb 1) r = get_saved_state (Tcb 1) ?p"
    "get_mr (Tcb 1) 1 r = 0x5004"
    using do_ipc_call [OF p(1) nn _ _ _ rd, of refuse_typed skip_handler] tg
    by (simp add: get_tcb_eval p skip_handler_def set_tag_def)
      (simp add: set_state_def set_partner_def set_mr_def get_mr_def get_utcb_def get_saved_partner_def get_saved_state_def)
  show ?thesis
    using send_exception_ipc_transparent [OF ev(1,2) nn refl r(1-3)] tg(3) ev(4,5) r(4) by auto
qed

text \<open>An exception that cannot be delivered halts the thread.  For every exception code but illegal instruction and
  coprocessor unusable, when the thread has no exception handler, the thread is halted and the idle thread runs; no other
  thread, no message register and no memory changes.\<close>

theorem mips64_exception_halts:
  assumes "is_nilthread (get_exception_handler (get_current_tcb s) s)"
    and "CAUSE_EXCCODE_NUM (c_cause (x_context c)) \<notin> {10, 11}"
  shows "\<exists>s'. mips64_exception xfer sw dummy_tcb kip_addr (c, s) = Some (c, s') \<and> get_current_tcb s' = Idle_tcb \<and>
    get_state (get_current_tcb s) s' = halted \<and> utcbs s' = utcbs s \<and> kmem s' = kmem s \<and> scheduler s' = scheduler s \<and>
    (\<forall>u. u \<noteq> get_current_tcb s \<longrightarrow> tcbs s' u = tcbs s u)"
proof -
  have u: "unhandled_exception xfer sw n code s1 = Some (halt_user_thread s1)"
    if "get_current_tcb s1 = get_current_tcb s" "get_exception_handler (get_current_tcb s) s1 = get_exception_handler (get_current_tcb s) s" for n code s1
    using assms(1) that by (simp add: unhandled_exception_def send_exception_ipc_def Let_def)
  have n: "get_current_tcb (next_instruction s) = get_current_tcb s"
    "get_exception_handler (get_current_tcb s) (next_instruction s) = get_exception_handler (get_current_tcb s) s"
    by (simp_all add: next_instruction_def set_user_ip_def get_current_tcb_def get_exception_handler_def get_utcb_def)
  have h: "get_current_tcb (halt_user_thread x) = Idle_tcb" "get_state (get_current_tcb x) (halt_user_thread x) = halted"
    "utcbs (halt_user_thread x) = utcbs x" "kmem (halt_user_thread x) = kmem x" "scheduler (halt_user_thread x) = scheduler x"
    "u \<noteq> get_current_tcb x \<Longrightarrow> tcbs (halt_user_thread x) u = tcbs x u" for x u
    by (simp_all add: halt_user_thread_def Let_def switch_to_idle_def switch_to_def set_state_def get_state_def get_current_tcb_def)
  let ?x = "if CAUSE_EXCCODE_NUM (c_cause (x_context c)) = 13 then next_instruction s else s"
  have e: "mips64_exception xfer sw dummy_tcb kip_addr (c, s) = Some (c, halt_user_thread ?x)"
    using assms(2) u [OF refl refl] u [OF n] by (simp add: mips64_exception_def Let_def mips64_break_def mips64_watch_def)
  have x: "get_current_tcb ?x = get_current_tcb s" "utcbs ?x = utcbs s" "kmem ?x = kmem s" "scheduler ?x = scheduler s"
    "u \<noteq> get_current_tcb s \<Longrightarrow> tcbs ?x u = tcbs s u" for u
    by (simp_all add: next_instruction_def set_user_ip_def get_current_tcb_def)
  show ?thesis using e h [where x = ?x] x by (intro exI [of _ "halt_user_thread ?x"]) auto
qed

definition blank_context :: mips64_irq_context_t where
  "blank_context = \<lparr>c_ra = 0, c_v0 = 0, c_v1 = 0, c_a1 = 0, c_cause = 0, c_a2 = 0, c_a3 = 0, c_t9 = 0, c_a0 = 0, c_gp = 0, c_at = 0,
     c_t0 = 0, c_t1 = 0, c_hi = 0, c_t2 = 0, c_t3 = 0, c_lo = 0, c_t4 = 0, c_t5 = 0, c_t6 = 0, c_t7 = 0, c_t8 = 0, c_s0 = 0,
     c_s1 = 0, c_s2 = 0, c_s3 = 0, c_s4 = 0, c_s5 = 0, c_s6 = 0, c_s7 = 0, c_s8 = 0\<rparr>"

definition sample_cpu :: "word_t \<Rightarrow> cpu_t" where
  "sample_cpu cause = \<lparr>x_context = blank_context\<lparr>c_cause := cause, c_v0 := 7\<rparr>, x_badvaddr = 0x123, x_llval_address = 0x8000,
     x_llval_space = 0x4000, x_fpu = sample_fpu, x_umem = (\<lambda>_. 0)\<rparr>"

text \<open>An arithmetic overflow, code 12, of a thread without a handler.\<close>

theorem mips64_exception_halts_witness:
  "\<exists>s'. mips64_exception refuse_typed switch_now 0 0 (sample_cpu 0x30, ipc_pair running 0) = Some (sample_cpu 0x30, s') \<and>
     get_current_tcb s' = Idle_tcb \<and> get_state (Tcb 1) s' = halted"
proof -
  have h: "is_nilthread (get_exception_handler (get_current_tcb (ipc_pair running 0)) (ipc_pair running 0))"
    by (simp add: ipc_pair_eval get_exception_handler_def get_utcb_def ipc_pair_def blank_state_def blank_utcb_def is_nilthread_def)
  have n: "CAUSE_EXCCODE_NUM (c_cause (x_context (sample_cpu 0x30))) \<notin> {10, 11}"
    by (simp add: CAUSE_EXCCODE_NUM_def sample_cpu_def blank_context_def)
  show ?thesis using mips64_exception_halts [OF h n, of refuse_typed switch_now 0 0] by (auto simp: ipc_pair_eval)
qed

section \<open>Load linked and store conditional\<close>

lemma load_store_u32: "load_u32 a (store_u32 a v m) = v"
proof (rule bit_word_eqI)
  fix n assume "n < LENGTH(32)"
  then have n: "n < 32" by simp
  consider "n < 8" | "8 \<le> n" "n < 16" | "16 \<le> n" "n < 24" | "24 \<le> n" by linarith
  then show "bit (load_u32 a (store_u32 a v m)) n = bit v n"
    using n by cases (auto simp: load_u32_def store_u32_def bit_simps)
qed

lemma load_store_word: "load_word a (store_word a v m) = v"
proof -
  have "load_u32 a (store_u32 (a + 4) w m') = load_u32 a m'" for w m'
    by (simp add: load_u32_def store_u32_def)
  then have "load_word a (store_word a v m) = push_bit 32 (ucast (ucast (drop_bit 32 v) :: u32_t)) OR ucast (ucast v :: u32_t)"
    by (simp add: load_word_def store_word_def load_store_u32)
  also have "\<dots> = v" by (rule bit_word_eqI) (auto simp: bit_simps not_less)
  finally show ?thesis .
qed

lemma set_reg_cpu:
  "x_llval_address (fst (set_reg n v (c, s))) = x_llval_address c" "x_llval_space (fst (set_reg n v (c, s))) = x_llval_space c"
  "x_umem (fst (set_reg n v (c, s))) = x_umem c"
  by (simp_all add: set_reg_def)

text \<open>What a store conditional to an aligned address does.\<close>

lemma emulate_sc:
  assumes "is_sc op" "address AND instr_align op = 0"
  shows "emulate op rt address paddr space (c, s) = Some (if x_llval_address c = paddr \<and> x_llval_space c = space
    then set_reg rt 1 (c\<lparr>x_umem := (if op = 0x38 then store_u32 address (ucast (get_reg rt (c, s))) (x_umem c)
      else store_word address (get_reg rt (c, s)) (x_umem c))\<rparr>, s)
    else set_reg rt 0 (c, s))"
  using assms by (simp add: emulate_def Let_def)

text \<open>A store conditional stores if and only if the reservation is for its address.  The emulated instruction, on an
  aligned address, writes the register to memory and returns one in the register if the last load linked was to the
  same physical address in the same space; otherwise it returns zero and the memory is unchanged.  The other registers are
  unchanged in both cases.\<close>

theorem store_conditional_correct:
  assumes "is_sc op" "address AND instr_align op = 0" "rt < 32" "rt \<notin> {0, 26, 27}"
  shows "\<exists>c' s'. emulate op rt address paddr space (c, s) = Some (c', s') \<and>
    (if x_llval_address c = paddr \<and> x_llval_space c = space
     then get_reg rt (c', s') = 1 \<and>
       (if op = 0x38 then load_u32 address (x_umem c') = ucast (get_reg rt (c, s)) else load_word address (x_umem c') = get_reg rt (c, s))
     else get_reg rt (c', s') = 0 \<and> x_umem c' = x_umem c) \<and>
    (\<forall>n. n \<noteq> rt \<longrightarrow> get_reg n (c', s') = get_reg n (c, s))"
proof -
  have u: "get_reg n (c\<lparr>x_umem := m\<rparr>, s) = get_reg n (c, s)" for n m by (simp add: get_reg_def)
  let ?r = "if x_llval_address c = paddr \<and> x_llval_space c = space
    then set_reg rt 1 (c\<lparr>x_umem := (if op = 0x38 then store_u32 address (ucast (get_reg rt (c, s))) (x_umem c)
      else store_word address (get_reg rt (c, s)) (x_umem c))\<rparr>, s)
    else set_reg rt 0 (c, s)"
  have "emulate op rt address paddr space (c, s) = Some (fst ?r, snd ?r)" using emulate_sc [OF assms(1,2)] by simp
  then show ?thesis using assms(3,4)
    by (intro exI [of _ "fst ?r"] exI [of _ "snd ?r"])
      (simp add: set_reg_cpu load_store_u32 load_store_word get_reg_set_reg_eq get_reg_set_reg_neq u)
qed

theorem store_conditional_correct_witness:
  "\<exists>c' s'. emulate 0x3c 2 0x5000 0x8000 0x4000 (sample_cpu 0, ipc_pair running 0) = Some (c', s') \<and>
     get_reg 2 (c', s') = 1 \<and> load_word 0x5000 (x_umem c') = 7"
proof -
  have "get_reg 2 (sample_cpu 0, s) = 7" for s by (simp add: get_reg_def sample_cpu_def Let_def)
  moreover have "x_llval_address (sample_cpu 0) = 0x8000" "x_llval_space (sample_cpu 0) = 0x4000" by (simp_all add: sample_cpu_def)
  ultimately show ?thesis
    using store_conditional_correct [where op = "0x3c" and address = "0x5000" and rt = 2 and c = "sample_cpu 0" and paddr = "0x8000" and space = "0x4000"
      and s = "ipc_pair running 0"]
    by (simp add: is_sc_def instr_align_def) blast
qed

text \<open>
  The reservation outlives the store: after a successful store conditional another one to the same address succeeds too, with the
  registers of any thread, without a load linked in between.  Two threads of a space that
  interleave their sequences both store, and the first update is lost.
\<close>

theorem store_conditional_keeps_reservation:
  assumes "is_sc op" "emulate op rt address paddr space (c, s) = Some (c1, s1)" "x_llval_address c = paddr" "x_llval_space c = space"
    and "x_llval_address c2 = x_llval_address c1" "x_llval_space c2 = x_llval_space c1"
    and "address AND instr_align op = 0" "rt2 < 32" "rt2 \<notin> {0, 26, 27}"
  shows "\<exists>c3 s3. emulate op rt2 address paddr space (c2, s2) = Some (c3, s3) \<and> get_reg rt2 (c3, s3) = 1"
proof -
  have c1: "c1 = fst (set_reg rt 1 (c\<lparr>x_umem := (if op = 0x38 then store_u32 address (ucast (get_reg rt (c, s))) (x_umem c)
      else store_word address (get_reg rt (c, s)) (x_umem c))\<rparr>, s))"
    using assms(2) unfolding emulate_sc [OF assms(1,7)] by (simp only: assms(3,4) simp_thms if_True option.inject) simp
  let ?r = "set_reg rt2 1 (c2\<lparr>x_umem := (if op = 0x38 then store_u32 address (ucast (get_reg rt2 (c2, s2))) (x_umem c2)
      else store_word address (get_reg rt2 (c2, s2)) (x_umem c2))\<rparr>, s2)"
  have "x_llval_address c2 = paddr" "x_llval_space c2 = space" using assms(3-6) by (simp_all add: c1 set_reg_cpu)
  then have "emulate op rt2 address paddr space (c2, s2) = Some (fst ?r, snd ?r)"
    using emulate_sc [OF assms(1,7)] by simp
  moreover have "get_reg rt2 (fst ?r, snd ?r) = 1" using assms(8,9) by (simp add: get_reg_set_reg_eq)
  ultimately show ?thesis by blast
qed

text \<open>The fields of \<^verbatim>\<open>load_instr\<close> are in the order of a little-endian machine: on the big-endian configuration the
  instruction \<^verbatim>\<open>ll v0, 0(a0)\<close> is not recognised, and is reported as an illegal instruction.\<close>

theorem load_linked_not_recognised:
  assumes "load_u32 (get_user_ip (get_current_tcb s) s) (x_umem c) = 0xC0820000" "c_at (x_context c) \<noteq> MAGIC_KIP_REQUEST"
  shows "mips64_illegal xfer sw dummy_tcb kip_addr (c, s) = Some (False, 0xC0820000, c, s)"
  using assms by (simp add: mips64_illegal_def Let_def is_emulated_def is_sc_def instr_op_def)

end
