(* ===== verification/Tlb.thy ===== *)
theory Tlb
  imports Pagefault Memory_Control
begin

text \<open>
  The translation lookaside buffer: \<^verbatim>\<open>put_tc\<close> and \<^verbatim>\<open>purge_tc\<close> of
  \<^verbatim>\<open>arch/mips64/tlb.h\<close>, and the handlers of its exceptions in \<^verbatim>\<open>glue/v4-mips64/space.cc\<close>.

  The buffer of the processor is modelled as its manual describes it.  An entry translates a pair of pages of 4 KB;
  it has the region, the number of the pair and the address space identifier of \<^verbatim>\<open>EntryHi\<close>, one global bit,
  which is set if it is set in both words written, and the words \<^verbatim>\<open>EntryLo0\<close> and
  \<^verbatim>\<open>EntryLo1\<close>, of which 30 bits are implemented.  \<^verbatim>\<open>tlbwr\<close> writes the entry that
  the register \<^verbatim>\<open>Random\<close> names, an index below the number of entries.
\<close>

section \<open>The instructions\<close>

record tlb_entry =
  te_hi :: word_t
  te_g :: bool
  te_lo0 :: word_t
  te_lo1 :: word_t

type_synonym tlb = "tlb_entry list"

definition hi_region :: "word_t \<Rightarrow> word_t" where "hi_region hi = bf_get 62 2 hi"

definition hi_vpn2 :: "word_t \<Rightarrow> word_t" where "hi_vpn2 hi = bf_get 13 27 hi"

definition hi_asid :: "word_t \<Rightarrow> word_t" where "hi_asid hi = bf_get 0 8 hi"

definition same_pair :: "word_t \<Rightarrow> word_t \<Rightarrow> bool" where
  "same_pair hi hi' \<longleftrightarrow> hi_region hi = hi_region hi' \<and> hi_vpn2 hi = hi_vpn2 hi'"

definition tlb_match :: "word_t \<Rightarrow> tlb_entry \<Rightarrow> bool" where
  "tlb_match hi e \<longleftrightarrow> same_pair (te_hi e) hi \<and> (te_g e \<or> hi_asid (te_hi e) = hi_asid hi)"

definition tlbp :: "word_t \<Rightarrow> tlb \<Rightarrow> nat option" where
  "tlbp hi es = List.find (\<lambda>i. tlb_match hi (es ! i)) [0..<length es]"

definition tlbr :: "nat \<Rightarrow> tlb \<Rightarrow> word_t \<times> word_t \<times> word_t" where
  "tlbr i es = (te_hi (es ! i), te_lo0 (es ! i) OR of_bool (te_g (es ! i)), te_lo1 (es ! i) OR of_bool (te_g (es ! i)))"

definition lo_bits :: "word_t \<Rightarrow> word_t" where "lo_bits lo = take_bit 30 lo AND NOT 1"

definition tlbw :: "nat \<Rightarrow> word_t \<Rightarrow> word_t \<Rightarrow> word_t \<Rightarrow> tlb \<Rightarrow> tlb" where
  "tlbw i hi lo0 lo1 es = es[i := \<lparr>te_hi = hi, te_g = (bit lo0 0 \<and> bit lo1 0), te_lo0 = lo_bits lo0, te_lo1 = lo_bits lo1\<rparr>]"

text \<open>The translation of an address by the hardware: the word of the half of the pair, if it is valid.\<close>

definition page_hi :: "addr_t \<Rightarrow> word_t \<Rightarrow> word_t" where
  "page_hi vaddr asid = (vaddr AND NOT (push_bit 13 1 - 1)) OR asid"

definition te_half :: "addr_t \<Rightarrow> tlb_entry \<Rightarrow> word_t" where
  "te_half vaddr e = (if bit vaddr 12 then te_lo1 e else te_lo0 e)"

definition tlb_translate :: "word_t \<Rightarrow> addr_t \<Rightarrow> tlb \<Rightarrow> word_t option" where
  "tlb_translate asid vaddr es =
     (case tlbp (page_hi vaddr asid) es of
        None \<Rightarrow> None
      | Some i \<Rightarrow> let lo = te_half vaddr (es ! i) in if bit lo 1 then Some lo else None)"

section \<open>Updates (arch/mips64/tlb.h)\<close>

definition put_hi :: "translation_t \<Rightarrow> addr_t \<Rightarrow> nat \<Rightarrow> word_t \<Rightarrow> word_t" where
  "put_hi raw vaddr pshift asid =
     push_bit 62 (bf_get 62 2 raw) OR (if tr_get_global raw \<noteq> 0 then 0 else asid) OR
       push_bit 13 (drop_bit (pshift + 1) vaddr AND (push_bit 27 1 - 1))"

definition put_tc :: "nat \<Rightarrow> translation_t \<Rightarrow> addr_t \<Rightarrow> nat \<Rightarrow> word_t \<Rightarrow> tlb \<Rightarrow> tlb" where
  "put_tc rnd raw vaddr pshift asid es =
     (let entry_hi = put_hi raw vaddr pshift asid;
          is_odd = vaddr AND push_bit pshift 1 \<noteq> 0
      in case tlbp entry_hi es of
           Some i \<Rightarrow>
             let (hi, lo0, lo1) = tlbr i es
             in if is_odd then tlbw i hi lo0 raw es else tlbw i hi raw lo1 es
         | None \<Rightarrow>
             let (lo0, lo1) = (if is_odd then (1, raw) else (raw, 1)) in tlbw rnd entry_hi lo0 lo1 es)"

definition purge_tc :: "addr_t \<Rightarrow> nat \<Rightarrow> word_t \<Rightarrow> tlb \<Rightarrow> tlb" where
  "purge_tc vaddr pshift asid es =
     (let entry_hi = (vaddr AND NOT (push_bit (pshift + 1) 1 - 1)) OR asid
      in case tlbp entry_hi es of
           Some i \<Rightarrow>
             let (hi, lo0, lo1) = tlbr i es
             in if vaddr AND push_bit pshift 1 \<noteq> 0 then tlbw i hi lo0 0 es else tlbw i hi 0 lo1 es
         | None \<Rightarrow> es)"

section \<open>Uniqueness\<close>

text \<open>
  No two entries match the same address, which would be undefined for the processor, only entries of the kernel's regions
  are global, and the words have only the bits that are implemented.
\<close>

definition tlb_inv :: "tlb \<Rightarrow> bool" where
  "tlb_inv es \<longleftrightarrow>
     (\<forall>i<length es. \<forall>j<length es. i \<noteq> j \<longrightarrow> same_pair (te_hi (es ! i)) (te_hi (es ! j)) \<longrightarrow>
        \<not> te_g (es ! i) \<and> \<not> te_g (es ! j) \<and> hi_asid (te_hi (es ! i)) \<noteq> hi_asid (te_hi (es ! j))) \<and>
     (\<forall>e\<in>set es. (te_g e \<longrightarrow> hi_region (te_hi e) \<noteq> 0) \<and> lo_bits (te_lo0 e) = te_lo0 e \<and> lo_bits (te_lo1 e) = te_lo1 e)"

lemma find_upt_Some: "List.find P [0..<n] = Some i \<Longrightarrow> i < n \<and> P i"
  by (auto simp: find_Some_iff)

lemma tlbp_None: "tlbp hi es = None \<longleftrightarrow> (\<forall>i<length es. \<not> tlb_match hi (es ! i))"
  by (auto simp: tlbp_def find_None_iff)

lemma tlbp_SomeD: "tlbp hi es = Some i \<Longrightarrow> i < length es \<and> tlb_match hi (es ! i)"
  using find_upt_Some unfolding tlbp_def by blast

text \<open>With the invariant the entry that matches is the one found.\<close>

lemma tlb_match_unique:
  assumes "tlb_inv es" "i < length es" "j < length es" "tlb_match hi (es ! i)" "tlb_match hi (es ! j)"
  shows "i = j"
proof (rule ccontr)
  assume n: "i \<noteq> j"
  have s: "same_pair (te_hi (es ! i)) (te_hi (es ! j))" using assms(4,5) by (auto simp: tlb_match_def same_pair_def)
  then have "\<not> te_g (es ! i) \<and> \<not> te_g (es ! j) \<and> hi_asid (te_hi (es ! i)) \<noteq> hi_asid (te_hi (es ! j))"
    using assms(1-3) n unfolding tlb_inv_def by blast
  then show False using assms(4,5) by (auto simp: tlb_match_def)
qed

lemma tlbp_unique:
  assumes "tlb_inv es" "i < length es" "tlb_match hi (es ! i)" shows "tlbp hi es = Some i"
proof (cases "tlbp hi es")
  case None
  then show ?thesis using assms(2,3) tlbp_None by blast
next
  case (Some j)
  then show ?thesis using tlbp_SomeD [OF Some] tlb_match_unique [OF assms(1)] assms(2,3) by blast
qed

text \<open>An entry replaced by one with the same key, or by one whose key no other entry has, keeps the invariant.\<close>

lemma tlb_inv_update:
  assumes inv: "tlb_inv es" and i: "i < length es" and g: "\<not> te_g e" "lo_bits (te_lo0 e) = te_lo0 e" "lo_bits (te_lo1 e) = te_lo1 e"
    and k: "\<And>j. j < length es \<Longrightarrow> j \<noteq> i \<Longrightarrow> \<not> tlb_match (te_hi e) (es ! j)"
  shows "tlb_inv (es[i := e])"
proof -
  have d: "\<not> te_g (es ! j) \<and> hi_asid (te_hi (es ! j)) \<noteq> hi_asid (te_hi e)"
    if "j < length es" "j \<noteq> i" "same_pair (te_hi (es ! j)) (te_hi e)" for j
    using k [OF that(1,2)] that(3) by (auto simp: tlb_match_def)
  have sym: "same_pair a b = same_pair b a" for a b by (auto simp: same_pair_def)
  have "\<not> te_g (es[i := e] ! a) \<and> \<not> te_g (es[i := e] ! b) \<and> hi_asid (te_hi (es[i := e] ! a)) \<noteq> hi_asid (te_hi (es[i := e] ! b))"
    if "a < length es" "b < length es" "a \<noteq> b" "same_pair (te_hi (es[i := e] ! a)) (te_hi (es[i := e] ! b))" for a b
  proof -
    consider "a = i" "b \<noteq> i" | "b = i" "a \<noteq> i" | "a \<noteq> i" "b \<noteq> i" using \<open>a \<noteq> b\<close> by blast
    then show ?thesis
    proof cases
      case 1
      then show ?thesis using d [of b] that i g sym by (metis nth_list_update_eq nth_list_update_neq)
    next
      case 2
      then show ?thesis using d [of a] that i g by (metis nth_list_update_eq nth_list_update_neq)
    next
      case 3
      then show ?thesis using inv that unfolding tlb_inv_def by simp
    qed
  qed
  moreover have "(te_g x \<longrightarrow> hi_region (te_hi x) \<noteq> 0) \<and> lo_bits (te_lo0 x) = te_lo0 x \<and> lo_bits (te_lo1 x) = te_lo1 x"
    if "x \<in> set (es[i := e])" for x
    using inv g set_update_subset_insert [of es i e] that unfolding tlb_inv_def by blast
  ultimately show ?thesis unfolding tlb_inv_def by simp
qed

text \<open>The translations after the update of an entry.\<close>

lemma tlb_translate_update:
  assumes "tlb_inv es" "tlb_inv (es[i := e])" "i < length es"
  shows "tlb_translate asid v (es[i := e]) =
    (if tlb_match (page_hi v asid) e then if bit (te_half v e) 1 then Some (te_half v e) else None
     else if tlb_match (page_hi v asid) (es ! i) then None else tlb_translate asid v es)"
proof (cases "tlb_match (page_hi v asid) e")
  case True
  then have "tlbp (page_hi v asid) (es[i := e]) = Some i" using assms by (intro tlbp_unique) auto
  then show ?thesis using True assms(3) by (simp add: tlb_translate_def Let_def)
next
  case False
  have n: "j < length es \<Longrightarrow> tlb_match (page_hi v asid) (es[i := e] ! j) \<longleftrightarrow> j \<noteq> i \<and> tlb_match (page_hi v asid) (es ! j)" for j
    using False by (cases "j = i") auto
  show ?thesis
  proof (cases "tlbp (page_hi v asid) es")
    case None
    then have "tlbp (page_hi v asid) (es[i := e]) = None" using n by (simp add: tlbp_None)
    then show ?thesis using None False by (simp add: tlb_translate_def)
  next
    case (Some j)
    then have j: "j < length es" "tlb_match (page_hi v asid) (es ! j)" using tlbp_SomeD by blast+
    show ?thesis
    proof (cases "j = i")
      case True
      have "\<not> tlb_match (page_hi v asid) (es[i := e] ! k)" if "k < length es" for k
        using n [OF that] tlb_match_unique [OF assms(1) that assms(3)] j True by auto
      then have "tlbp (page_hi v asid) (es[i := e]) = None" by (simp add: tlbp_None)
      then show ?thesis using False True j by (simp add: tlb_translate_def)
    next
      case jn: False
      have "tlbp (page_hi v asid) (es[i := e]) = Some j" using assms j jn by (intro tlbp_unique) auto
      moreover have "\<not> tlb_match (page_hi v asid) (es ! i)" using tlb_match_unique [OF assms(1,3) j(1)] j(2) jn by blast
      ultimately show ?thesis using False Some jn by (simp add: tlb_translate_def)
    qed
  qed
qed

section \<open>Pages of user space\<close>

text \<open>A user address has 40 bits, an identifier 8.\<close>

definition user_page :: "word_t \<Rightarrow> addr_t \<Rightarrow> bool" where
  "user_page asid v \<longleftrightarrow> drop_bit 40 v = 0 \<and> take_bit 8 asid = asid"

lemma user_page_bits: "user_page asid v \<Longrightarrow> 40 \<le> n \<Longrightarrow> \<not> bit v n" "user_page asid v \<Longrightarrow> 8 \<le> n \<Longrightarrow> \<not> bit asid n"
proof -
  assume u: "user_page asid v"
  show "\<not> bit v n" if "40 \<le> n"
  proof -
    have "bit (drop_bit 40 v) (n - 40) = bit v n" using that by (simp add: bit_drop_bit_eq)
    then show ?thesis using u by (simp add: user_page_def)
  qed
  show "\<not> bit asid n" if "8 \<le> n"
  proof -
    have "bit (take_bit 8 asid) n = (n < 8 \<and> bit asid n)" by (simp add: bit_take_bit_iff)
    then show ?thesis using u that by (simp add: user_page_def)
  qed
qed

lemma low_bits_13: "bit (push_bit 13 1 - 1 :: word_t) n \<longleftrightarrow> n < 13"
proof -
  have e: "(push_bit 13 1 - 1 :: word_t) = mask 13" by (simp add: mask_eq_exp_minus_1)
  show ?thesis unfolding e bit_mask_iff by auto
qed

lemma low_bits_27: "bit (push_bit 27 1 - 1 :: word_t) n \<longleftrightarrow> n < 27"
proof -
  have e: "(push_bit 27 1 - 1 :: word_t) = mask 27" by (simp add: mask_eq_exp_minus_1)
  show ?thesis unfolding e bit_mask_iff by auto
qed

lemma page_hi_fields:
  assumes "user_page asid v"
  shows "hi_region (page_hi v asid) = 0" "hi_vpn2 (page_hi v asid) = drop_bit 13 v" "hi_asid (page_hi v asid) = asid"
proof -
  note b = user_page_bits [OF assms]
  have p: "bit (page_hi v asid) n \<longleftrightarrow> n < 64 \<and> (if n < 13 then bit asid n else bit v n)" for n
    using b(2) [of n] unfolding page_hi_def bit_or_iff bit_and_iff bit_not_iff low_bits_13 by auto
  show "hi_region (page_hi v asid) = 0" unfolding hi_region_def bf_get_def
    by (rule bit_word_eqI) (auto simp: bit_simps p b)
  show "hi_vpn2 (page_hi v asid) = drop_bit 13 v" unfolding hi_vpn2_def bf_get_def
    using b(1) [of "13 + _"] by (intro bit_word_eqI) (auto simp: bit_simps p b not_less intro: ccontr dest: bit_imp_le_length)
  show "hi_asid (page_hi v asid) = asid" unfolding hi_asid_def bf_get_def
    using b(2) by (intro bit_word_eqI) (auto simp: bit_simps p not_less intro: ccontr)
qed

lemma put_hi_fields:
  assumes "user_page asid v" "tr_get_global raw = 0" "bf_get 62 2 raw = 0"
  shows "hi_region (put_hi raw v 12 asid) = 0" "hi_vpn2 (put_hi raw v 12 asid) = drop_bit 13 v" "hi_asid (put_hi raw v 12 asid) = asid"
proof -
  note b = user_page_bits [OF assms(1)]
  have p: "bit (put_hi raw v 12 asid) n \<longleftrightarrow> n < 64 \<and> (if n < 13 then bit asid n else bit v n)" for n
    using b(2) [of n] b(1) [of n] unfolding put_hi_def assms(2,3) bit_or_iff bit_push_bit_iff bit_and_iff low_bits_27
    by (cases "40 \<le> n") (auto simp: bit_drop_bit_eq)
  show "hi_region (put_hi raw v 12 asid) = 0" unfolding hi_region_def bf_get_def
    by (rule bit_word_eqI) (auto simp: bit_simps p b)
  show "hi_vpn2 (put_hi raw v 12 asid) = drop_bit 13 v" unfolding hi_vpn2_def bf_get_def
    using b(1) [of "13 + _"] by (intro bit_word_eqI) (auto simp: bit_simps p b not_less intro: ccontr dest: bit_imp_le_length)
  show "hi_asid (put_hi raw v 12 asid) = asid" unfolding hi_asid_def bf_get_def
    using b(2) by (intro bit_word_eqI) (auto simp: bit_simps p not_less intro: ccontr)
qed

text \<open>The entry that is found for a user page is not global.\<close>

lemma user_entry:
  assumes "tlb_inv es" "tlbp hi es = Some i" "hi_region hi = 0"
  shows "i < length es" "\<not> te_g (es ! i)" "same_pair (te_hi (es ! i)) hi" "hi_asid (te_hi (es ! i)) = hi_asid hi"
    "lo_bits (te_lo0 (es ! i)) = te_lo0 (es ! i)" "lo_bits (te_lo1 (es ! i)) = te_lo1 (es ! i)"
proof -
  show i: "i < length es" and s: "same_pair (te_hi (es ! i)) hi" using tlbp_SomeD [OF assms(2)] by (auto simp: tlb_match_def)
  have "(te_g (es ! i) \<longrightarrow> hi_region (te_hi (es ! i)) \<noteq> 0) \<and> lo_bits (te_lo0 (es ! i)) = te_lo0 (es ! i) \<and> lo_bits (te_lo1 (es ! i)) = te_lo1 (es ! i)"
    using assms(1) i unfolding tlb_inv_def by simp
  then show g: "\<not> te_g (es ! i)" and "lo_bits (te_lo0 (es ! i)) = te_lo0 (es ! i)" "lo_bits (te_lo1 (es ! i)) = te_lo1 (es ! i)"
    using s assms(3) by (auto simp: same_pair_def)
  show "hi_asid (te_hi (es ! i)) = hi_asid hi" using g tlbp_SomeD [OF assms(2)] by (auto simp: tlb_match_def)
qed

text \<open>An entry for a pair of user pages.\<close>

definition user_pair :: "word_t \<Rightarrow> addr_t \<Rightarrow> tlb_entry \<Rightarrow> bool" where
  "user_pair asid v e \<longleftrightarrow> \<not> te_g e \<and> hi_region (te_hi e) = 0 \<and> hi_vpn2 (te_hi e) = drop_bit 13 v \<and> hi_asid (te_hi e) = asid \<and>
     lo_bits (te_lo0 e) = te_lo0 e \<and> lo_bits (te_lo1 e) = te_lo1 e"

lemma user_pair_match:
  assumes "user_pair asid v e" "user_page a w"
  shows "tlb_match (page_hi w a) e \<longleftrightarrow> a = asid \<and> drop_bit 13 w = drop_bit 13 v"
  using assms page_hi_fields [OF assms(2)] by (auto simp: tlb_match_def same_pair_def user_pair_def)

lemma lo_bits_idem: "lo_bits (lo_bits x) = lo_bits x"
proof -
  have b: "bit (lo_bits y) n \<longleftrightarrow> 0 < n \<and> n < 30 \<and> bit y n" for y n
    unfolding lo_bits_def bit_and_iff bit_not_iff bit_take_bit_iff bit_1_iff by (auto dest: bit_imp_le_length)
  show ?thesis by (rule bit_word_eqI) (auto simp: b)
qed

lemma same_page: "drop_bit 12 w = drop_bit 12 v \<longleftrightarrow> drop_bit 13 w = drop_bit 13 v \<and> bit w 12 = bit v 12" for v w :: word_t
proof
  assume e: "drop_bit 12 w = drop_bit 12 v"
  have "drop_bit 1 (drop_bit 12 w) = drop_bit 1 (drop_bit 12 v)" "bit (drop_bit 12 w) 0 = bit (drop_bit 12 v) 0" using e by simp_all
  then show "drop_bit 13 w = drop_bit 13 v \<and> bit w 12 = bit v 12" unfolding drop_bit_drop_bit bit_drop_bit_eq by simp
next
  assume e: "drop_bit 13 w = drop_bit 13 v \<and> bit w 12 = bit v 12"
  show "drop_bit 12 w = drop_bit 12 v"
  proof (rule bit_word_eqI)
    fix n
    have d: "bit w (13 + k) = bit v (13 + k)" for k using e by (metis bit_drop_bit_eq comp_apply)
    show "bit (drop_bit 12 w) n = bit (drop_bit 12 v) n"
      using e d [of "n - 1"] by (cases n) (simp_all add: bit_drop_bit_eq)
  qed
qed

lemma page_hi_same: "drop_bit 13 w = drop_bit 13 v \<Longrightarrow> page_hi w a = page_hi v a"
proof -
  assume e: "drop_bit 13 w = drop_bit 13 v"
  have "bit w n = bit v n" if "13 \<le> n" for n
  proof -
    have "bit x n = bit (drop_bit 13 x) (n - 13)" for x :: word_t using that by (simp add: bit_drop_bit_eq)
    then show ?thesis using e by simp
  qed
  then show ?thesis unfolding page_hi_def
    by (intro bit_word_eqI) (simp only: bit_or_iff bit_and_iff bit_not_iff low_bits_13, metis not_less)
qed

lemma odd_page: "v AND push_bit 12 1 \<noteq> 0 \<longleftrightarrow> bit v 12" for v :: word_t
  unfolding push_bit_of_1 and_exp_eq_0_iff_not_bit by simp

section \<open>Insertion and removal of a translation\<close>

lemma put_tc_hit:
  assumes "tlb_inv es" "user_page asid v" "tr_get_global raw = 0" "bf_get 62 2 raw = 0" "tlbp (put_hi raw v 12 asid) es = Some i"
  shows "\<exists>e. put_tc rnd raw v 12 asid es = es[i := e] \<and> i < length es \<and> user_pair asid v e \<and> te_half v e = lo_bits raw \<and>
    user_pair asid v (es ! i) \<and> (\<forall>w. bit w 12 \<noteq> bit v 12 \<longrightarrow> te_half w e = te_half w (es ! i))"
proof -
  note f = put_hi_fields [OF assms(2-4)]
  note u = user_entry [OF assms(1,5) f(1)]
  have g: "\<not> bit raw 0" using assms(3) by (simp add: tr_get_global_def bf_get_def take_bit_Suc odd_iff_mod_2_eq_one even_bit_succ_iff bit_0)
  have p: "user_pair asid v (es ! i)" using u f by (simp add: user_pair_def same_pair_def)
  let ?e = "if bit v 12 then \<lparr>te_hi = te_hi (es ! i), te_g = False, te_lo0 = te_lo0 (es ! i), te_lo1 = lo_bits raw\<rparr>
    else \<lparr>te_hi = te_hi (es ! i), te_g = False, te_lo0 = lo_bits raw, te_lo1 = te_lo1 (es ! i)\<rparr>"
  have "put_tc rnd raw v 12 asid es = es[i := ?e]"
    using assms(5) u(2,5,6) g unfolding put_tc_def Let_def odd_page by (simp add: tlbr_def tlbw_def)
  moreover have "user_pair asid v ?e" using p by (auto simp: user_pair_def lo_bits_idem)
  ultimately show ?thesis using u(1) p by (intro exI [of _ ?e]) (auto simp: te_half_def)
qed

lemma put_tc_miss:
  assumes "user_page asid v" "tr_get_global raw = 0" "bf_get 62 2 raw = 0" "tlbp (put_hi raw v 12 asid) es = None"
  shows "\<exists>e. put_tc rnd raw v 12 asid es = es[rnd := e] \<and> te_hi e = put_hi raw v 12 asid \<and> user_pair asid v e \<and>
    te_half v e = lo_bits raw \<and> (\<forall>w. bit w 12 \<noteq> bit v 12 \<longrightarrow> te_half w e = 0)"
proof -
  note f = put_hi_fields [OF assms(1-3)]
  have g: "\<not> bit raw 0" using assms(2) by (simp add: tr_get_global_def bf_get_def take_bit_Suc odd_iff_mod_2_eq_one even_bit_succ_iff bit_0)
  have l: "lo_bits 1 = 0" "lo_bits 0 = 0" by (simp_all add: lo_bits_def)
  let ?e = "if bit v 12 then \<lparr>te_hi = put_hi raw v 12 asid, te_g = False, te_lo0 = 0, te_lo1 = lo_bits raw\<rparr>
    else \<lparr>te_hi = put_hi raw v 12 asid, te_g = False, te_lo0 = lo_bits raw, te_lo1 = 0\<rparr>"
  have "put_tc rnd raw v 12 asid es = es[rnd := ?e]"
    using assms(4) g unfolding put_tc_def Let_def odd_page by (simp add: tlbw_def l)
  moreover have "user_pair asid v ?e" using f by (simp add: user_pair_def lo_bits_idem l)
  ultimately show ?thesis by (intro exI [of _ ?e]) (auto simp: te_half_def)
qed

text \<open>The other entries do not match the new one.\<close>

lemma no_other_match:
  assumes "tlb_inv es" "i < length es" "user_pair asid v (es ! i)" "user_pair asid v e" "j < length es" "j \<noteq> i"
  shows "\<not> tlb_match (te_hi e) (es ! j)"
proof
  assume m: "tlb_match (te_hi e) (es ! j)"
  have "tlb_match (te_hi e) (es ! i)" using assms(3,4) by (auto simp: tlb_match_def same_pair_def user_pair_def)
  then show False using tlb_match_unique [OF assms(1,5,2) m] assms(6) by blast
qed

text \<open>A new value of one half of a pair leaves the other pages as they are.\<close>

lemma half_update:
  assumes inv: "tlb_inv es"
    and tr: "\<And>a w. tlb_translate a w (es[i := e]) =
      (if tlb_match (page_hi w a) e then if bit (te_half w e) 1 then Some (te_half w e) else None
       else if tlb_match (page_hi w a) (es ! i) then None else tlb_translate a w es)"
    and e: "i < length es" "user_pair asid v e" "user_pair asid v (es ! i)"
      "\<And>w. bit w 12 \<noteq> bit v 12 \<Longrightarrow> te_half w e = te_half w (es ! i)"
    and p: "user_page a w" "(a, drop_bit 12 w) \<noteq> (asid, drop_bit 12 v)"
  shows "tlb_translate a w (es[i := e]) = tlb_translate a w es"
proof (cases "a = asid \<and> drop_bit 13 w = drop_bit 13 v")
  case True
  then have "te_half w e = te_half w (es ! i)" using p(2) e(4) same_page [of w v] by auto
  moreover have "tlbp (page_hi w a) es = Some i"
    using tlbp_unique [OF inv e(1)] user_pair_match [OF e(3) p(1)] True by simp
  ultimately show ?thesis using tr [of a w] user_pair_match [OF e(2) p(1)] True by (simp add: tlb_translate_def Let_def)
next
  case False
  then show ?thesis using tr [of a w] user_pair_match [OF e(2) p(1)] user_pair_match [OF e(3) p(1)] by auto
qed

lemma put_insert:
  assumes inv: "tlb_inv es" and rnd: "rnd < length es" and u: "user_page asid v"
    and raw: "tr_get_global raw = 0" "bf_get 62 2 raw = 0"
  shows "tlb_inv (put_tc rnd raw v 12 asid es) \<and>
    tlb_translate asid v (put_tc rnd raw v 12 asid es) = (if bit (lo_bits raw) 1 then Some (lo_bits raw) else None) \<and>
    (\<forall>a w. user_page a w \<longrightarrow> (a, drop_bit 12 w) \<noteq> (asid, drop_bit 12 v) \<longrightarrow>
       tlb_translate a w (put_tc rnd raw v 12 asid es) \<in> {None, tlb_translate a w es})"
proof (cases "tlbp (put_hi raw v 12 asid) es")
  case (Some i)
  obtain e where e: "put_tc rnd raw v 12 asid es = es[i := e]" "i < length es" "user_pair asid v e" "te_half v e = lo_bits raw"
    "user_pair asid v (es ! i)" "\<And>w. bit w 12 \<noteq> bit v 12 \<Longrightarrow> te_half w e = te_half w (es ! i)"
    using put_tc_hit [OF inv u raw Some] by blast
  have inv': "tlb_inv (es[i := e])"
    by (rule tlb_inv_update [OF inv e(2)]) (use e(3) no_other_match [OF inv e(2,5,3)] in \<open>auto simp: user_pair_def\<close>)
  note tr = tlb_translate_update [OF inv inv' e(2)]
  have "tlb_translate a w (es[i := e]) = tlb_translate a w es"
    if "user_page a w" "(a, drop_bit 12 w) \<noteq> (asid, drop_bit 12 v)" for a w
    by (rule half_update [OF inv tr e(2,3,5,6) that])
  then show ?thesis using inv' tr [of asid v] user_pair_match [OF e(3) u] e(1,4) by auto
next
  case None
  obtain e where e: "put_tc rnd raw v 12 asid es = es[rnd := e]" "te_hi e = put_hi raw v 12 asid" "user_pair asid v e"
    "te_half v e = lo_bits raw" "\<And>w. bit w 12 \<noteq> bit v 12 \<Longrightarrow> te_half w e = 0"
    using put_tc_miss [OF u raw None] by blast
  have inv': "tlb_inv (es[rnd := e])"
    by (rule tlb_inv_update [OF inv rnd]) (use e(2,3) None in \<open>auto simp: user_pair_def tlbp_None\<close>)
  note tr = tlb_translate_update [OF inv inv' rnd]
  have "tlb_translate a w (es[rnd := e]) \<in> {None, tlb_translate a w es}"
    if "user_page a w" "(a, drop_bit 12 w) \<noteq> (asid, drop_bit 12 v)" for a w
  proof (cases "a = asid \<and> drop_bit 13 w = drop_bit 13 v")
    case True
    then have "te_half w e = 0" using that(2) e(5) same_page [of w v] by auto
    then show ?thesis using tr [of a w] user_pair_match [OF e(3) that(1)] True by simp
  next
    case False
    then show ?thesis using tr [of a w] user_pair_match [OF e(3) that(1)] by auto
  qed
  then show ?thesis using inv' tr [of asid v] user_pair_match [OF e(3) u] e(1,4) by auto
qed

lemma purge_tc_hit:
  assumes "tlb_inv es" "user_page asid v" "tlbp (page_hi v asid) es = Some i"
  shows "\<exists>e. purge_tc v 12 asid es = es[i := e] \<and> i < length es \<and> user_pair asid v e \<and> te_half v e = 0 \<and>
    user_pair asid v (es ! i) \<and> (\<forall>w. bit w 12 \<noteq> bit v 12 \<longrightarrow> te_half w e = te_half w (es ! i))"
proof -
  note f = page_hi_fields [OF assms(2)]
  note u = user_entry [OF assms(1,3) f(1)]
  have p: "user_pair asid v (es ! i)" using u f by (simp add: user_pair_def same_pair_def)
  have l: "lo_bits 0 = 0" by (simp add: lo_bits_def)
  let ?e = "if bit v 12 then \<lparr>te_hi = te_hi (es ! i), te_g = False, te_lo0 = te_lo0 (es ! i), te_lo1 = 0\<rparr>
    else \<lparr>te_hi = te_hi (es ! i), te_g = False, te_lo0 = 0, te_lo1 = te_lo1 (es ! i)\<rparr>"
  have h: "(v AND NOT (push_bit (12 + 1) 1 - 1)) OR asid = page_hi v asid" by (simp add: page_hi_def)
  have "purge_tc v 12 asid es = es[i := ?e]"
    using u(2,5,6) unfolding purge_tc_def Let_def odd_page h assms(3) by (simp add: tlbr_def tlbw_def l)
  moreover have "user_pair asid v ?e" using p by (auto simp: user_pair_def l)
  ultimately show ?thesis using u(1) p by (intro exI [of _ ?e]) (auto simp: te_half_def)
qed

text \<open>C21: a removal from the buffer.  \<^verbatim>\<open>purge_tc\<close> of a user page keeps the buffer free of double matches, after it the processor
  does not translate the page in its address space, and every other page of every address space is translated as before.\<close>

theorem purge_tc_correct:
  assumes inv: "tlb_inv es" and u: "user_page asid v"
  shows "tlb_inv (purge_tc v 12 asid es) \<and> tlb_translate asid v (purge_tc v 12 asid es) = None \<and>
    (\<forall>a w. user_page a w \<longrightarrow> (a, drop_bit 12 w) \<noteq> (asid, drop_bit 12 v) \<longrightarrow>
       tlb_translate a w (purge_tc v 12 asid es) = tlb_translate a w es)"
proof (cases "tlbp (page_hi v asid) es")
  case None
  have h: "(v AND NOT (push_bit (12 + 1) 1 - 1)) OR asid = page_hi v asid" by (simp add: page_hi_def)
  have "purge_tc v 12 asid es = es" unfolding purge_tc_def Let_def h None by simp
  then show ?thesis using inv None by (simp add: tlb_translate_def)
next
  case (Some i)
  obtain e where e: "purge_tc v 12 asid es = es[i := e]" "i < length es" "user_pair asid v e" "te_half v e = 0"
    "user_pair asid v (es ! i)" "\<And>w. bit w 12 \<noteq> bit v 12 \<Longrightarrow> te_half w e = te_half w (es ! i)"
    using purge_tc_hit [OF inv u Some] by blast
  have inv': "tlb_inv (es[i := e])"
    by (rule tlb_inv_update [OF inv e(2)]) (use e(3) no_other_match [OF inv e(2,5,3)] in \<open>auto simp: user_pair_def\<close>)
  note tr = tlb_translate_update [OF inv inv' e(2)]
  have "tlb_translate a w (es[i := e]) = tlb_translate a w es"
    if "user_page a w" "(a, drop_bit 12 w) \<noteq> (asid, drop_bit 12 v)" for a w
    by (rule half_update [OF inv tr e(2,3,5,6) that])
  then show ?thesis using inv' tr [of asid v] user_pair_match [OF e(3) u] e(1,4) by auto
qed

section \<open>The exceptions (glue/v4-mips64/space.cc)\<close>

text \<open>
  The handlers get the cause, the status and the instruction pointer of the interrupted context.  While a page fault is
  handled other threads run; what has become of the buffer when \<^verbatim>\<open>handle_pagefault\<close> returns is the argument
  \<open>resume\<close>.
\<close>

definition hw_asid :: "spacep \<Rightarrow> kstate \<Rightarrow> (word_t \<times> kstate) option" where
  "hw_asid space s =
     map_option (\<lambda>(a, m, c). (word_of_int a, upd_kmem m s\<lparr>asid_cache := c\<rparr>)) (asid_get (space + asid_offset) (kmem s) (asid_cache s))"

definition insert_translation :: "nat \<Rightarrow> spacep \<Rightarrow> addr_t \<Rightarrow> pgent_p \<times> nat \<Rightarrow> tlb \<times> kstate \<Rightarrow> (tlb \<times> kstate) option" where
  "insert_translation rnd space faddr = (\<lambda>(pg, pgsize) (es, s).
     map_option (\<lambda>(asid, s1). (put_tc rnd (pg_raw (kmem s) pg) faddr (hw_pgshifts pgsize) asid es, s1)) (hw_asid space s))"

definition fault_space :: "kstate \<Rightarrow> spacep" where
  "fault_space s = (let space = get_space (get_current_tcb s) s in if space = 0 then kernel_space s else space)"

definition fault_address :: "addr_t \<Rightarrow> addr_t" where
  "fault_address faddr =
     (if faddr AND KTCB_AREA_START \<noteq> 0 then faddr OR push_bit (hw_pgshifts (size_max + 1) - 1) 1 else faddr)"

definition ST_KSU :: word_t where "ST_KSU = push_bit 3 3"

definition fault_access :: "word_t \<Rightarrow> access_e" where
  "fault_access cause = (if cause AND push_bit 2 31 = push_bit 2 3 then acc_write else acc_read)"

definition sufficient_rights :: "access_e \<Rightarrow> pgent_p \<Rightarrow> kstate \<Rightarrow> bool" where
  "sufficient_rights access pg s \<longleftrightarrow>
     (access = acc_write \<and> pg_is_writable pg (kmem s)) \<or> (access = acc_read \<and> pg_is_readable pg (kmem s))"

text \<open>One round of the loop: the entry to insert, if the page is mapped with sufficient rights.\<close>

definition stlb_lookup :: "spacep \<Rightarrow> addr_t \<Rightarrow> access_e \<Rightarrow> kstate \<Rightarrow> (pgent_p \<times> nat) option" where
  "stlb_lookup space faddr access s =
     (case lookup_mapping space faddr (kmem s) of
        None \<Rightarrow> None
      | Some (pg, pgsize) \<Rightarrow> if sufficient_rights access pg s then Some (pg, pgsize) else None)"

definition handle_stlb_miss ::
  "typed_transfer \<Rightarrow> switcher \<Rightarrow> addr_t \<Rightarrow> nat \<Rightarrow> (tlb \<Rightarrow> kstate \<Rightarrow> tlb) \<Rightarrow> word_t \<Rightarrow> word_t \<Rightarrow> addr_t \<Rightarrow> addr_t \<Rightarrow>
     tlb \<times> kstate \<Rightarrow> (tlb \<times> kstate) option" where
  "handle_stlb_miss xfer sw dummy_tcb rnd resume cause status epc faddr0 = (\<lambda>(es, s).
     let space = fault_space s;
         faddr = fault_address faddr0;
         access = fault_access cause
     in case stlb_lookup space faddr access s of
          Some pg \<Rightarrow> insert_translation rnd space faddr pg (es, s)
        | None \<Rightarrow>
            let kern = (if is_user_area faddr then (status AND ST_KSU = 0) else True)
            in do {
              s1 \<leftarrow> handle_pagefault xfer sw dummy_tcb space faddr epc access kern s;
              let es1 = resume es s1;
              case stlb_lookup space faddr access s1 of
                Some pg \<Rightarrow> insert_translation rnd space faddr pg (es1, s1)
              | None \<Rightarrow> Some (es1, s1)
            })"

definition handle_tlb_mod ::
  "typed_transfer \<Rightarrow> switcher \<Rightarrow> addr_t \<Rightarrow> nat \<Rightarrow> (tlb \<Rightarrow> kstate \<Rightarrow> tlb) \<Rightarrow> word_t \<Rightarrow> addr_t \<Rightarrow> addr_t \<Rightarrow>
     tlb \<times> kstate \<Rightarrow> (tlb \<times> kstate) option" where
  "handle_tlb_mod xfer sw dummy_tcb rnd resume status epc faddr0 = (\<lambda>(es, s).
     let space = fault_space s;
         faddr = fault_address faddr0
     in case lookup_mapping space faddr (kmem s) of
          Some (pg, pgsize) \<Rightarrow>
            if pg_is_writable pg (kmem s) then insert_translation rnd space faddr (pg, pgsize) (es, s)
            else map_option (\<lambda>s1. (resume es s1, s1)) (handle_pagefault xfer sw dummy_tcb space faddr epc acc_write (status AND ST_KSU = 0) s)
        | None \<Rightarrow> map_option (\<lambda>s1. (resume es s1, s1)) (handle_pagefault xfer sw dummy_tcb space faddr epc acc_write (status AND ST_KSU = 0) s))"

text \<open>
  The refill handler takes the page table from the upper half of the context register.  It fills both halves of the pair when both
  pages are mapped, without a probe.  When the page is not mapped, the stub goes on with the handler of the other
  misses: \<^verbatim>\<open>None\<close> in the first component of the result.
\<close>

definition handle_xtlb_miss :: "nat \<Rightarrow> spacep \<Rightarrow> addr_t \<Rightarrow> tlb \<times> kstate \<Rightarrow> (tlb option \<times> kstate) option" where
  "handle_xtlb_miss rnd saved_pagetable faddr0 = (\<lambda>(es, s).
     let space = (if saved_pagetable = 0 then kernel_space s else saved_pagetable);
         faddr = fault_address faddr0
     in case lookup_mapping space faddr (kmem s) of
          None \<Rightarrow> Some (None, s)
        | Some (pg, pgsize) \<Rightarrow>
            let mapsize = push_bit 12 1;
                is_odd = (faddr AND mapsize \<noteq> 0)
            in case lookup_mapping space (faddr + (if is_odd then - mapsize else mapsize)) (kmem s) of
                 Some (buddy, _) \<Rightarrow>
                   let pg1 = (if is_odd then buddy else pg);
                       pg2 = (if is_odd then pg else buddy);
                       faddr1 = faddr AND NOT (push_bit (hw_pgshifts (size_max + 1) - 1) 1)
                   in map_option (\<lambda>(asid, s1).
                        (Some (tlbw rnd (push_bit 13 (drop_bit 13 faddr1) OR asid) (pg_raw (kmem s) pg1) (pg_raw (kmem s) pg2) es), s1))
                        (hw_asid space s)
               | None \<Rightarrow> map_option (\<lambda>(es1, s1). (Some es1, s1)) (insert_translation rnd space faddr (pg, pgsize) (es, s)))"

section \<open>Coherence with the page tables\<close>

text \<open>Every translation of a user page that the buffer has for an address space is the one in its page tables.\<close>

definition tlb_coherent :: "tlb \<Rightarrow> word_t \<Rightarrow> spacep \<Rightarrow> memory \<Rightarrow> bool" where
  "tlb_coherent es asid space m \<longleftrightarrow>
     (\<forall>v lo. user_page asid v \<longrightarrow> tlb_translate asid v es = Some lo \<longrightarrow>
        (\<exists>pg. lookup_mapping space v m = Some (pg, 0) \<and> lo = lo_bits (pg_raw m pg)))"

lemma hw_asid_valid:
  assumes "asid_is_valid (space + asid_offset) (kmem s)"
  shows "\<exists>s1. hw_asid space s = Some (word_of_int (asid_value (space + asid_offset) (kmem s)), s1) \<and> kmem s1 = kmem s"
  using assms by (simp add: hw_asid_def asid_get_def Let_def upd_kmem_def)

lemma lookup_same_page:
  assumes "lookup_mapping space v m = Some (pg, 0)" "drop_bit 12 v = drop_bit 12 w"
  shows "lookup_mapping space w m = Some (pg, 0)"
  using lookup_mapping_page [OF assms(1), of w] assms(2) by (simp add: hw_pgshifts_def)

lemma user_page_fault_address: "user_page asid v \<Longrightarrow> fault_address v = v"
proof -
  assume u: "user_page asid v"
  have e: "KTCB_AREA_START = 2 ^ 62" by (simp add: KTCB_AREA_START_def)
  have "v AND KTCB_AREA_START = 0" unfolding e and_exp_eq_0_iff_not_bit using user_page_bits(1) [OF u] by simp
  then show ?thesis by (simp add: fault_address_def)
qed

text \<open>C20: a miss on a mapped page.  When the page that a user address is on is mapped with the rights that the access needs, the handler
  returns at once, without a message to the pager, and without a change of memory; the buffer then has the translation of the page,
  with the frame and the write permission of the page table entry, it is still free of double matches and coherent with the page
  tables of the space, and it has no new translation for any other address space.\<close>

theorem handle_stlb_miss_inserts:
  assumes inv: "tlb_inv es" and rnd: "rnd < length es" and sp: "fault_space s = space"
    and valid: "asid_is_valid (space + asid_offset) (kmem s)" and a: "word_of_int (asid_value (space + asid_offset) (kmem s)) = a"
    and u: "user_page a v" and mapd: "lookup_mapping space v (kmem s) = Some (pg, 0)" and rights: "sufficient_rights (fault_access cause) pg s"
    and user: "tr_get_global (pg_raw (kmem s) pg) = 0" "bf_get 62 2 (pg_raw (kmem s) pg) = 0"
    and coh: "tlb_coherent es a space (kmem s)"
  shows "\<exists>es' s' lo. handle_stlb_miss xfer sw dummy_tcb rnd resume cause status epc v (es, s) = Some (es', s') \<and> kmem s' = kmem s \<and>
    tlb_translate a v es' = Some lo \<and> tr_phys_addr lo = tr_phys_addr (pg_raw (kmem s) pg) \<and>
    tr_get_dirty lo = tr_get_dirty (pg_raw (kmem s) pg) \<and> tlb_inv es' \<and> tlb_coherent es' a space (kmem s') \<and>
    (\<forall>b w. user_page b w \<longrightarrow> b \<noteq> a \<longrightarrow> tlb_translate b w es' \<in> {None, tlb_translate b w es})"
proof -
  let ?raw = "pg_raw (kmem s) pg"
  let ?es = "put_tc rnd ?raw v 12 a es"
  obtain s1 where s1: "hw_asid space s = Some (a, s1)" "kmem s1 = kmem s" using hw_asid_valid [OF valid] a by auto
  have r: "handle_stlb_miss xfer sw dummy_tcb rnd resume cause status epc v (es, s) = Some (?es, s1)"
    using mapd rights s1(1)
    by (simp add: handle_stlb_miss_def Let_def sp user_page_fault_address [OF u] stlb_lookup_def insert_translation_def hw_pgshifts_def)
  have p: "tlb_inv ?es" "tlb_translate a v ?es = (if bit (lo_bits ?raw) 1 then Some (lo_bits ?raw) else None)"
    "\<And>b w. user_page b w \<Longrightarrow> (b, drop_bit 12 w) \<noteq> (a, drop_bit 12 v) \<Longrightarrow> tlb_translate b w ?es \<in> {None, tlb_translate b w es}"
    using put_insert [OF inv rnd u user] by blast+
  have b: "bit (lo_bits x) n \<longleftrightarrow> 0 < n \<and> n < 30 \<and> bit x n" for x n
    unfolding lo_bits_def bit_and_iff bit_not_iff bit_take_bit_iff bit_1_iff by (auto dest: bit_imp_le_length)
  have fl: "tr_phys_addr (lo_bits x) = tr_phys_addr x" "tr_get_dirty (lo_bits x) = tr_get_dirty x" "tr_get_valid (lo_bits x) = tr_get_valid x" for x
  proof -
    have f: "0 < k \<Longrightarrow> k + n \<le> 30 \<Longrightarrow> bf_get k n (lo_bits x) = bf_get k n x" for k n
      unfolding bf_get_def by (rule bit_word_eqI) (auto simp: bit_take_bit_iff bit_drop_bit_eq b)
    show "tr_phys_addr (lo_bits x) = tr_phys_addr x" "tr_get_dirty (lo_bits x) = tr_get_dirty x" "tr_get_valid (lo_bits x) = tr_get_valid x"
      unfolding tr_phys_addr_def tr_get_dirty_def tr_get_valid_def by (simp_all add: f)
  qed
  have "tr_get_valid ?raw \<noteq> 0" using rights by (auto simp: sufficient_rights_def pg_is_writable_def pg_is_readable_def)
  moreover have "tr_get_valid x = 0" if "\<not> bit x 1" for x
    unfolding tr_get_valid_def bf_get_def by (rule bit_word_eqI) (use that in \<open>simp only: bit_take_bit_iff bit_drop_bit_eq comp_apply bit_0_eq bot_apply less_one, auto\<close>)
  ultimately have "bit ?raw 1" by blast
  then have t: "tlb_translate a v ?es = Some (lo_bits ?raw)" using p(2) by (simp add: b)
  have "\<exists>pg'. lookup_mapping space w (kmem s) = Some (pg', 0) \<and> lo = lo_bits (pg_raw (kmem s) pg')"
    if "user_page a w" "tlb_translate a w ?es = Some lo" for w lo
  proof (cases "drop_bit 12 w = drop_bit 12 v")
    case True
    then have e: "page_hi w a = page_hi v a" "bit w 12 = bit v 12"
      using same_page [of w v] page_hi_same [of w v] by blast+
    then have h: "te_half w = te_half v" by (simp add: te_half_def fun_eq_iff)
    have "tlb_translate a w ?es = tlb_translate a v ?es" unfolding tlb_translate_def e(1) h ..
    then show ?thesis using that(2) t lookup_same_page [OF mapd] True by auto
  next
    case False
    then have "tlb_translate a w es = Some lo" using p(3) [OF that(1)] that(2) by auto
    then show ?thesis using coh that(1) unfolding tlb_coherent_def by blast
  qed
  then have "tlb_coherent ?es a space (kmem s1)" unfolding tlb_coherent_def s1(2) by blast
  then show ?thesis using r s1(2) t fl(1,2) p(1,3) by blast
qed

definition empty_tlb :: tlb where
  "empty_tlb = map (\<lambda>i. \<lparr>te_hi = push_bit 13 (of_nat i), te_g = False, te_lo0 = 0, te_lo1 = 0\<rparr>) [0..<4]"

lemma empty_tlb_inv: "tlb_inv empty_tlb"
proof -
  have l: "length empty_tlb = 4" "lo_bits 0 = 0" by (simp_all add: empty_tlb_def lo_bits_def)
  have n: "i < 4 \<Longrightarrow> empty_tlb ! i = \<lparr>te_hi = push_bit 13 (of_nat i), te_g = False, te_lo0 = 0, te_lo1 = 0\<rparr>" for i
    by (simp add: empty_tlb_def)
  have v: "hi_vpn2 (push_bit 13 0) = 0" "hi_vpn2 (push_bit 13 1) = 1" "hi_vpn2 (push_bit 13 2) = 2" "hi_vpn2 (push_bit 13 3) = 3"
    by (code_simp)+
  have i: "i < 4 \<Longrightarrow> i = 0 \<or> i = 1 \<or> i = 2 \<or> i = 3" for i :: nat by arith
  have "\<not> same_pair (te_hi (empty_tlb ! i)) (te_hi (empty_tlb ! j))" if "i < 4" "j < 4" "i \<noteq> j" for i j
    using i [OF that(1)] i [OF that(2)] that(3) n [OF that(1)] n [OF that(2)] v
    by (elim disjE) (simp_all add: same_pair_def del: push_bit_of_1)
  moreover have "\<forall>e\<in>set empty_tlb. \<not> te_g e \<and> lo_bits (te_lo0 e) = te_lo0 e \<and> lo_bits (te_lo1 e) = te_lo1 e"
    by (auto simp: empty_tlb_def l)
  ultimately show ?thesis unfolding tlb_inv_def l(1) by blast
qed

lemma empty_tlb_translate: "tlb_translate a v empty_tlb = None"
proof -
  have "te_half v (empty_tlb ! i) = 0" if "i < length empty_tlb" for i
    using that by (simp add: empty_tlb_def te_half_def)
  then show ?thesis using tlbp_SomeD by (fastforce simp: tlb_translate_def Let_def split: option.split)
qed

text \<open>The first of two pages is removed.\<close>

theorem purge_tc_correct_witness:
  "tlb_inv (purge_tc 0x1000 12 3 empty_tlb) \<and> tlb_translate 3 0x1000 (purge_tc 0x1000 12 3 empty_tlb) = None \<and>
   tlb_translate 3 0x2000 (purge_tc 0x1000 12 3 empty_tlb) = tlb_translate 3 0x2000 empty_tlb"
proof -
  have "user_page 3 0x1000" "user_page 3 0x2000" by (simp_all add: user_page_def)
  then show ?thesis using purge_tc_correct [OF empty_tlb_inv, of 3 "0x1000"] by simp
qed

text \<open>A read miss at address 0 of the space that maps its first page.\<close>

theorem handle_stlb_miss_inserts_witness:
  "\<exists>es' s' lo. handle_stlb_miss refuse_typed switch_now 0 1 (\<lambda>es s. es) 8 0 0 0 (empty_tlb, root_page) = Some (es', s') \<and>
     tlb_translate 0 0 es' = Some lo \<and> tr_phys_addr lo = tr_phys_addr (mem one_mapping 0xFF00000000030000)"
proof -
  have k: "kmem root_page = one_mapping" "get_current_space root_page = 0x80000"
    using two_spaces_facts(1) by (simp_all add: root_page_def get_current_space_def get_space_def)
  have sp: "fault_space root_page = 0x80000" using k(2) by (simp add: fault_space_def Let_def get_current_space_def)
  have v: "asid_is_valid (0x80000 + asid_offset) (kmem root_page)" "word_of_int (asid_value (0x80000 + asid_offset) (kmem root_page)) = (0 :: word_t)"
    unfolding k(1) by (simp_all add: asid_offset_def asid_is_valid_def asid_value_def one_mapping_def one_page_def set_next_ptr_def
      set_backlink_root_def map_set_space_def set_next_map_def)
  have raw: "tr_get_global (pg_raw (kmem root_page) 0xFF00000000030000) = 0" "bf_get 62 2 (pg_raw (kmem root_page) 0xFF00000000030000) = 0"
    "sufficient_rights (fault_access 8) 0xFF00000000030000 root_page"
  proof -
    have m: "pg_raw (kmem root_page) 0xFF00000000030000 = 0x200000000000015E"
      unfolding k(1) by (simp add: pg_raw_def one_mapping_def one_page_def set_next_ptr_def set_backlink_root_def map_set_space_def set_next_map_def)
    show "tr_get_global (pg_raw (kmem root_page) 0xFF00000000030000) = 0" "bf_get 62 2 (pg_raw (kmem root_page) 0xFF00000000030000) = 0"
      unfolding m by code_simp+
    have "tr_get_valid 0x200000000000015E \<noteq> 0" "fault_access 8 = acc_read" by code_simp+
    then show "sufficient_rights (fault_access 8) 0xFF00000000030000 root_page" by (simp add: sufficient_rights_def pg_is_readable_def m)
  qed
  have c: "tlb_coherent empty_tlb 0 0x80000 (kmem root_page)" by (simp add: tlb_coherent_def empty_tlb_translate)
  have u: "user_page 0 0" by (simp add: user_page_def)
  have r: "1 < length empty_tlb" by (simp add: empty_tlb_def)
  show ?thesis
    using handle_stlb_miss_inserts [OF empty_tlb_inv r sp v(1,2) u _ raw(3,1,2) c, of refuse_typed switch_now 0 "\<lambda>es s. es" 0 0] two_spaces_source
    by (simp add: k(1) pg_raw_def) blast
qed

end
