(* ===== verification/Glue_Timer.thy ===== *)
theory Glue_Timer
  imports Timer
begin

text \<open>
  The periodic timer of the mips64 processors (\<^verbatim>\<open>timer.cc\<close> and \<^verbatim>\<open>timer.h\<close> of the glue code): an
  interrupt is raised when the counter register, which counts up and wraps around at 32 bits, reaches the compare
  register.  The period is \<^verbatim>\<open>CONFIG_CPU_CLOCK_SPEED\<close>, 100000 as configured.

  The handler advances the value of the compare register by whole periods past the counter it has read.
\<close>

record timer_t =
  tm_compare :: u32_t
  tm_cp0_compare :: u32_t
  tm_cp0_count :: u32_t

definition TIMER_PERIOD :: u64_t where "TIMER_PERIOD = 100000"

text \<open>\<^verbatim>\<open>counter + (1ul<<32) - compare\<close> is computed in 64 bits.\<close>

definition timer_difference :: "64 word \<Rightarrow> 32 word \<Rightarrow> 64 word" where
  "timer_difference compare counter =
     (if sint (ucast counter :: 64 word) < sint compare then ucast counter + push_bit 32 1 - compare
      else ucast counter - compare)"

partial_function (option) timer_loop :: "64 word \<Rightarrow> 64 word \<Rightarrow> u64_t option" where
  "timer_loop compare difference =
     (if 0 < sint difference then timer_loop (compare + TIMER_PERIOD) (difference - TIMER_PERIOD) else Some compare)"

definition glue_handle_timer_interrupt ::
  "typed_transfer \<Rightarrow> switcher \<Rightarrow> timer_t \<Rightarrow> kstate \<Rightarrow> (timer_t \<times> kstate) option" where
  "glue_handle_timer_interrupt xfer sw tm s =
     (let compare = ucast (tm_compare tm);
          counter = tm_cp0_count tm;
          difference = timer_difference compare counter
      in do {
        compare' \<leftarrow> timer_loop compare difference;
        let tm1 = tm\<lparr>tm_cp0_compare := ucast compare'\<rparr>;
        let tm2 = tm1\<lparr>tm_compare := ucast compare'\<rparr>;
        s1 \<leftarrow> handle_timer_interrupt xfer sw s;
        Some (tm2, s1)
      })"

definition timer_init_cpu :: "timer_t \<Rightarrow> timer_t" where
  "timer_init_cpu tm =
     tm\<lparr>tm_cp0_count := 0\<rparr>\<lparr>tm_cp0_compare := ucast TIMER_PERIOD\<rparr>\<lparr>tm_compare := ucast TIMER_PERIOD\<rparr>"

section \<open>The next interrupt\<close>

text \<open>The number of periods that the counter is past the compare value, rounded up.\<close>

definition periods :: "nat \<Rightarrow> nat" where "periods d = (d + 99999) div 100000"

lemma sint_of_int_small: "- (2 ^ 63) \<le> k \<Longrightarrow> k < 2 ^ 63 \<Longrightarrow> sint (of_int k :: 64 word) = k"
  by (transfer fixing: k) (simp add: signed_take_bit_int_eq_self)

lemma timer_loop_periods:
  assumes "d < 2 ^ 33"
  shows "timer_loop c (of_nat d) = Some (c + of_nat (100000 * periods d))"
  using assms
proof (induction d arbitrary: c rule: less_induct)
  case (less d)
  show ?case
  proof (cases "d = 0")
    case True
    then show ?thesis by (subst timer_loop.simps) (simp add: periods_def)
  next
    case False
    then have pos: "0 < sint (of_nat d :: 64 word)" using less.prems sint_of_int_small [of "int d"] by simp
    show ?thesis
    proof (cases "100000 \<le> d")
      case True
      then have e: "(of_nat d :: 64 word) - TIMER_PERIOD = of_nat (d - 100000)" by (simp add: TIMER_PERIOD_def of_nat_diff)
      have p: "periods d = Suc (periods (d - 100000))" using True by (simp add: periods_def div_if [of "d + 99999"])
      show ?thesis
        using True pos less.IH [of "d - 100000" "c + TIMER_PERIOD"] less.prems
        by (subst timer_loop.simps) (simp add: e p TIMER_PERIOD_def algebra_simps)
    next
      case small: False
      have "(of_nat d :: 64 word) - TIMER_PERIOD = of_int (int d - 100000)" by (simp add: TIMER_PERIOD_def)
      then have "sint ((of_nat d :: 64 word) - TIMER_PERIOD) = int d - 100000" using small sint_of_int_small [of "int d - 100000"] by simp
      moreover have "periods d = 1" using False small by (simp add: periods_def div_if)
      moreover have "timer_loop (c + TIMER_PERIOD) (of_nat d - TIMER_PERIOD) = Some (c + TIMER_PERIOD)"
        using calculation(1) small by (subst timer_loop.simps) simp
      ultimately show ?thesis using pos by (subst timer_loop.simps) (simp add: TIMER_PERIOD_def)
    qed
  qed
qed

lemma timer_difference_wraps: "timer_difference (ucast c) n = of_nat (unat (n - c))" for c n :: u32_t
proof -
  have b: "uint x < 2 ^ 32" for x :: u32_t using uint_bounded [of x] by simp
  have s: "sint (ucast x :: 64 word) = uint x" for x :: u32_t
    using sint_of_int_small [of "uint x"] b [of x] uint_ge_0 [of x] by simp
  have u: "(ucast x :: 64 word) = of_int (uint x)" for x :: u32_t by simp
  have e: "uint (n - c) = (if uint n < uint c then uint n + 2 ^ 32 - uint c else uint n - uint c)"
    by (auto simp: uint_sub_if')
  have "of_nat (unat (n - c)) = (of_int (uint (n - c)) :: 64 word)" by simp
  also have "\<dots> = timer_difference (ucast c) n"
    unfolding e timer_difference_def s by simp
  finally show ?thesis by simp
qed

lemma timer_set:
  fixes tm :: timer_t
  defines "d \<equiv> unat (tm_cp0_count tm - tm_compare tm)"
  shows "\<exists>c. glue_handle_timer_interrupt xfer sw tm s =
      map_option (Pair (tm\<lparr>tm_cp0_compare := c, tm_compare := c\<rparr>)) (handle_timer_interrupt xfer sw s) \<and>
    c = tm_compare tm + of_nat (100000 * periods d) \<and> c = tm_cp0_count tm + of_nat (100000 * periods d - d) \<and>
    d \<le> 100000 * periods d \<and> 100000 * periods d < d + 100000"
proof -
  have d: "d < 2 ^ 32" using unsigned_less [of "tm_cp0_count tm - tm_compare tm"] by (simp add: d_def)
  have b: "d \<le> 100000 * periods d" "100000 * periods d < d + 100000" by (simp_all add: periods_def)
  let ?c = "tm_compare tm + of_nat (100000 * periods d)"
  have l: "timer_loop (ucast (tm_compare tm)) (timer_difference (ucast (tm_compare tm)) (tm_cp0_count tm)) =
      Some (ucast (tm_compare tm) + of_nat (100000 * periods d))"
    unfolding timer_difference_wraps d_def [symmetric] using d timer_loop_periods by simp
  have u: "ucast (ucast x + of_nat n :: 64 word) = x + of_nat n" for x :: u32_t and n
    by transfer (simp add: take_bit_take_bit, simp add: take_bit_eq_mod mod_add_left_eq)
  have c: "?c = tm_cp0_count tm + of_nat (100000 * periods d - d)"
  proof -
    have "(of_nat d :: 32 word) = tm_cp0_count tm - tm_compare tm" by (simp add: d_def)
    then show ?thesis using b(1) by (simp add: of_nat_diff del: of_nat_mult)
  qed
  have "glue_handle_timer_interrupt xfer sw tm s =
      map_option (Pair (tm\<lparr>tm_cp0_compare := ?c, tm_compare := ?c\<rparr>)) (handle_timer_interrupt xfer sw s)"
    unfolding glue_handle_timer_interrupt_def Let_def l bind.bind_lunit u by (cases "handle_timer_interrupt xfer sw s") simp_all
  then show ?thesis using b c by blast
qed

text \<open>C23: the timer is set again.  For every value of the counter and of the compare register, wrap-around included, the
  handler's loop ends; the new compare value is the old one plus a whole number of periods and is less than
  one period ahead of the counter that was read, and the scheduler's handler runs.\<close>

theorem timer_rearmed:
  "\<exists>c d. d = unat (tm_cp0_count tm - tm_compare tm) \<and>
    glue_handle_timer_interrupt xfer sw tm s =
      map_option (Pair (tm\<lparr>tm_cp0_compare := c, tm_compare := c\<rparr>)) (handle_timer_interrupt xfer sw s) \<and>
    c = tm_compare tm + of_nat (100000 * periods d) \<and> c = tm_cp0_count tm + of_nat (100000 * periods d - d) \<and>
    d \<le> 100000 * periods d \<and> 100000 * periods d < d + 100000"
  using timer_set [of xfer sw tm s] by blast

text \<open>When the counter is a whole number of periods past the compare register, the compare register is set to the
  counter that was read, which the counter reaches again only after it has wrapped around.\<close>

theorem timer_rearmed_at_counter:
  assumes "unat (tm_cp0_count tm - tm_compare tm) = 100000 * k" and "glue_handle_timer_interrupt xfer sw tm s = Some (tm', s')"
  shows "tm_cp0_compare tm' = tm_cp0_count tm"
proof -
  have "periods (100000 * k) = k" by (simp add: periods_def)
  moreover have "of_nat (100000 * k) = tm_cp0_count tm - tm_compare tm" by (simp add: assms(1) [symmetric])
  ultimately show ?thesis using assms timer_set [of xfer sw tm s] by (auto simp: map_option_case simp del: of_nat_mult split: option.splits)
qed

end
