(* ===== verification/Boot.thy ===== *)
theory Boot
  imports Thread_Control Tlb Glue_Timer
begin

text \<open>
  The start of the kernel (\<^verbatim>\<open>init.cc\<close>, \<^verbatim>\<open>intctrl.cc\<close> of the mips64 glue code and
  \<^verbatim>\<open>init_tlb\<close> of \<^verbatim>\<open>tlb.cc\<close>): the translation buffer, the tables of exception and
  interrupt handlers, the address space identifiers and the memory of the kernel.

  The sources have no body for \<^verbatim>\<open>memory_info_t::insert\<close> and
  \<^verbatim>\<open>kernel_interface_page_t::init\<close>; they are arguments, and the memory information is of a type of its own.  The
  addresses that the linker defines are arguments too.  The copies of the exception vectors, flushes of the caches and the kernel
  debugger are not part of the model.
\<close>

section \<open>Handlers (intctrl.h, intctrl.cc)\<close>

datatype exception_handler_t = Handle_exception | Handle_interrupt | Handle_tlb_mod | Handle_stlb_miss | Handle_l4syscall

datatype interrupt_handler_t = Spurious_interrupt | Intctrl_handle_irq | Handle_timer_interrupt

record 'd boot_t =
  b_k :: kstate
  b_tlb :: tlb
  b_exception_handlers :: "nat \<Rightarrow> exception_handler_t"
  b_interrupt_handlers :: "nat \<Rightarrow> interrupt_handler_t"
  b_cp0_status :: word_t
  b_timer :: timer_t
  b_memory_info :: 'd
  b_dedicated_mem0 :: mem_region_t
  b_dedicated_mem1 :: mem_region_t

definition register_exception_handler :: "nat \<Rightarrow> exception_handler_t \<Rightarrow> 'd boot_t \<Rightarrow> 'd boot_t" where
  "register_exception_handler vector h b = b\<lparr>b_exception_handlers := (b_exception_handlers b)(vector := h)\<rparr>"

definition register_interrupt_handler :: "nat \<Rightarrow> interrupt_handler_t \<Rightarrow> 'd boot_t \<Rightarrow> 'd boot_t" where
  "register_interrupt_handler vector h b = b\<lparr>b_interrupt_handlers := (b_interrupt_handlers b)(vector := h)\<rparr>"

definition setup_exception_vectors :: "'d boot_t \<Rightarrow> 'd boot_t" where
  "setup_exception_vectors b =
     (let b1 = register_exception_handler 0 Handle_interrupt b;
          b2 = register_exception_handler 1 Handle_tlb_mod b1;
          b3 = register_exception_handler 2 Handle_stlb_miss b2;
          b4 = register_exception_handler 3 Handle_stlb_miss b3;
          b5 = register_exception_handler 8 Handle_l4syscall b4;
          b6 = register_interrupt_handler 2 Intctrl_handle_irq b5;
          b7 = register_interrupt_handler 3 Intctrl_handle_irq b6;
          b8 = register_interrupt_handler 4 Intctrl_handle_irq b7;
          b9 = register_interrupt_handler 5 Intctrl_handle_irq b8
      in register_interrupt_handler 6 Intctrl_handle_irq b9)"

definition intctrl_init_arch :: "'d boot_t \<Rightarrow> 'd boot_t" where
  "intctrl_init_arch b =
     (let b1 = fold (\<lambda>i b. b\<lparr>b_exception_handlers := (b_exception_handlers b)(i := Handle_exception)\<rparr>) [0..<32] b;
          b2 = fold (\<lambda>i b. b\<lparr>b_interrupt_handlers := (b_interrupt_handlers b)(i := Spurious_interrupt)\<rparr>) [0..<8] b1
      in setup_exception_vectors b2)"

definition ST_IM :: word_t where "ST_IM = push_bit 8 0xff"

definition ST_BEV :: word_t where "ST_BEV = push_bit 22 1"

definition intctrl_init_cpu :: "'d boot_t \<Rightarrow> 'd boot_t" where
  "intctrl_init_cpu b =
     (let b1 = b\<lparr>b_cp0_status := b_cp0_status b AND NOT ST_IM\<rparr>;
          b2 = b1\<lparr>b_k := upd_tcb Idle_tcb (\<lambda>x. x\<lparr>t_int_mask := 0\<rparr>) (b_k b1)\<rparr>
      in b2\<lparr>b_cp0_status := b_cp0_status b2 AND NOT ST_BEV\<rparr>)"

section \<open>The translation buffer (tlb.cc)\<close>

definition TLB_SIZE :: nat where "TLB_SIZE = 48"

definition init_tlb :: "tlb \<Rightarrow> tlb" where
  "init_tlb es = fold (\<lambda>i es. tlbw i (of_nat i) 0 0 es) [0..<TLB_SIZE] es"

section \<open>Kernel memory (init.cc)\<close>

definition BOOTMEM_PAGES :: word_t where "BOOTMEM_PAGES = 1024"

definition bootmem_size :: word_t where "bootmem_size = push_bit 12 BOOTMEM_PAGES"

text \<open>The memory starts at the top of the boot stack, or behind the last of the three root servers if one of them ends later.\<close>

definition start_bootmem_phys :: "addr_t \<Rightarrow> kernel_interface_page_t \<Rightarrow> addr_t" where
  "start_bootmem_phys bootstack_top k =
     (let a0 = virt_to_phys bootstack_top;
          a1 = (if a0 < mr_high (rs_mem_region (kip_sigma0 k)) then mr_high (rs_mem_region (kip_sigma0 k)) else a0);
          a2 = (if a1 < mr_high (rs_mem_region (kip_sigma1 k)) then mr_high (rs_mem_region (kip_sigma1 k)) else a1)
      in if a2 < mr_high (rs_mem_region (kip_root_server k)) then mr_high (rs_mem_region (kip_root_server k)) else a2)"

type_synonym 'd insert_memdesc = "word_t \<Rightarrow> bool \<Rightarrow> addr_t \<Rightarrow> addr_t \<Rightarrow> 'd \<Rightarrow> 'd"

definition add_memdesc :: "'d insert_memdesc \<Rightarrow> word_t \<Rightarrow> bool \<Rightarrow> addr_t \<Rightarrow> addr_t \<Rightarrow> 'd boot_t \<Rightarrow> 'd boot_t" where
  "add_memdesc ins type virt low high b = b\<lparr>b_memory_info := ins type virt low high (b_memory_info b)\<rparr>"

definition init_bootmem ::
  "'d insert_memdesc \<Rightarrow> addr_t \<Rightarrow> addr_t \<Rightarrow> addr_t \<Rightarrow> 'd boot_t \<Rightarrow> 'd boot_t option" where
  "init_bootmem ins bootstack_top start_text_phys end_text_phys b =
     (let start_phys = start_bootmem_phys bootstack_top (kip (b_k b));
          start = phys_to_virt start_phys;
          end_bootmem = start + bootmem_size;
          end_phys = start_phys + bootmem_size;
          main_high = mr_high (kip_main_mem (kip (b_k b)))
      in do {
        m \<leftarrow> kmem_init start end_bootmem (kmem (b_k b));
        let b1 = b\<lparr>b_k := upd_kmem m (b_k b)\<rparr>;
        let b2 = add_memdesc ins 1 True 0 (push_bit 40 1) b1;
        let b3 = add_memdesc ins 1 False 0x1000 (addr_align main_high 0x1000) b2;
        let b4 = add_memdesc ins 2 False (addr_align_up main_high 0x1000) (NOT 0) b3;
        let b5 = add_memdesc ins 2 False (addr_align start_text_phys 0x1000) (addr_align_up end_text_phys 0x1000) b4;
        let b6 = add_memdesc ins 2 False (addr_align start_phys 0x1000) (addr_align_up end_phys 0x1000) b5;
        let b7 = add_memdesc ins 2 False 0 0x1000 b6;
        let b8 = b7\<lparr>b_dedicated_mem0 := region_set 0x10000000 0x14001000\<rparr>;
        let b9 = add_memdesc ins 3 False 0x10000000 0x14001000 b8;
        let b10 = b9\<lparr>b_dedicated_mem1 := region_set 0x1c000000 0x1cc00000\<rparr>;
        Some (add_memdesc ins 3 False 0x1c000000 0x1cc00000 b10)
      })"

section \<open>Start of the architecture (init.cc)\<close>

text \<open>\<^verbatim>\<open>init_arch\<close> up to the memory of the kernel.\<close>

definition init_arch_memory ::
  "'d insert_memdesc \<Rightarrow> addr_t \<Rightarrow> addr_t \<Rightarrow> addr_t \<Rightarrow> 'd boot_t \<Rightarrow> 'd boot_t option" where
  "init_arch_memory ins bootstack_top start_text_phys end_text_phys b =
     (let b1 = b\<lparr>b_tlb := init_tlb (b_tlb b)\<rparr>;
          b2 = intctrl_init_arch b1;
          b3 = intctrl_init_cpu b2;
          b4 = b3\<lparr>b_k := (b_k b3)\<lparr>asid_cache := cache_init (asid_cache (b_k b3))\<rparr>\<rparr>;
          b5 = b4\<lparr>b_k := (b_k b4)\<lparr>asid_cache := set_valid 0 (CONFIG_MAX_NUM_ASIDS - 1) (asid_cache (b_k b4))\<rparr>\<rparr>
      in init_bootmem ins bootstack_top start_text_phys end_text_phys b5)"

definition timer_init_global :: "'d boot_t \<Rightarrow> 'd boot_t" where
  "timer_init_global b = register_interrupt_handler 7 Handle_timer_interrupt b"

text \<open>\<^verbatim>\<open>intctrl_t::unmask\<close> sets the mask bit of the status register too.\<close>

definition boot_timer_init_cpu :: "'d boot_t \<Rightarrow> 'd boot_t" where
  "boot_timer_init_cpu b =
     (let b1 = b\<lparr>b_timer := timer_init_cpu (b_timer b)\<rparr>;
          b2 = b1\<lparr>b_k := snd (intctrl_unmask 7 (b_k b1))\<rparr>
      in b2\<lparr>b_cp0_status := b_cp0_status b2 OR push_bit 7 (push_bit 8 1)\<rparr>)"

definition init_arch ::
  "'d insert_memdesc \<Rightarrow> (kernel_interface_page_t \<Rightarrow> kernel_interface_page_t) \<Rightarrow> word_t \<Rightarrow> mapnode_p \<Rightarrow> addr_t \<Rightarrow> addr_t \<Rightarrow> addr_t \<Rightarrow>
     'd boot_t \<Rightarrow> 'd boot_t option" where
  "init_arch ins kip_init bls sigma0_mapnode bootstack_top start_text_phys end_text_phys b =
     do {
       b1 \<leftarrow> init_arch_memory ins bootstack_top start_text_phys end_text_phys b;
       let b2 = b1\<lparr>b_k := (b_k b1)\<lparr>kip := kip_init (kip (b_k b1))\<rparr>\<rparr>;
       (_, s3) \<leftarrow> init_kernel_space (b_k b2);
       m4 \<leftarrow> init_mdb bls sigma0_mapnode (kmem s3);
       let b5 = b2\<lparr>b_k := upd_kmem m4 s3\<rparr>;
       Some (boot_timer_init_cpu (timer_init_global b5))
     }"

section \<open>The state after the start\<close>

subsection \<open>The translation buffer\<close>

lemma init_tlb_entries:
  assumes "length es = TLB_SIZE"
  shows "init_tlb es = map (\<lambda>i. \<lparr>te_hi = of_nat i, te_g = False, te_lo0 = 0, te_lo1 = 0\<rparr>) [0..<TLB_SIZE]"
proof -
  let ?e = "\<lambda>i. \<lparr>te_hi = of_nat i, te_g = False, te_lo0 = 0, te_lo1 = 0\<rparr>"
  have l: "lo_bits 0 = 0" by (simp add: lo_bits_def)
  have "n \<le> length es \<Longrightarrow> fold (\<lambda>i es. tlbw i (of_nat i) 0 0 es) [0..<n] es = map ?e [0..<n] @ drop n es" for n
  proof (induction n)
    case (Suc n)
    have "drop n es = es ! n # drop (Suc n) es" using Suc.prems by (simp add: Cons_nth_drop_Suc)
    then show ?case using Suc by (simp add: tlbw_def l list_update_append)
  qed simp
  from this [of TLB_SIZE] show ?thesis using assms by (simp add: init_tlb_def)
qed

lemma init_tlb_clean:
  assumes "length es = TLB_SIZE"
  shows "tlb_inv (init_tlb es)" "tlb_translate a v (init_tlb es) = None"
proof -
  let ?es = "init_tlb es"
  have l: "length ?es = 48" by (simp add: init_tlb_entries [OF assms] TLB_SIZE_def)
  have n: "?es ! i = \<lparr>te_hi = of_nat i, te_g = False, te_lo0 = 0, te_lo1 = 0\<rparr>" if "i < 48" for i
    using that by (simp add: init_tlb_entries [OF assms] TLB_SIZE_def)
  have a: "hi_asid (of_nat i) = of_nat i" if "i < 48" for i
  proof -
    have "unat (take_bit 8 (of_nat i :: word_t)) = unat (of_nat i :: word_t)"
      using that by (simp only: unsigned_take_bit_eq unsigned_of_nat) (simp add: take_bit_nat_eq_self)
    then show ?thesis unfolding hi_asid_def bf_get_def drop_bit_0 id_apply by (rule word_eq_iff_unsigned [THEN iffD2])
  qed
  have "hi_asid (te_hi (?es ! i)) \<noteq> hi_asid (te_hi (?es ! j))" if "i < 48" "j < 48" "i \<noteq> j" for i j
  proof -
    have "(of_nat i :: word_t) \<noteq> of_nat j" using that by (simp add: word_of_nat_eq_iff take_bit_nat_eq_self)
    then show ?thesis using that by (simp add: n a)
  qed
  moreover have "\<not> te_g (?es ! i)" if "i < 48" for i using n [OF that] by simp
  moreover have "lo_bits 0 = 0" by (simp add: lo_bits_def)
  then have "\<forall>e\<in>set ?es. \<not> te_g e \<and> lo_bits (te_lo0 e) = te_lo0 e \<and> lo_bits (te_lo1 e) = te_lo1 e"
    by (auto simp: init_tlb_entries [OF assms])
  ultimately show "tlb_inv ?es" unfolding tlb_inv_def l by blast
  have "te_half v (?es ! i) = 0" if "i < length ?es" for i
    using that n by (simp add: l te_half_def)
  then show "tlb_translate a v ?es = None" using tlbp_SomeD by (fastforce simp: tlb_translate_def Let_def split: option.split)
qed

subsection \<open>Address space identifiers\<close>

definition get_link :: "hw_asid_t option \<Rightarrow> asid_cache_t \<Rightarrow> hw_asid_t" where
  "get_link prev c = (case prev of None \<Rightarrow> ac_first_free c | Some i \<Rightarrow> al_next (ac_asids c i))"

lemma set_valid_loop_seg:
  assumes "0 \<le> idx" "end < CONFIG_MAX_NUM_ASIDS" "\<And>i. idx \<le> i \<Longrightarrow> i \<le> end \<Longrightarrow> al_asid (ac_asids c i) = -1"
    and "\<And>p. prev = Some p \<Longrightarrow> p < idx"
  shows "\<exists>prev' c'. set_valid_loop idx end prev c = (prev', c') \<and>
    (let d = set_link prev' (-1) c' in aseg (ac_asids d) (get_link prev d) [idx..end] \<and>
       (\<forall>i. i < idx \<or> end < i \<longrightarrow> al_asid (ac_asids d i) = al_asid (ac_asids c i) \<and>
          (prev \<noteq> Some i \<longrightarrow> ac_asids d i = ac_asids c i)) \<and>
       (prev \<noteq> None \<longrightarrow> ac_first_free d = ac_first_free c))"
  using assms
proof (induction "nat (end + 1 - idx)" arbitrary: idx prev c)
  case 0
  then have "end < idx" by simp
  then show ?case
    by (subst set_valid_loop.simps) (auto simp: Let_def set_link_def get_link_def split: option.splits)
next
  case (Suc k)
  then have le: "idx \<le> end" by simp
  let ?c = "set_al_asid idx 0 (set_link prev idx c)"
  have k: "k = nat (end + 1 - (idx + 1))" using Suc.hyps(2) by simp
  have c: "al_asid (ac_asids ?c i) = (if i = idx then 0 else al_asid (ac_asids c i))" for i
    by (auto simp: set_al_asid_def set_link_def split: option.split)
  have "\<exists>prev' c'. set_valid_loop (idx + 1) end (Some idx) ?c = (prev', c') \<and>
    (let d = set_link prev' (-1) c' in aseg (ac_asids d) (get_link (Some idx) d) [idx + 1..end] \<and>
       (\<forall>i. i < idx + 1 \<or> end < i \<longrightarrow> al_asid (ac_asids d i) = al_asid (ac_asids ?c i) \<and>
          (Some idx \<noteq> Some i \<longrightarrow> ac_asids d i = ac_asids ?c i)) \<and>
       (Some idx \<noteq> None \<longrightarrow> ac_first_free d = ac_first_free ?c))"
    by (rule Suc.hyps(1) [OF k]) (use Suc.prems(1-3) c in auto)
  then obtain prev' c' where r: "set_valid_loop (idx + 1) end (Some idx) ?c = (prev', c')"
    "aseg (ac_asids (set_link prev' (-1) c')) (al_next (ac_asids (set_link prev' (-1) c') idx)) [idx + 1..end]"
    "\<And>i. i < idx + 1 \<or> end < i \<Longrightarrow> al_asid (ac_asids (set_link prev' (-1) c') i) = al_asid (ac_asids ?c i) \<and>
          (i \<noteq> idx \<longrightarrow> ac_asids (set_link prev' (-1) c') i = ac_asids ?c i)"
    "ac_first_free (set_link prev' (-1) c') = ac_first_free ?c"
    by (auto simp: Let_def get_link_def)
  let ?d = "set_link prev' (-1) c'"
  have s: "set_valid_loop idx end prev c = (prev', c')"
    using le Suc.prems(3) r(1) by (subst set_valid_loop.simps) simp
  have g: "get_link prev ?d = idx"
  proof (cases prev)
    case None
    then show ?thesis using r(4) by (simp add: get_link_def set_al_asid_def set_link_def)
  next
    case (Some p)
    then have "p < idx" using Suc.prems(4) by blast
    then have "ac_asids ?d p = ac_asids ?c p" using r(3) [of p] by simp
    then show ?thesis using Some \<open>p < idx\<close> by (simp add: get_link_def set_al_asid_def set_link_def)
  qed
  have "aseg (ac_asids ?d) idx (idx # [idx + 1..end])"
    using r(2) r(3) [of idx] c [of idx] le Suc.prems(1,2) by simp
  then have "aseg (ac_asids ?d) (get_link prev ?d) [idx..end]" using g le by (simp add: upto_rec1)
  moreover have "al_asid (ac_asids ?d i) = al_asid (ac_asids c i) \<and> (prev \<noteq> Some i \<longrightarrow> ac_asids ?d i = ac_asids c i)"
    if "i < idx \<or> end < i" for i
  proof -
    have "i \<noteq> idx" using that le by auto
    then have "al_asid (ac_asids ?d i) = al_asid (ac_asids c i)" "ac_asids ?d i = ac_asids ?c i"
      using r(3) [of i] that c [of i] by auto
    moreover have "prev \<noteq> Some i \<Longrightarrow> ac_asids ?c i = ac_asids c i"
      using \<open>i \<noteq> idx\<close> by (auto simp: set_al_asid_def set_link_def split: option.split)
    ultimately show ?thesis by simp
  qed
  moreover have "prev \<noteq> None \<Longrightarrow> ac_first_free ?d = ac_first_free c"
    using r(4) by (auto simp: set_al_asid_def set_link_def)
  ultimately show ?case using s by (auto simp: Let_def)
qed

lemma boot_asids: "asid_inv m (set_valid 0 (CONFIG_MAX_NUM_ASIDS - 1) (cache_init c)) [0..CONFIG_MAX_NUM_ASIDS - 1]"
proof -
  let ?c = "cache_init c" and ?e = "CONFIG_MAX_NUM_ASIDS - 1 :: hw_asid_t"
  have a: "al_asid (ac_asids ?c i) = -1" if "0 \<le> i" "i \<le> ?e" for i
    using that by (simp add: cache_init_def)
  obtain prev' c' where l: "set_valid_loop 0 ?e None ?c = (prev', c')"
    "aseg (ac_asids (set_link prev' (-1) c')) (ac_first_free (set_link prev' (-1) c')) [0..?e]"
    using set_valid_loop_seg [of 0 ?e ?c None] a by (auto simp: Let_def get_link_def)
  have s: "set_valid 0 ?e ?c = set_link prev' (-1) c'" using l(1) by (simp add: set_valid_def Let_def) (simp add: cache_init_def)
  have z: "aseg f p xs \<Longrightarrow> x \<in> set xs \<Longrightarrow> al_asid (f x) = 0" for f p xs x
    by (induction xs arbitrary: p) auto
  have "al_asid (ac_asids (set_link prev' (-1) c') i) = 0" if "0 \<le> i" "i < CONFIG_MAX_NUM_ASIDS" for i
    using z [OF l(2)] that by simp
  then show ?thesis unfolding s asid_inv_def using l(2) by auto
qed

subsection \<open>Kernel memory\<close>

lemma start_bootmem_above:
  "virt_to_phys bt \<le> start_bootmem_phys bt k" "mr_high (rs_mem_region (kip_sigma0 k)) \<le> start_bootmem_phys bt k"
  "mr_high (rs_mem_region (kip_sigma1 k)) \<le> start_bootmem_phys bt k" "mr_high (rs_mem_region (kip_root_server k)) \<le> start_bootmem_phys bt k"
  by (auto simp: start_bootmem_phys_def Let_def)

lemma add_memdesc_k [simp]:
  "b_k (add_memdesc ins ty v lo hi b) = b_k b" "b_tlb (add_memdesc ins ty v lo hi b) = b_tlb b"
  "b_exception_handlers (add_memdesc ins ty v lo hi b) = b_exception_handlers b"
  "b_interrupt_handlers (add_memdesc ins ty v lo hi b) = b_interrupt_handlers b"
  by (simp_all add: add_memdesc_def)

lemma init_bootmem_Some:
  assumes "start_bootmem_phys bt (kip (b_k b)) = p" "kmem_init (phys_to_virt p) (phys_to_virt p + bootmem_size) (kmem (b_k b)) = Some m"
  obtains b' where "init_bootmem ins bt t e b = Some b'" "b_k b' = upd_kmem m (b_k b)" "b_tlb b' = b_tlb b"
    "b_exception_handlers b' = b_exception_handlers b" "b_interrupt_handlers b' = b_interrupt_handlers b"
  using assms by (simp add: init_bootmem_def Let_def)

text \<open>The handlers that the tables name.\<close>

definition boot_exception_handler :: "nat \<Rightarrow> exception_handler_t" where
  "boot_exception_handler n =
     (if n = 0 then Handle_interrupt else if n = 1 then Handle_tlb_mod else if n = 2 \<or> n = 3 then Handle_stlb_miss
      else if n = 8 then Handle_l4syscall else Handle_exception)"

lemma init_vectors:
  "n < 32 \<Longrightarrow> b_exception_handlers (intctrl_init_arch b) n = boot_exception_handler n"
  "n < 8 \<Longrightarrow> b_interrupt_handlers (intctrl_init_arch b) n = (if n < 2 \<or> n = 7 then Spurious_interrupt else Intctrl_handle_irq)"
  "b_k (intctrl_init_arch b) = b_k b" "b_tlb (intctrl_init_arch b) = b_tlb b"
proof -
  have f: "b_exception_handlers (fold (\<lambda>i b. b\<lparr>b_exception_handlers := (b_exception_handlers b)(i := h)\<rparr>) [0..<m] b) n =
      (if n < m then h else b_exception_handlers b n)"
    "b_interrupt_handlers (fold (\<lambda>i b. b\<lparr>b_exception_handlers := (b_exception_handlers b)(i := h)\<rparr>) [0..<m] b) = b_interrupt_handlers b"
    "b_k (fold (\<lambda>i b. b\<lparr>b_exception_handlers := (b_exception_handlers b)(i := h)\<rparr>) [0..<m] b) = b_k b"
    "b_tlb (fold (\<lambda>i b. b\<lparr>b_exception_handlers := (b_exception_handlers b)(i := h)\<rparr>) [0..<m] b) = b_tlb b" for m h and b :: "'d boot_t" and n
    by (induction m) auto
  have g: "b_interrupt_handlers (fold (\<lambda>i b. b\<lparr>b_interrupt_handlers := (b_interrupt_handlers b)(i := h)\<rparr>) [0..<m] b) n =
      (if n < m then h else b_interrupt_handlers b n)"
    "b_exception_handlers (fold (\<lambda>i b. b\<lparr>b_interrupt_handlers := (b_interrupt_handlers b)(i := h)\<rparr>) [0..<m] b) = b_exception_handlers b"
    "b_k (fold (\<lambda>i b. b\<lparr>b_interrupt_handlers := (b_interrupt_handlers b)(i := h)\<rparr>) [0..<m] b) = b_k b"
    "b_tlb (fold (\<lambda>i b. b\<lparr>b_interrupt_handlers := (b_interrupt_handlers b)(i := h)\<rparr>) [0..<m] b) = b_tlb b" for m h and b :: "'d boot_t" and n
    by (induction m) auto
  note d = intctrl_init_arch_def setup_exception_vectors_def register_exception_handler_def register_interrupt_handler_def Let_def
  show "n < 32 \<Longrightarrow> b_exception_handlers (intctrl_init_arch b) n = boot_exception_handler n"
    by (simp add: d f g boot_exception_handler_def)
  show "n < 8 \<Longrightarrow> b_interrupt_handlers (intctrl_init_arch b) n = (if n < 2 \<or> n = 7 then Spurious_interrupt else Intctrl_handle_irq)"
    by (auto simp: d f g)
  show "b_k (intctrl_init_arch b) = b_k b" "b_tlb (intctrl_init_arch b) = b_tlb b" by (simp_all add: d f g)
qed

text \<open>C24: the start establishes the invariants of the kernel's data.  If the first free address is aligned to 1 KB and 4 MB fit behind
  it, the first part of the initialisation succeeds: the translation buffer translates nothing and has no double matches; all
  address space identifiers are free; the memory allocator has 4096 free chunks, in order, at an address that is not below the
  end of any of the three root servers; every exception and every interrupt has its handler.\<close>

theorem boot_establishes_invariants:
  assumes top: "start_bootmem_phys bootstack_top (kip (b_k b)) = p" and al: "phys_to_virt p AND 0x3ff = 0" "phys_to_virt p \<noteq> 0"
    and fits: "unat (phys_to_virt p) + 4096 * 1024 < 2 ^ 64" and tlb: "length (b_tlb b) = TLB_SIZE"
  shows "\<exists>b'. init_arch_memory ins bootstack_top start_text end_text b = Some b' \<and>
    tlb_inv (b_tlb b') \<and> (\<forall>a v. tlb_translate a v (b_tlb b') = None) \<and>
    asid_inv (kmem (b_k b')) (asid_cache (b_k b')) [0..CONFIG_MAX_NUM_ASIDS - 1] \<and>
    free_list (kmem (b_k b')) (run (phys_to_virt p) 4096) \<and>
    (\<forall>server\<in>{kip_sigma0, kip_sigma1, kip_root_server}. mr_high (rs_mem_region (server (kip (b_k b)))) \<le> p) \<and>
    (\<forall>n<32. b_exception_handlers b' n = boot_exception_handler n) \<and>
    (\<forall>n<8. b_interrupt_handlers b' n = (if n < 2 \<or> n = 7 then Spurious_interrupt else Intctrl_handle_irq))"
proof -
  let ?b0 = "intctrl_init_cpu (intctrl_init_arch (b\<lparr>b_tlb := init_tlb (b_tlb b)\<rparr>))"
  let ?b1 = "?b0\<lparr>b_k := (b_k ?b0)\<lparr>asid_cache := cache_init (asid_cache (b_k ?b0))\<rparr>\<rparr>"
  let ?b = "?b1\<lparr>b_k := (b_k ?b1)\<lparr>asid_cache := set_valid 0 (CONFIG_MAX_NUM_ASIDS - 1) (asid_cache (b_k ?b1))\<rparr>\<rparr>"
  have cpu: "b_tlb (intctrl_init_cpu x) = b_tlb x" "b_exception_handlers (intctrl_init_cpu x) = b_exception_handlers x"
    "b_interrupt_handlers (intctrl_init_cpu x) = b_interrupt_handlers x" "kip (b_k (intctrl_init_cpu x)) = kip (b_k x)" for x :: "'a boot_t"
    by (simp_all add: intctrl_init_cpu_def Let_def)
  have k: "kip (b_k ?b) = kip (b_k b)" by (simp add: cpu init_vectors)
  have size: "bootmem_size = of_nat 4096 * KMEM_CHUNKSIZE" by (simp add: bootmem_size_def BOOTMEM_PAGES_def KMEM_CHUNKSIZE_def)
  obtain m where m: "kmem_init (phys_to_virt p) (phys_to_virt p + bootmem_size) (kmem (b_k ?b)) = Some m"
    "free_list m (run (phys_to_virt p) 4096)"
    using kmem_init_all_free [OF al, of 4096 "kmem (b_k ?b)"] fits unfolding size by auto
  obtain b' where b': "init_bootmem ins bootstack_top start_text end_text ?b = Some b'"
    "b_k b' = upd_kmem m (b_k ?b)" "b_tlb b' = b_tlb ?b" "b_exception_handlers b' = b_exception_handlers ?b"
    "b_interrupt_handlers b' = b_interrupt_handlers ?b"
    by (rule init_bootmem_Some [OF _ m(1), where bt = bootstack_top]) (use k top in simp)
  have "init_arch_memory ins bootstack_top start_text end_text b = Some b'"
    unfolding init_arch_memory_def Let_def by (rule b'(1))
  moreover have "tlb_inv (b_tlb b')" "\<forall>a v. tlb_translate a v (b_tlb b') = None"
    using init_tlb_clean [OF tlb] by (simp_all add: b'(3) cpu init_vectors)
  moreover have "asid_inv (kmem (b_k b')) (asid_cache (b_k b')) [0..CONFIG_MAX_NUM_ASIDS - 1]"
    using boot_asids by (simp add: b'(2))
  moreover have "free_list (kmem (b_k b')) (run (phys_to_virt p) 4096)" using m(2) by (simp add: b'(2) upd_kmem_def)
  moreover have "\<forall>n<32. b_exception_handlers b' n = boot_exception_handler n"
    "\<forall>n<8. b_interrupt_handlers b' n = (if n < 2 \<or> n = 7 then Spurious_interrupt else Intctrl_handle_irq)"
    by (simp_all add: b'(4,5) cpu init_vectors)
  moreover have "\<forall>server\<in>{kip_sigma0, kip_sigma1, kip_root_server}. mr_high (rs_mem_region (server (kip (b_k b)))) \<le> p"
    using start_bootmem_above(2-4) [of "kip (b_k b)" bootstack_top] top by simp
  ultimately show ?thesis by blast
qed

text \<open>The root servers end at 8 MB, the boot stack below.\<close>

definition boot_sample :: "unit boot_t" where
  "boot_sample = \<lparr>b_k = blank_state\<lparr>kip := (kip blank_state)\<lparr>kip_root_server :=
       \<lparr>rs_sp = 0, rs_ip = 0, rs_mem_region = region_set 0x400000 0x800000\<rparr>\<rparr>\<rparr>,
     b_tlb = replicate 48 \<lparr>te_hi = 7, te_g = True, te_lo0 = 2, te_lo1 = 2\<rparr>, b_exception_handlers = (\<lambda>_. Handle_exception),
     b_interrupt_handlers = (\<lambda>_. Spurious_interrupt), b_cp0_status = 0,
     b_timer = \<lparr>tm_compare = 0, tm_cp0_compare = 0, tm_cp0_count = 0\<rparr>, b_memory_info = (),
     b_dedicated_mem0 = region_set 0 0, b_dedicated_mem1 = region_set 0 0\<rparr>"

theorem boot_establishes_invariants_witness:
  "\<exists>b'. init_arch_memory (\<lambda>_ _ _ _ d. d) (phys_to_virt 0x10000) 0 0 boot_sample = Some b' \<and>
     tlb_inv (b_tlb b') \<and> free_list (kmem (b_k b')) (run (phys_to_virt 0x800000) 4096)"
proof -
  have p: "start_bootmem_phys (phys_to_virt 0x10000) (kip (b_k boot_sample)) = 0x800000"
    by (simp add: start_bootmem_phys_def virt_to_phys_def phys_to_virt_def boot_sample_def blank_state_def blank_kip_def blank_server_def
        region_set_def)
  have a: "phys_to_virt 0x800000 AND 0x3ff = 0" "phys_to_virt 0x800000 \<noteq> 0" "unat (phys_to_virt 0x800000) + 4096 * 1024 < 2 ^ 64"
    by (simp_all add: phys_to_virt_def AS_KSEG_START_def)
  have t: "length (b_tlb boot_sample) = TLB_SIZE" by (simp add: boot_sample_def TLB_SIZE_def)
  show ?thesis using boot_establishes_invariants [OF p a t, of "\<lambda>_ _ _ _ d. d" 0 0] by blast
qed

end
