(* ===== verification/Spec2Isabelle.thy ===== *)
theory Spec2Isabelle
  imports Pagefault Ext_Transfer Memory_Control Exception Boot
begin

text \<open>
  A verification development of the L4Ka::Pistachio microkernel: the architecture independent kernel
  (\<^verbatim>\<open>src/kernel/src/api\<close>, \<^verbatim>\<open>src/kernel/src/generic\<close>,
  \<^verbatim>\<open>src/kernel/include\<close>) with the mips64 port (\<^verbatim>\<open>glue/v4-mips64\<close>,
  \<^verbatim>\<open>arch/mips64\<close>).  The configuration is that of \<^verbatim>\<open>config/config.h\<close>: 64 bit,
  big-endian, one processor, no kernel debugger, memory control.  This theory holds the overview and the properties that
  span components.

  \<^bold>\<open>The program.\<close>  A thread makes system calls and raises exceptions; an interrupt becomes a message.  IPC is the
  centre: a thread sends and receives messages of untyped words, strings and pages, blocks on send queues and on a wakeup
  list ordered by time, and gives the processor to its partner.  The scheduler chooses the next thread from rings by
  priority.  Pages reach a space only by messages: the page table walker changes the page tables and the mapping database,
  which remembers from which mapping a mapping was derived, so that a thread can take back what it gave away.  Page tables
  and mapping nodes lie in memory that two allocators hand out.

  \<^bold>\<open>State.\<close>  The global objects of the kernel are the record \<open>kstate\<close> (Kernel_State): the thread
  control blocks (\<open>tcbs\<close>, a map from pointers to \<open>tcb_t\<close>), the user thread control blocks, the current thread, the
  scheduler object, the kernel interface page, the spaces that have a name, and \<open>kmem\<close>, the words of kernel
  memory by address, in which page tables, spaces and mapping nodes lie as in the code.  A C pointer to a thread control block is \<open>tcbp\<close>, any
  other pointer is an address.  A member function takes its object, the arguments and the state and returns the new state; a
  function that may fail or not return has an option or a sum as its result.  Machine integers are words of their width, priorities and
  time slices have the signed types of the code.

  \<^bold>\<open>Theories, from the bottom.\<close>
  \<^item> L4_Prelude: bit fields, address arithmetic (\<^verbatim>\<open>types.h\<close>), generic lemmas.  Ring_Queue:
    \<^verbatim>\<open>queueing.h\<close> over an explicit store of links, a locale for the ring that all lists of threads interpret.
    Allocator: the contract of a block allocator, a locale.
  \<^item> Api_Types, Api_Messages, Flexpage, Kernel_Interface: \<^verbatim>\<open>thread.h\<close>, \<^verbatim>\<open>threadstate.h\<close>,
    \<^verbatim>\<open>types.h\<close>, \<^verbatim>\<open>ipc.h\<close>, \<^verbatim>\<open>fpage.h\<close>,
    \<^verbatim>\<open>kernelinterface.h\<close>, \<^verbatim>\<open>memdesc.h\<close>, \<^verbatim>\<open>processor.cc\<close>.
  \<^item> Kmem, Kmem_Blocks: \<^verbatim>\<open>kmemory.cc\<close>, its functional behaviour on a sorted free list, and that it
    interprets the allocator contract.  Mdb_Alloc, Mdb_Pool, Mdb_Free, Mdb_Store: \<^verbatim>\<open>mapping_alloc.cc\<close>, the
    invariant of its pages, and that it interprets the same contract.
  \<^item> Asid, Page_Table: \<^verbatim>\<open>asid.h\<close>, \<^verbatim>\<open>pgent.h\<close>, \<^verbatim>\<open>tlb.h\<close>,
    lookups and \<^verbatim>\<open>add_mapping\<close>.  Mapping_Node, Mapping_Db: \<^verbatim>\<open>mapping.h\<close>,
    \<^verbatim>\<open>mapping.cc\<close>.  Mapping_Chain, Mapping_Tree: the chain of nodes of a frame is the pre-order of a tree of mappings;
    \<^verbatim>\<open>mdb_map\<close> adds a leaf, \<^verbatim>\<open>mdb_flush\<close> removes a subtree.
  \<^item> Ptab_Walker, Page_Transfer: \<^verbatim>\<open>linear_ptab_walker.cc\<close>; what mapping and unmapping do to one page, with page tables and mapping
    database together.  Memory_Control: \<^verbatim>\<open>memcontrol.cc\<close>.  Tlb: \<^verbatim>\<open>put_tc\<close>,
    \<^verbatim>\<open>purge_tc\<close> and the exception handlers of \<^verbatim>\<open>space.cc\<close>; the buffer stays free of double matches and
    coherent with the page tables.
  \<^item> Kernel_State, Tcb: \<^verbatim>\<open>tcb.h\<close> of both directories, \<^verbatim>\<open>utcb.h\<close>,
    \<^verbatim>\<open>thread.cc\<close> of the glue code.  Fpu: \<^verbatim>\<open>resources.cc\<close>; lazy switching implements a floating point unit
    per thread.
  \<^item> Scheduler, Wakeup, Dispatch, Timer, Glue_Timer: \<^verbatim>\<open>schedule.h\<close>, \<^verbatim>\<open>schedule.cc\<close>,
    \<^verbatim>\<open>timer.cc\<close>; the invariants \<open>ready_inv\<close> and \<open>wakeup_inv\<close> of the two kinds of queues, the
    choice of the next thread, the wakeup of the threads whose time has come, time slices and quanta.
  \<^item> Space, Pagefault: \<^verbatim>\<open>space.cc\<close> of both directories.  Unwind, Ipc, Send_Queue, Ext_Transfer:
    \<^verbatim>\<open>ipc.cc\<close>, \<^verbatim>\<open>ipcx.cc\<close>; rendezvous, blocking, errors, abort of a blocked operation, strings
    and map items.  Send_Queue states the contract of the send queues of all threads as a locale.
  \<^item> Thread, Interrupt, Thread_Control, Exregs, Exception: \<^verbatim>\<open>thread.cc\<close>, \<^verbatim>\<open>interrupt.cc\<close>,
    \<^verbatim>\<open>intctrl.h\<close>, \<^verbatim>\<open>exregs.cc\<close>, \<^verbatim>\<open>exception.cc\<close>; creation and deletion of threads, delivery of
    interrupts and exceptions as messages, and which errors leave the state unchanged.

  \<^item> Boot: \<^verbatim>\<open>init.cc\<close>, \<^verbatim>\<open>intctrl.cc\<close>, \<^verbatim>\<open>tlb.cc\<close>; the start establishes the
    invariants of the translation buffer, the address space identifiers and the kernel memory that other theories assume.

  The files \<^verbatim>\<open>ipc.cc\<close>, \<^verbatim>\<open>ipcx.cc\<close>, \<^verbatim>\<open>schedule.cc\<close>,
  \<^verbatim>\<open>space.cc\<close>, \<^verbatim>\<open>interrupt.cc\<close>, \<^verbatim>\<open>exregs.cc\<close> and
  \<^verbatim>\<open>processor.cc\<close> are read in \<^verbatim>\<open>api/backup\<close>, \<^verbatim>\<open>thread.cc\<close> in
  \<^verbatim>\<open>api/v4\<close>; the copy of \<^verbatim>\<open>thread.cc\<close> in the other directory is identical.

  \<^bold>\<open>How they interact.\<close>  \<^verbatim>\<open>switch_to\<close> runs other threads before it returns; as an argument, \<open>sw\<close>, it
  may return in any state, so that a theorem about a blocking operation speaks of the state before the switch and of what follows in
  whatever state the thread is dispatched again.  Ipc leaves the transfer of typed items as an argument \<open>xfer\<close>, which
  \<open>extended_transfer\<close> instantiates; that takes the page table walker as \<open>mapf\<close>, which \<open>map_fpage\<close> instantiates; the walker calls \<open>mdb_map\<close>
  and \<open>mdb_flush\<close>, which take their nodes from the allocators.  The theorem below composes these: a message
  with a map item maps the page.

  \<^bold>\<open>Arguments of the model.\<close>  \<open>sw\<close> and \<open>xfer\<close> as above; \<open>copy\<close> is the assembler copy of a string,
  \<open>unmap\<close> the walker as the space system calls use it; \<open>kip_addr\<close>, \<open>dummy_tcb\<close>, \<open>bls\<close> and \<open>sigma0_mapnode\<close>
  are addresses that the linker fixes; \<open>ins\<close> and \<open>kip_init\<close> are functions that the sources
  declare but do not define; \<open>rnd\<close> and \<open>resume\<close> are the random register of the translation buffer and the change of it by
  other threads.

  \<^bold>\<open>Loops.\<close>  A loop over a counter or a page size is a function with a termination proof.  A loop over pointers, which may not end on a
  damaged list, is a partial function into an option; that it ends under the invariant is part of the theorems
  (for instance \<open>kmem_alloc_spec\<close>, \<open>parse_wakeup_queues_correct\<close>, \<open>find_next_thread_correct\<close>, \<open>mdb_flush_refines\<close>, \<open>unwind_returns\<close>, \<open>extended_transfer_returns\<close>,
  \<open>timer_rearmed\<close>).  There is no fuel.  \<^verbatim>\<open>panic\<close>, \<^verbatim>\<open>enter_kdebug\<close>, \<^verbatim>\<open>UNIMPLEMENTED\<close> and
  \<^verbatim>\<open>spin_forever\<close> are endless loops in this configuration, and \<^verbatim>\<open>None\<close> in the model; assertions and traces are
  empty.  Shift counts that are variables are taken modulo 64, as the processor does; entries of a stack array that the
  code reads before it writes them are zero.

  \<^bold>\<open>Bounds.\<close>  Theorems about mapping and unmapping concern one page of 4 KB; the definitions
  have all page sizes.  The transfer of typed items is
  proved to end unless a call of \<open>map_fpage\<close> does not return or a string has to go to another address space, and to copy for
  one simple string within a space.  Time points, which the code treats
  as \<^verbatim>\<open>UNIMPLEMENTED\<close>, are excluded where a timeout is compared.

  \<^bold>\<open>Not modelled.\<close>  The code that only multiprocessors compile (cross-processor mailboxes, the remote variants of the
  system calls).  The assembler stubs of the port, which save and restore
  registers, and what precedes and follows \<^verbatim>\<open>init_arch\<close> in the boot sequence (console, cache and processor set-up).  The
  system call ProcessorControl, which has an empty body.  Cache flushes, which change nothing of the
  modelled state.  \<^verbatim>\<open>user_state.h\<close>, which no file includes.  The kernel debugger, the other architectures and platforms, the boot
  loaders, the user level programs and the compiler tools.
\<close>

section \<open>A page sent in a message\<close>

lemma get_untyped_cleared: "get_untyped (clear_receive_flags tag) = get_untyped tag"
proof -
  have "n < 6 \<Longrightarrow> bit (63 :: word_t) n" for n
    using bit_mask_iff [of 6 n, where 'a = word_t] by (simp add: mask_eq_exp_minus_1)
  then show ?thesis
    unfolding get_untyped_def clear_receive_flags_def bf_get_def by (intro bit_word_eqI) (auto simp: bit_simps)
qed

lemma kmem_end_transfer: "kmem (set_tag d tag (sub_flag t f (cancel_timeout t' s))) = kmem s"
  by (simp add: set_tag_def set_mr_def sub_flag_def)

lemma is_mappable_addr_cong: "kmem s' = kmem s \<Longrightarrow> is_mappable_addr space a s' = is_mappable_addr space a s"
  by (simp add: is_mappable_addr_def get_kip_page_area_def get_utcb_page_area_def space_word_def)

text \<open>C10: a message with a map item maps the page.  A thread sends, without propagation, a message of at most 62 untyped
  words and one map item for a page of the smallest size that its space, not sigma0's, maps, to a thread with another
  UTCB and a receive window.  If the
  receiver's tables reach a free entry at the address that the window and the send base select, both addresses are user
  addresses outside the kernel interface pages and UTCB areas, the sender's mapping node is at a depth below 255, a
  buffer for the new node can be allocated, and the page tables lie apart from the mapping nodes, then the transfer
  of the message succeeds, and the receiver's space maps this address to the same physical page; it is readable if
  the sender's page and the item's flexpage are, and writable if the sender's page is writable and the item's flexpage has
  both the write and the read right (one with the write right alone gives no right);
  in the mapping database the new mapping is the first child of the sender's.\<close>
theorem map_message_maps_page:
  assumes spaces: "get_space src s = space" "get_space dst s = tsp"
    and tag: "get_untyped (get_tag src s) = u" "get_typed (get_tag src s) = 2" "unat u \<le> 62" "\<not> is_propagated (get_tag src s)"
    and utcbs: "get_utcb src s \<noteq> get_utcb dst s"
    and item: "get_mr src (u + 1) s = item" "is_map_item item" "get_mr src (u + 2) s = fp"
    and window: "get_rcv_window (get_br dst 0 s) = rcv" "rcv \<noteq> 0"
    and addrs: "map_addresses fp (get_snd_base item) rcv = (12, f_addr, t_addr)" "take_bit 12 f_addr = 0"
      "is_user_area f_addr" "is_user_area t_addr" "\<not> is_sigma0_space space s"
      "is_mappable_addr space f_addr s" "is_mappable_addr tsp t_addr s"
    and source: "lookup_mapping space f_addr (kmem s) = Some (fslot, 0)" "fslot \<in> R"
    and dest: "page_slot tsp t_addr (kmem s) = Some tslot" "\<not> ent_is_valid (mem (kmem s) tslot)"
      "take_bit 1 tslot = 0" "take_bit 11 tsp = 0" "{tslot, tslot + MIPS64_PTAB_SIZE} \<subseteq> R - mdb_words bls - {r}"
      "page_tables tsp t_addr (kmem s) \<subseteq> R - {tslot, tslot + MIPS64_PTAB_SIZE}"
      "page_heads tsp t_addr (kmem s) \<subseteq> R - {tslot + MIPS64_PTAB_SIZE}"
    and frame: "frame_inv R bls A r (kmem s) ns" "entries (kmem s) ns = xs @ preorder d (Mapping fslot sp cs) @ ys"
      "ns ! length xs = (pg_mapnode fslot f_addr (kmem s), fslot)" "d < 255"
      "mdb_alloc_buffer bls sizeof_mapnode_t (kmem s) \<noteq> None"
  shows "\<exists>s' n ns'. transfer_message (extended_transfer copy (map_fpage bls sigma0_mapnode)) src dst s = Some (True, s') \<and>
    lookup_mapping tsp t_addr (kmem s') = Some (tslot, 0) \<and> pg_address tslot 0 (kmem s') = pg_address fslot 0 (kmem s) \<and>
    (pg_is_readable tslot (kmem s') \<longleftrightarrow> pg_is_readable fslot (kmem s) \<and> fpage_is_read fp) \<and>
    (pg_is_writable tslot (kmem s') \<longleftrightarrow> pg_is_writable fslot (kmem s) \<and> fpage_is_write fp \<and> fpage_is_read fp) \<and>
    frame_inv R bls (insert n A) r (kmem s') ns' \<and>
    entries (kmem s') ns' = xs @ preorder d (Mapping fslot sp (Mapping tslot tsp [] # cs)) @ ys"
proof -
  define t where "t = clear_receive_flags (get_tag src s)"
  have tf: "get_untyped t = u" "get_typed t = 2" "\<not> is_propagated t" "\<not> is_error t"
    using tag by (simp_all add: t_def get_untyped_cleared get_typed_cleared is_propagated_cleared clear_receive_flags_fields)
  have ng: "\<not> is_grant_item item" using item(2) by (simp add: is_map_item_def is_grant_item_def)
  obtain s1 where s1: "kmem s1 = kmem s" "sigma0_space s1 = sigma0_space s"
    "extended_transfer copy (map_fpage bls sigma0_mapnode) src dst t s =
      map_option (\<lambda>s2. (t, sub_flag src has_xfer_timeout (cancel_timeout src s2)))
        (map_fpage bls sigma0_mapnode space fp (get_snd_base item) tsp rcv False s1)"
    using extended_transfer_map_item [of t src s dst item fp rcv copy "map_fpage bls sigma0_mapnode"] tf tag utcbs item window ng
      spaces by auto
  note c = is_mappable_addr_cong [OF s1(1)]
  have s0: "\<not> is_sigma0_space space s1" using addrs(5) by (simp add: is_sigma0_space_def s1(2))
  obtain s2 n ns' where r: "map_fpage bls sigma0_mapnode space fp (get_snd_base item) tsp rcv False s1 = Some s2"
    "lookup_mapping tsp t_addr (kmem s2) = Some (tslot, 0)" "pg_address tslot 0 (kmem s2) = pg_address fslot 0 (kmem s)"
    "pg_is_readable tslot (kmem s2) \<longleftrightarrow> pg_is_readable fslot (kmem s) \<and> fpage_is_read fp"
    "pg_is_writable tslot (kmem s2) \<longleftrightarrow> pg_is_writable fslot (kmem s) \<and> fpage_is_write fp \<and> fpage_is_read fp"
    "frame_inv R bls (insert n A) r (kmem s2) ns'"
    "entries (kmem s2) ns' = xs @ preorder d (Mapping fslot sp (Mapping tslot tsp [] # cs)) @ ys"
    using map_fpage_page [of fp "get_snd_base item" rcv f_addr t_addr space s1 fslot tsp tslot R bls A r ns xs d sp cs ys sigma0_mapnode,
        unfolded s1(1) c, OF addrs(1,2) source(1) dest(1,2) addrs(3,4) s0 addrs(6,7) frame(1-4) dest(3,4) frame(5) source(2) dest(5-7)]
    by blast
  have "transfer_message (extended_transfer copy (map_fpage bls sigma0_mapnode)) src dst s =
      Some (True, set_tag dst t (sub_flag src has_xfer_timeout (cancel_timeout src s2)))"
    using tf s1(3) r(1) by (simp add: transfer_message_def Let_def t_def [symmetric] copy_mrs_def)
  then show ?thesis using r(2-7) by (auto simp: kmem_end_transfer)
qed

text \<open>The state of \<^verbatim>\<open>two_spaces\<close> with a sender in the first space and a receiver in the second.\<close>

definition map_pair :: kstate where
  "map_pair = two_spaces\<lparr>
     tcbs := (tcbs blank_state)(Tcb 1 := blank_tcb\<lparr>t_utcb := Utcb 1, t_space := 0x80000\<rparr>,
       Tcb 2 := blank_tcb\<lparr>t_utcb := Utcb 2, t_space := 0x90000\<rparr>),
     utcbs := (utcbs blank_state)(Utcb 1 := blank_utcb\<lparr>u_mr := (\<lambda>_. 0)(0 := 0x80, 1 := 8, 2 := 0xC7)\<rparr>,
       Utcb 2 := blank_utcb\<lparr>u_br := (\<lambda>_. 0)(0 := 0xC0)\<rparr>)\<rparr>"

lemma map_pair_kmem: "kmem map_pair = one_mapping" using two_spaces_facts(1) by (simp add: map_pair_def)

theorem map_message_maps_page_witness:
  "\<exists>s'. transfer_message (extended_transfer (\<lambda>_ _ _ s. Some s) (map_fpage 0x40000 0)) (Tcb 1) (Tcb 2) map_pair = Some (True, s') \<and>
     lookup_mapping 0x90000 0 (kmem s') = Some (0xFF00000000070000, 0)"
proof -
  have "{0xFF00000000070000, 0xFF00000000072000} \<subseteq> kernel_words - mdb_words 0x40000 - {0x50000}"
    using kernel_words_free by (auto simp: kernel_words_def)
  moreover have "\<not> ent_is_valid (mem one_mapping 0xFF00000000070000)"
    by (simp add: one_mapping_tables ent_is_valid_def bf_get_def)
  moreover have "page_tables 0x90000 0 one_mapping \<subseteq> kernel_words - {0xFF00000000070000, 0xFF00000000072000}"
    "page_heads 0x90000 0 one_mapping \<subseteq> kernel_words - {0xFF00000000072000}"
    by (simp_all add: two_spaces_slots kernel_words_def)
  moreover have "is_mappable_addr 0x80000 0 map_pair" "is_mappable_addr 0x90000 0 map_pair"
    using two_spaces_facts(1-3) is_mappable_addr_cong [of map_pair two_spaces] by (simp_all add: map_pair_kmem)
  moreover have "\<not> is_sigma0_space 0x80000 map_pair" using two_spaces_facts(4) by (simp add: is_sigma0_space_def map_pair_def)
  moreover have "get_untyped 0x80 = 0" "get_typed 0x80 = 2" "\<not> is_propagated 0x80" "is_map_item 8" "get_rcv_window 0xC0 = 0xC0"
    "get_snd_base 8 = 0" "map_addresses 0xC7 0 0xC0 = (12, 0, 0)"
    by code_simp+
  moreover have "get_space (Tcb 1) map_pair = 0x80000" "get_space (Tcb 2) map_pair = 0x90000" "get_tag (Tcb 1) map_pair = 0x80"
    "get_mr (Tcb 1) 1 map_pair = 8" "get_mr (Tcb 1) 2 map_pair = 0xC7" "get_br (Tcb 2) 0 map_pair = 0xC0"
    "get_utcb (Tcb 1) map_pair \<noteq> get_utcb (Tcb 2) map_pair"
    by (simp_all add: get_space_def get_tag_def get_mr_def get_br_def get_utcb_def map_pair_def)
  ultimately show ?thesis
    using map_message_maps_page [of "Tcb 1" map_pair "0x80000" "Tcb 2" "0x90000" 0 8 "0xC7" "0xC0" 0 0 "0xFF00000000030000" kernel_words
        "0xFF00000000070000" "0x40000" "0x50000" one_page_nodes "[(0x10040, 0xFF00000000030000)]" "[]" 0 "0x80000" "[]" "[]"
        "\<lambda>_ _ _ s. Some s" 0]
      two_spaces_facts two_spaces_slots two_spaces_source one_mapping_frame
    by (auto simp: MIPS64_PTAB_SIZE_def kernel_words_def map_pair_kmem)
qed

end
